(* ===== verification/Prelude.thy ===== *)
theory Prelude
  imports Main "HOL-Library.Word"
begin

unbundle bit_operations_syntax

text \<open>
  What every component of the development shares: the names of the C integer types, the
  little-endian image of a word in memory (the target is a little-endian Cortex-M4), the
  programming rule of a NOR flash on a memory of bytes, and generic facts about lists read
  out of a memory.  The collection \<open>mem_simps\<close> carries the facts that evaluate a read
  after a write; \<open>le_simps\<close> the facts on little-endian images.
\<close>

named_theorems mem_simps \<open>reads of a memory after a write\<close>
named_theorems le_simps \<open>little-endian images of words\<close>

type_synonym u8 = "8 word"
type_synonym u16 = "16 word"
type_synonym u32 = "32 word"
type_synonym u64 = "64 word"
type_synonym byte = "8 word"
type_synonym mem = "nat \<Rightarrow> byte"

section \<open>Little-endian images\<close>

primrec le_bytes :: "nat \<Rightarrow> 'a::len word \<Rightarrow> byte list" where
  "le_bytes 0 w = []"
| "le_bytes (Suc n) w = ucast w # le_bytes n (drop_bit 8 w)"

primrec le_word :: "byte list \<Rightarrow> 'a::len word" where
  "le_word [] = 0"
| "le_word (b # bs) = (ucast b OR push_bit 8 (le_word bs))"

lemma length_le_bytes [simp, le_simps]: "length (le_bytes n w) = n"
  by (induction n arbitrary: w) auto

lemma le_bytes_numeral:
  "le_bytes (numeral n) w = ucast w # le_bytes (pred_numeral n) (drop_bit 8 w)"
  by (simp add: numeral_eq_Suc)

lemma le_word_le_bytes_take: "le_word (le_bytes n w) = (take_bit (8 * n) w :: 'a::len word)"
proof (induction n arbitrary: w)
  case 0
  then show ?case by simp
next
  case (Suc n)
  show ?case
    by (rule bit_word_eqI)
      (auto simp: Suc bit_simps)
qed

lemma le_word_le_bytes [simp, le_simps]:
  "LENGTH('a) = 8 * n \<Longrightarrow> le_word (le_bytes n w) = (w :: 'a::len word)"
  by (metis le_word_le_bytes_take take_bit_length_eq)

lemma le_bytes_le_word [simp, le_simps]:
  "length bs = n \<Longrightarrow> 8 * n \<le> LENGTH('a) \<Longrightarrow> le_bytes n (le_word bs :: 'a::len word) = bs"
proof (induction bs arbitrary: n)
  case Nil
  then show ?case by simp
next
  case (Cons b bs)
  then obtain k where n: "n = Suc k" "length bs = k" by auto
  have b: "ucast (ucast b OR push_bit 8 (le_word bs) :: 'a word) = b"
    using Cons.prems by (intro bit_word_eqI) (auto simp: bit_simps n)
  have hi: "take_bit (8 * k) (drop_bit 8 (ucast b OR push_bit 8 (le_word bs) :: 'a word))
    = take_bit (8 * k) (le_word bs :: 'a word)"
    using Cons.prems by (intro bit_word_eqI) (auto simp: bit_simps n dest: bit_imp_le_length)
  have cong: "le_bytes m (v :: 'a word) = le_bytes m w"
    if "take_bit (8 * m) v = take_bit (8 * m) w" "8 * m \<le> LENGTH('a)" for m v w
    using that
  proof (induction m arbitrary: v w)
    case 0
    then show ?case by simp
  next
    case (Suc m)
    have tb: "bit v i = bit w i" if "i < 8 * Suc m" for i
      using that Suc.prems(1) by (metis bit_take_bit_iff)
    have "take_bit (8 * m) (drop_bit 8 v) = take_bit (8 * m) (drop_bit 8 w)"
      by (intro bit_word_eqI) (auto simp: bit_simps tb)
    moreover have "ucast v = (ucast w :: byte)"
      by (intro bit_word_eqI) (auto simp: bit_simps tb)
    ultimately show ?case using Suc.IH [of "drop_bit 8 v" "drop_bit 8 w"] Suc.prems(2) by simp
  qed
  have "le_bytes k (drop_bit 8 (ucast b OR push_bit 8 (le_word bs) :: 'a word))
    = le_bytes k (le_word bs :: 'a word)"
    by (rule cong [OF hi]) (use Cons.prems n in simp)
  also have "\<dots> = bs" using Cons n by simp
  finally show ?case using b by (simp add: n)
qed

lemma le_word_inj: "le_word bs = (le_word cs :: 'a::len word) \<Longrightarrow> length bs = n \<Longrightarrow> length cs = n
  \<Longrightarrow> 8 * n \<le> LENGTH('a) \<Longrightarrow> bs = cs"
  by (metis le_bytes_le_word)

text \<open>The bytes of a string literal, and the string that starts a zero-terminated array.\<close>

definition str_bytes :: "string \<Rightarrow> byte list" where
  "str_bytes s = map of_char s"

definition c_str :: "byte list \<Rightarrow> byte list" where
  "c_str bs = takeWhile (\<lambda>b. b \<noteq> 0) bs"

section \<open>Memories of bytes\<close>

definition mem_read :: "mem \<Rightarrow> nat \<Rightarrow> nat \<Rightarrow> byte list" where
  "mem_read m a n = map m [a..<a + n]"

text \<open>Programming NOR flash clears bits and never sets one: the new cell is the old cell
  and the data, bit by bit.  Erasing sets every bit of the erased cells.\<close>

definition nor_prog :: "mem \<Rightarrow> nat \<Rightarrow> byte list \<Rightarrow> mem" where
  "nor_prog m a bs = (\<lambda>x. if a \<le> x \<and> x < a + length bs then m x AND bs ! (x - a) else m x)"

definition mem_fill :: "mem \<Rightarrow> nat \<Rightarrow> nat \<Rightarrow> byte \<Rightarrow> mem" where
  "mem_fill m a n v = (\<lambda>x. if a \<le> x \<and> x < a + n then v else m x)"

abbreviation nor_erase :: "mem \<Rightarrow> nat \<Rightarrow> nat \<Rightarrow> mem" where
  "nor_erase m a n \<equiv> mem_fill m a n (- 1)"

lemma length_mem_read [simp]: "length (mem_read m a n) = n"
  by (simp add: mem_read_def)

lemma nth_mem_read [simp]: "i < n \<Longrightarrow> mem_read m a n ! i = m (a + i)"
  by (simp add: mem_read_def)

lemma mem_read_0 [simp]: "mem_read m a 0 = []"
  by (simp add: mem_read_def)

lemma mem_read_add: "mem_read m a (n + k) = mem_read m a n @ mem_read m (a + n) k"
  by (rule nth_equalityI) (auto simp: nth_append)

lemma mem_read_cong: "(\<And>x. a \<le> x \<Longrightarrow> x < a + n \<Longrightarrow> m x = m' x) \<Longrightarrow> mem_read m a n = mem_read m' a n"
  by (rule nth_equalityI) auto

lemma mem_read_eq_iff: "mem_read m a n = bs \<longleftrightarrow> length bs = n \<and> (\<forall>i<n. m (a + i) = bs ! i)"
  by (auto simp: list_eq_iff_nth_eq)

lemma mem_read_split:
  "mem_read m a n = xs @ ys \<Longrightarrow>
     mem_read m a (length xs) = xs \<and> mem_read m (a + length xs) (length ys) = ys"
  by (metis append_eq_append_conv length_append length_mem_read mem_read_add)

lemma mem_read_appI: "mem_read m a (length xs) = xs \<Longrightarrow> mem_read m (a + length xs) k = ys
  \<Longrightarrow> mem_read m a (length xs + k) = xs @ ys"
  by (simp add: mem_read_add)

lemma take_mem_read [simp]: "take k (mem_read m a n) = mem_read m a (min k n)"
  by (rule nth_equalityI) auto

lemma drop_mem_read [simp]: "drop k (mem_read m a n) = mem_read m (a + k) (n - k)"
  by (rule nth_equalityI) (auto simp: add.assoc)

lemma nor_prog_outside [mem_simps]:
  "b + n \<le> a \<or> a + length bs \<le> b \<Longrightarrow> mem_read (nor_prog m a bs) b n = mem_read m b n"
  by (rule mem_read_cong) (auto simp: nor_prog_def)

lemma mem_fill_outside [mem_simps]:
  "b + n \<le> a \<or> a + k \<le> b \<Longrightarrow> mem_read (mem_fill m a k v) b n = mem_read m b n"
  by (rule mem_read_cong) (auto simp: mem_fill_def)

lemma mem_fill_inside [mem_simps]:
  "a \<le> b \<Longrightarrow> b + n \<le> a + k \<Longrightarrow> mem_read (mem_fill m a k v) b n = replicate n v"
  by (rule nth_equalityI) (auto simp: mem_fill_def)

lemma nor_prog_inside:
  "mem_read (nor_prog m a bs) a (length bs) = map2 (AND) (mem_read m a (length bs)) bs"
  by (rule nth_equalityI) (auto simp: nor_prog_def)

lemma map2_and_ones: "length bs = n \<Longrightarrow> map2 (AND) (replicate n (- 1)) bs = (bs :: byte list)"
  by (rule nth_equalityI) auto

lemma nor_prog_erased [mem_simps]:
  "mem_read m a (length bs) = replicate (length bs) (- 1) \<Longrightarrow>
     mem_read (nor_prog m a bs) a (length bs) = bs"
  by (simp add: nor_prog_inside map2_and_ones)

lemma nor_prog_Nil [simp]: "nor_prog m a [] = m"
  by (rule ext) (auto simp: nor_prog_def)

lemma nor_prog_append: "nor_prog m a (xs @ ys) = nor_prog (nor_prog m a xs) (a + length xs) ys"
  by (rule ext) (auto simp: nor_prog_def nth_append)

lemma mem_fill_add: "mem_fill m a (n + k) v = mem_fill (mem_fill m a n v) (a + n) k v"
  by (rule ext) (auto simp: mem_fill_def)

lemma mem_fill_0 [simp]: "mem_fill m a 0 v = m"
  by (rule ext) (auto simp: mem_fill_def)

section \<open>Unsigned 32-bit and 16-bit arithmetic on naturals\<close>

text \<open>C's unsigned subtraction and the counters wrap; these are the wrap-arounds written out.\<close>

definition u32_sub :: "nat \<Rightarrow> nat \<Rightarrow> nat" where
  "u32_sub a b = (a + 2 ^ 32 - b) mod 2 ^ 32"

definition u16_inc :: "nat \<Rightarrow> nat" where
  "u16_inc n = (n + 1) mod 2 ^ 16"

definition u16_dec :: "nat \<Rightarrow> nat" where
  "u16_dec n = (n + 2 ^ 16 - 1) mod 2 ^ 16"

lemma wrap_sub: "b \<le> a \<Longrightarrow> a < M \<Longrightarrow> (a + M - b) mod M = a - (b :: nat)"
  by (auto simp: le_iff_add)

lemma u32_sub_eq [simp]: "b \<le> a \<Longrightarrow> a < 2 ^ 32 \<Longrightarrow> u32_sub a b = a - b"
  unfolding u32_sub_def by (rule wrap_sub)

lemma u16_inc_eq [simp]: "n < 65535 \<Longrightarrow> u16_inc n = Suc n"
  by (simp add: u16_inc_def)

lemma u16_dec_eq [simp]: "0 < n \<Longrightarrow> n < 2 ^ 16 \<Longrightarrow> u16_dec n = n - 1"
  unfolding u16_dec_def by (rule wrap_sub) auto

section \<open>Reading list prefixes\<close>

lemma take_map_upt: "k \<le> n \<Longrightarrow> take k (map f [a..<a + n]) = map f [a..<a + k]"
  by (simp add: take_map)

lemma replicate_split: "replicate (n + k) x = replicate n x @ replicate k x"
  by (rule replicate_add)

section \<open>Exclusive or\<close>

lemma xor_right_cancel [simp]: "x XOR y = z XOR y \<longleftrightarrow> x = (z :: 'a::len word)"
proof
  assume h: "x XOR y = z XOR y"
  show "x = z"
  proof (rule bit_word_eqI)
    fix n
    have "bit (x XOR y) n \<longleftrightarrow> bit (z XOR y) n" using h by simp
    then show "bit x n \<longleftrightarrow> bit z n" by (auto simp: bit_xor_iff)
  qed
qed simp

lemma xor_eq_0 [simp]: "x XOR y = 0 \<longleftrightarrow> x = (y :: 'a::len word)"
  using xor_right_cancel [of x y y] by simp

end
