(* ===== verification/Hal_Flash.thy ===== *)
theory Hal_Flash
  imports Prelude
begin

unbundle bit_operations_syntax

text \<open>
  The internal flash driver, \<^verbatim>\<open>mcu/driver_ln882x/src/hal/flash.c\<close>.  The SPI NOR chip behind
  the QSPI controller is hardware: it is the parameter \<open>chip\<close> of every operation, a record
  of what the controller can do with it (send a command buffer, read back, read a byte
  through the cache window).  Its datasheet behaviour is the locale \<open>spi_nor\<close>.  The
  interrupt masking, the cache control and the busy-wait \<^verbatim>\<open>FLASH_OperationWait\<close> around each
  command have no counterpart: a command of the model has completed when it returns.

  The group of lemmas shows that the page-splitting \<open>FLASH_Program\<close>, the mixed 4K/32K
  \<open>FLASH_Erase\<close> and both reads do on the cells what the flat NOR operations
  \<open>nor_prog\<close>, \<open>nor_erase\<close> and \<open>mem_read\<close> do.
\<close>

section \<open>The chip\<close>

record 'c spi_chip =
  spi_write :: "byte list \<Rightarrow> 'c \<Rightarrow> 'c"
  spi_read :: "byte list \<Rightarrow> nat \<Rightarrow> 'c \<Rightarrow> byte list"
  xip_byte :: "nat \<Rightarrow> 'c \<Rightarrow> byte"

definition FLASH_WRITE_ENABLE :: byte where "FLASH_WRITE_ENABLE = 0x06"
definition FLASH_STANDARD_READ :: byte where "FLASH_STANDARD_READ = 0x03"
definition FLASH_PAGE_PROGRAM :: byte where "FLASH_PAGE_PROGRAM = 0x02"
definition FLASH_SECURITY_PROGRAM :: byte where "FLASH_SECURITY_PROGRAM = 0x42"
definition FLASH_SECTOR_ERASE :: byte where "FLASH_SECTOR_ERASE = 0x20"
definition FLASH_32KB_BLOCK_ERASE :: byte where "FLASH_32KB_BLOCK_ERASE = 0x52"
definition FLASH_64KB_BLOCK_ERASE :: byte where "FLASH_64KB_BLOCK_ERASE = 0xd8"

definition FLASH_PAGE_SIZE :: nat where "FLASH_PAGE_SIZE = 256"
definition FALSH_SIZE_4K :: nat where "FALSH_SIZE_4K = 4 * 1024"
definition FALSH_SIZE_BLOCK_32K :: nat where "FALSH_SIZE_BLOCK_32K = 32 * 1024"
definition FALSH_SIZE_MAX :: nat where "FALSH_SIZE_MAX = 4 * 1024 * 1024"

definition FLASH_WRITE_NON_VOLATILE_SR :: byte where "FLASH_WRITE_NON_VOLATILE_SR = 0x01"
definition FLASH_READ_STATUS_REG_1 :: byte where "FLASH_READ_STATUS_REG_1 = 0x05"
definition FLASH_READ_STATUS_REG_2 :: byte where "FLASH_READ_STATUS_REG_2 = 0x35"
definition FLASH_WRITE_DISABLE :: byte where "FLASH_WRITE_DISABLE = 0x04"
definition FLASH_CHIP_ERASE :: byte where "FLASH_CHIP_ERASE = 0x60"
definition FLASH_SUSPEND :: byte where "FLASH_SUSPEND = 0x75"
definition FLASH_RESUME :: byte where "FLASH_RESUME = 0x7A"
definition FLASH_READ_ID :: byte where "FLASH_READ_ID = 0x9F"
definition FLASH_READ_DEVICE_ID :: byte where "FLASH_READ_DEVICE_ID = 0x90"
definition FLASH_SECURITY_ERASE :: byte where "FLASH_SECURITY_ERASE = 0x44"
definition FLASH_SECURITY_READ :: byte where "FLASH_SECURITY_READ = 0x48"
definition FLASH_SECURITY_PAGE_SIZE :: nat where "FLASH_SECURITY_PAGE_SIZE = 256"

lemmas flash_cmd_defs =
  FLASH_WRITE_ENABLE_def FLASH_STANDARD_READ_def FLASH_PAGE_PROGRAM_def FLASH_SECURITY_PROGRAM_def
  FLASH_SECTOR_ERASE_def FLASH_32KB_BLOCK_ERASE_def FLASH_64KB_BLOCK_ERASE_def

lemmas flash_size_defs =
  FLASH_PAGE_SIZE_def FALSH_SIZE_4K_def FALSH_SIZE_BLOCK_32K_def FALSH_SIZE_MAX_def

datatype Flash_AreaType = NORMAL_AREA | SECURITY_AREA

datatype Flash_EraseType = ERASE_SECTOR_4KB | ERASE_BLOCK_32KB | ERASE_BLOCK_64KB | ERASE_CHIP

text \<open>The three address bytes of a command, most significant first.\<close>

definition addr24 :: "nat \<Rightarrow> byte list" where
  "addr24 offset = [of_nat (offset div 65536), of_nat (offset div 256), of_nat offset]"

section \<open>The operations\<close>

definition FLASH_WriteEnable :: "'c spi_chip \<Rightarrow> 'c \<Rightarrow> 'c" where
  "FLASH_WriteEnable chip c = spi_write chip [FLASH_WRITE_ENABLE] c"

text \<open>\<open>FLASH_Read\<close> returns the bytes it stores from \<open>buffer\<close> on; \<open>buffer\<close> is the address of
  the caller's buffer, whose alignment decides how the transfer is split.\<close>

definition FLASH_Read :: "'c spi_chip \<Rightarrow> nat \<Rightarrow> nat \<Rightarrow> nat \<Rightarrow> 'c \<Rightarrow> byte list" where
  "FLASH_Read chip offset len buffer c =
     (let shift = (if buffer mod 4 \<noteq> 0 then (4 - buffer mod 4) mod 4 else 0);
          length_in_words = (if shift < len then (len - shift) div 4 else 0);
          remainder = (if shift < len then (len - shift) mod 4 else 0);
          head = (if 0 < shift
                  then spi_read chip (FLASH_STANDARD_READ # addr24 offset) shift c else []);
          offset1 = offset + shift;
          body = (if 0 < length_in_words
                  then spi_read chip (FLASH_STANDARD_READ # addr24 offset1) (4 * length_in_words) c
                  else []);
          offset2 = offset1 + 4 * length_in_words;
          tail = (if 0 < remainder
                  then spi_read chip (FLASH_STANDARD_READ # addr24 offset2) remainder c else [])
      in head @ body @ tail)"

definition FLASH_ReadByCache :: "'c spi_chip \<Rightarrow> nat \<Rightarrow> nat \<Rightarrow> 'c \<Rightarrow> byte list" where
  "FLASH_ReadByCache chip offset len c = map (\<lambda>i. xip_byte chip (offset + i) c) [0..<len]"

definition FLASH_EraseBlock :: "'c spi_chip \<Rightarrow> nat \<Rightarrow> Flash_EraseType \<Rightarrow> 'c \<Rightarrow> 'c" where
  "FLASH_EraseBlock chip offset type c =
     (let cmd = (case type of
            ERASE_SECTOR_4KB \<Rightarrow> FLASH_SECTOR_ERASE
          | ERASE_BLOCK_32KB \<Rightarrow> FLASH_32KB_BLOCK_ERASE
          | ERASE_BLOCK_64KB \<Rightarrow> FLASH_64KB_BLOCK_ERASE
          | ERASE_CHIP \<Rightarrow> FLASH_SECTOR_ERASE)
      in spi_write chip (cmd # addr24 offset) (FLASH_WriteEnable chip c))"

text \<open>The three \<^verbatim>\<open>for\<close> loops of \<open>FLASH_Erase\<close>: \<open>n\<close> erases of one size from \<open>offset\<close> on.\<close>

primrec erase_blocks :: "'c spi_chip \<Rightarrow> Flash_EraseType \<Rightarrow> nat \<Rightarrow> nat \<Rightarrow> nat \<Rightarrow> 'c \<Rightarrow> 'c" where
  "erase_blocks chip type sz 0 offset c = c"
| "erase_blocks chip type sz (Suc n) offset c =
     erase_blocks chip type sz n (offset + sz) (FLASH_EraseBlock chip offset type c)"

definition FLASH_Erase :: "'c spi_chip \<Rightarrow> nat \<Rightarrow> nat \<Rightarrow> 'c \<Rightarrow> 'c" where
  "FLASH_Erase chip offset len c =
     (if FALSH_SIZE_BLOCK_32K \<le> len then
        (let tailing_length = (offset - offset mod FALSH_SIZE_BLOCK_32K + FALSH_SIZE_BLOCK_32K) - offset;
             tailing_4k_num = tailing_length div FALSH_SIZE_4K mod 256;
             c1 = erase_blocks chip ERASE_SECTOR_4KB FALSH_SIZE_4K tailing_4k_num offset c;
             tmpoffset1 = offset + tailing_4k_num * FALSH_SIZE_4K;
             remainder_len = len - tailing_length;
             num_32k = remainder_len div FALSH_SIZE_BLOCK_32K mod 65536;
             remainder_len' = remainder_len mod FALSH_SIZE_BLOCK_32K;
             num_4k = (remainder_len' div FALSH_SIZE_4K
                       + (if remainder_len' mod FALSH_SIZE_4K \<noteq> 0 then 1 else 0)) mod 65536;
             c2 = erase_blocks chip ERASE_BLOCK_32KB FALSH_SIZE_BLOCK_32K num_32k tmpoffset1 c1;
             tmpoffset2 = tmpoffset1 + num_32k * FALSH_SIZE_BLOCK_32K
         in erase_blocks chip ERASE_SECTOR_4KB FALSH_SIZE_4K num_4k tmpoffset2 c2)
      else
        (let num_4k = (len div FALSH_SIZE_4K
                       + (if len mod FALSH_SIZE_4K \<noteq> 0 then 1 else 0)) mod 65536
         in erase_blocks chip ERASE_SECTOR_4KB FALSH_SIZE_4K num_4k offset c))"

definition FLASH_PageProgramGeneral ::
  "'c spi_chip \<Rightarrow> Flash_AreaType \<Rightarrow> nat \<Rightarrow> byte list \<Rightarrow> 'c \<Rightarrow> 'c" where
  "FLASH_PageProgramGeneral chip type offset buffer c =
     (let cmd = (if type = SECURITY_AREA then FLASH_SECURITY_PROGRAM else FLASH_PAGE_PROGRAM)
      in spi_write chip (cmd # addr24 offset @ buffer) (FLASH_WriteEnable chip c))"

primrec program_pages ::
  "'c spi_chip \<Rightarrow> Flash_AreaType \<Rightarrow> nat \<Rightarrow> nat \<Rightarrow> byte list \<Rightarrow> 'c \<Rightarrow> 'c" where
  "program_pages chip type 0 offset buffer c = c"
| "program_pages chip type (Suc n) offset buffer c =
     program_pages chip type n (offset + FLASH_PAGE_SIZE) (drop FLASH_PAGE_SIZE buffer)
       (FLASH_PageProgramGeneral chip type offset (take FLASH_PAGE_SIZE buffer) c)"

text \<open>\<open>buffer\<close> holds exactly the bytes to program: the argument \<^verbatim>\<open>length\<close> of the C function
  is its length.\<close>

definition FLASH_ProgramGeneral ::
  "'c spi_chip \<Rightarrow> Flash_AreaType \<Rightarrow> nat \<Rightarrow> byte list \<Rightarrow> 'c \<Rightarrow> int \<times> 'c" where
  "FLASH_ProgramGeneral chip type offset buffer c =
     (let page_base = offset - offset mod FLASH_PAGE_SIZE;
          prog_length = (if page_base \<noteq> offset
                         then min (length buffer) (page_base + FLASH_PAGE_SIZE - offset) else 0);
          c1 = (if page_base \<noteq> offset
                then FLASH_PageProgramGeneral chip type offset (take prog_length buffer) c else c);
          buffer1 = drop prog_length buffer;
          offset1 = offset + prog_length;
          cycles = length buffer1 div FLASH_PAGE_SIZE mod 65536;
          c2 = program_pages chip type cycles offset1 buffer1 c1;
          remainder = length buffer1 mod FLASH_PAGE_SIZE;
          offset2 = offset1 + cycles * FLASH_PAGE_SIZE;
          buffer2 = drop (cycles * FLASH_PAGE_SIZE) buffer1;
          c3 = (if remainder \<noteq> 0
                then FLASH_PageProgramGeneral chip type offset2 (take remainder buffer2) c2 else c2)
      in (0, c3))"

definition FLASH_Program :: "'c spi_chip \<Rightarrow> nat \<Rightarrow> byte list \<Rightarrow> 'c \<Rightarrow> int \<times> 'c" where
  "FLASH_Program chip offset buffer c = FLASH_ProgramGeneral chip NORMAL_AREA offset buffer c"

section \<open>Identification, status registers and the security area\<close>

definition FLASH_ChipErase :: "'c spi_chip \<Rightarrow> 'c \<Rightarrow> 'c" where
  "FLASH_ChipErase chip c = spi_write chip [FLASH_CHIP_ERASE] (FLASH_WriteEnable chip c)"

definition FLASH_ReadID :: "'c spi_chip \<Rightarrow> 'c \<Rightarrow> u32" where
  "FLASH_ReadID chip c =
     (let read_back = spi_read chip [FLASH_READ_ID] 3 c
      in push_bit 16 (ucast (read_back ! 0)) OR push_bit 8 (ucast (read_back ! 1)) OR ucast (read_back ! 2))"

definition FLASH_ReadDeviceID :: "'c spi_chip \<Rightarrow> 'c \<Rightarrow> u16" where
  "FLASH_ReadDeviceID chip c =
     (let read_back = spi_read chip [FLASH_READ_DEVICE_ID, 0, 0, 0] 2 c
      in push_bit 8 (ucast (read_back ! 0)) OR ucast (read_back ! 1))"

definition FLASH_ReadSR1 :: "'c spi_chip \<Rightarrow> 'c \<Rightarrow> u8" where
  "FLASH_ReadSR1 chip c = spi_read chip [FLASH_READ_STATUS_REG_1] 1 c ! 0"

definition FLASH_ReadSR2 :: "'c spi_chip \<Rightarrow> 'c \<Rightarrow> u8" where
  "FLASH_ReadSR2 chip c = spi_read chip [FLASH_READ_STATUS_REG_2] 1 c ! 0"

definition FLASH_ReadStatus :: "'c spi_chip \<Rightarrow> 'c \<Rightarrow> u16" where
  "FLASH_ReadStatus chip c =
     (let low = FLASH_ReadSR1 chip c; high = FLASH_ReadSR2 chip c
      in push_bit 8 (ucast high) OR (ucast low AND 0xFF))"

definition FLASH_ProgramEraseSuspend :: "'c spi_chip \<Rightarrow> 'c \<Rightarrow> 'c" where
  "FLASH_ProgramEraseSuspend chip c = spi_write chip [FLASH_SUSPEND] c"

definition FLASH_ProgramEraseResume :: "'c spi_chip \<Rightarrow> 'c \<Rightarrow> 'c" where
  "FLASH_ProgramEraseResume chip c = spi_write chip [FLASH_RESUME] c"

definition FLASH_WriteDisable :: "'c spi_chip \<Rightarrow> 'c \<Rightarrow> 'c" where
  "FLASH_WriteDisable chip c = spi_write chip [FLASH_WRITE_DISABLE] c"

text \<open>The bit fields of the status registers: \<open>SRP\<close> is bit 7 and \<open>BP0_4\<close> bits 2 to 6 of the first,
  \<open>QE\<close> bit 1, \<open>LB\<close> bit 2 and \<open>CMP\<close> bit 6 of the second.\<close>

definition FLASH_LockOTP :: "'c spi_chip \<Rightarrow> 'c \<Rightarrow> 'c" where
  "FLASH_LockOTP chip c =
     (let status1 = spi_read chip [FLASH_READ_STATUS_REG_1] 1 c ! 0;
          status2 = set_bit 2 (spi_read chip [FLASH_READ_STATUS_REG_2] 1 c ! 0)
      in spi_write chip [FLASH_WRITE_NON_VOLATILE_SR, status1, status2] (FLASH_WriteEnable chip c))"

definition FLASH_GetOTPState :: "'c spi_chip \<Rightarrow> 'c \<Rightarrow> bool" where
  "FLASH_GetOTPState chip c \<longleftrightarrow> bit (spi_read chip [FLASH_READ_STATUS_REG_2] 1 c ! 0) 2"

definition FLASH_QuadModeEnable :: "'c spi_chip \<Rightarrow> bool \<Rightarrow> 'c \<Rightarrow> 'c" where
  "FLASH_QuadModeEnable chip enable c =
     (let status1 = spi_read chip [FLASH_READ_STATUS_REG_1] 1 c ! 0;
          status2 = spi_read chip [FLASH_READ_STATUS_REG_2] 1 c ! 0;
          (status1, status2) =
            (if bit status2 6 \<or> status1 AND 0x7C \<noteq> 0 \<or> bit status1 7 \<or> bit status2 1 \<noteq> enable
             then (status1 AND NOT 0xFC,
                   (if enable then set_bit 1 else unset_bit 1) (unset_bit 6 status2))
             else (status1, status2))
      in spi_write chip [FLASH_WRITE_NON_VOLATILE_SR, status1, status2] (FLASH_WriteEnable chip c))"

definition FLASH_SecurityAreaErase :: "'c spi_chip \<Rightarrow> nat \<Rightarrow> 'c \<Rightarrow> 'c" where
  "FLASH_SecurityAreaErase chip offset c =
     spi_write chip (FLASH_SECURITY_ERASE # addr24 offset) (FLASH_WriteEnable chip c)"

definition FLASH_SecurityAreaProgram :: "'c spi_chip \<Rightarrow> nat \<Rightarrow> byte list \<Rightarrow> 'c \<Rightarrow> int \<times> 'c" where
  "FLASH_SecurityAreaProgram chip offset buf c = FLASH_ProgramGeneral chip SECURITY_AREA offset buf c"

definition FLASH_SecurityAreaRead :: "'c spi_chip \<Rightarrow> nat \<Rightarrow> nat \<Rightarrow> 'c \<Rightarrow> byte list" where
  "FLASH_SecurityAreaRead chip offset len c =
     (let page_num = len div FLASH_SECURITY_PAGE_SIZE mod 256;
          remainder = len mod FLASH_SECURITY_PAGE_SIZE;
          page = (\<lambda>i. spi_read chip (FLASH_SECURITY_READ # addr24 (offset + i * FLASH_SECURITY_PAGE_SIZE) @ [0])
                        FLASH_SECURITY_PAGE_SIZE c);
          last = (if remainder \<noteq> 0
                  then spi_read chip (FLASH_SECURITY_READ # addr24 (offset + page_num * FLASH_SECURITY_PAGE_SIZE) @ [0])
                         remainder c
                  else [])
      in concat (map page [0..<page_num]) @ last)"

section \<open>The chip's datasheet\<close>

text \<open>
  What the driver relies on of the chip: a page program inside one 256-byte page clears bits,
  a sector (block) erase at an aligned address sets the 4 KB (32 KB) to ones, each when the
  write-enable command went before it; a standard read and the cache window return the cells.
  \<open>cells\<close> is the array of the chip as a memory.
\<close>

locale spi_nor =
  fixes chip :: "'c spi_chip" and cells :: "'c \<Rightarrow> mem"
  assumes page_program: "a < FALSH_SIZE_MAX \<Longrightarrow> a mod FLASH_PAGE_SIZE + length bs \<le> FLASH_PAGE_SIZE \<Longrightarrow>
      cells (spi_write chip (FLASH_PAGE_PROGRAM # addr24 a @ bs) (spi_write chip [FLASH_WRITE_ENABLE] c))
        = nor_prog (cells c) a bs"
    and sector_erase: "a < FALSH_SIZE_MAX \<Longrightarrow> a mod FALSH_SIZE_4K = 0 \<Longrightarrow>
      cells (spi_write chip (FLASH_SECTOR_ERASE # addr24 a) (spi_write chip [FLASH_WRITE_ENABLE] c))
        = nor_erase (cells c) a FALSH_SIZE_4K"
    and block_erase: "a < FALSH_SIZE_MAX \<Longrightarrow> a mod FALSH_SIZE_BLOCK_32K = 0 \<Longrightarrow>
      cells (spi_write chip (FLASH_32KB_BLOCK_ERASE # addr24 a) (spi_write chip [FLASH_WRITE_ENABLE] c))
        = nor_erase (cells c) a FALSH_SIZE_BLOCK_32K"
    and standard_read: "a + n \<le> FALSH_SIZE_MAX \<Longrightarrow>
      spi_read chip (FLASH_STANDARD_READ # addr24 a) n c = mem_read (cells c) a n"
    and cache_read: "a < FALSH_SIZE_MAX \<Longrightarrow> xip_byte chip a c = cells c a"
begin

lemma page_program_cells:
  "a < FALSH_SIZE_MAX \<Longrightarrow> a mod FLASH_PAGE_SIZE + length bs \<le> FLASH_PAGE_SIZE \<Longrightarrow>
     cells (FLASH_PageProgramGeneral chip NORMAL_AREA a bs c) = nor_prog (cells c) a bs"
  by (simp add: FLASH_PageProgramGeneral_def FLASH_WriteEnable_def page_program)

lemma program_pages_cells:
  "a mod FLASH_PAGE_SIZE = 0 \<Longrightarrow> a + n * FLASH_PAGE_SIZE \<le> FALSH_SIZE_MAX \<Longrightarrow>
   n * FLASH_PAGE_SIZE \<le> length bs \<Longrightarrow>
     cells (program_pages chip NORMAL_AREA n a bs c)
       = nor_prog (cells c) a (take (n * FLASH_PAGE_SIZE) bs)"
proof (induction n arbitrary: a bs c)
  case 0
  then show ?case by simp
next
  case (Suc n)
  have one: "cells (FLASH_PageProgramGeneral chip NORMAL_AREA a (take FLASH_PAGE_SIZE bs) c)
      = nor_prog (cells c) a (take FLASH_PAGE_SIZE bs)"
    using Suc.prems by (intro page_program_cells) (auto simp: FLASH_PAGE_SIZE_def)
  have al: "(a + FLASH_PAGE_SIZE) mod FLASH_PAGE_SIZE = 0"
    using Suc.prems by simp
  have split: "take (FLASH_PAGE_SIZE + n * FLASH_PAGE_SIZE) bs
      = take FLASH_PAGE_SIZE bs @ take (n * FLASH_PAGE_SIZE) (drop FLASH_PAGE_SIZE bs)"
    by (simp add: take_add)
  have len: "length (take FLASH_PAGE_SIZE bs) = FLASH_PAGE_SIZE"
    using Suc.prems by (simp add: FLASH_PAGE_SIZE_def)
  show ?case
    using Suc.IH [OF al, of "drop FLASH_PAGE_SIZE bs"] Suc.prems
    by (simp add: one split nor_prog_append len)
qed

text \<open>The loop over whole pages and the last partial page, from a page boundary.\<close>

lemma program_aligned_cells:
  assumes al: "a mod FLASH_PAGE_SIZE = 0 \<or> bs = []" and fit: "a + length bs \<le> FALSH_SIZE_MAX"
    and k: "k = length bs div FLASH_PAGE_SIZE" and r: "r = length bs mod FLASH_PAGE_SIZE"
    and c2: "c2 = program_pages chip NORMAL_AREA k a bs c"
  shows "cells (if r \<noteq> 0 then FLASH_PageProgramGeneral chip NORMAL_AREA (a + k * FLASH_PAGE_SIZE)
           (take r (drop (k * FLASH_PAGE_SIZE) bs)) c2 else c2) = nor_prog (cells c) a bs"
proof (cases "bs = []")
  case True
  then show ?thesis by (simp add: c2 k r)
next
  case False
  let ?b = "drop (k * FLASH_PAGE_SIZE) bs"
  have a0: "a mod FLASH_PAGE_SIZE = 0" using al False by simp
  have kr: "k * FLASH_PAGE_SIZE + r = length bs" by (simp add: k r)
  have pages: "cells c2 = nor_prog (cells c) a (take (k * FLASH_PAGE_SIZE) bs)"
    unfolding c2 using a0 fit kr by (intro program_pages_cells) auto
  have lb: "length ?b = r" using kr by simp
  have last: "cells (FLASH_PageProgramGeneral chip NORMAL_AREA (a + k * FLASH_PAGE_SIZE) ?b c2)
      = nor_prog (cells c2) (a + k * FLASH_PAGE_SIZE) ?b" if "r \<noteq> 0"
  proof (rule page_program_cells)
    show "a + k * FLASH_PAGE_SIZE < FALSH_SIZE_MAX" using that fit kr by linarith
    have "r \<le> FLASH_PAGE_SIZE" by (simp add: r FLASH_PAGE_SIZE_def less_imp_le)
    then show "(a + k * FLASH_PAGE_SIZE) mod FLASH_PAGE_SIZE + length ?b \<le> FLASH_PAGE_SIZE"
      using a0 lb by simp
  qed
  have len: "length (take (k * FLASH_PAGE_SIZE) bs) = k * FLASH_PAGE_SIZE" using kr by simp
  have "nor_prog (cells c) a bs = nor_prog (cells c2) (a + k * FLASH_PAGE_SIZE) ?b"
    using nor_prog_append [of "cells c" a "take (k * FLASH_PAGE_SIZE) bs" ?b] pages len by simp
  then show ?thesis using last lb by (cases "r = 0") auto
qed

lemma program_head_cells:
  assumes fit: "a + length bs \<le> FALSH_SIZE_MAX"
    and off: "a mod FLASH_PAGE_SIZE \<noteq> 0"
    and p: "p = min (length bs) (FLASH_PAGE_SIZE - a mod FLASH_PAGE_SIZE)"
  shows "cells (FLASH_PageProgramGeneral chip NORMAL_AREA a (take p bs) c)
      = nor_prog (cells c) a (take p bs)"
proof (rule page_program_cells)
  have "a \<noteq> FALSH_SIZE_MAX" using off by (auto simp: flash_size_defs)
  then show "a < FALSH_SIZE_MAX" using fit by simp
  have "a mod FLASH_PAGE_SIZE < FLASH_PAGE_SIZE" by (simp add: FLASH_PAGE_SIZE_def)
  then show "a mod FLASH_PAGE_SIZE + length (take p bs) \<le> FLASH_PAGE_SIZE" by (simp add: p)
qed

lemma page_up: "(a + (256 - a mod 256)) mod 256 = (0::nat)"
proof -
  define q r where "q = a div 256" and "r = a mod 256"
  have "a = 256 * q + r" "r < 256" by (simp_all add: q_def r_def)
  then have "a + (256 - a mod 256) = 256 * (q + 1)" by (simp add: r_def [symmetric])
  then show ?thesis by simp
qed

lemma FLASH_Program_cells:
  assumes fit: "a + length bs \<le> FALSH_SIZE_MAX"
  shows "fst (FLASH_Program chip a bs c) = 0
    \<and> cells (snd (FLASH_Program chip a bs c)) = nor_prog (cells c) a bs"
proof -
  define p where "p = (if a mod FLASH_PAGE_SIZE \<noteq> 0
    then min (length bs) (FLASH_PAGE_SIZE - a mod FLASH_PAGE_SIZE) else 0)"
  define c1 where "c1 = (if a mod FLASH_PAGE_SIZE \<noteq> 0
    then FLASH_PageProgramGeneral chip NORMAL_AREA a (take p bs) c else c)"
  have base: "(a - a mod FLASH_PAGE_SIZE \<noteq> a) = (a mod FLASH_PAGE_SIZE \<noteq> 0)"
    by (metis diff_zero le_add_diff_inverse mod_less_eq_dividend add_cancel_right_left)
  have gap: "a - a mod FLASH_PAGE_SIZE + FLASH_PAGE_SIZE - a = FLASH_PAGE_SIZE - a mod FLASH_PAGE_SIZE"
    by (simp add: mod_less_eq_dividend)
  have small: "length (drop p bs) div FLASH_PAGE_SIZE mod 65536 = length (drop p bs) div FLASH_PAGE_SIZE"
    using fit by (simp add: flash_size_defs)
  have c1: "cells c1 = nor_prog (cells c) a (take p bs)"
    using program_head_cells [OF fit] by (simp add: c1_def p_def)
  have al: "(a + p) mod FLASH_PAGE_SIZE = 0 \<or> drop p bs = []"
    using page_up [of a] by (auto simp: p_def min_def FLASH_PAGE_SIZE_def)
  have fit': "a + p + length (drop p bs) \<le> FALSH_SIZE_MAX"
    using fit by (auto simp: p_def)
  have len: "length (take p bs) = p" by (auto simp: p_def)
  have "cells (snd (FLASH_Program chip a bs c)) = nor_prog (cells c1) (a + p) (drop p bs)"
    using program_aligned_cells [OF al fit' refl refl refl, of c1]
    unfolding FLASH_Program_def FLASH_ProgramGeneral_def Let_def base gap
      p_def [symmetric] small c1_def [symmetric] by simp
  also have "\<dots> = nor_prog (cells c) a bs"
    using nor_prog_append [of "cells c" a "take p bs" "drop p bs"] c1 len by simp
  finally show ?thesis by (simp add: FLASH_Program_def FLASH_ProgramGeneral_def Let_def)
qed

lemma erase_blocks_cells:
  assumes step: "\<And>x c. x mod sz = 0 \<Longrightarrow> x < FALSH_SIZE_MAX \<Longrightarrow>
      cells (FLASH_EraseBlock chip x type c) = nor_erase (cells c) x sz"
  shows "a mod sz = 0 \<Longrightarrow> 0 < sz \<Longrightarrow> a + n * sz \<le> FALSH_SIZE_MAX \<Longrightarrow>
      cells (erase_blocks chip type sz n a c) = nor_erase (cells c) a (n * sz)"
proof (induction n arbitrary: a c)
  case 0
  then show ?case by simp
next
  case (Suc n)
  have "cells (FLASH_EraseBlock chip a type c) = nor_erase (cells c) a sz"
    using Suc.prems by (intro step) auto
  then show ?case using Suc.IH [of "a + sz"] Suc.prems by (simp add: mem_fill_add ac_simps)
qed

lemma erase_4k_cells:
  "a mod FALSH_SIZE_4K = 0 \<Longrightarrow> a + n * FALSH_SIZE_4K \<le> FALSH_SIZE_MAX \<Longrightarrow>
     cells (erase_blocks chip ERASE_SECTOR_4KB FALSH_SIZE_4K n a c)
       = nor_erase (cells c) a (n * FALSH_SIZE_4K)"
  by (rule erase_blocks_cells)
    (auto simp: FLASH_EraseBlock_def FLASH_WriteEnable_def sector_erase FALSH_SIZE_4K_def)

lemma erase_32k_cells:
  "a mod FALSH_SIZE_BLOCK_32K = 0 \<Longrightarrow> a + n * FALSH_SIZE_BLOCK_32K \<le> FALSH_SIZE_MAX \<Longrightarrow>
     cells (erase_blocks chip ERASE_BLOCK_32KB FALSH_SIZE_BLOCK_32K n a c)
       = nor_erase (cells c) a (n * FALSH_SIZE_BLOCK_32K)"
  by (rule erase_blocks_cells)
    (auto simp: FLASH_EraseBlock_def FLASH_WriteEnable_def block_erase FALSH_SIZE_BLOCK_32K_def)

lemma FLASH_Erase_small_cells:
  "a mod FALSH_SIZE_4K = 0 \<Longrightarrow> len mod FALSH_SIZE_4K = 0 \<Longrightarrow> len < FALSH_SIZE_BLOCK_32K \<Longrightarrow>
   a + len \<le> FALSH_SIZE_MAX \<Longrightarrow> cells (FLASH_Erase chip a len c) = nor_erase (cells c) a len"
  using erase_4k_cells [of a "len div FALSH_SIZE_4K" c]
  by (auto simp: FLASH_Erase_def Let_def FALSH_SIZE_BLOCK_32K_def FALSH_SIZE_4K_def)

text \<open>The long case: the sectors up to the next 32 KB boundary, the 32 KB blocks, the sectors
  that are left; \<open>erase_plan\<close> computes how many of each.\<close>

lemma erase_plan:
  fixes q l :: nat
  assumes l8: "8 \<le> l" and t: "t = 8 - q mod 8" and k: "k = (l - t) div 8" and r: "r = (l - t) mod 8"
  shows "32768 - q * 4096 mod 32768 = t * 4096"
    and "(l * 4096 - t * 4096) div 32768 = k"
    and "(l * 4096 - t * 4096) mod 32768 = r * 4096"
    and "(q * 4096 + t * 4096) mod 32768 = 0"
    and "t + 8 * k + r = l"
proof -
  have "q * 4096 mod 32768 = (q mod 8) * 4096"
    using mult_mod_left [of q 8 4096] by simp
  then show "32768 - q * 4096 mod 32768 = t * 4096"
    by (simp add: t diff_mult_distrib)
  have d: "l * 4096 - t * 4096 = (l - t) * 4096" by (simp add: diff_mult_distrib)
  show "(l * 4096 - t * 4096) div 32768 = k" and "(l * 4096 - t * 4096) mod 32768 = r * 4096"
    unfolding d using div_mult_mult2 [of 4096 "l - t" 8] mult_mod_left [of "l - t" 8 4096]
    by (simp_all add: k r)
  have "(q + t) mod 8 = 0" unfolding t by presburger
  then show "(q * 4096 + t * 4096) mod 32768 = 0"
    using mult_mod_left [of "q + t" 8 4096] by (simp add: distrib_right)
  show "t + 8 * k + r = l" using l8 by (simp add: t k r)
qed

lemma FLASH_Erase_large_cells:
  assumes al: "a mod FALSH_SIZE_4K = 0" and ln: "len mod FALSH_SIZE_4K = 0"
    and big: "FALSH_SIZE_BLOCK_32K \<le> len" and fit: "a + len \<le> FALSH_SIZE_MAX"
  shows "cells (FLASH_Erase chip a len c) = nor_erase (cells c) a len"
proof -
  have "4096 dvd a" "4096 dvd len" using al ln by (simp_all add: FALSH_SIZE_4K_def mod_eq_0_iff_dvd)
  then obtain q l where "a = 4096 * q" "len = 4096 * l" by (elim dvdE)
  then have a: "a = q * 4096" and len: "len = l * 4096" by simp_all
  have l8: "8 \<le> l" and ql: "q + l \<le> 1024"
    using big fit by (simp_all add: len a flash_size_defs)
  define t k r where "t = 8 - q mod 8" and "k = (l - t) div 8" and "r = (l - t) mod 8"
  note plan = erase_plan [OF l8 t_def k_def r_def]
  define c1 where "c1 = erase_blocks chip ERASE_SECTOR_4KB FALSH_SIZE_4K t a c"
  define c2 where "c2 = erase_blocks chip ERASE_BLOCK_32KB FALSH_SIZE_BLOCK_32K k (a + t * FALSH_SIZE_4K) c1"
  have "t < 256" "k < 65536" "r < 65536"
    using plan(5) ql by (auto simp: t_def r_def intro: le_less_trans [OF mod_less_eq_dividend])
  then have small: "t mod 256 = t" "k mod 65536 = k" "r mod 65536 = r"
    by (simp_all only: mod_less)
  have "a mod 32768 \<le> a" by (rule mod_less_eq_dividend)
  then have tail: "(a - a mod FALSH_SIZE_BLOCK_32K + FALSH_SIZE_BLOCK_32K) - a = t * FALSH_SIZE_4K"
    using plan(1) by (simp only: a FALSH_SIZE_4K_def FALSH_SIZE_BLOCK_32K_def) simp
  have num: "(len - t * FALSH_SIZE_4K) div FALSH_SIZE_BLOCK_32K = k"
    "(len - t * FALSH_SIZE_4K) mod FALSH_SIZE_BLOCK_32K = r * FALSH_SIZE_4K"
    using plan(2,3) by (simp_all add: len FALSH_SIZE_4K_def FALSH_SIZE_BLOCK_32K_def)
  have rem: "t * FALSH_SIZE_4K div FALSH_SIZE_4K = t"
    "r * FALSH_SIZE_4K div FALSH_SIZE_4K
       + (if r * FALSH_SIZE_4K mod FALSH_SIZE_4K \<noteq> 0 then 1 else 0) = r"
    by (simp_all add: FALSH_SIZE_4K_def)
  have er: "FLASH_Erase chip a len c = erase_blocks chip ERASE_SECTOR_4KB FALSH_SIZE_4K r
      (a + t * FALSH_SIZE_4K + k * FALSH_SIZE_BLOCK_32K) c2"
    unfolding FLASH_Erase_def Let_def if_P [OF big] c1_def c2_def
    by (simp only: tail num rem small)
  have "cells c1 = nor_erase (cells c) a (t * FALSH_SIZE_4K)"
    unfolding c1_def using plan(5) ql by (intro erase_4k_cells) (auto simp: a flash_size_defs)
  moreover have "cells c2 = nor_erase (cells c1) (a + t * FALSH_SIZE_4K) (k * FALSH_SIZE_BLOCK_32K)"
    unfolding c2_def using plan(4,5) ql by (intro erase_32k_cells) (auto simp: a flash_size_defs)
  moreover have "cells (FLASH_Erase chip a len c)
      = nor_erase (cells c2) (a + t * FALSH_SIZE_4K + k * FALSH_SIZE_BLOCK_32K) (r * FALSH_SIZE_4K)"
    unfolding er using plan(5) ql by (intro erase_4k_cells) (auto simp: a flash_size_defs)
  moreover have "len = t * FALSH_SIZE_4K + k * FALSH_SIZE_BLOCK_32K + r * FALSH_SIZE_4K"
    using plan(5) by (simp add: len flash_size_defs)
  ultimately show ?thesis by (simp add: mem_fill_add add.assoc)
qed

lemma FLASH_Erase_cells:
  "a mod FALSH_SIZE_4K = 0 \<Longrightarrow> len mod FALSH_SIZE_4K = 0 \<Longrightarrow> a + len \<le> FALSH_SIZE_MAX \<Longrightarrow>
     cells (FLASH_Erase chip a len c) = nor_erase (cells c) a len"
  by (cases "FALSH_SIZE_BLOCK_32K \<le> len")
    (auto intro: FLASH_Erase_small_cells FLASH_Erase_large_cells)

lemma FLASH_ReadByCache_cells:
  "a + n \<le> FALSH_SIZE_MAX \<Longrightarrow> FLASH_ReadByCache chip a n c = mem_read (cells c) a n"
  by (rule nth_equalityI) (auto simp: FLASH_ReadByCache_def cache_read)

text \<open>The bytes \<open>FLASH_Read\<close> stores: the \<open>n\<close> bytes asked for, but never fewer than the bytes up
  to the next word boundary of the buffer.\<close>

lemma FLASH_Read_cells:
  assumes fit: "a + n \<le> FALSH_SIZE_MAX" "a + (4 - buf mod 4) mod 4 \<le> FALSH_SIZE_MAX"
  shows "FLASH_Read chip a n buf c = mem_read (cells c) a (max n ((4 - buf mod 4) mod 4))"
proof -
  define s where "s = (4 - buf mod 4) mod 4"
  have s: "(if buf mod 4 \<noteq> 0 then (4 - buf mod 4) mod 4 else 0) = s" "s \<le> 3"
    by (auto simp: s_def)
  show ?thesis
  proof (cases "s < n")
    case True
    define w where "w = (n - s) div 4"
    define r where "r = (n - s) mod 4"
    have n: "n = s + (4 * w + r)" using True by (simp add: w_def r_def)
    have "a + s \<le> FALSH_SIZE_MAX" "a + s + 4 * w \<le> FALSH_SIZE_MAX" "a + s + 4 * w + r \<le> FALSH_SIZE_MAX"
      using fit n by linarith+
    then have reads: "spi_read chip (FLASH_STANDARD_READ # addr24 a) s c = mem_read (cells c) a s"
      "spi_read chip (FLASH_STANDARD_READ # addr24 (a + s)) (4 * w) c = mem_read (cells c) (a + s) (4 * w)"
      "spi_read chip (FLASH_STANDARD_READ # addr24 (a + s + 4 * w)) r c
         = mem_read (cells c) (a + s + 4 * w) r"
      by (auto intro!: standard_read)
    have "FLASH_Read chip a n buf c = mem_read (cells c) a s @ mem_read (cells c) (a + s) (4 * w)
        @ mem_read (cells c) (a + s + 4 * w) r"
      unfolding FLASH_Read_def Let_def s(1) w_def [symmetric] r_def [symmetric] if_P [OF True] reads
      by simp
    also have "\<dots> = mem_read (cells c) a (s + (4 * w + r))"
      by (simp add: mem_read_add)
    also have "\<dots> = mem_read (cells c) a n"
      by (simp only: n [symmetric])
    finally show ?thesis using True s_def by simp
  next
    case False
    have as: "a + s \<le> FALSH_SIZE_MAX" using fit(2) by (simp only: s_def)
    have "FLASH_Read chip a n buf c = (if 0 < s then spi_read chip (FLASH_STANDARD_READ # addr24 a) s c else [])"
      unfolding FLASH_Read_def Let_def s(1) if_not_P [OF False] by simp
    then have "FLASH_Read chip a n buf c = mem_read (cells c) a s"
      using standard_read [OF as, of c] by simp
    then show ?thesis using False s_def by simp
  qed
qed

end

section \<open>A chip\<close>

text \<open>A chip that meets the datasheet: its state is the array and the write-enable latch, which
  a program or erase command needs and clears.  A page program wraps inside its page.\<close>

type_synonym ideal_state = "mem \<times> bool"

definition addr24_val :: "byte \<Rightarrow> byte \<Rightarrow> byte \<Rightarrow> nat" where
  "addr24_val a2 a1 a0 = unat a2 * 65536 + unat a1 * 256 + unat a0"

definition page_cell :: "nat \<Rightarrow> nat \<Rightarrow> nat" where
  "page_cell a i = a - a mod FLASH_PAGE_SIZE + (a + i) mod FLASH_PAGE_SIZE"

fun ideal_exec :: "byte list \<Rightarrow> mem \<Rightarrow> mem" where
  "ideal_exec (cmd # a2 # a1 # a0 # bs) m =
     (let a = addr24_val a2 a1 a0 in
      if cmd = FLASH_PAGE_PROGRAM then
        foldl (\<lambda>m (i, b). m(page_cell a i := m (page_cell a i) AND b)) m (zip [0..<length bs] bs)
      else if cmd = FLASH_SECTOR_ERASE then nor_erase m (a - a mod FALSH_SIZE_4K) FALSH_SIZE_4K
      else if cmd = FLASH_32KB_BLOCK_ERASE
        then nor_erase m (a - a mod FALSH_SIZE_BLOCK_32K) FALSH_SIZE_BLOCK_32K
      else m)"
| "ideal_exec _ m = m"

definition ideal_write :: "byte list \<Rightarrow> ideal_state \<Rightarrow> ideal_state" where
  "ideal_write cmd = (\<lambda>(m, wel).
     if cmd = [FLASH_WRITE_ENABLE] then (m, True)
     else if wel then (ideal_exec cmd m, False) else (m, wel))"

fun ideal_read :: "byte list \<Rightarrow> nat \<Rightarrow> ideal_state \<Rightarrow> byte list" where
  "ideal_read [cmd, a2, a1, a0] n (m, wel) =
     (if cmd = FLASH_STANDARD_READ then mem_read m (addr24_val a2 a1 a0) n else replicate n 0)"
| "ideal_read _ n _ = replicate n 0"

definition ideal_chip :: "ideal_state spi_chip" where
  "ideal_chip = \<lparr>spi_write = ideal_write, spi_read = ideal_read, xip_byte = (\<lambda>a (m, wel). m a)\<rparr>"

lemma addr24_roundtrip:
  "a < FALSH_SIZE_MAX \<Longrightarrow>
     addr24_val (of_nat (a div 65536)) (of_nat (a div 256)) (of_nat a) = a"
proof -
  assume "a < FALSH_SIZE_MAX"
  then have "a div 65536 < 256" by (simp add: FALSH_SIZE_MAX_def)
  moreover have "a div 65536 * 65536 + a div 256 mod 256 * 256 + a mod 256 = a"
  proof -
    define q r p s where "q = a div 256" and "r = a mod 256" and "p = q div 256" and "s = q mod 256"
    have "a = q * 256 + r" by (simp add: q_def r_def)
    moreover have "q = p * 256 + s" by (simp add: p_def s_def)
    moreover have p: "a div 65536 = p" by (simp add: p_def q_def div_mult2_eq [symmetric])
    ultimately show ?thesis
      unfolding q_def [symmetric] r_def [symmetric] s_def [symmetric] p by linarith
  qed
  ultimately show ?thesis by (simp add: addr24_val_def unat_of_nat)
qed

lemma fold_prog_page:
  assumes "a mod FLASH_PAGE_SIZE + length bs \<le> FLASH_PAGE_SIZE"
  shows "foldl (\<lambda>m (i, b). m(page_cell a i := m (page_cell a i) AND b)) m
           (zip [0..<length bs] bs) = nor_prog m a bs"
  using assms
proof (induction bs rule: rev_induct)
  case Nil
  then show ?case by simp
next
  case (snoc b bs)
  have "a mod FLASH_PAGE_SIZE + length bs < FLASH_PAGE_SIZE" using snoc.prems by simp
  then have "(a + length bs) mod FLASH_PAGE_SIZE = a mod FLASH_PAGE_SIZE + length bs"
    by (metis mod_add_left_eq mod_less)
  then have at: "page_cell a (length bs) = a + length bs"
    by (simp add: page_cell_def)
  have one: "m(a + length bs := m (a + length bs) AND b) = nor_prog m (a + length bs) [b]" for m
    by (rule ext) (auto simp: nor_prog_def)
  show ?case
    using snoc.IH snoc.prems by (simp add: nor_prog_append at one del: fun_upd_apply)
qed

interpretation ideal: spi_nor ideal_chip fst
proof
  fix a :: nat and bs :: "byte list" and c
  assume a: "a < FALSH_SIZE_MAX" "a mod FLASH_PAGE_SIZE + length bs \<le> FLASH_PAGE_SIZE"
  show "fst (spi_write ideal_chip (FLASH_PAGE_PROGRAM # addr24 a @ bs)
      (spi_write ideal_chip [FLASH_WRITE_ENABLE] c)) = nor_prog (fst c) a bs"
    using fold_prog_page [OF a(2), of "fst c"] addr24_roundtrip [OF a(1)]
    by (cases c) (simp add: ideal_chip_def ideal_write_def addr24_def Let_def)
next
  fix a :: nat and c
  assume "a < FALSH_SIZE_MAX" "a mod FALSH_SIZE_4K = 0"
  then show "fst (spi_write ideal_chip (FLASH_SECTOR_ERASE # addr24 a)
      (spi_write ideal_chip [FLASH_WRITE_ENABLE] c)) = nor_erase (fst c) a FALSH_SIZE_4K"
    using addr24_roundtrip [of a]
    by (cases c) (simp add: ideal_chip_def ideal_write_def addr24_def Let_def flash_cmd_defs)
next
  fix a :: nat and c
  assume "a < FALSH_SIZE_MAX" "a mod FALSH_SIZE_BLOCK_32K = 0"
  then show "fst (spi_write ideal_chip (FLASH_32KB_BLOCK_ERASE # addr24 a)
      (spi_write ideal_chip [FLASH_WRITE_ENABLE] c)) = nor_erase (fst c) a FALSH_SIZE_BLOCK_32K"
    using addr24_roundtrip [of a]
    by (cases c) (simp add: ideal_chip_def ideal_write_def addr24_def Let_def flash_cmd_defs)
next
  fix a n :: nat and c
  assume "a + n \<le> FALSH_SIZE_MAX"
  then show "spi_read ideal_chip (FLASH_STANDARD_READ # addr24 a) n c = mem_read (fst c) a n"
    using addr24_roundtrip [of a]
    by (cases c; cases "n = 0") (auto simp: ideal_chip_def addr24_def)
next
  fix a :: nat and c
  show "xip_byte ideal_chip a c = fst c a" by (simp add: ideal_chip_def split: prod.split)
qed

section \<open>Properties\<close>

text \<open>\<open>FLASH_Program\<close>, which cuts the buffer at page boundaries, programs exactly the cells from the
  offset on, each with its byte, over every chip that keeps its datasheet.\<close>

lemma flash_program_cells:
  assumes "spi_nor chip cells" "offset + length buf \<le> FALSH_SIZE_MAX"
  shows "fst (FLASH_Program chip offset buf c) = 0
    \<and> cells (snd (FLASH_Program chip offset buf c)) = nor_prog (cells c) offset buf"
  by (rule spi_nor.FLASH_Program_cells [OF assms])

lemma flash_program_cells_witness:
  "fst (snd (FLASH_Program ideal_chip 250 (replicate 600 0x55) (\<lambda>_. - 1, False)))
     = nor_prog (\<lambda>_. - 1) 250 (replicate 600 0x55)"
  using flash_program_cells [OF ideal.spi_nor_axioms, of 250 "replicate 600 0x55" "(\<lambda>_. - 1, False)"]
  by (simp add: FALSH_SIZE_MAX_def)

text \<open>\<open>FLASH_Erase\<close>, which mixes sector and block erases, sets exactly the cells of the sector-aligned
  range to ones.\<close>

lemma flash_erase_cells:
  assumes "spi_nor chip cells" "offset mod FALSH_SIZE_4K = 0" "len mod FALSH_SIZE_4K = 0"
    and "offset + len \<le> FALSH_SIZE_MAX"
  shows "cells (FLASH_Erase chip offset len c) = nor_erase (cells c) offset len"
  by (rule spi_nor.FLASH_Erase_cells [OF assms])

lemma flash_erase_cells_witness:
  "fst (FLASH_Erase ideal_chip 0x5000 0x13000 (\<lambda>_. 0, False)) = nor_erase (\<lambda>_. 0) 0x5000 0x13000"
  using flash_erase_cells [OF ideal.spi_nor_axioms, where offset = "0x5000" and len = "0x13000" and c = "(\<lambda>_. 0, False)"]
  by (simp add: FALSH_SIZE_MAX_def FALSH_SIZE_4K_def)

text \<open>\<open>FLASH_Read\<close> stores the cells from the offset on, but never fewer than the bytes up to the next
  word boundary of the buffer: a request shorter than that overruns the buffer.\<close>

lemma flash_read_stores:
  assumes "spi_nor chip cells" "offset + len \<le> FALSH_SIZE_MAX" "offset + (4 - buffer mod 4) mod 4 \<le> FALSH_SIZE_MAX"
  shows "FLASH_Read chip offset len buffer c = mem_read (cells c) offset (max len ((4 - buffer mod 4) mod 4))"
  by (rule spi_nor.FLASH_Read_cells [OF assms])

lemma flash_read_stores_witness:
  "FLASH_Read ideal_chip 16 1 5 (\<lambda>a. of_nat a, False) = [16, 17, 18]"
  using flash_read_stores [OF ideal.spi_nor_axioms, where offset = 16 and len = 1 and buffer = 5 and c = "(\<lambda>a. of_nat a, False)"]
  by (simp add: FALSH_SIZE_MAX_def mem_read_def upt_rec)

end
