(* ===== verification/Flash_If.thy ===== *)
theory Flash_If
  imports Hal_Flash
begin

unbundle bit_operations_syntax

text \<open>
  The part of the flash driver its clients use (non-volatile data, partition table, OTA):
  read through the cache, read over the SPI bus, program and erase.  The SPI read stands for the
  bytes that were asked for; what \<open>FLASH_Read\<close> stores beyond them into an unaligned buffer is a
  theorem about the driver.  A client is modelled over any device with these
  operations, so that the same code runs on the chip, on a plain memory and on a device whose
  power is cut after a number of operations.  The laws a client relies on are the locale
  \<open>flash_dev\<close>; the driver keeps them over every chip that keeps its datasheet.
\<close>

record 'd flash_if =
  fi_read :: "nat \<Rightarrow> nat \<Rightarrow> 'd \<Rightarrow> byte list"
  fi_spi_read :: "nat \<Rightarrow> nat \<Rightarrow> 'd \<Rightarrow> byte list"
  fi_prog :: "nat \<Rightarrow> byte list \<Rightarrow> 'd \<Rightarrow> 'd"
  fi_erase :: "nat \<Rightarrow> nat \<Rightarrow> 'd \<Rightarrow> 'd"

definition chip_flash :: "'c spi_chip \<Rightarrow> 'c flash_if" where
  "chip_flash chip = \<lparr>fi_read = FLASH_ReadByCache chip,
     fi_spi_read = (\<lambda>off len c. take len (FLASH_Read chip off len 0 c)),
     fi_prog = (\<lambda>off buf c. snd (FLASH_Program chip off buf c)), fi_erase = FLASH_Erase chip\<rparr>"

locale flash_dev =
  fixes fi :: "'d flash_if" and cells :: "'d \<Rightarrow> mem" and cap :: nat
  assumes fi_read: "a + n \<le> cap \<Longrightarrow> fi_read fi a n d = mem_read (cells d) a n"
    and fi_spi_read: "a + n \<le> cap \<Longrightarrow> fi_spi_read fi a n d = mem_read (cells d) a n"
    and fi_prog: "a + length bs \<le> cap \<Longrightarrow> cells (fi_prog fi a bs d) = nor_prog (cells d) a bs"
    and fi_erase: "a mod 4096 = 0 \<Longrightarrow> n mod 4096 = 0 \<Longrightarrow> a + n \<le> cap \<Longrightarrow>
      cells (fi_erase fi a n d) = nor_erase (cells d) a n"

sublocale spi_nor \<subseteq> flash_if: flash_dev "chip_flash chip" cells FALSH_SIZE_MAX
  using FLASH_Program_cells FLASH_Erase_cells
  by unfold_locales (auto simp: chip_flash_def FLASH_ReadByCache_cells FLASH_Read_cells FALSH_SIZE_4K_def)

context spi_nor
begin

lemma chip_flash_dev: "flash_dev (chip_flash chip) cells FALSH_SIZE_MAX"
  by (rule flash_if.flash_dev_axioms)

end

text \<open>A memory is a device.\<close>

definition plain_flash :: "mem flash_if" where
  "plain_flash = \<lparr>fi_read = (\<lambda>a n m. mem_read m a n), fi_spi_read = (\<lambda>a n m. mem_read m a n), fi_prog = (\<lambda>a bs m. nor_prog m a bs),
     fi_erase = (\<lambda>a n m. nor_erase m a n)\<rparr>"

lemma plain_flash_simps [simp]:
  "fi_read plain_flash a n m = mem_read m a n" "fi_spi_read plain_flash a n m = mem_read m a n" "fi_prog plain_flash a bs m = nor_prog m a bs"
  "fi_erase plain_flash a n m = nor_erase m a n"
  by (simp_all add: plain_flash_def)

interpretation plain: flash_dev plain_flash "\<lambda>m. m" cap
  by unfold_locales simp_all

text \<open>A memory whose power is cut after a budget of work, one unit for every byte programmed and
  every erase: a program that runs out of budget writes a prefix of its bytes, and what comes
  later does nothing.\<close>

definition cut_flash :: "(mem \<times> nat) flash_if" where
  "cut_flash = \<lparr>fi_read = (\<lambda>a n (m, k). mem_read m a n), fi_spi_read = (\<lambda>a n (m, k). mem_read m a n),
     fi_prog = (\<lambda>a bs (m, k). (nor_prog m a (take k bs), k - length bs)),
     fi_erase = (\<lambda>a n (m, k). case k of 0 \<Rightarrow> (m, 0) | Suc j \<Rightarrow> (nor_erase m a n, j))\<rparr>"

lemma cut_flash_simps [simp]:
  "fi_read cut_flash a n (m, k) = mem_read m a n" "fi_spi_read cut_flash a n (m, k) = mem_read m a n"
  "fi_prog cut_flash a bs (m, k) = (nor_prog m a (take k bs), k - length bs)"
  "fi_erase cut_flash a n (m, 0) = (m, 0)" "fi_erase cut_flash a n (m, Suc j) = (nor_erase m a n, j)"
  by (simp_all add: cut_flash_def)

text \<open>A procedure on the cut device tracks one on the memory: it changes only the region, and
  while the budget lasts it does what the other does.\<close>

definition cut_track :: "nat \<Rightarrow> nat \<Rightarrow> (mem \<times> nat \<Rightarrow> mem \<times> nat) \<Rightarrow> (mem \<Rightarrow> mem) \<Rightarrow> bool" where
  "cut_track a n f g \<longleftrightarrow> (\<forall>m k m' k'. f (m, k) = (m', k') \<longrightarrow>
     (\<forall>x. x < a \<or> a + n \<le> x \<longrightarrow> m' x = m x) \<and> (0 < k' \<longrightarrow> 0 < k \<and> m' = g m))"

lemma cut_track_id: "cut_track a n (\<lambda>d. d) (\<lambda>m. m)"
  by (simp add: cut_track_def)

lemma cut_track_comp:
  assumes "cut_track a n f g" "cut_track a n f' g'"
  shows "cut_track a n (\<lambda>d. f' (f d)) (\<lambda>m. g' (g m))"
proof -
  have "(\<forall>x. x < a \<or> a + n \<le> x \<longrightarrow> m' x = m x) \<and> (0 < k' \<longrightarrow> 0 < k \<and> m' = g' (g m))"
    if h: "f' (f (m, k)) = (m', k')" for m k m' k'
  proof -
    obtain m1 k1 where 1: "f (m, k) = (m1, k1)" by (cases "f (m, k)")
    then have "f' (m1, k1) = (m', k')" using h by simp
    then show ?thesis using 1 assms unfolding cut_track_def by metis
  qed
  then show ?thesis unfolding cut_track_def by blast
qed

lemma cut_track_prog:
  "a \<le> b \<Longrightarrow> b + length bs \<le> a + n \<Longrightarrow> cut_track a n (fi_prog cut_flash b bs) (\<lambda>m. nor_prog m b bs)"
  by (auto simp: cut_track_def nor_prog_def)

lemma cut_track_erase:
  "a \<le> b \<Longrightarrow> b + l \<le> a + n \<Longrightarrow> cut_track a n (fi_erase cut_flash b l) (\<lambda>m. nor_erase m b l)"
  unfolding cut_track_def
proof (intro allI impI)
  fix m k m' k'
  assume "a \<le> b" "b + l \<le> a + n" "fi_erase cut_flash b l (m, k) = (m', k')"
  then show "(\<forall>x. x < a \<or> a + n \<le> x \<longrightarrow> m' x = m x) \<and> (0 < k' \<longrightarrow> 0 < k \<and> m' = nor_erase m b l)"
    by (cases k) (auto simp: mem_fill_def)
qed

lemma cut_track_cases:
  assumes "cut_track a n f g"
  obtains m' where "f (m, k) = (m', 0)" "\<And>b l. b + l \<le> a \<or> a + n \<le> b \<Longrightarrow> mem_read m' b l = mem_read m b l"
  | k' where "f (m, k) = (g m, Suc k')"
proof -
  obtain m' k' where f: "f (m, k) = (m', k')" by (cases "f (m, k)")
  show ?thesis
  proof (cases k')
    case 0
    have "mem_read m' b l = mem_read m b l" if "b + l \<le> a \<or> a + n \<le> b" for b l
      using that f assms unfolding cut_track_def by (intro mem_read_cong) force
    then show ?thesis using that(1) f 0 by blast
  next
    case (Suc j)
    then show ?thesis using that(2) f assms unfolding cut_track_def by blast
  qed
qed

end
