(* ===== verification/Nvds.thy ===== *)
theory Nvds
  imports Flash_If
begin

unbundle bit_operations_syntax

text \<open>
  The non-volatile data store, \<^verbatim>\<open>components/fs/nvds/ln_nvds.c\<close>: two data sectors and a flag
  sector that says which of them is valid.  The functions run over any flash device; the
  static variables \<^verbatim>\<open>ln_nvds_base\<close> and \<^verbatim>\<open>ln_nvds_ver\<close> are the argument \<open>base\<close> and a result
  of \<open>ln_nvds_init\<close>.  A read that fails leaves the caller's buffer alone: it returns no bytes.
\<close>

section \<open>The model\<close>

datatype nvds_err = NVDS_ERR_OK | NVDS_ERR_FAIL

definition SIZE_4KB :: nat where "SIZE_4KB = 0x1000"
definition USR_NVDS_SECT1_OFFSET :: "nat \<Rightarrow> nat" where "USR_NVDS_SECT1_OFFSET base = base"
definition USR_NVDS_SECT2_OFFSET :: "nat \<Rightarrow> nat" where "USR_NVDS_SECT2_OFFSET base = USR_NVDS_SECT1_OFFSET base + SIZE_4KB"
definition USR_NVDS_FLAG_OFFSET :: "nat \<Rightarrow> nat" where "USR_NVDS_FLAG_OFFSET base = USR_NVDS_SECT2_OFFSET base + SIZE_4KB"
definition NVDS_SECT_MAGIC_CODE :: u32 where "NVDS_SECT_MAGIC_CODE = 0x5344564E"
definition NVDS_NONE_TAG :: byte where "NVDS_NONE_TAG = 0xFF"
definition NVDS_SECT1_VALID :: u16 where "NVDS_SECT1_VALID = 0xA5A5"
definition NVDS_SECT2_VALID :: u16 where "NVDS_SECT2_VALID = 0x5A5A"
definition SECT_MAGIC_CODE_OFFSET :: nat where "SECT_MAGIC_CODE_OFFSET = 0"
definition SECT_MAGIC_CODE_LEN :: nat where "SECT_MAGIC_CODE_LEN = 4"

definition nvds_read_flash :: "'d flash_if \<Rightarrow> nat \<Rightarrow> nat \<Rightarrow> 'd \<Rightarrow> byte list" where
  "nvds_read_flash fi off len d = fi_read fi off len d"

definition nvds_write_flash :: "'d flash_if \<Rightarrow> nat \<Rightarrow> byte list \<Rightarrow> 'd \<Rightarrow> 'd" where
  "nvds_write_flash fi off buf d = fi_prog fi off buf d"

definition nvds_erase_flash :: "'d flash_if \<Rightarrow> nat \<Rightarrow> nat \<Rightarrow> 'd \<Rightarrow> 'd" where
  "nvds_erase_flash fi off len d = fi_erase fi off len d"

definition nvds_get_valid_flag :: "'d flash_if \<Rightarrow> nat \<Rightarrow> 'd \<Rightarrow> u16" where
  "nvds_get_valid_flag fi base d = le_word (nvds_read_flash fi (USR_NVDS_FLAG_OFFSET base) 2 d)"

definition nvds_set_valid_flag :: "'d flash_if \<Rightarrow> nat \<Rightarrow> u16 \<Rightarrow> 'd \<Rightarrow> 'd" where
  "nvds_set_valid_flag fi base sect d = nvds_write_flash fi (USR_NVDS_FLAG_OFFSET base) (le_bytes 2 sect) d"

definition nvds_get_magic_code :: "'d flash_if \<Rightarrow> nat \<Rightarrow> 'd \<Rightarrow> u32" where
  "nvds_get_magic_code fi off d = le_word (nvds_read_flash fi off 4 d)"

definition nvds_set_magic_code :: "'d flash_if \<Rightarrow> nat \<Rightarrow> 'd \<Rightarrow> 'd" where
  "nvds_set_magic_code fi off d = nvds_write_flash fi off (le_bytes 4 NVDS_SECT_MAGIC_CODE) d"

text \<open>The two copying loops: \<open>n\<close> bytes from index \<open>i\<close> on, leaving out the erased ones.\<close>

primrec nvds_copy :: "'d flash_if \<Rightarrow> nat \<Rightarrow> nat \<Rightarrow> nat \<Rightarrow> nat \<Rightarrow> 'd \<Rightarrow> 'd" where
  "nvds_copy fi src dst 0 i d = d"
| "nvds_copy fi src dst (Suc n) i d =
     (let rd_data = nvds_read_flash fi (src + i) 1 d ! 0
      in nvds_copy fi src dst n (i + 1)
           (if rd_data \<noteq> NVDS_NONE_TAG then nvds_write_flash fi (dst + i) [rd_data] d else d))"

text \<open>The two branches of \<open>ln_nvds_write\<close> differ only in the sectors: the new sector is filled from
  the old one and the data, then the flag is turned over.\<close>

definition nvds_fill_sect :: "'d flash_if \<Rightarrow> nat \<Rightarrow> nat \<Rightarrow> nat \<Rightarrow> byte list \<Rightarrow> 'd \<Rightarrow> 'd" where
  "nvds_fill_sect fi src dst off data d =
     (let len = length data;
          d1 = nvds_erase_flash fi dst SIZE_4KB d;
          d2 = nvds_set_magic_code fi (dst + SECT_MAGIC_CODE_OFFSET) d1;
          d3 = nvds_copy fi src dst (off - SECT_MAGIC_CODE_LEN) SECT_MAGIC_CODE_LEN d2;
          d4 = nvds_write_flash fi (dst + off) data d3
      in if off + len < SIZE_4KB then nvds_copy fi src dst (SIZE_4KB - (off + len)) (off + len) d4 else d4)"

definition nvds_write_sect ::
  "'d flash_if \<Rightarrow> nat \<Rightarrow> nat \<Rightarrow> nat \<Rightarrow> u16 \<Rightarrow> nat \<Rightarrow> byte list \<Rightarrow> 'd \<Rightarrow> 'd" where
  "nvds_write_sect fi base src dst valid off data d =
     nvds_set_valid_flag fi base valid
       (nvds_erase_flash fi (USR_NVDS_FLAG_OFFSET base) SIZE_4KB (nvds_fill_sect fi src dst off data d))"

definition ln_nvds_write :: "'d flash_if \<Rightarrow> nat \<Rightarrow> nat \<Rightarrow> byte list \<Rightarrow> 'd \<Rightarrow> nvds_err \<times> 'd" where
  "ln_nvds_write fi base off data d =
     (if SIZE_4KB < (off + length data) mod 2 ^ 32 then (NVDS_ERR_FAIL, d)
      else if nvds_get_valid_flag fi base d = NVDS_SECT1_VALID
      then (NVDS_ERR_OK, nvds_write_sect fi base (USR_NVDS_SECT1_OFFSET base) (USR_NVDS_SECT2_OFFSET base)
              NVDS_SECT2_VALID off data d)
      else (NVDS_ERR_OK, nvds_write_sect fi base (USR_NVDS_SECT2_OFFSET base) (USR_NVDS_SECT1_OFFSET base)
              NVDS_SECT1_VALID off data d))"

definition ln_nvds_read :: "'d flash_if \<Rightarrow> nat \<Rightarrow> nat \<Rightarrow> nat \<Rightarrow> 'd \<Rightarrow> nvds_err \<times> byte list" where
  "ln_nvds_read fi base off len d =
     (if SIZE_4KB < (off + len) mod 2 ^ 32 then (NVDS_ERR_FAIL, [])
      else if nvds_get_valid_flag fi base d = NVDS_SECT1_VALID
      then (NVDS_ERR_OK, nvds_read_flash fi (USR_NVDS_SECT1_OFFSET base + off) len d)
      else if nvds_get_valid_flag fi base d = NVDS_SECT2_VALID
      then (NVDS_ERR_OK, nvds_read_flash fi (USR_NVDS_SECT2_OFFSET base + off) len d)
      else if nvds_get_magic_code fi (USR_NVDS_SECT2_OFFSET base + SECT_MAGIC_CODE_OFFSET) d = NVDS_SECT_MAGIC_CODE
      then (NVDS_ERR_OK, nvds_read_flash fi (USR_NVDS_SECT2_OFFSET base + off) len d)
      else (NVDS_ERR_FAIL, []))"

definition NV0_NVDS_VERSION_OFFST :: nat where "NV0_NVDS_VERSION_OFFST = SECT_MAGIC_CODE_OFFSET + SECT_MAGIC_CODE_LEN"
definition NV0_NVDS_VERSION_LEN :: nat where "NV0_NVDS_VERSION_LEN = 16"
definition NV0_NVDS_VERSION_STR :: "byte list" where
  "NV0_NVDS_VERSION_STR = [0x5B, 0x56, 0x65, 0x72, 0x20, 0x31, 0x2E, 0x30, 0x5D]"
definition NV1_OTA_UPG_STATE_OFFST :: nat where "NV1_OTA_UPG_STATE_OFFST = NV0_NVDS_VERSION_OFFST + NV0_NVDS_VERSION_LEN"
definition NV1_OTA_UPG_STATE_LEN :: nat where "NV1_OTA_UPG_STATE_LEN = 4"
definition NV2_XTAL_COMP_VAL_OFFST :: nat where "NV2_XTAL_COMP_VAL_OFFST = NV1_OTA_UPG_STATE_OFFST + NV1_OTA_UPG_STATE_LEN"
definition NV2_XTAL_COMP_VAL_LEN :: nat where "NV2_XTAL_COMP_VAL_LEN = 1"
definition NV3_TX_POWER_COMP_OFFST :: nat where "NV3_TX_POWER_COMP_OFFST = NV2_XTAL_COMP_VAL_OFFST + NV2_XTAL_COMP_VAL_LEN"
definition NV3_TX_POWER_COMP_LEN :: nat where "NV3_TX_POWER_COMP_LEN = 1"
definition NV4_CHIP_SN_OFFSET :: nat where "NV4_CHIP_SN_OFFSET = NV3_TX_POWER_COMP_OFFST + NV3_TX_POWER_COMP_LEN"
definition NV4_CHIP_SN_LEN :: nat where "NV4_CHIP_SN_LEN = 20"
definition NV5_BOOT_LOG_UART_BR_OFFSET :: nat where "NV5_BOOT_LOG_UART_BR_OFFSET = NV4_CHIP_SN_OFFSET + NV4_CHIP_SN_LEN"
definition NV5_BOOT_LOG_UART_BR_LEN :: nat where "NV5_BOOT_LOG_UART_BR_LEN = 1"
definition NV6_BOOT_LOG_EN_OFFSET :: nat where "NV6_BOOT_LOG_EN_OFFSET = NV5_BOOT_LOG_UART_BR_OFFSET + NV5_BOOT_LOG_UART_BR_LEN"
definition NV6_BOOT_LOG_EN_LEN :: nat where "NV6_BOOT_LOG_EN_LEN = 1"
definition NV7_BOOT_DELAY_MS_OFFSET :: nat where "NV7_BOOT_DELAY_MS_OFFSET = NV6_BOOT_LOG_EN_OFFSET + NV6_BOOT_LOG_EN_LEN"
definition NV7_BOOT_DELAY_MS_LEN :: nat where "NV7_BOOT_DELAY_MS_LEN = 2"
definition NV8_BOOT_DELAY_EN_OFFSET :: nat where "NV8_BOOT_DELAY_EN_OFFSET = NV7_BOOT_DELAY_MS_OFFSET + NV7_BOOT_DELAY_MS_LEN"
definition NV8_BOOT_DELAY_EN_LEN :: nat where "NV8_BOOT_DELAY_EN_LEN = 1"

text \<open>\<open>ln_nvds_init\<close> returns its verdict, the bytes it put into \<^verbatim>\<open>ln_nvds_ver\<close> and the device.  The
  string it writes includes its terminator.\<close>

definition ln_nvds_init :: "'d flash_if \<Rightarrow> nat \<Rightarrow> 'd \<Rightarrow> nvds_err \<times> byte list \<times> 'd" where
  "ln_nvds_init fi base d =
     (let (err, ver) = ln_nvds_read fi base NV0_NVDS_VERSION_OFFST NV0_NVDS_VERSION_LEN d
      in if err \<noteq> NVDS_ERR_OK
         then let d1 = nvds_erase_flash fi base (SIZE_4KB * 3) d;
                  str_len = (length NV0_NVDS_VERSION_STR + 1) mod 256;
                  str_len = (if str_len < NV0_NVDS_VERSION_LEN then str_len else NV0_NVDS_VERSION_LEN);
                  (err, d2) = ln_nvds_write fi base NV0_NVDS_VERSION_OFFST (take str_len (NV0_NVDS_VERSION_STR @ [0])) d1
              in (err, ver, d2)
         else (NVDS_ERR_OK, ver, d))"

text \<open>The setters read the stored item into a variable that was zero before, compare and write.  A
  partial or failed read leaves the other bytes of the variable zero.\<close>

definition nvds_get_item :: "'d flash_if \<Rightarrow> nat \<Rightarrow> nat \<Rightarrow> nat \<Rightarrow> 'd \<Rightarrow> nvds_err \<times> 'a::len word" where
  "nvds_get_item fi base off len d =
     (let (err, bs) = ln_nvds_read fi base off len d in (err, le_word bs))"

definition nvds_set_item :: "'d flash_if \<Rightarrow> nat \<Rightarrow> nat \<Rightarrow> nat \<Rightarrow> 'a::len word \<Rightarrow> 'd \<Rightarrow> nvds_err \<times> 'd" where
  "nvds_set_item fi base off len val d =
     (case nvds_get_item fi base off len d of (err, rd_val) \<Rightarrow>
        if err = NVDS_ERR_OK \<and> rd_val = val then (NVDS_ERR_OK, d)
        else ln_nvds_write fi base off (le_bytes len val) d)"

definition ln_nvds_get_ota_upg_state :: "'d flash_if \<Rightarrow> nat \<Rightarrow> 'd \<Rightarrow> nvds_err \<times> u32" where
  "ln_nvds_get_ota_upg_state fi base d = nvds_get_item fi base NV1_OTA_UPG_STATE_OFFST NV1_OTA_UPG_STATE_LEN d"

definition ln_nvds_set_ota_upg_state :: "'d flash_if \<Rightarrow> nat \<Rightarrow> u32 \<Rightarrow> 'd \<Rightarrow> nvds_err \<times> 'd" where
  "ln_nvds_set_ota_upg_state fi base state d =
     nvds_set_item fi base NV1_OTA_UPG_STATE_OFFST NV1_OTA_UPG_STATE_LEN state d"

definition ln_nvds_get_xtal_comp_val :: "'d flash_if \<Rightarrow> nat \<Rightarrow> 'd \<Rightarrow> nvds_err \<times> u8" where
  "ln_nvds_get_xtal_comp_val fi base d = nvds_get_item fi base NV2_XTAL_COMP_VAL_OFFST NV2_XTAL_COMP_VAL_LEN d"

definition ln_nvds_set_xtal_comp_val :: "'d flash_if \<Rightarrow> nat \<Rightarrow> u8 \<Rightarrow> 'd \<Rightarrow> nvds_err \<times> 'd" where
  "ln_nvds_set_xtal_comp_val fi base val d =
     nvds_set_item fi base NV2_XTAL_COMP_VAL_OFFST NV2_XTAL_COMP_VAL_LEN val d"

definition ln_nvds_get_tx_power_comp :: "'d flash_if \<Rightarrow> nat \<Rightarrow> 'd \<Rightarrow> nvds_err \<times> u8" where
  "ln_nvds_get_tx_power_comp fi base d = nvds_get_item fi base NV3_TX_POWER_COMP_OFFST NV3_TX_POWER_COMP_LEN d"

definition ln_nvds_set_tx_power_comp :: "'d flash_if \<Rightarrow> nat \<Rightarrow> u8 \<Rightarrow> 'd \<Rightarrow> nvds_err \<times> 'd" where
  "ln_nvds_set_tx_power_comp fi base val d =
     nvds_set_item fi base NV3_TX_POWER_COMP_OFFST NV3_TX_POWER_COMP_LEN val d"

definition ln_nvds_get_chip_sn :: "'d flash_if \<Rightarrow> nat \<Rightarrow> nat \<Rightarrow> 'd \<Rightarrow> nvds_err \<times> byte list" where
  "ln_nvds_get_chip_sn fi base buf_len d =
     ln_nvds_read fi base NV4_CHIP_SN_OFFSET (if buf_len < NV4_CHIP_SN_LEN then buf_len else NV4_CHIP_SN_LEN) d"

definition ln_nvds_set_chip_sn :: "'d flash_if \<Rightarrow> nat \<Rightarrow> byte list \<Rightarrow> 'd \<Rightarrow> nvds_err \<times> 'd" where
  "ln_nvds_set_chip_sn fi base sn d =
     (case ln_nvds_get_chip_sn fi base NV4_CHIP_SN_LEN d of (err, rd_val) \<Rightarrow>
        if err = NVDS_ERR_OK \<and> rd_val = take NV4_CHIP_SN_LEN sn then (NVDS_ERR_OK, d)
        else ln_nvds_write fi base NV4_CHIP_SN_OFFSET (take NV4_CHIP_SN_LEN sn) d)"

definition ln_nvds_get_boot_log_uart_baudrate :: "'d flash_if \<Rightarrow> nat \<Rightarrow> 'd \<Rightarrow> nvds_err \<times> u32" where
  "ln_nvds_get_boot_log_uart_baudrate fi base d =
     nvds_get_item fi base NV5_BOOT_LOG_UART_BR_OFFSET NV5_BOOT_LOG_UART_BR_LEN d"

definition ln_nvds_set_boot_log_uart_baudrate :: "'d flash_if \<Rightarrow> nat \<Rightarrow> u32 \<Rightarrow> 'd \<Rightarrow> nvds_err \<times> 'd" where
  "ln_nvds_set_boot_log_uart_baudrate fi base baudrate d =
     nvds_set_item fi base NV5_BOOT_LOG_UART_BR_OFFSET NV5_BOOT_LOG_UART_BR_LEN baudrate d"

definition ln_nvds_get_boot_log_en :: "'d flash_if \<Rightarrow> nat \<Rightarrow> 'd \<Rightarrow> nvds_err \<times> u8" where
  "ln_nvds_get_boot_log_en fi base d = nvds_get_item fi base NV6_BOOT_LOG_EN_OFFSET NV6_BOOT_LOG_EN_LEN d"

definition ln_nvds_set_boot_log_en :: "'d flash_if \<Rightarrow> nat \<Rightarrow> u8 \<Rightarrow> 'd \<Rightarrow> nvds_err \<times> 'd" where
  "ln_nvds_set_boot_log_en fi base val d = nvds_set_item fi base NV6_BOOT_LOG_EN_OFFSET NV6_BOOT_LOG_EN_LEN val d"

definition ln_nvds_get_boot_delay_ms :: "'d flash_if \<Rightarrow> nat \<Rightarrow> 'd \<Rightarrow> nvds_err \<times> u16" where
  "ln_nvds_get_boot_delay_ms fi base d = nvds_get_item fi base NV7_BOOT_DELAY_MS_OFFSET NV7_BOOT_DELAY_MS_LEN d"

definition ln_nvds_set_boot_delay_ms :: "'d flash_if \<Rightarrow> nat \<Rightarrow> u16 \<Rightarrow> 'd \<Rightarrow> nvds_err \<times> 'd" where
  "ln_nvds_set_boot_delay_ms fi base val d =
     nvds_set_item fi base NV7_BOOT_DELAY_MS_OFFSET NV7_BOOT_DELAY_MS_LEN val d"

definition ln_nvds_get_boot_delay_en :: "'d flash_if \<Rightarrow> nat \<Rightarrow> 'd \<Rightarrow> nvds_err \<times> u8" where
  "ln_nvds_get_boot_delay_en fi base d = nvds_get_item fi base NV8_BOOT_DELAY_EN_OFFSET NV8_BOOT_DELAY_EN_LEN d"

definition ln_nvds_set_boot_delay_en :: "'d flash_if \<Rightarrow> nat \<Rightarrow> u8 \<Rightarrow> 'd \<Rightarrow> nvds_err \<times> 'd" where
  "ln_nvds_set_boot_delay_en fi base val d =
     nvds_set_item fi base NV8_BOOT_DELAY_EN_OFFSET NV8_BOOT_DELAY_EN_LEN val d"

section \<open>Every device behaves as a memory\<close>

lemmas nvds_addr_defs = USR_NVDS_SECT1_OFFSET_def USR_NVDS_SECT2_OFFSET_def USR_NVDS_FLAG_OFFSET_def
  SIZE_4KB_def SECT_MAGIC_CODE_OFFSET_def SECT_MAGIC_CODE_LEN_def

lemmas nvds_flash_defs = nvds_read_flash_def nvds_write_flash_def nvds_erase_flash_def
  nvds_set_magic_code_def nvds_get_magic_code_def nvds_set_valid_flag_def nvds_get_valid_flag_def

context flash_dev
begin

lemma copy_sim:
  "src + i + n \<le> cap \<Longrightarrow> dst + i + n \<le> cap \<Longrightarrow>
     cells (nvds_copy fi src dst n i d) = nvds_copy plain_flash src dst n i (cells d)"
  by (induction n arbitrary: i d) (simp_all add: nvds_flash_defs fi_read fi_prog Let_def)

lemma fill_sim:
  assumes "src + 4096 \<le> cap" "dst + 4096 \<le> cap" "dst mod 4096 = 0" "4 \<le> off" "off + length data \<le> 4096"
  shows "cells (nvds_fill_sect fi src dst off data d) = nvds_fill_sect plain_flash src dst off data (cells d)"
  using assms
  by (simp add: nvds_fill_sect_def Let_def nvds_addr_defs nvds_flash_defs copy_sim fi_prog fi_erase)

lemma write_sect_sim:
  assumes "src + 4096 \<le> cap" "dst + 4096 \<le> cap" "dst mod 4096 = 0" "4 \<le> off" "off + length data \<le> 4096"
    and "base mod 4096 = 0" "base + 3 * 4096 \<le> cap"
  shows "cells (nvds_write_sect fi base src dst valid off data d)
    = nvds_write_sect plain_flash base src dst valid off data (cells d)"
proof -
  have "(8192 + base) mod 4096 = 0" using assms(6) by (auto simp: mod_eq_0_iff_dvd intro: dvd_add)
  then show ?thesis using assms(7) fill_sim [OF assms(1-5)]
    by (simp add: nvds_write_sect_def nvds_addr_defs nvds_flash_defs fi_prog fi_erase)
qed

lemma write_sim:
  assumes "base mod 4096 = 0" "base + 3 * 4096 \<le> cap" "4 \<le> off" "off + length data \<le> 4096"
  shows "fst (ln_nvds_write fi base off data d) = NVDS_ERR_OK
    \<and> cells (snd (ln_nvds_write fi base off data d)) = snd (ln_nvds_write plain_flash base off data (cells d))"
  using assms write_sect_sim
  by (simp add: ln_nvds_write_def nvds_addr_defs nvds_flash_defs fi_read)

lemma read_sim:
  assumes "base + 3 * 4096 \<le> cap" "off + len \<le> 4096"
  shows "ln_nvds_read fi base off len d = ln_nvds_read plain_flash base off len (cells d)"
  using assms by (simp add: ln_nvds_read_def nvds_addr_defs nvds_flash_defs fi_read)

end

section \<open>The data a memory holds\<close>

definition nvds_flag :: "nat \<Rightarrow> mem \<Rightarrow> u16" where
  "nvds_flag base m = le_word (mem_read m (base + 8192) 2)"

definition nvds_magic :: "byte list" where
  "nvds_magic = le_bytes 4 NVDS_SECT_MAGIC_CODE"

text \<open>The sector that reads are served from.\<close>

definition nvds_view :: "nat \<Rightarrow> mem \<Rightarrow> byte list option" where
  "nvds_view base m =
     (if nvds_flag base m = NVDS_SECT1_VALID then Some (mem_read m base 4096)
      else if nvds_flag base m = NVDS_SECT2_VALID \<or> mem_read m (base + 4096) 4 = nvds_magic
      then Some (mem_read m (base + 4096) 4096) else None)"

definition nvds_new :: "nat \<Rightarrow> byte list \<Rightarrow> byte list \<Rightarrow> byte list" where
  "nvds_new off data old = nvds_magic @ take (off - 4) (drop 4 old) @ data @ drop (off + length data) old"

lemma length_nvds_magic [simp]: "length nvds_magic = 4"
  by (simp add: nvds_magic_def)

lemma magic_code_iff: "le_word (mem_read m a 4) = NVDS_SECT_MAGIC_CODE \<longleftrightarrow> mem_read m a 4 = nvds_magic"
proof
  assume "le_word (mem_read m a 4) = NVDS_SECT_MAGIC_CODE"
  then show "mem_read m a 4 = nvds_magic"
    using le_bytes_le_word [of "mem_read m a 4" 4, where 'a = 32] by (simp add: nvds_magic_def)
qed (simp add: nvds_magic_def)

lemma read_view:
  assumes "off + len \<le> 4096"
  shows "ln_nvds_read plain_flash base off len m =
    (case nvds_view base m of Some bs \<Rightarrow> (NVDS_ERR_OK, take len (drop off bs)) | None \<Rightarrow> (NVDS_ERR_FAIL, []))"
proof -
  have "min len (4096 - off) = len" using assms by simp
  then show ?thesis using assms
    by (simp add: ln_nvds_read_def nvds_view_def nvds_flag_def nvds_addr_defs nvds_flash_defs magic_code_iff
        add.assoc)
qed

section \<open>Writing on a memory\<close>

lemma nvds_none_tag: "NVDS_NONE_TAG = - 1"
  by (simp add: NVDS_NONE_TAG_def)

lemma copy_plain:
  assumes "src + 4096 \<le> dst \<or> dst + 4096 \<le> src" "i + n \<le> 4096"
  shows "nvds_copy plain_flash src dst n i m = nor_prog m (dst + i) (mem_read m (src + i) n)"
  using assms(2)
proof (induction n arbitrary: i m)
  case 0
  then show ?case by simp
next
  case (Suc n)
  have tag: "nor_prog m (dst + i) [NVDS_NONE_TAG] = m"
    by (rule ext) (auto simp: nor_prog_def nvds_none_tag)
  have rd: "mem_read (nor_prog m (dst + i) [m (src + i)]) (src + (i + 1)) n = mem_read m (src + (i + 1)) n"
    using assms(1) Suc.prems by (intro nor_prog_outside) auto
  have split: "mem_read m (src + i) (Suc n) = [m (src + i)] @ mem_read m (src + (i + 1)) n"
    using mem_read_add [of m "src + i" 1 n] by (simp add: mem_read_def)
  show ?case
    unfolding split nor_prog_append using Suc.IH [of "i + 1"] Suc.prems tag rd
    by (simp add: nvds_flash_defs Let_def)
qed

lemma fill_plain:
  assumes "src + 4096 \<le> dst \<or> dst + 4096 \<le> src" "4 \<le> off" "off + length data \<le> 4096"
  shows "nvds_fill_sect plain_flash src dst off data m
    = nor_prog (nor_erase m dst 4096) dst (nvds_new off data (mem_read m src 4096))"
proof -
  let ?m1 = "nor_erase m dst 4096"
  let ?a = "mem_read m (src + 4) (off - 4)" and ?b = "mem_read m (src + (off + length data)) (4096 - (off + length data))"
  have outside: "mem_read (nor_prog ?m1 dst xs) (src + j) n = mem_read m (src + j) n"
    if "length xs \<le> 4096" "j + n \<le> 4096" for xs j n
    using assms(1) that by (subst nor_prog_outside) (auto intro!: mem_fill_outside)
  let ?m2 = "nor_prog ?m1 dst nvds_magic" and ?m3 = "nor_prog ?m1 dst (nvds_magic @ ?a)"
  let ?m4 = "nor_prog ?m1 dst (nvds_magic @ ?a @ data)"
  have m3: "nvds_copy plain_flash src dst (off - 4) 4 ?m2 = ?m3"
    using copy_plain [OF assms(1), of 4 "off - 4" ?m2] assms(2,3) outside [of nvds_magic 4 "off - 4"]
    by (simp add: nor_prog_append)
  have m4: "nor_prog ?m3 (dst + off) data = ?m4"
    using assms(2) nor_prog_append [of ?m1 dst "nvds_magic @ ?a" data] by simp
  have m5: "nvds_copy plain_flash src dst (4096 - (off + length data)) (off + length data) ?m4
      = nor_prog ?m1 dst (nvds_magic @ ?a @ data @ ?b)"
    using copy_plain [OF assms(1), of "off + length data" "4096 - (off + length data)" ?m4] assms(2,3)
      outside [of "nvds_magic @ ?a @ data" "off + length data" "4096 - (off + length data)"]
      nor_prog_append [of ?m1 dst "nvds_magic @ ?a @ data" ?b] by simp
  have new: "nvds_new off data (mem_read m src 4096) = nvds_magic @ ?a @ data @ ?b"
  proof -
    have "min (off - 4) 4092 = off - 4" using assms(3) by simp
    then show ?thesis using assms(2,3) by (simp add: nvds_new_def)
  qed
  show ?thesis
  proof (cases "off + length data < 4096")
    case True
    then show ?thesis using m3 m4 m5 new
      by (simp add: nvds_fill_sect_def Let_def nvds_addr_defs nvds_flash_defs nvds_magic_def [symmetric])
  next
    case False
    then have "?b = []" using assms(3) by simp
    then show ?thesis using False m3 m4 new
      by (simp add: nvds_fill_sect_def Let_def nvds_addr_defs nvds_flash_defs nvds_magic_def [symmetric])
  qed
qed

lemma replicate_2: "replicate 2 x = [x, x]"
  by (simp add: numeral_2_eq_2)

lemma flag_after:
  "nvds_flag base (nor_prog (nor_erase m (base + 8192) 4096) (base + 8192) (le_bytes 2 v)) = v"
  using nor_prog_erased [of "nor_erase m (base + 8192) 4096" "base + 8192" "le_bytes 2 v"]
    mem_fill_inside [of "base + 8192" "base + 8192" 2 4096 m "- 1"]
  by (simp add: nvds_flag_def)

lemma flag_erased: "nvds_flag base (nor_erase m (base + 8192) 4096) = - 1"
proof -
  have "mem_read (nor_erase m (base + 8192) 4096) (base + 8192) 2 = [- 1, - 1]"
    using mem_fill_inside [of "base + 8192" "base + 8192" 2 4096 m "- 1"] replicate_2 [of "- 1 :: byte"] by simp
  moreover have "le_word [- 1, - 1 :: byte] = (- 1 :: u16)" by code_simp
  ultimately show ?thesis by (simp add: nvds_flag_def)
qed

lemma sect_filled:
  assumes "length new = 4096"
  shows "dst + 4096 \<le> f \<or> f + 4096 \<le> dst \<Longrightarrow> length fl \<le> 4096 \<Longrightarrow>
      mem_read (nor_prog (nor_erase (nor_prog (nor_erase m dst 4096) dst new) f 4096) f fl) dst 4096 = new"
    and "dst + 4096 \<le> f \<or> f + 4096 \<le> dst \<Longrightarrow>
      mem_read (nor_erase (nor_prog (nor_erase m dst 4096) dst new) f 4096) dst 4096 = new"
    and "mem_read (nor_prog (nor_erase m dst 4096) dst new) dst 4096 = new"
proof -
  show *: "mem_read (nor_prog (nor_erase m dst 4096) dst new) dst 4096 = new"
    using nor_prog_erased [of "nor_erase m dst 4096" dst new] mem_fill_inside [of dst dst 4096 4096 m "- 1"] assms(1)
    by simp
  show "mem_read (nor_erase (nor_prog (nor_erase m dst 4096) dst new) f 4096) dst 4096 = new"
    if "dst + 4096 \<le> f \<or> f + 4096 \<le> dst"
    using * that by (subst mem_fill_outside) auto
  then show "mem_read (nor_prog (nor_erase (nor_prog (nor_erase m dst 4096) dst new) f 4096) f fl) dst 4096 = new"
    if "dst + 4096 \<le> f \<or> f + 4096 \<le> dst" "length fl \<le> 4096"
    using that by (subst nor_prog_outside) auto
qed

lemma length_nvds_new: "4 \<le> off \<Longrightarrow> off + length data \<le> 4096 \<Longrightarrow> length old = 4096 \<Longrightarrow>
    length (nvds_new off data old) = 4096"
  by (simp add: nvds_new_def)

text \<open>The sector a write reads the other data from.\<close>

definition nvds_old :: "nat \<Rightarrow> mem \<Rightarrow> byte list" where
  "nvds_old base m = (if nvds_flag base m = NVDS_SECT1_VALID then mem_read m base 4096 else mem_read m (base + 4096) 4096)"

lemma nvds_old_view: "nvds_view base m = Some old \<Longrightarrow> nvds_old base m = old"
  by (auto simp: nvds_view_def nvds_old_def split: if_splits)

lemma length_nvds_old [simp]: "length (nvds_old base m) = 4096"
  by (simp add: nvds_old_def)

lemma valid_ne: "NVDS_SECT2_VALID \<noteq> NVDS_SECT1_VALID" "- 1 \<noteq> NVDS_SECT1_VALID" "- 1 \<noteq> NVDS_SECT2_VALID"
  by (simp_all add: NVDS_SECT1_VALID_def NVDS_SECT2_VALID_def)

lemma flag_plain: "nvds_get_valid_flag plain_flash base m = nvds_flag base m"
  by (simp add: nvds_flash_defs nvds_addr_defs nvds_flag_def add.commute)

text \<open>The memory after a write: the other sector filled, the flag turned over.\<close>

definition nvds_dst :: "nat \<Rightarrow> mem \<Rightarrow> nat" where
  "nvds_dst base m = (if nvds_flag base m = NVDS_SECT1_VALID then base + 4096 else base)"

definition nvds_dst_valid :: "nat \<Rightarrow> mem \<Rightarrow> u16" where
  "nvds_dst_valid base m = (if nvds_flag base m = NVDS_SECT1_VALID then NVDS_SECT2_VALID else NVDS_SECT1_VALID)"

lemma write_plain_mem:
  assumes "4 \<le> off" "off + length data \<le> 4096"
  shows "snd (ln_nvds_write plain_flash base off data m) =
    nor_prog (nor_erase (nor_prog (nor_erase m (nvds_dst base m) 4096) (nvds_dst base m)
        (nvds_new off data (nvds_old base m))) (base + 8192) 4096) (base + 8192) (le_bytes 2 (nvds_dst_valid base m))"
  using flag_plain [of base m] assms fill_plain [of base "base + 4096" off data m]
    fill_plain [of "base + 4096" base off data m]
  by (auto simp: ln_nvds_write_def nvds_write_sect_def nvds_addr_defs nvds_flash_defs nvds_old_def nvds_dst_def
      nvds_dst_valid_def add.commute)

lemma write_plain:
  assumes "4 \<le> off" "off + length data \<le> 4096"
  shows "nvds_view base (snd (ln_nvds_write plain_flash base off data m)) = Some (nvds_new off data (nvds_old base m))"
proof -
  let ?new = "nvds_new off data (nvds_old base m)" and ?m' = "snd (ln_nvds_write plain_flash base off data m)"
  have len: "length ?new = 4096" using assms by (intro length_nvds_new) auto
  have "mem_read ?m' (nvds_dst base m) 4096 = ?new"
    unfolding write_plain_mem [OF assms] using len by (intro sect_filled) (auto simp: nvds_dst_def)
  moreover have "nvds_flag base ?m' = nvds_dst_valid base m"
    unfolding write_plain_mem [OF assms] by (rule flag_after)
  ultimately show ?thesis by (auto simp: nvds_view_def nvds_dst_def nvds_dst_valid_def valid_ne valid_ne(1) [symmetric] split: if_splits)
qed

lemma write_plain_outside:
  assumes "4 \<le> off" "off + length data \<le> 4096" "x < base \<or> base + 12288 \<le> x"
  shows "snd (ln_nvds_write plain_flash base off data m) x = m x"
proof -
  have "length (nvds_new off data (nvds_old base m)) = 4096" using assms by (intro length_nvds_new) auto
  moreover have "base \<le> nvds_dst base m" "nvds_dst base m \<le> base + 4096" by (simp_all add: nvds_dst_def)
  ultimately show ?thesis unfolding write_plain_mem [OF assms(1,2)] using assms(3)
    by (auto simp: nor_prog_def mem_fill_def)
qed

section \<open>Writing when the power is cut\<close>

lemma copy_track:
  assumes "a \<le> dst + i" "dst + i + n \<le> a + l"
  shows "cut_track a l (nvds_copy cut_flash src dst n i) (nvds_copy plain_flash src dst n i)"
  using assms
proof (induction n arbitrary: i)
  case 0
  then show ?case by (simp add: cut_track_id)
next
  case (Suc n)
  define f where "f = (\<lambda>d. if fi_read cut_flash (src + i) 1 d ! 0 \<noteq> NVDS_NONE_TAG
    then fi_prog cut_flash (dst + i) [fi_read cut_flash (src + i) 1 d ! 0] d else d)"
  define g where "g = (\<lambda>m. if mem_read m (src + i) 1 ! 0 \<noteq> NVDS_NONE_TAG
    then nor_prog m (dst + i) [mem_read m (src + i) 1 ! 0] else m)"
  have "cut_track a l f g"
    using cut_track_prog [of a "dst + i" _ l] Suc.prems unfolding f_def g_def cut_track_def by (auto simp: nor_prog_def)
  from cut_track_comp [OF this Suc.IH [of "i + 1"]] Suc.prems
  have "cut_track a l (\<lambda>d. nvds_copy cut_flash src dst n (i + 1) (f d)) (\<lambda>m. nvds_copy plain_flash src dst n (i + 1) (g m))"
    by simp
  then show ?case by (simp add: f_def g_def nvds_flash_defs Let_def cong: if_cong)
qed

lemma fill_track:
  assumes "4 \<le> off" "off + length data \<le> 4096"
  shows "cut_track dst 4096 (nvds_fill_sect cut_flash src dst off data) (nvds_fill_sect plain_flash src dst off data)"
proof -
  let ?t = "cut_track dst 4096"
  note 1 = cut_track_erase [of dst dst 4096 4096, simplified]
  note 2 = cut_track_comp [OF 1 cut_track_prog [of dst dst "le_bytes 4 NVDS_SECT_MAGIC_CODE" 4096, simplified]]
  note 3 = cut_track_comp [OF 2 copy_track [of dst dst 4 "off - 4" 4096 src]]
  note 4 = cut_track_comp [OF 3 cut_track_prog [of dst "dst + off" data 4096]]
  note 5 = cut_track_comp [OF 4 copy_track [of dst dst "off + length data" "4096 - (off + length data)" 4096 src]]
  show ?thesis using 4 5 assms
    by (cases "off + length data < 4096")
      (simp_all add: nvds_fill_sect_def [abs_def] Let_def nvds_flash_defs nvds_addr_defs)
qed

lemma flag_torn:
  assumes "k < 2"
  shows "nvds_flag base (nor_prog (nor_erase m (base + 8192) 4096) (base + 8192) (take k (le_bytes 2 v)))
    \<notin> {NVDS_SECT1_VALID, NVDS_SECT2_VALID}"
proof (cases "k = 0")
  case True
  then show ?thesis using valid_ne by (simp add: flag_erased)
next
  case False
  let ?m = "nor_erase m (base + 8192) 4096"
  have k: "k = 1" using False assms by simp
  have "mem_read (nor_prog ?m (base + 8192) [b]) (base + 8192) 2 = [b, - 1]" for b
    by (rule nth_equalityI) (auto simp: nor_prog_def mem_fill_def less_2_cases_iff)
  then have "nvds_flag base (nor_prog ?m (base + 8192) [b]) = ucast b OR push_bit 8 (ucast (- 1 :: byte))" for b
    by (simp add: nvds_flag_def)
  moreover have "ucast b OR push_bit 8 (ucast (- 1 :: byte)) \<noteq> (c :: u16)" if "\<not> bit c 9 \<or> \<not> bit c 8" for b :: byte and c
  proof
    assume e: "ucast b OR push_bit 8 (ucast (- 1 :: byte)) = c"
    have "bit c 9" "bit c 8" unfolding e [symmetric] by (simp_all add: bit_simps)
    then show False using that by simp
  qed
  moreover have "\<not> bit NVDS_SECT1_VALID 9" "\<not> bit NVDS_SECT2_VALID 8"
    unfolding NVDS_SECT1_VALID_def NVDS_SECT2_VALID_def by code_simp+
  ultimately show ?thesis using k by (simp add: le_bytes_numeral)
qed

text \<open>The view of a memory that differs only in the sector that is not valid.\<close>

lemma view_other_sect:
  assumes "mem_read m' (base + 8192) 2 = mem_read m (base + 8192) 2"
    and "nvds_flag base m = NVDS_SECT1_VALID \<Longrightarrow> mem_read m' base 4096 = mem_read m base 4096"
    and "nvds_flag base m \<noteq> NVDS_SECT1_VALID \<Longrightarrow> mem_read m' (base + 4096) 4096 = mem_read m (base + 4096) 4096"
  shows "nvds_view base m' = nvds_view base m"
proof -
  have "nvds_flag base m' = nvds_flag base m" using assms(1) by (simp add: nvds_flag_def)
  moreover have "mem_read m' (base + 4096) 4 = mem_read m (base + 4096) 4"
    if "mem_read m' (base + 4096) 4096 = mem_read m (base + 4096) 4096"
    using arg_cong [OF that, of "take 4"] by simp
  ultimately show ?thesis using assms(2,3) by (auto simp: nvds_view_def)
qed

lemma view_turn_over:
  fixes k :: nat
  assumes "mem_read m (base + 4096) 4 = nvds_magic" "v = NVDS_SECT1_VALID \<or> v = NVDS_SECT2_VALID"
  defines "m' \<equiv> nor_prog (nor_erase m (base + 8192) 4096) (base + 8192) (take k (le_bytes 2 v))"
  shows "nvds_view base m' = Some (mem_read m (base + 4096) 4096)
    \<or> v = NVDS_SECT1_VALID \<and> nvds_view base m' = Some (mem_read m base 4096)"
proof -
  have out: "mem_read m' a n = mem_read m a n" if "a + n \<le> base + 8192" for a n
    unfolding m'_def using that by (subst nor_prog_outside, simp, subst mem_fill_outside) auto
  have s: "mem_read m' base 4096 = mem_read m base 4096" "mem_read m' (base + 4096) 4 = mem_read m (base + 4096) 4"
    "mem_read m' (base + 4096) 4096 = mem_read m (base + 4096) 4096"
    by (auto intro: out)
  show ?thesis
  proof (cases "k < 2")
    case True
    then show ?thesis using s assms(1) flag_torn [OF True, of base m v] unfolding m'_def nvds_view_def by simp
  next
    case False
    then have "nvds_flag base m' = v" using flag_after unfolding m'_def by simp
    then show ?thesis using s assms(2) valid_ne unfolding nvds_view_def by auto
  qed
qed

lemma write_cut:
  assumes "4 \<le> off" "off + length data \<le> 4096"
    and v: "nvds_view base m = Some old" "take 4 old = nvds_magic"
  shows "nvds_view base (fst (snd (ln_nvds_write cut_flash base off data (m, k)))) \<in> {Some old, Some (nvds_new off data old)}"
proof (cases "nvds_flag base m = NVDS_SECT1_VALID")
  case True
  then have old: "mem_read m base 4096 = old" using v by (simp add: nvds_view_def)
  have w: "snd (ln_nvds_write cut_flash base off data (m, k)) = fi_prog cut_flash (base + 8192) (le_bytes 2 NVDS_SECT2_VALID)
      (fi_erase cut_flash (base + 8192) 4096 (nvds_fill_sect cut_flash base (base + 4096) off data (m, k)))"
    using True assms(1,2)
    by (simp add: ln_nvds_write_def nvds_write_sect_def nvds_addr_defs nvds_flash_defs nvds_flag_def add.commute)
  show ?thesis
  proof (cases rule: cut_track_cases [OF fill_track [OF assms(1,2), of "base + 4096" base], of m k])
    case (1 m')
    have "nvds_view base m' = nvds_view base m" by (rule view_other_sect) (use 1(2) True in simp_all)
    then show ?thesis using w 1(1) v(1) by simp
  next
    case (2 k')
    let ?new = "nvds_new off data old" and ?m = "nvds_fill_sect plain_flash base (base + 4096) off data m"
    have "length old = 4096" using old by (metis length_mem_read)
    then have len: "length ?new = 4096" using assms by (intro length_nvds_new) auto
    have r: "mem_read ?m (base + 4096) 4096 = ?new"
      using sect_filled(3) [OF len, of m "base + 4096"] old fill_plain [of base "base + 4096" off data m] assms by simp
    have "mem_read ?m (base + 4096) 4 = nvds_magic"
      using arg_cong [OF r, of "take 4"] by (simp add: nvds_new_def)
    from view_turn_over [OF this, of NVDS_SECT2_VALID k'] show ?thesis using w 2 r valid_ne by simp
  qed
next
  case False
  then have old: "mem_read m (base + 4096) 4096 = old" using v by (simp add: nvds_view_def split: if_splits)
  have w: "snd (ln_nvds_write cut_flash base off data (m, k)) = fi_prog cut_flash (base + 8192) (le_bytes 2 NVDS_SECT1_VALID)
      (fi_erase cut_flash (base + 8192) 4096 (nvds_fill_sect cut_flash (base + 4096) base off data (m, k)))"
    using False assms(1,2)
    by (simp add: ln_nvds_write_def nvds_write_sect_def nvds_addr_defs nvds_flash_defs nvds_flag_def add.commute)
  show ?thesis
  proof (cases rule: cut_track_cases [OF fill_track [OF assms(1,2), of base "base + 4096"], of m k])
    case (1 m')
    have "nvds_view base m' = nvds_view base m" by (rule view_other_sect) (use 1(2) False in simp_all)
    then show ?thesis using w 1(1) v(1) by simp
  next
    case (2 k')
    let ?new = "nvds_new off data old" and ?m = "nvds_fill_sect plain_flash (base + 4096) base off data m"
    have "length old = 4096" using old by (metis length_mem_read)
    then have len: "length ?new = 4096" using assms by (intro length_nvds_new) auto
    have p: "?m = nor_prog (nor_erase m base 4096) base ?new"
      using fill_plain [of "base + 4096" base off data m] assms old by simp
    have r: "mem_read ?m base 4096 = ?new" unfolding p by (rule sect_filled(3) [OF len])
    have r2: "mem_read ?m (base + 4096) 4096 = old"
      unfolding p using len old by (subst nor_prog_outside, simp, subst mem_fill_outside) simp_all
    then have "mem_read ?m (base + 4096) 4 = nvds_magic" using v(2) by auto
    from view_turn_over [OF this, of NVDS_SECT1_VALID k'] show ?thesis using w 2 r r2 by auto
  qed
qed

section \<open>What clients see\<close>

lemma mem_read_const: "mem_read (\<lambda>_. v) a n = replicate n v"
  by (rule nth_equalityI) simp_all

lemma new_slice: "4 \<le> off \<Longrightarrow> length old = 4096 \<Longrightarrow> off + length data \<le> 4096 \<Longrightarrow>
    take (length data) (drop off (nvds_new off data old)) = data"
  by (simp add: nvds_new_def)

context flash_dev
begin

lemma write_read:
  assumes "base mod 4096 = 0" "base + 3 * 4096 \<le> cap" "4 \<le> off" "off + length data \<le> 4096" "off' + len \<le> 4096"
  shows "fst (ln_nvds_write fi base off data d) = NVDS_ERR_OK \<and>
    ln_nvds_read fi base off' len (snd (ln_nvds_write fi base off data d))
      = (NVDS_ERR_OK, take len (drop off' (nvds_new off data (nvds_old base (cells d)))))"
  using write_sim [OF assms(1-4), of d] read_sim [OF assms(2,5)] read_view [OF assms(5)] write_plain [OF assms(3,4)]
  by simp

lemma set_get_item:
  fixes val :: "'a::len word"
  assumes "base mod 4096 = 0" "base + 3 * 4096 \<le> cap" "4 \<le> off" "off + len \<le> 4096" "8 * len \<le> LENGTH('a)"
  shows "fst (nvds_set_item fi base off len val d) = NVDS_ERR_OK \<and>
    nvds_get_item fi base off len (snd (nvds_set_item fi base off len val d)) = (NVDS_ERR_OK, take_bit (8 * len) val)"
proof -
  obtain err rd where g: "nvds_get_item fi base off len d = (err, rd :: 'a word)"
    by (cases "nvds_get_item fi base off len d :: nvds_err \<times> 'a word")
  show ?thesis
  proof (cases "err = NVDS_ERR_OK \<and> rd = val")
    case True
    then obtain bs where bs: "ln_nvds_read fi base off len d = (NVDS_ERR_OK, bs)" "val = le_word bs"
      using g by (auto simp: nvds_get_item_def split: prod.splits)
    then have "length bs = len"
      using read_sim [OF assms(2,4), of d] read_view [OF assms(4), of base "cells d"] assms(4)
      by (auto simp: nvds_view_def min_def split: option.splits if_splits)
    then have "take_bit (8 * len) val = val"
      using le_word_le_bytes_take [of len val] bs(2) assms(5) by simp
    then show ?thesis using g True by (simp add: nvds_set_item_def)
  next
    case False
    then have "nvds_set_item fi base off len val d = ln_nvds_write fi base off (le_bytes len val) d"
      using g by (auto simp: nvds_set_item_def)
    then show ?thesis
      using write_read [of base off "le_bytes len val" off len d] assms
        new_slice [of off "nvds_old base (cells d)" "le_bytes len val"]
      by (simp add: nvds_get_item_def le_word_le_bytes_take)
  qed
qed

end

context flash_dev
begin

lemma set_item_outside:
  assumes "base mod 4096 = 0" "base + 3 * 4096 \<le> cap" "4 \<le> off" "off + len \<le> 4096" "x < base \<or> base + 12288 \<le> x"
  shows "cells (snd (nvds_set_item fi base off len val d)) x = cells d x"
  using write_sim [OF assms(1-3), of "le_bytes len val" d] write_plain_outside [OF assms(3) _ assms(5), of "le_bytes len val" "cells d"]
    assms(4)
  by (auto simp: nvds_set_item_def split: prod.splits)

end

lemmas nvds_item_defs = NV0_NVDS_VERSION_OFFST_def NV0_NVDS_VERSION_LEN_def NV1_OTA_UPG_STATE_OFFST_def
  NV1_OTA_UPG_STATE_LEN_def NV2_XTAL_COMP_VAL_OFFST_def NV2_XTAL_COMP_VAL_LEN_def NV3_TX_POWER_COMP_OFFST_def
  NV3_TX_POWER_COMP_LEN_def NV4_CHIP_SN_OFFSET_def NV4_CHIP_SN_LEN_def NV5_BOOT_LOG_UART_BR_OFFSET_def
  NV5_BOOT_LOG_UART_BR_LEN_def SECT_MAGIC_CODE_OFFSET_def SECT_MAGIC_CODE_LEN_def

text \<open>On every chip that keeps its datasheet, a write to the data store succeeds, and a read of any
  range afterwards returns the new data where the write went, and elsewhere what the store held
  before (behind the sector's magic code).\<close>

lemma nvds_write_read:
  assumes "spi_nor chip cells" "base mod 4096 = 0" "base + 3 * 4096 \<le> FALSH_SIZE_MAX"
    and "4 \<le> off" "off + length data \<le> 4096" "off' + len \<le> 4096"
  shows "fst (ln_nvds_write (chip_flash chip) base off data c) = NVDS_ERR_OK \<and>
    ln_nvds_read (chip_flash chip) base off' len (snd (ln_nvds_write (chip_flash chip) base off data c))
      = (NVDS_ERR_OK, take len (drop off' (nvds_new off data (nvds_old base (cells c)))))"
  by (rule flash_dev.write_read [OF spi_nor.chip_flash_dev [OF assms(1)] assms(2-)])

lemma nvds_write_read_witness:
  "ln_nvds_read (chip_flash ideal_chip) 0x1000 22 4
     (snd (ln_nvds_write (chip_flash ideal_chip) 0x1000 20 [1, 2, 3] (\<lambda>_. 7, False))) = (NVDS_ERR_OK, [3, 7, 7, 7])"
  using nvds_write_read [OF ideal.spi_nor_axioms, where base = "0x1000" and off = 20 and data = "[1, 2, 3]"
      and off' = 22 and len = 4 and c = "(\<lambda>_. 7, False)"]
  by (simp add: FALSH_SIZE_MAX_def nvds_new_def nvds_old_def mem_read_const numeral_3_eq_3 [THEN arg_cong, of "\<lambda>n. replicate n 7"])

text \<open>C4: Writing the data store is atomic under power loss: wherever the power is cut, even inside a
  program, a read after the restart returns what the store held before or what the write stores,
  never a mixture and never an error.\<close>

theorem nvds_power_cut:
  assumes "4 \<le> off" "off + length data \<le> 4096" "off' + len \<le> 4096"
    and "nvds_view base m = Some old" "take 4 old = nvds_magic"
  shows "ln_nvds_read cut_flash base off' len (snd (ln_nvds_write cut_flash base off data (m, k)))
    \<in> {(NVDS_ERR_OK, take len (drop off' old)), (NVDS_ERR_OK, take len (drop off' (nvds_new off data old)))}"
proof -
  have "ln_nvds_read cut_flash base off' len (m', k') = ln_nvds_read plain_flash base off' len m'" for m' k'
    by (simp add: ln_nvds_read_def nvds_flash_defs)
  then show ?thesis
    using write_cut [OF assms(1,2,4,5), of k] read_view [OF assms(3), of base]
    by (cases "snd (ln_nvds_write cut_flash base off data (m, k))") auto
qed

theorem nvds_power_cut_witness:
  "ln_nvds_read cut_flash 0 20 2 (snd (ln_nvds_write cut_flash 0 20 [1, 2]
     (\<lambda>x. if x = 8192 \<or> x = 8193 then 0xA5 else if x < 4 then nvds_magic ! x else - 1, 9)))
   \<in> {(NVDS_ERR_OK, [- 1, - 1]), (NVDS_ERR_OK, [1, 2])}"
proof -
  let ?m = "\<lambda>x. if x = 8192 \<or> x = 8193 then 0xA5 else if x < 4 then nvds_magic ! x else - 1 :: byte"
  have m: "mem_read ?m 0 4 = nvds_magic"
    using length_nvds_magic by (simp add: mem_read_eq_iff)
  have "nvds_flag 0 ?m = NVDS_SECT1_VALID"
    by (simp add: nvds_flag_def mem_read_def NVDS_SECT1_VALID_def upt_rec)
  then have "nvds_view 0 ?m = Some (mem_read ?m 0 4096)" by (simp add: nvds_view_def)
  moreover have "take 4 (mem_read ?m 0 4096) = nvds_magic" using m by simp
  moreover have "mem_read ?m 20 2 = [- 1, - 1]" by (simp add: mem_read_def upt_rec)
  ultimately show ?thesis
    using nvds_power_cut [of 20 "[1, 2]" 20 2 0 ?m "mem_read ?m 0 4096" 9]
    by (simp add: nvds_new_def)
qed

text \<open>The OTA upgrade state survives a set and a get, whatever the store held before.\<close>

lemma nvds_ota_state_roundtrip:
  assumes "spi_nor chip cells" "base mod 4096 = 0" "base + 3 * 4096 \<le> FALSH_SIZE_MAX"
  shows "fst (ln_nvds_set_ota_upg_state (chip_flash chip) base state c) = NVDS_ERR_OK \<and>
    ln_nvds_get_ota_upg_state (chip_flash chip) base (snd (ln_nvds_set_ota_upg_state (chip_flash chip) base state c))
      = (NVDS_ERR_OK, state)"
  using flash_dev.set_get_item [OF spi_nor.chip_flash_dev [OF assms(1)] assms(2,3), of 20 4 state c]
    take_bit_length_eq [of state]
  by (simp add: ln_nvds_set_ota_upg_state_def ln_nvds_get_ota_upg_state_def nvds_item_defs)

lemma nvds_ota_state_roundtrip_witness:
  "ln_nvds_get_ota_upg_state (chip_flash ideal_chip) 0x1000
     (snd (ln_nvds_set_ota_upg_state (chip_flash ideal_chip) 0x1000 0xDEADBEEF (\<lambda>_. 0, False))) = (NVDS_ERR_OK, 0xDEADBEEF)"
  using nvds_ota_state_roundtrip [OF ideal.spi_nor_axioms, where base = "0x1000" and state = "0xDEADBEEF" and c = "(\<lambda>_. 0, False)"]
  by (simp add: FALSH_SIZE_MAX_def)

text \<open>The boot-log baud rate does not: one byte is kept for the four of the value, and what comes
  back is the rate modulo 256.\<close>

lemma nvds_baudrate_truncated:
  assumes "spi_nor chip cells" "base mod 4096 = 0" "base + 3 * 4096 \<le> FALSH_SIZE_MAX"
  shows "ln_nvds_get_boot_log_uart_baudrate (chip_flash chip) base
      (snd (ln_nvds_set_boot_log_uart_baudrate (chip_flash chip) base baudrate c)) = (NVDS_ERR_OK, baudrate mod 256)"
  using flash_dev.set_get_item [OF spi_nor.chip_flash_dev [OF assms(1)] assms(2,3), of 46 1 baudrate c]
  by (simp add: ln_nvds_set_boot_log_uart_baudrate_def ln_nvds_get_boot_log_uart_baudrate_def nvds_item_defs
      take_bit_eq_mod)

lemma nvds_baudrate_truncated_witness:
  "ln_nvds_get_boot_log_uart_baudrate (chip_flash ideal_chip) 0x1000
     (snd (ln_nvds_set_boot_log_uart_baudrate (chip_flash ideal_chip) 0x1000 115200 (\<lambda>_. 0, False))) = (NVDS_ERR_OK, 0)"
  using nvds_baudrate_truncated [OF ideal.spi_nor_axioms, where base = "0x1000" and baudrate = 115200 and c = "(\<lambda>_. 0, False)"]
  by (simp add: FALSH_SIZE_MAX_def)

end
