(* ===== verification/Crc_Props.thy ===== *)
theory Crc_Props
  imports Crc
begin

unbundle bit_operations_syntax

text \<open>
  The table-driven steps of the checksums divide eight bits at once; the functions of
  \<^verbatim>\<open>crc16.c\<close> and \<^verbatim>\<open>crc32.c\<close> are therefore the divisions, a buffer may be checked in segments,
  and no burst of errors of up to four bytes escapes the CRC-32.
\<close>

section \<open>The tables divide eight bits at once\<close>

lemma crc16_low: "n \<le> 16 \<Longrightarrow> (\<And>k. 16 - n \<le> k \<Longrightarrow> \<not> bit x k) \<Longrightarrow> (crc16_bit ^^ n) x = push_bit n x"
proof (induction n arbitrary: x)
  case (Suc n)
  have top: "\<not> bit x 15" using Suc.prems by simp
  have "(crc16_bit ^^ Suc n) x = (crc16_bit ^^ n) (push_bit 1 x)"
    using top by (simp only: funpow_Suc_right o_apply crc16_bit_def if_False)
  also have "\<dots> = push_bit n (push_bit 1 x)"
  proof (rule Suc.IH)
    fix k assume "16 - n \<le> k"
    then show "\<not> bit (push_bit 1 x) k" using Suc.prems(2) [of "k - 1"] bit_push_bit_iff [of 1 x k]
      by (auto simp del: push_bit_Suc)
  qed (use Suc.prems in simp)
  finally show ?case by (simp only: push_bit_push_bit) simp
qed simp

lemma crc32_high: "(\<And>k. k < n \<Longrightarrow> \<not> bit x k) \<Longrightarrow> (crc32_bit ^^ n) x = drop_bit n x"
proof (induction n arbitrary: x)
  case (Suc n)
  have "\<not> bit x 0" using Suc.prems by simp
  then have "(crc32_bit ^^ Suc n) x = (crc32_bit ^^ n) (drop_bit 1 x)"
    by (simp only: funpow_Suc_right o_apply crc32_bit_def if_False)
  also have "\<dots> = drop_bit n (drop_bit 1 x)"
    using Suc.prems by (intro Suc.IH) (auto simp: bit_drop_bit_eq)
  finally show ?case by (simp only: drop_bit_drop_bit) simp
qed simp

lemma and_FF: "w AND 0xFF = take_bit 8 (w :: 'a::len word)"
  by (simp add: take_bit_eq_mask mask_numeral)

lemma unat_take_8: "unat (take_bit 8 w :: 'a::len word) < 256"
  using take_bit_nat_less_exp [of 8 "unat w"] by (simp add: unsigned_take_bit_eq)

lemma crc16_byte_eq: "crc16_byte b c = (crc16_bit ^^ 8) (c XOR push_bit 8 (ucast b))"
proof -
  define w where "w = take_bit 8 (drop_bit 8 c XOR ucast b)"
  have "c XOR push_bit 8 (ucast b) = take_bit 8 c XOR push_bit 8 w"
    unfolding w_def by (rule bit_word_eqI) (auto simp: bit_simps)
  then have "(crc16_bit ^^ 8) (c XOR push_bit 8 (ucast b))
      = (crc16_bit ^^ 8) (take_bit 8 c) XOR (crc16_bit ^^ 8) (push_bit 8 w)"
    by (simp only: crc16.linear_n)
  moreover have "(crc16_bit ^^ 8) (take_bit 8 c) = push_bit 8 (take_bit 8 c)"
    by (rule crc16_low) (auto simp: bit_simps)
  moreover have "push_bit 8 (take_bit 8 c) = push_bit 8 c"
    by (rule bit_word_eqI) (auto simp: bit_simps)
  moreover have "crc16tab ! unat w = (crc16_bit ^^ 8) (push_bit 8 w)"
    unfolding w_def by (rule crc16tab_nth [OF unat_take_8])
  ultimately show ?thesis unfolding crc16_byte_def and_FF w_def [symmetric] by simp
qed

lemma crc32_byte_eq: "crc32_byte b c = (crc32_bit ^^ 8) (c XOR ucast b)"
proof -
  define w where "w = take_bit 8 c XOR ucast b"
  have w: "w = take_bit 8 w" "c XOR ucast b = push_bit 8 (drop_bit 8 c) XOR w"
    unfolding w_def by (rule bit_word_eqI; auto simp: bit_simps dest: bit_imp_le_length)+
  have "(crc32_bit ^^ 8) (push_bit 8 (drop_bit 8 c)) = drop_bit 8 (push_bit 8 (drop_bit 8 c))"
    by (rule crc32_high) (auto simp: bit_simps)
  moreover have "drop_bit 8 (push_bit 8 (drop_bit 8 c)) = drop_bit 8 c"
    by (rule bit_word_eqI) (auto simp: bit_simps dest: bit_imp_le_length)
  moreover have "Crc32Table ! unat w = (crc32_bit ^^ 8) w"
    by (rule Crc32Table_nth) (subst w(1), rule unat_take_8)
  ultimately show ?thesis
    unfolding crc32_byte_def and_FF w_def [symmetric] w(2) crc32.linear_n by simp
qed

lemma crc32_signle_byte_eq: "crc32_signle_byte b c = crc32_byte b c"
proof -
  have "drop_bit 8 c AND 0x00FFFFFF = take_bit 24 (drop_bit 8 c)"
    by (simp add: take_bit_eq_mask mask_numeral)
  also have "\<dots> = drop_bit 8 c" by (rule bit_word_eqI) (auto simp: bit_simps dest: bit_imp_le_length)
  finally have "drop_bit 8 c AND 0x00FFFFFF = drop_bit 8 c" .
  moreover have "take_bit 8 (c XOR ucast b) = take_bit 8 c XOR ucast b"
    by (rule bit_word_eqI) (auto simp: bit_simps dest: bit_imp_le_length)
  ultimately show ?thesis unfolding crc32_signle_byte_def crc32_byte_def and_FF by simp
qed

lemma crc32_signle_cal_eq: "ln_crc32_signle_cal p = fold crc32_byte p 0xFFFFFFFF XOR 0xFFFFFFFF"
  by (simp add: ln_crc32_signle_cal_def crc32_signle_byte_eq [abs_def])

text \<open>A buffer may be checked segment by segment.\<close>

lemma crc32_update_append: "ln_crc32_update (xs @ ys) ctx = ln_crc32_update ys (ln_crc32_update xs ctx)"
  by (simp add: ln_crc32_update_def)

lemma crc32_final_eq: "fst (ln_crc32_final (ln_crc32_update p (ln_crc32_init ctx))) = ln_crc32_signle_cal p"
  by (simp add: ln_crc32_final_def ln_crc32_update_def ln_crc32_init_def crc32_signle_cal_eq)

section \<open>What the checksums promise\<close>

text \<open>The table-driven \<open>crc16_ccitt\<close> is the division by the CCITT polynomial bit by bit.\<close>

lemma crc16_ccitt_correct: "crc16_ccitt buf = crc16_ref buf"
  by (simp add: crc16_ccitt_def crc16_ref_def crc16_byte_eq [abs_def])

text \<open>The two CRC-32 interfaces, in one call and over a context, agree, and are the division by the
  reflected IEEE polynomial bit by bit.\<close>

lemma crc32_correct:
  "ln_crc32_signle_cal p = crc32_ref p \<and> fst (ln_crc32_final (ln_crc32_update p (ln_crc32_init ctx))) = crc32_ref p"
  by (simp add: crc32_final_eq) (simp add: crc32_signle_cal_eq crc32_ref_def crc32_byte_eq [abs_def])

lemma crc32_fold_eq: "fold crc32_byte bs c = fold (\<lambda>b c. (crc32_bit ^^ 8) (c XOR ucast b)) bs c"
  by (simp add: crc32_byte_eq [abs_def])

text \<open>Up to four bytes enter the register as one word.\<close>

lemma take_bit_le_word: "length bs = n \<Longrightarrow> 8 * n \<le> LENGTH('a) \<Longrightarrow> take_bit (8 * n) (le_word bs) = (le_word bs :: 'a::len word)"
  by (metis le_bytes_le_word le_word_le_bytes_take)

lemma crc32_word:
  "length bs \<le> 4 \<Longrightarrow> fold crc32_byte bs c = (crc32_bit ^^ (8 * length bs)) (c XOR le_word bs)"
proof (induction bs arbitrary: c)
  case (Cons b bs)
  let ?v = "le_word bs :: u32"
  have v: "take_bit 24 ?v = ?v"
  proof -
    have n: "take_bit (8 * length bs) ?v = ?v" using Cons.prems by (intro take_bit_le_word) simp_all
    have "take_bit 24 ?v = take_bit 24 (take_bit (8 * length bs) ?v)" by (simp only: n)
    also have "\<dots> = take_bit (8 * length bs) ?v" using Cons.prems by (simp add: min_def)
    finally show ?thesis by (simp only: n)
  qed
  have "(crc32_bit ^^ 8) (push_bit 8 ?v) = drop_bit 8 (push_bit 8 ?v)"
    by (rule crc32_high) (auto simp: bit_simps)
  also have "\<dots> = take_bit 24 ?v"
    by (rule bit_word_eqI) (auto simp: bit_simps)
  finally have sh: "(crc32_bit ^^ 8) (push_bit 8 ?v) = ?v" using v by simp
  have w: "c XOR le_word (b # bs) = (c XOR ucast b) XOR push_bit 8 ?v"
    by (rule bit_word_eqI) (auto simp: bit_simps dest: bit_imp_le_length)
  have "(crc32_bit ^^ (8 * length (b # bs))) (c XOR le_word (b # bs))
      = (crc32_bit ^^ (8 * length bs)) ((crc32_bit ^^ 8) (c XOR le_word (b # bs)))"
    by (simp only: length_Cons mult_Suc_right add.commute [of 8] funpow_add o_apply)
  also have "(crc32_bit ^^ 8) (c XOR le_word (b # bs)) = crc32_byte b c XOR ?v"
    unfolding w crc32.linear_n [of 8 "c XOR ucast b"] sh crc32_byte_eq ..
  finally show ?case using Cons by simp
qed simp

text \<open>C25: No burst of errors of up to four bytes escapes the CRC-32: two messages that differ only inside
  a window of at most four bytes have different checksums.\<close>

theorem crc32_detects_burst:
  assumes "length bs = length cs" "length bs \<le> 4" "bs \<noteq> cs"
  shows "ln_crc32_signle_cal (xs @ bs @ ys) \<noteq> ln_crc32_signle_cal (xs @ cs @ ys)"
proof
  let ?c = "fold crc32_byte xs 0xFFFFFFFF"
  assume "ln_crc32_signle_cal (xs @ bs @ ys) = ln_crc32_signle_cal (xs @ cs @ ys)"
  then have "fold crc32_byte ys (fold crc32_byte bs ?c) = fold crc32_byte ys (fold crc32_byte cs ?c)"
    by (simp add: crc32_signle_cal_eq)
  then have "fold crc32_byte bs ?c = fold crc32_byte cs ?c"
    unfolding crc32_fold_eq by (rule injD [OF crc32.inj_fold])
  then have "(crc32_bit ^^ (8 * length bs)) (?c XOR le_word bs) = (crc32_bit ^^ (8 * length bs)) (?c XOR le_word cs)"
    using assms(1,2) by (simp add: crc32_word)
  then have "?c XOR le_word bs = ?c XOR le_word cs" by (rule injD [OF crc32.inj_n])
  then have "(le_word bs :: u32) = le_word cs"
    using xor_right_cancel [of "le_word bs :: u32" ?c] by (simp add: xor.commute)
  then have "bs = cs" by (rule le_word_inj [where n = "length bs"]) (use assms(1,2) in simp_all)
  with assms(3) show False ..
qed

theorem crc32_detects_burst_witness:
  "ln_crc32_signle_cal ([1, 2] @ [3, 4] @ [5]) \<noteq> ln_crc32_signle_cal ([1, 2] @ [7, 4] @ [5])"
  using crc32_detects_burst [of "[3, 4]" "[7, 4]" "[1, 2]" "[5]"] by simp

end
