(* ===== verification/Partition.thy ===== *)
theory Partition
  imports Flash_If Crc_Props
begin

unbundle bit_operations_syntax

text \<open>
  The partition table of \<^verbatim>\<open>components/fs/partition_mgr/flash_partition_mgr.c\<close>: sixteen-byte
  entries, each with its checksum, ended by an entry of zeros.  The loops read it entry by entry
  from any flash device; on a memory that holds a table they are a search in the list of its
  entries.
\<close>

section \<open>The model\<close>

definition PARTITION_TAB_BASE :: nat where "PARTITION_TAB_BASE = 1024 * 36"
definition PARTITION_TAB_SIZE :: nat where "PARTITION_TAB_SIZE = 1024 * 4"

definition PARTITION_TYPE_APP :: u32 where "PARTITION_TYPE_APP = 0"
definition PARTITION_TYPE_OTA :: u32 where "PARTITION_TYPE_OTA = 1"

text \<open>The type field is read from flash, so it holds any word; the enumeration names some.\<close>

record partition_info =
  p_type :: u32
  p_start_addr :: u32
  p_size :: u32
  p_crc32 :: u32

definition partition_info_of_bytes :: "byte list \<Rightarrow> partition_info" where
  "partition_info_of_bytes bs = \<lparr>p_type = le_word (take 4 bs), p_start_addr = le_word (take 4 (drop 4 bs)),
     p_size = le_word (take 4 (drop 8 bs)), p_crc32 = le_word (take 4 (drop 12 bs))\<rparr>"

definition bytes_of_partition_info :: "partition_info \<Rightarrow> byte list" where
  "bytes_of_partition_info p = le_bytes 4 (p_type p) @ le_bytes 4 (p_start_addr p) @ le_bytes 4 (p_size p)
     @ le_bytes 4 (p_crc32 p)"

definition partition_info_zero :: "partition_info \<Rightarrow> bool" where
  "partition_info_zero p \<longleftrightarrow> p_type p = 0 \<and> p_start_addr p = 0 \<and> p_size p = 0 \<and> p_crc32 p = 0"

definition partition_info_crc_ok :: "partition_info \<Rightarrow> bool" where
  "partition_info_crc_ok p \<longleftrightarrow> p_crc32 p = ln_crc32_signle_cal (take 12 (bytes_of_partition_info p))"

definition partition_read :: "'d flash_if \<Rightarrow> nat \<Rightarrow> 'd \<Rightarrow> partition_info" where
  "partition_read fi i d = partition_info_of_bytes (fi_spi_read fi (PARTITION_TAB_BASE + i) 16 d)"

text \<open>The loops over the table, with the number of entries left and the offset \<open>i\<close>.\<close>

primrec verify_partitions :: "'d flash_if \<Rightarrow> nat \<Rightarrow> nat \<Rightarrow> 'd \<Rightarrow> bool" where
  "verify_partitions fi 0 i d = False"
| "verify_partitions fi (Suc n) i d =
     (let rd_info = partition_read fi i d
      in if partition_info_zero rd_info then True
         else if \<not> partition_info_crc_ok rd_info then False
         else verify_partitions fi n (i + 16) d)"

definition ln_verify_partition_table :: "'d flash_if \<Rightarrow> 'd \<Rightarrow> bool" where
  "ln_verify_partition_table fi d = verify_partitions fi (PARTITION_TAB_SIZE div 16) 0 d"

primrec fetch_partition :: "'d flash_if \<Rightarrow> u32 \<Rightarrow> nat \<Rightarrow> nat \<Rightarrow> 'd \<Rightarrow> partition_info \<Rightarrow> bool \<times> partition_info" where
  "fetch_partition fi ty 0 i d info = (False, info)"
| "fetch_partition fi ty (Suc n) i d info =
     (let info = partition_read fi i d
      in if p_type info = ty then (partition_info_crc_ok info, info)
         else if partition_info_zero info then (False, info)
         else fetch_partition fi ty n (i + 16) d info)"

text \<open>The result and the structure \<^verbatim>\<open>info\<close> points to; \<open>None\<close> is the null pointer.\<close>

definition ln_fetch_partition_info ::
  "'d flash_if \<Rightarrow> u32 \<Rightarrow> partition_info option \<Rightarrow> 'd \<Rightarrow> bool \<times> partition_info option" where
  "ln_fetch_partition_info fi ty info d =
     (case info of None \<Rightarrow> (False, None)
      | Some p \<Rightarrow> (case fetch_partition fi ty (PARTITION_TAB_SIZE div 16) 0 d p of (r, q) \<Rightarrow> (r, Some q)))"

section \<open>Entries and their bytes\<close>

lemma length_bytes_of_partition_info [simp]: "length (bytes_of_partition_info p) = 16"
  by (simp add: bytes_of_partition_info_def)

lemma partition_info_of_bytes_inv [simp]: "partition_info_of_bytes (bytes_of_partition_info p) = p"
  by (simp add: partition_info_of_bytes_def bytes_of_partition_info_def)

definition partition_end :: partition_info where
  "partition_end = \<lparr>p_type = 0, p_start_addr = 0, p_size = 0, p_crc32 = 0\<rparr>"

lemma partition_info_zero_eq: "partition_info_zero p \<longleftrightarrow> p = partition_end"
  by (cases p) (simp add: partition_info_zero_def partition_end_def)

text \<open>The specification: a memory holds the table \<open>es\<close>, in which an entry is looked up.\<close>

primrec table_find :: "u32 \<Rightarrow> partition_info list \<Rightarrow> partition_info" where
  "table_find ty [] = partition_end"
| "table_find ty (e # es) = (if p_type e = ty then e else table_find ty es)"

definition holds_table :: "mem \<Rightarrow> partition_info list \<Rightarrow> bool" where
  "holds_table m es \<longleftrightarrow> length es < 256 \<and> partition_end \<notin> set es
     \<and> mem_read m PARTITION_TAB_BASE (16 * (length es + 1)) = concat (map bytes_of_partition_info (es @ [partition_end]))"

lemma table_nth_ne_end: "holds_table m es \<Longrightarrow> i < length es \<Longrightarrow> es ! i \<noteq> partition_end"
  unfolding holds_table_def by (metis nth_mem)

lemma concat_16_nth:
  "i < length es \<Longrightarrow> take 16 (drop (16 * i) (concat (map bytes_of_partition_info es))) = bytes_of_partition_info (es ! i)"
proof (induction es arbitrary: i)
  case (Cons e es)
  then show ?case by (cases i) simp_all
qed simp

context flash_dev
begin

lemma partition_read_nth:
  assumes "holds_table (cells d) es" "PARTITION_TAB_BASE + PARTITION_TAB_SIZE \<le> cap" "i \<le> length es"
  shows "partition_read fi (16 * i) d = (es @ [partition_end]) ! i"
proof -
  let ?n = "16 * (length es + 1)"
  have "mem_read (cells d) (PARTITION_TAB_BASE + 16 * i) 16
      = take 16 (drop (16 * i) (mem_read (cells d) PARTITION_TAB_BASE ?n))"
  proof -
    have "min 16 (?n - 16 * i) = 16" using assms(3) by simp
    then show ?thesis by simp
  qed
  also have "\<dots> = bytes_of_partition_info ((es @ [partition_end]) ! i)"
    using assms(1,3) concat_16_nth [of i "es @ [partition_end]"] by (simp only: holds_table_def) simp
  finally show ?thesis
    using assms fi_spi_read [of "PARTITION_TAB_BASE + 16 * i" 16 d]
    by (simp add: partition_read_def holds_table_def PARTITION_TAB_SIZE_def)
qed

lemma verify_from:
  assumes "holds_table (cells d) es" "PARTITION_TAB_BASE + PARTITION_TAB_SIZE \<le> cap" "i \<le> length es"
    "n + i = 256"
  shows "verify_partitions fi n (16 * i) d \<longleftrightarrow> (\<forall>e \<in> set (drop i es). partition_info_crc_ok e)"
  using assms(3,4)
proof (induction n arbitrary: i)
  case 0
  then show ?case using assms(1) by (simp add: holds_table_def)
next
  case (Suc n)
  have rd: "partition_read fi (16 * i) d = (es @ [partition_end]) ! i"
    by (rule partition_read_nth [OF assms(1,2) Suc.prems(1)])
  show ?case
  proof (cases "i = length es")
    case True
    then show ?thesis using rd by (simp add: partition_info_zero_eq)
  next
    case False
    then have i: "i < length es" using Suc.prems by simp
    then have nz: "\<not> partition_info_zero (es ! i)"
      using table_nth_ne_end [OF assms(1)] by (simp add: partition_info_zero_eq)
    have "drop i es = es ! i # drop (Suc i) es" using i by (simp add: Cons_nth_drop_Suc)
    moreover have "verify_partitions fi n (16 * i + 16) d \<longleftrightarrow> (\<forall>e \<in> set (drop (Suc i) es). partition_info_crc_ok e)"
      using Suc.IH [of "Suc i"] Suc.prems i by (simp add: add.commute)
    ultimately show ?thesis using rd nz i by (simp add: nth_append Let_def)
  qed
qed

lemma fetch_from:
  fixes ty :: u32
  assumes "holds_table (cells d) es" "PARTITION_TAB_BASE + PARTITION_TAB_SIZE \<le> cap" "i \<le> length es"
    "n + i = 256"
  defines "e \<equiv> table_find ty (drop i es)"
  shows "fetch_partition fi ty n (16 * i) d p = (p_type e = ty \<and> partition_info_crc_ok e, e)"
  using assms(3,4) unfolding e_def
proof (induction n arbitrary: i p)
  case 0
  then show ?case using assms(1) by (simp add: holds_table_def)
next
  case (Suc n)
  have rd: "partition_read fi (16 * i) d = (es @ [partition_end]) ! i"
    by (rule partition_read_nth [OF assms(1,2) Suc.prems(1)])
  show ?case
  proof (cases "i = length es")
    case True
    then show ?thesis using rd by (simp add: partition_info_zero_eq Let_def)
  next
    case False
    then have i: "i < length es" using Suc.prems by simp
    then have nz: "es ! i \<noteq> partition_end" using table_nth_ne_end [OF assms(1)] by simp
    have "drop i es = es ! i # drop (Suc i) es" using i by (simp add: Cons_nth_drop_Suc)
    then show ?thesis using rd nz i Suc.IH [of "Suc i"] Suc.prems
      by (simp add: add.commute partition_info_zero_eq nth_append Let_def)
  qed
qed

lemma fetch_info:
  fixes ty :: u32
  assumes "holds_table (cells d) es" "PARTITION_TAB_BASE + PARTITION_TAB_SIZE \<le> cap"
  defines "e \<equiv> table_find ty es"
  shows "ln_fetch_partition_info fi ty (Some p) d = (p_type e = ty \<and> partition_info_crc_ok e, Some e)"
  using fetch_from [OF assms(1,2), of 0 256 ty p] by (simp add: ln_fetch_partition_info_def PARTITION_TAB_SIZE_def e_def)

end

text \<open>On a chip that holds a partition table, the lookup finds the first entry of the type, and reports
  success just when there is one and its checksum is right.\<close>

lemma fetch_partition_correct:
  assumes "spi_nor chip cells" "holds_table (cells c) es"
  shows "ln_fetch_partition_info (chip_flash chip) ty (Some p) c =
    (p_type (table_find ty es) = ty \<and> partition_info_crc_ok (table_find ty es), Some (table_find ty es))"
  by (rule flash_dev.fetch_info [OF spi_nor.chip_flash_dev [OF assms(1)] assms(2)])
    (simp add: PARTITION_TAB_BASE_def PARTITION_TAB_SIZE_def FALSH_SIZE_MAX_def)

text \<open>A memory for the witnesses: a table with one entry.\<close>

definition demo_entry :: partition_info where
  "demo_entry = \<lparr>p_type = 1, p_start_addr = 0x107000, p_size = 0xC8000, p_crc32 = 0x12345678\<rparr>"

definition demo_table :: mem where
  "demo_table = (\<lambda>a. if PARTITION_TAB_BASE \<le> a \<and> a < PARTITION_TAB_BASE + 16
     then bytes_of_partition_info demo_entry ! (a - PARTITION_TAB_BASE) else 0)"

lemma demo_table_holds: "holds_table demo_table [demo_entry]"
proof -
  have "bytes_of_partition_info partition_end = replicate 16 0"
    by (simp add: bytes_of_partition_info_def partition_end_def le_bytes_numeral numeral_eq_Suc)
  then show ?thesis
    by (auto simp: holds_table_def demo_table_def mem_read_eq_iff nth_append
        demo_entry_def partition_end_def nth_Cons')
qed

lemma fetch_partition_correct_witness:
  "ln_fetch_partition_info (chip_flash ideal_chip) 1 (Some demo_entry) (demo_table, False)
     = (partition_info_crc_ok demo_entry, Some demo_entry)"
  using fetch_partition_correct [OF ideal.spi_nor_axioms, of "(demo_table, False)" "[demo_entry]" 1 demo_entry] demo_table_holds
  by (simp add: demo_entry_def)

text \<open>The verification of the table accepts it just when every entry before the end has the right
  checksum.\<close>

lemma verify_partition_table_correct:
  assumes "spi_nor chip cells" "holds_table (cells c) es"
  shows "ln_verify_partition_table (chip_flash chip) c \<longleftrightarrow> (\<forall>e \<in> set es. partition_info_crc_ok e)"
  using flash_dev.verify_from [OF spi_nor.chip_flash_dev [OF assms(1)] assms(2), of 0 256]
  by (simp add: ln_verify_partition_table_def PARTITION_TAB_BASE_def PARTITION_TAB_SIZE_def FALSH_SIZE_MAX_def)

lemma verify_partition_table_correct_witness:
  "ln_verify_partition_table (chip_flash ideal_chip) (demo_table, False) \<longleftrightarrow> partition_info_crc_ok demo_entry"
  using verify_partition_table_correct [OF ideal.spi_nor_axioms, of "(demo_table, False)" "[demo_entry]"] demo_table_holds
  by simp

end
