(* ===== verification/Ota_Model.thy ===== *)
theory Ota_Model
  imports Nvds Partition
begin

unbundle bit_operations_syntax

text \<open>
  The firmware upgrade of the boot loader: \<^verbatim>\<open>components/fota/ota_agent/ota_image.c\<close> (headers and
  checksums of images), \<^verbatim>\<open>ota_port.c\<close> (the hardware interface) and \<^verbatim>\<open>ota_agent.c\<close> (the decision
  what to boot and the copying of a downloaded image).  The static variables of the agent are the
  record \<open>ota_st\<close>, with the flash device and the calls of the function \<^verbatim>\<open>jump_to_app\<close> in order;
  a call to it is recorded and the code after it runs, as it would if the function returned.
  The decompressor is an argument: it is given the stream header and the two callbacks.
  Addresses and sizes are 32-bit words and wrap as in C.
\<close>

section \<open>Images\<close>

datatype ota_err = OTA_ERR_NONE | OTA_ERR_INVALID_PARAM | OTA_ERR_NVDS_RW | OTA_ERR_UPG_STATE
  | OTA_ERR_PARTITION_TAB | OTA_ERR_DECOMPRESS | OTA_ERR_IMG_TYPE | OTA_ERR_IMG_HEADER_READ
  | OTA_ERR_IMG_HEADER_VERIFY | OTA_ERR_IMG_ENTITY_VERIFY | OTA_ERR_IMPOSSIBLE_VER | OTA_ERR_NOT_SUPPORT

definition IMAGE_TYPE_ORIGINAL :: u32 where "IMAGE_TYPE_ORIGINAL = 1"
definition IMAGE_TYPE_ORIGINAL_XZ :: u32 where "IMAGE_TYPE_ORIGINAL_XZ = 2"
definition IMAGE_TYPE_DIFF :: u32 where "IMAGE_TYPE_DIFF = 3"
definition IMAGE_TYPE_DIFF_XZ :: u32 where "IMAGE_TYPE_DIFF_XZ = 4"

definition UPG_STATE_DOWNLOAD_OK :: u32 where "UPG_STATE_DOWNLOAD_OK = 1"
definition UPG_STATE_RESTORE_OK :: u32 where "UPG_STATE_RESTORE_OK = 3"

record image_ver =
  ver_major :: u8
  ver_minor :: u8

record image_hdr =
  image_type :: u32
  ver :: image_ver
  ver_diff_depend :: image_ver
  img_size_orig :: u32
  img_size_orig_xz :: u32
  img_size_diff :: u32
  img_size_diff_xz :: u32
  img_crc32_orig :: u32
  img_crc32_orig_xz :: u32
  img_crc32_diff :: u32
  img_crc32_diff_xz :: u32
  res :: "byte list"
  header_crc32 :: u32

definition image_hdr_of_bytes :: "byte list \<Rightarrow> image_hdr" where
  "image_hdr_of_bytes bs =
     \<lparr>image_type = le_word (take 4 bs),
      ver = \<lparr>ver_major = bs ! 4, ver_minor = bs ! 5\<rparr>,
      ver_diff_depend = \<lparr>ver_major = bs ! 6, ver_minor = bs ! 7\<rparr>,
      img_size_orig = le_word (take 4 (drop 8 bs)), img_size_orig_xz = le_word (take 4 (drop 12 bs)),
      img_size_diff = le_word (take 4 (drop 16 bs)), img_size_diff_xz = le_word (take 4 (drop 20 bs)),
      img_crc32_orig = le_word (take 4 (drop 24 bs)), img_crc32_orig_xz = le_word (take 4 (drop 28 bs)),
      img_crc32_diff = le_word (take 4 (drop 32 bs)), img_crc32_diff_xz = le_word (take 4 (drop 36 bs)),
      res = take 212 (drop 40 bs),
      header_crc32 = le_word (take 4 (drop 252 bs))\<rparr>"

definition bytes_of_image_hdr :: "image_hdr \<Rightarrow> byte list" where
  "bytes_of_image_hdr h =
     le_bytes 4 (image_type h) @ [ver_major (ver h), ver_minor (ver h)]
     @ [ver_major (ver_diff_depend h), ver_minor (ver_diff_depend h)]
     @ le_bytes 4 (img_size_orig h) @ le_bytes 4 (img_size_orig_xz h)
     @ le_bytes 4 (img_size_diff h) @ le_bytes 4 (img_size_diff_xz h)
     @ le_bytes 4 (img_crc32_orig h) @ le_bytes 4 (img_crc32_orig_xz h)
     @ le_bytes 4 (img_crc32_diff h) @ le_bytes 4 (img_crc32_diff_xz h)
     @ res h @ le_bytes 4 (header_crc32 h)"

text \<open>The checksum of a header except for itself, as both files compute it.\<close>

definition image_hdr_crc :: "image_hdr \<Rightarrow> u32" where
  "image_hdr_crc h = ln_crc32_signle_cal (take 252 (bytes_of_image_hdr h))"

section \<open>The hardware interface\<close>

record 'd ota_port_ctx =
  drv_write :: "nat \<Rightarrow> byte list \<Rightarrow> 'd \<Rightarrow> 'd"
  drv_read :: "nat \<Rightarrow> nat \<Rightarrow> 'd \<Rightarrow> byte list"
  drv_erase :: "nat \<Rightarrow> nat \<Rightarrow> 'd \<Rightarrow> 'd"
  upg_state_set :: "u32 \<Rightarrow> 'd \<Rightarrow> bool \<times> 'd"
  upg_state_get :: "'d \<Rightarrow> bool \<times> u32"

definition ota_flash_read :: "'d flash_if \<Rightarrow> nat \<Rightarrow> nat \<Rightarrow> 'd \<Rightarrow> byte list" where
  "ota_flash_read fi offset len d = fi_spi_read fi offset len d"

definition ota_flash_write :: "'d flash_if \<Rightarrow> nat \<Rightarrow> byte list \<Rightarrow> 'd \<Rightarrow> 'd" where
  "ota_flash_write fi offset buf d = fi_prog fi offset buf d"

definition ota_flash_erase :: "'d flash_if \<Rightarrow> nat \<Rightarrow> nat \<Rightarrow> 'd \<Rightarrow> 'd" where
  "ota_flash_erase fi offset len d = fi_erase fi offset len d"

definition ota_upg_state_set :: "'d flash_if \<Rightarrow> nat \<Rightarrow> u32 \<Rightarrow> 'd \<Rightarrow> bool \<times> 'd" where
  "ota_upg_state_set fi nvds_base state d =
     (case ln_nvds_set_ota_upg_state fi nvds_base state d of (err, d') \<Rightarrow> (err = NVDS_ERR_OK, d'))"

definition ota_upg_state_get :: "'d flash_if \<Rightarrow> nat \<Rightarrow> 'd \<Rightarrow> bool \<times> u32" where
  "ota_upg_state_get fi nvds_base d =
     (case ln_nvds_get_ota_upg_state fi nvds_base d of (err, state) \<Rightarrow> (err = NVDS_ERR_OK, state))"

definition ota_port_init :: "'d flash_if \<Rightarrow> nat \<Rightarrow> 'd ota_port_ctx" where
  "ota_port_init fi nvds_base =
     \<lparr>drv_write = ota_flash_write fi, drv_read = ota_flash_read fi, drv_erase = ota_flash_erase fi,
      upg_state_set = ota_upg_state_set fi nvds_base, upg_state_get = ota_upg_state_get fi nvds_base\<rparr>"

section \<open>Checking an image\<close>

definition TEMP_BUF_LEN :: nat where "TEMP_BUF_LEN = 128"

text \<open>A result and the header read, which an error leaves as it was.\<close>

definition image_header_read ::
  "'d flash_if \<Rightarrow> 'd ota_port_ctx \<Rightarrow> u32 \<Rightarrow> image_hdr \<Rightarrow> 'd \<Rightarrow> ota_err \<times> image_hdr" where
  "image_header_read fi port ty header d =
     (if ty \<noteq> PARTITION_TYPE_APP \<and> ty \<noteq> PARTITION_TYPE_OTA then (OTA_ERR_INVALID_PARAM, header)
      else case ln_fetch_partition_info fi ty (Some partition_end) d of
        (True, Some info) \<Rightarrow> (OTA_ERR_NONE, image_hdr_of_bytes (drv_read port (unat (p_start_addr info)) 256 d))
      | _ \<Rightarrow> (OTA_ERR_IMG_HEADER_READ, header))"

definition image_header_fast_read :: "'d ota_port_ctx \<Rightarrow> u32 \<Rightarrow> 'd \<Rightarrow> ota_err \<times> image_hdr" where
  "image_header_fast_read port start_addr d =
     (OTA_ERR_NONE, image_hdr_of_bytes (drv_read port (unat start_addr) 256 d))"

definition image_header_verify :: "image_hdr \<Rightarrow> ota_err" where
  "image_header_verify header =
     (if header_crc32 header = image_hdr_crc header then OTA_ERR_NONE else OTA_ERR_IMG_HEADER_VERIFY)"

text \<open>The two switches of \<open>image_body_verify\<close> pick the size and the checksum of the stored form.\<close>

definition image_stored :: "image_hdr \<Rightarrow> (u32 \<times> u32) option" where
  "image_stored h =
     (if image_type h = IMAGE_TYPE_ORIGINAL then Some (img_size_orig h, img_crc32_orig h)
      else if image_type h = IMAGE_TYPE_ORIGINAL_XZ then Some (img_size_orig_xz h, img_crc32_orig_xz h)
      else if image_type h = IMAGE_TYPE_DIFF then Some (img_size_diff h, img_crc32_diff h)
      else if image_type h = IMAGE_TYPE_DIFF_XZ then Some (img_size_diff_xz h, img_crc32_diff_xz h)
      else None)"

primrec image_body_crc :: "'d ota_port_ctx \<Rightarrow> nat \<Rightarrow> u32 \<Rightarrow> 'd \<Rightarrow> crc32_ctx \<Rightarrow> u32 \<times> crc32_ctx" where
  "image_body_crc port 0 offset d ctx = (offset, ctx)"
| "image_body_crc port (Suc n) offset d ctx =
     image_body_crc port n (offset + of_nat TEMP_BUF_LEN) d
       (ln_crc32_update (drv_read port (unat offset) TEMP_BUF_LEN d) ctx)"

definition image_body_verify :: "'d ota_port_ctx \<Rightarrow> u32 \<Rightarrow> image_hdr option \<Rightarrow> 'd \<Rightarrow> ota_err" where
  "image_body_verify port start_addr header d =
     (case header of None \<Rightarrow> OTA_ERR_INVALID_PARAM | Some h \<Rightarrow>
        (case image_stored h of None \<Rightarrow> OTA_ERR_IMG_TYPE | Some (len, crc32) \<Rightarrow>
           let (offset, ctx) = image_body_crc port (unat len div TEMP_BUF_LEN) (start_addr + 256) d
                                 (ln_crc32_init \<lparr>crc = 0\<rparr>);
               ctx = ln_crc32_update (drv_read port (unat offset) (unat len mod TEMP_BUF_LEN) d) ctx;
               crc32_result = fst (ln_crc32_final ctx)
           in if crc32_result = crc32 then OTA_ERR_NONE else OTA_ERR_IMG_ENTITY_VERIFY))"

section \<open>The agent\<close>

definition LEN_4KB :: nat where "LEN_4KB = 1024 * 4"

record 'd ota_st =
  dev :: 'd
  app_header :: image_hdr
  ota_header :: image_hdr
  partition_info_app :: partition_info
  partition_info_ota :: partition_info
  xz_already_read :: u32
  xz_already_write :: u32
  jumps :: "u32 list"

definition jump_to_app :: "u32 \<Rightarrow> 'd ota_st \<Rightarrow> 'd ota_st" where
  "jump_to_app addr st = st\<lparr>jumps := jumps st @ [addr]\<rparr>"

text \<open>The result, and the two structures the arguments point to.\<close>

definition verify_total_img_partition ::
  "'d flash_if \<Rightarrow> 'd ota_port_ctx \<Rightarrow> u32 \<Rightarrow> partition_info \<Rightarrow> image_hdr \<Rightarrow> 'd \<Rightarrow> ota_err \<times> partition_info \<times> image_hdr" where
  "verify_total_img_partition fi port ty info hdr d =
     (case ln_fetch_partition_info fi ty (Some info) d of
        (r, q) \<Rightarrow> let info = (case q of Some i \<Rightarrow> i | None \<Rightarrow> info) in
          if \<not> r then (OTA_ERR_PARTITION_TAB, info, hdr)
          else case image_header_read fi port ty hdr d of (err, hdr) \<Rightarrow>
            if err \<noteq> OTA_ERR_NONE then (err, info, hdr)
            else let err = image_header_verify hdr in
              if err \<noteq> OTA_ERR_NONE then (err, info, hdr)
              else let err = image_body_verify port (p_start_addr info) (Some hdr) d in (err, info, hdr))"

definition verify_app :: "'d flash_if \<Rightarrow> 'd ota_port_ctx \<Rightarrow> 'd ota_st \<Rightarrow> ota_err \<times> 'd ota_st" where
  "verify_app fi port st =
     (case verify_total_img_partition fi port PARTITION_TYPE_APP (partition_info_app st) (app_header st) (dev st) of
        (err, info, hdr) \<Rightarrow> (err, st\<lparr>partition_info_app := info, app_header := hdr\<rparr>))"

definition verify_ota :: "'d flash_if \<Rightarrow> 'd ota_port_ctx \<Rightarrow> 'd ota_st \<Rightarrow> ota_err \<times> 'd ota_st" where
  "verify_ota fi port st =
     (case verify_total_img_partition fi port PARTITION_TYPE_OTA (partition_info_ota st) (ota_header st) (dev st) of
        (err, info, hdr) \<Rightarrow> (err, st\<lparr>partition_info_ota := info, ota_header := hdr\<rparr>))"

primrec orig_image_copy_4k :: "'d ota_port_ctx \<Rightarrow> nat \<Rightarrow> u32 \<Rightarrow> u32 \<Rightarrow> 'd \<Rightarrow> u32 \<times> u32 \<times> 'd" where
  "orig_image_copy_4k port 0 app ota d = (app, ota, d)"
| "orig_image_copy_4k port (Suc n) app ota d =
     orig_image_copy_4k port n (app + of_nat LEN_4KB) (ota + of_nat LEN_4KB)
       (drv_write port (unat app) (drv_read port (unat ota) LEN_4KB d) d)"

definition orig_image_do_restore :: "'d ota_port_ctx \<Rightarrow> u32 \<Rightarrow> u32 \<Rightarrow> u32 \<Rightarrow> 'd \<Rightarrow> ota_err \<times> 'd" where
  "orig_image_do_restore port app_body_offset ota_body_offset len d =
     (let count_4k = unat len div LEN_4KB; remainder_4k = unat len mod LEN_4KB;
          (app, ota, d) = orig_image_copy_4k port count_4k app_body_offset ota_body_offset d
      in (OTA_ERR_NONE,
          if remainder_4k \<noteq> 0 then drv_write port (unat app) (drv_read port (unat ota) remainder_4k d) d else d))"

definition XZ_RET_OK :: int where "XZ_RET_OK = 0"

text \<open>\<^verbatim>\<open>tmp_len\<close> is signed: a length that wrapped below zero is not cut to four kilobytes.\<close>

definition decompress_read_cb :: "'d ota_port_ctx \<Rightarrow> 'd ota_st \<Rightarrow> int \<times> byte list \<times> 'd ota_st" where
  "decompress_read_cb port st =
     (let ota_xz_size = img_size_orig_xz (ota_header st);
          ota_img_body_offset = p_start_addr (partition_info_ota st) + 256;
          tmp_len = ota_xz_size - xz_already_read st;
          tmp_len = (if sint tmp_len > int LEN_4KB then of_nat LEN_4KB else tmp_len);
          buf = drv_read port (unat (ota_img_body_offset + xz_already_read st)) (unat tmp_len) (dev st)
      in (XZ_RET_OK, buf, st\<lparr>xz_already_read := xz_already_read st + tmp_len\<rparr>))"

definition decompress_write_cb :: "'d ota_port_ctx \<Rightarrow> nat \<Rightarrow> byte list \<Rightarrow> 'd ota_st \<Rightarrow> int \<times> 'd ota_st" where
  "decompress_write_cb port offset buf st =
     (let app_img_body_offset = p_start_addr (partition_info_app st) + 256
      in (XZ_RET_OK, st\<lparr>dev := drv_write port (unat (app_img_body_offset + xz_already_write st)) buf (dev st),
            xz_already_write := xz_already_write st + of_nat (length buf)\<rparr>))"

type_synonym 'd xz_decompressor =
  "byte list \<Rightarrow> (nat \<Rightarrow> byte list \<Rightarrow> 'd ota_st \<Rightarrow> int \<times> 'd ota_st) \<Rightarrow> ('d ota_st \<Rightarrow> int \<times> byte list \<times> 'd ota_st)
     \<Rightarrow> 'd ota_st \<Rightarrow> int \<times> 'd ota_st"

definition xz_image_do_restore ::
  "'d xz_decompressor \<Rightarrow> 'd ota_port_ctx \<Rightarrow> u32 \<Rightarrow> u32 \<Rightarrow> 'd ota_st \<Rightarrow> ota_err \<times> 'd ota_st" where
  "xz_image_do_restore xz port ota_body_offset len st =
     (let xz_header = drv_read port (unat ota_body_offset) 13 (dev st);
          st = st\<lparr>xz_already_read := xz_already_read st + 13\<rparr>;
          (ret, st) = xz xz_header (decompress_write_cb port) (decompress_read_cb port) st
      in (if ret \<noteq> XZ_RET_OK then OTA_ERR_DECOMPRESS else OTA_ERR_NONE, st))"

text \<open>What both kinds of image share after the copy: check the new image, note the success, start it.\<close>

definition restore_finish :: "'d flash_if \<Rightarrow> 'd ota_port_ctx \<Rightarrow> 'd ota_st \<Rightarrow> ota_err \<times> 'd ota_st" where
  "restore_finish fi port st =
     (case verify_app fi port st of (err, st) \<Rightarrow>
        if err \<noteq> OTA_ERR_NONE then (err, st)
        else case upg_state_set port UPG_STATE_RESTORE_OK (dev st) of (ok, d) \<Rightarrow>
          if \<not> ok then (OTA_ERR_NVDS_RW, st\<lparr>dev := d\<rparr>)
          else (OTA_ERR_NONE, jump_to_app (p_start_addr (partition_info_app st) + 256) (st\<lparr>dev := d\<rparr>)))"

definition restore_image ::
  "'d xz_decompressor \<Rightarrow> 'd flash_if \<Rightarrow> 'd ota_port_ctx \<Rightarrow> 'd ota_st \<Rightarrow> ota_err \<times> 'd ota_st" where
  "restore_image xz fi port st =
     (let app = p_start_addr (partition_info_app st); ota = p_start_addr (partition_info_ota st); h = ota_header st
      in if image_type h = IMAGE_TYPE_ORIGINAL
         then let d = drv_write port (unat app) (bytes_of_image_hdr h) (dev st);
                  (err, d) = orig_image_do_restore port (app + 256) (ota + 256) (img_size_orig h) d;
                  st = st\<lparr>dev := d\<rparr>
              in if err \<noteq> OTA_ERR_NONE then (err, st) else restore_finish fi port st
         else if image_type h = IMAGE_TYPE_ORIGINAL_XZ
         then let t = h\<lparr>image_type := IMAGE_TYPE_ORIGINAL\<rparr>;
                  t = t\<lparr>header_crc32 := image_hdr_crc t\<rparr>;
                  st = st\<lparr>dev := drv_write port (unat app) (bytes_of_image_hdr t) (dev st)\<rparr>;
                  (err, st) = xz_image_do_restore xz port (ota + 256) (img_size_orig_xz h) st
              in if err \<noteq> OTA_ERR_NONE then (err, st) else restore_finish fi port st
         else if image_type h = IMAGE_TYPE_DIFF \<or> image_type h = IMAGE_TYPE_DIFF_XZ
         then (if ver_major (ver (app_header st)) = ver_major (ver_diff_depend h)
                  \<and> ver_minor (ver (app_header st)) = ver_minor (ver_diff_depend h)
               then (OTA_ERR_NOT_SUPPORT, st) else (OTA_ERR_IMPOSSIBLE_VER, st))
         else (OTA_ERR_IMG_TYPE, st))"

definition image_version :: "image_hdr \<Rightarrow> nat" where
  "image_version h = unat (ver_major (ver h)) * 256 + unat (ver_minor (ver h))"

definition erase_app :: "'d ota_port_ctx \<Rightarrow> 'd ota_st \<Rightarrow> 'd ota_st" where
  "erase_app port st = st\<lparr>dev := drv_erase port (unat (p_start_addr (partition_info_app st)))
     (unat (p_size (partition_info_app st))) (dev st)\<rparr>"

text \<open>The branch in which the application is whole and so is the downloaded image.\<close>

definition compare_and_boot ::
  "'d xz_decompressor \<Rightarrow> 'd flash_if \<Rightarrow> 'd ota_port_ctx \<Rightarrow> 'd ota_st \<Rightarrow> ota_err \<times> 'd ota_st" where
  "compare_and_boot xz fi port st =
     (let entry = p_start_addr (partition_info_app st) + 256
      in if image_version (ota_header st) > image_version (app_header st)
         then restore_image xz fi port (erase_app port st)
         else if image_version (ota_header st) = image_version (app_header st)
         then (if img_size_orig (app_header st) = img_size_orig (ota_header st)
                  \<and> img_crc32_orig (app_header st) = img_crc32_orig (ota_header st)
               then (case upg_state_set port UPG_STATE_RESTORE_OK (dev st) of (ok, d) \<Rightarrow>
                       if \<not> ok then (OTA_ERR_NVDS_RW, st\<lparr>dev := d\<rparr>)
                       else (OTA_ERR_NONE, jump_to_app entry (st\<lparr>dev := d\<rparr>)))
               else (OTA_ERR_NONE, jump_to_app entry st))
         else (OTA_ERR_NONE, jump_to_app entry st))"

definition verify_and_boot :: "'d flash_if \<Rightarrow> 'd ota_port_ctx \<Rightarrow> 'd ota_st \<Rightarrow> ota_err \<times> 'd ota_st" where
  "verify_and_boot fi port st =
     (case verify_app fi port st of (err, st) \<Rightarrow>
        if err \<noteq> OTA_ERR_NONE then (err, st)
        else (OTA_ERR_NONE, jump_to_app (p_start_addr (partition_info_app st) + 256) st))"

definition ota_boot_upgrade_agent ::
  "'d xz_decompressor \<Rightarrow> 'd flash_if \<Rightarrow> 'd ota_port_ctx \<Rightarrow> 'd ota_st \<Rightarrow> ota_err \<times> 'd ota_st" where
  "ota_boot_upgrade_agent xz fi port st =
     (case upg_state_get port (dev st) of (ret, upgrade_state) \<Rightarrow>
        if \<not> ret \<or> upgrade_state = - 1 then verify_and_boot fi port st
        else if UPG_STATE_DOWNLOAD_OK \<noteq> upgrade_state then verify_and_boot fi port st
        else case verify_app fi port st of (err, st) \<Rightarrow>
          if err \<noteq> OTA_ERR_NONE
          then (case verify_ota fi port st of (err, st) \<Rightarrow>
                  if err \<noteq> OTA_ERR_NONE then (err, st)
                  else restore_image xz fi port (erase_app port st))
          else (case verify_ota fi port st of (err, st) \<Rightarrow>
                  if err \<noteq> OTA_ERR_NONE
                  then (err, jump_to_app (p_start_addr (partition_info_app st) + 256) st)
                  else compare_and_boot xz fi port st))"

end
