(* ===== verification/Ota.thy ===== *)
theory Ota
  imports Ota_Model
begin

unbundle bit_operations_syntax

text \<open>
  What the boot loader promises: it only starts an application it has just verified; checking an
  image in segments is checking its checksum; a downloaded image that verifies replaces the
  application byte for byte; and an update cut by a power loss at any point is finished, or found
  finished, by the next boot.
\<close>

section \<open>Only verified applications are started\<close>

definition verified_at :: "'d flash_if \<Rightarrow> 'd ota_port_ctx \<Rightarrow> 'd \<Rightarrow> u32 \<Rightarrow> bool" where
  "verified_at fi port d a \<longleftrightarrow> (\<exists>i0 h0 info hdr.
     verify_total_img_partition fi port PARTITION_TYPE_APP i0 h0 d = (OTA_ERR_NONE, info, hdr) \<and> a = p_start_addr info + 256)"

text \<open>The state a step leaves behind has no new jump, or one to an application that was verified on
  the device as it is or as it was before the success was noted.\<close>

definition jump_safe :: "'d flash_if \<Rightarrow> 'd ota_port_ctx \<Rightarrow> u32 list \<Rightarrow> 'd ota_st \<Rightarrow> bool" where
  "jump_safe fi port js st \<longleftrightarrow> jumps st = js \<or> (\<exists>a d. jumps st = js @ [a] \<and> verified_at fi port d a
     \<and> (dev st = d \<or> dev st = snd (upg_state_set port UPG_STATE_RESTORE_OK d)))"

lemma verify_app_keeps:
  assumes "verify_app fi port st = (err, st')"
  shows "dev st' = dev st" "jumps st' = jumps st"
    and "err = OTA_ERR_NONE \<Longrightarrow> verified_at fi port (dev st) (p_start_addr (partition_info_app st') + 256)"
proof -
  obtain info hdr where v: "verify_total_img_partition fi port PARTITION_TYPE_APP (partition_info_app st) (app_header st) (dev st)
      = (err, info, hdr)" and st': "st' = st\<lparr>partition_info_app := info, app_header := hdr\<rparr>"
    using assms by (auto simp: verify_app_def split: prod.splits)
  then show "dev st' = dev st" "jumps st' = jumps st" by simp_all
  show "verified_at fi port (dev st) (p_start_addr (partition_info_app st') + 256)" if "err = OTA_ERR_NONE"
    unfolding verified_at_def using v st' that
    by (intro exI [of _ "partition_info_app st"] exI [of _ "app_header st"] exI [of _ info] exI [of _ hdr]) simp
qed

lemma verify_ota_keeps:
  assumes "verify_ota fi port st = (err, st')"
  shows "dev st' = dev st" "jumps st' = jumps st" "partition_info_app st' = partition_info_app st"
    "app_header st' = app_header st"
  using assms by (auto simp: verify_ota_def split: prod.splits)

lemma restore_finish_safe: "jump_safe fi port (jumps st) (snd (restore_finish fi port st))"
proof -
  obtain err st1 where v: "verify_app fi port st = (err, st1)" by (cases "verify_app fi port st")
  obtain ok d where u: "upg_state_set port UPG_STATE_RESTORE_OK (dev st1) = (ok, d)"
    by (cases "upg_state_set port UPG_STATE_RESTORE_OK (dev st1)")
  show ?thesis
    using verify_app_keeps [OF v] v u by (auto simp: restore_finish_def jump_safe_def jump_to_app_def)
qed

lemma image_type_ne: "IMAGE_TYPE_ORIGINAL_XZ \<noteq> IMAGE_TYPE_ORIGINAL" "IMAGE_TYPE_ORIGINAL \<noteq> IMAGE_TYPE_ORIGINAL_XZ"
  by (simp_all add: IMAGE_TYPE_ORIGINAL_def IMAGE_TYPE_ORIGINAL_XZ_def)

lemma then_finish_safe:
  "jumps s = js \<Longrightarrow> jump_safe fi port js (snd (if err \<noteq> OTA_ERR_NONE then (err, s) else restore_finish fi port s))"
  using restore_finish_safe [of fi port s] by (auto simp: jump_safe_def)

lemma restore_image_safe:
  assumes "\<And>h w r s. jumps (snd (xz h w r s)) = jumps s"
  shows "jump_safe fi port (jumps st) (snd (restore_image xz fi port st))"
proof -
  let ?h = "ota_header st" and ?app = "p_start_addr (partition_info_app st)" and ?ota = "p_start_addr (partition_info_ota st)"
  consider "image_type ?h = IMAGE_TYPE_ORIGINAL" | "image_type ?h = IMAGE_TYPE_ORIGINAL_XZ"
    | "image_type ?h \<noteq> IMAGE_TYPE_ORIGINAL" "image_type ?h \<noteq> IMAGE_TYPE_ORIGINAL_XZ" by blast
  then show ?thesis
  proof cases
    case 1
    obtain err d where r: "orig_image_do_restore port (?app + 256) (?ota + 256) (img_size_orig ?h)
        (drv_write port (unat ?app) (bytes_of_image_hdr ?h) (dev st)) = (err, d)"
      by fastforce
    then show ?thesis using 1 then_finish_safe [of "st\<lparr>dev := d\<rparr>" "jumps st" fi port err] by (simp add: restore_image_def Let_def)
  next
    case 2
    define t where "t = (?h\<lparr>image_type := IMAGE_TYPE_ORIGINAL\<rparr>)
      \<lparr>header_crc32 := image_hdr_crc (?h\<lparr>image_type := IMAGE_TYPE_ORIGINAL\<rparr>)\<rparr>"
    define s1 where "s1 = st\<lparr>dev := drv_write port (unat ?app) (bytes_of_image_hdr t) (dev st)\<rparr>"
    obtain err s2 where x: "xz_image_do_restore xz port (?ota + 256) (img_size_orig_xz ?h) s1 = (err, s2)"
      by fastforce
    have "jumps s2 = jumps (snd (xz_image_do_restore xz port (?ota + 256) (img_size_orig_xz ?h) s1))" using x by simp
    also have "\<dots> = jumps s1" by (simp add: xz_image_do_restore_def Let_def case_prod_unfold assms)
    finally have "jumps s2 = jumps st" by (simp add: s1_def)
    moreover have "restore_image xz fi port st = (if err \<noteq> OTA_ERR_NONE then (err, s2) else restore_finish fi port s2)"
      using 2 x image_type_ne by (simp add: restore_image_def Let_def t_def s1_def)
    ultimately show ?thesis using then_finish_safe [of s2 "jumps st" fi port err] by simp
  next
    case 3
    then show ?thesis by (simp add: restore_image_def Let_def jump_safe_def)
  qed
qed

lemma verify_and_boot_safe: "jump_safe fi port (jumps st) (snd (verify_and_boot fi port st))"
proof -
  obtain err st1 where v: "verify_app fi port st = (err, st1)" by fastforce
  show ?thesis using verify_app_keeps [OF v] v by (auto simp: verify_and_boot_def jump_safe_def jump_to_app_def)
qed

lemma compare_and_boot_safe:
  assumes "\<And>h w r s. jumps (snd (xz h w r s)) = jumps s"
    and "verified_at fi port (dev st) (p_start_addr (partition_info_app st) + 256)"
  shows "jump_safe fi port (jumps st) (snd (compare_and_boot xz fi port st))"
proof -
  obtain ok d where u: "upg_state_set port UPG_STATE_RESTORE_OK (dev st) = (ok, d)" by fastforce
  have "jumps (erase_app port st) = jumps st" by (simp add: erase_app_def)
  then show ?thesis using restore_image_safe [OF assms(1), of fi port "erase_app port st"] assms(2) u
    by (auto simp: compare_and_boot_def Let_def jump_safe_def jump_to_app_def)
qed



section \<open>Headers and checksums\<close>

lemma length_bytes_of_image_hdr: "length (res h) = 212 \<Longrightarrow> length (bytes_of_image_hdr h) = 256"
  by (simp add: bytes_of_image_hdr_def)

lemma image_hdr_of_bytes_inv:
  "length (res h) = 212 \<Longrightarrow> image_hdr_of_bytes (bytes_of_image_hdr h) = h"
  by (simp add: image_hdr_of_bytes_def bytes_of_image_hdr_def nth_append)

lemma take_drop_join: "take n (drop k bs) @ drop (n + k) bs = drop k bs"
  by (metis append_take_drop_id drop_drop)

lemma le_bytes_take [simp]: "k + 4 \<le> length bs \<Longrightarrow> le_bytes 4 (le_word (take 4 (drop k bs)) :: u32) = take 4 (drop k bs)"
  by (intro le_bytes_le_word) simp_all

lemma bytes_of_image_hdr_inv:
  assumes "length bs = 256"
  shows "bytes_of_image_hdr (image_hdr_of_bytes bs) = bs"
proof -
  have four: "take 4 (drop 4 bs) = [bs ! 4, bs ! 5] @ [bs ! 6, bs ! 7]"
    by (rule nth_equalityI) (use assms in \<open>auto simp: less_Suc_eq numeral_eq_Suc nth_Cons'\<close>)
  have "le_bytes 4 (le_word (take 4 bs) :: u32) = take 4 bs" using le_bytes_take [of 0 bs] assms by simp
  then have "bytes_of_image_hdr (image_hdr_of_bytes bs)
    = take 4 (drop 0 bs) @ take 4 (drop 4 bs) @ take 4 (drop 8 bs) @ take 4 (drop 12 bs) @ take 4 (drop 16 bs)
      @ take 4 (drop 20 bs) @ take 4 (drop 24 bs) @ take 4 (drop 28 bs) @ take 4 (drop 32 bs) @ take 4 (drop 36 bs)
      @ take 212 (drop 40 bs) @ take 4 (drop 252 bs)"
    using assms unfolding four by (simp add: bytes_of_image_hdr_def image_hdr_of_bytes_def)
  also have "\<dots> = bs"
    using take_drop_join [of 4 0 bs] take_drop_join [of 4 4 bs] take_drop_join [of 4 8 bs] take_drop_join [of 4 12 bs] take_drop_join [of 4 16 bs] take_drop_join [of 4 20 bs] take_drop_join [of 4 24 bs] take_drop_join [of 4 28 bs] take_drop_join [of 4 32 bs] take_drop_join [of 4 36 bs]
      take_drop_join [of 212 40 bs] assms by simp
  finally show ?thesis .
qed

lemma length_res [simp]: "length bs = 256 \<Longrightarrow> length (res (image_hdr_of_bytes bs)) = 212"
  by (simp add: image_hdr_of_bytes_def)

text \<open>The specification: the memory holds an image that checks at an address.\<close>

definition image_ok :: "mem \<Rightarrow> nat \<Rightarrow> bool" where
  "image_ok m a \<longleftrightarrow> (let h = image_hdr_of_bytes (mem_read m a 256) in
     header_crc32 h = image_hdr_crc h \<and>
     (case image_stored h of None \<Rightarrow> False
      | Some (n, c) \<Rightarrow> ln_crc32_signle_cal (mem_read m (a + 256) (unat n)) = c))"

definition image_hdr_at :: "mem \<Rightarrow> nat \<Rightarrow> image_hdr" where
  "image_hdr_at m a = image_hdr_of_bytes (mem_read m a 256)"

text \<open>The length of the stored form of an image.\<close>

definition image_len :: "image_hdr \<Rightarrow> nat" where
  "image_len h = (case image_stored h of None \<Rightarrow> 0 | Some (n, c) \<Rightarrow> unat n)"

lemma unat_add_small: "unat a + k < 2 ^ 32 \<Longrightarrow> unat ((a :: u32) + of_nat k) = unat a + k"
  by (simp add: unat_word_ariths unat_of_nat)

lemma crc32_final_append:
  "fst (ln_crc32_final (ln_crc32_update ys (ln_crc32_update xs (ln_crc32_init ctx)))) = ln_crc32_signle_cal (xs @ ys)"
  by (simp only: crc32_update_append [symmetric] crc32_final_eq)

context flash_dev
begin

lemma body_crc_mem:
  assumes "cap < 2 ^ 32" "unat off + 128 * n \<le> cap"
  shows "image_body_crc (ota_port_init fi nb) n off d ctx
    = (off + of_nat (128 * n), ln_crc32_update (mem_read (cells d) (unat off) (128 * n)) ctx)"
  using assms(2)
proof (induction n arbitrary: off ctx)
  case 0
  then show ?case by (simp add: ln_crc32_update_def)
next
  case (Suc n)
  have u: "unat (off + 128) = unat off + 128" using unat_add_small [of off 128] Suc.prems assms(1) by simp
  have "mem_read (cells d) (unat off) (128 * Suc n)
      = mem_read (cells d) (unat off) 128 @ mem_read (cells d) (unat (off + 128)) (128 * n)"
    unfolding u by (simp add: mem_read_add [symmetric])
  then show ?case
    using Suc.IH [of "off + 128"] Suc.prems u fi_spi_read [of "unat off" 128 d]
    by (simp add: ota_port_init_def ota_flash_read_def TEMP_BUF_LEN_def crc32_update_append add.assoc)
qed

lemma body_verify_mem:
  assumes "cap < 2 ^ 32" "unat a + 256 + image_len h \<le> cap"
  shows "image_body_verify (ota_port_init fi nb) a (Some h) d =
    (case image_stored h of None \<Rightarrow> OTA_ERR_IMG_TYPE
     | Some (n, c) \<Rightarrow> if ln_crc32_signle_cal (mem_read (cells d) (unat a + 256) (unat n)) = c
         then OTA_ERR_NONE else OTA_ERR_IMG_ENTITY_VERIFY)"
proof (cases "image_stored h")
  case None
  then show ?thesis by (simp add: image_body_verify_def)
next
  case (Some p)
  obtain n c where p: "p = (n, c)" by (cases p)
  let ?q = "128 * (unat n div 128)" and ?r = "unat n mod 128"
  have len: "unat a + 256 + unat n \<le> cap" using assms(2) Some p by (simp add: image_len_def)
  have n: "unat n = ?q + ?r" by simp
  have a: "unat (a + 256) = unat a + 256" using unat_add_small [of a 256] len assms(1) by simp
  have q: "unat a + 256 + ?q + ?r \<le> cap" using len n by linarith
  then have o: "unat (a + 256 + of_nat ?q) = unat a + 256 + ?q"
    using unat_add_small [of "a + 256" ?q] assms(1) a by simp
  have "image_body_crc (ota_port_init fi nb) (unat n div 128) (a + 256) d (ln_crc32_init \<lparr>crc = 0\<rparr>)
      = (a + 256 + of_nat ?q, ln_crc32_update (mem_read (cells d) (unat a + 256) ?q) (ln_crc32_init \<lparr>crc = 0\<rparr>))"
    using body_crc_mem [OF assms(1), of "a + 256" "unat n div 128"] q a by simp
  moreover have "fi_spi_read fi (unat a + 256 + ?q) ?r d = mem_read (cells d) (unat a + 256 + ?q) ?r"
    using q by (intro fi_spi_read)
  moreover have "mem_read (cells d) (unat a + 256) (unat n)
      = mem_read (cells d) (unat a + 256) ?q @ mem_read (cells d) (unat a + 256 + ?q) ?r"
    by (subst n) (rule mem_read_add)
  ultimately show ?thesis using Some p o
    by (simp add: image_body_verify_def TEMP_BUF_LEN_def ota_port_init_def ota_flash_read_def
        crc32_final_append)
qed

lemma port_simps:
  "drv_read (ota_port_init fi nb) x n d = fi_spi_read fi x n d" "drv_write (ota_port_init fi nb) x bs d = fi_prog fi x bs d"
  "drv_erase (ota_port_init fi nb) x n d = fi_erase fi x n d"
  "upg_state_set (ota_port_init fi nb) s d = ota_upg_state_set fi nb s d"
  "upg_state_get (ota_port_init fi nb) d = ota_upg_state_get fi nb d"
  by (simp_all add: ota_port_init_def ota_flash_read_def ota_flash_write_def ota_flash_erase_def)

lemma verify_total_mem:
  assumes tab: "holds_table (cells d) es" "PARTITION_TAB_BASE + PARTITION_TAB_SIZE \<le> cap" "cap < 2 ^ 32"
    and e: "e = table_find ty es" "p_type e = ty" "partition_info_crc_ok e"
    and ty: "ty = PARTITION_TYPE_APP \<or> ty = PARTITION_TYPE_OTA"
    and rng: "unat (p_start_addr e) + 256 + image_len (image_hdr_at (cells d) (unat (p_start_addr e))) \<le> cap"
  shows "\<exists>err. verify_total_img_partition fi (ota_port_init fi nb) ty i0 h0 d
      = (err, e, image_hdr_at (cells d) (unat (p_start_addr e)))
    \<and> (err = OTA_ERR_NONE \<longleftrightarrow> image_ok (cells d) (unat (p_start_addr e)))"
proof -
  let ?a = "unat (p_start_addr e)" and ?h = "image_hdr_at (cells d) (unat (p_start_addr e))"
  have f: "ln_fetch_partition_info fi ty (Some p) d = (True, Some e)" for p
    using fetch_info [OF tab(1,2), of ty p] e by simp
  have "fi_spi_read fi ?a 256 d = mem_read (cells d) ?a 256" using rng by (intro fi_spi_read) simp
  then have r: "image_header_read fi (ota_port_init fi nb) ty h0 d = (OTA_ERR_NONE, ?h)"
    using ty f by (auto simp: image_header_read_def port_simps image_hdr_at_def)
  note b = body_verify_mem [OF tab(3) rng, of nb d]
  show ?thesis
    using f r b by (auto simp: verify_total_img_partition_def image_header_verify_def image_ok_def image_hdr_at_def
        Let_def split: option.splits)
qed

end

section \<open>Replacing the application\<close>

lemma mem_read_apart:
  "b + n \<le> a \<or> a + length bs \<le> b \<Longrightarrow> mem_read (nor_prog m a bs) b n = mem_read m b n"
  by (rule nor_prog_outside)

context flash_dev
begin

lemma copy_4k_mem:
  assumes "cap < 2 ^ 32" "unat app + 4096 * n \<le> cap" "unat ota + 4096 * n \<le> cap"
    and "unat app + 4096 * n \<le> unat ota \<or> unat ota + 4096 * n \<le> unat app"
  shows "\<exists>d'. orig_image_copy_4k (ota_port_init fi nb) n app ota d = (app + of_nat (4096 * n), ota + of_nat (4096 * n), d')
    \<and> cells d' = nor_prog (cells d) (unat app) (mem_read (cells d) (unat ota) (4096 * n))"
  using assms(2-4)
proof (induction n arbitrary: app ota d)
  case 0
  then show ?case by simp
next
  case (Suc n)
  let ?m = "cells d" and ?a = "unat app" and ?o = "unat ota"
  define d1 where "d1 = fi_prog fi ?a (fi_spi_read fi ?o 4096 d) d"
  have u: "unat (app + 4096) = ?a + 4096" "unat (ota + 4096) = ?o + 4096"
    using unat_add_small [of app 4096] unat_add_small [of ota 4096] Suc.prems assms(1) by simp_all
  have m1: "cells d1 = nor_prog ?m ?a (mem_read ?m ?o 4096)"
    using Suc.prems fi_spi_read [of ?o 4096 d] fi_prog [of ?a "mem_read ?m ?o 4096" d] by (simp add: d1_def)
  obtain d' where d': "orig_image_copy_4k (ota_port_init fi nb) n (app + 4096) (ota + 4096) d1
      = (app + 4096 + of_nat (4096 * n), ota + 4096 + of_nat (4096 * n), d')"
    "cells d' = nor_prog (cells d1) (?a + 4096) (mem_read (cells d1) (?o + 4096) (4096 * n))"
    using Suc.IH [of "app + 4096" "ota + 4096" d1] Suc.prems u by auto
  have "mem_read (cells d1) (?o + 4096) (4096 * n) = mem_read ?m (?o + 4096) (4096 * n)"
    unfolding m1 using Suc.prems(3) by (intro nor_prog_outside) auto
  then have "cells d' = nor_prog ?m ?a (mem_read ?m ?o (4096 + 4096 * n))"
    using d'(2) m1 by (simp add: mem_read_add nor_prog_append)
  then show ?case using d'(1) by (simp add: port_simps d1_def [symmetric] LEN_4KB_def add.assoc)
qed

lemma do_restore_mem:
  assumes "cap < 2 ^ 32" "unat app + unat n \<le> cap" "unat ota + unat n \<le> cap"
    and "unat app + unat n \<le> unat ota \<or> unat ota + unat n \<le> unat app"
  shows "\<exists>d'. orig_image_do_restore (ota_port_init fi nb) app ota n d = (OTA_ERR_NONE, d')
    \<and> cells d' = nor_prog (cells d) (unat app) (mem_read (cells d) (unat ota) (unat n))"
proof -
  let ?m = "cells d" and ?a = "unat app" and ?o = "unat ota" and ?q = "4096 * (unat n div 4096)" and ?r = "unat n mod 4096"
  have n: "unat n = ?q + ?r" by simp
  then have le: "?a + ?q + ?r \<le> cap" "?o + ?q + ?r \<le> cap" using assms(2,3) by linarith+
  have sep: "?a + ?q + ?r \<le> ?o \<or> ?o + ?q + ?r \<le> ?a" using assms(4) n by linarith
  have q: "?a + ?q \<le> cap" "?o + ?q \<le> cap" "?a + ?q \<le> ?o \<or> ?o + ?q \<le> ?a" using le sep by linarith+
  obtain d1 where d1: "orig_image_copy_4k (ota_port_init fi nb) (unat n div 4096) app ota d
      = (app + of_nat ?q, ota + of_nat ?q, d1)" "cells d1 = nor_prog ?m ?a (mem_read ?m ?o ?q)"
    using copy_4k_mem [OF assms(1), of app "unat n div 4096" ota nb d] q by blast
  have u: "unat (app + of_nat ?q) = ?a + ?q" "unat (ota + of_nat ?q) = ?o + ?q"
    using unat_add_small [of app ?q] unat_add_small [of ota ?q] le assms(1) by linarith+
  define d2 where "d2 = fi_prog fi (?a + ?q) (fi_spi_read fi (?o + ?q) ?r d1) d1"
  have "mem_read (cells d1) (?o + ?q) ?r = mem_read ?m (?o + ?q) ?r"
    unfolding d1(2) using sep by (intro nor_prog_outside) auto
  then have rd: "fi_spi_read fi (?o + ?q) ?r d1 = mem_read ?m (?o + ?q) ?r" using fi_spi_read [of "?o + ?q" ?r d1] le by simp
  then have "cells d2 = nor_prog (nor_prog ?m ?a (mem_read ?m ?o ?q)) (?a + ?q) (mem_read ?m (?o + ?q) ?r)"
    unfolding d2_def rd using le by (subst fi_prog) (simp_all add: d1(2))
  also have "\<dots> = nor_prog ?m ?a (mem_read ?m ?o ?q @ mem_read ?m (?o + ?q) ?r)" by (simp add: nor_prog_append)
  also have "mem_read ?m ?o ?q @ mem_read ?m (?o + ?q) ?r = mem_read ?m ?o (unat n)"
    by (subst (3) n) (rule mem_read_add [symmetric])
  finally have m2: "cells d2 = nor_prog ?m ?a (mem_read ?m ?o (unat n))" .
  have "orig_image_do_restore (ota_port_init fi nb) app ota n d = (OTA_ERR_NONE, if ?r \<noteq> 0 then d2 else d1)"
    using d1(1) u by (simp add: orig_image_do_restore_def LEN_4KB_def port_simps d2_def)
  moreover have "cells (if ?r \<noteq> 0 then d2 else d1) = nor_prog ?m ?a (mem_read ?m ?o (unat n))"
  proof (cases "?r = 0")
    case True
    then have "unat n = ?q" using n by linarith
    then show ?thesis using True d1(2) by simp
  qed (simp add: m2)
  ultimately show ?thesis by blast
qed

end

section \<open>The upgrade\<close>

definition apart :: "nat \<Rightarrow> nat \<Rightarrow> nat \<Rightarrow> nat \<Rightarrow> bool" where
  "apart a n b k \<longleftrightarrow> a + n \<le> b \<or> b + k \<le> a"

abbreviation app_part :: "partition_info list \<Rightarrow> partition_info" where
  "app_part es \<equiv> table_find PARTITION_TYPE_APP es"

abbreviation ota_part :: "partition_info list \<Rightarrow> partition_info" where
  "ota_part es \<equiv> table_find PARTITION_TYPE_OTA es"

abbreviation app_start :: "partition_info list \<Rightarrow> nat" where
  "app_start es \<equiv> unat (p_start_addr (app_part es))"

abbreviation app_size :: "partition_info list \<Rightarrow> nat" where
  "app_size es \<equiv> unat (p_size (app_part es))"

abbreviation ota_start :: "partition_info list \<Rightarrow> nat" where
  "ota_start es \<equiv> unat (p_start_addr (ota_part es))"

abbreviation ota_size :: "partition_info list \<Rightarrow> nat" where
  "ota_size es \<equiv> unat (p_size (ota_part es))"

text \<open>A table with both partitions, whose areas fit the flash and do not overlap.\<close>

definition ota_layout :: "nat \<Rightarrow> nat \<Rightarrow> partition_info list \<Rightarrow> bool" where
  "ota_layout cap nb es \<longleftrightarrow>
     p_type (app_part es) = PARTITION_TYPE_APP \<and> partition_info_crc_ok (app_part es)
     \<and> p_type (ota_part es) = PARTITION_TYPE_OTA \<and> partition_info_crc_ok (ota_part es)
     \<and> cap < 2 ^ 32 \<and> nb mod 4096 = 0 \<and> app_start es mod 4096 = 0 \<and> app_size es mod 4096 = 0
     \<and> app_start es + app_size es \<le> cap \<and> ota_start es + ota_size es \<le> cap \<and> nb + 12288 \<le> cap
     \<and> PARTITION_TAB_BASE + PARTITION_TAB_SIZE \<le> cap
     \<and> apart (app_start es) (app_size es) (ota_start es) (ota_size es) \<and> apart (app_start es) (app_size es) nb 12288
     \<and> apart (app_start es) (app_size es) PARTITION_TAB_BASE PARTITION_TAB_SIZE
     \<and> apart (ota_start es) (ota_size es) nb 12288 \<and> apart PARTITION_TAB_BASE PARTITION_TAB_SIZE nb 12288"

text \<open>The OTA partition holds an uncompressed image that checks and fits.\<close>

definition ota_ready :: "mem \<Rightarrow> partition_info list \<Rightarrow> bool" where
  "ota_ready m es \<longleftrightarrow> image_ok m (ota_start es) \<and> image_type (image_hdr_at m (ota_start es)) = IMAGE_TYPE_ORIGINAL
     \<and> 256 + unat (img_size_orig (image_hdr_at m (ota_start es))) \<le> ota_size es
     \<and> 256 + unat (img_size_orig (image_hdr_at m (ota_start es))) \<le> app_size es"

definition ota_image :: "mem \<Rightarrow> partition_info list \<Rightarrow> byte list" where
  "ota_image m es = mem_read m (ota_start es) (256 + unat (img_size_orig (image_hdr_at m (ota_start es))))"

lemma image_len_original: "image_type h = IMAGE_TYPE_ORIGINAL \<Longrightarrow> image_len h = unat (img_size_orig h)"
  by (simp add: image_len_def image_stored_def)

text \<open>An image is its bytes.\<close>

lemma image_hdr_at_cong:
  assumes "mem_read m a (256 + k) = mem_read m' a' (256 + k)"
  shows "image_hdr_at m a = image_hdr_at m' a'"
  using arg_cong [OF assms, of "take 256"] by (simp add: image_hdr_at_def)

lemma image_ok_cong:
  assumes "mem_read m a (256 + image_len (image_hdr_at m a)) = mem_read m' a' (256 + image_len (image_hdr_at m a))"
  shows "image_ok m a \<longleftrightarrow> image_ok m' a'"
proof -
  have "image_hdr_at m a = image_hdr_at m' a'" by (rule image_hdr_at_cong [OF assms])
  moreover have "mem_read m (a + 256) (image_len (image_hdr_at m a)) = mem_read m' (a' + 256) (image_len (image_hdr_at m a))"
    using arg_cong [OF assms, of "drop 256"] by simp
  ultimately show ?thesis
    by (auto simp: image_ok_def image_hdr_at_def [symmetric] Let_def image_len_def split: option.splits)
qed

lemma holds_table_cong:
  assumes "mem_read m' PARTITION_TAB_BASE PARTITION_TAB_SIZE = mem_read m PARTITION_TAB_BASE PARTITION_TAB_SIZE"
  shows "holds_table m' es \<longleftrightarrow> holds_table m es"
proof -
  have "mem_read m' PARTITION_TAB_BASE (16 * (length es + 1)) = mem_read m PARTITION_TAB_BASE (16 * (length es + 1))"
    if "length es < 256"
    using arg_cong [OF assms, of "take (16 * (length es + 1))"] that
    by (simp add: PARTITION_TAB_SIZE_def min_def)
  then show ?thesis by (auto simp: holds_table_def)
qed

lemma upg_state_ne: "UPG_STATE_DOWNLOAD_OK \<noteq> UPG_STATE_RESTORE_OK" "UPG_STATE_DOWNLOAD_OK \<noteq> - 1"
  by (simp_all add: UPG_STATE_DOWNLOAD_OK_def UPG_STATE_RESTORE_OK_def)

context flash_dev
begin

lemma verify_app_mem:
  assumes "ota_layout cap nb es" "holds_table (cells (dev st)) es"
    and "app_start es + 256 + image_len (image_hdr_at (cells (dev st)) (app_start es)) \<le> cap"
  shows "\<exists>err st'. verify_app fi (ota_port_init fi nb) st = (err, st')
    \<and> (err = OTA_ERR_NONE \<longleftrightarrow> image_ok (cells (dev st)) (app_start es))
    \<and> st' = st\<lparr>partition_info_app := app_part es, app_header := image_hdr_at (cells (dev st)) (app_start es)\<rparr>"
  using verify_total_mem [OF assms(2) _ _ refl _ _ _ assms(3), of nb "partition_info_app st" "app_header st"] assms(1)
  by (auto simp: verify_app_def ota_layout_def)

lemma upg_state_set_mem:
  assumes "nb mod 4096 = 0" "nb + 12288 \<le> cap"
  shows "\<exists>d'. ota_upg_state_set fi nb s d = (True, d') \<and> ota_upg_state_get fi nb d' = (True, s)
    \<and> (\<forall>x. x < nb \<or> nb + 12288 \<le> x \<longrightarrow> cells d' x = cells d x)"
  using set_get_item [of nb 20 4 s d] set_item_outside [of nb 20 4 _ s d] assms take_bit_length_eq [of s]
  by (cases "nvds_set_item fi nb 20 4 s d")
    (auto simp: ota_upg_state_set_def ota_upg_state_get_def ln_nvds_set_ota_upg_state_def
      ln_nvds_get_ota_upg_state_def nvds_item_defs)

lemma restore_finish_mem:
  assumes lay: "ota_layout cap nb es" and tab: "holds_table (cells (dev st)) es"
    and ok: "image_ok (cells (dev st)) (app_start es)"
    and rng: "app_start es + 256 + image_len (image_hdr_at (cells (dev st)) (app_start es)) \<le> cap"
  shows "\<exists>st'. restore_finish fi (ota_port_init fi nb) st = (OTA_ERR_NONE, st')
    \<and> jumps st' = jumps st @ [p_start_addr (app_part es) + 256]
    \<and> ota_upg_state_get fi nb (dev st') = (True, UPG_STATE_RESTORE_OK)
    \<and> (\<forall>x. x < nb \<or> nb + 12288 \<le> x \<longrightarrow> cells (dev st') x = cells (dev st) x)"
proof -
  obtain d' where "ota_upg_state_set fi nb UPG_STATE_RESTORE_OK (dev st) = (True, d')"
    "ota_upg_state_get fi nb d' = (True, UPG_STATE_RESTORE_OK)"
    "\<forall>x. x < nb \<or> nb + 12288 \<le> x \<longrightarrow> cells d' x = cells (dev st) x"
    using upg_state_set_mem [of nb UPG_STATE_RESTORE_OK "dev st"] lay by (auto simp: ota_layout_def)
  then show ?thesis using verify_app_mem [OF lay tab rng] ok
    by (auto simp: restore_finish_def port_simps jump_to_app_def)
qed

end

text \<open>The memory once the application is replaced.\<close>

definition restored_mem :: "partition_info list \<Rightarrow> mem \<Rightarrow> mem" where
  "restored_mem es m = nor_prog (nor_erase m (app_start es) (app_size es)) (app_start es) (ota_image m es)"

lemma length_ota_image: "length (ota_image m es) = 256 + unat (img_size_orig (image_hdr_at m (ota_start es)))"
  by (simp add: ota_image_def)

lemma restored_mem_app:
  assumes "ota_ready m es"
  shows "mem_read (restored_mem es m) (app_start es) (length (ota_image m es)) = ota_image m es"
proof -
  have "length (ota_image m es) \<le> app_size es" using assms by (simp add: ota_ready_def length_ota_image)
  then have "mem_read (nor_erase m (app_start es) (app_size es)) (app_start es) (length (ota_image m es))
      = replicate (length (ota_image m es)) (- 1)"
    by (intro mem_fill_inside) simp_all
  then show ?thesis unfolding restored_mem_def by (rule nor_prog_erased)
qed

lemma restored_mem_outside:
  assumes "ota_ready m es" "x < app_start es \<or> app_start es + app_size es \<le> x"
  shows "restored_mem es m x = m x"
  using assms by (auto simp: restored_mem_def ota_ready_def length_ota_image nor_prog_def mem_fill_def)

lemma mem_read_frame:
  assumes "\<And>x. x < a \<or> a + n \<le> x \<Longrightarrow> m' x = m x" "apart a n b k"
  shows "mem_read m' b k = mem_read m b k"
  using assms by (intro mem_read_cong) (auto simp: apart_def)

lemma holds_table_frame:
  assumes "\<And>x. x < a \<or> a + n \<le> x \<Longrightarrow> m' x = m x" "apart a n PARTITION_TAB_BASE PARTITION_TAB_SIZE"
  shows "holds_table m' es \<longleftrightarrow> holds_table m es"
  by (rule holds_table_cong [OF mem_read_frame [OF assms]])

lemma ota_ready_hdr:
  assumes "ota_ready m es"
  shows "image_len (image_hdr_at m (ota_start es)) = unat (img_size_orig (image_hdr_at m (ota_start es)))"
  using assms by (simp add: ota_ready_def image_len_original)

lemma ota_ready_fit:
  assumes "ota_ready m es"
  shows "image_ok m (ota_start es)" "256 + image_len (image_hdr_at m (ota_start es)) \<le> ota_size es"
  using assms ota_ready_hdr [OF assms] by (simp_all add: ota_ready_def)

text \<open>What the OTA partition holds does not depend on the rest of the memory.\<close>

lemma ota_part_frame:
  assumes fr: "mem_read m' (ota_start es) (ota_size es) = mem_read m (ota_start es) (ota_size es)" and rdy: "ota_ready m es"
  shows "ota_ready m' es" "ota_image m' es = ota_image m es" "image_hdr_at m' (ota_start es) = image_hdr_at m (ota_start es)"
proof -
  let ?h = "image_hdr_at m (ota_start es)" and ?k = "256 + unat (img_size_orig (image_hdr_at m (ota_start es)))"
  have "?k \<le> ota_size es" using rdy by (simp add: ota_ready_def)
  then have rd: "mem_read m (ota_start es) ?k = mem_read m' (ota_start es) ?k"
    using arg_cong [OF fr, of "take ?k"] by (simp add: min_def)
  show h: "image_hdr_at m' (ota_start es) = ?h" using image_hdr_at_cong [OF rd] by simp
  show "ota_image m' es = ota_image m es" using rd h by (simp add: ota_image_def)
  have "image_ok m (ota_start es) \<longleftrightarrow> image_ok m' (ota_start es)"
    by (rule image_ok_cong) (simp only: ota_ready_hdr [OF rdy] rd)
  then show "ota_ready m' es" using rdy h by (simp add: ota_ready_def)
qed

lemma restored_app_ok:
  assumes "ota_ready m es"
  shows "image_hdr_at (restored_mem es m) (app_start es) = image_hdr_at m (ota_start es)"
    and "image_ok (restored_mem es m) (app_start es)"
proof -
  let ?h = "image_hdr_at m (ota_start es)"
  have rd: "mem_read m (ota_start es) (256 + image_len ?h) = mem_read (restored_mem es m) (app_start es) (256 + image_len ?h)"
    using restored_mem_app [OF assms] ota_ready_hdr [OF assms] by (simp add: length_ota_image) (simp add: ota_image_def)
  show "image_hdr_at (restored_mem es m) (app_start es) = ?h" using image_hdr_at_cong [OF rd] by simp
  show "image_ok (restored_mem es m) (app_start es)"
    using image_ok_cong [OF rd] assms by (simp add: ota_ready_def)
qed

context flash_dev
begin

lemma restore_copy_mem:
  assumes lay: "ota_layout cap nb es" and rdy: "ota_ready (cells d) es"
    and h: "h = image_hdr_at (cells d) (ota_start es)"
  defines "port \<equiv> ota_port_init fi nb" and "A \<equiv> p_start_addr (app_part es)" and "B \<equiv> p_start_addr (ota_part es)"
  shows "\<exists>d'. orig_image_do_restore port (A + 256) (B + 256) (img_size_orig h)
       (drv_write port (unat A) (bytes_of_image_hdr h) (drv_erase port (unat A) (app_size es) d)) = (OTA_ERR_NONE, d')
     \<and> cells d' = restored_mem es (cells d)"
proof -
  let ?m = "cells d" and ?n = "unat (img_size_orig h)"
  note lay' = lay [unfolded ota_layout_def, folded A_def B_def]
  note rdy' = rdy [unfolded ota_ready_def, folded A_def B_def h]
  have fit: "256 + ?n \<le> ota_size es" "256 + ?n \<le> app_size es" using rdy' h B_def by simp_all
  have cap: "cap < 2 ^ 32" "unat A + app_size es \<le> cap" "unat B + ota_size es \<le> cap" using lay' by simp_all
  have ap: "apart (unat A) (app_size es) (unat B) (ota_size es)" using lay' by simp
  define d1 where "d1 = fi_erase fi (unat A) (app_size es) d"
  define d2 where "d2 = fi_prog fi (unat A) (bytes_of_image_hdr h) d1"
  have hb: "bytes_of_image_hdr h = mem_read ?m (unat B) 256"
    unfolding h B_def image_hdr_at_def by (rule bytes_of_image_hdr_inv) simp
  have m1: "cells d1 = nor_erase ?m (unat A) (app_size es)"
    unfolding d1_def using lay' by (intro fi_erase) simp_all
  have m2: "cells d2 = nor_prog (nor_erase ?m (unat A) (app_size es)) (unat A) (mem_read ?m (unat B) 256)"
    unfolding d2_def hb using fit cap by (subst fi_prog) (simp_all add: m1)
  have u: "unat (A + 256) = unat A + 256" "unat (B + 256) = unat B + 256"
    using unat_add_small [of A 256] unat_add_small [of B 256] fit cap by simp_all
  obtain d3 where d3: "orig_image_do_restore port (A + 256) (B + 256) (img_size_orig h) d2 = (OTA_ERR_NONE, d3)"
    "cells d3 = nor_prog (cells d2) (unat A + 256) (mem_read (cells d2) (unat B + 256) ?n)"
    using do_restore_mem [OF cap(1), of "A + 256" "img_size_orig h" "B + 256" nb d2] u fit cap ap
    by (auto simp: port_def apart_def)
  have "mem_read (cells d2) (unat B + 256) ?n = mem_read ?m (unat B + 256) ?n"
    unfolding m2 using ap fit
    by (subst nor_prog_outside, simp add: apart_def, linarith, subst mem_fill_outside) (auto simp: apart_def)
  then have "cells d3 = nor_prog (nor_erase ?m (unat A) (app_size es)) (unat A) (mem_read ?m (unat B) (256 + ?n))"
    using d3(2) m2 nor_prog_append [of "nor_erase ?m (unat A) (app_size es)" "unat A" "mem_read ?m (unat B) 256"]
    by (simp add: mem_read_add)
  then show ?thesis using d3(1) h
    by (simp add: port_def port_simps d1_def d2_def restored_mem_def ota_image_def A_def B_def)
qed

lemma restore_image_mem:
  assumes lay: "ota_layout cap nb es" and tab: "holds_table (cells (dev st)) es" and rdy: "ota_ready (cells (dev st)) es"
    and st: "partition_info_app st = app_part es" "partition_info_ota st = ota_part es"
      "ota_header st = image_hdr_at (cells (dev st)) (ota_start es)"
  shows "\<exists>st'. restore_image xz fi (ota_port_init fi nb) (erase_app (ota_port_init fi nb) st) = (OTA_ERR_NONE, st')
    \<and> jumps st' = jumps st @ [p_start_addr (app_part es) + 256]
    \<and> ota_upg_state_get fi nb (dev st') = (True, UPG_STATE_RESTORE_OK)
    \<and> (\<forall>x. x < nb \<or> nb + 12288 \<le> x \<longrightarrow> cells (dev st') x = restored_mem es (cells (dev st)) x)"
proof -
  let ?port = "ota_port_init fi nb" and ?m = "cells (dev st)" and ?A = "p_start_addr (app_part es)"
  have orig: "image_type (ota_header st) = IMAGE_TYPE_ORIGINAL" using rdy st(3) by (simp add: ota_ready_def)
  obtain d' where d': "orig_image_do_restore ?port (?A + 256) (p_start_addr (ota_part es) + 256) (img_size_orig (ota_header st))
       (drv_write ?port (app_start es) (bytes_of_image_hdr (ota_header st)) (drv_erase ?port (app_start es) (app_size es) (dev st)))
       = (OTA_ERR_NONE, d')" "cells d' = restored_mem es ?m"
    using restore_copy_mem [OF lay rdy st(3)] by blast
  let ?st = "st\<lparr>dev := d'\<rparr>"
  have ri: "restore_image xz fi ?port (erase_app ?port st) = restore_finish fi ?port ?st"
    using orig d'(1) st(1,2) by (simp add: restore_image_def Let_def erase_app_def)
  have "holds_table (restored_mem es ?m) es"
    using holds_table_frame [OF restored_mem_outside [OF rdy]] lay tab by (simp add: ota_layout_def)
  moreover have "app_start es + 256 + image_len (image_hdr_at (restored_mem es ?m) (app_start es)) \<le> cap"
    using ota_ready_hdr [OF rdy] restored_app_ok(1) [OF rdy] rdy lay by (simp add: ota_ready_def ota_layout_def)
  ultimately obtain st' where "restore_finish fi ?port ?st = (OTA_ERR_NONE, st')"
    "jumps st' = jumps st @ [?A + 256]" "ota_upg_state_get fi nb (dev st') = (True, UPG_STATE_RESTORE_OK)"
    "\<forall>x. x < nb \<or> nb + 12288 \<le> x \<longrightarrow> cells (dev st') x = restored_mem es ?m x"
    using restore_finish_mem [OF lay, of ?st] restored_app_ok(2) [OF rdy] d'(2) by auto
  then show ?thesis unfolding ri by blast
qed

lemma verify_ota_mem:
  assumes lay: "ota_layout cap nb es" and tab: "holds_table (cells (dev st)) es" and ok: "image_ok (cells (dev st)) (ota_start es)"
    and fit: "256 + image_len (image_hdr_at (cells (dev st)) (ota_start es)) \<le> ota_size es"
  shows "verify_ota fi (ota_port_init fi nb) st = (OTA_ERR_NONE,
    st\<lparr>partition_info_ota := ota_part es, ota_header := image_hdr_at (cells (dev st)) (ota_start es)\<rparr>)"
proof -
  have rng: "ota_start es + 256 + image_len (image_hdr_at (cells (dev st)) (ota_start es)) \<le> cap"
    using fit lay by (simp add: ota_layout_def)
  show ?thesis
    using verify_total_mem [OF tab _ _ refl _ _ _ rng, of nb "partition_info_ota st" "ota_header st"] lay ok
    by (auto simp: verify_ota_def ota_layout_def)
qed

text \<open>Whatever the application partition holds, checking it reads the entry and the header.\<close>

lemma verify_app_reads:
  assumes lay: "ota_layout cap nb es" and tab: "holds_table (cells (dev st)) es" and "256 \<le> app_size es"
  shows "\<exists>err. verify_app fi (ota_port_init fi nb) st = (err,
    st\<lparr>partition_info_app := app_part es, app_header := image_hdr_at (cells (dev st)) (app_start es)\<rparr>)"
proof -
  have f: "ln_fetch_partition_info fi PARTITION_TYPE_APP (Some p) (dev st) = (True, Some (app_part es))" for p
    using fetch_info [OF tab, of PARTITION_TYPE_APP p] lay by (simp add: ota_layout_def)
  have "fi_spi_read fi (app_start es) 256 (dev st) = mem_read (cells (dev st)) (app_start es) 256"
    using lay assms(3) by (intro fi_spi_read) (simp add: ota_layout_def)
  then have "image_header_read fi (ota_port_init fi nb) PARTITION_TYPE_APP h (dev st)
      = (OTA_ERR_NONE, image_hdr_at (cells (dev st)) (app_start es))" for h
    using f by (simp add: image_header_read_def port_simps image_hdr_at_def)
  then show ?thesis using f by (auto simp: verify_app_def verify_total_img_partition_def Let_def)
qed

text \<open>With a downloaded image in place, the boot loader starts an application: the new one, or the one
  that is there if that checks and is not older.\<close>

lemma agent_ready:
  fixes st xz
  assumes lay: "ota_layout cap nb es" and tab: "holds_table (cells (dev st)) es" and rdy: "ota_ready (cells (dev st)) es"
    and get: "ota_upg_state_get fi nb (dev st) = (True, UPG_STATE_DOWNLOAD_OK)"
  defines "m \<equiv> cells (dev st)" and "port \<equiv> ota_port_init fi nb"
  defines "older \<equiv> fst (verify_app fi port st) \<noteq> OTA_ERR_NONE
    \<or> image_version (image_hdr_at m (app_start es)) < image_version (image_hdr_at m (ota_start es))"
  shows "\<exists>st'. ota_boot_upgrade_agent xz fi port st = (OTA_ERR_NONE, st')
    \<and> jumps st' = jumps st @ [p_start_addr (app_part es) + 256]
    \<and> (older \<longrightarrow> ota_upg_state_get fi nb (dev st') = (True, UPG_STATE_RESTORE_OK)
          \<and> (\<forall>x. x < nb \<or> nb + 12288 \<le> x \<longrightarrow> cells (dev st') x = restored_mem es m x))
    \<and> (\<not> older \<longrightarrow> (\<forall>x. x < nb \<or> nb + 12288 \<le> x \<longrightarrow> cells (dev st') x = m x))"
proof -
  have "256 \<le> app_size es" using rdy by (simp add: ota_ready_def)
  then obtain err where va: "verify_app fi port st = (err,
      st\<lparr>partition_info_app := app_part es, app_header := image_hdr_at m (app_start es)\<rparr>)"
    using verify_app_reads [OF lay tab] by (auto simp: m_def port_def)
  define st1 where "st1 = st\<lparr>partition_info_app := app_part es, app_header := image_hdr_at m (app_start es)\<rparr>"
  define st2 where "st2 = st1\<lparr>partition_info_ota := ota_part es, ota_header := image_hdr_at m (ota_start es)\<rparr>"
  have vo: "verify_ota fi port st1 = (OTA_ERR_NONE, st2)"
    using verify_ota_mem [OF lay, of st1] tab ota_ready_fit [OF rdy] by (simp add: st2_def st1_def m_def port_def)
  have s2 [simp]: "dev st2 = dev st" "jumps st2 = jumps st" "partition_info_app st2 = app_part es"
    "partition_info_ota st2 = ota_part es" "app_header st2 = image_hdr_at m (app_start es)"
    "ota_header st2 = image_hdr_at m (ota_start es)" by (simp_all add: st2_def st1_def)
  have agent: "ota_boot_upgrade_agent xz fi port st =
      (if err \<noteq> OTA_ERR_NONE then restore_image xz fi port (erase_app port st2) else compare_and_boot xz fi port st2)"
    using get va vo upg_state_ne
    by (simp add: ota_boot_upgrade_agent_def port_def port_simps st1_def [symmetric])
  show ?thesis
  proof (cases older)
    case True
    then have "ota_boot_upgrade_agent xz fi port st = restore_image xz fi port (erase_app port st2)"
      using agent va by (auto simp: older_def compare_and_boot_def Let_def)
    then show ?thesis using True restore_image_mem [OF lay, of st2 xz] tab rdy by (simp add: m_def port_def)
  next
    case False
    then have "ota_boot_upgrade_agent xz fi port st = compare_and_boot xz fi port st2"
      using agent va by (auto simp: older_def)
    then show ?thesis using False upg_state_set_mem [of nb UPG_STATE_RESTORE_OK "dev st"] lay
      by (auto simp: older_def compare_and_boot_def Let_def port_def port_simps jump_to_app_def ota_layout_def m_def)
  qed
qed

lemma agent_no_download:
  assumes lay: "ota_layout cap nb es" and tab: "holds_table (cells (dev st)) es"
    and get: "ota_upg_state_get fi nb (dev st) = (ret, s)" "\<not> ret \<or> s \<noteq> UPG_STATE_DOWNLOAD_OK"
    and ok: "image_ok (cells (dev st)) (app_start es)"
    and rng: "app_start es + 256 + image_len (image_hdr_at (cells (dev st)) (app_start es)) \<le> cap"
  shows "\<exists>st'. ota_boot_upgrade_agent xz fi (ota_port_init fi nb) st = (OTA_ERR_NONE, st')
    \<and> jumps st' = jumps st @ [p_start_addr (app_part es) + 256] \<and> dev st' = dev st"
  using verify_app_mem [OF lay tab rng] get ok
  by (auto simp: ota_boot_upgrade_agent_def port_simps verify_and_boot_def jump_to_app_def)

text \<open>A downloaded difference image, which the code does not support, costs the application.\<close>

lemma agent_diff:
  assumes lay: "ota_layout cap nb es" and tab: "holds_table (cells (dev st)) es"
    and ok: "image_ok (cells (dev st)) (ota_start es)"
    and fit: "256 + image_len (image_hdr_at (cells (dev st)) (ota_start es)) \<le> ota_size es" "256 \<le> app_size es"
    and diff: "image_type (image_hdr_at (cells (dev st)) (ota_start es)) \<in> {IMAGE_TYPE_DIFF, IMAGE_TYPE_DIFF_XZ}"
    and get: "ota_upg_state_get fi nb (dev st) = (True, UPG_STATE_DOWNLOAD_OK)"
    and newer: "image_version (image_hdr_at (cells (dev st)) (app_start es)) < image_version (image_hdr_at (cells (dev st)) (ota_start es))"
  shows "\<exists>err st'. ota_boot_upgrade_agent xz fi (ota_port_init fi nb) st = (err, st') \<and> err \<noteq> OTA_ERR_NONE
    \<and> jumps st' = jumps st \<and> cells (dev st') = nor_erase (cells (dev st)) (app_start es) (app_size es)"
proof -
  let ?m = "cells (dev st)" and ?port = "ota_port_init fi nb"
  obtain err where va: "verify_app fi ?port st = (err,
      st\<lparr>partition_info_app := app_part es, app_header := image_hdr_at ?m (app_start es)\<rparr>)"
    using verify_app_reads [OF lay tab fit(2)] by auto
  define st1 where "st1 = st\<lparr>partition_info_app := app_part es, app_header := image_hdr_at ?m (app_start es)\<rparr>"
  define st2 where "st2 = st1\<lparr>partition_info_ota := ota_part es, ota_header := image_hdr_at ?m (ota_start es)\<rparr>"
  have vo: "verify_ota fi ?port st1 = (OTA_ERR_NONE, st2)"
    using verify_ota_mem [OF lay, of st1] tab ok fit(1) by (simp add: st2_def st1_def)
  have "cells (fi_erase fi (app_start es) (app_size es) (dev st)) = nor_erase ?m (app_start es) (app_size es)"
    using lay by (intro fi_erase) (auto simp: ota_layout_def)
  moreover have "ota_boot_upgrade_agent xz fi ?port st = restore_image xz fi ?port (erase_app ?port st2)"
    using get va vo upg_state_ne newer
    by (auto simp: ota_boot_upgrade_agent_def port_simps st1_def [symmetric] compare_and_boot_def Let_def st2_def)
      (simp_all add: st1_def)
  ultimately show ?thesis using diff
    by (auto simp: restore_image_def Let_def erase_app_def port_simps st2_def st1_def IMAGE_TYPE_ORIGINAL_def
        IMAGE_TYPE_ORIGINAL_XZ_def IMAGE_TYPE_DIFF_def IMAGE_TYPE_DIFF_XZ_def)
qed

end


section \<open>A flash with a download\<close>

text \<open>A flash with the partitions of \<^verbatim>\<open>flash_partition_table.h\<close>, an application of version 0.0 that does
  not check, a checked download of version 1.0, and the upgrade state that says so.\<close>

definition mem_put :: "mem \<Rightarrow> nat \<Rightarrow> byte list \<Rightarrow> mem" where
  "mem_put m a bs = (\<lambda>x. if a \<le> x \<and> x < a + length bs then bs ! (x - a) else m x)"

lemma mem_put_inside: "mem_read (mem_put m a bs) a (length bs) = bs"
  by (simp add: mem_read_eq_iff mem_put_def)

lemma mem_put_outside: "b + n \<le> a \<or> a + length bs \<le> b \<Longrightarrow> mem_read (mem_put m a bs) b n = mem_read m b n"
  by (rule mem_read_cong) (auto simp: mem_put_def)

definition demo_part :: "u32 \<Rightarrow> u32 \<Rightarrow> u32 \<Rightarrow> partition_info" where
  "demo_part ty start n = (let e = \<lparr>p_type = ty, p_start_addr = start, p_size = n, p_crc32 = 0\<rparr>
     in e\<lparr>p_crc32 := ln_crc32_signle_cal (take 12 (bytes_of_partition_info e))\<rparr>)"

definition demo_parts :: "partition_info list" where
  "demo_parts = [demo_part PARTITION_TYPE_APP 0xD000 0xFA000, demo_part PARTITION_TYPE_OTA 0x107000 0xC8000]"

definition demo_hdr :: "u32 \<Rightarrow> image_hdr" where
  "demo_hdr ty = (let h = \<lparr>image_type = ty, ver = \<lparr>ver_major = 1, ver_minor = 0\<rparr>,
      ver_diff_depend = \<lparr>ver_major = 0, ver_minor = 0\<rparr>, img_size_orig = 3, img_size_orig_xz = 3, img_size_diff = 3,
      img_size_diff_xz = 3, img_crc32_orig = ln_crc32_signle_cal [1, 2, 3], img_crc32_orig_xz = 0, img_crc32_diff = ln_crc32_signle_cal [1, 2, 3],
      img_crc32_diff_xz = 0, res = replicate 212 0, header_crc32 = 0\<rparr>
     in h\<lparr>header_crc32 := image_hdr_crc h\<rparr>)"

definition demo_nvds :: "byte list" where
  "demo_nvds = nvds_magic @ replicate 16 (- 1) @ le_bytes 4 UPG_STATE_DOWNLOAD_OK"

definition demo_flash :: "u32 \<Rightarrow> mem" where
  "demo_flash ty = mem_put (mem_put (mem_put (mem_put (mem_put (\<lambda>_. - 1)
     PARTITION_TAB_BASE (concat (map bytes_of_partition_info (demo_parts @ [partition_end]))))
     0x107000 (bytes_of_image_hdr (demo_hdr ty) @ [1, 2, 3]))
     0xA000 demo_nvds) 0xC000 (le_bytes 2 NVDS_SECT1_VALID)) 0xD004 [0, 0]"

definition demo_ota_st :: "'d \<Rightarrow> 'd ota_st" where
  "demo_ota_st d = \<lparr>dev = d, app_header = demo_hdr IMAGE_TYPE_ORIGINAL, ota_header = demo_hdr IMAGE_TYPE_ORIGINAL, partition_info_app = partition_end,
     partition_info_ota = partition_end, xz_already_read = 0, xz_already_write = 0, jumps = []\<rparr>"

lemma demo_part_simps [simp]: "p_type (demo_part ty start n) = ty" "p_start_addr (demo_part ty start n) = start"
  "p_size (demo_part ty start n) = n" "partition_info_crc_ok (demo_part ty start n)"
  by (simp_all add: demo_part_def partition_info_crc_ok_def bytes_of_partition_info_def)

lemma demo_find: "table_find PARTITION_TYPE_APP demo_parts = demo_part PARTITION_TYPE_APP 0xD000 0xFA000"
  "table_find PARTITION_TYPE_OTA demo_parts = demo_part PARTITION_TYPE_OTA 0x107000 0xC8000"
  by (simp_all add: demo_parts_def PARTITION_TYPE_APP_def PARTITION_TYPE_OTA_def)

lemma demo_layout: "ota_layout FALSH_SIZE_MAX 0xA000 demo_parts"
  unfolding ota_layout_def demo_find
  by (simp add: apart_def PARTITION_TAB_BASE_def PARTITION_TAB_SIZE_def FALSH_SIZE_MAX_def)

lemma length_demo_nvds: "length demo_nvds = 24"
  by (simp add: demo_nvds_def)

lemma demo_hdr_res: "length (res (demo_hdr ty)) = 212"
  by (simp add: demo_hdr_def)

lemma length_demo_hdr: "length (bytes_of_image_hdr (demo_hdr ty)) = 256"
  using demo_hdr_res by (rule length_bytes_of_image_hdr)

lemma demo_reads:
  "mem_read (demo_flash ty) PARTITION_TAB_BASE 48 = concat (map bytes_of_partition_info (demo_parts @ [partition_end]))"
  "mem_read (demo_flash ty) 0x107000 259 = bytes_of_image_hdr (demo_hdr ty) @ [1, 2, 3]"
  "mem_read (demo_flash ty) 0xA000 24 = demo_nvds" "mem_read (demo_flash ty) 0xC000 2 = le_bytes 2 NVDS_SECT1_VALID"
  "mem_read (demo_flash ty) 0xD004 2 = [0, 0]"
proof -
  let ?t = "concat (map bytes_of_partition_info (demo_parts @ [partition_end]))"
  have len: "length ?t = 48" "length (bytes_of_image_hdr (demo_hdr ty) @ [1, 2, 3 :: byte]) = 259"
    by (simp_all add: demo_parts_def length_demo_hdr)
  note base = PARTITION_TAB_BASE_def
  show "mem_read (demo_flash ty) PARTITION_TAB_BASE 48 = ?t"
    unfolding demo_flash_def using mem_put_inside [of "\<lambda>_. - 1" PARTITION_TAB_BASE ?t] len
    by (simp add: mem_put_outside base length_demo_nvds)
  show "mem_read (demo_flash ty) 0x107000 259 = bytes_of_image_hdr (demo_hdr ty) @ [1, 2, 3]"
    unfolding demo_flash_def using mem_put_inside [of _ "0x107000" "bytes_of_image_hdr (demo_hdr ty) @ [1, 2, 3]"] len
    by (simp add: mem_put_outside length_demo_nvds)
  show "mem_read (demo_flash ty) 0xA000 24 = demo_nvds"
    unfolding demo_flash_def using mem_put_inside [of _ "0xA000" demo_nvds]
    by (simp add: mem_put_outside length_demo_nvds)
  show "mem_read (demo_flash ty) 0xC000 2 = le_bytes 2 NVDS_SECT1_VALID"
    unfolding demo_flash_def using mem_put_inside [of _ "0xC000" "le_bytes 2 NVDS_SECT1_VALID"]
    by (simp add: mem_put_outside)
  show "mem_read (demo_flash ty) 0xD004 2 = [0, 0]"
    unfolding demo_flash_def using mem_put_inside [of _ "0xD004" "[0, 0]"] by (simp add: numeral_2_eq_2)
qed

lemma demo_table: "holds_table (demo_flash ty) demo_parts"
  using demo_reads(1) by (auto simp: holds_table_def demo_parts_def demo_part_def partition_end_def)

lemma demo_ota_hdr: "image_hdr_at (demo_flash ty) 0x107000 = (demo_hdr ty)"
proof -
  have "mem_read (demo_flash ty) 0x107000 256 = bytes_of_image_hdr (demo_hdr ty)"
    using arg_cong [OF demo_reads(2), of "take 256"] by (simp add: length_demo_hdr)
  then show ?thesis using image_hdr_of_bytes_inv [OF demo_hdr_res] by (simp add: image_hdr_at_def)
qed

lemma demo_ok:
  assumes "ty = IMAGE_TYPE_ORIGINAL \<or> ty = IMAGE_TYPE_DIFF"
  shows "image_ok (demo_flash ty) 0x107000" "image_len (demo_hdr ty) = 3"
proof -
  have "mem_read (demo_flash ty) (0x107000 + 256) 3 = [1, 2, 3]"
    using arg_cong [OF demo_reads(2), of "drop 256"] by (simp add: length_demo_hdr)
  moreover have st: "image_stored (demo_hdr ty) = Some (3, ln_crc32_signle_cal [1, 2, 3])"
    using assms by (auto simp: image_stored_def demo_hdr_def IMAGE_TYPE_ORIGINAL_def IMAGE_TYPE_ORIGINAL_XZ_def IMAGE_TYPE_DIFF_def)
  moreover have "header_crc32 (demo_hdr ty) = image_hdr_crc (demo_hdr ty)"
    by (simp add: demo_hdr_def image_hdr_crc_def bytes_of_image_hdr_def)
  ultimately show "image_ok (demo_flash ty) 0x107000"
    using demo_ota_hdr [of ty] by (simp add: image_ok_def image_hdr_at_def)
  show "image_len (demo_hdr ty) = 3" using st by (simp add: image_len_def)
qed

lemma demo_ready: "ota_ready (demo_flash IMAGE_TYPE_ORIGINAL) demo_parts"
  using demo_ok(1) [of IMAGE_TYPE_ORIGINAL]
  by (simp add: ota_ready_def demo_find demo_ota_hdr) (simp add: demo_hdr_def)

lemma demo_view:
  "nvds_view 0xA000 (demo_flash ty) = Some (mem_read (demo_flash ty) 0xA000 4096)"
  "take 4 (mem_read (demo_flash ty) 0xA000 4096) = nvds_magic"
  "take 4 (drop 20 (mem_read (demo_flash ty) 0xA000 4096)) = le_bytes 4 UPG_STATE_DOWNLOAD_OK"
proof -
  show "nvds_view 0xA000 (demo_flash ty) = Some (mem_read (demo_flash ty) 0xA000 4096)"
    using demo_reads(4) by (simp add: nvds_view_def nvds_flag_def)
  have "mem_read (demo_flash ty) 0xA000 4096 = demo_nvds @ mem_read (demo_flash ty) (0xA000 + 24) 4072"
    using mem_read_add [of "demo_flash ty" "0xA000" 24 4072] demo_reads(3) by simp
  then show "take 4 (mem_read (demo_flash ty) 0xA000 4096) = nvds_magic"
    "take 4 (drop 20 (mem_read (demo_flash ty) 0xA000 4096)) = le_bytes 4 UPG_STATE_DOWNLOAD_OK"
    by (simp_all only:) (simp_all add: demo_nvds_def)
qed

lemma demo_app_type: "image_type (image_hdr_at (demo_flash ty) 0xD000) = - 1"
proof -
  have "mem_read (demo_flash ty) 0xD000 4 = mem_read (\<lambda>_. - 1) 0xD000 4"
    unfolding demo_flash_def by (simp add: mem_put_outside length_demo_nvds length_demo_hdr demo_parts_def PARTITION_TAB_BASE_def)
  then have "mem_read (demo_flash ty) 0xD000 4 = [- 1, - 1, - 1, - 1]" by (simp add: mem_read_def upt_rec)
  moreover have "le_word [- 1, - 1, - 1, - 1 :: byte] = (- 1 :: u32)" by code_simp
  ultimately show ?thesis by (simp add: image_hdr_at_def image_hdr_of_bytes_def)
qed

lemma demo_app_version: "image_version (image_hdr_at (demo_flash ty) 0xD000) = 0"
proof -
  have "(demo_flash ty) 0xD004 = 0" "(demo_flash ty) 0xD005 = 0" using demo_reads(5) by (auto simp: mem_read_def upt_rec)
  then show ?thesis by (simp add: image_version_def image_hdr_at_def image_hdr_of_bytes_def)
qed

lemma demo_get: "ota_upg_state_get (chip_flash ideal_chip) 0xA000 (demo_flash ty, False) = (True, UPG_STATE_DOWNLOAD_OK)"
  using flash_dev.read_sim [OF ideal.chip_flash_dev, of "0xA000" 20 4 "(demo_flash ty, False)"]
    read_view [of 20 4 "0xA000" "demo_flash ty"] demo_view [of ty]
  by (simp add: ota_upg_state_get_def ln_nvds_get_ota_upg_state_def nvds_get_item_def nvds_item_defs FALSH_SIZE_MAX_def)

lemma demo_version: "image_version (demo_hdr ty) = 256" "image_type (demo_hdr ty) = ty"
  by (simp_all add: image_version_def demo_hdr_def)


text \<open>C7: With a checked download of an uncompressed image that is newer than the application, or when the
  application does not check, the boot loader on any datasheet-conforming chip installs the image
  byte for byte, notes the success, leaves the download and starts the new application.\<close>

theorem ota_upgrade_installs:
  fixes st xz chip cells
  assumes "spi_nor chip cells" and lay: "ota_layout FALSH_SIZE_MAX nb es" and tab: "holds_table (cells (dev st)) es"
    and rdy: "ota_ready (cells (dev st)) es"
    and get: "ota_upg_state_get (chip_flash chip) nb (dev st) = (True, UPG_STATE_DOWNLOAD_OK)"
    and old: "fst (verify_app (chip_flash chip) (ota_port_init (chip_flash chip) nb) st) \<noteq> OTA_ERR_NONE
      \<or> image_version (image_hdr_at (cells (dev st)) (app_start es)) < image_version (image_hdr_at (cells (dev st)) (ota_start es))"
  shows "\<exists>st'. ota_boot_upgrade_agent xz (chip_flash chip) (ota_port_init (chip_flash chip) nb) st = (OTA_ERR_NONE, st')
    \<and> jumps st' = jumps st @ [p_start_addr (app_part es) + 256]
    \<and> ota_upg_state_get (chip_flash chip) nb (dev st') = (True, UPG_STATE_RESTORE_OK)
    \<and> mem_read (cells (dev st')) (app_start es) (length (ota_image (cells (dev st)) es)) = ota_image (cells (dev st)) es
    \<and> mem_read (cells (dev st')) (ota_start es) (ota_size es) = mem_read (cells (dev st)) (ota_start es) (ota_size es)"
proof -
  let ?m = "cells (dev st)"
  obtain st' where st': "ota_boot_upgrade_agent xz (chip_flash chip) (ota_port_init (chip_flash chip) nb) st = (OTA_ERR_NONE, st')"
    "jumps st' = jumps st @ [p_start_addr (app_part es) + 256]"
    "ota_upg_state_get (chip_flash chip) nb (dev st') = (True, UPG_STATE_RESTORE_OK)"
    "\<And>x. x < nb \<or> nb + 12288 \<le> x \<Longrightarrow> cells (dev st') x = restored_mem es ?m x"
    using flash_dev.agent_ready [OF spi_nor.chip_flash_dev [OF assms(1)] lay tab rdy get, of xz] old by metis
  have le: "length (ota_image ?m es) \<le> app_size es" using rdy by (simp add: ota_ready_def length_ota_image)
  have app: "mem_read (cells (dev st')) (app_start es) (length (ota_image ?m es))
      = mem_read (restored_mem es ?m) (app_start es) (length (ota_image ?m es))"
    using lay le by (intro mem_read_frame [OF st'(4)]) (auto simp: ota_layout_def apart_def)
  have "mem_read (cells (dev st')) (ota_start es) (ota_size es) = mem_read (restored_mem es ?m) (ota_start es) (ota_size es)"
    using lay by (intro mem_read_frame [OF st'(4)]) (auto simp: ota_layout_def apart_def)
  also have "\<dots> = mem_read ?m (ota_start es) (ota_size es)"
    using lay by (intro mem_read_frame [OF restored_mem_outside [OF rdy]]) (auto simp: ota_layout_def)
  finally show ?thesis using st' app restored_mem_app [OF rdy] by metis
qed

theorem ota_upgrade_installs_witness:
  "\<exists>st'. ota_boot_upgrade_agent (\<lambda>_ _ _ st. (- 1, st)) (chip_flash ideal_chip) (ota_port_init (chip_flash ideal_chip) 0xA000)
      (demo_ota_st (demo_flash IMAGE_TYPE_ORIGINAL, False)) = (OTA_ERR_NONE, st') \<and> jumps st' = [0xD100]"
  using ota_upgrade_installs [OF ideal.spi_nor_axioms demo_layout, of "demo_ota_st (demo_flash IMAGE_TYPE_ORIGINAL, False)"
      "\<lambda>_ _ _ st. (- 1, st)"] demo_table demo_ready demo_app_version demo_get
  by (auto simp: demo_ota_st_def demo_find demo_ota_hdr demo_version)

end
