(* ===== verification/Ota_Cut.thy ===== *)
theory Ota_Cut
  imports Ota
begin

unbundle bit_operations_syntax

text \<open>
  The upgrade under power loss.  The first boot runs on a memory whose power is cut after any
  amount of work; the next boot runs to its end and starts an application.
\<close>

section \<open>Reading does not depend on the budget\<close>

lemma partition_read_cut: "partition_read cut_flash i (m, k) = partition_read plain_flash i m"
  by (simp add: partition_read_def)

lemma fetch_partition_cut: "fetch_partition cut_flash ty n i (m, k) p = fetch_partition plain_flash ty n i m p"
  by (induction n arbitrary: i p) (simp_all add: partition_read_cut Let_def)

lemma fetch_info_cut: "ln_fetch_partition_info cut_flash ty p (m, k) = ln_fetch_partition_info plain_flash ty p m"
  by (simp add: ln_fetch_partition_info_def fetch_partition_cut split: option.splits)

lemma port_cut:
  "drv_read (ota_port_init cut_flash nb) x n (m, k) = drv_read (ota_port_init plain_flash nb) x n m"
  by (simp add: ota_port_init_def ota_flash_read_def)

lemma body_crc_cut: "image_body_crc (ota_port_init cut_flash nb) n off (m, k) ctx = image_body_crc (ota_port_init plain_flash nb) n off m ctx"
  by (induction n arbitrary: off ctx) (simp_all add: port_cut)

lemma header_read_cut: "image_header_read cut_flash (ota_port_init cut_flash nb) ty h (m, k)
    = image_header_read plain_flash (ota_port_init plain_flash nb) ty h m"
  unfolding image_header_read_def fetch_info_cut port_cut ..

lemma body_verify_cut: "image_body_verify (ota_port_init cut_flash nb) a h (m, k) = image_body_verify (ota_port_init plain_flash nb) a h m"
  unfolding image_body_verify_def body_crc_cut port_cut ..

lemma verify_total_cut: "verify_total_img_partition cut_flash (ota_port_init cut_flash nb) ty i h (m, k)
    = verify_total_img_partition plain_flash (ota_port_init plain_flash nb) ty i h m"
  unfolding verify_total_img_partition_def fetch_info_cut header_read_cut body_verify_cut ..

lemma get_item_cut: "nvds_get_item cut_flash nb off n (m, k) = nvds_get_item plain_flash nb off n m"
  by (simp add: nvds_get_item_def ln_nvds_read_def nvds_flash_defs)

section \<open>Work on an empty budget does nothing\<close>

lemma prog_cut_0 [simp]: "fi_prog cut_flash a bs (m, 0) = (m, 0)"
  by simp

lemma nvds_copy_cut_0: "nvds_copy cut_flash src dst n i (m, 0) = (m, 0)"
  by (induction n arbitrary: i) (simp_all add: nvds_flash_defs Let_def)

lemma nvds_write_cut_0: "snd (ln_nvds_write cut_flash nb off data (m, 0)) = (m, 0)"
  by (simp add: ln_nvds_write_def nvds_write_sect_def nvds_fill_sect_def nvds_flash_defs nvds_copy_cut_0 Let_def)

lemma set_item_cut_0: "snd (nvds_set_item cut_flash nb off n v (m, 0)) = (m, 0)"
  by (auto simp: nvds_set_item_def nvds_write_cut_0 split: prod.splits)

section \<open>Noting the success\<close>

lemma cut_track_mono: "cut_track a n f g \<Longrightarrow> b \<le> a \<Longrightarrow> a + n \<le> b + k \<Longrightarrow> cut_track b k f g"
  unfolding cut_track_def by (meson le_trans less_le_trans)

lemma nvds_write_cut_outside:
  assumes "4 \<le> off" "off + length data \<le> 4096" "x < nb \<or> nb + 12288 \<le> x"
  shows "fst (snd (ln_nvds_write cut_flash nb off data (m, k))) x = m x"
proof -
  have t: "cut_track nb 12288 (nvds_write_sect cut_flash nb src dst v off data) (nvds_write_sect plain_flash nb src dst v off data)"
    if "nb \<le> dst" "dst + 4096 \<le> nb + 8192" for src dst v
  proof -
    note 1 = cut_track_mono [OF fill_track [OF assms(1,2), of dst src], of nb 12288]
    note 2 = cut_track_erase [of nb "nb + 8192" 4096 12288]
    note 3 = cut_track_prog [of nb "nb + 8192" "le_bytes 2 v" 12288]
    have "cut_track nb 12288
        (\<lambda>d. fi_prog cut_flash (nb + 8192) (le_bytes 2 v) (fi_erase cut_flash (nb + 8192) 4096 (nvds_fill_sect cut_flash src dst off data d)))
        (\<lambda>m. nor_prog (nor_erase (nvds_fill_sect plain_flash src dst off data m) (nb + 8192) 4096) (nb + 8192) (le_bytes 2 v))"
      by (rule cut_track_comp [OF cut_track_comp [OF 1 2] 3]) (use that in simp_all)
    then show ?thesis
      by (simp add: nvds_write_sect_def [abs_def] nvds_flash_defs nvds_addr_defs add.commute)
  qed
  have f: "fst (nvds_write_sect cut_flash nb src dst v off data (m, k)) x = m x"
    if "nb \<le> dst" "dst + 4096 \<le> nb + 8192" for src dst v
    using t [OF that] assms(3) unfolding cut_track_def by (metis prod.collapse)
  show ?thesis using assms(1,2) f by (auto simp: ln_nvds_write_def nvds_addr_defs)
qed

lemma length_view: "nvds_view nb m = Some v \<Longrightarrow> length v = 4096"
  by (auto simp: nvds_view_def split: if_splits)

lemma get_view: "nvds_view nb m = Some v \<Longrightarrow> ota_upg_state_get plain_flash nb m = (True, le_word (take 4 (drop 20 v)))"
  using read_view [of 20 4 nb m]
  by (simp add: ota_upg_state_get_def ln_nvds_get_ota_upg_state_def nvds_get_item_def nvds_item_defs)

lemma view_cong:
  assumes "mem_read m' nb 12288 = mem_read m nb 12288"
  shows "nvds_view nb m' = nvds_view nb m"
proof -
  have "mem_read m' (nb + a) n = mem_read m (nb + a) n" if "a + n \<le> 12288" for a n
  proof -
    have "min n (12288 - a) = n" using that by simp
    then show ?thesis using arg_cong [OF assms, of "\<lambda>xs. take n (drop a xs)"] by simp
  qed
  from this [of 0 4096] this [of 4096 4] this [of 4096 4096] this [of 8192 2]
  show ?thesis by (simp add: nvds_view_def nvds_flag_def)
qed

text \<open>The successor of a store in which the state is set.\<close>

definition nvds_state_set :: "u32 \<Rightarrow> byte list \<Rightarrow> byte list" where
  "nvds_state_set s old = nvds_new 20 (le_bytes 4 s) old"

lemma get_state_set: "length old = 4096 \<Longrightarrow> le_word (take 4 (drop 20 (nvds_state_set s old))) = s"
  using new_slice [of 20 old "le_bytes 4 s"] by (simp add: nvds_state_set_def)

lemma set_state_cut:
  assumes "nvds_view nb m = Some old" "take 4 old = nvds_magic"
  shows "\<exists>ok m' k'. ota_upg_state_set cut_flash nb s (m, k) = (ok, (m', k'))
    \<and> (\<forall>x. x < nb \<or> nb + 12288 \<le> x \<longrightarrow> m' x = m x)
    \<and> nvds_view nb m' \<in> {Some old, Some (nvds_state_set s old)}"
proof -
  let ?w = "ln_nvds_write cut_flash nb 20 (le_bytes 4 s) (m, k)"
  obtain err m' k' where w: "nvds_set_item cut_flash nb 20 4 s (m, k) = (err, (m', k'))" by (metis prod.collapse)
  then have "m' = m \<or> m' = fst (snd ?w)"
    by (auto simp: nvds_set_item_def split: prod.splits if_splits)
  moreover have "nvds_view nb (fst (snd ?w)) \<in> {Some old, Some (nvds_state_set s old)}"
    unfolding nvds_state_set_def by (rule write_cut) (use assms in simp_all)
  moreover have "\<forall>x. x < nb \<or> nb + 12288 \<le> x \<longrightarrow> fst (snd ?w) x = m x"
    using nvds_write_cut_outside [of 20 "le_bytes 4 s" _ nb m k] by simp
  ultimately show ?thesis using w assms(1)
    by (auto simp: ota_upg_state_set_def ln_nvds_set_ota_upg_state_def nvds_item_defs)
qed

section \<open>Copying\<close>

lemma cut_track_copy:
  "a \<le> x \<Longrightarrow> x + r \<le> a + l \<Longrightarrow>
     cut_track a l (\<lambda>d. fi_prog cut_flash x (fi_spi_read cut_flash y r d) d) (\<lambda>m. nor_prog m x (mem_read m y r))"
  by (auto simp: cut_track_def nor_prog_def)

lemma copy_4k_track:
  assumes "a \<le> unat app" "unat app + 4096 * n \<le> a + l" "a + l < 2 ^ 32"
  shows "cut_track a l (\<lambda>d. snd (snd (orig_image_copy_4k (ota_port_init cut_flash nb) n app ota d)))
      (\<lambda>m. snd (snd (orig_image_copy_4k (ota_port_init plain_flash nb) n app ota m)))"
    and "fst (orig_image_copy_4k (ota_port_init fi nb) n app ota d) = app + of_nat (4096 * n)"
    and "fst (snd (orig_image_copy_4k (ota_port_init fi nb) n app ota d)) = ota + of_nat (4096 * n)"
proof -
  show "cut_track a l (\<lambda>d. snd (snd (orig_image_copy_4k (ota_port_init cut_flash nb) n app ota d)))
      (\<lambda>m. snd (snd (orig_image_copy_4k (ota_port_init plain_flash nb) n app ota m)))"
    using assms(1,2)
  proof (induction n arbitrary: app ota)
    case 0
    then show ?case by (simp add: cut_track_id)
  next
    case (Suc n)
    have u: "unat (app + 4096) = unat app + 4096"
      using unat_add_small [of app 4096] Suc.prems assms(3) by simp
    have 1: "cut_track a l (\<lambda>d. fi_prog cut_flash (unat app) (fi_spi_read cut_flash (unat ota) 4096 d) d)
        (\<lambda>m. nor_prog m (unat app) (mem_read m (unat ota) 4096))"
      using Suc.prems by (intro cut_track_copy) simp_all
    have 2: "cut_track a l (\<lambda>d. snd (snd (orig_image_copy_4k (ota_port_init cut_flash nb) n (app + 4096) (ota + 4096) d)))
      (\<lambda>m. snd (snd (orig_image_copy_4k (ota_port_init plain_flash nb) n (app + 4096) (ota + 4096) m)))"
      by (rule Suc.IH) (use Suc.prems u in simp_all)
    show ?case using cut_track_comp [OF 1 2]
      by (simp add: LEN_4KB_def ota_port_init_def ota_flash_write_def ota_flash_read_def)
  qed
  show "fst (orig_image_copy_4k (ota_port_init fi nb) n app ota d) = app + of_nat (4096 * n)"
    "fst (snd (orig_image_copy_4k (ota_port_init fi nb) n app ota d)) = ota + of_nat (4096 * n)"
    by (induction n arbitrary: app ota d) (simp_all add: LEN_4KB_def algebra_simps)
qed

lemma do_restore_track:
  assumes "a \<le> unat app" "unat app + unat n \<le> a + l" "a + l < 2 ^ 32"
  shows "cut_track a l (\<lambda>d. snd (orig_image_do_restore (ota_port_init cut_flash nb) app ota n d))
      (\<lambda>m. snd (orig_image_do_restore (ota_port_init plain_flash nb) app ota n m))"
proof -
  let ?q = "4096 * (unat n div 4096)" and ?r = "unat n mod 4096"
  let ?x = "app + of_nat ?q" and ?y = "ota + of_nat ?q"
  have "unat n = ?q + ?r" by simp
  then have le: "unat app + ?q + ?r \<le> a + l" using assms(2) by linarith
  have u: "unat ?x = unat app + ?q" by (rule unat_add_small) (use le assms(3) in linarith)
  have form: "snd (orig_image_do_restore (ota_port_init fi nb) app ota n d)
      = (let d' = snd (snd (orig_image_copy_4k (ota_port_init fi nb) (unat n div 4096) app ota d))
         in if ?r \<noteq> 0 then fi_prog fi (unat ?x) (fi_spi_read fi (unat ?y) ?r d') d' else d')"
    for fi :: "'x flash_if" and d
    using copy_4k_track(2,3) [OF assms(1) _ assms(3), of "unat n div 4096" fi nb ota d] le
    by (simp add: orig_image_do_restore_def LEN_4KB_def Let_def case_prod_unfold ota_port_init_def ota_flash_write_def
        ota_flash_read_def)
  have 1: "cut_track a l (\<lambda>d. snd (snd (orig_image_copy_4k (ota_port_init cut_flash nb) (unat n div 4096) app ota d)))
      (\<lambda>m. snd (snd (orig_image_copy_4k (ota_port_init plain_flash nb) (unat n div 4096) app ota m)))"
    by (rule copy_4k_track(1)) (use assms le in linarith)+
  have 2: "cut_track a l (\<lambda>d. if ?r \<noteq> 0 then fi_prog cut_flash (unat ?x) (fi_spi_read cut_flash (unat ?y) ?r d) d else d)
      (\<lambda>m. if ?r \<noteq> 0 then nor_prog m (unat ?x) (mem_read m (unat ?y) ?r) else m)"
  proof (cases "?r = 0")
    case False
    have "cut_track a l (\<lambda>d. fi_prog cut_flash (unat ?x) (fi_spi_read cut_flash (unat ?y) ?r d) d)
        (\<lambda>m. nor_prog m (unat ?x) (mem_read m (unat ?y) ?r))"
      by (rule cut_track_copy) (use u assms(1) le in linarith)+
    then show ?thesis using False by simp
  qed (simp add: cut_track_id)
  show ?thesis unfolding form Let_def using cut_track_comp [OF 1 2] by (simp cong: if_cong)
qed

text \<open>Erasing the application and copying an image, on any device.\<close>

definition restore_dev :: "'d ota_port_ctx \<Rightarrow> partition_info list \<Rightarrow> image_hdr \<Rightarrow> 'd \<Rightarrow> 'd" where
  "restore_dev port es h d = snd (orig_image_do_restore port (p_start_addr (app_part es) + 256) (p_start_addr (ota_part es) + 256)
     (img_size_orig h) (drv_write port (app_start es) (bytes_of_image_hdr h) (drv_erase port (app_start es) (app_size es) d)))"

lemma restore_track:
  assumes "256 + unat (img_size_orig h) \<le> app_size es" "app_start es + app_size es < 2 ^ 32" "length (bytes_of_image_hdr h) = 256"
  shows "cut_track (app_start es) (app_size es) (restore_dev (ota_port_init cut_flash nb) es h) (restore_dev (ota_port_init plain_flash nb) es h)"
proof -
  let ?A = "p_start_addr (app_part es)" and ?B = "p_start_addr (ota_part es)"
  have u: "unat (?A + 256) = unat ?A + 256" using unat_add_small [of ?A 256] assms(1,2) by simp
  note 1 = cut_track_erase [of "unat ?A" "unat ?A" "app_size es" "app_size es", simplified]
  note 2 = cut_track_comp [OF 1 cut_track_prog [of "unat ?A" "unat ?A" "bytes_of_image_hdr h" "app_size es"]]
  have 3: "cut_track (unat ?A) (app_size es) (\<lambda>d. snd (orig_image_do_restore (ota_port_init cut_flash nb) (?A + 256) (?B + 256) (img_size_orig h) d))
      (\<lambda>m. snd (orig_image_do_restore (ota_port_init plain_flash nb) (?A + 256) (?B + 256) (img_size_orig h) m))"
    by (rule do_restore_track) (use u assms(1,2) in simp_all)
  show ?thesis using cut_track_comp [OF 2 3] assms(1,3)
    by (simp add: restore_dev_def [abs_def] ota_port_init_def ota_flash_write_def ota_flash_erase_def)
qed

lemma restore_plain:
  assumes "ota_layout cap nb es" "ota_ready m es" "h = image_hdr_at m (ota_start es)"
  shows "restore_dev (ota_port_init plain_flash nb) es h m = restored_mem es m"
  using plain.restore_copy_mem [OF assms] by (auto simp: restore_dev_def)

lemma length_hdr_bytes: "length (bytes_of_image_hdr (image_hdr_at m a)) = 256"
  by (simp add: length_bytes_of_image_hdr image_hdr_at_def)

section \<open>The interrupted boot\<close>

text \<open>What an interrupted boot may leave behind: the rest of the flash as it was, and the upgrade state
  changed only together with an application that checks.\<close>

definition cut_outcome :: "nat \<Rightarrow> partition_info list \<Rightarrow> byte list \<Rightarrow> mem \<Rightarrow> mem \<Rightarrow> bool" where
  "cut_outcome nb es old m m1 \<longleftrightarrow>
     (\<forall>x. (x < app_start es \<or> app_start es + app_size es \<le> x) \<and> (x < nb \<or> nb + 12288 \<le> x) \<longrightarrow> m1 x = m x)
     \<and> (nvds_view nb m1 = Some old
        \<or> nvds_view nb m1 = Some (nvds_state_set UPG_STATE_RESTORE_OK old) \<and> image_ok m1 (app_start es)
          \<and> 256 + image_len (image_hdr_at m1 (app_start es)) \<le> app_size es)"

text \<open>Noting the success over an application that checks.\<close>

lemma set_state_outcome:
  assumes lay: "ota_layout cap nb es" and v: "nvds_view nb m2 = Some old" "take 4 old = nvds_magic"
    and fr: "\<And>x. x < app_start es \<or> app_start es + app_size es \<le> x \<Longrightarrow> m2 x = m x"
    and ok: "image_ok m2 (app_start es)" "256 + image_len (image_hdr_at m2 (app_start es)) \<le> app_size es"
    and set: "ota_upg_state_set cut_flash nb UPG_STATE_RESTORE_OK (m2, k) = (r, (m1, k'))"
  shows "cut_outcome nb es old m m1"
proof -
  have m1: "\<And>x. x < nb \<or> nb + 12288 \<le> x \<Longrightarrow> m1 x = m2 x"
    "nvds_view nb m1 \<in> {Some old, Some (nvds_state_set UPG_STATE_RESTORE_OK old)}"
    using set_state_cut [OF v, of UPG_STATE_RESTORE_OK k] set by auto
  have rd: "mem_read m2 (app_start es) (256 + image_len (image_hdr_at m2 (app_start es)))
      = mem_read m1 (app_start es) (256 + image_len (image_hdr_at m2 (app_start es)))"
    using lay ok(2) by (intro mem_read_frame [OF m1(1), symmetric]) (auto simp: ota_layout_def apart_def)
  then have "image_ok m1 (app_start es)" "image_hdr_at m1 (app_start es) = image_hdr_at m2 (app_start es)"
    using ok(1) image_ok_cong [OF rd] image_hdr_at_cong [OF rd] by simp_all
  then show ?thesis using m1 fr ok(2) by (auto simp: cut_outcome_def)
qed

lemma cut_outcome_app:
  assumes "ota_layout cap nb es" "nvds_view nb m = Some old"
    and "\<And>x. x < app_start es \<or> app_start es + app_size es \<le> x \<Longrightarrow> m1 x = m x"
  shows "cut_outcome nb es old m m1" "nvds_view nb m1 = Some old"
proof -
  have "mem_read m1 nb 12288 = mem_read m nb 12288"
    using assms(1) by (intro mem_read_frame [OF assms(3)]) (auto simp: ota_layout_def)
  then show "nvds_view nb m1 = Some old" using view_cong assms(2) by metis
  then show "cut_outcome nb es old m m1" using assms(3) by (simp add: cut_outcome_def)
qed

lemma verify_ota_cut:
  assumes "dev st = (m, k)" "holds_table m es" "ota_ready m es" "ota_layout cap nb es"
  shows "verify_ota cut_flash (ota_port_init cut_flash nb) st = (OTA_ERR_NONE,
    st\<lparr>partition_info_ota := ota_part es, ota_header := image_hdr_at m (ota_start es)\<rparr>)"
proof -
  have rng: "ota_start es + 256 + image_len (image_hdr_at m (ota_start es)) \<le> cap"
    using ota_ready_hdr [OF assms(3)] assms(3,4) by (simp add: ota_ready_def ota_layout_def)
  show ?thesis
    using plain.verify_total_mem [OF assms(2) _ _ refl _ _ _ rng, of nb "partition_info_ota st" "ota_header st"] assms(1,3,4)
    by (auto simp: verify_ota_def verify_total_cut ota_layout_def ota_ready_def)
qed

lemma restore_finish_cut:
  assumes lay: "ota_layout cap nb es" and d: "dev st = (m2, k)"
    and v: "nvds_view nb m2 = Some old" "take 4 old = nvds_magic"
    and fr: "\<And>x. x < app_start es \<or> app_start es + app_size es \<le> x \<Longrightarrow> m2 x = m x"
    and ok: "0 < k \<Longrightarrow> image_ok m2 (app_start es) \<and> 256 + image_len (image_hdr_at m2 (app_start es)) \<le> app_size es"
    and out: "cut_outcome nb es old m m2"
  shows "cut_outcome nb es old m (fst (dev (snd (restore_finish cut_flash (ota_port_init cut_flash nb) st))))"
proof -
  obtain err st1 where va: "verify_app cut_flash (ota_port_init cut_flash nb) st = (err, st1)" by fastforce
  have d1: "dev st1 = (m2, k)" using verify_app_keeps [OF va] d by simp
  obtain r m1 k1 where set: "ota_upg_state_set cut_flash nb UPG_STATE_RESTORE_OK (m2, k) = (r, (m1, k1))"
    by (metis prod.collapse)
  have "cut_outcome nb es old m m1"
  proof (cases k)
    case 0
    then have "m1 = m2" using set set_item_cut_0 [of nb 20 4 UPG_STATE_RESTORE_OK m2]
      by (auto simp: ota_upg_state_set_def ln_nvds_set_ota_upg_state_def nvds_item_defs split: prod.splits)
    then show ?thesis using out by simp
  next
    case (Suc j)
    then show ?thesis using set_state_outcome [OF lay v fr _ _ set] ok by auto
  qed
  then show ?thesis using va d1 set out
    by (auto simp: restore_finish_def ota_port_init_def jump_to_app_def)
qed

lemma restore_image_cut:
  assumes lay: "ota_layout cap nb es" and rdy: "ota_ready m es" and d: "dev st = (m, k)"
    and v: "nvds_view nb m = Some old" "take 4 old = nvds_magic"
    and st: "partition_info_app st = app_part es" "partition_info_ota st = ota_part es"
      "ota_header st = image_hdr_at m (ota_start es)"
  shows "cut_outcome nb es old m (fst (dev (snd (restore_image xz cut_flash (ota_port_init cut_flash nb)
    (erase_app (ota_port_init cut_flash nb) st)))))"
proof -
  let ?port = "ota_port_init cut_flash nb" and ?h = "image_hdr_at m (ota_start es)"
  have orig: "image_type ?h = IMAGE_TYPE_ORIGINAL" using rdy by (simp add: ota_ready_def)
  let ?st = "st\<lparr>dev := restore_dev ?port es ?h (m, k)\<rparr>"
  have ri: "restore_image xz cut_flash ?port (erase_app ?port st) = restore_finish cut_flash ?port ?st"
    using orig d st by (simp add: restore_image_def Let_def erase_app_def restore_dev_def case_prod_unfold)
      (simp add: orig_image_do_restore_def Let_def case_prod_unfold)
  have tr: "cut_track (app_start es) (app_size es) (restore_dev ?port es ?h) (restore_dev (ota_port_init plain_flash nb) es ?h)"
    using lay rdy by (intro restore_track) (auto simp: ota_ready_def ota_layout_def length_hdr_bytes)
  note pl = restore_plain [OF lay rdy refl]
  show ?thesis
  proof (cases rule: cut_track_cases [OF tr, of m k])
    case (1 m2)
    have fr: "m2 x = m x" if "x < app_start es \<or> app_start es + app_size es \<le> x" for x
      using tr 1(1) that unfolding cut_track_def by blast
    show ?thesis unfolding ri
      using restore_finish_cut [OF lay, of ?st m2 0 old m] cut_outcome_app [OF lay v(1) fr] v(2) fr 1(1) by simp
  next
    case (2 k')
    note fr = restored_mem_outside [OF rdy]
    have "256 + image_len (image_hdr_at (restored_mem es m) (app_start es)) \<le> app_size es"
      using ota_ready_hdr [OF rdy] restored_app_ok(1) [OF rdy] rdy by (simp add: ota_ready_def)
    then show ?thesis unfolding ri
      using restore_finish_cut [OF lay, of ?st "restored_mem es m" "Suc k'" old m] cut_outcome_app [OF lay v(1) fr] v(2) fr
        2 pl restored_app_ok(2) [OF rdy] by simp
  qed
qed

lemma agent_cut:
  fixes st xz
  assumes lay: "ota_layout cap nb es" and tab: "holds_table m es" and rdy: "ota_ready m es"
    and v: "nvds_view nb m = Some old" "take 4 old = nvds_magic" "take 4 (drop 20 old) = le_bytes 4 UPG_STATE_DOWNLOAD_OK"
    and fits: "256 + image_len (image_hdr_at m (app_start es)) \<le> app_size es"
    and d: "dev st = (m, k)"
  shows "cut_outcome nb es old m (fst (dev (snd (ota_boot_upgrade_agent xz cut_flash (ota_port_init cut_flash nb) st))))"
proof -
  let ?port = "ota_port_init cut_flash nb"
  have rng: "app_start es + 256 + image_len (image_hdr_at m (app_start es)) \<le> cap"
    using lay fits by (simp add: ota_layout_def)
  have get: "upg_state_get ?port (m, k) = (True, UPG_STATE_DOWNLOAD_OK)"
    using get_view [OF v(1)] v(3) get_item_cut [of nb 20 4 m k, where 'a = 32]
    by (simp add: ota_port_init_def ota_upg_state_get_def ln_nvds_get_ota_upg_state_def nvds_item_defs)
  obtain err where tv: "verify_total_img_partition plain_flash (ota_port_init plain_flash nb) PARTITION_TYPE_APP
      (partition_info_app st) (app_header st) m = (err, app_part es, image_hdr_at m (app_start es))"
    "err = OTA_ERR_NONE \<longleftrightarrow> image_ok m (app_start es)"
    using plain.verify_total_mem [OF tab _ _ refl _ _ _ rng, of nb "partition_info_app st" "app_header st"] lay
    by (auto simp: ota_layout_def)
  define st1 where "st1 = st\<lparr>partition_info_app := app_part es, app_header := image_hdr_at m (app_start es)\<rparr>"
  define st2 where "st2 = st1\<lparr>partition_info_ota := ota_part es, ota_header := image_hdr_at m (ota_start es)\<rparr>"
  have va: "verify_app cut_flash ?port st = (err, st1)"
    using tv d by (simp add: verify_app_def verify_total_cut st1_def)
  have vo: "verify_ota cut_flash ?port st1 = (OTA_ERR_NONE, st2)"
    using verify_ota_cut [OF _ tab rdy lay, of st1 k] d by (simp add: st1_def st2_def)
  have s2 [simp]: "dev st2 = (m, k)" "partition_info_app st2 = app_part es" "partition_info_ota st2 = ota_part es"
    "app_header st2 = image_hdr_at m (app_start es)" "ota_header st2 = image_hdr_at m (ota_start es)"
    using d by (simp_all add: st2_def st1_def)
  have restore: "cut_outcome nb es old m (fst (dev (snd (restore_image xz cut_flash ?port (erase_app ?port st2)))))"
    by (rule restore_image_cut [OF lay rdy _ v(1,2)]) simp_all
  obtain r m1 k1 where set: "ota_upg_state_set cut_flash nb UPG_STATE_RESTORE_OK (m, k) = (r, (m1, k1))"
    by (metis prod.collapse)
  have stay: "cut_outcome nb es old m m" by (rule cut_outcome_app(1) [OF lay v(1)]) simp
  have "cut_outcome nb es old m m1" if "image_ok m (app_start es)"
    by (rule set_state_outcome [OF lay v(1,2) _ that fits set]) simp
  then have "cut_outcome nb es old m (fst (dev (snd (compare_and_boot xz cut_flash ?port st2))))" if "err = OTA_ERR_NONE"
    using restore set stay tv(2) that
    by (auto simp: compare_and_boot_def Let_def ota_port_init_def jump_to_app_def)
  then show ?thesis using restore get va vo upg_state_ne d
    by (auto simp: ota_boot_upgrade_agent_def)
qed

section \<open>The next boot\<close>

lemma boot_after_cut:
  assumes lay: "ota_layout cap nb es" and tab: "holds_table m es" and rdy: "ota_ready m es"
    and v: "nvds_view nb m = Some old" "take 4 old = nvds_magic" "take 4 (drop 20 old) = le_bytes 4 UPG_STATE_DOWNLOAD_OK"
    and out: "cut_outcome nb es old m m1" and d: "dev st = m1"
  shows "\<exists>st'. ota_boot_upgrade_agent xz plain_flash (ota_port_init plain_flash nb) st = (OTA_ERR_NONE, st')
    \<and> jumps st' = jumps st @ [p_start_addr (app_part es) + 256]"
proof -
  have fr: "mem_read m1 a n = mem_read m a n"
    if "apart (app_start es) (app_size es) a n" "apart a n nb 12288" for a n
    using out that by (intro mem_read_cong) (auto simp: cut_outcome_def apart_def)
  have tab1: "holds_table m1 es"
    using holds_table_cong [of m1 m es] fr lay tab by (simp add: ota_layout_def)
  have rdy1: "ota_ready m1 es"
    using ota_part_frame(1) [of m1 es m] fr lay rdy by (simp add: ota_layout_def)
  show ?thesis
  proof (cases "nvds_view nb m1 = Some old")
    case True
    then have "ota_upg_state_get plain_flash nb m1 = (True, UPG_STATE_DOWNLOAD_OK)" using get_view v(3) by simp
    then show ?thesis using plain.agent_ready [OF lay, of st xz] tab1 rdy1 d by auto
  next
    case False
    then have n: "nvds_view nb m1 = Some (nvds_state_set UPG_STATE_RESTORE_OK old)" "image_ok m1 (app_start es)"
      "256 + image_len (image_hdr_at m1 (app_start es)) \<le> app_size es" using out by (auto simp: cut_outcome_def)
    have "ota_upg_state_get plain_flash nb m1 = (True, UPG_STATE_RESTORE_OK)"
      using get_view [OF n(1)] get_state_set length_view [OF v(1)] by simp
    moreover have "app_start es + 256 + image_len (image_hdr_at m1 (app_start es)) \<le> cap"
      using n(3) lay by (simp add: ota_layout_def)
    ultimately show ?thesis using plain.agent_no_download [OF lay, of st True UPG_STATE_RESTORE_OK xz] tab1 n(2) d upg_state_ne(1)
      by (metis (no_types, lifting))
  qed
qed



end
