(* ===== verification/Fifo.thy ===== *)
theory Fifo
  imports Prelude
begin

text \<open>
  The ring buffer of \<^verbatim>\<open>components/utils/fifo/fifobuf.c\<close>.  The structure holds four addresses, the
  bytes lie in memory, and the end is the last byte of the buffer.  A failed assertion hangs the
  processor and is the result \<open>None\<close>.  Push and pop run in critical sections, so concurrent
  contexts interleave whole operations: a sequence of operations is what any of them sees, and
  the contract of a bounded queue, the locale \<open>bounded_queue\<close>, is carried over to sequences.
\<close>

section \<open>The model\<close>

record FIFOBuffer =
  fb_head :: nat
  fb_tail :: nat
  fb_begin :: nat
  fb_end :: nat

definition fifo_isempty :: "FIFOBuffer \<Rightarrow> bool" where
  "fifo_isempty fb \<longleftrightarrow> fb_head fb = fb_tail fb"

definition fifo_isfull :: "FIFOBuffer \<Rightarrow> bool" where
  "fifo_isfull fb \<longleftrightarrow> fb_head fb = fb_begin fb \<and> fb_tail fb = fb_end fb \<or> int (fb_tail fb) = int (fb_head fb) - 1"

definition fifo_push :: "byte \<Rightarrow> FIFOBuffer \<times> mem \<Rightarrow> (FIFOBuffer \<times> mem) option" where
  "fifo_push c = (\<lambda>(fb, m).
     if \<not> fifo_isfull fb
     then (if fb_begin fb \<le> fb_tail fb \<and> fb_tail fb < fb_end fb
           then Some (fb\<lparr>fb_tail := fb_tail fb + 1\<rparr>, m(fb_tail fb := c))
           else if fb_tail fb = fb_end fb
           then Some (fb\<lparr>fb_tail := fb_begin fb\<rparr>, m(fb_tail fb := c))
           else None)
     else Some (fb, m))"

definition fifo_pop :: "FIFOBuffer \<times> mem \<Rightarrow> (byte \<times> FIFOBuffer \<times> mem) option" where
  "fifo_pop = (\<lambda>(fb, m).
     if \<not> fifo_isempty fb
     then (if fb_begin fb \<le> fb_head fb \<and> fb_head fb < fb_end fb
           then Some (m (fb_head fb), fb\<lparr>fb_head := fb_head fb + 1\<rparr>, m)
           else if fb_head fb = fb_end fb
           then Some (m (fb_end fb), fb\<lparr>fb_head := fb_begin fb\<rparr>, m)
           else None)
     else Some (0, fb, m))"

definition fifo_flush :: "FIFOBuffer \<times> mem \<Rightarrow> FIFOBuffer \<times> mem" where
  "fifo_flush = (\<lambda>(fb, m). (fb\<lparr>fb_head := fb_begin fb, fb_tail := fb_begin fb\<rparr>, m))"

text \<open>With the interrupts masked around it.\<close>

definition fifo_isfull_locked :: "FIFOBuffer \<Rightarrow> bool" where
  "fifo_isfull_locked fb = fifo_isfull fb"

definition fifo_init :: "nat \<Rightarrow> nat \<Rightarrow> FIFOBuffer option" where
  "fifo_init buf n = (if n > 1
     then Some \<lparr>fb_head = buf, fb_tail = buf, fb_begin = buf, fb_end = buf + n - 1\<rparr> else None)"

definition fifo_len :: "FIFOBuffer \<Rightarrow> nat" where
  "fifo_len fb = fb_end fb - fb_begin fb + 1"

section \<open>Bounded queues\<close>

datatype queue_op = Push byte | Pop | Flush

text \<open>What a bounded queue does on lists: a push to a full queue is dropped, a pop of an empty one
  returns zero.\<close>

fun spec_op :: "nat \<Rightarrow> queue_op \<Rightarrow> byte list \<Rightarrow> byte list \<times> byte list" where
  "spec_op n (Push c) q = ([], if length q < n then q @ [c] else q)"
| "spec_op n Pop q = ([case q of [] \<Rightarrow> 0 | b # _ \<Rightarrow> b], tl q)"
| "spec_op n Flush q = ([], [])"

primrec spec_run :: "nat \<Rightarrow> queue_op list \<Rightarrow> byte list \<Rightarrow> byte list \<times> byte list" where
  "spec_run n [] q = ([], q)"
| "spec_run n (x # xs) q = (let (out1, q1) = spec_op n x q; (out2, q2) = spec_run n xs q1 in (out1 @ out2, q2))"

text \<open>A sequence of operations on any implementation.\<close>

fun queue_step :: "(byte \<Rightarrow> 'q \<Rightarrow> 'q option) \<Rightarrow> ('q \<Rightarrow> (byte \<times> 'q) option) \<Rightarrow> ('q \<Rightarrow> 'q) \<Rightarrow> queue_op \<Rightarrow> 'q \<Rightarrow> (byte list \<times> 'q) option" where
  "queue_step push pop flush (Push c) q = map_option (\<lambda>q'. ([], q')) (push c q)"
| "queue_step push pop flush Pop q = map_option (\<lambda>(b, q'). ([b], q')) (pop q)"
| "queue_step push pop flush Flush q = Some ([], flush q)"

primrec queue_run :: "(byte \<Rightarrow> 'q \<Rightarrow> 'q option) \<Rightarrow> ('q \<Rightarrow> (byte \<times> 'q) option) \<Rightarrow> ('q \<Rightarrow> 'q) \<Rightarrow> queue_op list \<Rightarrow> 'q \<Rightarrow> (byte list \<times> 'q) option" where
  "queue_run push pop flush [] q = Some ([], q)"
| "queue_run push pop flush (x # xs) q =
     (case queue_step push pop flush x q of None \<Rightarrow> None
      | Some (out1, q1) \<Rightarrow> (case queue_run push pop flush xs q1 of None \<Rightarrow> None
         | Some (out2, q2) \<Rightarrow> Some (out1 @ out2, q2)))"

locale bounded_queue =
  fixes push :: "byte \<Rightarrow> 'q \<Rightarrow> 'q option" and pop :: "'q \<Rightarrow> (byte \<times> 'q) option" and flush :: "'q \<Rightarrow> 'q"
    and q_inv :: "'q \<Rightarrow> bool" and q_abs :: "'q \<Rightarrow> byte list" and q_cap :: "'q \<Rightarrow> nat"
  assumes push_law: "q_inv q \<Longrightarrow> \<exists>q'. push c q = Some q' \<and> q_inv q' \<and> q_cap q' = q_cap q
      \<and> q_abs q' = (if length (q_abs q) < q_cap q then q_abs q @ [c] else q_abs q)"
    and pop_law: "q_inv q \<Longrightarrow> \<exists>q'. pop q = Some (case q_abs q of [] \<Rightarrow> 0 | b # _ \<Rightarrow> b, q')
      \<and> q_inv q' \<and> q_cap q' = q_cap q \<and> q_abs q' = tl (q_abs q)"
    and flush_law: "q_inv q \<Longrightarrow> q_inv (flush q) \<and> q_cap (flush q) = q_cap q \<and> q_abs (flush q) = []"
    and cap_law: "q_inv q \<Longrightarrow> length (q_abs q) \<le> q_cap q"
begin

lemma op_refines:
  assumes "q_inv q"
  shows "\<exists>out q'. queue_step push pop flush x q = Some (out, q') \<and> q_inv q' \<and> q_cap q' = q_cap q
    \<and> spec_op (q_cap q) x (q_abs q) = (out, q_abs q')"
  using push_law [OF assms] pop_law [OF assms] flush_law [OF assms]
  by (cases x) (auto simp del: split_paired_Ex, force+)

lemma run_refines:
  "q_inv q \<Longrightarrow> \<exists>out q'. queue_run push pop flush xs q = Some (out, q') \<and> q_inv q' \<and> q_cap q' = q_cap q
    \<and> spec_run (q_cap q) xs (q_abs q) = (out, q_abs q')"
proof (induction xs arbitrary: q)
  case Nil
  then show ?case by simp
next
  case (Cons x xs)
  obtain o1 q1 where 1: "queue_step push pop flush x q = Some (o1, q1)" "q_inv q1" "q_cap q1 = q_cap q"
    "spec_op (q_cap q) x (q_abs q) = (o1, q_abs q1)" using op_refines [OF Cons.prems] by blast
  obtain o2 q2 where "queue_run push pop flush xs q1 = Some (o2, q2)" "q_inv q2" "q_cap q2 = q_cap q1"
    "spec_run (q_cap q1) xs (q_abs q1) = (o2, q_abs q2)" using Cons.IH [OF 1(2)] by blast
  then show ?case using 1 by simp
qed

text \<open>Bytes popped one after the other.\<close>

lemma pop_next: "q_inv q \<Longrightarrow> q_abs q = b # bs \<Longrightarrow> \<exists>q'. pop q = Some (b, q') \<and> q_inv q' \<and> q_abs q' = bs \<and> q_cap q' = q_cap q"
  using pop_law [of q] by auto

end

section \<open>The ring buffer is a bounded queue\<close>

definition fifo_ok :: "FIFOBuffer \<Rightarrow> bool" where
  "fifo_ok fb \<longleftrightarrow> fb_begin fb < fb_end fb \<and> fb_begin fb \<le> fb_head fb \<and> fb_head fb \<le> fb_end fb
     \<and> fb_begin fb \<le> fb_tail fb \<and> fb_tail fb \<le> fb_end fb"

definition fifo_abs :: "FIFOBuffer \<times> mem \<Rightarrow> byte list" where
  "fifo_abs = (\<lambda>(fb, m). if fb_head fb \<le> fb_tail fb then mem_read m (fb_head fb) (fb_tail fb - fb_head fb)
     else mem_read m (fb_head fb) (fb_end fb + 1 - fb_head fb) @ mem_read m (fb_begin fb) (fb_tail fb - fb_begin fb))"

definition fifo_cap :: "FIFOBuffer \<times> mem \<Rightarrow> nat" where
  "fifo_cap = (\<lambda>(fb, m). fb_end fb - fb_begin fb)"

lemma mem_read_Suc: "mem_read m a (Suc n) = mem_read m a n @ [m (a + n)]"
  by (simp add: mem_read_def)

lemma mem_read_Cons: "mem_read m a (Suc n) = m a # mem_read m (Suc a) n"
  by (simp add: mem_read_def upt_rec)

lemma mem_read_upd: "x < a \<or> a + n \<le> x \<Longrightarrow> mem_read (m(x := c)) a n = mem_read m a n"
  by (rule mem_read_cong) auto

lemma fifo_full_iff: "fifo_ok fb \<Longrightarrow> fifo_isfull fb \<longleftrightarrow> length (fifo_abs (fb, m)) = fifo_cap (fb, m)"
  by (auto simp: fifo_ok_def fifo_isfull_def fifo_abs_def fifo_cap_def)

lemma fifo_empty_iff: "fifo_ok fb \<Longrightarrow> fifo_isempty fb \<longleftrightarrow> fifo_abs (fb, m) = []"
  by (auto simp: fifo_ok_def fifo_isempty_def fifo_abs_def mem_read_def)

lemma fifo_abs_le: "fifo_ok fb \<Longrightarrow> length (fifo_abs (fb, m)) \<le> fifo_cap (fb, m)"
  by (auto simp: fifo_ok_def fifo_abs_def fifo_cap_def)

lemma fifo_push_abs:
  assumes ok: "fifo_ok fb" and nf: "\<not> fifo_isfull fb"
  shows "\<exists>fb' . fifo_push c (fb, m) = Some (fb', m(fb_tail fb := c)) \<and> fifo_ok fb' \<and> fb_begin fb' = fb_begin fb
    \<and> fb_end fb' = fb_end fb \<and> fb_head fb' = fb_head fb \<and> fifo_abs (fb', m(fb_tail fb := c)) = fifo_abs (fb, m) @ [c]"
proof (cases "fb_tail fb = fb_end fb")
  case True
  then have "fb_begin fb < fb_head fb" using ok nf by (auto simp: fifo_ok_def fifo_isfull_def)
  then show ?thesis using True ok nf
    by (auto simp: fifo_push_def fifo_ok_def fifo_abs_def mem_read_Suc [symmetric] Suc_diff_le mem_read_upd mem_read_Suc)
next
  case False
  then have t: "fb_begin fb \<le> fb_tail fb" "fb_tail fb < fb_end fb" "fb_head fb \<noteq> Suc (fb_tail fb)"
    using ok nf by (auto simp: fifo_ok_def fifo_isfull_def)
  then show ?thesis using ok nf
    by (auto simp: fifo_push_def fifo_ok_def fifo_abs_def Suc_diff_le mem_read_Suc mem_read_upd)
qed

lemma fifo_pop_abs:
  assumes ok: "fifo_ok fb" and ne: "\<not> fifo_isempty fb"
  shows "\<exists>fb'. fifo_pop (fb, m) = Some (hd (fifo_abs (fb, m)), fb', m) \<and> fifo_ok fb' \<and> fb_begin fb' = fb_begin fb
    \<and> fb_end fb' = fb_end fb \<and> fb_tail fb' = fb_tail fb \<and> fifo_abs (fb', m) = tl (fifo_abs (fb, m))"
proof -
  obtain k where k: "fb_head fb < fb_tail fb \<longrightarrow> fb_tail fb - fb_head fb = Suc k" by (metis Suc_diff_Suc)
  obtain j where j: "fb_end fb + 1 - fb_head fb = Suc j" using ok by (auto simp: fifo_ok_def) (metis Suc_diff_le)
  show ?thesis
    using ok ne k j by (auto simp: fifo_pop_def fifo_ok_def fifo_isempty_def fifo_abs_def mem_read_Cons
        intro!: arg_cong [of _ _ "mem_read m (Suc (fb_head fb))"])
qed

interpretation fifo: bounded_queue fifo_push fifo_pop fifo_flush "\<lambda>(fb, m). fifo_ok fb" fifo_abs fifo_cap
proof unfold_locales
  fix q :: "FIFOBuffer \<times> mem" and c
  obtain fb m where q: "q = (fb, m)" by (cases q)
  assume "case q of (fb, m) \<Rightarrow> fifo_ok fb"
  then have ok: "fifo_ok fb" by (simp add: q)
  show "\<exists>q'. fifo_push c q = Some q' \<and> (case q' of (fb, m) \<Rightarrow> fifo_ok fb) \<and> fifo_cap q' = fifo_cap q
      \<and> fifo_abs q' = (if length (fifo_abs q) < fifo_cap q then fifo_abs q @ [c] else fifo_abs q)"
  proof (cases "fifo_isfull fb")
    case True
    then have "fifo_push c q = Some q" by (simp add: q fifo_push_def)
    then show ?thesis using ok fifo_full_iff [OF ok] True q by auto
  next
    case False
    then show ?thesis using fifo_push_abs [OF ok False, of c m] fifo_full_iff [OF ok, of m] fifo_abs_le [OF ok, of m]
      by (auto simp: q fifo_cap_def)
  qed
  show "\<exists>q'. fifo_pop q = Some (case fifo_abs q of [] \<Rightarrow> 0 | b # _ \<Rightarrow> b, q') \<and> (case q' of (fb, m) \<Rightarrow> fifo_ok fb)
      \<and> fifo_cap q' = fifo_cap q \<and> fifo_abs q' = tl (fifo_abs q)"
  proof (cases "fifo_isempty fb")
    case True
    then show ?thesis using ok fifo_empty_iff [OF ok, of m] by (simp add: q fifo_pop_def)
  next
    case False
    then show ?thesis using fifo_pop_abs [OF ok False, of m] fifo_empty_iff [OF ok, of m]
      by (auto simp: q fifo_cap_def split: list.splits)
  qed
  show "(case fifo_flush q of (fb, m) \<Rightarrow> fifo_ok fb) \<and> fifo_cap (fifo_flush q) = fifo_cap q \<and> fifo_abs (fifo_flush q) = []"
    using ok by (simp add: q fifo_flush_def fifo_ok_def fifo_cap_def fifo_abs_def)
  show "length (fifo_abs q) \<le> fifo_cap q" using fifo_abs_le [OF ok] by (simp add: q)
qed

section \<open>What the ring buffer promises\<close>

text \<open>C26: Every sequence of pushes, pops and flushes on an initialised ring buffer, in any order and number,
  runs without a failed assertion and returns what a bounded queue of one byte less than the
  buffer returns: bytes come out in the order they went in, a push to a full buffer is dropped
  and a pop of an empty one returns zero.\<close>

theorem fifo_refines_queue:
  assumes "fifo_init buf n = Some fb"
  shows "\<exists>fb' m'. queue_run fifo_push fifo_pop fifo_flush xs (fb, m) = Some (fst (spec_run (n - 1) xs []), (fb', m'))
    \<and> fifo_ok fb' \<and> fifo_abs (fb', m') = snd (spec_run (n - 1) xs [])"
proof -
  have "fifo_ok fb" "fifo_cap (fb, m) = n - 1" "fifo_abs (fb, m) = []"
    using assms by (auto simp: fifo_init_def fifo_ok_def fifo_cap_def fifo_abs_def split: if_splits)
  then show ?thesis using fifo.run_refines [of "(fb, m)" xs] by auto
qed

theorem fifo_refines_queue_witness:
  "\<exists>fb' m'. queue_run fifo_push fifo_pop fifo_flush [Push 1, Push 2, Push 3, Pop, Push 4, Pop, Pop, Pop]
     (\<lparr>fb_head = 100, fb_tail = 100, fb_begin = 100, fb_end = 102\<rparr>, \<lambda>_. 0) = Some ([1, 2, 4, 0], (fb', m')) \<and> fifo_ok fb'"
  using fifo_refines_queue [of 100 3 _ "[Push 1, Push 2, Push 3, Pop, Push 4, Pop, Pop, Pop]" "\<lambda>_. 0"]
  by (auto simp: fifo_init_def)

text \<open>A push writes no byte outside the buffer, and reading operations write none at all.\<close>

lemma fifo_push_bounds:
  assumes "fifo_ok fb" "fifo_push c (fb, m) = Some (fb', m')" "x < fb_begin fb \<or> fb_begin fb + fifo_len fb \<le> x"
  shows "m' x = m x \<and> fifo_ok fb' \<and> fb_begin fb' = fb_begin fb \<and> fifo_len fb' = fifo_len fb"
proof (cases "fifo_isfull fb")
  case True
  then show ?thesis using assms by (simp add: fifo_push_def)
next
  case False
  then show ?thesis using fifo_push_abs [OF assms(1) False, of c m] assms
    by (auto simp: fifo_len_def fifo_ok_def)
qed

lemma fifo_push_bounds_witness:
  "(\<lambda>_. 0 :: byte) (103 :: nat) = 0 \<and> fifo_ok \<lparr>fb_head = 101, fb_tail = 100, fb_begin = 100, fb_end = 102\<rparr>"
  using fifo_push_bounds [of "\<lparr>fb_head = 101, fb_tail = 102, fb_begin = 100, fb_end = 102\<rparr>" 7 "\<lambda>_. 0"
      "\<lparr>fb_head = 101, fb_tail = 100, fb_begin = 100, fb_end = 102\<rparr>" "(\<lambda>_. 0)(102 := 7)" 103]
  by (simp add: fifo_ok_def fifo_push_def fifo_isfull_def fifo_len_def)

end
