(* ===== verification/Serial.thy ===== *)
theory Serial
  imports Fifo "HOL-Library.Monad_Syntax"
begin

text \<open>
  The serial driver, \<^verbatim>\<open>components/serial/serial.c\<close>, over the UART glue of
  \<^verbatim>\<open>project/wifi_mcu_basic_example/bsp/serial_hw.c\<close>, with both ways to transmit: polling, which
  the tables of the project select, and by interrupt.  The state of a port holds its two ring
  buffers, the memory they lie in, the driver's flags and the bytes handed to the UART in order.
  A failed assertion, and a loop that does not end, is \<open>None\<close>.  The second part is a state
  machine of one task that sends and the interrupts that come between its steps.
\<close>

section \<open>The model\<close>

record serial =
  port_id :: nat
  is_open :: bool
  txfifo :: FIFOBuffer
  rxfifo :: FIFOBuffer
  smem :: mem
  status :: u32
  isSending :: bool
  thre_irq :: bool
  wire :: "byte list"
  rx_calls :: nat

datatype tx_mode = Polling | Isr

text \<open>What the loop of \<open>hw_uart_txStartPolling\<close> does; it ends when the buffer is empty.\<close>

partial_function (option) hw_uart_txStartPolling :: "serial \<Rightarrow> serial option" where
  "hw_uart_txStartPolling s =
     (if fifo_isempty (txfifo s) then Some s
      else case fifo_pop (txfifo s, smem s) of None \<Rightarrow> None
        | Some (ch, fb, m) \<Rightarrow> hw_uart_txStartPolling (s\<lparr>txfifo := fb, wire := wire s @ [ch]\<rparr>))"

definition hw_uart_txStartIsr :: "serial \<Rightarrow> serial" where
  "hw_uart_txStartIsr s =
     (if isSending s then s
      else if \<not> fifo_isempty (txfifo s) then s\<lparr>isSending := True, thre_irq := True\<rparr> else s)"

definition hw_uart_txIsSending :: "serial \<Rightarrow> bool" where
  "hw_uart_txIsSending s = isSending s"

definition txStart :: "tx_mode \<Rightarrow> serial \<Rightarrow> serial option" where
  "txStart mode s = (case mode of Polling \<Rightarrow> hw_uart_txStartPolling s | Isr \<Rightarrow> Some (hw_uart_txStartIsr s))"

definition serial_purgeRx :: "serial \<Rightarrow> serial" where
  "serial_purgeRx s = s\<lparr>rxfifo := fst (fifo_flush (rxfifo s, smem s))\<rparr>"

definition serial_purgeTx :: "serial \<Rightarrow> serial" where
  "serial_purgeTx s = s\<lparr>txfifo := fst (fifo_flush (txfifo s, smem s))\<rparr>"

definition serial_purge :: "serial \<Rightarrow> serial" where
  "serial_purge s = serial_purgeTx (serial_purgeRx s)"

definition push_tx :: "byte \<Rightarrow> serial \<Rightarrow> serial option" where
  "push_tx c s = map_option (\<lambda>(fb, m). s\<lparr>txfifo := fb, smem := m\<rparr>) (fifo_push c (txfifo s, smem s))"

definition push_rx :: "byte \<Rightarrow> serial \<Rightarrow> serial option" where
  "push_rx c s = map_option (\<lambda>(fb, m). s\<lparr>rxfifo := fb, smem := m\<rparr>) (fifo_push c (rxfifo s, smem s))"

definition serial_putchar :: "tx_mode \<Rightarrow> byte \<Rightarrow> serial \<Rightarrow> (int \<times> serial) option" where
  "serial_putchar mode c s = do {
     s \<leftarrow> (if fifo_isfull_locked (txfifo s) then txStart mode s else Some s);
     s \<leftarrow> push_tx c s;
     s \<leftarrow> txStart mode s;
     Some (uint c, s) }"

definition EOF :: int where "EOF = - 1"

definition serial_getchar_nowait :: "serial \<Rightarrow> (int \<times> serial) option" where
  "serial_getchar_nowait s =
     (if fifo_isempty (rxfifo s) then Some (EOF, s)
      else map_option (\<lambda>(c, fb, m). (uint c, s\<lparr>rxfifo := fb\<rparr>)) (fifo_pop (rxfifo s, smem s)))"

text \<open>The bytes read, in order; their number is the result.\<close>

primrec serial_read :: "nat \<Rightarrow> serial \<Rightarrow> (byte list \<times> serial) option" where
  "serial_read 0 s = Some ([], s)"
| "serial_read (Suc n) s = do {
     (c, s') \<leftarrow> serial_getchar_nowait s;
     if c = EOF then Some ([], s')
     else do { (bs, s'') \<leftarrow> serial_read n s'; Some (of_int c # bs, s'') } }"

primrec serial_write :: "tx_mode \<Rightarrow> byte list \<Rightarrow> serial \<Rightarrow> (nat \<times> serial) option" where
  "serial_write mode [] s = Some (0, s)"
| "serial_write mode (b # bs) s = do {
     (c, s) \<leftarrow> serial_putchar mode b s;
     if c = EOF then Some (0, s)
     else do { (i, s) \<leftarrow> serial_write mode bs s; Some (Suc i, s) } }"

text \<open>The interrupt handlers' callbacks.\<close>

definition uart0_SendDataIrqCallback :: "serial \<Rightarrow> serial option" where
  "uart0_SendDataIrqCallback s =
     (if fifo_isempty (txfifo s) then Some (s\<lparr>thre_irq := False, isSending := False\<rparr>)
      else map_option (\<lambda>(tx_char, fb, m). s\<lparr>txfifo := fb, wire := wire s @ [tx_char]\<rparr>) (fifo_pop (txfifo s, smem s)))"

text \<open>A loop that purges while the buffer is full: a purged buffer is not full, as the assertion of
  \<open>fifo_init\<close> gives it two bytes.\<close>

partial_function (option) purge_while_full :: "serial \<Rightarrow> serial option" where
  "purge_while_full s = (if fifo_isfull_locked (rxfifo s) then purge_while_full (serial_purgeRx s) else Some s)"

definition uart0_RecvDataIrqCallback :: "byte \<Rightarrow> serial \<Rightarrow> serial option" where
  "uart0_RecvDataIrqCallback ch s = do {
     s \<leftarrow> purge_while_full s;
     s \<leftarrow> push_rx ch s;
     Some (s\<lparr>rx_calls := rx_calls s + 1\<rparr>) }"

text \<open>The second port: what is popped goes to the argument, what is sent is a variable that is zero.\<close>

definition uart1_SendDataIrqCallback :: "serial \<Rightarrow> serial option" where
  "uart1_SendDataIrqCallback s =
     (if fifo_isempty (txfifo s) then Some (s\<lparr>thre_irq := False, isSending := False\<rparr>)
      else map_option (\<lambda>(ch, fb, m). s\<lparr>txfifo := fb, wire := wire s @ [0]\<rparr>) (fifo_pop (txfifo s, smem s)))"

definition uart1_RecvDataIrqCallback :: "byte \<Rightarrow> serial \<Rightarrow> serial option" where
  "uart1_RecvDataIrqCallback ch s = do {
     s \<leftarrow> push_rx ch (if fifo_isfull_locked (rxfifo s) then serial_purgeRx s else s);
     Some (if ch = 0x0A then s\<lparr>rx_calls := rx_calls s + 1\<rparr> else s) }"

text \<open>A port's buffers, as the hardware description gives them, and opening it.\<close>

record serial_hw =
  txbuffer :: nat
  rxbuffer :: nat
  txbuffer_size :: nat
  rxbuffer_size :: nat

definition SER_PORT_NUM :: nat where "SER_PORT_NUM = 2"

definition serial_open :: "serial_hw \<Rightarrow> nat \<Rightarrow> serial \<Rightarrow> serial option" where
  "serial_open hw port s =
     (if port < SER_PORT_NUM \<and> \<not> is_open s \<and> txbuffer hw \<noteq> 0 \<and> rxbuffer hw \<noteq> 0
      then do {
        tx \<leftarrow> fifo_init (txbuffer hw) (txbuffer_size hw);
        rx \<leftarrow> fifo_init (rxbuffer hw) (rxbuffer_size hw);
        Some (s\<lparr>is_open := True, port_id := port, txfifo := tx, rxfifo := rx, status := 0\<rparr>) }
      else None)"

text \<open>The structure is cleared; the flags of the hardware and the memory are not part of it.\<close>

definition serial_init :: "serial_hw \<Rightarrow> nat \<Rightarrow> serial \<Rightarrow> serial option" where
  "serial_init hw port s =
     (let z = \<lparr>fb_head = 0, fb_tail = 0, fb_begin = 0, fb_end = 0\<rparr>
      in serial_open hw port (s\<lparr>port_id := 0, is_open := False, txfifo := z, rxfifo := z, status := 0\<rparr>))"

text \<open>Waiting for the transmitter: between two looks at the flags the world does a step.\<close>

primrec serial_flush :: "(serial \<Rightarrow> serial option) \<Rightarrow> nat \<Rightarrow> serial \<Rightarrow> serial option" where
  "serial_flush world 0 s = None"
| "serial_flush world (Suc n) s =
     (if \<not> fifo_isempty (txfifo s) \<or> hw_uart_txIsSending s then world s \<bind> serial_flush world n else Some s)"

end
