(* ===== verification/Serial_Props.thy ===== *)
theory Serial_Props
  imports Serial
begin

text \<open>
  What the serial driver promises: what is written is sent in order, by polling at once and by
  interrupt without a stall; what was received is read in order.
\<close>

section \<open>Ports in good order\<close>

abbreviation tx_bytes :: "serial \<Rightarrow> byte list" where
  "tx_bytes s \<equiv> fifo_abs (txfifo s, smem s)"

abbreviation rx_bytes :: "serial \<Rightarrow> byte list" where
  "rx_bytes s \<equiv> fifo_abs (rxfifo s, smem s)"

definition serial_ok :: "serial \<Rightarrow> bool" where
  "serial_ok s \<longleftrightarrow> fifo_ok (txfifo s) \<and> fifo_ok (rxfifo s)
     \<and> (fb_end (txfifo s) < fb_begin (rxfifo s) \<or> fb_end (rxfifo s) < fb_begin (txfifo s))"

lemma fifo_abs_cong:
  assumes "fifo_ok fb" "\<And>x. fb_begin fb \<le> x \<Longrightarrow> x \<le> fb_end fb \<Longrightarrow> m' x = m x"
  shows "fifo_abs (fb, m') = fifo_abs (fb, m)"
proof -
  have 1: "mem_read m' (fb_head fb) (fb_tail fb - fb_head fb) = mem_read m (fb_head fb) (fb_tail fb - fb_head fb)"
    using assms by (intro mem_read_cong) (auto simp: fifo_ok_def)
  have 2: "mem_read m' (fb_head fb) (fb_end fb + 1 - fb_head fb) = mem_read m (fb_head fb) (fb_end fb + 1 - fb_head fb)"
    using assms by (intro mem_read_cong) (auto simp: fifo_ok_def)
  have 3: "mem_read m' (fb_begin fb) (fb_tail fb - fb_begin fb) = mem_read m (fb_begin fb) (fb_tail fb - fb_begin fb)"
    using assms by (intro mem_read_cong) (auto simp: fifo_ok_def)
  show ?thesis using 1 2 3 by (simp add: fifo_abs_def)
qed

lemma push_tx_ok:
  assumes "serial_ok s"
  shows "\<exists>s'. push_tx c s = Some s' \<and> serial_ok s' \<and> rx_bytes s' = rx_bytes s \<and> wire s' = wire s
    \<and> isSending s' = isSending s \<and> thre_irq s' = thre_irq s
    \<and> tx_bytes s' = (if fifo_isfull (txfifo s) then tx_bytes s else tx_bytes s @ [c])"
proof (cases "fifo_isfull (txfifo s)")
  case True
  then show ?thesis using assms by (simp add: push_tx_def fifo_push_def)
next
  case False
  have ok: "fifo_ok (txfifo s)" "fifo_ok (rxfifo s)" using assms by (simp_all add: serial_ok_def)
  obtain fb where fb: "fifo_push c (txfifo s, smem s) = Some (fb, (smem s)(fb_tail (txfifo s) := c))" "fifo_ok fb"
    "fb_begin fb = fb_begin (txfifo s)" "fb_end fb = fb_end (txfifo s)"
    "fifo_abs (fb, (smem s)(fb_tail (txfifo s) := c)) = tx_bytes s @ [c]"
    using fifo_push_abs [OF ok(1) False] by blast
  have "fifo_abs (rxfifo s, (smem s)(fb_tail (txfifo s) := c)) = rx_bytes s"
    using assms ok by (intro fifo_abs_cong) (auto simp: serial_ok_def fifo_ok_def)
  then show ?thesis using fb False assms by (auto simp: push_tx_def serial_ok_def)
qed

lemma push_rx_ok:
  assumes "serial_ok s"
  shows "\<exists>s'. push_rx c s = Some s' \<and> serial_ok s' \<and> tx_bytes s' = tx_bytes s \<and> wire s' = wire s
    \<and> isSending s' = isSending s \<and> thre_irq s' = thre_irq s \<and> txfifo s' = txfifo s \<and> rx_calls s' = rx_calls s
    \<and> rx_bytes s' = (if fifo_isfull (rxfifo s) then rx_bytes s else rx_bytes s @ [c])"
proof (cases "fifo_isfull (rxfifo s)")
  case True
  then show ?thesis using assms by (simp add: push_rx_def fifo_push_def)
next
  case False
  have ok: "fifo_ok (txfifo s)" "fifo_ok (rxfifo s)" using assms by (simp_all add: serial_ok_def)
  obtain fb where fb: "fifo_push c (rxfifo s, smem s) = Some (fb, (smem s)(fb_tail (rxfifo s) := c))" "fifo_ok fb"
    "fb_begin fb = fb_begin (rxfifo s)" "fb_end fb = fb_end (rxfifo s)"
    "fifo_abs (fb, (smem s)(fb_tail (rxfifo s) := c)) = rx_bytes s @ [c]"
    using fifo_push_abs [OF ok(2) False] by blast
  have "fifo_abs (txfifo s, (smem s)(fb_tail (rxfifo s) := c)) = tx_bytes s"
    using assms ok by (intro fifo_abs_cong) (auto simp: serial_ok_def fifo_ok_def)
  then show ?thesis using fb False assms by (auto simp: push_rx_def serial_ok_def)
qed

section \<open>Sending by polling\<close>

lemma polling_drains:
  "serial_ok s \<Longrightarrow> \<exists>s'. hw_uart_txStartPolling s = Some s' \<and> serial_ok s' \<and> wire s' = wire s @ tx_bytes s
    \<and> tx_bytes s' = [] \<and> rx_bytes s' = rx_bytes s"
proof (induction "length (tx_bytes s)" arbitrary: s)
  case 0
  then have "fifo_isempty (txfifo s)" using fifo_empty_iff by (simp add: serial_ok_def)
  then show ?case using 0 by (subst hw_uart_txStartPolling.simps) simp
next
  case (Suc n)
  have ok: "fifo_ok (txfifo s)" using Suc.prems by (simp add: serial_ok_def)
  have ne: "\<not> fifo_isempty (txfifo s)" "tx_bytes s \<noteq> []" using fifo_empty_iff [OF ok, of "smem s"] Suc.hyps(2) by auto
  obtain fb where fb: "fifo_pop (txfifo s, smem s) = Some (hd (tx_bytes s), fb, smem s)" "fifo_ok fb"
    "fb_begin fb = fb_begin (txfifo s)" "fb_end fb = fb_end (txfifo s)" "fifo_abs (fb, smem s) = tl (tx_bytes s)"
    using fifo_pop_abs [OF ok ne(1)] by blast
  let ?s = "s\<lparr>txfifo := fb, wire := wire s @ [hd (tx_bytes s)]\<rparr>"
  have "serial_ok ?s" using Suc.prems fb by (simp add: serial_ok_def)
  moreover have "n = length (tx_bytes ?s)" using fb(5) Suc.hyps(2) by simp
  ultimately obtain s' where "hw_uart_txStartPolling ?s = Some s'" "serial_ok s'" "wire s' = wire ?s @ tx_bytes ?s"
    "tx_bytes s' = []" "rx_bytes s' = rx_bytes ?s" using Suc.hyps(1) [of ?s] by blast
  then show ?case using ne fb by (subst hw_uart_txStartPolling.simps) simp
qed

lemma not_full_empty: "fifo_ok fb \<Longrightarrow> fifo_abs (fb, m) = [] \<Longrightarrow> \<not> fifo_isfull fb"
  using fifo_full_iff [of fb m] by (auto simp: fifo_cap_def fifo_ok_def)

lemma putchar_polling:
  assumes "serial_ok s"
  shows "\<exists>s'. serial_putchar Polling c s = Some (uint c, s') \<and> serial_ok s' \<and> tx_bytes s' = []
    \<and> wire s' = wire s @ tx_bytes s @ [c] \<and> rx_bytes s' = rx_bytes s"
proof -
  obtain s1 where s1: "(if fifo_isfull_locked (txfifo s) then txStart Polling s else Some s) = Some s1" "serial_ok s1"
    "wire s1 @ tx_bytes s1 = wire s @ tx_bytes s" "\<not> fifo_isfull (txfifo s1)" "rx_bytes s1 = rx_bytes s"
  proof (cases "fifo_isfull_locked (txfifo s)")
    case True
    obtain s' where s': "hw_uart_txStartPolling s = Some s'" "serial_ok s'" "wire s' = wire s @ tx_bytes s"
      "tx_bytes s' = []" "rx_bytes s' = rx_bytes s" using polling_drains [OF assms] by blast
    then have "\<not> fifo_isfull (txfifo s')" using not_full_empty by (auto simp: serial_ok_def)
    then show ?thesis using that [of s'] True s' by (simp add: txStart_def)
  next
    case False
    then show ?thesis using that [of s] assms by (simp add: fifo_isfull_locked_def)
  qed
  obtain s2 where s2: "push_tx c s1 = Some s2" "serial_ok s2" "rx_bytes s2 = rx_bytes s1" "wire s2 = wire s1"
    "tx_bytes s2 = tx_bytes s1 @ [c]" using push_tx_ok [OF s1(2), of c] s1(4) by auto
  obtain s3 where "hw_uart_txStartPolling s2 = Some s3" "serial_ok s3" "wire s3 = wire s2 @ tx_bytes s2"
    "tx_bytes s3 = []" "rx_bytes s3 = rx_bytes s2" using polling_drains [OF s2(2)] by blast
  then show ?thesis using s1 s2 by (simp add: serial_putchar_def txStart_def)
qed

lemma uint_ne_EOF: "uint (c :: byte) \<noteq> EOF"
  unfolding EOF_def using uint_ge_0 [of c] by linarith

lemma write_polling:
  "serial_ok s \<Longrightarrow> \<exists>s'. serial_write Polling bs s = Some (length bs, s') \<and> serial_ok s'
    \<and> wire s' @ tx_bytes s' = wire s @ tx_bytes s @ bs \<and> (bs \<noteq> [] \<longrightarrow> tx_bytes s' = []) \<and> rx_bytes s' = rx_bytes s"
proof (induction bs arbitrary: s)
  case Nil
  then show ?case by simp
next
  case (Cons b bs)
  obtain s1 where s1: "serial_putchar Polling b s = Some (uint b, s1)" "serial_ok s1" "tx_bytes s1 = []"
    "wire s1 = wire s @ tx_bytes s @ [b]" "rx_bytes s1 = rx_bytes s" using putchar_polling [OF Cons.prems] by blast
  obtain s2 where s2: "serial_write Polling bs s1 = Some (length bs, s2)" "serial_ok s2"
    "wire s2 @ tx_bytes s2 = wire s1 @ tx_bytes s1 @ bs" "bs \<noteq> [] \<longrightarrow> tx_bytes s2 = []" "rx_bytes s2 = rx_bytes s1"
    using Cons.IH [OF s1(2)] by blast
  have "tx_bytes s2 = []" using s2(1,4) s1(3) by (cases "bs = []") auto
  then show ?case using s1 s2 uint_ne_EOF [of b] by simp
qed

text \<open>In polling mode a write of any length returns, reports every byte written, and has handed the
  UART what was pending and then all of it in order, whatever the size of the buffer.\<close>

lemma serial_write_sends_all:
  assumes "serial_ok s" "bs \<noteq> []"
  shows "\<exists>s'. serial_write Polling bs s = Some (length bs, s') \<and> wire s' = wire s @ tx_bytes s @ bs
    \<and> tx_bytes s' = [] \<and> rx_bytes s' = rx_bytes s \<and> serial_ok s'"
  using write_polling [OF assms(1), of bs] assms(2) by auto

text \<open>A port as \<open>serial_init\<close> opens it, for the witnesses.\<close>

definition demo_hw :: serial_hw where
  "demo_hw = \<lparr>txbuffer = 100, rxbuffer = 200, txbuffer_size = 3, rxbuffer_size = 4\<rparr>"

definition demo_port :: serial where
  "demo_port = (let z = \<lparr>fb_head = 0, fb_tail = 0, fb_begin = 0, fb_end = 0\<rparr>
     in the (serial_init demo_hw 0 \<lparr>port_id = 0, is_open = False, txfifo = z, rxfifo = z, smem = (\<lambda>_. 0), status = 0,
          isSending = False, thre_irq = False, wire = [], rx_calls = 0\<rparr>))"

lemma demo_port_simps: "serial_ok demo_port" "tx_bytes demo_port = []" "rx_bytes demo_port = []" "wire demo_port = []"
  "\<not> isSending demo_port" "\<not> thre_irq demo_port"
  by (simp_all add: demo_port_def serial_init_def serial_open_def demo_hw_def fifo_init_def serial_ok_def fifo_ok_def
      fifo_abs_def SER_PORT_NUM_def Let_def)

lemma serial_write_sends_all_witness:
  "\<exists>s'. serial_write Polling [1, 2, 3, 4, 5] demo_port = Some (5, s') \<and> wire s' = [1, 2, 3, 4, 5]"
  using serial_write_sends_all [of demo_port "[1, 2, 3, 4, 5]"] demo_port_simps by auto

section \<open>Receiving\<close>

lemma getchar_ok:
  assumes "serial_ok s"
  shows "rx_bytes s = [] \<Longrightarrow> serial_getchar_nowait s = Some (EOF, s)"
    and "rx_bytes s = b # bs \<Longrightarrow> \<exists>s'. serial_getchar_nowait s = Some (uint b, s') \<and> serial_ok s' \<and> rx_bytes s' = bs
      \<and> tx_bytes s' = tx_bytes s \<and> wire s' = wire s \<and> txfifo s' = txfifo s \<and> isSending s' = isSending s \<and> thre_irq s' = thre_irq s"
proof -
  have ok: "fifo_ok (rxfifo s)" using assms by (simp add: serial_ok_def)
  show "serial_getchar_nowait s = Some (EOF, s)" if "rx_bytes s = []"
    using that fifo_empty_iff [OF ok] by (simp add: serial_getchar_nowait_def)
  show "\<exists>s'. serial_getchar_nowait s = Some (uint b, s') \<and> serial_ok s' \<and> rx_bytes s' = bs
      \<and> tx_bytes s' = tx_bytes s \<and> wire s' = wire s \<and> txfifo s' = txfifo s \<and> isSending s' = isSending s \<and> thre_irq s' = thre_irq s"
    if rx: "rx_bytes s = b # bs"
  proof -
    have ne: "\<not> fifo_isempty (rxfifo s)" using fifo_empty_iff [OF ok, of "smem s"] rx by simp
    show ?thesis using fifo_pop_abs [OF ok ne, of "smem s"] ne rx assms
      by (auto simp: serial_getchar_nowait_def serial_ok_def)
  qed
qed

text \<open>A read returns the oldest received bytes, as many as asked for or as there are, in order, and leaves
  the rest.\<close>

lemma serial_read_prefix:
  assumes "serial_ok s"
  shows "\<exists>s'. serial_read n s = Some (take n (rx_bytes s), s') \<and> rx_bytes s' = drop n (rx_bytes s)
    \<and> tx_bytes s' = tx_bytes s \<and> wire s' = wire s \<and> serial_ok s'"
  using assms
proof (induction n arbitrary: s)
  case 0
  then show ?case by simp
next
  case (Suc n)
  show ?case
  proof (cases "rx_bytes s")
    case Nil
    then show ?thesis using getchar_ok(1) [OF Suc.prems] Suc.prems by simp
  next
    case (Cons b bs)
    obtain s1 where s1: "serial_getchar_nowait s = Some (uint b, s1)" "serial_ok s1" "rx_bytes s1 = bs"
      "tx_bytes s1 = tx_bytes s" "wire s1 = wire s" using getchar_ok(2) [OF Suc.prems Cons] by blast
    obtain s2 where "serial_read n s1 = Some (take n (rx_bytes s1), s2)" "rx_bytes s2 = drop n (rx_bytes s1)"
      "tx_bytes s2 = tx_bytes s1" "wire s2 = wire s1" "serial_ok s2" using Suc.IH [OF s1(2)] by blast
    then show ?thesis using s1 Cons uint_ne_EOF [of b] by simp
  qed
qed

lemma serial_read_prefix_witness: "\<exists>s'. serial_read 2 demo_port = Some ([], s')"
  using serial_read_prefix [of demo_port 2] demo_port_simps by auto

lemma purge_ok:
  assumes "serial_ok s"
  shows "\<exists>s'. purge_while_full s = Some s' \<and> serial_ok s' \<and> \<not> fifo_isfull (rxfifo s') \<and> txfifo s' = txfifo s \<and> smem s' = smem s
    \<and> wire s' = wire s \<and> isSending s' = isSending s \<and> thre_irq s' = thre_irq s \<and> rx_calls s' = rx_calls s
    \<and> rx_bytes s' = (if fifo_isfull (rxfifo s) then [] else rx_bytes s)"
proof (cases "fifo_isfull (rxfifo s)")
  case True
  let ?s = "serial_purgeRx s"
  have nf: "\<not> fifo_isfull (rxfifo ?s)" "rx_bytes ?s = []" "serial_ok ?s"
    using assms by (auto simp: serial_purgeRx_def fifo_flush_def fifo_isfull_def fifo_abs_def serial_ok_def fifo_ok_def)
  have "purge_while_full s = Some ?s"
    using True nf(1) purge_while_full.simps [of ?s] by (subst purge_while_full.simps) (simp add: fifo_isfull_locked_def)
  then show ?thesis using True nf by (auto simp: serial_purgeRx_def)
next
  case False
  then show ?thesis using assms by (subst purge_while_full.simps) (auto simp: fifo_isfull_locked_def)
qed

lemma recv0_ok:
  assumes "serial_ok s"
  shows "\<exists>s'. uart0_RecvDataIrqCallback ch s = Some s' \<and> serial_ok s' \<and> tx_bytes s' = tx_bytes s \<and> wire s' = wire s
    \<and> isSending s' = isSending s \<and> thre_irq s' = thre_irq s \<and> txfifo s' = txfifo s \<and> rx_calls s' = rx_calls s + 1
    \<and> rx_bytes s' = (if fifo_isfull (rxfifo s) then [] else rx_bytes s) @ [ch]"
proof -
  obtain s1 where s1: "purge_while_full s = Some s1" "serial_ok s1" "\<not> fifo_isfull (rxfifo s1)" "txfifo s1 = txfifo s"
    "smem s1 = smem s" "wire s1 = wire s" "isSending s1 = isSending s" "thre_irq s1 = thre_irq s" "rx_calls s1 = rx_calls s"
    "rx_bytes s1 = (if fifo_isfull (rxfifo s) then [] else rx_bytes s)" using purge_ok [OF assms] by blast
  obtain s2 where "push_rx ch s1 = Some s2" "serial_ok s2" "tx_bytes s2 = tx_bytes s1" "wire s2 = wire s1"
    "isSending s2 = isSending s1" "thre_irq s2 = thre_irq s1" "txfifo s2 = txfifo s1" "rx_calls s2 = rx_calls s1"
    "rx_bytes s2 = rx_bytes s1 @ [ch]" using push_rx_ok [OF s1(2), of ch] s1(3) by auto
  then show ?thesis using s1 by (auto simp: uart0_RecvDataIrqCallback_def serial_ok_def)
qed

text \<open>A byte received while the buffer is full costs everything that was received and not yet read.\<close>

lemma serial_rx_overflow:
  assumes "serial_ok s"
  shows "\<exists>s'. uart0_RecvDataIrqCallback ch s = Some s'
    \<and> rx_bytes s' = (if length (rx_bytes s) = fifo_len (rxfifo s) - 1 then [ch] else rx_bytes s @ [ch])"
proof -
  have "fifo_isfull (rxfifo s) \<longleftrightarrow> length (rx_bytes s) = fifo_len (rxfifo s) - 1"
    using fifo_full_iff [of "rxfifo s" "smem s"] assms by (simp add: serial_ok_def fifo_cap_def fifo_len_def)
  then show ?thesis using recv0_ok [OF assms, of ch] by auto
qed

end
