(* ===== verification/Serial_Isr.thy ===== *)
theory Serial_Isr
  imports Serial_Props
begin

text \<open>
  Sending by interrupt.  A task runs \<open>serial_putchar\<close> step by step, \<open>hw_uart_txStartIsr\<close> included;
  between two of its steps the transmit interrupt may come whenever it is enabled, the receive
  interrupt at any time, and other tasks may read.  The bytes the buffer took are recorded.  The
  transmitter never stalls: whenever bytes wait and no task is about to start it, the interrupt
  is enabled; and the bytes sent are the bytes taken, in order.
\<close>

section \<open>Steps\<close>

datatype tx_pc = Ready | Start1 byte | Arm1 byte | PushTx byte | Start2 | Arm2

definition arm_tx :: "serial \<Rightarrow> serial" where
  "arm_tx s = (if \<not> fifo_isempty (txfifo s) then s\<lparr>isSending := True, thre_irq := True\<rparr> else s)"

type_synonym tx_state = "tx_pc \<times> serial \<times> byte list"

inductive tx_step :: "tx_state \<Rightarrow> tx_state \<Rightarrow> bool" where
  call_full: "fifo_isfull_locked (txfifo s) \<Longrightarrow> tx_step (Ready, s, acc) (Start1 c, s, acc)"
| call_room: "\<not> fifo_isfull_locked (txfifo s) \<Longrightarrow> tx_step (Ready, s, acc) (PushTx c, s, acc)"
| start1_busy: "isSending s \<Longrightarrow> tx_step (Start1 c, s, acc) (PushTx c, s, acc)"
| start1_go: "\<not> isSending s \<Longrightarrow> tx_step (Start1 c, s, acc) (Arm1 c, s, acc)"
| arm1: "tx_step (Arm1 c, s, acc) (PushTx c, arm_tx s, acc)"
| push: "push_tx c s = Some s' \<Longrightarrow>
    tx_step (PushTx c, s, acc) (Start2, s', if fifo_isfull (txfifo s) then acc else acc @ [c])"
| start2_busy: "isSending s \<Longrightarrow> tx_step (Start2, s, acc) (Ready, s, acc)"
| start2_go: "\<not> isSending s \<Longrightarrow> tx_step (Start2, s, acc) (Arm2, s, acc)"
| arm2: "tx_step (Arm2, s, acc) (Ready, arm_tx s, acc)"
| tx_irq: "thre_irq s \<Longrightarrow> uart0_SendDataIrqCallback s = Some s' \<Longrightarrow> tx_step (pc, s, acc) (pc, s', acc)"
| rx_irq: "uart0_RecvDataIrqCallback ch s = Some s' \<Longrightarrow> tx_step (pc, s, acc) (pc, s', acc)"
| read: "serial_getchar_nowait s = Some (c, s') \<Longrightarrow> tx_step (pc, s, acc) (pc, s', acc)"

inductive_cases tx_stepE: "tx_step (pc, s, acc) t"

inductive tx_reach :: "serial \<Rightarrow> tx_state \<Rightarrow> bool" for s0 where
  start: "tx_reach s0 (Ready, s0, [])"
| step: "tx_reach s0 t \<Longrightarrow> tx_step t t' \<Longrightarrow> tx_reach s0 t'"

text \<open>The steps of \<open>hw_uart_txStartIsr\<close> in sequence are the function.\<close>

lemma start_isr_steps: "hw_uart_txStartIsr s = (if isSending s then s else arm_tx s)"
  by (simp add: hw_uart_txStartIsr_def arm_tx_def)

section \<open>The invariant\<close>

definition starting :: "tx_pc \<Rightarrow> bool" where
  "starting pc \<longleftrightarrow> pc = Start2 \<or> pc = Arm2"

definition arming :: "tx_pc \<Rightarrow> bool" where
  "arming pc \<longleftrightarrow> pc = Arm2 \<or> (\<exists>c. pc = Arm1 c)"

definition tx_inv :: "tx_state \<Rightarrow> bool" where
  "tx_inv = (\<lambda>(pc, s, acc). serial_ok s \<and> thre_irq s = isSending s \<and> wire s @ tx_bytes s = acc
     \<and> (arming pc \<longrightarrow> \<not> isSending s) \<and> (tx_bytes s \<noteq> [] \<longrightarrow> isSending s \<or> starting pc))"

lemma send0_ok:
  assumes "serial_ok s"
  shows "\<exists>s'. uart0_SendDataIrqCallback s = Some s' \<and> serial_ok s' \<and> wire s' @ tx_bytes s' = wire s @ tx_bytes s
    \<and> rx_bytes s' = rx_bytes s \<and> tx_bytes s' = tl (tx_bytes s)
    \<and> isSending s' = (isSending s \<and> tx_bytes s \<noteq> []) \<and> thre_irq s' = (thre_irq s \<and> tx_bytes s \<noteq> [])"
proof (cases "tx_bytes s")
  case Nil
  then show ?thesis using assms fifo_empty_iff [of "txfifo s" "smem s"]
    by (simp add: uart0_SendDataIrqCallback_def serial_ok_def)
next
  case (Cons b bs)
  have ok: "fifo_ok (txfifo s)" using assms by (simp add: serial_ok_def)
  have ne: "\<not> fifo_isempty (txfifo s)" using fifo_empty_iff [OF ok, of "smem s"] Cons by simp
  show ?thesis using fifo_pop_abs [OF ok ne, of "smem s"] ne Cons assms
    by (auto simp: uart0_SendDataIrqCallback_def serial_ok_def)
qed

lemma arm_tx_simps:
  "serial_ok (arm_tx s) = serial_ok s" "tx_bytes (arm_tx s) = tx_bytes s" "wire (arm_tx s) = wire s"
  "rx_bytes (arm_tx s) = rx_bytes s" "thre_irq s = isSending s \<Longrightarrow> thre_irq (arm_tx s) = isSending (arm_tx s)"
  "serial_ok s \<Longrightarrow> tx_bytes s \<noteq> [] \<Longrightarrow> isSending (arm_tx s)"
  using fifo_empty_iff [of "txfifo s" "smem s"] by (auto simp: arm_tx_def serial_ok_def)

lemma getchar_keeps:
  assumes "serial_ok s" "serial_getchar_nowait s = Some (c, s')"
  shows "serial_ok s' \<and> tx_bytes s' = tx_bytes s \<and> wire s' = wire s \<and> isSending s' = isSending s \<and> thre_irq s' = thre_irq s"
proof (cases "rx_bytes s")
  case Nil
  then show ?thesis using getchar_ok(1) [OF assms(1)] assms by simp
next
  case (Cons b bs)
  then show ?thesis using getchar_ok(2) [OF assms(1) Cons] assms(2) by auto
qed

lemma tx_inv_step:
  assumes "tx_step t t'" "tx_inv t"
  shows "tx_inv t'"
  using assms
proof cases
  case (push c s s' acc)
  then show ?thesis using push_tx_ok [of s c] assms(2) by (auto simp: tx_inv_def starting_def arming_def)
next
  case (tx_irq s s' pc acc)
  then show ?thesis using send0_ok [of s] assms(2) by (auto simp: tx_inv_def)
next
  case (rx_irq ch s s' pc acc)
  then show ?thesis using recv0_ok [of s ch] assms(2) by (auto simp: tx_inv_def)
next
  case (read s c s' pc acc)
  then show ?thesis using getchar_keeps [of s c s'] assms(2) by (auto simp: tx_inv_def)
next
  case (arm1 c s acc)
  then show ?thesis using assms(2) by (auto simp: tx_inv_def arm_tx_simps arming_def starting_def)
next
  case (arm2 s acc)
  then show ?thesis using assms(2) by (auto simp: tx_inv_def arm_tx_simps arming_def starting_def)
qed (use assms(2) in \<open>auto simp: tx_inv_def arming_def starting_def\<close>)

lemma tx_inv_reach:
  assumes "serial_ok s0" "tx_bytes s0 = []" "wire s0 = []" "\<not> isSending s0" "\<not> thre_irq s0" "tx_reach s0 t"
  shows "tx_inv t"
  using assms(6) by induction (use assms tx_inv_step in \<open>auto simp: tx_inv_def starting_def arming_def\<close>)


lemma demo_put_reach: "\<exists>s. tx_reach demo_port (Start2, s, [7])"
proof -
  have nf: "\<not> fifo_isfull (txfifo demo_port)"
    using not_full_empty [of "txfifo demo_port" "smem demo_port"] demo_port_simps by (simp add: serial_ok_def)
  obtain s where s: "push_tx 7 demo_port = Some s" using push_tx_ok demo_port_simps(1) by blast
  have "tx_reach demo_port (PushTx 7, demo_port, [])"
    by (rule tx_reach.step [OF tx_reach.start], rule tx_step.call_room) (simp add: fifo_isfull_locked_def nf)
  from tx_reach.step [OF this tx_step.push [OF s]] nf show ?thesis by auto
qed


section \<open>Waiting for the transmitter\<close>

lemma flush_drains:
  assumes "serial_ok s" "thre_irq s = isSending s" "tx_bytes s \<noteq> [] \<longrightarrow> isSending s" "length (tx_bytes s) + 2 \<le> n"
  shows "\<exists>s'. serial_flush uart0_SendDataIrqCallback n s = Some s' \<and> wire s' = wire s @ tx_bytes s \<and> tx_bytes s' = []
    \<and> \<not> isSending s'"
  using assms
proof (induction n arbitrary: s)
  case (Suc n)
  obtain s1 where s1: "uart0_SendDataIrqCallback s = Some s1" "serial_ok s1" "wire s1 @ tx_bytes s1 = wire s @ tx_bytes s"
    "tx_bytes s1 = tl (tx_bytes s)" "isSending s1 = (isSending s \<and> tx_bytes s \<noteq> [])" "thre_irq s1 = (thre_irq s \<and> tx_bytes s \<noteq> [])"
    using send0_ok [OF Suc.prems(1)] by blast
  have e: "fifo_isempty (txfifo s) \<longleftrightarrow> tx_bytes s = []" using fifo_empty_iff Suc.prems(1) by (simp add: serial_ok_def)
  show ?case
  proof (cases "tx_bytes s")
    case Nil
    show ?thesis
    proof (cases "isSending s")
      case True
      have "fifo_isempty (txfifo s1) \<and> \<not> isSending s1 \<and> wire s1 = wire s \<and> tx_bytes s1 = []"
        using s1 Nil fifo_empty_iff [of "txfifo s1" "smem s1"] by (simp add: serial_ok_def)
      moreover obtain k where "n = Suc k" using Suc.prems(4) by (cases n) auto
      ultimately show ?thesis using s1(1) True Nil by (auto simp: hw_uart_txIsSending_def)
    next
      case False
      then show ?thesis using Nil e by (simp add: hw_uart_txIsSending_def)
    qed
  next
    case (Cons b bs)
    then have "length (tx_bytes s1) + 2 \<le> n" using Suc.prems(4) s1(4) by simp
    then obtain s2 where "serial_flush uart0_SendDataIrqCallback n s1 = Some s2" "wire s2 = wire s1 @ tx_bytes s1"
      "tx_bytes s2 = []" "\<not> isSending s2" using Suc.IH [OF s1(2)] s1 Suc.prems Cons by auto
    then show ?thesis using s1 e Cons by simp
  qed
qed simp

text \<open>Waiting for the transmitter ends: after as many transmit interrupts as bytes wait, and one more, the
  loop of \<open>serial_flush\<close> is left with everything sent and the transmitter idle.\<close>

lemma serial_flush_ends:
  assumes "serial_ok s0" "tx_bytes s0 = []" "wire s0 = []" "\<not> isSending s0" "\<not> thre_irq s0"
    and "tx_reach s0 (Ready, s, acc)"
  shows "\<exists>s'. serial_flush uart0_SendDataIrqCallback (length (tx_bytes s) + 2) s = Some s' \<and> wire s' = acc
    \<and> tx_bytes s' = [] \<and> \<not> isSending s'"
  using tx_inv_reach [OF assms] flush_drains [of s "length (tx_bytes s) + 2"]
  by (auto simp: tx_inv_def starting_def)

lemma serial_flush_ends_witness:
  "\<exists>s'. serial_flush uart0_SendDataIrqCallback (length (tx_bytes demo_port) + 2) demo_port = Some s' \<and> wire s' = []"
  using serial_flush_ends [OF demo_port_simps(1,2,4-6) tx_reach.start] by auto

text \<open>The transmit interrupt of the second port takes the bytes from the buffer and sends zeros.\<close>

lemma uart1_sends_zero:
  assumes "serial_ok s" "tx_bytes s = b # bs"
  shows "\<exists>s'. uart1_SendDataIrqCallback s = Some s' \<and> wire s' = wire s @ [0] \<and> tx_bytes s' = bs"
proof -
  have ok: "fifo_ok (txfifo s)" using assms(1) by (simp add: serial_ok_def)
  have ne: "\<not> fifo_isempty (txfifo s)" using fifo_empty_iff [OF ok, of "smem s"] assms(2) by simp
  show ?thesis using fifo_pop_abs [OF ok ne, of "smem s"] ne assms(2) by (auto simp: uart1_SendDataIrqCallback_def)
qed

end
