(* ===== verification/Kv_Model.thy ===== *)
theory Kv_Model
  imports Prelude
begin

unbundle bit_operations_syntax

text \<open>
  The key-value store \<^verbatim>\<open>components/fs/kv/kv/ln_kv.c\<close> and \<^verbatim>\<open>ln_kv.h\<close>: one definition per macro and
  function, in the order of the file.

  The C struct \<^verbatim>\<open>kv_ctl\<close> is split in two: \<open>kv_flash_ctl\<close> is \<^verbatim>\<open>kv_ctl.flash_ctl\<close>, which
  only \<open>ln_kv_init\<close> writes and every other function takes as its argument \<open>fc\<close>; \<open>kv_st\<close> is
  \<^verbatim>\<open>kv_ctl.mgr_ctl\<close> with the flash device \<open>dev\<close> behind the driver, threaded through every
  function.  The driver is the struct of function pointers the caller passes in, and the
  device it drives is the type parameter \<open>'d\<close>.  Each call of \<open>ln_kv_malloc\<close> draws its outcome
  from \<open>malloc_faults\<close> (\<open>True\<close> fails, the empty list succeeds for ever).  The mutex
  \<^verbatim>\<open>kv_lock\<close>/\<^verbatim>\<open>kv_unlock\<close> brackets each API function, which is one step of the model; freeing
  memory has no effect on the modelled state, and the dump functions \<^verbatim>\<open>tos_kv_walkthru\<close> and
  \<^verbatim>\<open>kv_block_walkthru\<close> only print.

  Addresses and sizes are naturals.  Sums of an address and a size stay below \<open>2 ^ 32\<close> as
  the flash is at most 16 MB; the subtractions and counters that can wrap are written with
  \<open>u32_sub\<close>, \<open>u16_inc\<close>, \<open>u16_dec\<close>.  A C string is the list of its bytes without the
  terminator.  The index table \<open>blk_detail\<close> is read with \<open>!\<close> and written with list update:
  outside the table a read is unspecified and a write is lost, as nothing is known of the
  memory around it.
\<close>

section \<open>Types\<close>

datatype kv_err =
    KV_ERR_NONE
  | KV_ERR_BUF_TOO_SHORT
  | KV_ERR_BLK_STATUS_ERROR
  | KV_ERR_DATA_FETCH_FAILED
  | KV_ERR_FLASH_ERASE_FAILED
  | KV_ERR_FLASH_READ_FAILED
  | KV_ERR_FLASH_WRITE_FAILED
  | KV_ERR_GC_NOTHING
  | KV_ERR_INTERNAL_ERROR
  | KV_ERR_INSUFFICIENT_SPACE
  | KV_ERR_INVALID_PARAM
  | KV_ERR_INVALID_ITEM
  | KV_ERR_NEXT_LOOP
  | KV_ERR_NOT_EXIST
  | KV_ERR_NO_WRITEABLE_BLK
  | KV_ERR_OUT_OF_MEMORY
  | KV_ERR_POS_FIX_FAILED
  | KV_ERR_SIZE_EXCEEDED

record 'd kv_flash_drv =
  drv_write :: "nat \<Rightarrow> byte list \<Rightarrow> 'd \<Rightarrow> int \<times> 'd"
  drv_read :: "nat \<Rightarrow> nat \<Rightarrow> 'd \<Rightarrow> int \<times> byte list"
  drv_erase :: "nat \<Rightarrow> nat \<Rightarrow> 'd \<Rightarrow> int \<times> 'd"

record 'd kv_flash_ctl =
  sector_size_log2 :: nat
  flash_start :: nat
  flash_end :: nat
  flash_drv :: "'d kv_flash_drv"

record kv_blk_detail =
  blk_flags :: u8
  free_size :: nat

record 'd kv_st =
  workspace :: nat
  num_inuse :: nat
  num_fresh :: nat
  num_hanging :: nat
  num_total :: nat
  blk_detail :: "kv_blk_detail list"
  dev :: 'd
  malloc_faults :: "bool list"

record kv_blk_hdr =
  bh_magic :: u64
  bh_gc_src :: u64
  bh_gc_dst :: u64
  bh_gc_done :: u64

record kv_item_hdr =
  ih_discarded_flag :: u64
  ih_magic :: u64
  ih_checksum :: u8
  ih_k_len :: u8
  ih_v_len :: u16
  ih_prev_pos :: u32

record kv_item =
  item_hdr :: kv_item_hdr
  item_pos :: nat
  item_body :: "byte list option"

text \<open>The packed structs as they lie in flash.\<close>

definition blk_hdr_of_bytes :: "byte list \<Rightarrow> kv_blk_hdr" where
  "blk_hdr_of_bytes bs =
     \<lparr>bh_magic = le_word (take 8 bs), bh_gc_src = le_word (take 8 (drop 8 bs)),
      bh_gc_dst = le_word (take 8 (drop 16 bs)), bh_gc_done = le_word (take 8 (drop 24 bs))\<rparr>"

definition item_hdr_of_bytes :: "byte list \<Rightarrow> kv_item_hdr" where
  "item_hdr_of_bytes bs =
     \<lparr>ih_discarded_flag = le_word (take 8 bs), ih_magic = le_word (take 8 (drop 8 bs)),
      ih_checksum = le_word (take 1 (drop 16 bs)), ih_k_len = le_word (take 1 (drop 17 bs)),
      ih_v_len = le_word (take 2 (drop 18 bs)), ih_prev_pos = le_word (take 4 (drop 20 bs))\<rparr>"

definition bytes_of_item_hdr :: "kv_item_hdr \<Rightarrow> byte list" where
  "bytes_of_item_hdr h =
     le_bytes 8 (ih_discarded_flag h) @ le_bytes 8 (ih_magic h) @ le_bytes 1 (ih_checksum h)
     @ le_bytes 1 (ih_k_len h) @ le_bytes 2 (ih_v_len h) @ le_bytes 4 (ih_prev_pos h)"

section \<open>Macros of the header\<close>

definition KV_BLK_FLAG_FRESH :: u8 where "KV_BLK_FLAG_FRESH = 0x01"
definition KV_BLK_FLAG_INUSE :: u8 where "KV_BLK_FLAG_INUSE = 0x02"
definition KV_BLK_FLAG_DIRTY :: u8 where "KV_BLK_FLAG_DIRTY = 0x04"
definition KV_BLK_FLAG_BAD :: u8 where "KV_BLK_FLAG_BAD = 0x08"
definition KV_BLK_FLAG_HANGING :: u8 where "KV_BLK_FLAG_HANGING = 0x10"

definition KV_FLASH_SECTOR_SIZE :: "'d kv_flash_ctl \<Rightarrow> nat" where
  "KV_FLASH_SECTOR_SIZE fc = 2 ^ sector_size_log2 fc"

text \<open>\<open>kv_flash_ctl_init\<close> sets the write alignment to \<^verbatim>\<open>sizeof(kv_byte_t)\<close>, its only value.
  The masks \<^verbatim>\<open>& ~(align - 1)\<close> are written for \<open>align\<close> a power of two, where they are
  remainders.\<close>

definition KV_FLASH_WRITE_ALIGN :: nat where "KV_FLASH_WRITE_ALIGN = 1"

definition KV_ALIGN_UP :: "nat \<Rightarrow> nat \<Rightarrow> nat" where
  "KV_ALIGN_UP v align = (v + (align - 1)) - (v + (align - 1)) mod align"

definition KV_ALIGN_DOWN :: "nat \<Rightarrow> nat \<Rightarrow> nat" where
  "KV_ALIGN_DOWN v align = v - v mod align"

definition KV_ALIGNED_SIZE :: "nat \<Rightarrow> nat" where
  "KV_ALIGNED_SIZE len = KV_ALIGN_UP len KV_FLASH_WRITE_ALIGN"

definition KV_IS_ALINGED_LOG2 :: "nat \<Rightarrow> nat \<Rightarrow> bool" where
  "KV_IS_ALINGED_LOG2 v align_log2 \<longleftrightarrow> v mod 2 ^ align_log2 = 0"

definition KV_NO_WRITEABLE_BLK :: "'d kv_st \<Rightarrow> bool" where
  "KV_NO_WRITEABLE_BLK s \<longleftrightarrow> num_inuse s = 0 \<and> num_fresh s = 0"

definition KV_ITEM_HDR_MAGIC :: u64 where "KV_ITEM_HDR_MAGIC = 0x636967616D5F7469"
definition KV_ITEM_DISCARDED :: u64 where "KV_ITEM_DISCARDED = 0x0F0F0F0F0F0F0F0F"

definition KV_ITEM_IS_DISCARDED :: "kv_item_hdr \<Rightarrow> bool" where
  "KV_ITEM_IS_DISCARDED h \<longleftrightarrow> ih_discarded_flag h = KV_ITEM_DISCARDED"

definition KV_ITEM_IS_LEGAL :: "kv_item_hdr \<Rightarrow> bool" where
  "KV_ITEM_IS_LEGAL h \<longleftrightarrow> ih_magic h = KV_ITEM_HDR_MAGIC"

definition KV_ITEM_IS_FRESH :: "kv_item_hdr \<Rightarrow> bool" where
  "KV_ITEM_IS_FRESH h \<longleftrightarrow> ih_magic h = - 1 \<and> ih_discarded_flag h = - 1 \<and> ih_checksum h = - 1
     \<and> ih_k_len h = - 1 \<and> ih_v_len h = - 1 \<and> ih_prev_pos h = - 1"

definition KV_ITEM_HDR_SIZE :: nat where
  "KV_ITEM_HDR_SIZE = KV_ALIGNED_SIZE 24"

definition KV_ITEM_BODY_SIZE :: "nat \<Rightarrow> nat \<Rightarrow> nat" where
  "KV_ITEM_BODY_SIZE k_len v_len = KV_ALIGNED_SIZE (k_len + v_len)"

definition KV_ITEM_SIZE :: "nat \<Rightarrow> nat \<Rightarrow> nat" where
  "KV_ITEM_SIZE k_len v_len = KV_ITEM_HDR_SIZE + KV_ITEM_BODY_SIZE k_len v_len"

definition KV_ITEM_SIZE_OF_HDR :: "kv_item_hdr \<Rightarrow> nat" where
  "KV_ITEM_SIZE_OF_HDR h = KV_ITEM_SIZE (unat (ih_k_len h)) (unat (ih_v_len h))"

definition KV_ITEM_SIZE_OF_BODY :: "kv_item \<Rightarrow> nat" where
  "KV_ITEM_SIZE_OF_BODY i = KV_ITEM_BODY_SIZE (unat (ih_k_len (item_hdr i))) (unat (ih_v_len (item_hdr i)))"

definition KV_ITEM_ADDR_OF_BODY :: "kv_item \<Rightarrow> nat" where
  "KV_ITEM_ADDR_OF_BODY i = item_pos i + KV_ITEM_HDR_SIZE"

definition KV_BLK_HDR_MAGIC :: u64 where "KV_BLK_HDR_MAGIC = 0x302E31565F4B4C42"
definition KV_BLK_HDR_GC_SRC :: u64 where "KV_BLK_HDR_GC_SRC = 0x6372735F6B72616D"
definition KV_BLK_HDR_GC_DST :: u64 where "KV_BLK_HDR_GC_DST = 0x7473645F6B72616D"
definition KV_BLK_HDR_GC_DONE :: u64 where "KV_BLK_HDR_GC_DONE = 0x656E6F645F63676B"

definition KV_BLK_IS_LEGAL :: "kv_blk_hdr \<Rightarrow> bool" where
  "KV_BLK_IS_LEGAL h \<longleftrightarrow> drop_bit 32 (bh_magic h) = drop_bit 32 KV_BLK_HDR_MAGIC"

definition KV_BLK_IS_GC_SRC :: "kv_blk_hdr \<Rightarrow> bool" where
  "KV_BLK_IS_GC_SRC h \<longleftrightarrow> bh_gc_src h \<noteq> - 1"

definition KV_BLK_IS_GC_DST :: "kv_blk_hdr \<Rightarrow> bool" where
  "KV_BLK_IS_GC_DST h \<longleftrightarrow> bh_gc_dst h \<noteq> - 1"

definition KV_BLK_IS_GC_DONE :: "kv_blk_hdr \<Rightarrow> bool" where
  "KV_BLK_IS_GC_DONE h \<longleftrightarrow> bh_gc_done h \<noteq> - 1"

definition KV_BLK_IS_GC_DST_NOT_DONE :: "kv_blk_hdr \<Rightarrow> bool" where
  "KV_BLK_IS_GC_DST_NOT_DONE h \<longleftrightarrow> KV_BLK_IS_GC_DST h \<and> \<not> KV_BLK_IS_GC_DONE h"

definition KV_BLK_INVALID :: nat where "KV_BLK_INVALID = 2 ^ 32 - 1"

definition KV_BLK_HDR_SIZE :: nat where "KV_BLK_HDR_SIZE = KV_ALIGNED_SIZE 32"

abbreviation KV_BLK_SIZE :: "'d kv_flash_ctl \<Rightarrow> nat" where
  "KV_BLK_SIZE fc \<equiv> KV_FLASH_SECTOR_SIZE fc"

definition KV_BLK_FRESH_SIZE :: "'d kv_flash_ctl \<Rightarrow> nat" where
  "KV_BLK_FRESH_SIZE fc = u32_sub (KV_BLK_SIZE fc) KV_BLK_HDR_SIZE"

definition KV_BLK_END :: "'d kv_flash_ctl \<Rightarrow> nat \<Rightarrow> nat" where
  "KV_BLK_END fc blk_start = blk_start + KV_BLK_SIZE fc"

definition KV_BLK_ADDR2IDX :: "'d kv_flash_ctl \<Rightarrow> nat \<Rightarrow> nat" where
  "KV_BLK_ADDR2IDX fc blk_start = u32_sub blk_start (flash_start fc) div KV_BLK_SIZE fc"

definition KV_BLK_FIRST_ITEM :: "nat \<Rightarrow> nat" where
  "KV_BLK_FIRST_ITEM blk_start = blk_start + KV_BLK_HDR_SIZE"

definition KV_BLK_NEXT :: "'d kv_flash_ctl \<Rightarrow> nat \<Rightarrow> nat" where
  "KV_BLK_NEXT fc blk_start =
     (if flash_end fc \<le> blk_start + KV_BLK_SIZE fc then flash_start fc else blk_start + KV_BLK_SIZE fc)"

definition KV_ITEM_ADDR2BLK :: "'d kv_flash_ctl \<Rightarrow> nat \<Rightarrow> nat" where
  "KV_ITEM_ADDR2BLK fc item_start =
     KV_ALIGN_DOWN (u32_sub item_start (flash_start fc)) (KV_BLK_SIZE fc) + flash_start fc"

text \<open>The blocks \<^verbatim>\<open>KV_BLK_FOR_EACH\<close> visits, and those \<^verbatim>\<open>KV_BLK_FOR_EACH_FROM\<close> visits: the ring from
  the block after \<open>start\<close> round to the one before it.  The walk of the ring is cut off after
  as many steps as there are blocks; a \<open>start\<close> on the ring is met again by then.\<close>

definition kv_blk_count :: "'d kv_flash_ctl \<Rightarrow> nat" where
  "kv_blk_count fc = (flash_end fc - flash_start fc + KV_BLK_SIZE fc - 1) div KV_BLK_SIZE fc"

definition KV_BLK_FOR_EACH :: "'d kv_flash_ctl \<Rightarrow> nat list" where
  "KV_BLK_FOR_EACH fc = map (\<lambda>i. flash_start fc + i * KV_BLK_SIZE fc) [0..<kv_blk_count fc]"

primrec kv_ring :: "'d kv_flash_ctl \<Rightarrow> nat \<Rightarrow> nat \<Rightarrow> nat \<Rightarrow> nat list" where
  "kv_ring fc start 0 cur = []"
| "kv_ring fc start (Suc n) cur =
     (if cur = start then [] else cur # kv_ring fc start n (KV_BLK_NEXT fc cur))"

definition KV_BLK_FOR_EACH_FROM :: "'d kv_flash_ctl \<Rightarrow> nat \<Rightarrow> nat list" where
  "KV_BLK_FOR_EACH_FROM fc start = kv_ring fc start (kv_blk_count fc) (KV_BLK_NEXT fc start)"

section \<open>The block index\<close>

definition upd_detail ::
  "'d kv_flash_ctl \<Rightarrow> nat \<Rightarrow> (kv_blk_detail \<Rightarrow> kv_blk_detail) \<Rightarrow> 'd kv_st \<Rightarrow> 'd kv_st" where
  "upd_detail fc blk f s =
     s\<lparr>blk_detail := (blk_detail s)[KV_BLK_ADDR2IDX fc blk := f (blk_detail s ! KV_BLK_ADDR2IDX fc blk)]\<rparr>"

definition kv_blk_freesz_set :: "'d kv_flash_ctl \<Rightarrow> nat \<Rightarrow> nat \<Rightarrow> 'd kv_st \<Rightarrow> 'd kv_st" where
  "kv_blk_freesz_set fc blk v s = upd_detail fc blk (\<lambda>d. d\<lparr>free_size := v\<rparr>) s"

definition kv_blk_freesz_get :: "'d kv_flash_ctl \<Rightarrow> nat \<Rightarrow> 'd kv_st \<Rightarrow> nat" where
  "kv_blk_freesz_get fc blk s = free_size (blk_detail s ! KV_BLK_ADDR2IDX fc blk)"

definition kv_blk_freesz_reduce :: "'d kv_flash_ctl \<Rightarrow> nat \<Rightarrow> nat \<Rightarrow> 'd kv_st \<Rightarrow> 'd kv_st" where
  "kv_blk_freesz_reduce fc blk size_reduced s =
     kv_blk_freesz_set fc blk (u32_sub (kv_blk_freesz_get fc blk s) size_reduced) s"

definition kv_blk_is_full :: "'d kv_flash_ctl \<Rightarrow> nat \<Rightarrow> 'd kv_st \<Rightarrow> bool" where
  "kv_blk_is_full fc blk s \<longleftrightarrow> kv_blk_freesz_get fc blk s \<le> KV_ITEM_HDR_SIZE"

definition kv_blk_flags_set :: "'d kv_flash_ctl \<Rightarrow> nat \<Rightarrow> u8 \<Rightarrow> 'd kv_st \<Rightarrow> 'd kv_st" where
  "kv_blk_flags_set fc blk flags s = upd_detail fc blk (\<lambda>d. d\<lparr>blk_flags := flags\<rparr>) s"

definition kv_blk_flags_get :: "'d kv_flash_ctl \<Rightarrow> nat \<Rightarrow> 'd kv_st \<Rightarrow> u8" where
  "kv_blk_flags_get fc blk s = blk_flags (blk_detail s ! KV_BLK_ADDR2IDX fc blk)"

definition kv_blk_flags_add :: "'d kv_flash_ctl \<Rightarrow> nat \<Rightarrow> u8 \<Rightarrow> 'd kv_st \<Rightarrow> 'd kv_st" where
  "kv_blk_flags_add fc blk flags s = upd_detail fc blk (\<lambda>d. d\<lparr>blk_flags := blk_flags d OR flags\<rparr>) s"

definition kv_blk_flags_rmv :: "'d kv_flash_ctl \<Rightarrow> nat \<Rightarrow> u8 \<Rightarrow> 'd kv_st \<Rightarrow> 'd kv_st" where
  "kv_blk_flags_rmv fc blk flags s = upd_detail fc blk (\<lambda>d. d\<lparr>blk_flags := blk_flags d AND NOT flags\<rparr>) s"

definition kv_blk_is_fresh :: "'d kv_flash_ctl \<Rightarrow> nat \<Rightarrow> 'd kv_st \<Rightarrow> bool" where
  "kv_blk_is_fresh fc blk s \<longleftrightarrow> kv_blk_flags_get fc blk s AND KV_BLK_FLAG_FRESH \<noteq> 0"

definition kv_blk_is_inuse :: "'d kv_flash_ctl \<Rightarrow> nat \<Rightarrow> 'd kv_st \<Rightarrow> bool" where
  "kv_blk_is_inuse fc blk s \<longleftrightarrow> kv_blk_flags_get fc blk s AND KV_BLK_FLAG_INUSE \<noteq> 0"

definition kv_blk_is_dirty :: "'d kv_flash_ctl \<Rightarrow> nat \<Rightarrow> 'd kv_st \<Rightarrow> bool" where
  "kv_blk_is_dirty fc blk s \<longleftrightarrow> kv_blk_flags_get fc blk s AND KV_BLK_FLAG_DIRTY \<noteq> 0"

definition kv_blk_is_bad :: "'d kv_flash_ctl \<Rightarrow> nat \<Rightarrow> 'd kv_st \<Rightarrow> bool" where
  "kv_blk_is_bad fc blk s \<longleftrightarrow> kv_blk_flags_get fc blk s AND KV_BLK_FLAG_BAD \<noteq> 0"

definition kv_blk_is_hanging :: "'d kv_flash_ctl \<Rightarrow> nat \<Rightarrow> 'd kv_st \<Rightarrow> bool" where
  "kv_blk_is_hanging fc blk s \<longleftrightarrow> kv_blk_flags_get fc blk s AND KV_BLK_FLAG_HANGING \<noteq> 0"

definition kv_blk_set_fresh :: "'d kv_flash_ctl \<Rightarrow> nat \<Rightarrow> 'd kv_st \<Rightarrow> 'd kv_st" where
  "kv_blk_set_fresh fc blk s =
     (let s1 = (if \<not> kv_blk_is_fresh fc blk s then s\<lparr>num_fresh := u16_inc (num_fresh s)\<rparr> else s)
      in kv_blk_flags_set fc blk KV_BLK_FLAG_FRESH (kv_blk_freesz_set fc blk (KV_BLK_FRESH_SIZE fc) s1))"

definition kv_blk_set_inuse :: "'d kv_flash_ctl \<Rightarrow> nat \<Rightarrow> 'd kv_st \<Rightarrow> 'd kv_st" where
  "kv_blk_set_inuse fc blk s =
     (let s1 = (if \<not> kv_blk_is_inuse fc blk s then s\<lparr>num_inuse := u16_inc (num_inuse s)\<rparr> else s)
      in kv_blk_flags_add fc blk KV_BLK_FLAG_INUSE s1)"

definition kv_blk_set_dirty :: "'d kv_flash_ctl \<Rightarrow> nat \<Rightarrow> 'd kv_st \<Rightarrow> 'd kv_st" where
  "kv_blk_set_dirty fc blk s = kv_blk_flags_add fc blk KV_BLK_FLAG_DIRTY s"

definition kv_blk_set_bad :: "'d kv_flash_ctl \<Rightarrow> nat \<Rightarrow> 'd kv_st \<Rightarrow> 'd kv_st" where
  "kv_blk_set_bad fc blk s = kv_blk_flags_set fc blk KV_BLK_FLAG_BAD s"

definition kv_blk_set_hanging :: "'d kv_flash_ctl \<Rightarrow> nat \<Rightarrow> 'd kv_st \<Rightarrow> 'd kv_st" where
  "kv_blk_set_hanging fc blk s =
     (let s1 = (if \<not> kv_blk_is_hanging fc blk s then s\<lparr>num_hanging := u16_inc (num_hanging s)\<rparr> else s)
      in kv_blk_flags_add fc blk KV_BLK_FLAG_HANGING s1)"

definition kv_blk_reset_fresh :: "'d kv_flash_ctl \<Rightarrow> nat \<Rightarrow> 'd kv_st \<Rightarrow> 'd kv_st" where
  "kv_blk_reset_fresh fc blk s =
     (let s1 = (if kv_blk_is_fresh fc blk s then s\<lparr>num_fresh := u16_dec (num_fresh s)\<rparr> else s)
      in kv_blk_flags_rmv fc blk KV_BLK_FLAG_FRESH s1)"

definition kv_blk_reset_inuse :: "'d kv_flash_ctl \<Rightarrow> nat \<Rightarrow> 'd kv_st \<Rightarrow> 'd kv_st" where
  "kv_blk_reset_inuse fc blk s =
     (let s1 = (if kv_blk_is_inuse fc blk s then s\<lparr>num_inuse := u16_dec (num_inuse s)\<rparr> else s)
      in kv_blk_flags_rmv fc blk KV_BLK_FLAG_INUSE s1)"

definition kv_blk_reset_hanging :: "'d kv_flash_ctl \<Rightarrow> nat \<Rightarrow> 'd kv_st \<Rightarrow> 'd kv_st" where
  "kv_blk_reset_hanging fc blk s =
     (let s1 = (if kv_blk_is_hanging fc blk s then s\<lparr>num_hanging := u16_dec (num_hanging s)\<rparr> else s)
      in kv_blk_flags_rmv fc blk KV_BLK_FLAG_HANGING s1)"

definition KV_BLK_USABLE_ADDR :: "'d kv_flash_ctl \<Rightarrow> nat \<Rightarrow> 'd kv_st \<Rightarrow> nat" where
  "KV_BLK_USABLE_ADDR fc blk s = u32_sub (KV_BLK_END fc blk) (kv_blk_freesz_get fc blk s)"

section \<open>Checksum\<close>

primrec crc8_bits :: "nat \<Rightarrow> u8 \<Rightarrow> u8" where
  "crc8_bits 0 crc = crc"
| "crc8_bits (Suc n) crc =
     crc8_bits n (if crc AND 0x80 \<noteq> 0 then push_bit 1 crc XOR 0x31 else push_bit 1 crc)"

primrec crc8_loop :: "byte list \<Rightarrow> u8 \<Rightarrow> u8" where
  "crc8_loop [] crc = crc"
| "crc8_loop (b # buf) crc = crc8_loop buf (crc8_bits 8 (crc XOR b) AND 0xFF)"

definition kv_checksum_crc8 :: "byte list \<Rightarrow> nat \<Rightarrow> u8" where
  "kv_checksum_crc8 buf nbyte = crc8_loop (take nbyte buf) 0"

section \<open>Flash access\<close>

definition ln_kv_malloc :: "'d kv_st \<Rightarrow> bool \<times> 'd kv_st" where
  "ln_kv_malloc s =
     (case malloc_faults s of [] \<Rightarrow> (True, s) | f # fs \<Rightarrow> (\<not> f, s\<lparr>malloc_faults := fs\<rparr>))"

definition kv_flash_read :: "'d kv_flash_ctl \<Rightarrow> nat \<Rightarrow> nat \<Rightarrow> 'd kv_st \<Rightarrow> kv_err \<times> byte list" where
  "kv_flash_read fc addr buf_size s =
     (let (r, buf) = drv_read (flash_drv fc) addr buf_size (dev s)
      in (if r < 0 then KV_ERR_FLASH_READ_FAILED else KV_ERR_NONE, buf))"

definition kv_flash_write :: "'d kv_flash_ctl \<Rightarrow> nat \<Rightarrow> byte list \<Rightarrow> 'd kv_st \<Rightarrow> kv_err \<times> 'd kv_st" where
  "kv_flash_write fc addr buf s =
     (let (r, d) = drv_write (flash_drv fc) addr buf (dev s)
      in (if r < 0 then KV_ERR_FLASH_WRITE_FAILED else KV_ERR_NONE, s\<lparr>dev := d\<rparr>))"

definition kv_flash_erase :: "'d kv_flash_ctl \<Rightarrow> nat \<Rightarrow> nat \<Rightarrow> 'd kv_st \<Rightarrow> kv_err \<times> 'd kv_st" where
  "kv_flash_erase fc start len s =
     (let (r, d) = drv_erase (flash_drv fc) start len (dev s)
      in (if r < 0 then KV_ERR_FLASH_ERASE_FAILED else KV_ERR_NONE, s\<lparr>dev := d\<rparr>))"

definition kv_flash_wunit_modify :: "'d kv_flash_ctl \<Rightarrow> nat \<Rightarrow> u64 \<Rightarrow> 'd kv_st \<Rightarrow> kv_err \<times> 'd kv_st" where
  "kv_flash_wunit_modify fc addr data s = kv_flash_write fc addr (le_bytes 8 data) s"

definition kv_flash_blk_erase :: "'d kv_flash_ctl \<Rightarrow> nat \<Rightarrow> 'd kv_st \<Rightarrow> kv_err \<times> 'd kv_st" where
  "kv_flash_blk_erase fc blk s = kv_flash_erase fc blk (KV_BLK_SIZE fc) s"

definition kv_flash_ctl_init :: "nat \<Rightarrow> nat \<Rightarrow> 'd kv_flash_drv \<Rightarrow> nat \<Rightarrow> 'd kv_flash_ctl" where
  "kv_flash_ctl_init start fin drv log2 =
     \<lparr>sector_size_log2 = log2, flash_start = start, flash_end = fin, flash_drv = drv\<rparr>"

section \<open>Blocks\<close>

definition kv_blk_hdr_read :: "'d kv_flash_ctl \<Rightarrow> nat \<Rightarrow> 'd kv_st \<Rightarrow> kv_err \<times> kv_blk_hdr" where
  "kv_blk_hdr_read fc blk s = (let (err, bs) = kv_flash_read fc blk 32 s in (err, blk_hdr_of_bytes bs))"

definition kv_blk_format :: "'d kv_flash_ctl \<Rightarrow> nat \<Rightarrow> 'd kv_st \<Rightarrow> kv_err \<times> 'd kv_st" where
  "kv_blk_format fc blk s =
     (let (err, s1) = kv_flash_blk_erase fc blk s
      in if err \<noteq> KV_ERR_NONE then (KV_ERR_FLASH_ERASE_FAILED, s1)
         else let (err, s2) = kv_flash_wunit_modify fc blk KV_BLK_HDR_MAGIC s1
              in if err \<noteq> KV_ERR_NONE then (KV_ERR_FLASH_WRITE_FAILED, s2)
                 else (KV_ERR_NONE, kv_blk_set_fresh fc blk s2))"

definition first_blk :: "(nat \<Rightarrow> bool) \<Rightarrow> nat list \<Rightarrow> nat" where
  "first_blk P blks = (case find P blks of Some b \<Rightarrow> b | None \<Rightarrow> KV_BLK_INVALID)"

definition kv_blk_next_fresh :: "'d kv_flash_ctl \<Rightarrow> 'd kv_st \<Rightarrow> nat" where
  "kv_blk_next_fresh fc s =
     first_blk (\<lambda>b. kv_blk_is_fresh fc b s) (KV_BLK_FOR_EACH_FROM fc (workspace s))"

definition kv_blk_get_a_fresh :: "'d kv_flash_ctl \<Rightarrow> 'd kv_st \<Rightarrow> nat" where
  "kv_blk_get_a_fresh fc s = first_blk (\<lambda>b. kv_blk_is_fresh fc b s) (KV_BLK_FOR_EACH fc)"

definition kv_blk_search_inuse :: "'d kv_flash_ctl \<Rightarrow> nat \<Rightarrow> 'd kv_st \<Rightarrow> nat" where
  "kv_blk_search_inuse fc item_size s =
     first_blk (\<lambda>b. kv_blk_is_inuse fc b s \<and> item_size \<le> kv_blk_freesz_get fc b s)
       (KV_BLK_FOR_EACH_FROM fc (workspace s))"

definition kv_blk_mark_gc_src :: "'d kv_flash_ctl \<Rightarrow> nat \<Rightarrow> 'd kv_st \<Rightarrow> kv_err \<times> 'd kv_st" where
  "kv_blk_mark_gc_src fc blk s = kv_flash_wunit_modify fc (blk + 8) KV_BLK_HDR_GC_SRC s"

definition kv_blk_mark_gc_dst :: "'d kv_flash_ctl \<Rightarrow> nat \<Rightarrow> 'd kv_st \<Rightarrow> kv_err \<times> 'd kv_st" where
  "kv_blk_mark_gc_dst fc blk s = kv_flash_wunit_modify fc (blk + 16) KV_BLK_HDR_GC_DST s"

definition kv_blk_mark_gc_done :: "'d kv_flash_ctl \<Rightarrow> nat \<Rightarrow> 'd kv_st \<Rightarrow> kv_err \<times> 'd kv_st" where
  "kv_blk_mark_gc_done fc blk s = kv_flash_wunit_modify fc (blk + 24) KV_BLK_HDR_GC_DONE s"

section \<open>Items\<close>

definition kv_item_hdr_write :: "'d kv_flash_ctl \<Rightarrow> nat \<Rightarrow> kv_item_hdr \<Rightarrow> 'd kv_st \<Rightarrow> kv_err \<times> 'd kv_st" where
  "kv_item_hdr_write fc item_start hdr s =
     (let (err, s1) = kv_flash_write fc (item_start + 16)
                        (take (KV_ITEM_HDR_SIZE - 16) (drop 16 (bytes_of_item_hdr hdr))) s
      in if err \<noteq> KV_ERR_NONE then (KV_ERR_FLASH_WRITE_FAILED, s1)
         else kv_flash_wunit_modify fc (item_start + 8) (ih_magic hdr) s1)"

definition kv_item_write ::
  "'d kv_flash_ctl \<Rightarrow> nat \<Rightarrow> kv_item_hdr \<Rightarrow> byte list \<Rightarrow> nat \<Rightarrow> 'd kv_st \<Rightarrow> kv_err \<times> 'd kv_st" where
  "kv_item_write fc item_start hdr body body_len s =
     (let (err, s1) = kv_item_hdr_write fc item_start hdr s
      in if err \<noteq> KV_ERR_NONE then (KV_ERR_FLASH_WRITE_FAILED, s1)
         else kv_flash_write fc (item_start + KV_ITEM_HDR_SIZE) (take body_len body) s1)"

definition kv_item_hdr_read :: "'d kv_flash_ctl \<Rightarrow> nat \<Rightarrow> 'd kv_st \<Rightarrow> kv_err \<times> kv_item_hdr" where
  "kv_item_hdr_read fc item_start s =
     (let (err, bs) = kv_flash_read fc item_start 24 s in (err, item_hdr_of_bytes bs))"

definition kv_item_body_read :: "'d kv_flash_ctl \<Rightarrow> kv_item \<Rightarrow> 'd kv_st \<Rightarrow> kv_err \<times> kv_item \<times> 'd kv_st" where
  "kv_item_body_read fc item s =
     (let (ok, s1) = ln_kv_malloc s
      in if \<not> ok then (KV_ERR_OUT_OF_MEMORY, item, s1)
         else let (err, buf) = kv_flash_read fc (KV_ITEM_ADDR_OF_BODY item) (KV_ITEM_SIZE_OF_BODY item) s1
              in if err \<noteq> KV_ERR_NONE then (KV_ERR_FLASH_READ_FAILED, item, s1)
                 else (KV_ERR_NONE, item\<lparr>item_body := Some buf\<rparr>, s1))"

definition kv_item_do_delete :: "'d kv_flash_ctl \<Rightarrow> nat \<Rightarrow> 'd kv_st \<Rightarrow> kv_err \<times> 'd kv_st" where
  "kv_item_do_delete fc item_start s = kv_flash_wunit_modify fc item_start KV_ITEM_DISCARDED s"

definition kv_item_delete_aux :: "'d kv_flash_ctl \<Rightarrow> nat \<Rightarrow> 'd kv_st \<Rightarrow> kv_err \<times> 'd kv_st" where
  "kv_item_delete_aux fc item_start s =
     (let (err, s1) = kv_item_do_delete fc item_start s
      in if err \<noteq> KV_ERR_NONE then (KV_ERR_FLASH_WRITE_FAILED, s1)
         else (KV_ERR_NONE, kv_blk_set_dirty fc (KV_ITEM_ADDR2BLK fc item_start) s1))"

definition kv_item_delete :: "'d kv_flash_ctl \<Rightarrow> kv_item \<Rightarrow> 'd kv_st \<Rightarrow> kv_err \<times> 'd kv_st" where
  "kv_item_delete fc item s = kv_item_delete_aux fc (item_pos item) s"

definition kv_item_try_delete :: "'d kv_flash_ctl \<Rightarrow> kv_item \<Rightarrow> 'd kv_st \<Rightarrow> kv_err \<times> 'd kv_st" where
  "kv_item_try_delete fc item s =
     (let prev_pos = unat (ih_prev_pos (item_hdr item));
          (err, prev_hdr) = kv_item_hdr_read fc prev_pos s
      in if err \<noteq> KV_ERR_NONE then (KV_ERR_FLASH_READ_FAILED, s)
         else if \<not> KV_ITEM_IS_LEGAL prev_hdr \<or> KV_ITEM_IS_DISCARDED prev_hdr then (KV_ERR_NONE, s)
         else if ih_k_len (item_hdr item) \<noteq> ih_k_len prev_hdr then (KV_ERR_NONE, s)
         else let k_len = unat (ih_k_len (item_hdr item));
                  (ok, s1) = ln_kv_malloc s
              in if \<not> ok then (KV_ERR_OUT_OF_MEMORY, s1)
                 else let (err, prev_key) = kv_flash_read fc (prev_pos + KV_ITEM_HDR_SIZE) k_len s1
                      in if err \<noteq> KV_ERR_NONE then (KV_ERR_FLASH_READ_FAILED, s1)
                         else if take k_len prev_key \<noteq> take k_len (the (item_body item)) then (KV_ERR_NONE, s1)
                         else kv_item_delete_aux fc prev_pos s1)"

definition kv_item_hdr_verify :: "'d kv_flash_ctl \<Rightarrow> kv_item_hdr \<Rightarrow> nat \<Rightarrow> nat \<Rightarrow> bool" where
  "kv_item_hdr_verify fc hdr item_start blk \<longleftrightarrow>
     (let k_len = ih_k_len hdr; v_len = ih_v_len hdr
      in if k_len = 0 \<or> v_len = 0 \<or> k_len = - 1 \<or> v_len = - 1 then False
         else if KV_BLK_END fc blk < item_start + KV_ITEM_SIZE (unat k_len) (unat v_len) then False
         else if flash_end fc < item_start + KV_ITEM_SIZE (unat k_len) (unat v_len) then False
         else True)"

definition kv_item_body_verify :: "kv_item \<Rightarrow> bool" where
  "kv_item_body_verify item \<longleftrightarrow>
     ih_checksum (item_hdr item) =
     kv_checksum_crc8 (the (item_body item)) (unat (ih_k_len (item_hdr item)) + unat (ih_v_len (item_hdr item)))"

definition kv_item_is_updated_one :: "kv_item \<Rightarrow> bool" where
  "kv_item_is_updated_one item \<longleftrightarrow>
     ih_prev_pos (item_hdr item) \<noteq> 0 \<and> item_pos item \<noteq> unat (ih_prev_pos (item_hdr item))"

definition kv_item_is_moved :: "'d kv_flash_ctl \<Rightarrow> kv_item \<Rightarrow> 'd kv_st \<Rightarrow> bool \<times> 'd kv_st" where
  "kv_item_is_moved fc item s =
     (let (err, hdr) = kv_item_hdr_read fc (item_pos item) s
      in if err \<noteq> KV_ERR_NONE then (False, s)
         else if hdr \<noteq> item_hdr item then (True, s)
         else let (err, item1, s1) = kv_item_body_read fc item s;
                  n = unat (ih_k_len (item_hdr item)) + unat (ih_v_len (item_hdr item))
              in if err \<noteq> KV_ERR_NONE then (False, s1)
                 else (take n (the (item_body item)) \<noteq> take n (the (item_body item1)), s1))"

text \<open>The walkers.  Each returns its verdict, the item (whose body it may have read) and the state.\<close>

type_synonym 'd kv_item_walker = "kv_item \<Rightarrow> 'd kv_st \<Rightarrow> kv_err \<times> kv_item \<times> 'd kv_st"

definition kv_item_do_gc :: "'d kv_flash_ctl \<Rightarrow> nat \<Rightarrow> 'd kv_item_walker" where
  "kv_item_do_gc fc blk_dst item s =
     (let (err, item1, s1) = kv_item_body_read fc item s
      in if err \<noteq> KV_ERR_NONE then (err, item1, s1)
         else let (err, s2) = kv_item_write fc (KV_BLK_USABLE_ADDR fc blk_dst s1) (item_hdr item1)
                                (the (item_body item1)) (KV_ITEM_SIZE_OF_BODY item1) s1
              in if err \<noteq> KV_ERR_NONE then (KV_ERR_FLASH_WRITE_FAILED, item1, s2)
                 else (KV_ERR_NEXT_LOOP, item1,
                       kv_blk_freesz_reduce fc blk_dst (KV_ITEM_SIZE_OF_HDR (item_hdr item1)) s2))"

definition kv_item_do_fetch_new_copy :: "'d kv_flash_ctl \<Rightarrow> kv_item \<Rightarrow> 'd kv_item_walker" where
  "kv_item_do_fetch_new_copy fc dst_item item s =
     (if ih_k_len (item_hdr item) \<noteq> ih_k_len (item_hdr dst_item)
         \<or> ih_v_len (item_hdr item) \<noteq> ih_v_len (item_hdr dst_item) then (KV_ERR_NEXT_LOOP, item, s)
      else let (err, item1, s1) = kv_item_body_read fc item s;
               n = unat (ih_k_len (item_hdr item)) + unat (ih_v_len (item_hdr item))
           in if err \<noteq> KV_ERR_NONE then (err, item1, s1)
              else if take n (the (item_body item1)) = take n (the (item_body dst_item))
              then (KV_ERR_NONE, item1, s1) else (KV_ERR_NEXT_LOOP, item1, s1))"

definition kv_item_do_fetch :: "'d kv_flash_ctl \<Rightarrow> byte list \<Rightarrow> 'd kv_item_walker" where
  "kv_item_do_fetch fc key item s =
     (let k_len = unat (ih_k_len (item_hdr item))
      in if length key \<noteq> k_len then (KV_ERR_NEXT_LOOP, item, s)
         else let (err, item1, s1) = kv_item_body_read fc item s
              in if err \<noteq> KV_ERR_NONE then (err, item1, s1)
                 else if take k_len (the (item_body item1)) = take k_len key
                 then (KV_ERR_NONE, item1, s1) else (KV_ERR_NEXT_LOOP, item1, s1))"

definition kv_item_do_recovery :: "'d kv_flash_ctl \<Rightarrow> 'd kv_item_walker" where
  "kv_item_do_recovery fc item s =
     (let (err, item1, s1) = kv_item_body_read fc item s
      in if err \<noteq> KV_ERR_NONE then (err, item1, s1)
         else let (err, s2) = (if \<not> kv_item_body_verify item1 then kv_item_delete fc item1 s1
                               else if kv_item_is_updated_one item1 then kv_item_try_delete fc item1 s1
                               else (KV_ERR_NONE, s1))
              in if err \<noteq> KV_ERR_NONE then (err, item1, s2) else (KV_ERR_NEXT_LOOP, item1, s2))"

section \<open>Walking the items of a block\<close>

text \<open>One round of the do-while loop of \<open>kv_item_walkthru\<close>: it returns from the function, breaks
  out of the loop at a fresh slot, or goes on past the header and \<open>n\<close> bytes of body.  The
  \<^verbatim>\<open>continue\<close> after a broken header goes on past the header alone.\<close>

datatype walk_res = Walk_Return kv_err "kv_item option" | Walk_Break | Walk_Next nat

definition kv_walk_step ::
  "'d kv_flash_ctl \<Rightarrow> 'd kv_item_walker \<Rightarrow> nat \<Rightarrow> nat \<Rightarrow> 'd kv_st \<Rightarrow> walk_res \<times> 'd kv_st" where
  "kv_walk_step fc walker blk cur s =
     (let (ok, s0) = ln_kv_malloc s
      in if \<not> ok then (Walk_Return KV_ERR_OUT_OF_MEMORY None, s0)
         else let (err, hdr) = kv_item_hdr_read fc cur s0
      in if err \<noteq> KV_ERR_NONE then (Walk_Return err None, s0)
         else if \<not> KV_ITEM_IS_LEGAL hdr \<and> KV_ITEM_IS_FRESH hdr then (Walk_Break, s0)
         else if \<not> KV_ITEM_IS_LEGAL hdr \<or> \<not> kv_item_hdr_verify fc hdr cur blk then
           (let (err, s1) = kv_item_do_delete fc cur s0
            in (Walk_Next 0, if err = KV_ERR_NONE then kv_blk_set_dirty fc blk s1 else s1))
         else if \<not> KV_ITEM_IS_DISCARDED hdr then
           (let (err, item, s1) = walker \<lparr>item_hdr = hdr, item_pos = cur, item_body = None\<rparr> s0
            in if err = KV_ERR_NONE then (Walk_Return KV_ERR_NONE (Some item), s1)
               else if err \<noteq> KV_ERR_NEXT_LOOP then (Walk_Return err None, s1)
               else (Walk_Next (KV_ITEM_BODY_SIZE (unat (ih_k_len hdr)) (unat (ih_v_len hdr))), s1))
         else (Walk_Next (KV_ITEM_BODY_SIZE (unat (ih_k_len hdr)) (unat (ih_v_len hdr))),
               kv_blk_set_dirty fc blk s0))"

text \<open>The loop: the value the function returns early with, or the address it stops at.\<close>

lemma kv_item_hdr_size [simp]: "KV_ITEM_HDR_SIZE = 24"
  by (simp add: KV_ITEM_HDR_SIZE_def KV_ALIGNED_SIZE_def KV_ALIGN_UP_def KV_FLASH_WRITE_ALIGN_def)

function kv_walk ::
  "'d kv_flash_ctl \<Rightarrow> 'd kv_item_walker \<Rightarrow> nat \<Rightarrow> nat \<Rightarrow> 'd kv_st
     \<Rightarrow> (kv_err \<times> kv_item option + nat) \<times> 'd kv_st" where
  "kv_walk fc walker blk cur s =
     (case kv_walk_step fc walker blk cur s of
        (Walk_Return err item, s1) \<Rightarrow> (Inl (err, item), s1)
      | (Walk_Break, s1) \<Rightarrow> (Inr cur, s1)
      | (Walk_Next n, s1) \<Rightarrow>
          if cur + (KV_ITEM_HDR_SIZE + n) + KV_ITEM_HDR_SIZE < KV_BLK_END fc blk
          then kv_walk fc walker blk (cur + (KV_ITEM_HDR_SIZE + n)) s1
          else (Inr (cur + (KV_ITEM_HDR_SIZE + n)), s1))"
  by pat_completeness auto
termination
  by (relation "measure (\<lambda>(fc, walker, blk, cur, s). KV_BLK_END fc blk - cur)") auto

declare kv_walk.simps [simp del]

text \<open>What a full walk that stopped at \<open>cur\<close> tells of the block is written to the index.\<close>

definition kv_walk_index :: "'d kv_flash_ctl \<Rightarrow> nat \<Rightarrow> nat \<Rightarrow> 'd kv_st \<Rightarrow> 'd kv_st" where
  "kv_walk_index fc blk cur s =
     (if cur = KV_BLK_FIRST_ITEM blk then kv_blk_set_fresh fc blk s
      else if cur + KV_ITEM_HDR_SIZE < KV_BLK_END fc blk
      then kv_blk_set_inuse fc blk (kv_blk_freesz_set fc blk (u32_sub (KV_BLK_END fc blk) cur) s)
      else kv_blk_reset_inuse fc blk (kv_blk_freesz_set fc blk 0 s))"

definition kv_item_walkthru ::
  "'d kv_flash_ctl \<Rightarrow> nat \<Rightarrow> 'd kv_item_walker \<Rightarrow> 'd kv_st \<Rightarrow> kv_err \<times> kv_item option \<times> 'd kv_st" where
  "kv_item_walkthru fc blk walker s =
     (case kv_walk fc walker blk (KV_BLK_FIRST_ITEM blk) s of
        (Inl (err, item), s1) \<Rightarrow> (err, item, s1)
      | (Inr cur, s1) \<Rightarrow> (KV_ERR_NONE, None, kv_walk_index fc blk cur s1))"

definition kv_item_do_find ::
  "'d kv_flash_ctl \<Rightarrow> nat \<Rightarrow> byte list \<Rightarrow> 'd kv_st \<Rightarrow> kv_item option \<times> 'd kv_st" where
  "kv_item_do_find fc blk key s =
     (let (err, item, s1) = kv_item_walkthru fc blk (kv_item_do_fetch fc key) s
      in (if err = KV_ERR_NONE then item else None, s1))"

primrec kv_find_in ::
  "'d kv_flash_ctl \<Rightarrow> (nat \<Rightarrow> 'd kv_st \<Rightarrow> kv_item option \<times> 'd kv_st) \<Rightarrow> nat list \<Rightarrow> 'd kv_st
     \<Rightarrow> kv_item option \<times> 'd kv_st" where
  "kv_find_in fc do_find [] s = (None, s)"
| "kv_find_in fc do_find (b # bs) s =
     (if kv_blk_is_bad fc b s \<or> kv_blk_is_fresh fc b s then kv_find_in fc do_find bs s
      else case do_find b s of
             (Some item, s1) \<Rightarrow> (Some item, s1)
           | (None, s1) \<Rightarrow> kv_find_in fc do_find bs s1)"

definition kv_item_find :: "'d kv_flash_ctl \<Rightarrow> byte list \<Rightarrow> 'd kv_st \<Rightarrow> kv_item option \<times> 'd kv_st" where
  "kv_item_find fc key s = kv_find_in fc (\<lambda>b. kv_item_do_find fc b key) (KV_BLK_FOR_EACH fc) s"

definition kv_item_do_find_new_copy ::
  "'d kv_flash_ctl \<Rightarrow> nat \<Rightarrow> kv_item \<Rightarrow> 'd kv_st \<Rightarrow> kv_item option \<times> 'd kv_st" where
  "kv_item_do_find_new_copy fc blk the_item s =
     (let (err, item, s1) = kv_item_walkthru fc blk (kv_item_do_fetch_new_copy fc the_item) s
      in (if err = KV_ERR_NONE then item else None, s1))"

definition kv_item_find_new_copy :: "'d kv_flash_ctl \<Rightarrow> kv_item \<Rightarrow> 'd kv_st \<Rightarrow> kv_item option \<times> 'd kv_st" where
  "kv_item_find_new_copy fc the_item s =
     kv_find_in fc (\<lambda>b. kv_item_do_find_new_copy fc b the_item) (KV_BLK_FOR_EACH fc) s"

section \<open>Garbage collection\<close>

definition kv_mgr_index_build :: "'d kv_flash_ctl \<Rightarrow> nat \<Rightarrow> 'd kv_st \<Rightarrow> kv_err \<times> 'd kv_st" where
  "kv_mgr_index_build fc blk s =
     (let (err, item, s1) = kv_item_walkthru fc blk (kv_item_do_recovery fc) s in (err, s1))"

primrec kv_rebuild_in :: "'d kv_flash_ctl \<Rightarrow> nat list \<Rightarrow> bool \<Rightarrow> 'd kv_st \<Rightarrow> bool \<times> 'd kv_st" where
  "kv_rebuild_in fc [] done s = (done, s)"
| "kv_rebuild_in fc (b # bs) done s =
     (if kv_blk_is_hanging fc b s
      then let (err, s1) = kv_mgr_index_build fc b s
           in if err = KV_ERR_NONE then kv_rebuild_in fc bs True (kv_blk_reset_hanging fc b s1)
              else kv_rebuild_in fc bs done s1
      else kv_rebuild_in fc bs done s)"

definition kv_mgr_blk_index_rebuild :: "'d kv_flash_ctl \<Rightarrow> 'd kv_st \<Rightarrow> bool \<times> 'd kv_st" where
  "kv_mgr_blk_index_rebuild fc s = kv_rebuild_in fc (KV_BLK_FOR_EACH fc) False s"

definition kv_do_gc :: "'d kv_flash_ctl \<Rightarrow> nat \<Rightarrow> nat \<Rightarrow> bool \<Rightarrow> 'd kv_st \<Rightarrow> kv_err \<times> 'd kv_st" where
  "kv_do_gc fc blk_src blk_dst is_handle_incomplete s =
     (let (err, s1) = (if \<not> is_handle_incomplete then kv_blk_mark_gc_src fc blk_src s else (KV_ERR_NONE, s))
      in if err \<noteq> KV_ERR_NONE then (err, s1)
         else let (err, s2) = kv_blk_mark_gc_dst fc blk_dst s1
      in if err \<noteq> KV_ERR_NONE then (err, s2)
         else let (err, item, s3) = kv_item_walkthru fc blk_src (kv_item_do_gc fc blk_dst) s2
      in if err \<noteq> KV_ERR_NONE then (err, s3)
         else let s4 = kv_blk_reset_inuse fc blk_src s3;
                  (err, s5) = kv_blk_format fc blk_src s4;
                  s6 = (if err \<noteq> KV_ERR_NONE then kv_blk_set_bad fc blk_src s5 else s5);
                  (err, s7) = kv_blk_mark_gc_done fc blk_dst s6
      in if err \<noteq> KV_ERR_NONE then (err, s7)
         else let s8 = kv_blk_reset_fresh fc blk_dst s7
      in (KV_ERR_NONE, if \<not> kv_blk_is_full fc blk_dst s8 then kv_blk_set_inuse fc blk_dst s8 else s8))"

text \<open>The loop shared by \<open>kv_gc\<close> and \<open>kv_try_gc\<close>: collect the first dirty block that can be.\<close>

primrec kv_gc_in :: "'d kv_flash_ctl \<Rightarrow> nat \<Rightarrow> nat list \<Rightarrow> 'd kv_st \<Rightarrow> bool \<times> 'd kv_st" where
  "kv_gc_in fc blk_dst [] s = (False, s)"
| "kv_gc_in fc blk_dst (b # bs) s =
     (if kv_blk_is_dirty fc b s
      then let (err, s1) = kv_do_gc fc b blk_dst False s
           in if err = KV_ERR_NONE then (True, s1) else kv_gc_in fc blk_dst bs s1
      else kv_gc_in fc blk_dst bs s)"

definition kv_gc :: "'d kv_flash_ctl \<Rightarrow> 'd kv_st \<Rightarrow> kv_err \<times> 'd kv_st" where
  "kv_gc fc s =
     (let (is_rebuild_done, s1) = (if 0 < num_hanging s then kv_mgr_blk_index_rebuild fc s else (False, s));
          blk_dst = kv_blk_next_fresh fc s1
      in if blk_dst = KV_BLK_INVALID then (KV_ERR_GC_NOTHING, s1)
         else let (is_gc_done, s2) = kv_gc_in fc blk_dst (KV_BLK_FOR_EACH fc) s1;
                  s3 = (if is_gc_done then s2\<lparr>workspace := blk_dst\<rparr> else s2)
              in (if is_gc_done \<or> is_rebuild_done then KV_ERR_NONE else KV_ERR_GC_NOTHING, s3))"

definition kv_try_gc :: "'d kv_flash_ctl \<Rightarrow> 'd kv_st \<Rightarrow> kv_err \<times> 'd kv_st" where
  "kv_try_gc fc s =
     (let blk_dst = kv_blk_get_a_fresh fc s
      in if blk_dst = KV_BLK_INVALID then (KV_ERR_GC_NOTHING, s)
         else let (is_gc_done, s1) = kv_gc_in fc blk_dst (KV_BLK_FOR_EACH fc) s
              in (if is_gc_done then KV_ERR_NONE else KV_ERR_GC_NOTHING, s1))"

section \<open>Saving an item\<close>

text \<open>The \<^verbatim>\<open>do ... while (LN_TRUE)\<close> of \<open>kv_blk_search_suitable\<close>, with fuel: \<open>None\<close> is a loop that
  is still running.\<close>

primrec kv_search_loop :: "'d kv_flash_ctl \<Rightarrow> nat \<Rightarrow> nat \<Rightarrow> 'd kv_st \<Rightarrow> (nat \<times> 'd kv_st) option" where
  "kv_search_loop fc item_size 0 s = None"
| "kv_search_loop fc item_size (Suc fuel) s =
     (if item_size \<le> kv_blk_freesz_get fc (workspace s) s then Some (workspace s, s)
      else let the_blk = kv_blk_search_inuse fc item_size s
      in if the_blk \<noteq> KV_BLK_INVALID then Some (the_blk, s\<lparr>workspace := the_blk\<rparr>)
         else if num_fresh s < 1 then Some (KV_BLK_INVALID, s)
         else if 1 < num_fresh s then
           (let blk = kv_blk_next_fresh fc s in Some (blk, s\<lparr>workspace := blk\<rparr>))
         else let (err, s1) = kv_gc fc s
      in if err \<noteq> KV_ERR_NONE then
           (let blk = kv_blk_next_fresh fc s1 in Some (blk, s1\<lparr>workspace := blk\<rparr>))
         else kv_search_loop fc item_size fuel s1)"

definition kv_search_fuel :: "'d kv_st \<Rightarrow> nat" where
  "kv_search_fuel s = (length (blk_detail s) + 1) ^ 2"

definition kv_blk_search_suitable :: "'d kv_flash_ctl \<Rightarrow> nat \<Rightarrow> 'd kv_st \<Rightarrow> (nat \<times> 'd kv_st) option" where
  "kv_blk_search_suitable fc item_size s =
     (if KV_NO_WRITEABLE_BLK s then Some (KV_BLK_INVALID, s)
      else if workspace s = KV_BLK_INVALID then Some (KV_BLK_INVALID, s)
      else kv_search_loop fc item_size (kv_search_fuel s) s)"

definition kv_item_do_save ::
  "'d kv_flash_ctl \<Rightarrow> nat \<Rightarrow> byte list \<Rightarrow> byte list \<Rightarrow> nat \<Rightarrow> 'd kv_st \<Rightarrow> kv_err \<times> 'd kv_st" where
  "kv_item_do_save fc item_start k v prev_pos s =
     (let k_len = length k mod 256; v_len = length v;
          kv_len = KV_ITEM_BODY_SIZE k_len v_len;
          (ok, s1) = ln_kv_malloc s
      in if \<not> ok then (KV_ERR_OUT_OF_MEMORY, s1)
         else let kv_buf = take k_len k @ v @ replicate (kv_len - (k_len + v_len)) 0;
                  hdr = \<lparr>ih_discarded_flag = 0, ih_magic = KV_ITEM_HDR_MAGIC,
                         ih_checksum = kv_checksum_crc8 kv_buf (k_len + v_len),
                         ih_k_len = of_nat k_len, ih_v_len = of_nat v_len,
                         ih_prev_pos = of_nat prev_pos\<rparr>
              in kv_item_write fc item_start hdr kv_buf kv_len s1)"

definition kv_item_value_is_match :: "kv_item \<Rightarrow> byte list \<Rightarrow> bool" where
  "kv_item_value_is_match item v \<longleftrightarrow>
     (let k_len = unat (ih_k_len (item_hdr item)); v_len = unat (ih_v_len (item_hdr item))
      in if length v \<noteq> v_len then False
         else if take v_len (drop k_len (the (item_body item))) \<noteq> take v_len v then False else True)"

definition kv_item_fix :: "'d kv_flash_ctl \<Rightarrow> kv_item \<Rightarrow> 'd kv_st \<Rightarrow> kv_err \<times> kv_item \<times> 'd kv_st" where
  "kv_item_fix fc item s =
     (case kv_item_find_new_copy fc item s of
        (None, s1) \<Rightarrow> (KV_ERR_POS_FIX_FAILED, item, s1)
      | (Some moved, s1) \<Rightarrow> (KV_ERR_NONE, item\<lparr>item_pos := item_pos moved\<rparr>, s1))"

definition kv_fix_prev ::
  "'d kv_flash_ctl \<Rightarrow> kv_item option \<Rightarrow> 'd kv_st \<Rightarrow> kv_err \<times> kv_item option \<times> 'd kv_st" where
  "kv_fix_prev fc prev_item s =
     (case prev_item of
        None \<Rightarrow> (KV_ERR_NONE, None, s)
      | Some item \<Rightarrow>
          let (moved, s1) = kv_item_is_moved fc item s
          in if moved then let (err, item1, s2) = kv_item_fix fc item s1 in (err, Some item1, s2)
             else (KV_ERR_NONE, Some item, s1))"

text \<open>After the item is in flash, \<open>kv_item_save\<close> brings the index of its block up to date.\<close>

definition kv_save_index :: "'d kv_flash_ctl \<Rightarrow> nat \<Rightarrow> nat \<Rightarrow> 'd kv_st \<Rightarrow> 'd kv_st" where
  "kv_save_index fc blk item_size s =
     (let s1 = kv_blk_freesz_reduce fc blk item_size s
      in if kv_blk_is_fresh fc blk s1
         then let s2 = kv_blk_reset_fresh fc blk s1
              in if \<not> kv_blk_is_full fc blk s2 then kv_blk_set_inuse fc blk s2 else s2
         else if kv_blk_is_full fc blk s1 then kv_blk_reset_inuse fc blk s1 else s1)"

text \<open>\<open>kv_item_save\<close> returns, besides its error, the previous item, whose position it may have fixed.\<close>

definition kv_item_save ::
  "'d kv_flash_ctl \<Rightarrow> byte list \<Rightarrow> byte list \<Rightarrow> kv_item option \<Rightarrow> 'd kv_st
     \<Rightarrow> (kv_err \<times> kv_item option \<times> 'd kv_st) option" where
  "kv_item_save fc k v prev_item s =
     (let item_size = KV_ITEM_SIZE (length k) (length v)
      in case kv_blk_search_suitable fc item_size s of
           None \<Rightarrow> None
         | Some (blk, s1) \<Rightarrow>
             Some (if blk = KV_BLK_INVALID then (KV_ERR_INSUFFICIENT_SPACE, prev_item, s1)
                   else let (err, prev1, s2) = kv_fix_prev fc prev_item s1
                   in if err \<noteq> KV_ERR_NONE then (err, prev1, s2)
                      else let (err, s3) = kv_item_do_save fc (KV_BLK_USABLE_ADDR fc blk s2) k v
                                             (case prev1 of Some p \<Rightarrow> item_pos p | None \<Rightarrow> 0) s2
                   in if err \<noteq> KV_ERR_NONE then (err, prev1, s3)
                      else (KV_ERR_NONE, prev1, kv_save_index fc blk item_size s3)))"

definition kv_item_update ::
  "'d kv_flash_ctl \<Rightarrow> kv_item \<Rightarrow> byte list \<Rightarrow> byte list \<Rightarrow> 'd kv_st \<Rightarrow> (kv_err \<times> 'd kv_st) option" where
  "kv_item_update fc item key v s =
     (if kv_item_value_is_match item v then Some (KV_ERR_NONE, s)
      else case kv_item_save fc key v (Some item) s of
             None \<Rightarrow> None
           | Some (err, prev, s1) \<Rightarrow>
               Some (if err \<noteq> KV_ERR_NONE then (err, s1) else kv_item_delete fc (the prev) s1))"

section \<open>Start-up\<close>

definition kv_param_verify :: "nat \<Rightarrow> nat \<Rightarrow> 'd kv_flash_drv option \<Rightarrow> nat option \<Rightarrow> kv_err" where
  "kv_param_verify start fin drv prop =
     (case (drv, prop) of
        (Some d, Some log2) \<Rightarrow>
          if \<not> KV_IS_ALINGED_LOG2 start log2 then KV_ERR_INVALID_PARAM
          else if \<not> KV_IS_ALINGED_LOG2 fin log2 then KV_ERR_INVALID_PARAM
          else KV_ERR_NONE
      | _ \<Rightarrow> KV_ERR_INVALID_PARAM)"

definition kv_mgr_workspace_locate :: "'d kv_flash_ctl \<Rightarrow> 'd kv_st \<Rightarrow> kv_err \<times> 'd kv_st" where
  "kv_mgr_workspace_locate fc s =
     (let s1 = (if 0 < num_hanging s then snd (kv_mgr_blk_index_rebuild fc s) else s);
          s2 = (if num_inuse s1 = 0 \<and> num_fresh s1 = 1 then snd (kv_try_gc fc s1) else s1)
      in if KV_NO_WRITEABLE_BLK s2 then (KV_ERR_NO_WRITEABLE_BLK, s2)
         else case find (\<lambda>b. if num_inuse s2 = 0 then kv_blk_is_fresh fc b s2 else kv_blk_is_inuse fc b s2)
                     (KV_BLK_FOR_EACH fc) of
                Some b \<Rightarrow> (KV_ERR_NONE, s2\<lparr>workspace := b\<rparr>)
              | None \<Rightarrow> (KV_ERR_NONE, s2))"

text \<open>The arrays of \<^verbatim>\<open>struct blk_info\<close> are the lists of the blocks put into them.\<close>

definition kv_handle_incomplete_gc ::
  "'d kv_flash_ctl \<Rightarrow> nat list \<Rightarrow> nat list \<Rightarrow> nat \<Rightarrow> 'd kv_st \<Rightarrow> kv_err \<times> 'd kv_st" where
  "kv_handle_incomplete_gc fc gc_src gc_dst_not_done fresh_blk s =
     (if 1 < length gc_src \<or> 1 < length gc_dst_not_done then (KV_ERR_BLK_STATUS_ERROR, s)
      else if gc_src = [] then (KV_ERR_NONE, s)
      else if gc_dst_not_done = [] then
        (if fresh_blk = KV_BLK_INVALID then (KV_ERR_BLK_STATUS_ERROR, s)
         else kv_do_gc fc (hd gc_src) fresh_blk True s)
      else let (err, s1) = kv_blk_format fc (hd gc_dst_not_done) s
           in if err \<noteq> KV_ERR_NONE then (err, kv_blk_set_bad fc (hd gc_dst_not_done) s1)
              else kv_do_gc fc (hd gc_src) (hd gc_dst_not_done) True s1)"

primrec kv_build_in ::
  "'d kv_flash_ctl \<Rightarrow> nat list \<Rightarrow> nat list \<Rightarrow> nat list \<Rightarrow> nat \<Rightarrow> 'd kv_st
     \<Rightarrow> nat list \<times> nat list \<times> nat \<times> 'd kv_st" where
  "kv_build_in fc [] src dst fresh s = (src, dst, fresh, s)"
| "kv_build_in fc (b # bs) src dst fresh s =
     (let (err, hdr) = kv_blk_hdr_read fc b s
      in if err \<noteq> KV_ERR_NONE then kv_build_in fc bs src dst fresh (kv_blk_set_bad fc b s)
         else if \<not> KV_BLK_IS_LEGAL hdr then
           (let (err, s1) = kv_blk_format fc b s
            in if err \<noteq> KV_ERR_NONE then kv_build_in fc bs src dst fresh (kv_blk_set_bad fc b s1)
               else kv_build_in fc bs src dst b s1)
         else if KV_BLK_IS_GC_SRC hdr then kv_build_in fc bs (src @ [b]) dst fresh s
         else if KV_BLK_IS_GC_DST_NOT_DONE hdr then kv_build_in fc bs src (dst @ [b]) fresh s
         else let (err, s1) = kv_mgr_index_build fc b s
         in if err \<noteq> KV_ERR_NONE then kv_build_in fc bs src dst fresh (kv_blk_set_hanging fc b s1)
            else kv_build_in fc bs src dst (if kv_blk_is_fresh fc b s1 then b else fresh) s1)"

definition kv_mgr_ctl_build :: "'d kv_flash_ctl \<Rightarrow> 'd kv_st \<Rightarrow> kv_err \<times> 'd kv_st" where
  "kv_mgr_ctl_build fc s =
     (let (src, dst, fresh, s1) = kv_build_in fc (KV_BLK_FOR_EACH fc) [] [] KV_BLK_INVALID s
      in kv_handle_incomplete_gc fc src dst fresh s1)"

text \<open>The allocation of the table and the creation of the mutex each draw an outcome.\<close>

definition kv_mgr_ctl_init :: "'d kv_flash_ctl \<Rightarrow> 'd kv_st \<Rightarrow> kv_err \<times> 'd kv_st" where
  "kv_mgr_ctl_init fc s =
     (let total = (u32_sub (flash_end fc) (flash_start fc) div KV_FLASH_SECTOR_SIZE fc) mod 2 ^ 16;
          s0 = s\<lparr>num_total := total\<rparr>;
          (ok, s1) = ln_kv_malloc s0
      in if \<not> ok then (KV_ERR_OUT_OF_MEMORY, s1)
         else let s2 = s1\<lparr>blk_detail := replicate total \<lparr>blk_flags = 0, free_size = 0\<rparr>\<rparr>;
                  (ok, s3) = ln_kv_malloc s2
              in if \<not> ok then (KV_ERR_INTERNAL_ERROR, s3) else (KV_ERR_NONE, s3))"

definition kv_zero :: "'d kv_st \<Rightarrow> 'd kv_st" where
  "kv_zero s = s\<lparr>workspace := 0, num_inuse := 0, num_fresh := 0, num_hanging := 0, num_total := 0,
                blk_detail := []\<rparr>"

definition kv_mgr_ctl_deinit :: "'d kv_st \<Rightarrow> 'd kv_st" where
  "kv_mgr_ctl_deinit s = kv_zero s"

section \<open>The interface\<close>

definition ln_kv_init ::
  "nat \<Rightarrow> nat \<Rightarrow> 'd kv_flash_drv option \<Rightarrow> nat option \<Rightarrow> 'd kv_flash_ctl \<times> 'd kv_st
     \<Rightarrow> kv_err \<times> 'd kv_flash_ctl \<times> 'd kv_st" where
  "ln_kv_init start fin drv prop = (\<lambda>(fc0, s0).
     if kv_param_verify start fin drv prop \<noteq> KV_ERR_NONE then (KV_ERR_INVALID_PARAM, fc0, s0)
     else let fc = kv_flash_ctl_init start fin (the drv) (the prop);
              (err, s1) = kv_mgr_ctl_init fc (kv_zero s0)
     in if err \<noteq> KV_ERR_NONE then (err, fc, s1)
        else let (err, s2) = kv_mgr_ctl_build fc s1
     in if err \<noteq> KV_ERR_NONE then (err, fc, s2)
        else let (err, s3) = kv_mgr_workspace_locate fc s2 in (err, fc, s3))"

definition ln_kv_deinit :: "'d kv_st \<Rightarrow> kv_err \<times> 'd kv_st" where
  "ln_kv_deinit s = (KV_ERR_NONE, kv_mgr_ctl_deinit s)"

definition ln_kv_set ::
  "'d kv_flash_ctl \<Rightarrow> byte list option \<Rightarrow> byte list option \<Rightarrow> 'd kv_st \<Rightarrow> (kv_err \<times> 'd kv_st) option" where
  "ln_kv_set fc key val s =
     (case (key, val) of
        (Some k, Some v) \<Rightarrow>
          if 255 \<le> length k \<or> 65535 \<le> length v then Some (KV_ERR_SIZE_EXCEEDED, s)
          else (case kv_item_find fc k s of
                  (Some item, s1) \<Rightarrow> kv_item_update fc item k v s1
                | (None, s1) \<Rightarrow>
                    (case kv_item_save fc k v None s1 of
                       None \<Rightarrow> None
                     | Some (err, _, s2) \<Rightarrow> Some (err, s2)))
      | _ \<Rightarrow> Some (KV_ERR_INVALID_PARAM, s))"

text \<open>\<open>ln_kv_get\<close> is given the size of the buffer, if there is one, and whether \<^verbatim>\<open>value_len\<close> is a
  pointer.  It returns the error, what it stores through \<^verbatim>\<open>value_len\<close> and what it copies into
  the buffer.\<close>

definition ln_kv_get ::
  "'d kv_flash_ctl \<Rightarrow> byte list option \<Rightarrow> nat option \<Rightarrow> bool \<Rightarrow> 'd kv_st
     \<Rightarrow> kv_err \<times> nat option \<times> byte list \<times> 'd kv_st" where
  "ln_kv_get fc key buf has_len s =
     (case (key, buf) of
        (Some k, Some buf_size) \<Rightarrow>
          if \<not> has_len then (KV_ERR_INVALID_PARAM, None, [], s)
          else if 255 \<le> length k then (KV_ERR_SIZE_EXCEEDED, None, [], s)
          else (case kv_item_find fc k s of
                  (None, s1) \<Rightarrow> (KV_ERR_NOT_EXIST, None, [], s1)
                | (Some item, s1) \<Rightarrow>
                    let k_len = unat (ih_k_len (item_hdr item)); v_len = unat (ih_v_len (item_hdr item))
                    in if buf_size < v_len then (KV_ERR_BUF_TOO_SHORT, Some v_len, [], s1)
                       else (KV_ERR_NONE, Some v_len, take v_len (drop k_len (the (item_body item))), s1))
      | _ \<Rightarrow> (KV_ERR_INVALID_PARAM, None, [], s))"

text \<open>The value of an error as the \<^verbatim>\<open>int\<close> that \<open>ln_kv_has_key\<close> returns.\<close>

primrec kv_err_code :: "kv_err \<Rightarrow> int" where
  "kv_err_code KV_ERR_NONE = 0"
| "kv_err_code KV_ERR_BUF_TOO_SHORT = 10"
| "kv_err_code KV_ERR_BLK_STATUS_ERROR = 11"
| "kv_err_code KV_ERR_DATA_FETCH_FAILED = 20"
| "kv_err_code KV_ERR_FLASH_ERASE_FAILED = 30"
| "kv_err_code KV_ERR_FLASH_READ_FAILED = 31"
| "kv_err_code KV_ERR_FLASH_WRITE_FAILED = 32"
| "kv_err_code KV_ERR_GC_NOTHING = 40"
| "kv_err_code KV_ERR_INTERNAL_ERROR = 50"
| "kv_err_code KV_ERR_INSUFFICIENT_SPACE = 51"
| "kv_err_code KV_ERR_INVALID_PARAM = 52"
| "kv_err_code KV_ERR_INVALID_ITEM = 53"
| "kv_err_code KV_ERR_NEXT_LOOP = 60"
| "kv_err_code KV_ERR_NOT_EXIST = 61"
| "kv_err_code KV_ERR_NO_WRITEABLE_BLK = 62"
| "kv_err_code KV_ERR_OUT_OF_MEMORY = 70"
| "kv_err_code KV_ERR_POS_FIX_FAILED = 80"
| "kv_err_code KV_ERR_SIZE_EXCEEDED = 90"

definition ln_kv_has_key :: "'d kv_flash_ctl \<Rightarrow> byte list option \<Rightarrow> 'd kv_st \<Rightarrow> int \<times> 'd kv_st" where
  "ln_kv_has_key fc key s =
     (case key of
        None \<Rightarrow> (kv_err_code KV_ERR_INVALID_PARAM, s)
      | Some k \<Rightarrow>
          if 255 \<le> length k then (kv_err_code KV_ERR_SIZE_EXCEEDED, s)
          else (case kv_item_find fc k s of
                  (Some item, s1) \<Rightarrow> (1, s1)
                | (None, s1) \<Rightarrow> (0, s1)))"

definition ln_kv_del :: "'d kv_flash_ctl \<Rightarrow> byte list option \<Rightarrow> 'd kv_st \<Rightarrow> kv_err \<times> 'd kv_st" where
  "ln_kv_del fc key s =
     (case key of
        None \<Rightarrow> (KV_ERR_INVALID_PARAM, s)
      | Some k \<Rightarrow>
          if 255 \<le> length k then (KV_ERR_SIZE_EXCEEDED, s)
          else (case kv_item_find fc k s of
                  (None, s1) \<Rightarrow> (KV_ERR_NOT_EXIST, s1)
                | (Some item, s1) \<Rightarrow> kv_item_delete fc item s1))"

end
