(* ===== verification/Kv_Layout.thy ===== *)
theory Kv_Layout
  imports Kv_Model "HOL-Library.Sublist"
begin

unbundle bit_operations_syntax

text \<open>
  What the key-value store means by the bytes of a block: a list of entries, each an item
  header with its key and value, followed by erased cells.  The lemmas here are about bytes
  alone: reading a header or a body back from the layout, appending an entry to it, marking
  one discarded, and that the item magic occurs in a block only where an entry begins.
\<close>

section \<open>Entries\<close>

record kv_entry =
  e_live :: bool
  e_key :: "byte list"
  e_val :: "byte list"
  e_prev :: u32

definition entry_hdr :: "kv_entry \<Rightarrow> kv_item_hdr" where
  "entry_hdr e = \<lparr>ih_discarded_flag = (if e_live e then - 1 else KV_ITEM_DISCARDED),
     ih_magic = KV_ITEM_HDR_MAGIC, ih_checksum = kv_checksum_crc8 (e_key e @ e_val e) (length (e_key e @ e_val e)),
     ih_k_len = of_nat (length (e_key e)), ih_v_len = of_nat (length (e_val e)), ih_prev_pos = e_prev e\<rparr>"

definition entry_bytes :: "kv_entry \<Rightarrow> byte list" where
  "entry_bytes e = bytes_of_item_hdr (entry_hdr e) @ e_key e @ e_val e"

definition entry_size :: "kv_entry \<Rightarrow> nat" where
  "entry_size e = 24 + length (e_key e) + length (e_val e)"

definition esize :: "kv_entry list \<Rightarrow> nat" where
  "esize es = sum_list (map entry_size es)"

definition magic_bytes :: "byte list" where
  "magic_bytes = le_bytes 8 KV_ITEM_HDR_MAGIC"

text \<open>The keys and values the store is meant for: neither is empty or as long as the largest
  value of its length field, and together they do not contain the text \<^verbatim>\<open>it_magic\<close>.\<close>

definition kv_clean :: "byte list \<Rightarrow> byte list \<Rightarrow> bool" where
  "kv_clean k v \<longleftrightarrow> 0 < length k \<and> length k < 255 \<and> 0 < length v \<and> length v < 65535
     \<and> \<not> sublist magic_bytes (k @ v)"

definition entry_ok :: "kv_entry \<Rightarrow> bool" where
  "entry_ok e \<longleftrightarrow> kv_clean (e_key e) (e_val e) \<and> unat (e_prev e) < 2 ^ 24"

definition blk_bytes :: "nat \<Rightarrow> kv_entry list \<Rightarrow> byte list" where
  "blk_bytes F es = concat (map entry_bytes es) @ replicate (F - esize es) (- 1)"

lemma length_bytes_of_item_hdr [simp]: "length (bytes_of_item_hdr h) = 24"
  by (simp add: bytes_of_item_hdr_def)

lemma item_hdr_roundtrip [simp]: "item_hdr_of_bytes (bytes_of_item_hdr h) = h"
  by (simp add: item_hdr_of_bytes_def bytes_of_item_hdr_def le_simps)

lemma item_hdr_take [simp]: "length bs = 24 \<Longrightarrow> item_hdr_of_bytes (bs @ cs) = item_hdr_of_bytes bs"
  by (simp add: item_hdr_of_bytes_def)

lemma length_entry_bytes [simp]: "length (entry_bytes e) = entry_size e"
  by (simp add: entry_bytes_def entry_size_def)

lemma entry_nonempty [simp]: "entry_bytes e \<noteq> []"
proof
  assume "entry_bytes e = []"
  then have "length (entry_bytes e) = 0" by (simp only: list.size)
  then show False by (simp add: entry_size_def)
qed

lemma esize_simps [simp]:
  "esize [] = 0" "esize (e # es) = entry_size e + esize es" "esize (es @ fs) = esize es + esize fs"
  by (simp_all add: esize_def)

lemma length_concat_entries [simp]: "length (concat (map entry_bytes es)) = esize es"
  by (induction es) auto

lemma length_blk_bytes [simp]: "esize es \<le> F \<Longrightarrow> length (blk_bytes F es) = F"
  by (simp add: blk_bytes_def)

lemma entry_size_gt: "entry_ok e \<Longrightarrow> 24 < entry_size e"
  by (auto simp: entry_ok_def kv_clean_def entry_size_def)

lemma entry_hdr_lens [simp]:
  assumes "entry_ok e"
  shows "unat (ih_k_len (entry_hdr e)) = length (e_key e)" "unat (ih_v_len (entry_hdr e)) = length (e_val e)"
    "ih_k_len (entry_hdr e) \<noteq> 0" "ih_k_len (entry_hdr e) \<noteq> - 1"
    "ih_v_len (entry_hdr e) \<noteq> 0" "ih_v_len (entry_hdr e) \<noteq> - 1"
proof -
  have k: "0 < length (e_key e)" "length (e_key e) < 255" and v: "0 < length (e_val e)" "length (e_val e) < 65535"
    using assms by (auto simp: entry_ok_def kv_clean_def)
  show uk: "unat (ih_k_len (entry_hdr e)) = length (e_key e)"
    using k by (simp add: entry_hdr_def unat_of_nat)
  show uv: "unat (ih_v_len (entry_hdr e)) = length (e_val e)"
    using v by (simp add: entry_hdr_def unat_of_nat)
  show "ih_k_len (entry_hdr e) \<noteq> 0" using k uk by (auto simp: unat_eq_0)
  show "ih_v_len (entry_hdr e) \<noteq> 0" using v uv by (auto simp: unat_eq_0)
  show "ih_k_len (entry_hdr e) \<noteq> - 1"
  proof
    assume "ih_k_len (entry_hdr e) = - 1"
    then have "unat (ih_k_len (entry_hdr e)) = 255" by (simp add: unsigned_minus_1_eq_mask mask_eq_exp_minus_1)
    then show False using uk k by simp
  qed
  show "ih_v_len (entry_hdr e) \<noteq> - 1"
  proof
    assume "ih_v_len (entry_hdr e) = - 1"
    then have "unat (ih_v_len (entry_hdr e)) = 65535" by (simp add: unsigned_minus_1_eq_mask mask_eq_exp_minus_1)
    then show False using uv v by simp
  qed
qed

lemma entry_hdr_legal [simp]: "KV_ITEM_IS_LEGAL (entry_hdr e)"
  by (simp add: KV_ITEM_IS_LEGAL_def entry_hdr_def)

lemma entry_hdr_discarded [simp]: "KV_ITEM_IS_DISCARDED (entry_hdr e) \<longleftrightarrow> \<not> e_live e"
  by (simp add: KV_ITEM_IS_DISCARDED_def entry_hdr_def KV_ITEM_DISCARDED_def)

section \<open>Reading entries back\<close>

lemma mem_sub: "mem_read m a N = L \<Longrightarrow> k + n \<le> N \<Longrightarrow> mem_read m (a + k) n = take n (drop k L)"
  by auto

lemma blk_at_entry:
  assumes "mem_read m a F = blk_bytes F (pre @ e # post)" "esize (pre @ e # post) \<le> F"
  shows "mem_read m (a + esize pre) (entry_size e) = entry_bytes e"
  using mem_sub [OF assms(1), of "esize pre" "entry_size e"] assms(2) by (simp add: blk_bytes_def)

lemma blk_at_hdr:
  assumes "mem_read m a F = blk_bytes F (pre @ e # post)" "esize (pre @ e # post) \<le> F"
  shows "mem_read m (a + esize pre) 24 = bytes_of_item_hdr (entry_hdr e)"
  using mem_read_split [of m "a + esize pre" "entry_size e" "bytes_of_item_hdr (entry_hdr e)"]
    blk_at_entry [OF assms] by (simp add: entry_bytes_def)

lemma blk_at_body:
  assumes "mem_read m a F = blk_bytes F (pre @ e # post)" "esize (pre @ e # post) \<le> F"
  shows "mem_read m (a + esize pre + 24) (length (e_key e) + length (e_val e)) = e_key e @ e_val e"
  using mem_read_split [of m "a + esize pre" "entry_size e" "bytes_of_item_hdr (entry_hdr e)"]
    blk_at_entry [OF assms] by (simp add: entry_bytes_def)

lemma blk_at_tail:
  assumes "mem_read m a F = blk_bytes F es" "esize es + n \<le> F"
  shows "mem_read m (a + esize es) n = replicate n (- 1)"
  using mem_sub [OF assms] assms(2) by (simp add: blk_bytes_def)

lemma le_word_ones: "le_word (replicate n (- 1)) = (mask (8 * n) :: 'a::len word)"
proof (induction n)
  case 0
  then show ?case by simp
next
  case (Suc n)
  show ?case by (rule bit_word_eqI) (auto simp: Suc bit_simps)
qed

lemma le_word_ones_full: "LENGTH('a) = 8 * n \<Longrightarrow> le_word (replicate n (- 1)) = (- 1 :: 'a::len word)"
  by (rule bit_word_eqI) (auto simp: le_word_ones bit_simps)

lemma erased_hdr [simp]:
  "KV_ITEM_IS_FRESH (item_hdr_of_bytes (replicate 24 (- 1)))"
  "\<not> KV_ITEM_IS_LEGAL (item_hdr_of_bytes (replicate 24 (- 1)))"
  by (simp_all add: KV_ITEM_IS_FRESH_def KV_ITEM_IS_LEGAL_def item_hdr_of_bytes_def
      le_word_ones_full KV_ITEM_HDR_MAGIC_def)

section \<open>Changing a block\<close>

lemma mem_read_prog:
  assumes "mem_read m a N = L" "k + length bs \<le> N"
  shows "mem_read (nor_prog m (a + k) bs) a N
    = take k L @ map2 (AND) (take (length bs) (drop k L)) bs @ drop (k + length bs) L"
  using assms by (intro nth_equalityI) (auto simp: nor_prog_def nth_append)

lemma le_bytes_ones: "8 * n \<le> LENGTH('a) \<Longrightarrow> le_bytes n (- 1 :: 'a::len word) = replicate n (- 1)"
proof -
  assume n: "8 * n \<le> LENGTH('a)"
  have "le_bytes n v = replicate n (- 1)" if "\<And>i. i < 8 * n \<Longrightarrow> bit v i" for v :: "'a word"
    using that n
  proof (induction n arbitrary: v)
    case 0
    then show ?case by simp
  next
    case (Suc n)
    have "ucast v = (- 1 :: byte)" using Suc.prems by (intro bit_word_eqI) (auto simp: bit_simps)
    moreover have "le_bytes n (drop_bit 8 v) = replicate n (- 1)"
      using Suc.prems by (intro Suc.IH) (auto simp: bit_simps)
    ultimately show ?case by simp
  qed
  then show ?thesis using n by simp
qed

lemma blk_append:
  assumes "mem_read m a F = blk_bytes F es" "esize es + entry_size e \<le> F" "e_live e"
  shows "mem_read (nor_prog m (a + esize es + 8) (drop 8 (entry_bytes e))) a F = blk_bytes F (es @ [e])"
proof -
  have fit: "24 \<le> entry_size e" by (simp add: entry_size_def)
  have eb: "entry_bytes e = replicate 8 (- 1) @ drop 8 (entry_bytes e)"
    using assms(3) by (simp add: entry_bytes_def bytes_of_item_hdr_def entry_hdr_def le_bytes_ones)
  have "mem_read (nor_prog m (a + (esize es + 8)) (drop 8 (entry_bytes e))) a F
    = take (esize es + 8) (blk_bytes F es)
      @ map2 (AND) (take (entry_size e - 8) (drop (esize es + 8) (blk_bytes F es))) (drop 8 (entry_bytes e))
      @ drop (esize es + entry_size e) (blk_bytes F es)"
    using mem_read_prog [OF assms(1), of "esize es + 8" "drop 8 (entry_bytes e)"] assms(2) fit
    by (simp add: add.assoc)
  also have "\<dots> = concat (map entry_bytes es) @ replicate 8 (- 1)
      @ map2 (AND) (replicate (entry_size e - 8) (- 1)) (drop 8 (entry_bytes e))
      @ replicate (F - (esize es + entry_size e)) (- 1)"
    using assms(2) fit by (simp add: blk_bytes_def)
  also have "\<dots> = concat (map entry_bytes es) @ (replicate 8 (- 1) @ drop 8 (entry_bytes e))
      @ replicate (F - (esize es + entry_size e)) (- 1)"
    by (simp add: map2_and_ones)
  also have "\<dots> = blk_bytes F (es @ [e])"
    by (simp add: blk_bytes_def flip: eb)
  finally show ?thesis by (simp add: add.assoc)
qed

lemma blk_discard:
  assumes "mem_read m a F = blk_bytes F (pre @ e # post)" "esize (pre @ e # post) \<le> F" "e_live e"
  shows "mem_read (nor_prog m (a + esize pre) (le_bytes 8 KV_ITEM_DISCARDED)) a F
    = blk_bytes F (pre @ e\<lparr>e_live := False\<rparr> # post)"
proof -
  let ?r = "drop 8 (entry_bytes e) @ concat (map entry_bytes post) @ replicate (F - esize (pre @ e # post)) (- 1)"
  have fit: "24 \<le> entry_size e" by (simp add: entry_size_def)
  have eb: "entry_bytes e = replicate 8 (- 1) @ drop 8 (entry_bytes e)"
    using assms(3) by (simp add: entry_bytes_def bytes_of_item_hdr_def entry_hdr_def le_bytes_ones)
  have eb': "entry_bytes (e\<lparr>e_live := False\<rparr>) = le_bytes 8 KV_ITEM_DISCARDED @ drop 8 (entry_bytes e)"
    by (simp add: entry_bytes_def bytes_of_item_hdr_def entry_hdr_def)
  have sz: "entry_size (e\<lparr>e_live := False\<rparr>) = entry_size e" by (simp add: entry_size_def)
  have "blk_bytes F (pre @ e # post) = concat (map entry_bytes pre) @ replicate 8 (- 1) @ ?r"
    using eb by (simp add: blk_bytes_def)
  then have "mem_read (nor_prog m (a + esize pre) (le_bytes 8 KV_ITEM_DISCARDED)) a F
    = concat (map entry_bytes pre)
      @ map2 (AND) (replicate 8 (- 1)) (le_bytes 8 KV_ITEM_DISCARDED) @ ?r"
    using mem_read_prog [OF assms(1), of "esize pre" "le_bytes 8 KV_ITEM_DISCARDED"] assms(2) fit by simp
  also have "\<dots> = concat (map entry_bytes pre) @ (le_bytes 8 KV_ITEM_DISCARDED @ drop 8 (entry_bytes e))
      @ concat (map entry_bytes post) @ replicate (F - esize (pre @ e # post)) (- 1)"
    by (subst map2_and_ones) simp_all
  also have "\<dots> = blk_bytes F (pre @ e\<lparr>e_live := False\<rparr> # post)"
    by (simp add: blk_bytes_def eb' sz)
  finally show ?thesis .
qed

section \<open>Where the item magic occurs\<close>

lemma magic_bytes_eq: "magic_bytes = [0x69, 0x74, 0x5F, 0x6D, 0x61, 0x67, 0x69, 0x63]"
  by (simp add: magic_bytes_def KV_ITEM_HDR_MAGIC_def le_bytes_numeral)

lemma length_magic_bytes [simp]: "length magic_bytes = 8"
  by (simp add: magic_bytes_eq)

lemma magic_bytes_nth:
  assumes "j < 8"
  shows "magic_bytes ! j \<noteq> - 1" "magic_bytes ! j \<noteq> 0x0F" "magic_bytes ! j \<noteq> 0"
proof -
  have "\<forall>x\<in>set magic_bytes. x \<noteq> - 1 \<and> x \<noteq> 0x0F \<and> x \<noteq> 0" by (simp add: magic_bytes_eq)
  moreover have "magic_bytes ! j \<in> set magic_bytes"
    using assms by (intro nth_mem) (simp add: magic_bytes_eq)
  ultimately show "magic_bytes ! j \<noteq> - 1" "magic_bytes ! j \<noteq> 0x0F" "magic_bytes ! j \<noteq> 0" by blast+
qed

lemma magic_bytes_end: "j < 7 \<Longrightarrow> magic_bytes ! j \<noteq> magic_bytes ! 7"
proof -
  have "magic_bytes ! 7 \<notin> set (take 7 magic_bytes)" by (simp add: magic_bytes_eq)
  moreover assume "j < 7"
  then have "magic_bytes ! j \<in> set (take 7 magic_bytes)"
    using nth_mem [of j "take 7 magic_bytes"] by simp
  ultimately show ?thesis by metis
qed

lemma replicate_8: "replicate 8 x = [x, x, x, x, x, x, x, x]"
  by (simp add: numeral_eq_Suc)

lemma discarded_bytes: "le_bytes 8 KV_ITEM_DISCARDED = replicate 8 0x0F"
  by (simp add: KV_ITEM_DISCARDED_def le_bytes_numeral replicate_8)

lemma entry_hdr_bytes:
  "entry_bytes e = (if e_live e then replicate 8 (- 1) else replicate 8 0x0F) @ magic_bytes
     @ le_bytes 1 (ih_checksum (entry_hdr e)) @ le_bytes 1 (ih_k_len (entry_hdr e))
     @ le_bytes 2 (ih_v_len (entry_hdr e)) @ le_bytes 4 (e_prev e) @ e_key e @ e_val e"
  by (simp add: entry_bytes_def bytes_of_item_hdr_def entry_hdr_def le_bytes_ones discarded_bytes magic_bytes_def)

lemma entry_byte_7: "j < 8 \<Longrightarrow> entry_bytes e ! j = - 1 \<or> entry_bytes e ! j = 0x0F"
  by (simp add: entry_hdr_bytes nth_append)

lemma entry_byte_15: "entry_bytes e ! 15 = magic_bytes ! 7"
  by (simp add: entry_hdr_bytes nth_append)

lemma entry_byte_23:
  assumes "entry_ok e"
  shows "entry_bytes e ! 23 = 0"
proof -
  have "entry_bytes e ! 23 = le_bytes 4 (e_prev e) ! 3"
    by (simp add: entry_hdr_bytes nth_append)
  also have "\<dots> = ucast (drop_bit 24 (e_prev e))"
    by (simp add: le_bytes_numeral)
  also have "drop_bit 24 (e_prev e) = 0"
    using assms by (simp add: entry_ok_def unat_drop_bit_eq drop_bit_eq_div [of _ "unat _"] flip: unat_eq_0)
  finally show ?thesis by simp
qed

lemma entry_body_nth:
  "24 \<le> j \<Longrightarrow> j < entry_size e \<Longrightarrow> entry_bytes e ! j = (e_key e @ e_val e) ! (j - 24)"
  by (simp add: entry_bytes_def nth_append)

lemma sublist_window:
  assumes "q + 8 \<le> length L" "\<forall>j<8. L ! (q + j) = magic_bytes ! j"
  shows "sublist magic_bytes L"
proof -
  have "take 8 (drop q L) = magic_bytes"
    using assms by (intro nth_equalityI) auto
  then have "L = take q L @ magic_bytes @ drop (q + 8) L"
    by (metis append_take_drop_id add.commute drop_drop)
  then show ?thesis by (metis sublist_def)
qed

lemma magic_in_entry:
  assumes ok: "entry_ok e" and w: "w < entry_size e" and fit: "w + 8 \<le> length (entry_bytes e @ R)"
    and win: "\<And>j. j < 8 \<Longrightarrow> (entry_bytes e @ R) ! (w + j) = magic_bytes ! j"
    and R: "R \<noteq> [] \<Longrightarrow> hd R = - 1 \<or> hd R = 0x0F"
  shows "w = 8"
proof (rule ccontr)
  assume w8: "w \<noteq> 8"
  have sz: "24 < entry_size e" using ok by (rule entry_size_gt)
  consider "w < 8" | "8 < w" "w \<le> 15" | "16 \<le> w" "w \<le> 23" | "24 \<le> w" using w8 by linarith
  then show False
  proof cases
    case 1
    then have j: "7 - w < 8" by linarith
    show False using win [OF j] entry_byte_7 [of 7 e] magic_bytes_nth [OF j] sz 1
      by (auto simp: nth_append)
  next
    case 2
    then have j: "15 - w < 7" "15 - w < 8" by linarith+
    show False using win [OF j(2)] entry_byte_15 [of e] magic_bytes_end [OF j(1)] sz 2
      by (auto simp: nth_append)
  next
    case 3
    then have j: "23 - w < 8" by linarith
    show False using win [OF j] entry_byte_23 [OF ok] magic_bytes_nth [OF j] sz 3
      by (auto simp: nth_append)
  next
    case 4
    show False
    proof (cases "w + 8 \<le> entry_size e")
      case True
      have "(e_key e @ e_val e) ! (w - 24 + j) = magic_bytes ! j" if "j < 8" for j
        using win [OF that] that True 4 entry_body_nth [of "w + j" e] by (simp add: nth_append)
      moreover have "w - 24 + 8 \<le> length (e_key e @ e_val e)"
        using True 4 by (simp add: entry_size_def)
      ultimately have "sublist magic_bytes (e_key e @ e_val e)"
        using sublist_window by blast
      then show False using ok by (simp add: entry_ok_def kv_clean_def)
    next
      case False
      define j where "j = entry_size e - w"
      have j: "j < 8" "w + j = entry_size e" using False w by (auto simp: j_def)
      have "R \<noteq> []" using fit False by auto
      then have "hd R = magic_bytes ! j"
        using win [OF j(1)] j(2) by (simp add: nth_append hd_conv_nth)
      then show False using R \<open>R \<noteq> []\<close> magic_bytes_nth [OF j(1)] by auto
    qed
  qed
qed

lemma entries_hd:
  "L = concat (map entry_bytes es) @ replicate n (- 1) \<Longrightarrow> L \<noteq> [] \<Longrightarrow> hd L = - 1 \<or> hd L = 0x0F"
proof (cases es)
  case (Cons e es')
  assume "L = concat (map entry_bytes es) @ replicate n (- 1)"
  then have "hd L = entry_bytes e ! 0"
    using Cons by (simp add: hd_append hd_conv_nth entry_nonempty)
  then show ?thesis using entry_byte_7 [of 0 e] by auto
qed auto

lemma magic_at_entry:
  assumes "list_all entry_ok es" "w + 8 \<le> length L"
    and "L = concat (map entry_bytes es) @ replicate n (- 1)"
    and "\<And>j. j < 8 \<Longrightarrow> L ! (w + j) = magic_bytes ! j"
  shows "\<exists>pre e post. es = pre @ e # post \<and> w = esize pre + 8"
  using assms
proof (induction es arbitrary: w L)
  case Nil
  have "(- 1 :: byte) = magic_bytes ! 0" using Nil.prems(2,3) Nil.prems(4) [of 0] by simp
  then show ?case using magic_bytes_nth(1) [of 0] by simp
next
  case (Cons e es)
  let ?R = "concat (map entry_bytes es) @ replicate n (- 1)"
  have L: "L = entry_bytes e @ ?R" using Cons.prems(3) by simp
  show ?case
  proof (cases "w < entry_size e")
    case True
    have "w = 8"
    proof (rule magic_in_entry [OF _ True, of ?R])
      show "entry_ok e" using Cons.prems(1) by simp
      show "w + 8 \<le> length (entry_bytes e @ ?R)" using Cons.prems(2) L by simp
      show "(entry_bytes e @ ?R) ! (w + j) = magic_bytes ! j" if "j < 8" for j
        using Cons.prems(4) [OF that] L by simp
      show "hd ?R = - 1 \<or> hd ?R = 0x0F" if "?R \<noteq> []" using entries_hd [OF refl that] .
    qed
    then show ?thesis by (intro exI [of _ "[]"] exI [of _ e] exI [of _ es]) simp
  next
    case False
    have "\<exists>pre e' post. es = pre @ e' # post \<and> w - entry_size e = esize pre + 8"
    proof (rule Cons.IH [OF _ _ refl])
      show "list_all entry_ok es" using Cons.prems(1) by simp
      show "w - entry_size e + 8 \<le> length ?R" using Cons.prems(2) False L by simp
      show "?R ! (w - entry_size e + j) = magic_bytes ! j" if "j < 8" for j
        using Cons.prems(4) [OF that] False L by (simp add: nth_append)
    qed
    then obtain pre e' post where "es = pre @ e' # post" "w = esize (e # pre) + 8"
      using False by auto
    then show ?thesis by (metis append_Cons)
  qed
qed

text \<open>A legal header read inside a block is the header of one of its entries.\<close>

lemma legal_hdr_is_entry:
  assumes m: "mem_read m a F = blk_bytes F es" and sz: "esize es \<le> F" and ok: "list_all entry_ok es"
    and legal: "KV_ITEM_IS_LEGAL (item_hdr_of_bytes (mem_read m (a + w) 24))" and fit: "w + 24 \<le> F"
  shows "\<exists>pre e post. es = pre @ e # post \<and> w = esize pre"
proof -
  let ?L = "blk_bytes F es"
  have "le_word (mem_read m (a + w + 8) 8) = KV_ITEM_HDR_MAGIC"
    using legal by (simp add: KV_ITEM_IS_LEGAL_def item_hdr_of_bytes_def)
  then have win: "mem_read m (a + w + 8) 8 = magic_bytes"
    using le_bytes_le_word [of "mem_read m (a + w + 8) 8" 8, where 'a = 64] by (simp add: magic_bytes_def)
  have "?L ! (w + 8 + j) = magic_bytes ! j" if "j < 8" for j
  proof -
    have "?L ! (w + 8 + j) = m (a + (w + 8 + j))"
      using that fit by (simp add: nth_mem_read flip: m)
    also have "\<dots> = mem_read m (a + w + 8) 8 ! j" using that by (simp add: add.assoc)
    finally show ?thesis using win by simp
  qed
  moreover have "w + 8 + 8 \<le> length ?L" using fit sz by simp
  ultimately have "\<exists>pre e post. es = pre @ e # post \<and> w + 8 = esize pre + 8"
    using magic_at_entry [OF ok, of "w + 8" ?L "F - esize es"] by (simp add: blk_bytes_def)
  then show ?thesis by auto
qed

end
