(* ===== verification/Kv_Refine.thy ===== *)
theory Kv_Refine
  imports Kv_Layout
begin

unbundle bit_operations_syntax

text \<open>
  The refinement of the key-value store: over a driver that keeps the NOR contract
  (locale \<open>nor_drv\<close>) and a well-formed partition (locale \<open>kv_store\<close>), the state represents
  a list of entries per block (\<open>kv_rep\<close>), and every operation acts on these lists.
\<close>

section \<open>The contract of the flash driver\<close>

locale nor_drv =
  fixes drv :: "'d kv_flash_drv" and cells :: "'d \<Rightarrow> mem" and cap :: nat and sect :: nat
  assumes read_ok: "a + n \<le> cap \<Longrightarrow> \<exists>r. drv_read drv a n d = (r, mem_read (cells d) a n) \<and> 0 \<le> r"
    and write_ok: "a + length bs \<le> cap \<Longrightarrow>
      \<exists>r d'. drv_write drv a bs d = (r, d') \<and> 0 \<le> r \<and> cells d' = nor_prog (cells d) a bs"
    and erase_ok: "a mod sect = 0 \<Longrightarrow> n mod sect = 0 \<Longrightarrow> a + n \<le> cap \<Longrightarrow>
      \<exists>r d'. drv_erase drv a n d = (r, d') \<and> 0 \<le> r \<and> cells d' = nor_erase (cells d) a n"

definition kv_geometry :: "'d kv_flash_ctl \<Rightarrow> nat \<Rightarrow> nat \<Rightarrow> bool" where
  "kv_geometry fc cap sect \<longleftrightarrow>
     6 \<le> sector_size_log2 fc \<and> flash_start fc mod KV_BLK_SIZE fc = 0 \<and> flash_end fc mod KV_BLK_SIZE fc = 0
     \<and> flash_start fc \<le> flash_end fc \<and> flash_end fc \<le> cap \<and> cap \<le> 2 ^ 24
     \<and> KV_BLK_SIZE fc mod sect = 0 \<and> (flash_end fc - flash_start fc) div KV_BLK_SIZE fc < 2 ^ 16"

section \<open>The index table\<close>

abbreviation dt :: "'d kv_flash_ctl \<Rightarrow> 'd kv_st \<Rightarrow> nat \<Rightarrow> kv_blk_detail" where
  "dt fc s b \<equiv> blk_detail s ! KV_BLK_ADDR2IDX fc b"

lemma flag_bits [simp]:
  "(x :: u8) AND KV_BLK_FLAG_FRESH \<noteq> 0 \<longleftrightarrow> bit x 0"
  "x AND KV_BLK_FLAG_INUSE \<noteq> 0 \<longleftrightarrow> bit x 1"
  "x AND KV_BLK_FLAG_DIRTY \<noteq> 0 \<longleftrightarrow> bit x 2"
  "x AND KV_BLK_FLAG_BAD \<noteq> 0 \<longleftrightarrow> bit x 3"
  "x AND KV_BLK_FLAG_HANGING \<noteq> 0 \<longleftrightarrow> bit x 4"
proof -
  have "x AND 2 ^ n \<noteq> 0 \<longleftrightarrow> bit x n" for n
    using bit_iff_and_push_bit_not_eq_0 [of x n] by (simp add: push_bit_eq_mult)
  from this [of 0] this [of 1] this [of 2] this [of 3] this [of 4] show
    "x AND KV_BLK_FLAG_FRESH \<noteq> 0 \<longleftrightarrow> bit x 0"
    "x AND KV_BLK_FLAG_INUSE \<noteq> 0 \<longleftrightarrow> bit x 1"
    "x AND KV_BLK_FLAG_DIRTY \<noteq> 0 \<longleftrightarrow> bit x 2"
    "x AND KV_BLK_FLAG_BAD \<noteq> 0 \<longleftrightarrow> bit x 3"
    "x AND KV_BLK_FLAG_HANGING \<noteq> 0 \<longleftrightarrow> bit x 4"
    by (simp_all add: KV_BLK_FLAG_FRESH_def KV_BLK_FLAG_INUSE_def KV_BLK_FLAG_DIRTY_def
        KV_BLK_FLAG_BAD_def KV_BLK_FLAG_HANGING_def)
qed

lemma flag_bit_values [simp]:
  "bit KV_BLK_FLAG_FRESH n \<longleftrightarrow> n = 0" "bit KV_BLK_FLAG_INUSE n \<longleftrightarrow> n = 1"
  "bit KV_BLK_FLAG_DIRTY n \<longleftrightarrow> n = 2" "bit KV_BLK_FLAG_BAD n \<longleftrightarrow> n = 3"
  "bit KV_BLK_FLAG_HANGING n \<longleftrightarrow> n = 4"
proof -
  have "bit (2 ^ k :: u8) n \<longleftrightarrow> n = k" if "k < 8" for k
    using that by (auto simp: bit_exp_iff)
  from this [of 0] this [of 1] this [of 2] this [of 3] this [of 4] show
    "bit KV_BLK_FLAG_FRESH n \<longleftrightarrow> n = 0" "bit KV_BLK_FLAG_INUSE n \<longleftrightarrow> n = 1"
    "bit KV_BLK_FLAG_DIRTY n \<longleftrightarrow> n = 2" "bit KV_BLK_FLAG_BAD n \<longleftrightarrow> n = 3"
    "bit KV_BLK_FLAG_HANGING n \<longleftrightarrow> n = 4"
    by (simp_all add: KV_BLK_FLAG_FRESH_def KV_BLK_FLAG_INUSE_def KV_BLK_FLAG_DIRTY_def
        KV_BLK_FLAG_BAD_def KV_BLK_FLAG_HANGING_def)
qed

lemma blk_is_bits [simp]:
  "kv_blk_is_fresh fc b s \<longleftrightarrow> bit (blk_flags (dt fc s b)) 0"
  "kv_blk_is_inuse fc b s \<longleftrightarrow> bit (blk_flags (dt fc s b)) 1"
  "kv_blk_is_dirty fc b s \<longleftrightarrow> bit (blk_flags (dt fc s b)) 2"
  "kv_blk_is_bad fc b s \<longleftrightarrow> bit (blk_flags (dt fc s b)) 3"
  "kv_blk_is_hanging fc b s \<longleftrightarrow> bit (blk_flags (dt fc s b)) 4"
  by (simp_all add: kv_blk_is_fresh_def kv_blk_is_inuse_def kv_blk_is_dirty_def kv_blk_is_bad_def
      kv_blk_is_hanging_def kv_blk_flags_get_def)

text \<open>Every index operation changes the entry of its block and possibly a counter.\<close>

definition idx_op :: "'d kv_flash_ctl \<Rightarrow> nat \<Rightarrow> (kv_blk_detail \<Rightarrow> kv_blk_detail) \<Rightarrow> 'd kv_st \<Rightarrow> 'd kv_st \<Rightarrow> bool" where
  "idx_op fc b f s s' \<longleftrightarrow>
     blk_detail s' = (blk_detail s)[KV_BLK_ADDR2IDX fc b := f (dt fc s b)] \<and> dev s' = dev s
     \<and> malloc_faults s' = malloc_faults s \<and> workspace s' = workspace s \<and> num_hanging s' = num_hanging s"

lemma idx_op_intros:
  "idx_op fc b (\<lambda>d. d\<lparr>free_size := v\<rparr>) s (kv_blk_freesz_set fc b v s)"
  "idx_op fc b (\<lambda>d. d\<lparr>free_size := u32_sub (free_size d) n\<rparr>) s (kv_blk_freesz_reduce fc b n s)"
  "idx_op fc b (\<lambda>d. d\<lparr>blk_flags := blk_flags d OR KV_BLK_FLAG_DIRTY\<rparr>) s (kv_blk_set_dirty fc b s)"
  "idx_op fc b (\<lambda>d. d\<lparr>blk_flags := blk_flags d OR KV_BLK_FLAG_INUSE\<rparr>) s (kv_blk_set_inuse fc b s)"
  "idx_op fc b (\<lambda>d. d\<lparr>blk_flags := blk_flags d AND NOT KV_BLK_FLAG_INUSE\<rparr>) s (kv_blk_reset_inuse fc b s)"
  "idx_op fc b (\<lambda>d. d\<lparr>blk_flags := blk_flags d AND NOT KV_BLK_FLAG_FRESH\<rparr>) s (kv_blk_reset_fresh fc b s)"
  "idx_op fc b (\<lambda>d. d\<lparr>blk_flags := KV_BLK_FLAG_BAD\<rparr>) s (kv_blk_set_bad fc b s)"
  by (simp_all add: idx_op_def upd_detail_def kv_blk_freesz_set_def kv_blk_freesz_reduce_def
      kv_blk_freesz_get_def kv_blk_set_dirty_def kv_blk_flags_add_def kv_blk_set_inuse_def
      kv_blk_reset_inuse_def kv_blk_reset_fresh_def kv_blk_flags_rmv_def kv_blk_set_bad_def
      kv_blk_flags_set_def Let_def)

lemma idx_op_set_fresh:
  "idx_op fc b (\<lambda>d. \<lparr>blk_flags = KV_BLK_FLAG_FRESH, free_size = KV_BLK_FRESH_SIZE fc\<rparr>) s (kv_blk_set_fresh fc b s)"
  by (cases "KV_BLK_ADDR2IDX fc b < length (blk_detail s)"; cases "dt fc s b")
    (simp_all add: list_update_beyond idx_op_def upd_detail_def kv_blk_freesz_set_def kv_blk_flags_set_def kv_blk_set_fresh_def Let_def)

section \<open>What a state represents\<close>

definition blk_data :: "'d kv_flash_ctl \<Rightarrow> mem \<Rightarrow> nat \<Rightarrow> kv_blk_detail \<Rightarrow> kv_entry list \<Rightarrow> bool" where
  "blk_data fc m b d es \<longleftrightarrow>
     \<not> bit (blk_flags d) 3 \<and> \<not> bit (blk_flags d) 4 \<and> list_all entry_ok es \<and> esize es \<le> KV_BLK_SIZE fc - 32
     \<and> (free_size d = KV_BLK_SIZE fc - 32 - esize es \<or> KV_BLK_SIZE fc - 32 - esize es \<le> 24 \<and> free_size d = 0)
     \<and> mem_read m (b + 32) (KV_BLK_SIZE fc - 32) = blk_bytes (KV_BLK_SIZE fc - 32) es"

definition blk_fresh_ok :: "kv_blk_detail \<Rightarrow> kv_entry list \<Rightarrow> bool" where
  "blk_fresh_ok d es \<longleftrightarrow> (bit (blk_flags d) 0 \<longrightarrow> es = [] \<and> \<not> bit (blk_flags d) 1 \<and> \<not> bit (blk_flags d) 2)"

text \<open>\<open>X\<close> is the set of blocks that are being filled, whose fresh flag is still to be cleared.\<close>

definition kv_repx ::
  "nat set \<Rightarrow> 'd kv_flash_ctl \<Rightarrow> ('d \<Rightarrow> mem) \<Rightarrow> 'd kv_st \<Rightarrow> (nat \<Rightarrow> kv_entry list) \<Rightarrow> bool" where
  "kv_repx X fc cells s ess \<longleftrightarrow>
     malloc_faults s = [] \<and> num_hanging s = 0 \<and> length (blk_detail s) = kv_blk_count fc
     \<and> (workspace s = KV_BLK_INVALID \<or> workspace s \<in> set (KV_BLK_FOR_EACH fc))
     \<and> (\<forall>b\<in>set (KV_BLK_FOR_EACH fc). blk_data fc (cells (dev s)) b (dt fc s b) (ess b)
          \<and> (b \<notin> X \<longrightarrow> blk_fresh_ok (dt fc s b) (ess b)))"

abbreviation kv_rep :: "'d kv_flash_ctl \<Rightarrow> ('d \<Rightarrow> mem) \<Rightarrow> 'd kv_st \<Rightarrow> (nat \<Rightarrow> kv_entry list) \<Rightarrow> bool" where
  "kv_rep \<equiv> kv_repx {}"

definition lives :: "'d kv_flash_ctl \<Rightarrow> (nat \<Rightarrow> kv_entry list) \<Rightarrow> kv_entry list" where
  "lives fc ess = filter e_live (concat (map ess (KV_BLK_FOR_EACH fc)))"

definition kv_map :: "'d kv_flash_ctl \<Rightarrow> (nat \<Rightarrow> kv_entry list) \<Rightarrow> byte list \<rightharpoonup> byte list" where
  "kv_map fc ess = map_of (map (\<lambda>e. (e_key e, e_val e)) (lives fc ess))"

text \<open>The invariant: the state represents the map \<open>m\<close>, each key stored live once.\<close>

definition kv_inv ::
  "'d kv_flash_ctl \<Rightarrow> ('d \<Rightarrow> mem) \<Rightarrow> 'd kv_st \<Rightarrow> (byte list \<rightharpoonup> byte list) \<Rightarrow> bool" where
  "kv_inv fc cells s m \<longleftrightarrow>
     (\<exists>ess. kv_rep fc cells s ess \<and> distinct (map e_key (lives fc ess)) \<and> m = kv_map fc ess)"

definition same_outside :: "'d kv_flash_ctl \<Rightarrow> mem \<Rightarrow> mem \<Rightarrow> bool" where
  "same_outside fc m m' \<longleftrightarrow> (\<forall>x. x < flash_start fc \<or> flash_end fc \<le> x \<longrightarrow> m' x = m x)"

lemma same_outside_refl [simp]: "same_outside fc m m"
  by (simp add: same_outside_def)

lemma same_outside_trans [trans]: "same_outside fc m m' \<Longrightarrow> same_outside fc m' m'' \<Longrightarrow> same_outside fc m m''"
  by (simp add: same_outside_def)

lemma same_outside_prog:
  "flash_start fc \<le> a \<Longrightarrow> a + length bs \<le> flash_end fc \<Longrightarrow> same_outside fc m (nor_prog m a bs)"
  by (auto simp: same_outside_def nor_prog_def)

lemma same_outside_erase:
  "flash_start fc \<le> a \<Longrightarrow> a + n \<le> flash_end fc \<Longrightarrow> same_outside fc m (nor_erase m a n)"
  by (auto simp: same_outside_def mem_fill_def)

section \<open>Blocks of a well-formed partition\<close>

locale kv_part =
  fixes fc :: "'d kv_flash_ctl" and cap :: nat and sect :: nat
  assumes geometry: "kv_geometry fc cap sect"
begin

abbreviation blks :: "nat list" where "blks \<equiv> KV_BLK_FOR_EACH fc"

abbreviation FS :: nat where "FS \<equiv> KV_BLK_SIZE fc - 32"

lemma size_gt: "56 < KV_BLK_SIZE fc"
proof -
  have "(2::nat) ^ 6 \<le> 2 ^ sector_size_log2 fc"
    using geometry by (intro power_increasing) (auto simp: kv_geometry_def)
  then show ?thesis by (simp add: KV_FLASH_SECTOR_SIZE_def)
qed

lemma count: "flash_end fc = flash_start fc + kv_blk_count fc * KV_BLK_SIZE fc"
proof -
  let ?B = "KV_BLK_SIZE fc"
  define q where "q = (flash_end fc - flash_start fc) div ?B"
  have "?B dvd flash_end fc - flash_start fc"
    using geometry by (intro dvd_diff_nat) (auto simp: kv_geometry_def dvd_eq_mod_eq_0)
  then have q: "flash_end fc - flash_start fc = q * ?B" by (simp add: q_def)
  have "(q * ?B + ?B - 1) div ?B = q"
    using size_gt by (intro div_nat_eqI) (auto simp: mult.commute)
  then have "kv_blk_count fc = q" by (simp add: kv_blk_count_def q)
  moreover have "flash_start fc \<le> flash_end fc" using geometry by (simp add: kv_geometry_def)
  ultimately show ?thesis using q by simp
qed

lemma in_blks: "b \<in> set blks \<longleftrightarrow> (\<exists>i<kv_blk_count fc. b = flash_start fc + i * KV_BLK_SIZE fc)"
  by (auto simp: KV_BLK_FOR_EACH_def)

lemma blk_range:
  assumes "b \<in> set blks"
  shows "flash_start fc \<le> b" "b + KV_BLK_SIZE fc \<le> flash_end fc" "flash_end fc \<le> cap" "cap \<le> 2 ^ 24"
proof -
  obtain i where i: "i < kv_blk_count fc" "b = flash_start fc + i * KV_BLK_SIZE fc"
    using assms by (auto simp: in_blks)
  then have "Suc i * KV_BLK_SIZE fc \<le> kv_blk_count fc * KV_BLK_SIZE fc" by (intro mult_le_mono1) simp
  then show "flash_start fc \<le> b" "b + KV_BLK_SIZE fc \<le> flash_end fc" using i count by simp_all
  show "flash_end fc \<le> cap" "cap \<le> 2 ^ 24" using geometry by (auto simp: kv_geometry_def)
qed

lemma addr2idx:
  assumes "i < kv_blk_count fc"
  shows "KV_BLK_ADDR2IDX fc (flash_start fc + i * KV_BLK_SIZE fc) = i"
proof -
  have b: "flash_start fc + i * KV_BLK_SIZE fc \<in> set blks" using assms by (auto simp: in_blks)
  have "flash_start fc + i * KV_BLK_SIZE fc < 2 ^ 32" using blk_range [OF b] size_gt by simp
  then show ?thesis using size_gt by (simp add: KV_BLK_ADDR2IDX_def)
qed

lemma addr2idx_less: "b \<in> set blks \<Longrightarrow> KV_BLK_ADDR2IDX fc b < kv_blk_count fc"
  by (auto simp: in_blks addr2idx)

lemma addr2idx_inj: "b \<in> set blks \<Longrightarrow> c \<in> set blks \<Longrightarrow> KV_BLK_ADDR2IDX fc b = KV_BLK_ADDR2IDX fc c \<longleftrightarrow> b = c"
  using size_gt by (auto simp: in_blks addr2idx)

lemma distinct_blks: "distinct blks"
  using size_gt by (auto simp: KV_BLK_FOR_EACH_def distinct_map inj_on_def)

lemma blks_disjoint:
  assumes "b \<in> set blks" "c \<in> set blks" "b \<noteq> c"
  shows "b + KV_BLK_SIZE fc \<le> c \<or> c + KV_BLK_SIZE fc \<le> b"
proof -
  obtain i j where ij: "b = flash_start fc + i * KV_BLK_SIZE fc" "c = flash_start fc + j * KV_BLK_SIZE fc"
    using assms by (auto simp: in_blks)
  then have "i < j \<or> j < i" using assms(3) by auto
  then have "Suc i * KV_BLK_SIZE fc \<le> j * KV_BLK_SIZE fc \<or> Suc j * KV_BLK_SIZE fc \<le> i * KV_BLK_SIZE fc"
    by (metis Suc_leI mult_le_mono1)
  then show ?thesis by (auto simp: ij)
qed

lemma item_addr2blk:
  assumes "b \<in> set blks" "k < KV_BLK_SIZE fc"
  shows "KV_ITEM_ADDR2BLK fc (b + k) = b"
proof -
  obtain i where i: "b = flash_start fc + i * KV_BLK_SIZE fc" using assms by (auto simp: in_blks)
  have "b + k < 2 ^ 32" using blk_range [OF assms(1)] assms(2) by simp
  then have "u32_sub (b + k) (flash_start fc) = i * KV_BLK_SIZE fc + k" using i by simp
  then show ?thesis using assms(2) by (simp add: KV_ITEM_ADDR2BLK_def KV_ALIGN_DOWN_def i)
qed

lemma fresh_size: "b \<in> set blks \<Longrightarrow> KV_BLK_FRESH_SIZE fc = FS"
  using blk_range [of b] size_gt
  by (simp add: KV_BLK_FRESH_SIZE_def KV_BLK_HDR_SIZE_def KV_ALIGNED_SIZE_def KV_ALIGN_UP_def
      KV_FLASH_WRITE_ALIGN_def)

lemma first_item [simp]: "KV_BLK_FIRST_ITEM b = b + 32"
  by (simp add: KV_BLK_FIRST_ITEM_def KV_BLK_HDR_SIZE_def KV_ALIGNED_SIZE_def KV_ALIGN_UP_def
      KV_FLASH_WRITE_ALIGN_def)

lemma next_in_blks:
  assumes "b \<in> set blks"
  shows "KV_BLK_NEXT fc b \<in> set blks"
proof -
  obtain i where i: "i < kv_blk_count fc" "b = flash_start fc + i * KV_BLK_SIZE fc"
    using assms by (auto simp: in_blks)
  show ?thesis
  proof (cases "Suc i < kv_blk_count fc")
    case True
    then have "Suc (Suc i) * KV_BLK_SIZE fc \<le> kv_blk_count fc * KV_BLK_SIZE fc" by (intro mult_le_mono1) simp
    then have "KV_BLK_NEXT fc b = flash_start fc + Suc i * KV_BLK_SIZE fc"
      using count size_gt by (simp add: KV_BLK_NEXT_def i)
    then show ?thesis using True by (auto simp: in_blks)
  next
    case False
    then have "Suc i = kv_blk_count fc" using i by simp
    then have "KV_BLK_NEXT fc b = flash_start fc + 0 * KV_BLK_SIZE fc"
      using count by (simp add: KV_BLK_NEXT_def i flip: \<open>Suc i = kv_blk_count fc\<close>)
    then show ?thesis using i by (auto simp: in_blks intro!: exI [of _ 0])
  qed
qed

lemma ring_in_blks: "cur \<in> set blks \<Longrightarrow> set (kv_ring fc start n cur) \<subseteq> set blks"
proof (induction n arbitrary: cur)
  case (Suc n)
  then show ?case using Suc.IH [OF next_in_blks [OF Suc.prems]] by simp
qed simp

lemma for_each_from_in_blks: "w \<in> set blks \<Longrightarrow> set (KV_BLK_FOR_EACH_FROM fc w) \<subseteq> set blks"
  by (simp add: KV_BLK_FOR_EACH_FROM_def ring_in_blks next_in_blks)

lemma first_blk_cases:
  assumes "first_blk P bs = b" "set bs \<subseteq> set blks"
  shows "b = KV_BLK_INVALID \<or> (b \<in> set blks \<and> P b)"
  using assms by (auto simp: first_blk_def find_Some_iff split: option.splits)

lemma invalid_not_blk: "KV_BLK_INVALID \<notin> set blks"
  using blk_range [of KV_BLK_INVALID] by (auto simp: KV_BLK_INVALID_def)

end

text \<open>The store: a well-formed partition over a driver that keeps the NOR contract.\<close>

locale kv_store = kv_part fc cap sect + nor_drv "flash_drv fc" cells cap sect
  for fc :: "'d kv_flash_ctl" and cells :: "'d \<Rightarrow> mem" and cap :: nat and sect :: nat

end
