(* ===== verification/Kv_Ops.thy ===== *)
theory Kv_Ops
  imports Kv_Refine
begin

unbundle bit_operations_syntax

text \<open>
  The operations of the key-value store on the entry lists a state represents: walking a
  block, finding an item, saving one, deleting one, collecting a block.
\<close>

context kv_store
begin

section \<open>Flash access\<close>

lemma kv_read:
  "a + n \<le> flash_end fc \<Longrightarrow> kv_flash_read fc a n s = (KV_ERR_NONE, mem_read (cells (dev s)) a n)"
  using read_ok [of a n "dev s"] geometry by (auto simp: kv_flash_read_def kv_geometry_def)

lemma kv_write:
  assumes "flash_start fc \<le> a" "a + length bs \<le> flash_end fc"
  obtains d where "kv_flash_write fc a bs s = (KV_ERR_NONE, s\<lparr>dev := d\<rparr>)"
    "cells d = nor_prog (cells (dev s)) a bs" "same_outside fc (cells (dev s)) (cells d)"
proof -
  obtain r d where "drv_write (flash_drv fc) a bs (dev s) = (r, d)" "0 \<le> r"
    "cells d = nor_prog (cells (dev s)) a bs"
    using write_ok [of a bs "dev s"] geometry assms by (auto simp: kv_geometry_def)
  with same_outside_prog [OF assms] show ?thesis
    by (intro that [of d]) (auto simp: kv_flash_write_def)
qed

lemma malloc_ok [simp]: "malloc_faults s = [] \<Longrightarrow> ln_kv_malloc s = (True, s)"
  by (simp add: ln_kv_malloc_def)

section \<open>The representation under index operations\<close>

lemma repx_simps:
  assumes "kv_repx X fc cells s ess"
  shows "malloc_faults s = []" "length (blk_detail s) = kv_blk_count fc" "num_hanging s = 0"
  using assms by (simp_all add: kv_repx_def)

lemma repx_blk:
  assumes "kv_repx X fc cells s ess" "b \<in> set blks"
  shows "blk_data fc (cells (dev s)) b (dt fc s b) (ess b)"
  using assms by (simp add: kv_repx_def)

lemma repx_fresh:
  assumes "kv_repx X fc cells s ess" "b \<in> set blks" "b \<notin> X"
  shows "blk_fresh_ok (dt fc s b) (ess b)"
  using assms by (simp add: kv_repx_def)

lemma dt_update:
  assumes "idx_op fc b f s s'" "length (blk_detail s) = kv_blk_count fc" "b \<in> set blks" "c \<in> set blks"
  shows "dt fc s' c = (if c = b then f (dt fc s b) else dt fc s c)"
  using assms addr2idx_less [of b] addr2idx_inj [of b c]
  by (auto simp: idx_op_def nth_list_update)

lemma repx_idx_op:
  assumes "kv_repx X fc cells s ess" "idx_op fc b f s s'" "b \<in> set blks"
    and "blk_data fc (cells (dev s)) b (f (dt fc s b)) (ess b)"
    and "b \<notin> Y \<Longrightarrow> blk_fresh_ok (f (dt fc s b)) (ess b)" "X \<subseteq> insert b Y"
  shows "kv_repx Y fc cells s' ess"
proof -
  have d: "dt fc s' c = (if c = b then f (dt fc s b) else dt fc s c)" if "c \<in> set blks" for c
    using dt_update [OF assms(2) _ assms(3) that] assms(1) by (simp add: kv_repx_def)
  show ?thesis
    unfolding kv_repx_def
  proof (intro conjI ballI)
    show "malloc_faults s' = []" "num_hanging s' = 0" "length (blk_detail s') = kv_blk_count fc"
      "workspace s' = KV_BLK_INVALID \<or> workspace s' \<in> set blks"
      using assms(1,2) by (auto simp: kv_repx_def idx_op_def)
    fix c assume c: "c \<in> set blks"
    have dv: "dev s' = dev s" using assms(2) by (simp add: idx_op_def)
    show "blk_data fc (cells (dev s')) c (dt fc s' c) (ess c)"
      using d [OF c] c assms(1,4) by (simp add: kv_repx_def dv)
    show "c \<notin> Y \<longrightarrow> blk_fresh_ok (dt fc s' c) (ess c)"
      using d [OF c] c assms(1,5,6) by (auto simp: kv_repx_def)
  qed
qed

lemma repx_set_dirty:
  assumes "kv_repx X fc cells s ess" "b \<in> set blks" "ess b \<noteq> []"
  shows "kv_repx X fc cells (kv_blk_set_dirty fc b s) ess"
  using repx_blk [OF assms(1,2)] repx_fresh [OF assms(1,2)] assms(3)
  by (intro repx_idx_op [OF assms(1) idx_op_intros(3) assms(2)])
    (auto simp: blk_data_def blk_fresh_ok_def bit_simps)

lemma set_dirty_frame [simp]:
  "dev (kv_blk_set_dirty fc b s) = dev s" "workspace (kv_blk_set_dirty fc b s) = workspace s"
  using idx_op_intros(3) [of fc b s] by (simp_all add: idx_op_def)

section \<open>Reading an entry\<close>

abbreviation epos :: "nat \<Rightarrow> kv_entry list \<Rightarrow> nat" where
  "epos b pre \<equiv> b + 32 + esize pre"

lemma item_sizes [simp]:
  "KV_ITEM_BODY_SIZE k v = k + v" "KV_ITEM_SIZE k v = 24 + (k + v)"
  by (simp_all add: KV_ITEM_BODY_SIZE_def KV_ITEM_SIZE_def KV_ALIGNED_SIZE_def KV_ALIGN_UP_def
      KV_FLASH_WRITE_ALIGN_def)

lemma blk_end [simp]: "KV_BLK_END fc b = b + KV_BLK_SIZE fc"
  by (simp add: KV_BLK_END_def)

lemma blk_entry:
  assumes "kv_repx X fc cells s ess" "b \<in> set blks" "ess b = pre @ e # post"
  shows "entry_ok e" "esize pre + entry_size e \<le> FS" "epos b pre + entry_size e \<le> flash_end fc"
    "epos b pre + entry_size e \<le> b + KV_BLK_SIZE fc"
proof -
  have d: "blk_data fc (cells (dev s)) b (dt fc s b) (pre @ e # post)"
    using repx_blk [OF assms(1,2)] assms(3) by simp
  then show "entry_ok e" and le: "esize pre + entry_size e \<le> FS" by (auto simp: blk_data_def)
  show "epos b pre + entry_size e \<le> flash_end fc" "epos b pre + entry_size e \<le> b + KV_BLK_SIZE fc"
    using le blk_range [OF assms(2)] size_gt by linarith+
qed

lemma hdr_read_entry:
  assumes "kv_repx X fc cells s ess" "b \<in> set blks" "ess b = pre @ e # post"
  shows "kv_item_hdr_read fc (epos b pre) s = (KV_ERR_NONE, entry_hdr e)"
proof -
  note en = blk_entry [OF assms]
  have d: "blk_data fc (cells (dev s)) b (dt fc s b) (pre @ e # post)"
    using repx_blk [OF assms(1,2)] assms(3) by simp
  then have "mem_read (cells (dev s)) (b + 32 + esize pre) 24 = bytes_of_item_hdr (entry_hdr e)"
    by (intro blk_at_hdr [of _ _ FS _ _ post]) (auto simp: blk_data_def)
  moreover have "epos b pre + 24 \<le> flash_end fc" using en entry_size_gt [OF en(1)] by linarith
  ultimately show ?thesis by (simp add: kv_item_hdr_read_def kv_read)
qed

lemma hdr_read_tail:
  assumes "kv_repx X fc cells s ess" "b \<in> set blks" "esize (ess b) + 24 \<le> FS"
  shows "\<exists>h. kv_item_hdr_read fc (epos b (ess b)) s = (KV_ERR_NONE, h) \<and> KV_ITEM_IS_FRESH h \<and> \<not> KV_ITEM_IS_LEGAL h"
proof -
  have "mem_read (cells (dev s)) (b + 32 + esize (ess b)) 24 = replicate 24 (- 1)"
    using repx_blk [OF assms(1,2)] assms(3) by (intro blk_at_tail [of _ _ FS]) (auto simp: blk_data_def)
  moreover have "epos b (ess b) + 24 \<le> flash_end fc" using assms(3) blk_range [OF assms(2)] size_gt by linarith
  ultimately show ?thesis by (simp add: kv_item_hdr_read_def kv_read)
qed

definition raw_item :: "kv_entry \<Rightarrow> nat \<Rightarrow> kv_item" where
  "raw_item e p = \<lparr>item_hdr = entry_hdr e, item_pos = p, item_body = None\<rparr>"

definition item_of :: "kv_entry \<Rightarrow> nat \<Rightarrow> kv_item" where
  "item_of e p = \<lparr>item_hdr = entry_hdr e, item_pos = p, item_body = Some (e_key e @ e_val e)\<rparr>"

lemma item_of_simps [simp]:
  "item_hdr (raw_item e p) = entry_hdr e" "item_pos (raw_item e p) = p"
  "item_hdr (item_of e p) = entry_hdr e" "item_pos (item_of e p) = p"
  "item_body (item_of e p) = Some (e_key e @ e_val e)"
  by (simp_all add: raw_item_def item_of_def)

lemma body_read_entry:
  assumes "kv_repx X fc cells s ess" "b \<in> set blks" "ess b = pre @ e # post"
    and "item_hdr it = entry_hdr e" "item_pos it = epos b pre"
  shows "kv_item_body_read fc it s = (KV_ERR_NONE, item_of e (epos b pre), s)"
proof -
  note en = blk_entry [OF assms(1-3)]
  have "mem_read (cells (dev s)) (b + 32 + esize pre + 24) (length (e_key e) + length (e_val e)) = e_key e @ e_val e"
    using repx_blk [OF assms(1,2)] assms(3) by (intro blk_at_body [of _ _ FS _ _ post]) (auto simp: blk_data_def)
  moreover have "epos b pre + 24 + (length (e_key e) + length (e_val e)) \<le> flash_end fc"
    using en by (simp add: entry_size_def)
  ultimately show ?thesis
    using assms(4,5) en(1) repx_simps(1) [OF assms(1)]
    by (cases it) (simp add: kv_item_body_read_def KV_ITEM_ADDR_OF_BODY_def KV_ITEM_SIZE_OF_BODY_def kv_read item_of_def)
qed

section \<open>Walking a block\<close>

lemma walk_step_entry:
  assumes "kv_repx X fc cells s ess" "b \<in> set blks" "ess b = pre @ e # post"
  shows "kv_walk_step fc W b (epos b pre) s =
    (if e_live e
     then (case W (raw_item e (epos b pre)) s of (err, item, s1) \<Rightarrow>
             if err = KV_ERR_NONE then (Walk_Return KV_ERR_NONE (Some item), s1)
             else if err \<noteq> KV_ERR_NEXT_LOOP then (Walk_Return err None, s1)
             else (Walk_Next (length (e_key e) + length (e_val e)), s1))
     else (Walk_Next (length (e_key e) + length (e_val e)), kv_blk_set_dirty fc b s))"
proof -
  note en = blk_entry [OF assms]
  have "kv_item_hdr_verify fc (entry_hdr e) (epos b pre) b"
    using en by (simp add: kv_item_hdr_verify_def Let_def entry_size_def)
  then show ?thesis
    using repx_simps(1) [OF assms(1)] hdr_read_entry [OF assms] en(1)
    by (simp add: kv_walk_step_def raw_item_def split: prod.split)
qed

lemma walk_step_tail:
  assumes "kv_repx X fc cells s ess" "b \<in> set blks" "esize (ess b) + 24 \<le> FS"
  shows "kv_walk_step fc W b (epos b (ess b)) s = (Walk_Break, s)"
  using hdr_read_tail [OF assms] repx_simps(1) [OF assms(1)] by (auto simp: kv_walk_step_def)

text \<open>After an entry the loop goes on exactly when another entry or an erased header follows.\<close>

lemma walk_goes_on:
  assumes "kv_repx X fc cells s ess" "b \<in> set blks" "ess b = pre @ e # post"
  shows "epos b pre + (24 + (length (e_key e) + length (e_val e))) = epos b (pre @ [e])"
    and "post \<noteq> [] \<Longrightarrow> epos b (pre @ [e]) + 24 < b + KV_BLK_SIZE fc"
proof -
  show "epos b pre + (24 + (length (e_key e) + length (e_val e))) = epos b (pre @ [e])"
    by (simp add: entry_size_def)
  assume "post \<noteq> []"
  then obtain e' post' where "ess b = (pre @ [e]) @ e' # post'" using assms(3) by (cases post) auto
  from blk_entry [OF assms(1,2) this] show "epos b (pre @ [e]) + 24 < b + KV_BLK_SIZE fc"
    using entry_size_gt by fastforce
qed

text \<open>A walker that only looks: it stops at the live entries satisfying \<open>Q\<close> and changes nothing.\<close>

definition looks :: "'d kv_item_walker \<Rightarrow> (nat \<Rightarrow> kv_entry list) \<Rightarrow> (kv_entry \<Rightarrow> bool) \<Rightarrow> bool" where
  "looks W ess Q \<longleftrightarrow>
     (\<forall>s X b pre e post. kv_repx X fc cells s ess \<longrightarrow> b \<in> set blks \<longrightarrow> ess b = pre @ e # post \<longrightarrow> e_live e \<longrightarrow>
        (if Q e then W (raw_item e (epos b pre)) s = (KV_ERR_NONE, item_of e (epos b pre), s)
         else \<exists>i. W (raw_item e (epos b pre)) s = (KV_ERR_NEXT_LOOP, i, s)))"

definition found_at :: "(nat \<Rightarrow> kv_entry list) \<Rightarrow> (kv_entry \<Rightarrow> bool) \<Rightarrow> nat \<Rightarrow> kv_item \<Rightarrow> bool" where
  "found_at ess Q b it \<longleftrightarrow>
     (\<exists>pre e post. ess b = pre @ e # post \<and> e_live e \<and> Q e \<and> it = item_of e (epos b pre))"

definition frame :: "'d kv_st \<Rightarrow> 'd kv_st \<Rightarrow> bool" where
  "frame s s' \<longleftrightarrow> dev s' = dev s \<and> workspace s' = workspace s"

lemma frame_simps [simp]: "frame s s" "frame s (kv_blk_set_dirty fc b s')  \<longleftrightarrow> frame s s'"
  by (simp_all add: frame_def)

lemma walk_looks:
  assumes "looks W ess Q" "kv_repx X fc cells s ess" "b \<in> set blks" "ess b = pre @ post"
    and "post \<noteq> [] \<or> esize pre + 24 < FS"
    and "kv_walk fc W b (epos b pre) s = (r, s')"
  shows "kv_repx X fc cells s' ess \<and> frame s s'
    \<and> ((\<exists>it. found_at ess Q b it \<and> r = Inl (KV_ERR_NONE, Some it))
       \<or> (\<forall>e\<in>set post. \<not> (e_live e \<and> Q e)) \<and> r = Inr (epos b (ess b)))"
  using assms(2-)
proof (induction post arbitrary: pre s)
  case Nil
  then have "kv_walk_step fc W b (epos b pre) s = (Walk_Break, s)"
    using walk_step_tail [OF Nil.prems(1,2), of W] by simp
  then show ?case using Nil.prems by (auto simp: kv_walk.simps)
next
  case (Cons e post)
  note st = walk_step_entry [OF Cons.prems(1,2,3), of W]
  note go = walk_goes_on [OF Cons.prems(1,2,3)]
  let ?s1 = "if e_live e then s else kv_blk_set_dirty fc b s"
  have lk: "if Q e then W (raw_item e (epos b pre)) s = (KV_ERR_NONE, item_of e (epos b pre), s)
      else \<exists>i. W (raw_item e (epos b pre)) s = (KV_ERR_NEXT_LOOP, i, s)" if "e_live e"
    using assms(1) that Cons.prems(1-3) unfolding looks_def by blast
  show ?case
  proof (cases "e_live e \<and> Q e")
    case True
    then have "r = Inl (KV_ERR_NONE, Some (item_of e (epos b pre)))" "s' = s"
      using st lk Cons.prems(5) by (simp_all add: kv_walk.simps)
    then show ?thesis using True Cons.prems(1,3) by (auto simp: found_at_def)
  next
    case False
    have step: "kv_walk_step fc W b (epos b pre) s = (Walk_Next (length (e_key e) + length (e_val e)), ?s1)"
      using st lk False by (auto split: if_splits)
    have rep: "kv_repx X fc cells ?s1 ess"
      using Cons.prems(1-3) repx_set_dirty by auto
    have pos: "epos b pre + (24 + (length (e_key e) + length (e_val e))) = epos b (pre @ [e])" by (rule go(1))
    show ?thesis
    proof (cases "epos b (pre @ [e]) + 24 < b + KV_BLK_SIZE fc")
      case True
      then have w: "kv_walk fc W b (epos b (pre @ [e])) ?s1 = (r, s')"
        using Cons.prems(5) step pos by (simp add: kv_walk.simps [of fc W b "epos b pre"])
      have "esize (pre @ [e]) + 24 < FS" using True by linarith
      then have "post \<noteq> [] \<or> esize (pre @ [e]) + 24 < FS" by simp
      from Cons.IH [OF rep Cons.prems(2) _ this w] Cons.prems(3) False show ?thesis
        by (auto simp: frame_def)
    next
      case stop: False
      then have "post = []" using go(2) by blast
      then show ?thesis
        using Cons.prems(3,5) step pos stop rep False
        by (auto simp: kv_walk.simps [of fc W b "epos b pre"] frame_def)
    qed
  qed
qed

text \<open>The index entry that \<open>kv_item_walkthru\<close> writes back after a full walk.\<close>

lemma walk_refresh:
  assumes "kv_repx X fc cells s ess" "b \<in> set blks" "b \<notin> X" "cur = epos b (ess b)"
  shows "kv_repx X fc cells (kv_walk_index fc b cur s) ess \<and> frame s (kv_walk_index fc b cur s)"
proof -
  note d = repx_blk [OF assms(1,2)]
  note fr = repx_fresh [OF assms(1-3)]
  have sz: "esize (ess b) \<le> FS" using d by (simp add: blk_data_def)
  consider (fresh) "cur = b + 32" | (inuse) "cur \<noteq> b + 32" "cur + 24 < b + KV_BLK_SIZE fc"
    | (full) "cur \<noteq> b + 32" "\<not> cur + 24 < b + KV_BLK_SIZE fc" by blast
  then show ?thesis
  proof cases
    case fresh
    then have e0: "esize (ess b) = 0" using assms(4) by simp
    have "ess b = []" using e0 by (cases "ess b") (auto simp: entry_size_def)
    then have "kv_repx X fc cells (kv_blk_set_fresh fc b s) ess"
      using d fresh_size [OF assms(2)]
      by (intro repx_idx_op [OF assms(1) idx_op_set_fresh assms(2)])
        (auto simp: blk_data_def blk_fresh_ok_def)
    then show ?thesis using fresh idx_op_set_fresh [of fc b s] by (simp add: kv_walk_index_def frame_def idx_op_def)
  next
    case inuse
    let ?s1 = "kv_blk_freesz_set fc b (u32_sub (KV_BLK_END fc b) cur) s"
    have ne: "ess b \<noteq> []" using inuse assms(4) by auto
    have fb: "b + KV_BLK_SIZE fc < 2 ^ 32" using blk_range [OF assms(2)] by simp
    then have sub: "u32_sub (b + KV_BLK_SIZE fc) cur = KV_BLK_SIZE fc - (32 + esize (ess b))"
      using inuse assms(4) by simp
    have r1: "kv_repx X fc cells ?s1 ess"
      using d fr by (intro repx_idx_op [OF assms(1) idx_op_intros(1) assms(2)])
        (auto simp: blk_data_def blk_fresh_ok_def sub)
    have "kv_repx X fc cells (kv_blk_set_inuse fc b ?s1) ess"
      using repx_blk [OF r1 assms(2)] repx_fresh [OF r1 assms(2,3)] ne
      by (intro repx_idx_op [OF r1 idx_op_intros(4) assms(2)])
        (auto simp: blk_data_def blk_fresh_ok_def bit_simps)
    then show ?thesis
      using inuse idx_op_intros(4) [of fc b ?s1] idx_op_intros(1) [of fc b _ s]
      by (simp add: kv_walk_index_def frame_def idx_op_def)
  next
    case full
    let ?s1 = "kv_blk_freesz_set fc b 0 s"
    have "FS - esize (ess b) \<le> 24" using full assms(4) by linarith
    then have r1: "kv_repx X fc cells ?s1 ess"
      using d fr by (intro repx_idx_op [OF assms(1) idx_op_intros(1) assms(2)])
        (auto simp: blk_data_def blk_fresh_ok_def)
    have "kv_repx X fc cells (kv_blk_reset_inuse fc b ?s1) ess"
      using repx_blk [OF r1 assms(2)] repx_fresh [OF r1 assms(2,3)]
      by (intro repx_idx_op [OF r1 idx_op_intros(5) assms(2)])
        (auto simp: blk_data_def blk_fresh_ok_def bit_simps)
    then show ?thesis
      using full idx_op_intros(5) [of fc b ?s1] idx_op_intros(1) [of fc b _ s]
      by (simp add: kv_walk_index_def frame_def idx_op_def)
  qed
qed

lemma frame_trans: "frame s s1 \<Longrightarrow> frame s1 s2 \<Longrightarrow> frame s s2"
  by (simp add: frame_def)

lemma walkthru_looks:
  assumes "looks W ess Q" "kv_repx X fc cells s ess" "b \<in> set blks" "b \<notin> X"
    and "kv_item_walkthru fc b W s = (err, it, s')"
  shows "err = KV_ERR_NONE \<and> kv_repx X fc cells s' ess \<and> frame s s'
    \<and> (case it of Some i \<Rightarrow> found_at ess Q b i | None \<Rightarrow> \<forall>e\<in>set (ess b). \<not> (e_live e \<and> Q e))"
proof -
  obtain r s1 where w: "kv_walk fc W b (epos b []) s = (r, s1)" by (metis surj_pair)
  have start: "ess b \<noteq> [] \<or> esize [] + 24 < FS" using size_gt by auto
  have L: "kv_repx X fc cells s1 ess \<and> frame s s1
    \<and> ((\<exists>it. found_at ess Q b it \<and> r = Inl (KV_ERR_NONE, Some it))
       \<or> (\<forall>e\<in>set (ess b). \<not> (e_live e \<and> Q e)) \<and> r = Inr (epos b (ess b)))"
    using walk_looks [OF assms(1-3) _ start w] by simp
  show ?thesis
  proof (cases r)
    case (Inl a)
    then show ?thesis using L w assms(5) by (auto simp: kv_item_walkthru_def)
  next
    case (Inr cur)
    then have c: "cur = epos b (ess b)" and r1: "kv_repx X fc cells s1 ess" using L by auto
    from walk_refresh [OF r1 assms(3,4) c] L Inr w assms(5) show ?thesis
      by (auto simp: kv_item_walkthru_def intro: frame_trans)
  qed
qed

lemma find_in_looks:
  assumes "looks W ess Q" "kv_rep fc cells s ess" "set bs \<subseteq> set blks"
    and "\<And>b s. F b s = (let (err, item, s1) = kv_item_walkthru fc b W s
           in (if err = KV_ERR_NONE then item else None, s1))"
    and "kv_find_in fc F bs s = (it, s')"
  shows "kv_rep fc cells s' ess \<and> frame s s'
    \<and> (case it of Some i \<Rightarrow> \<exists>b\<in>set bs. found_at ess Q b i
       | None \<Rightarrow> \<forall>b\<in>set bs. \<forall>e\<in>set (ess b). \<not> (e_live e \<and> Q e))"
  using assms(2,3,5)
proof (induction bs arbitrary: s)
  case Nil
  then show ?case by auto
next
  case (Cons b bs)
  have b: "b \<in> set blks" and bs: "set bs \<subseteq> set blks" using Cons.prems(2) by auto
  have nb: "\<not> kv_blk_is_bad fc b s" using repx_blk [OF Cons.prems(1) b] by (simp add: blk_data_def)
  show ?case
  proof (cases "kv_blk_is_fresh fc b s")
    case True
    then have "ess b = []" using repx_fresh [OF Cons.prems(1) b] by (simp add: blk_fresh_ok_def)
    with Cons.IH [OF Cons.prems(1) bs] Cons.prems(3) True show ?thesis by (auto split: option.splits)
  next
    case False
    obtain err i s1 where w: "kv_item_walkthru fc b W s = (err, i, s1)" by (metis prod_cases3)
    note L = walkthru_looks [OF assms(1) Cons.prems(1) b _ w, simplified]
    have F: "F b s = (i, s1)" using L w by (simp add: assms(4))
    show ?thesis
    proof (cases i)
      case None
      then have "kv_find_in fc F bs s1 = (it, s')" using Cons.prems(3) False nb F by simp
      with Cons.IH [OF _ bs this] L None show ?thesis by (auto intro: frame_trans split: option.splits)
    next
      case (Some x)
      then show ?thesis using Cons.prems(3) False nb F L by auto
    qed
  qed
qed

section \<open>Finding an item\<close>

lemma fetch_looks: "looks (kv_item_do_fetch fc key) ess (\<lambda>e. e_key e = key)"
  unfolding looks_def
proof (intro allI impI)
  fix s X b pre e post
  assume a: "kv_repx X fc cells s ess" "b \<in> set blks" "ess b = pre @ e # post" "e_live e"
  note br = body_read_entry [OF a(1-3), of "raw_item e (epos b pre)", simplified]
  have ok: "entry_ok e" using blk_entry [OF a(1-3)] by simp
  have eq: "e_key e = key" if "length key = length (e_key e)" "e_key e = take (length (e_key e)) key"
    using that by simp
  show "if e_key e = key
       then kv_item_do_fetch fc key (raw_item e (epos b pre)) s = (KV_ERR_NONE, item_of e (epos b pre), s)
       else \<exists>i. kv_item_do_fetch fc key (raw_item e (epos b pre)) s = (KV_ERR_NEXT_LOOP, i, s)"
    using ok br eq by (auto simp: kv_item_do_fetch_def Let_def)
qed

lemma new_copy_looks:
  assumes "entry_ok x"
  shows "looks (kv_item_do_fetch_new_copy fc (item_of x p)) ess (\<lambda>e. e_key e = e_key x \<and> e_val e = e_val x)"
  unfolding looks_def
proof (intro allI impI)
  fix s X b pre e post
  assume a: "kv_repx X fc cells s ess" "b \<in> set blks" "ess b = pre @ e # post" "e_live e"
  note br = body_read_entry [OF a(1-3), of "raw_item e (epos b pre)", simplified]
  have ok: "entry_ok e" using blk_entry [OF a(1-3)] by simp
  have lens: "ih_k_len (entry_hdr e) = ih_k_len (entry_hdr x) \<longleftrightarrow> length (e_key e) = length (e_key x)"
    "ih_v_len (entry_hdr e) = ih_v_len (entry_hdr x) \<longleftrightarrow> length (e_val e) = length (e_val x)"
    using entry_hdr_lens(1,2) [OF ok] entry_hdr_lens(1,2) [OF assms] by (metis unsigned_word_eqI)+
  show "if e_key e = e_key x \<and> e_val e = e_val x
       then kv_item_do_fetch_new_copy fc (item_of x p) (raw_item e (epos b pre)) s
              = (KV_ERR_NONE, item_of e (epos b pre), s)
       else \<exists>i. kv_item_do_fetch_new_copy fc (item_of x p) (raw_item e (epos b pre)) s
              = (KV_ERR_NEXT_LOOP, i, s)"
    using ok br assms by (auto simp: kv_item_do_fetch_new_copy_def Let_def lens)
qed

lemma item_find:
  assumes "kv_rep fc cells s ess" "kv_item_find fc key s = (it, s')"
  shows "kv_rep fc cells s' ess \<and> frame s s'
    \<and> (case it of Some i \<Rightarrow> \<exists>b\<in>set blks. found_at ess (\<lambda>e. e_key e = key) b i
       | None \<Rightarrow> \<forall>b\<in>set blks. \<forall>e\<in>set (ess b). \<not> (e_live e \<and> e_key e = key))"
  using find_in_looks [OF fetch_looks assms(1) subset_refl _ assms(2) [unfolded kv_item_find_def]]
  by (simp add: kv_item_do_find_def)

lemma item_find_new_copy:
  assumes "kv_rep fc cells s ess" "entry_ok x" "kv_item_find_new_copy fc (item_of x p) s = (it, s')"
  shows "kv_rep fc cells s' ess \<and> frame s s'
    \<and> (case it of Some i \<Rightarrow> \<exists>b\<in>set blks. found_at ess (\<lambda>e. e_key e = e_key x \<and> e_val e = e_val x) b i
       | None \<Rightarrow> \<forall>b\<in>set blks. \<forall>e\<in>set (ess b). \<not> (e_live e \<and> e_key e = e_key x \<and> e_val e = e_val x))"
  using find_in_looks [OF new_copy_looks [OF assms(2)] assms(1) subset_refl _
      assms(3) [unfolded kv_item_find_new_copy_def]]
  by (simp add: kv_item_do_find_new_copy_def)

section \<open>Writing to a block\<close>

definition confined :: "nat \<Rightarrow> mem \<Rightarrow> mem \<Rightarrow> bool" where
  "confined b m m' \<longleftrightarrow> (\<forall>x. x < b \<or> b + KV_BLK_SIZE fc \<le> x \<longrightarrow> m' x = m x)"

lemma confined_prog: "b \<le> a \<Longrightarrow> a + length bs \<le> b + KV_BLK_SIZE fc \<Longrightarrow> confined b m (nor_prog m a bs)"
  by (auto simp: confined_def nor_prog_def)

lemma confined_erase: "confined b m (nor_erase m b (KV_BLK_SIZE fc))"
  by (auto simp: confined_def mem_fill_def)

lemma confined_trans: "confined b m m1 \<Longrightarrow> confined b m1 m2 \<Longrightarrow> confined b m m2"
  by (simp add: confined_def)

lemma confined_other:
  assumes "confined b m m'" "b \<in> set blks" "c \<in> set blks" "c \<noteq> b"
  shows "mem_read m' (c + 32) FS = mem_read m (c + 32) FS"
proof (rule mem_read_cong)
  fix x assume "c + 32 \<le> x" "x < c + 32 + FS"
  then have "x < b \<or> b + KV_BLK_SIZE fc \<le> x" using blks_disjoint [of b c] assms by auto
  then show "m' x = m x" using assms(1) by (auto simp: confined_def)
qed

lemma repx_change:
  assumes "kv_repx X fc cells s ess" "b \<in> set blks" "confined b (cells (dev s)) (cells (dev s'))"
    and "malloc_faults s' = [] \<and> num_hanging s' = 0" "length (blk_detail s') = kv_blk_count fc"
    and "workspace s' = KV_BLK_INVALID \<or> workspace s' \<in> set blks"
    and "\<And>c. c \<in> set blks \<Longrightarrow> c \<noteq> b \<Longrightarrow> dt fc s' c = dt fc s c"
    and "blk_data fc (cells (dev s')) b (dt fc s' b) es"
    and "b \<notin> Y \<Longrightarrow> blk_fresh_ok (dt fc s' b) es" "X \<subseteq> insert b Y"
  shows "kv_repx Y fc cells s' (ess(b := es))"
  unfolding kv_repx_def
proof (intro conjI ballI)
  show "malloc_faults s' = []" "num_hanging s' = 0" "length (blk_detail s') = kv_blk_count fc"
    "workspace s' = KV_BLK_INVALID \<or> workspace s' \<in> set blks" using assms(4-6) by auto
  fix c assume c: "c \<in> set blks"
  show "blk_data fc (cells (dev s')) c (dt fc s' c) ((ess(b := es)) c)"
    using assms(1,7,8) c confined_other [OF assms(3,2) c]
    by (cases "c = b") (auto simp: kv_repx_def blk_data_def)
  show "c \<notin> Y \<longrightarrow> blk_fresh_ok (dt fc s' c) ((ess(b := es)) c)"
    using assms(1,7,9,10) c by (cases "c = b") (auto simp: kv_repx_def)
qed

lemma nor_prog_hdr_body:
  "length x = 8 \<Longrightarrow> length y = 8 \<Longrightarrow>
     nor_prog (nor_prog (nor_prog m (p + 16) x) (p + 8) y) (p + 24) z = nor_prog m (p + 8) (y @ x @ z)"
  by (rule ext) (auto simp: nor_prog_def nth_append add.commute)

lemma item_write:
  assumes h: "h\<lparr>ih_discarded_flag := ih_discarded_flag (entry_hdr e)\<rparr> = entry_hdr e"
    and p: "flash_start fc \<le> p" "p + entry_size e \<le> flash_end fc"
  obtains d where "kv_item_write fc p h (e_key e @ e_val e) (length (e_key e) + length (e_val e)) s
      = (KV_ERR_NONE, s\<lparr>dev := d\<rparr>)"
    "cells d = nor_prog (cells (dev s)) (p + 8) (drop 8 (entry_bytes e))"
    "same_outside fc (cells (dev s)) (cells d)"
proof -
  let ?t = "drop 16 (bytes_of_item_hdr h)" and ?g = "le_bytes 8 (ih_magic h)"
  have hb: "bytes_of_item_hdr (entry_hdr e) = le_bytes 8 (ih_discarded_flag (entry_hdr e)) @ ?g @ ?t"
  proof -
    have "bytes_of_item_hdr (h\<lparr>ih_discarded_flag := v\<rparr>) = le_bytes 8 v @ ?g @ ?t" for v
      by (simp add: bytes_of_item_hdr_def)
    from this [of "ih_discarded_flag (entry_hdr e)"] show ?thesis by (simp only: h)
  qed
  have fit: "p + 24 + length (e_key e @ e_val e) \<le> flash_end fc" using p by (simp add: entry_size_def)
  have t8: "length ?t = 8" by simp
  obtain d1 where d1: "kv_flash_write fc (p + 16) ?t s = (KV_ERR_NONE, s\<lparr>dev := d1\<rparr>)"
    "cells d1 = nor_prog (cells (dev s)) (p + 16) ?t" "same_outside fc (cells (dev s)) (cells d1)"
    using kv_write [of "p + 16" ?t s] p fit by auto
  obtain d2 where d2: "kv_flash_write fc (p + 8) ?g (s\<lparr>dev := d1\<rparr>) = (KV_ERR_NONE, s\<lparr>dev := d2\<rparr>)"
    "cells d2 = nor_prog (cells d1) (p + 8) ?g" "same_outside fc (cells d1) (cells d2)"
    using kv_write [of "p + 8" ?g "s\<lparr>dev := d1\<rparr>"] p fit by auto
  obtain d3 where d3: "kv_flash_write fc (p + 24) (e_key e @ e_val e) (s\<lparr>dev := d2\<rparr>) = (KV_ERR_NONE, s\<lparr>dev := d3\<rparr>)"
    "cells d3 = nor_prog (cells d2) (p + 24) (e_key e @ e_val e)" "same_outside fc (cells d2) (cells d3)"
    using kv_write [of "p + 24" "e_key e @ e_val e" "s\<lparr>dev := d2\<rparr>"] p fit by auto
  show ?thesis
  proof (rule that [of d3])
    show "kv_item_write fc p h (e_key e @ e_val e) (length (e_key e) + length (e_val e)) s
      = (KV_ERR_NONE, s\<lparr>dev := d3\<rparr>)"
      using d1(1) d2(1) d3(1)
      by (simp add: kv_item_write_def kv_item_hdr_write_def kv_flash_wunit_modify_def)
    have "drop 8 (entry_bytes e) = ?g @ ?t @ (e_key e @ e_val e)"
      by (simp add: entry_bytes_def hb)
    then show "cells d3 = nor_prog (cells (dev s)) (p + 8) (drop 8 (entry_bytes e))"
      by (simp only: d1(2) d2(2) d3(2) nor_prog_hdr_body [OF t8 length_le_bytes])
    show "same_outside fc (cells (dev s)) (cells d3)"
      using d1(3) d2(3) d3(3) by (blast intro: same_outside_trans)
  qed
qed

lemma free_exact:
  assumes "kv_repx X fc cells s ess" "b \<in> set blks" "24 < FS - esize (ess b)"
  shows "free_size (dt fc s b) = FS - esize (ess b)"
  using repx_blk [OF assms(1,2)] assms(3) by (auto simp: blk_data_def)

lemma usable_addr:
  assumes "kv_repx X fc cells s ess" "b \<in> set blks" "24 < FS - esize (ess b)"
  shows "KV_BLK_USABLE_ADDR fc b s = epos b (ess b)"
proof -
  have "b + KV_BLK_SIZE fc < 2 ^ 32" using blk_range [OF assms(2)] by simp
  then have "KV_BLK_USABLE_ADDR fc b s = b + KV_BLK_SIZE fc - (FS - esize (ess b))"
    using free_exact [OF assms] by (simp add: KV_BLK_USABLE_ADDR_def kv_blk_freesz_get_def)
  then show ?thesis using assms(3) by linarith
qed

definition grows :: "'d kv_st \<Rightarrow> 'd kv_st \<Rightarrow> bool" where
  "grows s s' \<longleftrightarrow> workspace s' = workspace s \<and> same_outside fc (cells (dev s)) (cells (dev s'))"

lemma grows_simps: "grows s s" "frame s s' \<Longrightarrow> grows s s'"
  by (simp_all add: grows_def frame_def)

lemma grows_idx: "idx_op fc b f s s' \<Longrightarrow> grows s s'"
  by (simp add: grows_def idx_op_def)

lemma grows_trans [trans]: "grows s s1 \<Longrightarrow> grows s1 s2 \<Longrightarrow> grows s s2"
  by (auto simp: grows_def intro: same_outside_trans)

lemma write_append:
  assumes rep: "kv_repx X fc cells s ess" and b: "b \<in> set blks" and e: "entry_ok e" "e_live e"
    and fit: "esize (ess b) + entry_size e \<le> FS"
    and h: "h\<lparr>ih_discarded_flag := ih_discarded_flag (entry_hdr e)\<rparr> = entry_hdr e"
  obtains d where "kv_item_write fc (KV_BLK_USABLE_ADDR fc b s) h (e_key e @ e_val e)
        (length (e_key e) + length (e_val e)) s = (KV_ERR_NONE, s\<lparr>dev := d\<rparr>)"
    "kv_repx (insert b X) fc cells (kv_blk_freesz_reduce fc b (entry_size e) (s\<lparr>dev := d\<rparr>)) (ess(b := ess b @ [e]))"
    "grows s (kv_blk_freesz_reduce fc b (entry_size e) (s\<lparr>dev := d\<rparr>))"
proof -
  have left: "24 < FS - esize (ess b)" using fit entry_size_gt [OF e(1)] by linarith
  note ua = usable_addr [OF rep b left] and fe = free_exact [OF rep b left]
  let ?p = "epos b (ess b)"
  have r: "flash_start fc \<le> ?p" "?p + entry_size e \<le> flash_end fc" "?p + entry_size e \<le> b + KV_BLK_SIZE fc"
    using blk_range [OF b] fit size_gt by linarith+
  obtain d where d: "kv_item_write fc ?p h (e_key e @ e_val e) (length (e_key e) + length (e_val e)) s
      = (KV_ERR_NONE, s\<lparr>dev := d\<rparr>)"
    "cells d = nor_prog (cells (dev s)) (?p + 8) (drop 8 (entry_bytes e))"
    "same_outside fc (cells (dev s)) (cells d)"
    using item_write [OF h r(1,2)] by blast
  let ?s1 = "s\<lparr>dev := d\<rparr>" and ?s2 = "kv_blk_freesz_reduce fc b (entry_size e) (s\<lparr>dev := d\<rparr>)"
  note op = idx_op_intros(2) [of fc b "entry_size e" ?s1]
  note bd = repx_blk [OF rep b]
  have mem: "mem_read (cells d) (b + 32) FS = blk_bytes FS (ess b @ [e])"
    unfolding d(2) using bd fit e by (intro blk_append) (auto simp: blk_data_def)
  have cf: "confined b (cells (dev s)) (cells d)"
    unfolding d(2) using r entry_size_gt [OF e(1)] by (intro confined_prog) auto
  have dts: "dt fc ?s2 c = (if c = b then (dt fc s b)\<lparr>free_size := u32_sub (free_size (dt fc s b)) (entry_size e)\<rparr>
      else dt fc s c)" if "c \<in> set blks" for c
    using dt_update [OF op _ b that] repx_simps(2) [OF rep] by simp
  have B: "KV_BLK_SIZE fc \<le> 2 ^ 24" using blk_range [OF b] by linarith
  then have fs: "u32_sub (free_size (dt fc s b)) (entry_size e) = FS - (esize (ess b) + entry_size e)"
    using fit fe by (subst u32_sub_eq) auto
  have "kv_repx (insert b X) fc cells ?s2 (ess(b := ess b @ [e]))"
  proof (rule repx_change [OF rep b])
    show "confined b (cells (dev s)) (cells (dev ?s2))" using cf op by (simp add: idx_op_def)
    show "malloc_faults ?s2 = [] \<and> num_hanging ?s2 = 0" "length (blk_detail ?s2) = kv_blk_count fc"
      "workspace ?s2 = KV_BLK_INVALID \<or> workspace ?s2 \<in> set blks"
      using op rep by (auto simp: idx_op_def kv_repx_def)
    show "dt fc ?s2 c = dt fc s c" if "c \<in> set blks" "c \<noteq> b" for c using dts that by simp
    show "blk_data fc (cells (dev ?s2)) b (dt fc ?s2 b) (ess b @ [e])"
      using bd mem op e fit dts [OF b] fs by (auto simp: blk_data_def idx_op_def)
  qed auto
  then show ?thesis
    using that [of d] d op ua by (auto simp: grows_def idx_op_def)
qed

lemma delete_entry:
  assumes rep: "kv_rep fc cells s ess" and b: "b \<in> set blks" and es: "ess b = pre @ e # post" and live: "e_live e"
  obtains s' where "kv_item_delete_aux fc (epos b pre) s = (KV_ERR_NONE, s')"
    "kv_rep fc cells s' (ess(b := pre @ e\<lparr>e_live := False\<rparr> # post))" "grows s s'"
proof -
  note en = blk_entry [OF rep b es]
  have lt: "24 < entry_size e" using entry_size_gt [OF en(1)] .
  obtain d where d: "kv_flash_write fc (epos b pre) (le_bytes 8 KV_ITEM_DISCARDED) s = (KV_ERR_NONE, s\<lparr>dev := d\<rparr>)"
    "cells d = nor_prog (cells (dev s)) (epos b pre) (le_bytes 8 KV_ITEM_DISCARDED)"
    "same_outside fc (cells (dev s)) (cells d)"
    using kv_write [of "epos b pre" "le_bytes 8 KV_ITEM_DISCARDED" s] en blk_range [OF b] lt by auto
  have blk: "KV_ITEM_ADDR2BLK fc (epos b pre) = b"
    using item_addr2blk [OF b, of "32 + esize pre"] en lt by (simp add: add.assoc)
  let ?s' = "kv_blk_set_dirty fc b (s\<lparr>dev := d\<rparr>)"
  note op = idx_op_intros(3) [of fc b "s\<lparr>dev := d\<rparr>"]
  note bd = repx_blk [OF rep b] and fr = repx_fresh [OF rep b]
  have dts: "dt fc ?s' c = (if c = b then (dt fc s b)\<lparr>blk_flags := blk_flags (dt fc s b) OR KV_BLK_FLAG_DIRTY\<rparr>
      else dt fc s c)" if "c \<in> set blks" for c
    using dt_update [OF op _ b that] repx_simps(2) [OF rep] by simp
  have mem: "mem_read (cells d) (b + 32) FS = blk_bytes FS (pre @ e\<lparr>e_live := False\<rparr> # post)"
    unfolding d(2) using bd es live by (intro blk_discard) (auto simp: blk_data_def)
  have sz: "entry_size (e\<lparr>e_live := False\<rparr>) = entry_size e" by (simp add: entry_size_def)
  have ok: "entry_ok (e\<lparr>e_live := False\<rparr>)" using en(1) by (simp add: entry_ok_def)
  have "kv_rep fc cells ?s' (ess(b := pre @ e\<lparr>e_live := False\<rparr> # post))"
  proof (rule repx_change [OF rep b])
    have "confined b (cells (dev s)) (cells d)"
      unfolding d(2) using en lt by (intro confined_prog) auto
    then show "confined b (cells (dev s)) (cells (dev ?s'))" by simp
    show "malloc_faults ?s' = [] \<and> num_hanging ?s' = 0" "length (blk_detail ?s') = kv_blk_count fc"
      "workspace ?s' = KV_BLK_INVALID \<or> workspace ?s' \<in> set blks"
      using op rep by (auto simp: idx_op_def kv_repx_def)
    show "dt fc ?s' c = dt fc s c" if "c \<in> set blks" "c \<noteq> b" for c using dts that by simp
    show "blk_data fc (cells (dev ?s')) b (dt fc ?s' b) (pre @ e\<lparr>e_live := False\<rparr> # post)"
      using bd mem es ok dts [OF b] by (auto simp: blk_data_def sz bit_simps)
    show "blk_fresh_ok (dt fc ?s' b) (pre @ e\<lparr>e_live := False\<rparr> # post)"
      using fr es dts [OF b] by (auto simp: blk_fresh_ok_def bit_simps)
  qed auto
  then show ?thesis
    using that [of ?s'] d blk
    by (auto simp: kv_item_delete_aux_def kv_item_do_delete_def kv_flash_wunit_modify_def grows_def)
qed

section \<open>Collecting a block\<close>

lemma hdr_modify:
  assumes rep: "kv_repx X fc cells s ess" and b: "b \<in> set blks" and k: "k + 8 \<le> 32"
  obtains s' where "kv_flash_wunit_modify fc (b + k) v s = (KV_ERR_NONE, s')"
    "kv_repx X fc cells s' ess" "grows s s'" "blk_detail s' = blk_detail s"
proof -
  obtain d where d: "kv_flash_write fc (b + k) (le_bytes 8 v) s = (KV_ERR_NONE, s\<lparr>dev := d\<rparr>)"
    "cells d = nor_prog (cells (dev s)) (b + k) (le_bytes 8 v)" "same_outside fc (cells (dev s)) (cells d)"
    using kv_write [of "b + k" "le_bytes 8 v" s] blk_range [OF b] k size_gt by auto
  have "kv_repx X fc cells (s\<lparr>dev := d\<rparr>) (ess(b := ess b))"
  proof (rule repx_change [OF rep b])
    show "confined b (cells (dev s)) (cells (dev (s\<lparr>dev := d\<rparr>)))"
      using d(2) k size_gt confined_prog [of b "b + k" "le_bytes 8 v"] by simp
    have "mem_read (cells d) (b + 32) FS = mem_read (cells (dev s)) (b + 32) FS"
      unfolding d(2) using k by (intro nor_prog_outside) simp
    then show "blk_data fc (cells (dev (s\<lparr>dev := d\<rparr>))) b (dt fc (s\<lparr>dev := d\<rparr>) b) (ess b)"
      using repx_blk [OF rep b] by (simp add: blk_data_def)
    show "blk_fresh_ok (dt fc (s\<lparr>dev := d\<rparr>) b) (ess b)" if "b \<notin> X"
      using repx_fresh [OF rep b that] by simp
  qed (use rep in \<open>auto simp: kv_repx_def\<close>)
  then show ?thesis
    using that [of "s\<lparr>dev := d\<rparr>"] d by (simp add: kv_flash_wunit_modify_def grows_def)
qed

lemma gc_walker:
  assumes rep: "kv_repx X fc cells s ess" and b: "b \<in> set blks" and c: "c \<in> set blks"
    and es: "ess b = pre @ e # post" and live: "e_live e" and fit: "esize (ess c) + entry_size e \<le> FS"
  obtains i s' where "kv_item_do_gc fc c (raw_item e (epos b pre)) s = (KV_ERR_NEXT_LOOP, i, s')"
    "kv_repx (insert c X) fc cells s' (ess(c := ess c @ [e]))" "grows s s'"
proof -
  have ok: "entry_ok e" using blk_entry [OF rep b es] by simp
  note br = body_read_entry [OF rep b es, of "raw_item e (epos b pre)", simplified]
  obtain d where d: "kv_item_write fc (KV_BLK_USABLE_ADDR fc c s) (entry_hdr e) (e_key e @ e_val e)
        (length (e_key e) + length (e_val e)) s = (KV_ERR_NONE, s\<lparr>dev := d\<rparr>)"
    "kv_repx (insert c X) fc cells (kv_blk_freesz_reduce fc c (entry_size e) (s\<lparr>dev := d\<rparr>)) (ess(c := ess c @ [e]))"
    "grows s (kv_blk_freesz_reduce fc c (entry_size e) (s\<lparr>dev := d\<rparr>))"
    using write_append [OF rep c ok live fit, of "entry_hdr e"] by auto
  have "KV_ITEM_SIZE_OF_HDR (entry_hdr e) = entry_size e"
    using ok by (simp add: KV_ITEM_SIZE_OF_HDR_def entry_size_def)
  then show ?thesis
    using that d br ok by (auto simp: kv_item_do_gc_def KV_ITEM_SIZE_OF_BODY_def)
qed

lemma walk_gc:
  assumes "kv_repx {c} fc cells s ess" "b \<in> set blks" "c \<in> set blks" "b \<noteq> c" "ess b = pre @ post"
    and "esize (ess c) + esize (filter e_live post) \<le> FS"
    and "post \<noteq> [] \<or> esize pre + 24 < FS"
    and "kv_walk fc (kv_item_do_gc fc c) b (epos b pre) s = (r, s')"
  shows "r = Inr (epos b (ess b)) \<and> kv_repx {c} fc cells s' (ess(c := ess c @ filter e_live post)) \<and> grows s s'"
  using assms
proof (induction post arbitrary: pre s ess)
  case Nil
  then have "kv_walk_step fc (kv_item_do_gc fc c) b (epos b pre) s = (Walk_Break, s)"
    using walk_step_tail [OF Nil.prems(1,2)] by simp
  then show ?case using Nil.prems by (auto simp: kv_walk.simps grows_simps)
next
  case (Cons e post)
  let ?W = "kv_item_do_gc fc c"
  let ?ess = "ess(c := ess c @ filter e_live [e])"
  note st = walk_step_entry [OF Cons.prems(1,2,5), of ?W]
  note go = walk_goes_on [OF Cons.prems(1,2,5)]
  obtain s1 where step: "kv_walk_step fc ?W b (epos b pre) s = (Walk_Next (length (e_key e) + length (e_val e)), s1)"
    and rep: "kv_repx {c} fc cells s1 ?ess" and g: "grows s s1"
  proof (cases "e_live e")
    case True
    then have "esize (ess c) + entry_size e \<le> FS" using Cons.prems(6) by simp
    then obtain i s1 where "?W (raw_item e (epos b pre)) s = (KV_ERR_NEXT_LOOP, i, s1)"
      "kv_repx (insert c {c}) fc cells s1 (ess(c := ess c @ [e]))" "grows s s1"
      using gc_walker [OF Cons.prems(1,2,3,5) True] by blast
    then show ?thesis using that [of s1] st True by simp
  next
    case False
    then show ?thesis
      using that [of "kv_blk_set_dirty fc b s"] st repx_set_dirty [OF Cons.prems(1,2)] Cons.prems(5)
      by (simp add: grows_def)
  qed
  have b': "?ess b = (pre @ [e]) @ post" using Cons.prems(4,5) by simp
  have pos: "epos b pre + (24 + (length (e_key e) + length (e_val e))) = epos b (pre @ [e])" by (rule go(1))
  have le: "esize (?ess c) + esize (filter e_live post) \<le> FS"
    using Cons.prems(6) by (cases "e_live e") auto
  have upd: "?ess(c := ?ess c @ filter e_live post) = ess(c := ess c @ filter e_live (e # post))" by simp
  show ?case
  proof (cases "epos b (pre @ [e]) + 24 < b + KV_BLK_SIZE fc")
    case True
    then have w: "kv_walk fc ?W b (epos b (pre @ [e])) s1 = (r, s')"
      using Cons.prems(8) step pos by (simp add: kv_walk.simps [of fc ?W b "epos b pre"])
    have "esize (pre @ [e]) + 24 < FS" using True by linarith
    then have *: "post \<noteq> [] \<or> esize (pre @ [e]) + 24 < FS" by simp
    from Cons.IH [OF rep Cons.prems(2-4) b' le * w] g Cons.prems(4) show ?thesis
      unfolding upd by (auto intro: grows_trans)
  next
    case False
    then have p: "post = []" using go(2) by blast
    then have e: "ess(c := ess c @ filter e_live (e # post)) = ?ess" by simp
    have "r = Inr (epos b (ess b)) \<and> s' = s1"
      using Cons.prems(5,8) step pos False p by (auto simp: kv_walk.simps [of fc ?W b "epos b pre"])
    then show ?thesis unfolding e using rep g by blast
  qed
qed

lemma blk_aligned: "b \<in> set blks \<Longrightarrow> b mod sect = 0"
proof -
  assume "b \<in> set blks"
  then obtain i where b: "b = flash_start fc + i * KV_BLK_SIZE fc" by (auto simp: in_blks)
  have "sect dvd KV_BLK_SIZE fc" "KV_BLK_SIZE fc dvd flash_start fc"
    using geometry by (auto simp: kv_geometry_def dvd_eq_mod_eq_0)
  then have "sect dvd b" unfolding b by (meson dvd_add dvd_mult dvd_trans)
  then show ?thesis by (simp add: dvd_eq_mod_eq_0)
qed

lemma erased_after_magic:
  "mem_read (nor_prog (nor_erase m b (KV_BLK_SIZE fc)) b (le_bytes 8 v)) (b + 32) FS = blk_bytes FS []"
  using size_gt by (subst nor_prog_outside) (simp_all add: mem_fill_inside blk_bytes_def)

lemma format_flash:
  assumes "b \<in> set blks"
  obtains d where "kv_blk_format fc b s = (KV_ERR_NONE, kv_blk_set_fresh fc b (s\<lparr>dev := d\<rparr>))"
    "cells d = nor_prog (nor_erase (cells (dev s)) b (KV_BLK_SIZE fc)) b (le_bytes 8 KV_BLK_HDR_MAGIC)"
    "same_outside fc (cells (dev s)) (cells d)"
proof -
  note r = blk_range [OF assms]
  obtain x d1 where d1: "drv_erase (flash_drv fc) b (KV_BLK_SIZE fc) (dev s) = (x, d1)" "0 \<le> x"
    "cells d1 = nor_erase (cells (dev s)) b (KV_BLK_SIZE fc)"
    using erase_ok [OF blk_aligned [OF assms], of "KV_BLK_SIZE fc" "dev s"] geometry r
    by (auto simp: kv_geometry_def)
  obtain d where d: "kv_flash_write fc b (le_bytes 8 KV_BLK_HDR_MAGIC) (s\<lparr>dev := d1\<rparr>) = (KV_ERR_NONE, s\<lparr>dev := d\<rparr>)"
    "cells d = nor_prog (cells d1) b (le_bytes 8 KV_BLK_HDR_MAGIC)" "same_outside fc (cells d1) (cells d)"
    using kv_write [of b "le_bytes 8 KV_BLK_HDR_MAGIC" "s\<lparr>dev := d1\<rparr>"] r size_gt by auto
  have "same_outside fc (cells (dev s)) (cells d1)" unfolding d1(3) using r by (intro same_outside_erase) auto
  then show ?thesis
    using that [of d] d d1
    by (auto simp: kv_blk_format_def kv_flash_blk_erase_def kv_flash_erase_def kv_flash_wunit_modify_def
        intro: same_outside_trans)
qed

lemma blk_format:
  assumes rep: "kv_repx X fc cells s ess" and b: "b \<in> set blks"
  obtains s' where "kv_blk_format fc b s = (KV_ERR_NONE, s')"
    "kv_repx (X - {b}) fc cells s' (ess(b := []))" "grows s s'"
proof -
  obtain d where d: "kv_blk_format fc b s = (KV_ERR_NONE, kv_blk_set_fresh fc b (s\<lparr>dev := d\<rparr>))"
    "cells d = nor_prog (nor_erase (cells (dev s)) b (KV_BLK_SIZE fc)) b (le_bytes 8 KV_BLK_HDR_MAGIC)"
    "same_outside fc (cells (dev s)) (cells d)"
    by (rule format_flash [OF b])
  let ?s' = "kv_blk_set_fresh fc b (s\<lparr>dev := d\<rparr>)"
  note op = idx_op_set_fresh [of fc b "s\<lparr>dev := d\<rparr>"]
  have dts: "dt fc ?s' c = (if c = b then \<lparr>blk_flags = KV_BLK_FLAG_FRESH, free_size = KV_BLK_FRESH_SIZE fc\<rparr>
      else dt fc s c)" if "c \<in> set blks" for c
    using dt_update [OF op _ b that] repx_simps(2) [OF rep] by simp
  have "kv_repx (X - {b}) fc cells ?s' (ess(b := []))"
  proof (rule repx_change [OF rep b])
    have "confined b (cells (dev s)) (cells d)"
      unfolding d(2) by (rule confined_trans [OF confined_erase confined_prog]) (use size_gt in auto)
    then show "confined b (cells (dev s)) (cells (dev ?s'))" using op by (simp add: idx_op_def)
    show "malloc_faults ?s' = [] \<and> num_hanging ?s' = 0" "length (blk_detail ?s') = kv_blk_count fc"
      "workspace ?s' = KV_BLK_INVALID \<or> workspace ?s' \<in> set blks"
      using op rep by (auto simp: idx_op_def kv_repx_def)
    show "dt fc ?s' c = dt fc s c" if "c \<in> set blks" "c \<noteq> b" for c using dts that by simp
    show "blk_data fc (cells (dev ?s')) b (dt fc ?s' b) []"
      using op dts [OF b] fresh_size [OF b] erased_after_magic by (simp add: blk_data_def idx_op_def d(2))
    show "blk_fresh_ok (dt fc ?s' b) []" using dts [OF b] by (simp add: blk_fresh_ok_def)
  qed auto
  then show ?thesis
    by (rule that [OF d(1)]) (use d(3) op in \<open>simp add: grows_def idx_op_def\<close>)
qed

end

end
