(* ===== verification/Kv_Term.thy ===== *)
theory Kv_Term
  imports Kv_Refine
begin

unbundle bit_operations_syntax

text \<open>
  The search for a block to write to ends, whatever the flash driver and the allocator do:
  every round of the loop that goes on has collected a dirty block, and no collection makes a
  block dirty.  The argument follows the vector of dirty flags through every function the
  loop calls; it uses no law of the driver.
\<close>

definition dirt :: "'d kv_st \<Rightarrow> bool list" where
  "dirt s = map (\<lambda>d. bit (blk_flags d) 2) (blk_detail s)"

definition num_dirty :: "'d kv_st \<Rightarrow> nat" where
  "num_dirty s = length (filter id (dirt s))"

text \<open>What is followed: the number of hanging blocks and the dirty flags.\<close>

definition tr :: "'d kv_st \<Rightarrow> nat \<times> bool list" where
  "tr s = (num_hanging s, dirt s)"

definition tr_upd :: "nat \<Rightarrow> bool \<Rightarrow> nat \<times> bool list \<Rightarrow> nat \<times> bool list" where
  "tr_upd i v = (\<lambda>(h, l). (h, l[i := v]))"

lemma tr_upd_upd [simp]: "tr_upd i v (tr_upd i w t) = tr_upd i v t"
  by (simp add: tr_upd_def split: prod.split)

lemma dirt_dev [simp]: "tr (s\<lparr>dev := d\<rparr>) = tr s" "tr (s\<lparr>workspace := w\<rparr>) = tr s"
  by (simp_all add: tr_def dirt_def)

lemma dirt_idx_op:
  "idx_op fc b f s s' \<Longrightarrow> (\<And>d. bit (blk_flags (f d)) 2 = bit (blk_flags d) 2) \<Longrightarrow> tr s' = tr s"
  by (cases "KV_BLK_ADDR2IDX fc b < length (blk_detail s)")
    (auto simp: idx_op_def tr_def tr_upd_def dirt_def list_update_beyond list_eq_iff_nth_eq nth_list_update)

lemma dirt_keep [simp]:
  "tr (kv_blk_freesz_set fc b v s) = tr s" "tr (kv_blk_freesz_reduce fc b v s) = tr s"
  "tr (kv_blk_set_inuse fc b s) = tr s" "tr (kv_blk_reset_inuse fc b s) = tr s"
  "tr (kv_blk_reset_fresh fc b s) = tr s"
  by (rule dirt_idx_op [OF idx_op_intros(1)] dirt_idx_op [OF idx_op_intros(2)]
      dirt_idx_op [OF idx_op_intros(4)] dirt_idx_op [OF idx_op_intros(5)]
      dirt_idx_op [OF idx_op_intros(6)]; simp add: bit_simps)+

lemma dirt_set:
  "tr (kv_blk_set_dirty fc b s) = tr_upd (KV_BLK_ADDR2IDX fc b) True (tr s)"
  "tr (kv_blk_set_fresh fc b s) = tr_upd (KV_BLK_ADDR2IDX fc b) False (tr s)"
  "tr (kv_blk_set_bad fc b s) = tr_upd (KV_BLK_ADDR2IDX fc b) False (tr s)"
  using idx_op_intros(3) [of fc b s] idx_op_set_fresh [of fc b s] idx_op_intros(7) [of fc b s]
  by (simp_all add: idx_op_def tr_def tr_upd_def dirt_def map_update bit_simps)

lemma dirt_malloc: "ln_kv_malloc s = (ok, s') \<Longrightarrow> tr s' = tr s"
  by (auto simp: ln_kv_malloc_def tr_def dirt_def split: list.splits)

lemma dirt_write:
  "kv_flash_write fc a bs s = (err, s') \<Longrightarrow> tr s' = tr s"
  "kv_flash_erase fc a n s = (err, s') \<Longrightarrow> tr s' = tr s"
  "kv_flash_wunit_modify fc a v s = (err, s') \<Longrightarrow> tr s' = tr s"
  by (auto simp: kv_flash_write_def kv_flash_erase_def kv_flash_wunit_modify_def split: prod.splits)

lemma dirt_item_write: "kv_item_write fc a h body n s = (err, s') \<Longrightarrow> tr s' = tr s"
  by (auto simp: kv_item_write_def kv_item_hdr_write_def split: prod.splits if_splits dest!: dirt_write)

lemma dirt_body_read: "kv_item_body_read fc it s = (err, it', s') \<Longrightarrow> tr s' = tr s"
  by (auto simp: kv_item_body_read_def split: prod.splits if_splits dest!: dirt_malloc)

lemma dirt_gc_walker: "kv_item_do_gc fc c it s = (err, it', s') \<Longrightarrow> tr s' = tr s"
  by (auto simp: kv_item_do_gc_def split: prod.splits if_splits dest!: dirt_body_read dirt_item_write)

lemma dirt_walk_step:
  assumes W: "\<And>it s err it' s'. W it s = (err, it', s') \<Longrightarrow> tr s' = tr s"
    and "KV_BLK_ADDR2IDX fc b < length (dirt s)" "dirt s ! KV_BLK_ADDR2IDX fc b"
    and st: "kv_walk_step fc W b cur s = (x, s')"
  shows "tr s' = tr s"
proof -
  have upd: "tr_upd (KV_BLK_ADDR2IDX fc b) True (tr s) = tr s"
    using assms(3) by (simp add: tr_def tr_upd_def) (metis list_update_id)
  show ?thesis
    using st by (auto simp: kv_walk_step_def kv_item_do_delete_def dirt_set upd
        split: prod.splits if_splits dest!: dirt_malloc dirt_write(3) W)
qed

lemma dirt_walk:
  assumes "\<And>it s err it' s'. W it s = (err, it', s') \<Longrightarrow> tr s' = tr s"
    and "KV_BLK_ADDR2IDX fc b < length (dirt s)" "dirt s ! KV_BLK_ADDR2IDX fc b"
  shows "tr (snd (kv_walk fc W b cur s)) = tr s"
  using assms
proof (induction fc W b cur s rule: kv_walk.induct)
  case (1 fc W b cur s)
  have st: "tr (snd (kv_walk_step fc W b cur s)) = tr s"
    by (cases "kv_walk_step fc W b cur s") (simp add: dirt_walk_step [OF 1(2-4)])
  show ?case
  proof (cases "kv_walk_step fc W b cur s")
    case (Pair x s1)
    then have d: "tr s1 = tr s" using st by simp
    show ?thesis
    proof (cases x)
      case (Walk_Next n)
      have "tr (snd (kv_walk fc W b (cur + (KV_ITEM_HDR_SIZE + n)) s1)) = tr s1"
        if "cur + (KV_ITEM_HDR_SIZE + n) + KV_ITEM_HDR_SIZE < KV_BLK_END fc b"
      proof (rule 1(1) [OF _ Walk_Next that])
        show "(x, s1) = kv_walk_step fc W b cur s" using Pair by simp
        show "tr s' = tr s" if "W it s = (err, it', s')" for it s err it' s' using that by (rule 1(2))
      qed (use 1(3,4) d in \<open>auto simp: tr_def\<close>)
      then show ?thesis using Pair Walk_Next d by (simp add: kv_walk.simps [of fc W b cur])
    qed (use Pair d in \<open>simp_all add: kv_walk.simps [of fc W b cur]\<close>)
  qed
qed

lemma dirt_format:
  "kv_blk_format fc b s = (err, s') \<Longrightarrow>
     tr (if err \<noteq> KV_ERR_NONE then kv_blk_set_bad fc b s' else s') = tr_upd (KV_BLK_ADDR2IDX fc b) False (tr s)"
  by (auto simp: kv_blk_format_def kv_flash_blk_erase_def dirt_set
      split: prod.splits if_splits dest!: dirt_write)

lemma dirt_walkthru:
  assumes "\<And>it s err it' s'. W it s = (err, it', s') \<Longrightarrow> tr s' = tr s"
    and "KV_BLK_ADDR2IDX fc b < length (dirt s)" "dirt s ! KV_BLK_ADDR2IDX fc b"
    and "kv_item_walkthru fc b W s = (err, it, s')"
  shows "tr s' = tr s \<or> tr s' = tr_upd (KV_BLK_ADDR2IDX fc b) False (tr s)"
proof -
  have "tr (snd (kv_walk fc W b (KV_BLK_FIRST_ITEM b) s)) = tr s"
    by (rule dirt_walk [OF assms(1)]) (use assms(2,3) in auto)
  then show ?thesis using assms(4)
  by (auto simp: kv_item_walkthru_def kv_walk_index_def dirt_set split: prod.splits sum.splits if_splits)
qed

text \<open>A collection of a dirty block clears its flag or, failing early, leaves the vector alone.\<close>

lemma dirt_do_gc:
  assumes i: "KV_BLK_ADDR2IDX fc b < length (dirt s)" "dirt s ! KV_BLK_ADDR2IDX fc b"
    and gc: "kv_do_gc fc b c False s = (err, s')"
  shows "(err \<noteq> KV_ERR_NONE \<and> tr s' = tr s) \<or> tr s' = tr_upd (KV_BLK_ADDR2IDX fc b) False (tr s)"
proof -
  obtain e1 s1 where s1: "kv_blk_mark_gc_src fc b s = (e1, s1)" by fastforce
  obtain e2 s2 where s2: "kv_blk_mark_gc_dst fc c s1 = (e2, s2)" by fastforce
  obtain e3 it s3 where s3: "kv_item_walkthru fc b (kv_item_do_gc fc c) s2 = (e3, it, s3)" by (metis prod_cases3)
  obtain e5 s5 where s5: "kv_blk_format fc b (kv_blk_reset_inuse fc b s3) = (e5, s5)" by fastforce
  let ?s6 = "if e5 \<noteq> KV_ERR_NONE then kv_blk_set_bad fc b s5 else s5"
  obtain e7 s7 where s7: "kv_blk_mark_gc_done fc c ?s6 = (e7, s7)" by fastforce
  have d1: "tr s1 = tr s" using dirt_write(3) s1 unfolding kv_blk_mark_gc_src_def by blast
  have d2: "tr s2 = tr s" using dirt_write(3) s2 d1 unfolding kv_blk_mark_gc_dst_def by metis
  have d3: "tr s3 = tr s \<or> tr s3 = tr_upd (KV_BLK_ADDR2IDX fc b) False (tr s)"
    using dirt_walkthru [OF dirt_gc_walker _ _ s3] i d2 by (auto simp: tr_def)
  have d6: "tr ?s6 = tr_upd (KV_BLK_ADDR2IDX fc b) False (tr s)"
    using dirt_format [OF s5] d3 by auto
  have d7: "tr s7 = tr_upd (KV_BLK_ADDR2IDX fc b) False (tr s)"
    using dirt_write(3) s7 d6 unfolding kv_blk_mark_gc_done_def by metis
  have "kv_do_gc fc b c False s =
     (if e1 \<noteq> KV_ERR_NONE then (e1, s1) else if e2 \<noteq> KV_ERR_NONE then (e2, s2)
      else if e3 \<noteq> KV_ERR_NONE then (e3, s3) else if e7 \<noteq> KV_ERR_NONE then (e7, s7)
      else (KV_ERR_NONE, let s8 = kv_blk_reset_fresh fc c s7
              in if \<not> kv_blk_is_full fc c s8 then kv_blk_set_inuse fc c s8 else s8))"
    using s1 s2 s3 s5 s7 by (simp add: kv_do_gc_def Let_def)
  then show ?thesis using gc d1 d2 d3 d7 by (auto simp: Let_def split: if_splits)
qed

lemma dirt_at: "i < length (dirt s) \<Longrightarrow> dirt s ! i = bit (blk_flags (blk_detail s ! i)) 2"
  by (simp add: dirt_def)

lemma num_dirty_less:
  assumes tr: "tr s' = tr_upd i False (tr s)" and "i < length (dirt s)" "dirt s ! i"
  shows "num_dirty s' < num_dirty s"
proof -
  have upd: "dirt s' = (dirt s)[i := False]" using tr by (simp add: tr_def tr_upd_def)
  have split: "dirt s = take i (dirt s) @ True # drop (Suc i) (dirt s)"
    using assms(2,3) by (metis id_take_nth_drop)
  have "dirt s' = take i (dirt s) @ False # drop (Suc i) (dirt s)"
    using upd assms(2) by (simp add: upd_conv_take_nth_drop)
  then have "num_dirty s' = length (filter id (take i (dirt s))) + length (filter id (drop (Suc i) (dirt s)))"
    by (simp add: num_dirty_def)
  moreover have "num_dirty s = Suc (length (filter id (take i (dirt s))) + length (filter id (drop (Suc i) (dirt s))))"
    unfolding num_dirty_def by (subst split) simp
  ultimately show ?thesis by simp
qed

context kv_part
begin

lemma gc_in_dirty:
  assumes "length (blk_detail s) = kv_blk_count fc" "set bs \<subseteq> set blks" "kv_gc_in fc c bs s = (done, s')"
  shows "length (blk_detail s') = kv_blk_count fc \<and> num_hanging s' = num_hanging s
    \<and> num_dirty s' \<le> num_dirty s \<and> (done \<longrightarrow> num_dirty s' < num_dirty s)"
  using assms
proof (induction bs arbitrary: s)
  case Nil
  then show ?case by simp
next
  case (Cons b bs)
  let ?i = "KV_BLK_ADDR2IDX fc b"
  have len: "?i < length (dirt s)" using Cons.prems addr2idx_less [of b] by (simp add: dirt_def)
  show ?case
  proof (cases "kv_blk_is_dirty fc b s")
    case False
    then show ?thesis using Cons by auto
  next
    case True
    obtain err s1 where gc: "kv_do_gc fc b c False s = (err, s1)" by fastforce
    have d: "dirt s ! ?i" using True len by (simp add: dirt_at)
    note D = dirt_do_gc [OF len d gc]
    have lt: "num_dirty s1 < num_dirty s" if "tr s1 = tr_upd ?i False (tr s)"
      by (rule num_dirty_less [OF that len d])
    have "length (dirt s1) = length (dirt s)" and h: "num_hanging s1 = num_hanging s"
      using D by (auto simp: tr_def tr_upd_def)
    then have l1: "length (blk_detail s1) = kv_blk_count fc"
      using Cons.prems(1) by (simp add: dirt_def)
    have le: "num_dirty s1 \<le> num_dirty s" using D lt by (auto simp: num_dirty_def tr_def)
    show ?thesis
    proof (cases "err = KV_ERR_NONE")
      case ok: True
      then show ?thesis using Cons.prems(3) True gc D lt l1 h by auto
    next
      case bad: False
      then have "kv_gc_in fc c bs s1 = (done, s')" using Cons.prems(3) True gc by simp
      from Cons.IH [OF l1 _ this] Cons.prems(2) le h show ?thesis by auto
    qed
  qed
qed

lemma gc_dirty:
  assumes "length (blk_detail s) = kv_blk_count fc" "num_hanging s = 0" "kv_gc fc s = (KV_ERR_NONE, s')"
  shows "length (blk_detail s') = kv_blk_count fc \<and> num_hanging s' = 0 \<and> num_dirty s' < num_dirty s"
proof -
  obtain dn s1 where g: "kv_gc_in fc (kv_blk_next_fresh fc s) blks s = (dn, s1)" by fastforce
  note D = gc_in_dirty [OF assms(1) order_refl [of "set blks"] g]
  show ?thesis using assms(2,3) g D
    by (auto simp: kv_gc_def num_dirty_def dirt_def Let_def split: if_splits)
qed

lemma search_loop_ends:
  assumes "length (blk_detail s) = kv_blk_count fc" "num_hanging s = 0" "num_dirty s < fuel"
  shows "kv_search_loop fc n fuel s \<noteq> None"
  using assms
proof (induction fuel arbitrary: s)
  case 0
  then show ?case by simp
next
  case (Suc fuel)
  obtain err s1 where gc: "kv_gc fc s = (err, s1)" by fastforce
  show ?case
  proof (cases "err = KV_ERR_NONE")
    case True
    then have "kv_search_loop fc n fuel s1 \<noteq> None"
      using gc_dirty [OF Suc.prems(1,2)] gc Suc.IH [of s1] Suc.prems(3) by auto
    then show ?thesis using gc by (simp add: Let_def)
  next
    case False
    then show ?thesis using gc by (simp add: Let_def)
  qed
qed

lemma search_ends:
  assumes "length (blk_detail s) = kv_blk_count fc" "num_hanging s = 0"
  shows "\<exists>r. kv_blk_search_suitable fc n s = Some r"
proof -
  have "num_dirty s \<le> length (blk_detail s)"
    unfolding num_dirty_def dirt_def by (metis length_filter_le length_map)
  moreover have "length (blk_detail s) < kv_search_fuel s"
    by (simp add: kv_search_fuel_def power2_eq_square)
  ultimately show ?thesis
    using search_loop_ends [OF assms, of "kv_search_fuel s"] by (auto simp: kv_blk_search_suitable_def)
qed

end

end
