(* ===== verification/Kv_Api.thy ===== *)
theory Kv_Api
  imports Kv_Ops Kv_Term "HOL-Library.Multiset"
begin

unbundle bit_operations_syntax

text \<open>
  The interface of the key-value store refines a map from keys to values: collecting a block
  moves its live entries, saving adds one, deleting removes one; the entries of a store are
  compared as multisets, since collecting reorders them.
\<close>

section \<open>The live entries of a store\<close>

lemma mset_lives: "mset (lives fc ess) = (\<Sum>b\<leftarrow>KV_BLK_FOR_EACH fc. mset (filter e_live (ess b)))"
  by (simp add: lives_def filter_concat mset_concat comp_def)

lemma sum_list_upd:
  assumes "distinct bs" "b \<in> set bs"
  shows "(\<Sum>c\<leftarrow>bs. mset (filter e_live ((ess(b := es)) c))) + mset (filter e_live (ess b))
    = (\<Sum>c\<leftarrow>bs. mset (filter e_live (ess c))) + mset (filter e_live es)"
  using assms
proof (induction bs)
  case (Cons c bs)
  show ?case
  proof (cases "c = b")
    case True
    then have "b \<notin> set bs" using Cons.prems by simp
    then have "(\<Sum>c\<leftarrow>bs. mset (filter e_live ((ess(b := es)) c))) = (\<Sum>c\<leftarrow>bs. mset (filter e_live (ess c)))"
      by (intro arg_cong [of _ _ sum_list] map_cong) auto
    then show ?thesis using True by simp
  next
    case False
    then show ?thesis using Cons by (simp add: add.assoc)
  qed
qed simp

context kv_store
begin

lemma lives_upd:
  "b \<in> set blks \<Longrightarrow>
     mset (lives fc (ess(b := es))) + mset (filter e_live (ess b)) = mset (lives fc ess) + mset (filter e_live es)"
  unfolding mset_lives by (rule sum_list_upd [OF distinct_blks])

lemma in_lives: "e \<in> set (lives fc ess) \<longleftrightarrow> (\<exists>b\<in>set blks. e \<in> set (ess b)) \<and> e_live e"
  by (auto simp: lives_def)

section \<open>Collecting\<close>

lemma esize_filter: "esize (filter P es) \<le> esize es"
  by (induction es) auto

lemma do_gc:
  assumes rep: "kv_rep fc cells s ess" and b: "b \<in> set blks" and c: "c \<in> set blks" and ne: "b \<noteq> c"
    and c0: "ess c = []"
  obtains s' where "kv_do_gc fc b c False s = (KV_ERR_NONE, s')"
    "kv_rep fc cells s' (ess(c := filter e_live (ess b), b := []))" "grows s s'"
proof -
  let ?ess = "ess(c := filter e_live (ess b))"
  obtain s1 where s1: "kv_blk_mark_gc_src fc b s = (KV_ERR_NONE, s1)" "kv_rep fc cells s1 ess" "grows s s1"
    using hdr_modify [OF rep b, of 8 KV_BLK_HDR_GC_SRC] by (auto simp: kv_blk_mark_gc_src_def)
  obtain s2 where s2: "kv_blk_mark_gc_dst fc c s1 = (KV_ERR_NONE, s2)" "kv_rep fc cells s2 ess" "grows s1 s2"
    using hdr_modify [OF s1(2) c, of 16 KV_BLK_HDR_GC_DST] by (auto simp: kv_blk_mark_gc_dst_def)
  obtain r s3 where w: "kv_walk fc (kv_item_do_gc fc c) b (epos b []) s2 = (r, s3)" by fastforce
  have r2: "kv_repx {c} fc cells s2 ess" using s2(2) by (simp add: kv_repx_def)
  have cap: "esize (ess c) + esize (filter e_live (ess b)) \<le> FS"
    using repx_blk [OF rep b] esize_filter [of e_live "ess b"] c0 by (simp add: blk_data_def)
  have start: "ess b \<noteq> [] \<or> esize [] + 24 < FS" using size_gt by auto
  have W: "r = Inr (epos b (ess b))" "kv_repx {c} fc cells s3 ?ess" "grows s2 s3"
    using walk_gc [OF r2 b c ne _ cap start w] c0 by simp_all
  have eb: "?ess b = ess b" using ne by simp
  define s4 where "s4 = kv_walk_index fc b (epos b (ess b)) s3"
  have S4: "kv_repx {c} fc cells s4 ?ess" "frame s3 s4"
    using walk_refresh [OF W(2) b _ refl] ne by (simp_all add: s4_def)
  have wt: "kv_item_walkthru fc b (kv_item_do_gc fc c) s2 = (KV_ERR_NONE, None, s4)"
    using w W(1) by (simp add: kv_item_walkthru_def s4_def)
  define s5 where "s5 = kv_blk_reset_inuse fc b s4"
  note op5 = idx_op_intros(5) [of fc b s4]
  have S5: "kv_repx {c} fc cells s5 ?ess"
    unfolding s5_def using repx_blk [OF S4(1) b] repx_fresh [OF S4(1) b] ne
    by (intro repx_idx_op [OF S4(1) op5 b]) (auto simp: blk_data_def blk_fresh_ok_def bit_simps)
  obtain s6 where s6: "kv_blk_format fc b s5 = (KV_ERR_NONE, s6)"
    "kv_repx ({c} - {b}) fc cells s6 (?ess(b := []))" "grows s5 s6"
    by (rule blk_format [OF S5 b])
  then have r6: "kv_repx {c} fc cells s6 (?ess(b := []))" using ne by (simp add: insert_Diff_if)
  obtain s7 where s7: "kv_blk_mark_gc_done fc c s6 = (KV_ERR_NONE, s7)"
    "kv_repx {c} fc cells s7 (?ess(b := []))" "grows s6 s7"
    using hdr_modify [OF r6 c, of 24 KV_BLK_HDR_GC_DONE] by (auto simp: kv_blk_mark_gc_done_def)
  define s8 where "s8 = kv_blk_reset_fresh fc c s7"
  note op8 = idx_op_intros(6) [of fc c s7]
  have S8: "kv_rep fc cells s8 (?ess(b := []))"
    unfolding s8_def using repx_blk [OF s7(2) c]
    by (intro repx_idx_op [OF s7(2) op8 c]) (auto simp: blk_data_def blk_fresh_ok_def bit_simps)
  note op9 = idx_op_intros(4) [of fc c s8]
  have nf: "\<not> bit (blk_flags (dt fc s8 c)) 0"
    using dt_update [OF op8 repx_simps(2) [OF s7(2)] c c] by (simp add: s8_def bit_simps)
  have S9: "kv_rep fc cells (kv_blk_set_inuse fc c s8) (?ess(b := []))"
    using repx_blk [OF S8 c] nf
    by (intro repx_idx_op [OF S8 op9 c]) (auto simp: blk_data_def blk_fresh_ok_def bit_simps)
  note s1(3) also note s2(3) also note W(3) also note grows_simps(2) [OF S4(2)]
  also note grows_idx [OF op5, folded s5_def] also note s6(3) also note s7(3)
  also note grows_idx [OF op8, folded s8_def]
  finally have g8: "grows s s8" .
  from g8 grows_idx [OF op9] have g9: "grows s (kv_blk_set_inuse fc c s8)" by (rule grows_trans)
  show ?thesis
  proof (rule that)
    show "kv_do_gc fc b c False s =
        (KV_ERR_NONE, if \<not> kv_blk_is_full fc c s8 then kv_blk_set_inuse fc c s8 else s8)"
      using s1(1) s2(1) wt s6(1) s7(1) by (simp add: kv_do_gc_def Let_def s5_def s8_def)
  qed (use S8 S9 g8 g9 in auto)
qed

text \<open>A step that keeps the live entries and the flash around the partition.\<close>

definition moves :: "'d kv_st \<Rightarrow> (nat \<Rightarrow> kv_entry list) \<Rightarrow> 'd kv_st \<Rightarrow> (nat \<Rightarrow> kv_entry list) \<Rightarrow> bool" where
  "moves s ess s' ess' \<longleftrightarrow> kv_rep fc cells s' ess' \<and> mset (lives fc ess') = mset (lives fc ess)
     \<and> same_outside fc (cells (dev s)) (cells (dev s'))"

lemma moves_refl: "kv_rep fc cells s ess \<Longrightarrow> moves s ess s ess"
  by (simp add: moves_def)

lemma moves_trans: "moves s ess s1 ess1 \<Longrightarrow> moves s1 ess1 s2 ess2 \<Longrightarrow> moves s ess s2 ess2"
  by (auto simp: moves_def intro: same_outside_trans)

lemma rep_workspace:
  "kv_repx X fc cells s ess \<Longrightarrow> w = KV_BLK_INVALID \<or> w \<in> set blks \<Longrightarrow> kv_repx X fc cells (s\<lparr>workspace := w\<rparr>) ess"
  by (simp add: kv_repx_def)

lemma moves_workspace:
  "moves s ess s' ess' \<Longrightarrow> w = KV_BLK_INVALID \<or> w \<in> set blks \<Longrightarrow> moves s ess (s'\<lparr>workspace := w\<rparr>) ess'"
  by (simp add: moves_def rep_workspace)

lemma gc_in_rep:
  assumes "kv_rep fc cells s ess" "c \<in> set blks" "kv_blk_is_fresh fc c s" "set bs \<subseteq> set blks"
    and "kv_gc_in fc c bs s = (dn, s')"
  shows "\<exists>ess'. moves s ess s' ess' \<and> workspace s' = workspace s"
  using assms(4,5)
proof (induction bs)
  case Nil
  then show ?case using assms(1) moves_refl by auto
next
  case (Cons b bs)
  have b: "b \<in> set blks" using Cons.prems(1) by simp
  show ?case
  proof (cases "kv_blk_is_dirty fc b s")
    case False
    then show ?thesis using Cons by simp
  next
    case True
    have c0: "ess c = []" and "b \<noteq> c"
      using repx_fresh [OF assms(1,2)] assms(3) True by (auto simp: blk_fresh_ok_def)
    let ?ess = "ess(c := filter e_live (ess b), b := [])"
    obtain s1 where gc: "kv_do_gc fc b c False s = (KV_ERR_NONE, s1)" "kv_rep fc cells s1 ?ess" "grows s s1"
      using do_gc [OF assms(1) b assms(2) \<open>b \<noteq> c\<close> c0] by blast
    have "mset (lives fc ?ess) = mset (lives fc ess)"
      using lives_upd [OF assms(2), of ess "filter e_live (ess b)"]
        lives_upd [OF b, of "ess(c := filter e_live (ess b))" "[]"] c0 \<open>b \<noteq> c\<close> by simp
    then show ?thesis
      using Cons.prems(2) True gc by (auto simp: moves_def grows_def)
  qed
qed

lemma rebuild_none:
  "kv_rep fc cells s ess \<Longrightarrow> set bs \<subseteq> set blks \<Longrightarrow> kv_rebuild_in fc bs dn s = (dn, s)"
proof (induction bs)
  case (Cons b bs)
  then show ?case using repx_blk [OF Cons.prems(1), of b] by (simp add: blk_data_def)
qed simp

lemma next_fresh_cases:
  assumes "kv_rep fc cells s ess" "workspace s \<in> set blks"
  shows "kv_blk_next_fresh fc s = KV_BLK_INVALID \<or>
    (kv_blk_next_fresh fc s \<in> set blks \<and> kv_blk_is_fresh fc (kv_blk_next_fresh fc s) s
     \<and> ess (kv_blk_next_fresh fc s) = [])"
proof -
  from first_blk_cases [OF kv_blk_next_fresh_def [symmetric] for_each_from_in_blks [OF assms(2)]]
  show ?thesis using repx_fresh [OF assms(1)] by (auto simp: blk_fresh_ok_def)
qed

lemma gc_rep:
  assumes "kv_rep fc cells s ess" "workspace s \<in> set blks" "kv_gc fc s = (err, s')"
  shows "\<exists>ess'. moves s ess s' ess' \<and> workspace s' \<in> set blks"
proof -
  let ?c = "kv_blk_next_fresh fc s"
  have rb: "(if 0 < num_hanging s then kv_mgr_blk_index_rebuild fc s else (False, s)) = (False, s)"
    using rebuild_none [OF assms(1) order_refl] by (simp add: kv_mgr_blk_index_rebuild_def)
  show ?thesis
  proof (cases "?c = KV_BLK_INVALID")
    case True
    then show ?thesis using assms rb moves_refl by (auto simp: kv_gc_def)
  next
    case False
    then have c: "?c \<in> set blks" "kv_blk_is_fresh fc ?c s" using next_fresh_cases [OF assms(1,2)] by auto
    obtain dn s1 where g: "kv_gc_in fc ?c blks s = (dn, s1)" by fastforce
    from gc_in_rep [OF assms(1) c order_refl g] obtain ess' where
      m: "moves s ess s1 ess'" "workspace s1 = workspace s" by blast
    have "s' = (if dn then s1\<lparr>workspace := ?c\<rparr> else s1)"
      using assms(3) rb g False by (simp add: kv_gc_def)
    then show ?thesis using m c moves_workspace [OF m(1), of ?c] assms(2) by auto
  qed
qed

lemma free_le: "kv_repx X fc cells s ess \<Longrightarrow> b \<in> set blks \<Longrightarrow> free_size (dt fc s b) \<le> FS - esize (ess b)"
  using repx_blk [of X s ess b] by (auto simp: blk_data_def)

lemma search_loop_rep:
  assumes "kv_rep fc cells s ess" "workspace s \<in> set blks" "24 < n" "n \<le> FS"
    and "kv_search_loop fc n fuel s = Some (blk, s')"
  shows "\<exists>ess'. moves s ess s' ess' \<and> (blk = KV_BLK_INVALID \<or> blk \<in> set blks \<and> esize (ess' blk) + n \<le> FS)"
  using assms(1,2,5)
proof (induction fuel arbitrary: s ess)
  case 0
  then show ?case by simp
next
  case (Suc fuel)
  let ?ws = "workspace s" and ?u = "kv_blk_search_inuse fc n s" and ?f = "kv_blk_next_fresh fc s"
  have fits: "esize (ess b) + n \<le> FS" if "b \<in> set blks" "n \<le> kv_blk_freesz_get fc b s" for b
    using free_le [OF Suc.prems(1) that(1)] that(2) assms(3) by (simp add: kv_blk_freesz_get_def)
  have u: "?u = KV_BLK_INVALID \<or> (?u \<in> set blks \<and> n \<le> kv_blk_freesz_get fc ?u s)"
    using first_blk_cases [OF kv_blk_search_inuse_def [symmetric] for_each_from_in_blks [OF Suc.prems(2)]] by auto
  have nf: "\<exists>ess'. moves s ess (t\<lparr>workspace := kv_blk_next_fresh fc t\<rparr>) ess' \<and>
      (kv_blk_next_fresh fc t = KV_BLK_INVALID \<or> kv_blk_next_fresh fc t \<in> set blks \<and> esize (ess' (kv_blk_next_fresh fc t)) + n \<le> FS)"
    if "moves s ess t ess'" "workspace t \<in> set blks" for t ess'
    using next_fresh_cases [of t ess'] that moves_workspace [OF that(1), of "kv_blk_next_fresh fc t"] assms(4)
    by (auto simp: moves_def)
  note m0 = moves_refl [OF Suc.prems(1)]
  consider (ws) "n \<le> kv_blk_freesz_get fc ?ws s"
    | (inuse) "\<not> n \<le> kv_blk_freesz_get fc ?ws s" "?u \<noteq> KV_BLK_INVALID"
    | (none) "\<not> n \<le> kv_blk_freesz_get fc ?ws s" "?u = KV_BLK_INVALID" "num_fresh s < 1"
    | (many) "\<not> n \<le> kv_blk_freesz_get fc ?ws s" "?u = KV_BLK_INVALID" "1 < num_fresh s"
    | (one) "\<not> n \<le> kv_blk_freesz_get fc ?ws s" "?u = KV_BLK_INVALID" "num_fresh s = 1"
    by linarith
  then show ?case
  proof cases
    case ws
    then show ?thesis using Suc.prems(2,3) m0 fits [OF Suc.prems(2)] by auto
  next
    case inuse
    then show ?thesis using Suc.prems(3) u fits [of ?u] moves_workspace [OF m0, of ?u] by (auto simp: Let_def)
  next
    case none
    then show ?thesis using Suc.prems(3) m0 by auto
  next
    case many
    then show ?thesis using Suc.prems(3) nf [OF m0 Suc.prems(2)] by (auto simp: Let_def)
  next
    case one
    obtain err s1 where g: "kv_gc fc s = (err, s1)" by fastforce
    from gc_rep [OF Suc.prems(1,2) g] obtain ess1 where m: "moves s ess s1 ess1" "workspace s1 \<in> set blks" by blast
    show ?thesis
    proof (cases "err = KV_ERR_NONE")
      case True
      then have "kv_search_loop fc n fuel s1 = Some (blk, s')" using Suc.prems(3) one g by simp
      moreover have "kv_rep fc cells s1 ess1" using m(1) by (simp add: moves_def)
      ultimately show ?thesis using Suc.IH [of s1 ess1] m moves_trans [OF m(1)] by blast
    next
      case False
      then show ?thesis using Suc.prems(3) one g nf [OF m] by (auto simp: Let_def)
    qed
  qed
qed

lemma search_rep:
  assumes "kv_rep fc cells s ess" "24 < n" "n \<le> FS" "kv_blk_search_suitable fc n s = Some (blk, s')"
  shows "\<exists>ess'. moves s ess s' ess' \<and> (blk = KV_BLK_INVALID \<or> blk \<in> set blks \<and> esize (ess' blk) + n \<le> FS)"
  using assms search_loop_rep [OF assms(1) _ assms(2,3)] moves_refl [OF assms(1)]
  by (auto simp: kv_blk_search_suitable_def kv_repx_def split: if_splits)

section \<open>Saving an item\<close>

lemma entry_eqI:
  assumes "entry_ok e" "entry_ok e'" "entry_hdr e = entry_hdr e'" "e_key e @ e_val e = e_key e' @ e_val e'"
  shows "e = e'"
proof -
  have "length (e_key e) = length (e_key e')" using entry_hdr_lens(1) [OF assms(1)] entry_hdr_lens(1) [OF assms(2)] assms(3) by simp
  then have kv: "e_key e = e_key e'" "e_val e = e_val e'" using assms(4) by auto
  have "e_live e = e_live e'" using entry_hdr_discarded [of e] entry_hdr_discarded [of e'] assms(3) by simp
  moreover have "e_prev e = e_prev e'" using assms(3) by (simp add: entry_hdr_def)
  ultimately show ?thesis using kv by simp
qed

lemma item_is_moved:
  assumes rep: "kv_rep fc cells s ess" and b: "b \<in> set blks" and e: "entry_ok e"
    and fit: "esize pre + entry_size e \<le> FS" and mv: "kv_item_is_moved fc (item_of e (epos b pre)) s = (mv, s')"
  shows "s' = s \<and> (mv \<or> (\<exists>pre' post. ess b = pre' @ e # post \<and> epos b pre = epos b pre'))"
proof -
  let ?h = "item_hdr_of_bytes (mem_read (cells (dev s)) (epos b pre) 24)"
  have sz: "24 < entry_size e" by (rule entry_size_gt [OF e])
  have "epos b pre + 24 \<le> flash_end fc" using fit sz blk_range [OF b] size_gt by linarith
  then have hr: "kv_item_hdr_read fc (epos b pre) s = (KV_ERR_NONE, ?h)"
    by (simp add: kv_item_hdr_read_def kv_read)
  show ?thesis
  proof (cases "?h = entry_hdr e")
    case False
    then show ?thesis using mv hr by (simp add: kv_item_is_moved_def)
  next
    case True
    have "\<exists>pre' e' post. ess b = pre' @ e' # post \<and> esize pre = esize pre'"
      using repx_blk [OF rep b] True fit sz
      by (intro legal_hdr_is_entry [of "cells (dev s)" "b + 32" FS]) (auto simp: blk_data_def)
    then obtain pre' e' post where es: "ess b = pre' @ e' # post" and eq: "esize pre = esize pre'" by blast
    have h: "entry_hdr e' = entry_hdr e"
      using hdr_read_entry [OF rep b es] hr True eq by simp
    have br: "kv_item_body_read fc (item_of e (epos b pre)) s = (KV_ERR_NONE, item_of e' (epos b pre), s)"
      using body_read_entry [OF rep b es, of "item_of e (epos b pre)"] h eq by simp
    have ok': "entry_ok e'" using blk_entry [OF rep b es] by simp
    have lens: "length (e_key e') = length (e_key e)" "length (e_val e') = length (e_val e)"
      using entry_hdr_lens(1,2) [OF e] entry_hdr_lens(1,2) [OF ok'] h by simp_all
    have res: "s' = s" "mv = (e_key e @ e_val e \<noteq> e_key e' @ e_val e')"
      using mv hr True br e lens by (auto simp: kv_item_is_moved_def Let_def)
    then show ?thesis
      using es eq entry_eqI [OF e ok' h [symmetric]] by auto
  qed
qed

lemma fix_prev:
  assumes rep: "kv_rep fc cells s ess" and b: "b \<in> set blks" and e: "entry_ok e"
    and fit: "esize pre + entry_size e \<le> FS" and live: "e \<in> set (lives fc ess)"
    and fx: "kv_fix_prev fc (Some (item_of e (epos b pre))) s = (err, p1, s')"
  shows "err = KV_ERR_NONE \<and> kv_rep fc cells s' ess \<and> frame s s'
    \<and> (\<exists>b' pre' e' post i. b' \<in> set blks \<and> ess b' = pre' @ e' # post \<and> e_live e' \<and> e_key e' = e_key e
         \<and> p1 = Some i \<and> item_pos i = epos b' pre')"
proof -
  obtain mv s1 where m: "kv_item_is_moved fc (item_of e (epos b pre)) s = (mv, s1)" by fastforce
  note M = item_is_moved [OF rep b e fit m]
  show ?thesis
  proof (cases mv)
    case False
    then obtain pre' post where es: "ess b = pre' @ e # post" "epos b pre = epos b pre'" "s1 = s" using M by auto
    have "err = KV_ERR_NONE" "s' = s" "p1 = Some (item_of e (epos b pre))"
      using fx m False es(3) by (auto simp: kv_fix_prev_def)
    then show ?thesis
      using rep b live es by (intro conjI exI [of _ b] exI [of _ pre'] exI [of _ e] exI [of _ post]
          exI [of _ "item_of e (epos b pre)"]) (auto simp: in_lives)
  next
    case True
    obtain it s2 where f: "kv_item_find_new_copy fc (item_of e (epos b pre)) s = (it, s2)" by fastforce
    note F = item_find_new_copy [OF rep e f]
    obtain i where i: "it = Some i" using F live by (cases it) (auto simp: in_lives)
    from fx m M True f i have r: "err = KV_ERR_NONE" "s' = s2" "p1 = Some ((item_of e (epos b pre))\<lparr>item_pos := item_pos i\<rparr>)"
      by (auto simp: kv_fix_prev_def kv_item_fix_def)
    from F i obtain b' pre' e' post where "b' \<in> set blks" "ess b' = pre' @ e' # post" "e_live e'"
      "e_key e' = e_key e" "i = item_of e' (epos b' pre')" by (auto simp: found_at_def)
    then show ?thesis using F i r by fastforce
  qed
qed

lemma save_index:
  assumes rep: "kv_repx {b} fc cells (kv_blk_freesz_reduce fc b n s) ess" and b: "b \<in> set blks" and ne: "ess b \<noteq> []"
  shows "kv_rep fc cells (kv_save_index fc b n s) ess \<and> grows (kv_blk_freesz_reduce fc b n s) (kv_save_index fc b n s)"
proof -
  let ?s1 = "kv_blk_freesz_reduce fc b n s" and ?s2 = "kv_blk_reset_fresh fc b (kv_blk_freesz_reduce fc b n s)"
  note bd = repx_blk [OF rep b]
  have r2: "kv_rep fc cells ?s2 ess"
    using bd by (intro repx_idx_op [OF rep idx_op_intros(6) b]) (auto simp: blk_data_def blk_fresh_ok_def bit_simps)
  have nf: "\<not> bit (blk_flags (dt fc ?s2 b)) 0"
    using dt_update [OF idx_op_intros(6) repx_simps(2) [OF rep] b b] by (simp add: bit_simps)
  have r3: "kv_rep fc cells (kv_blk_set_inuse fc b ?s2) ess"
    using repx_blk [OF r2 b] nf
    by (intro repx_idx_op [OF r2 idx_op_intros(4) b]) (auto simp: blk_data_def blk_fresh_ok_def bit_simps)
  have r1: "kv_rep fc cells ?s1 ess" if "\<not> bit (blk_flags (dt fc ?s1 b)) 0"
    using rep that by (auto simp: kv_repx_def blk_fresh_ok_def)
  have r4: "kv_rep fc cells (kv_blk_reset_inuse fc b ?s1) ess" if "\<not> bit (blk_flags (dt fc ?s1 b)) 0"
    using bd that
    by (intro repx_idx_op [OF r1 [OF that] idx_op_intros(5) b]) (auto simp: blk_data_def blk_fresh_ok_def bit_simps)
  have g: "grows ?s1 ?s2" "grows ?s1 (kv_blk_set_inuse fc b ?s2)" "grows ?s1 (kv_blk_reset_inuse fc b ?s1)"
    using grows_idx [OF idx_op_intros(6)] grows_idx [OF idx_op_intros(4)] grows_idx [OF idx_op_intros(5)]
    by (blast intro: grows_trans)+
  show ?thesis
    using r1 r2 r3 r4 g grows_simps(1) by (simp add: kv_save_index_def Let_def)
qed

lemma do_save:
  assumes rep: "kv_rep fc cells s ess" and b: "b \<in> set blks" and kv: "kv_clean k v"
    and fit: "esize (ess b) + (24 + (length k + length v)) \<le> FS" and pp: "pp < 2 ^ 24"
  obtains d where "kv_item_do_save fc (KV_BLK_USABLE_ADDR fc b s) k v pp s = (KV_ERR_NONE, s\<lparr>dev := d\<rparr>)"
    "kv_rep fc cells (kv_save_index fc b (24 + (length k + length v)) (s\<lparr>dev := d\<rparr>))
       (ess(b := ess b @ [\<lparr>e_live = True, e_key = k, e_val = v, e_prev = of_nat pp\<rparr>]))"
    "grows s (kv_save_index fc b (24 + (length k + length v)) (s\<lparr>dev := d\<rparr>))"
proof -
  let ?e = "\<lparr>e_live = True, e_key = k, e_val = v, e_prev = of_nat pp\<rparr>"
  let ?h = "(entry_hdr ?e)\<lparr>ih_discarded_flag := 0\<rparr>"
  have e: "entry_ok ?e" "e_live ?e" using kv pp by (simp_all add: entry_ok_def unat_of_nat)
  have sz: "entry_size ?e = 24 + (length k + length v)" by (simp add: entry_size_def)
  obtain d where d: "kv_item_write fc (KV_BLK_USABLE_ADDR fc b s) ?h (k @ v) (length k + length v) s = (KV_ERR_NONE, s\<lparr>dev := d\<rparr>)"
    "kv_repx {b} fc cells (kv_blk_freesz_reduce fc b (entry_size ?e) (s\<lparr>dev := d\<rparr>)) (ess(b := ess b @ [?e]))"
    "grows s (kv_blk_freesz_reduce fc b (entry_size ?e) (s\<lparr>dev := d\<rparr>))"
    using write_append [OF rep b e, of ?h] fit sz by auto
  have "length k < 256" using kv by (simp add: kv_clean_def)
  then have "kv_item_do_save fc (KV_BLK_USABLE_ADDR fc b s) k v pp s = (KV_ERR_NONE, s\<lparr>dev := d\<rparr>)"
    using d(1) repx_simps(1) [OF rep] by (simp add: kv_item_do_save_def Let_def entry_hdr_def)
  then show ?thesis
    using that save_index [OF d(2) b] grows_trans [OF d(3)] sz by simp
qed

text \<open>The item a caller hands in as the previous one is where \<open>kv_item_find\<close> found it.\<close>

definition prev_ok :: "(nat \<Rightarrow> kv_entry list) \<Rightarrow> byte list \<Rightarrow> kv_item option \<Rightarrow> bool" where
  "prev_ok ess k p \<longleftrightarrow> (case p of None \<Rightarrow> True | Some i \<Rightarrow> \<exists>b\<in>set blks. found_at ess (\<lambda>e. e_key e = k) b i)"

definition prev_at :: "(nat \<Rightarrow> kv_entry list) \<Rightarrow> byte list \<Rightarrow> kv_item option \<Rightarrow> bool" where
  "prev_at ess k p \<longleftrightarrow> (case p of None \<Rightarrow> True | Some i \<Rightarrow>
     \<exists>b\<in>set blks. \<exists>pre e post. ess b = pre @ e # post \<and> e_live e \<and> e_key e = k \<and> item_pos i = epos b pre)"

lemma fix_prev_moves:
  assumes rep: "kv_rep fc cells s ess" and p: "prev_ok ess k p" and m: "moves s ess s1 ess1"
    and fx: "kv_fix_prev fc p s1 = (err, p1, s2)"
  shows "err = KV_ERR_NONE \<and> kv_rep fc cells s2 ess1 \<and> frame s1 s2 \<and> prev_at ess1 k p1 \<and> (p1 = None \<longleftrightarrow> p = None)"
proof (cases p)
  case None
  then show ?thesis using fx m by (simp add: kv_fix_prev_def moves_def prev_at_def)
next
  case (Some i)
  then obtain b pre e post where b: "b \<in> set blks" and e: "ess b = pre @ e # post" "e_live e" "e_key e = k"
    "i = item_of e (epos b pre)" using p by (auto simp: prev_ok_def found_at_def)
  note en = blk_entry [OF rep b e(1)]
  have "e \<in> set (ess b)" using e(1) by simp
  then have "e \<in> set (lives fc ess)" using b e(2) by (auto simp: in_lives)
  then have "e \<in> set (lives fc ess1)" using m by (metis moves_def set_mset_mset)
  moreover have "kv_rep fc cells s1 ess1" using m by (simp add: moves_def)
  ultimately have F: "err = KV_ERR_NONE \<and> kv_rep fc cells s2 ess1 \<and> frame s1 s2
    \<and> (\<exists>b' pre' e' post i. b' \<in> set blks \<and> ess1 b' = pre' @ e' # post \<and> e_live e' \<and> e_key e' = k
         \<and> p1 = Some i \<and> item_pos i = epos b' pre')"
    using fix_prev [OF _ b en(1,2), of s1 ess1 err p1 s2] fx Some e(3,4) by simp
  then have "prev_at ess1 k p1 \<and> p1 \<noteq> None"
    unfolding prev_at_def by (elim conjE exE) (simp, blast)
  then show ?thesis using F Some by blast
qed

lemma prev_at_pos:
  assumes "prev_at ess k p" "kv_rep fc cells s ess"
  shows "(case p of Some q \<Rightarrow> item_pos q | None \<Rightarrow> 0) < 2 ^ 24"
proof (cases p)
  case (Some i)
  then obtain b pre e post where b: "b \<in> set blks" "ess b = pre @ e # post" "item_pos i = epos b pre"
    using assms(1) by (auto simp: prev_at_def)
  from blk_entry [OF assms(2) b(1,2)] blk_range [OF b(1)] have "epos b pre < 2 ^ 24"
    using entry_size_gt [of e] by linarith
  then show ?thesis using Some b(3) by simp
qed simp

lemma item_save:
  assumes rep: "kv_rep fc cells s ess" and kv: "kv_clean k v" and fit: "24 + (length k + length v) \<le> FS"
    and p: "prev_ok ess k p" and sv: "kv_item_save fc k v p s = Some (err, p1, s')"
  shows "(err = KV_ERR_INSUFFICIENT_SPACE \<and> (\<exists>ess'. moves s ess s' ess'))
    \<or> (err = KV_ERR_NONE \<and> (\<exists>ess1 c new. mset (lives fc ess1) = mset (lives fc ess) \<and> c \<in> set blks
         \<and> e_live new \<and> e_key new = k \<and> e_val new = v \<and> kv_rep fc cells s' (ess1(c := ess1 c @ [new]))
         \<and> same_outside fc (cells (dev s)) (cells (dev s')) \<and> prev_at ess1 k p1 \<and> (p1 = None \<longleftrightarrow> p = None)))"
proof -
  let ?n = "24 + (length k + length v)"
  obtain blk s1 where se: "kv_blk_search_suitable fc ?n s = Some (blk, s1)"
    using sv by (auto simp: kv_item_save_def Let_def split: option.splits)
  have n: "24 < ?n" using kv by (auto simp: kv_clean_def)
  obtain ess1 where m: "moves s ess s1 ess1"
    and blk: "blk = KV_BLK_INVALID \<or> blk \<in> set blks \<and> esize (ess1 blk) + ?n \<le> FS"
    using search_rep [OF rep n fit se] by blast
  show ?thesis
  proof (cases "blk = KV_BLK_INVALID")
    case True
    then show ?thesis using sv se m by (auto simp: kv_item_save_def)
  next
    case False
    then have b: "blk \<in> set blks" "esize (ess1 blk) + ?n \<le> FS" using blk by auto
    obtain err2 p2 s2 where fx: "kv_fix_prev fc p s1 = (err2, p2, s2)" by (metis prod_cases3)
    note F = fix_prev_moves [OF rep p m fx]
    let ?pp = "case p2 of Some q \<Rightarrow> item_pos q | None \<Rightarrow> 0"
    have r2: "kv_rep fc cells s2 ess1" using F by simp
    have pp: "?pp < 2 ^ 24" using F prev_at_pos r2 by blast
    obtain d where d: "kv_item_do_save fc (KV_BLK_USABLE_ADDR fc blk s2) k v ?pp s2 = (KV_ERR_NONE, s2\<lparr>dev := d\<rparr>)"
      "kv_rep fc cells (kv_save_index fc blk ?n (s2\<lparr>dev := d\<rparr>))
         (ess1(blk := ess1 blk @ [\<lparr>e_live = True, e_key = k, e_val = v, e_prev = of_nat ?pp\<rparr>]))"
      "grows s2 (kv_save_index fc blk ?n (s2\<lparr>dev := d\<rparr>))"
      using do_save [OF r2 b(1) kv b(2) pp] by blast
    have res: "err = KV_ERR_NONE" "p1 = p2" "s' = kv_save_index fc blk ?n (s2\<lparr>dev := d\<rparr>)"
      using sv se False fx F d(1) by (simp_all add: kv_item_save_def)
    have "same_outside fc (cells (dev s)) (cells (dev s'))"
      using m F d(3) res(3) by (auto simp: moves_def frame_def grows_def intro: same_outside_trans)
    then show ?thesis
      using res F b(1) d(2) m
      by (intro disjI2 conjI exI [of _ ess1] exI [of _ blk]
          exI [of _ "\<lparr>e_live = True, e_key = k, e_val = v, e_prev = of_nat ?pp\<rparr>"]) (auto simp: moves_def)
  qed
qed

section \<open>The interface refines a map\<close>

lemma kv_map_lookup:
  assumes "distinct (map e_key (lives fc ess))"
  shows "kv_map fc ess k = Some v \<longleftrightarrow> (\<exists>e\<in>set (lives fc ess). e_key e = k \<and> e_val e = v)"
  using assms by (auto simp: kv_map_def map_of_eq_Some_iff comp_def image_iff)

lemma kv_map_mset:
  assumes "mset (lives fc ess') = mset (lives fc ess)" "distinct (map e_key (lives fc ess))"
  shows "distinct (map e_key (lives fc ess'))" "kv_map fc ess' = kv_map fc ess"
proof -
  have "mset (map e_key (lives fc ess')) = mset (map e_key (lives fc ess))" using assms(1) by simp
  then show d: "distinct (map e_key (lives fc ess'))" using assms(2) mset_eq_imp_distinct_iff by blast
  have "set (lives fc ess') = set (lives fc ess)" using assms(1) by (metis set_mset_mset)
  then show "kv_map fc ess' = kv_map fc ess"
    using kv_map_lookup [OF d] kv_map_lookup [OF assms(2)] by (intro ext option.expand) (metis option.exhaust_sel option.sel)+
qed

lemma moves_inv:
  assumes "moves s ess s' ess'" "distinct (map e_key (lives fc ess))"
  shows "kv_inv fc cells s' (kv_map fc ess)"
  using assms kv_map_mset [of ess' ess] by (auto simp: kv_inv_def moves_def intro!: exI [of _ ess'])

lemma found_lookup:
  assumes "distinct (map e_key (lives fc ess))" "b \<in> set blks" "found_at ess (\<lambda>e. e_key e = k) b i"
  obtains pre e post where "ess b = pre @ e # post" "e_live e" "e_key e = k" "i = item_of e (epos b pre)"
    "kv_map fc ess k = Some (e_val e)"
proof -
  from assms(3) obtain pre e post where e: "ess b = pre @ e # post" "e_live e" "e_key e = k" "i = item_of e (epos b pre)"
    by (auto simp: found_at_def)
  have "e \<in> set (ess b)" using e(1) by simp
  then have "e \<in> set (lives fc ess)" using assms(2) e(2) by (auto simp: in_lives)
  then show ?thesis using that e kv_map_lookup [OF assms(1)] by metis
qed

lemma not_found_lookup:
  assumes "distinct (map e_key (lives fc ess))" "\<forall>b\<in>set blks. \<forall>e\<in>set (ess b). \<not> (e_live e \<and> e_key e = k)"
  shows "kv_map fc ess k = None"
proof -
  have "\<not> (\<exists>e\<in>set (lives fc ess). e_key e = k)" using assms(2) by (fastforce simp: in_lives)
  then show ?thesis using kv_map_lookup [OF assms(1), of k] by (metis not_None_eq)
qed

text \<open>Adding one entry for a key, and taking the old one away.\<close>

lemma lives_append:
  "c \<in> set blks \<Longrightarrow> e_live new \<Longrightarrow> mset (lives fc (ess(c := ess c @ [new]))) = add_mset new (mset (lives fc ess))"
  using lives_upd [of c ess "ess c @ [new]"] by (simp add: add.commute)

lemma lives_discard:
  assumes "b \<in> set blks" "ess b = pre @ e # post" "e_live e"
  shows "add_mset e (mset (lives fc (ess(b := pre @ e\<lparr>e_live := False\<rparr> # post)))) = mset (lives fc ess)"
proof -
  have "add_mset e (mset (lives fc (ess(b := pre @ e\<lparr>e_live := False\<rparr> # post)))) + mset (filter e_live (pre @ post))
    = mset (lives fc ess) + mset (filter e_live (pre @ post))"
    using lives_upd [OF assms(1), of ess "pre @ e\<lparr>e_live := False\<rparr> # post"] assms(2,3) by simp
  then show ?thesis by (metis add_right_cancel)
qed

lemma kv_map_add:
  assumes "mset (lives fc ess') = add_mset new (mset (lives fc ess))" "distinct (map e_key (lives fc ess))"
    and "\<forall>e\<in>set (lives fc ess). e_key e \<noteq> e_key new"
  shows "distinct (map e_key (lives fc ess'))" "kv_map fc ess' = (kv_map fc ess)(e_key new \<mapsto> e_val new)"
proof -
  have "mset (map e_key (lives fc ess')) = mset (e_key new # map e_key (lives fc ess))" using assms(1) by simp
  moreover have "distinct (e_key new # map e_key (lives fc ess))" using assms(2,3) by auto
  ultimately show d: "distinct (map e_key (lives fc ess'))" using mset_eq_imp_distinct_iff by blast
  have "set (lives fc ess') = insert new (set (lives fc ess))"
    using assms(1) by (metis set_mset_add_mset_insert set_mset_mset)
  then have "kv_map fc ess' k = Some v \<longleftrightarrow> ((kv_map fc ess)(e_key new \<mapsto> e_val new)) k = Some v" for k v
    using kv_map_lookup [OF d] kv_map_lookup [OF assms(2)] assms(3) by auto
  then show "kv_map fc ess' = (kv_map fc ess)(e_key new \<mapsto> e_val new)"
    by (intro ext) (metis option.exhaust)
qed

lemma kv_map_remove:
  assumes "add_mset old (mset (lives fc ess')) = mset (lives fc ess)" "distinct (map e_key (lives fc ess))"
  shows "distinct (map e_key (lives fc ess'))" "kv_map fc ess' = (kv_map fc ess)(e_key old := None)"
proof -
  have "mset (e_key old # map e_key (lives fc ess')) = mset (map e_key (lives fc ess))"
    using assms(1) by (metis image_mset_add_mset mset.simps(2) mset_map)
  then have dd: "distinct (e_key old # map e_key (lives fc ess'))" using assms(2) mset_eq_imp_distinct_iff by blast
  then show d: "distinct (map e_key (lives fc ess'))" by simp
  have "set (lives fc ess) = insert old (set (lives fc ess'))"
    using assms(1) by (metis set_mset_add_mset_insert set_mset_mset)
  moreover have "\<forall>e\<in>set (lives fc ess'). e_key e \<noteq> e_key old" using dd by (auto simp: image_iff)
  ultimately have "kv_map fc ess' k = Some v \<longleftrightarrow> ((kv_map fc ess)(e_key old := None)) k = Some v" for k v
    using kv_map_lookup [OF d] kv_map_lookup [OF assms(2)] by auto
  then show "kv_map fc ess' = (kv_map fc ess)(e_key old := None)"
    by (intro ext) (metis option.exhaust)
qed

lemma find_inv:
  assumes "kv_rep fc cells s ess" "distinct (map e_key (lives fc ess))" "kv_item_find fc k s = (it, s')"
  shows "kv_rep fc cells s' ess" "dev s' = dev s" "prev_ok ess k it" "it = None \<longleftrightarrow> kv_map fc ess k = None"
proof -
  note F = item_find [OF assms(1,3)]
  then show "kv_rep fc cells s' ess" "dev s' = dev s" by (simp_all add: frame_def)
  show "prev_ok ess k it" using F by (auto simp: prev_ok_def split: option.splits)
  show "it = None \<longleftrightarrow> kv_map fc ess k = None"
    using F not_found_lookup [OF assms(2)] found_lookup [OF assms(2)]
    by (cases it) (auto, metis option.distinct(1))
qed

lemma item_of_value:
  assumes "kv_rep fc cells s ess" "distinct (map e_key (lives fc ess))" "prev_ok ess k (Some i)"
  shows "\<exists>v. kv_map fc ess k = Some v \<and> unat (ih_v_len (item_hdr i)) = length v
    \<and> take (length v) (drop (unat (ih_k_len (item_hdr i))) (the (item_body i))) = v"
proof -
  from assms(3) obtain b where b: "b \<in> set blks" "found_at ess (\<lambda>e. e_key e = k) b i" by (auto simp: prev_ok_def)
  from found_lookup [OF assms(2) b] obtain pre e post where
    e: "ess b = pre @ e # post" "i = item_of e (epos b pre)" "kv_map fc ess k = Some (e_val e)" by metis
  have "entry_ok e" using blk_entry [OF assms(1) b(1) e(1)] by simp
  then show ?thesis using e by simp
qed

lemma get_refines:
  assumes inv: "kv_inv fc cells s m" and k: "length k < 255"
    and get: "ln_kv_get fc (Some k) (Some n) True s = (err, vlen, buf, s')"
  shows "kv_inv fc cells s' m \<and> dev s' = dev s \<and>
    (case m k of
       None \<Rightarrow> err = KV_ERR_NOT_EXIST \<and> vlen = None \<and> buf = []
     | Some v \<Rightarrow> vlen = Some (length v) \<and>
         (if n < length v then err = KV_ERR_BUF_TOO_SHORT \<and> buf = [] else err = KV_ERR_NONE \<and> buf = v))"
proof -
  obtain ess where E: "kv_rep fc cells s ess" "distinct (map e_key (lives fc ess))" "m = kv_map fc ess"
    using inv by (auto simp: kv_inv_def)
  obtain it s1 where f: "kv_item_find fc k s = (it, s1)" by fastforce
  note F = find_inv [OF E(1,2) f]
  have i1: "kv_inv fc cells s1 m" using F(1) E(2,3) by (auto simp: kv_inv_def)
  show ?thesis
  proof (cases it)
    case None
    then show ?thesis using get k f F i1 E(3) by (auto simp: ln_kv_get_def)
  next
    case (Some i)
    from item_of_value [OF E(1,2)] F(3) Some E(3) obtain v where
      v: "m k = Some v" "unat (ih_v_len (item_hdr i)) = length v"
      "take (length v) (drop (unat (ih_k_len (item_hdr i))) (the (item_body i))) = v" by blast
    then show ?thesis using get k f F(2) i1 Some by (auto simp: ln_kv_get_def Let_def split: if_splits)
  qed
qed

lemma has_key_refines:
  assumes inv: "kv_inv fc cells s m" and k: "length k < 255"
    and has: "ln_kv_has_key fc (Some k) s = (r, s')"
  shows "kv_inv fc cells s' m \<and> dev s' = dev s \<and> r = (if k \<in> dom m then 1 else 0)"
proof -
  obtain ess where E: "kv_rep fc cells s ess" "distinct (map e_key (lives fc ess))" "m = kv_map fc ess"
    using inv by (auto simp: kv_inv_def)
  obtain it s1 where f: "kv_item_find fc k s = (it, s1)" by fastforce
  note F = find_inv [OF E(1,2) f]
  have i1: "kv_inv fc cells s1 m" using F(1) E(2,3) by (auto simp: kv_inv_def)
  show ?thesis using has k f F(2,4) i1 E(3)
    by (cases it) (auto simp: ln_kv_has_key_def split: if_splits)
qed

lemma delete_inv:
  assumes rep: "kv_rep fc cells s ess" and d: "distinct (map e_key (lives fc ess))"
    and b: "b \<in> set blks" "ess b = pre @ e # post" "e_live e"
  obtains s' where "kv_item_delete_aux fc (epos b pre) s = (KV_ERR_NONE, s')"
    "kv_inv fc cells s' ((kv_map fc ess)(e_key e := None))" "same_outside fc (cells (dev s)) (cells (dev s'))"
proof -
  obtain s' where s': "kv_item_delete_aux fc (epos b pre) s = (KV_ERR_NONE, s')"
    "kv_rep fc cells s' (ess(b := pre @ e\<lparr>e_live := False\<rparr> # post))" "grows s s'"
    by (rule delete_entry [OF rep b])
  note R = kv_map_remove [OF lives_discard [of b ess pre e post, OF b] d]
  show ?thesis
    by (rule that [OF s'(1)]) (use s' R in \<open>auto simp: kv_inv_def grows_def\<close>)
qed

lemma del_refines:
  assumes inv: "kv_inv fc cells s m" and k: "length k < 255"
    and del: "ln_kv_del fc (Some k) s = (err, s')"
  shows "kv_inv fc cells s' (m(k := None)) \<and> same_outside fc (cells (dev s)) (cells (dev s'))
    \<and> err = (if k \<in> dom m then KV_ERR_NONE else KV_ERR_NOT_EXIST)"
proof -
  obtain ess where E: "kv_rep fc cells s ess" "distinct (map e_key (lives fc ess))" "m = kv_map fc ess"
    using inv by (auto simp: kv_inv_def)
  obtain it s1 where f: "kv_item_find fc k s = (it, s1)" by fastforce
  note F = find_inv [OF E(1,2) f]
  have i1: "kv_inv fc cells s1 m" using F(1) E(2,3) by (auto simp: kv_inv_def)
  show ?thesis
  proof (cases it)
    case None
    then have "m k = None" using F(4) E(3) by simp
    then have "m(k := None) = m" by auto
    then show ?thesis using del k f i1 F(2) None \<open>m k = None\<close> by (auto simp: ln_kv_del_def)
  next
    case (Some i)
    from F(3) Some obtain b where b: "b \<in> set blks" "found_at ess (\<lambda>e. e_key e = k) b i" by (auto simp: prev_ok_def)
    from found_lookup [OF E(2) b] obtain pre e post where
      e: "ess b = pre @ e # post" "e_live e" "e_key e = k" "i = item_of e (epos b pre)" "kv_map fc ess k = Some (e_val e)"
      by metis
    obtain s2 where s2: "kv_item_delete_aux fc (epos b pre) s1 = (KV_ERR_NONE, s2)"
      "kv_inv fc cells s2 ((kv_map fc ess)(e_key e := None))" "same_outside fc (cells (dev s1)) (cells (dev s2))"
      by (rule delete_inv [OF F(1) E(2) b(1) e(1,2)])
    then show ?thesis using del k f Some e E(3) F(2)
      by (auto simp: ln_kv_del_def kv_item_delete_def)
  qed
qed

lemma kv_map_replace:
  assumes ms: "add_mset old (mset (lives fc ess')) = add_mset new (mset (lives fc ess))"
    and d: "distinct (map e_key (lives fc ess))" and old: "old \<in> set (lives fc ess)" and k: "e_key old = e_key new"
  shows "distinct (map e_key (lives fc ess'))" "kv_map fc ess' = (kv_map fc ess)(e_key new \<mapsto> e_val new)"
proof -
  obtain R where R: "mset (lives fc ess) = add_mset old R" using old by (metis multi_member_split set_mset_mset)
  then have R': "mset (lives fc ess') = add_mset new R" using ms by simp
  have kR: "mset (map e_key (lives fc ess)) = add_mset (e_key new) (image_mset e_key R)" using R k by simp
  moreover have "mset (map e_key (lives fc ess')) = add_mset (e_key new) (image_mset e_key R)" using R' by simp
  ultimately show d': "distinct (map e_key (lives fc ess'))" using d mset_eq_imp_distinct_iff by metis
  have "e_key new \<notin># image_mset e_key R"
  proof -
    obtain xs where "mset xs = R" using ex_mset by blast
    then have "mset (map e_key (lives fc ess)) = mset (e_key new # map e_key xs)" using kR by auto
    then have "distinct (e_key new # map e_key xs)" using d mset_eq_imp_distinct_iff by blast
    then show ?thesis using \<open>mset xs = R\<close> by auto
  qed
  then have nk: "e_key e \<noteq> e_key new" if "e \<in># R" for e using that by (auto simp: image_iff)
  have S: "set (lives fc ess) = insert old (set_mset R)" "set (lives fc ess') = insert new (set_mset R)"
    using R R' by (metis set_mset_add_mset_insert set_mset_mset)+
  have "kv_map fc ess' q = Some v \<longleftrightarrow> ((kv_map fc ess)(e_key new \<mapsto> e_val new)) q = Some v" for q v
    using kv_map_lookup [OF d'] kv_map_lookup [OF d] nk k by (auto simp: S)
  then show "kv_map fc ess' = (kv_map fc ess)(e_key new \<mapsto> e_val new)"
    by (intro ext) (metis option.exhaust)
qed

lemma save_total:
  assumes "kv_rep fc cells s ess"
  shows "\<exists>r. kv_item_save fc k v p s = Some r"
proof -
  obtain b s1 where "kv_blk_search_suitable fc (KV_ITEM_SIZE (length k) (length v)) s = Some (b, s1)"
    using search_ends [OF repx_simps(2,3) [OF assms]] by (metis surj_pair)
  then show ?thesis by (simp add: kv_item_save_def del: split_paired_Ex)
qed

lemma update_replaces:
  assumes rep: "kv_rep fc cells s (ess1(c := ess1 c @ [new]))" and c: "c \<in> set blks"
    and d: "distinct (map e_key (lives fc ess1))" and new: "e_live new"
    and p: "prev_at ess1 (e_key new) (Some i)"
  shows "\<exists>s'. kv_item_delete fc i s = (KV_ERR_NONE, s') \<and> same_outside fc (cells (dev s)) (cells (dev s'))
    \<and> kv_inv fc cells s' ((kv_map fc ess1)(e_key new \<mapsto> e_val new))"
proof -
  from p obtain b pre e post where b: "b \<in> set blks" and e: "ess1 b = pre @ e # post" "e_live e" "e_key e = e_key new"
    "item_pos i = epos b pre" by (auto simp: prev_at_def)
  let ?ess = "ess1(c := ess1 c @ [new])" and ?post = "if b = c then post @ [new] else post"
  have eb: "?ess b = pre @ e # ?post" using e(1) by auto
  let ?ess' = "?ess(b := pre @ e\<lparr>e_live := False\<rparr> # ?post)"
  obtain s' where s': "kv_item_delete_aux fc (epos b pre) s = (KV_ERR_NONE, s')"
    "kv_rep fc cells s' ?ess'" "grows s s'"
    by (rule delete_entry [OF rep b eb e(2)])
  have "add_mset e (mset (lives fc ?ess')) = add_mset new (mset (lives fc ess1))"
    using lives_discard [of b ?ess pre e ?post, OF b eb e(2)] lives_append [OF c new] by simp
  moreover have "e \<in> set (lives fc ess1)"
  proof -
    have "e \<in> set (ess1 b)" using e(1) by simp
    then show ?thesis using b e(2) unfolding in_lives by blast
  qed
  ultimately have "distinct (map e_key (lives fc ?ess'))" "kv_map fc ?ess' = (kv_map fc ess1)(e_key new \<mapsto> e_val new)"
    using kv_map_replace d e(3) by blast+
  then show ?thesis
    using s' e(4) by (auto simp: kv_item_delete_def grows_def kv_inv_def)
qed

lemma set_new:
  assumes rep: "kv_rep fc cells s ess" and d: "distinct (map e_key (lives fc ess))" and kv: "kv_clean k v"
    and fit: "24 + (length k + length v) \<le> FS" and new: "kv_map fc ess k = None"
  shows "\<exists>err p s'. kv_item_save fc k v None s = Some (err, p, s') \<and> same_outside fc (cells (dev s)) (cells (dev s'))
    \<and> (err = KV_ERR_NONE \<and> kv_inv fc cells s' ((kv_map fc ess)(k \<mapsto> v))
       \<or> err = KV_ERR_INSUFFICIENT_SPACE \<and> kv_inv fc cells s' (kv_map fc ess))"
proof -
  obtain err p s' where sv: "kv_item_save fc k v None s = Some (err, p, s')" using save_total [OF rep] by (metis prod_cases3)
  from item_save [OF rep kv fit _ sv] consider
      (no) ess' where "err = KV_ERR_INSUFFICIENT_SPACE" "moves s ess s' ess'"
    | (ok) ess1 c e where "err = KV_ERR_NONE" "mset (lives fc ess1) = mset (lives fc ess)" "c \<in> set blks"
        "e_live e" "e_key e = k" "e_val e = v" "kv_rep fc cells s' (ess1(c := ess1 c @ [e]))"
        "same_outside fc (cells (dev s)) (cells (dev s'))"
    by (auto simp: prev_ok_def)
  then show ?thesis
  proof cases
    case no
    then show ?thesis using sv moves_inv [OF no(2) d] by (auto simp: moves_def)
  next
    case ok
    note K = kv_map_mset [OF ok(2) d]
    have nk: "\<forall>x\<in>set (lives fc ess1). e_key x \<noteq> e_key e"
      using kv_map_lookup [OF K(1), of k] new K(2) ok(5) by (metis option.distinct(1))
    note A = kv_map_add [OF lives_append [of c e ess1, OF ok(3,4)] K(1) nk]
    then have "kv_inv fc cells s' ((kv_map fc ess)(k \<mapsto> v))"
      using ok(5-7) K(2) by (auto simp: kv_inv_def)
    then show ?thesis using sv ok by auto
  qed
qed

lemma set_update:
  assumes rep: "kv_rep fc cells s ess" and d: "distinct (map e_key (lives fc ess))" and kv: "kv_clean k v"
    and fit: "24 + (length k + length v) \<le> FS" and p: "prev_ok ess k (Some i)"
  shows "\<exists>err s'. kv_item_update fc i k v s = Some (err, s') \<and> same_outside fc (cells (dev s)) (cells (dev s'))
    \<and> (err = KV_ERR_NONE \<and> kv_inv fc cells s' ((kv_map fc ess)(k \<mapsto> v))
       \<or> err = KV_ERR_INSUFFICIENT_SPACE \<and> kv_inv fc cells s' (kv_map fc ess))"
proof (cases "kv_item_value_is_match i v")
  case True
  from item_of_value [OF rep d p] obtain w where w: "kv_map fc ess k = Some w"
    "unat (ih_v_len (item_hdr i)) = length w"
    "take (length w) (drop (unat (ih_k_len (item_hdr i))) (the (item_body i))) = w" by blast
  have lv: "length v = length w"
    and tk: "take (length w) (drop (unat (ih_k_len (item_hdr i))) (the (item_body i))) = take (length w) v"
    using True unfolding kv_item_value_is_match_def Let_def w(2) by metis+
  have "w = take (length w) v" using tk unfolding w(3) .
  then have "w = v" using lv by (metis take_all_iff order_refl)
  then have "kv_map fc ess k = Some v" using w(1) by simp
  then have "(kv_map fc ess)(k \<mapsto> v) = kv_map fc ess" by auto
  then show ?thesis using True rep d by (auto simp: kv_item_update_def kv_inv_def)
next
  case False
  obtain err p1 s1 where sv: "kv_item_save fc k v (Some i) s = Some (err, p1, s1)"
    using save_total [OF rep] by (metis prod_cases3)
  from item_save [OF rep kv fit p sv] consider
      (no) ess' where "err = KV_ERR_INSUFFICIENT_SPACE" "moves s ess s1 ess'"
    | (ok) ess1 c e j where "err = KV_ERR_NONE" "mset (lives fc ess1) = mset (lives fc ess)" "c \<in> set blks"
        "e_live e" "e_key e = k" "e_val e = v" "kv_rep fc cells s1 (ess1(c := ess1 c @ [e]))"
        "same_outside fc (cells (dev s)) (cells (dev s1))" "p1 = Some j" "prev_at ess1 k (Some j)"
    by (cases p1) auto
  then show ?thesis
  proof cases
    case no
    then show ?thesis using False sv moves_inv [OF no(2) d] by (auto simp: kv_item_update_def moves_def)
  next
    case ok
    note K = kv_map_mset [OF ok(2) d]
    from update_replaces [OF ok(7,3) K(1) ok(4)] ok(5,6,10) K(2) obtain s2 where
      "kv_item_delete fc j s1 = (KV_ERR_NONE, s2)" "same_outside fc (cells (dev s1)) (cells (dev s2))"
      "kv_inv fc cells s2 ((kv_map fc ess)(k \<mapsto> v))" by auto
    then show ?thesis using False sv ok(1,8,9)
      by (auto simp: kv_item_update_def intro: same_outside_trans)
  qed
qed

lemma set_refines:
  assumes inv: "kv_inv fc cells s m" and kv: "kv_clean k v" and fit: "24 + (length k + length v) \<le> FS"
  shows "\<exists>err s'. ln_kv_set fc (Some k) (Some v) s = Some (err, s') \<and> same_outside fc (cells (dev s)) (cells (dev s'))
    \<and> (err = KV_ERR_NONE \<and> kv_inv fc cells s' (m(k \<mapsto> v))
       \<or> err = KV_ERR_INSUFFICIENT_SPACE \<and> kv_inv fc cells s' m)"
proof -
  obtain ess where E: "kv_rep fc cells s ess" "distinct (map e_key (lives fc ess))" "m = kv_map fc ess"
    using inv by (auto simp: kv_inv_def)
  obtain it s1 where f: "kv_item_find fc k s = (it, s1)" by fastforce
  note F = find_inv [OF E(1,2) f]
  have len: "length k < 255" "length v < 65535" using kv by (auto simp: kv_clean_def)
  show ?thesis
  proof (cases it)
    case None
    then have "kv_map fc ess k = None" using F(4) by simp
    from set_new [OF F(1) E(2) kv fit this] show ?thesis
      using f None len E(3) F(2) by (auto simp: ln_kv_set_def)
  next
    case (Some i)
    from set_update [OF F(1) E(2) kv fit] F(3) Some show ?thesis
      using f len E(3) F(2) by (auto simp: ln_kv_set_def)
  qed
qed

end

end
