(* ===== verification/Kv_Init.thy ===== *)
theory Kv_Init
  imports Kv_Api
begin

unbundle bit_operations_syntax

text \<open>
  Starting the key-value store on a partition no block of which carries a legal header, such
  as an erased one: every block is formatted and the store is empty.
\<close>

context kv_store
begin

definition unformatted :: "mem \<Rightarrow> nat \<Rightarrow> bool" where
  "unformatted m b \<longleftrightarrow> \<not> KV_BLK_IS_LEGAL (blk_hdr_of_bytes (mem_read m b 32))"

text \<open>The state of the table after the blocks in \<open>D\<close> have been visited.\<close>

definition building :: "nat set \<Rightarrow> 'd kv_st \<Rightarrow> bool" where
  "building D s \<longleftrightarrow> malloc_faults s = [] \<and> num_hanging s = 0 \<and> num_inuse s = 0 \<and> num_fresh s = card D
     \<and> length (blk_detail s) = kv_blk_count fc
     \<and> (\<forall>b\<in>set blks. if b \<in> D then blk_data fc (cells (dev s)) b (dt fc s b) []
            \<and> blk_flags (dt fc s b) = KV_BLK_FLAG_FRESH
          else dt fc s b = \<lparr>blk_flags = 0, free_size = 0\<rparr> \<and> unformatted (cells (dev s)) b)"

lemma set_fresh_counters:
  "\<not> bit (blk_flags (dt fc s b)) 0 \<Longrightarrow> num_fresh (kv_blk_set_fresh fc b s) = u16_inc (num_fresh s)"
  "num_inuse (kv_blk_set_fresh fc b s) = num_inuse s"
  by (simp_all add: kv_blk_set_fresh_def Let_def kv_blk_flags_set_def kv_blk_freesz_set_def upd_detail_def)

lemma build_step:
  assumes bd: "building D s" and b: "b \<in> set blks" "b \<notin> D" and D: "D \<subseteq> set blks" and cnt: "kv_blk_count fc < 2 ^ 16"
  obtains s' where "kv_blk_format fc b s = (KV_ERR_NONE, s')" "building (insert b D) s'"
    "same_outside fc (cells (dev s)) (cells (dev s'))" "workspace s' = workspace s"
proof -
  obtain d where d: "kv_blk_format fc b s = (KV_ERR_NONE, kv_blk_set_fresh fc b (s\<lparr>dev := d\<rparr>))"
    "cells d = nor_prog (nor_erase (cells (dev s)) b (KV_BLK_SIZE fc)) b (le_bytes 8 KV_BLK_HDR_MAGIC)"
    "same_outside fc (cells (dev s)) (cells d)"
    by (rule format_flash [OF b(1)])
  let ?s' = "kv_blk_set_fresh fc b (s\<lparr>dev := d\<rparr>)"
  note op = idx_op_set_fresh [of fc b "s\<lparr>dev := d\<rparr>"]
  have len: "length (blk_detail s) = kv_blk_count fc" using bd by (simp add: building_def)
  have dts: "dt fc ?s' c = (if c = b then \<lparr>blk_flags = KV_BLK_FLAG_FRESH, free_size = KV_BLK_FRESH_SIZE fc\<rparr>
      else dt fc s c)" if "c \<in> set blks" for c
    using dt_update [OF op _ b(1) that] len by simp
  have fin: "finite D" using D finite_subset by blast
  have "card D \<le> card (set blks)" using D by (intro card_mono) auto
  also have "\<dots> \<le> kv_blk_count fc" using card_length [of blks] by (simp add: KV_BLK_FOR_EACH_def)
  finally have le: "card D \<le> kv_blk_count fc" .
  have "card D < kv_blk_count fc"
    using b D le by (metis card_seteq card_length finite_set KV_BLK_FOR_EACH_def length_map length_upt
        minus_nat.diff_0 order_trans subset_antisym le_neq_implies_less distinct_card distinct_blks)
  then have inc: "u16_inc (card D) = Suc (card D)" using cnt by (intro u16_inc_eq) simp
  have cf: "confined b (cells (dev s)) (cells d)"
    unfolding d(2) by (rule confined_trans [OF confined_erase confined_prog]) (use size_gt in auto)
  have hdr: "mem_read (cells d) c 32 = mem_read (cells (dev s)) c 32" if "c \<in> set blks" "c \<noteq> b" for c
  proof (rule mem_read_cong)
    fix x assume "c \<le> x" "x < c + 32"
    then have "x < b \<or> b + KV_BLK_SIZE fc \<le> x" using blks_disjoint [of b c] b that size_gt by auto
    then show "cells d x = cells (dev s) x" using cf by (auto simp: confined_def)
  qed
  have dv: "dev ?s' = d" using op by (simp add: idx_op_def)
  have nf: "\<not> bit (blk_flags (dt fc (s\<lparr>dev := d\<rparr>) b)) 0" using bd b by (simp add: building_def)
  have "building (insert b D) ?s'"
    unfolding building_def
  proof (intro conjI ballI)
    show "malloc_faults ?s' = []" "num_hanging ?s' = 0" "length (blk_detail ?s') = kv_blk_count fc"
      using op bd by (auto simp: idx_op_def building_def)
    show "num_inuse ?s' = 0" using bd by (simp add: set_fresh_counters building_def)
    show "num_fresh ?s' = card (insert b D)"
      using bd b fin inc set_fresh_counters(1) [OF nf] by (simp add: building_def)
    fix c assume c: "c \<in> set blks"
    show "if c \<in> insert b D then blk_data fc (cells (dev ?s')) c (dt fc ?s' c) []
            \<and> blk_flags (dt fc ?s' c) = KV_BLK_FLAG_FRESH
          else dt fc ?s' c = \<lparr>blk_flags = 0, free_size = 0\<rparr> \<and> unformatted (cells (dev ?s')) c"
    proof (cases "c = b")
      case True
      then show ?thesis
        using dts [OF c] fresh_size [OF c] erased_after_magic by (simp add: blk_data_def dv d(2))
    next
      case False
      then show ?thesis
        using bd c dts [OF c] confined_other [OF cf b(1) c False] hdr [OF c False]
        by (auto simp: building_def blk_data_def unformatted_def dv)
    qed
  qed
  then show ?thesis
    by (rule that [OF d(1)]) (use d(3) op in \<open>simp_all add: idx_op_def\<close>)
qed

lemma build_all:
  assumes "building D s" "D \<subseteq> set blks" "distinct bs" "set bs \<subseteq> set blks" "set bs \<inter> D = {}" "kv_blk_count fc < 2 ^ 16"
  shows "\<exists>fr s'. kv_build_in fc bs [] [] fresh s = ([], [], fr, s') \<and> building (D \<union> set bs) s'
    \<and> same_outside fc (cells (dev s)) (cells (dev s')) \<and> workspace s' = workspace s"
  using assms
proof (induction bs arbitrary: D s fresh)
  case Nil
  then show ?case by auto
next
  case (Cons b bs)
  have b: "b \<in> set blks" "b \<notin> D" using Cons.prems by auto
  obtain s1 where s1: "kv_blk_format fc b s = (KV_ERR_NONE, s1)" "building (insert b D) s1"
    "same_outside fc (cells (dev s)) (cells (dev s1))" "workspace s1 = workspace s"
    by (rule build_step [OF Cons.prems(1) b Cons.prems(2,6)])
  have hr: "kv_blk_hdr_read fc b s = (KV_ERR_NONE, blk_hdr_of_bytes (mem_read (cells (dev s)) b 32))"
    using blk_range [OF b(1)] size_gt by (simp add: kv_blk_hdr_read_def kv_read)
  have "unformatted (cells (dev s)) b" using Cons.prems(1) b by (simp add: building_def)
  then have st: "kv_build_in fc (b # bs) [] [] fresh s = kv_build_in fc bs [] [] b s1"
    using hr s1(1) by (simp add: unformatted_def)
  have "\<exists>fr s'. kv_build_in fc bs [] [] b s1 = ([], [], fr, s') \<and> building (insert b D \<union> set bs) s'
    \<and> same_outside fc (cells (dev s1)) (cells (dev s')) \<and> workspace s' = workspace s1"
    using Cons.prems b by (intro Cons.IH [OF s1(2)]) auto
  then show ?case using st s1 by (auto intro: same_outside_trans)
qed

lemma count_lt: "kv_blk_count fc < 2 ^ 16"
  using geometry count size_gt by (simp add: kv_geometry_def)

lemma gc_in_clean: "\<forall>b\<in>set bs. \<not> kv_blk_is_dirty fc b s \<Longrightarrow> kv_gc_in fc c bs s = (False, s)"
  by (induction bs) auto

lemma built_flags: "building (set blks) s \<Longrightarrow> b \<in> set blks \<Longrightarrow> blk_flags (dt fc s b) = KV_BLK_FLAG_FRESH"
  by (simp add: building_def)

lemma built_rep:
  "building (set blks) s \<Longrightarrow> w \<in> set blks \<Longrightarrow> kv_rep fc cells (s\<lparr>workspace := w\<rparr>) (\<lambda>_. [])"
  by (auto simp: building_def kv_repx_def blk_fresh_ok_def)

lemma locate_built:
  assumes bd: "building (set blks) s" and ne: "blks \<noteq> []"
  shows "kv_mgr_workspace_locate fc s = (KV_ERR_NONE, s\<lparr>workspace := hd blks\<rparr>)"
proof -
  have h: "num_hanging s = 0" "num_inuse s = 0" "num_fresh s = card (set blks)" using bd by (auto simp: building_def)
  have "snd (kv_try_gc fc s) = s"
    using gc_in_clean [of blks s] built_flags [OF bd] by (simp add: kv_try_gc_def Let_def)
  moreover have "\<not> KV_NO_WRITEABLE_BLK s" using h ne by (simp add: KV_NO_WRITEABLE_BLK_def)
  moreover have "find (\<lambda>b. kv_blk_is_fresh fc b s) blks = Some (hd blks)"
    using ne built_flags [OF bd, of "hd blks"] by (cases blks) auto
  ultimately show ?thesis using h by (simp add: kv_mgr_workspace_locate_def Let_def)
qed

lemma ctl_init:
  assumes "malloc_faults s = []" "\<forall>b\<in>set blks. unformatted (cells (dev s)) b"
  shows "\<exists>s'. kv_mgr_ctl_init fc (kv_zero s) = (KV_ERR_NONE, s') \<and> building {} s' \<and> dev s' = dev s"
proof -
  have "flash_end fc < 2 ^ 32" using geometry by (simp add: kv_geometry_def)
  then have t: "u32_sub (flash_end fc) (flash_start fc) div KV_FLASH_SECTOR_SIZE fc mod 2 ^ 16 = kv_blk_count fc"
    using count count_lt size_gt by simp
  let ?s = "(kv_zero s)\<lparr>num_total := kv_blk_count fc,
      blk_detail := replicate (kv_blk_count fc) \<lparr>blk_flags = 0, free_size = 0\<rparr>\<rparr>"
  have "kv_mgr_ctl_init fc (kv_zero s) = (KV_ERR_NONE, ?s)"
    using assms(1) t by (simp add: kv_mgr_ctl_init_def kv_zero_def Let_def)
  moreover have "building {} ?s"
    using assms addr2idx_less by (simp add: building_def kv_zero_def)
  ultimately show ?thesis by (auto simp: kv_zero_def)
qed

text \<open>On a store all of whose blocks are fresh the first item is always saved.\<close>

definition all_fresh :: "'d kv_st \<Rightarrow> bool" where
  "all_fresh s \<longleftrightarrow> (\<forall>b\<in>set blks. kv_blk_is_fresh fc b s) \<and> 0 < num_fresh s \<and> num_inuse s = 0 \<and> workspace s \<in> set blks"

lemma find_all_fresh: "\<forall>b\<in>set bs. kv_blk_is_fresh fc b s \<Longrightarrow> kv_find_in fc F bs s = (None, s)"
  by (induction bs) auto

lemma set_all_fresh:
  assumes inv: "kv_inv fc cells s m" and af: "all_fresh s" and kv: "kv_clean k v"
    and fit: "24 + (length k + length v) \<le> FS"
  shows "\<exists>s'. ln_kv_set fc (Some k) (Some v) s = Some (KV_ERR_NONE, s') \<and> kv_inv fc cells s' (m(k \<mapsto> v))"
proof -
  obtain ess where rep: "kv_rep fc cells s ess" using inv by (auto simp: kv_inv_def)
  let ?w = "workspace s" and ?n = "24 + (length k + length v)"
  have w: "?w \<in> set blks" "?w \<noteq> KV_BLK_INVALID" using af invalid_not_blk by (auto simp: all_fresh_def)
  have e0: "ess ?w = []" using repx_fresh [OF rep w(1)] af w(1) by (simp add: all_fresh_def blk_fresh_ok_def)
  have "24 < FS" using size_gt by linarith
  then have fe: "free_size (dt fc s ?w) = FS" using free_exact [OF rep w(1)] e0 by simp
  then have "kv_blk_search_suitable fc ?n s = Some (?w, s)"
    using af w fit by (simp add: kv_blk_search_suitable_def KV_NO_WRITEABLE_BLK_def all_fresh_def
        kv_search_fuel_def power2_eq_square kv_blk_freesz_get_def)
  moreover have "esize (ess ?w) + ?n \<le> FS" using e0 fit by simp
  then obtain d where "kv_item_do_save fc (KV_BLK_USABLE_ADDR fc ?w s) k v 0 s = (KV_ERR_NONE, s\<lparr>dev := d\<rparr>)"
    using do_save [OF rep w(1) kv, of 0] by auto
  ultimately have sv: "\<exists>s'. kv_item_save fc k v None s = Some (KV_ERR_NONE, None, s')"
    using w(2) by (simp add: kv_item_save_def kv_fix_prev_def)
  have fi: "kv_item_find fc k s = (None, s)" using af find_all_fresh by (simp add: all_fresh_def kv_item_find_def)
  have "length k < 255" "length v < 65535" using kv by (auto simp: kv_clean_def)
  then have "\<exists>s'. ln_kv_set fc (Some k) (Some v) s = Some (KV_ERR_NONE, s')"
    using sv fi by (auto simp: ln_kv_set_def)
  then show ?thesis using set_refines [OF inv kv fit] by auto
qed

lemma lives_empty: "lives fc (\<lambda>_. []) = []"
  by (simp add: lives_def)

lemma init_unformatted:
  assumes "malloc_faults s0 = []" "\<forall>b\<in>set blks. unformatted (cells (dev s0)) b" "flash_start fc < flash_end fc"
  shows "\<exists>s. ln_kv_init (flash_start fc) (flash_end fc) (Some (flash_drv fc)) (Some (sector_size_log2 fc)) (fc0, s0)
      = (KV_ERR_NONE, fc, s) \<and> kv_inv fc cells s Map.empty \<and> all_fresh s
      \<and> same_outside fc (cells (dev s0)) (cells (dev s))"
proof -
  have fc: "kv_flash_ctl_init (flash_start fc) (flash_end fc) (flash_drv fc) (sector_size_log2 fc) = fc"
    by (simp add: kv_flash_ctl_init_def)
  have pv: "kv_param_verify (flash_start fc) (flash_end fc) (Some (flash_drv fc)) (Some (sector_size_log2 fc)) = KV_ERR_NONE"
    using geometry by (simp add: kv_param_verify_def KV_IS_ALINGED_LOG2_def kv_geometry_def KV_FLASH_SECTOR_SIZE_def)
  obtain s1 where s1: "kv_mgr_ctl_init fc (kv_zero s0) = (KV_ERR_NONE, s1)" "building {} s1" "dev s1 = dev s0"
    using ctl_init [OF assms(1,2)] by blast
  obtain fr s2 where s2: "kv_build_in fc blks [] [] KV_BLK_INVALID s1 = ([], [], fr, s2)" "building (set blks) s2"
    "same_outside fc (cells (dev s1)) (cells (dev s2))"
    using build_all [OF s1(2) _ distinct_blks _ _ count_lt, of KV_BLK_INVALID] by auto
  have ne: "blks \<noteq> []" using assms(3) count by (auto simp: KV_BLK_FOR_EACH_def)
  have "ln_kv_init (flash_start fc) (flash_end fc) (Some (flash_drv fc)) (Some (sector_size_log2 fc)) (fc0, s0)
      = (KV_ERR_NONE, fc, s2\<lparr>workspace := hd blks\<rparr>)"
    using pv fc s1(1) s2(1) locate_built [OF s2(2) ne]
    by (simp add: ln_kv_init_def kv_mgr_ctl_build_def kv_handle_incomplete_gc_def)
  moreover have "kv_inv fc cells (s2\<lparr>workspace := hd blks\<rparr>) Map.empty"
    using built_rep [OF s2(2), of "hd blks"] ne
    by (auto simp: kv_inv_def kv_map_def lives_empty intro!: exI [of _ "\<lambda>_. []"])
  moreover have "all_fresh (s2\<lparr>workspace := hd blks\<rparr>)"
    using s2(2) built_flags [OF s2(2)] ne by (simp add: all_fresh_def building_def card_gt_0_iff)
  ultimately show ?thesis using s1(3) s2(3) by simp
qed

end

end
