(* ===== verification/Kv_Port.thy ===== *)
theory Kv_Port
  imports Kv_Init Hal_Flash
begin

unbundle bit_operations_syntax

text \<open>
  The port of the key-value store to the internal flash,
  \<^verbatim>\<open>components/fs/kv/kv_port/ln_kv_port.c\<close>, and the properties of the store as a whole.  The
  driver of the port keeps the contract of \<open>nor_drv\<close> over every chip that keeps its
  datasheet, so the store on the real driver is an instance of \<open>kv_store\<close>.
\<close>

section \<open>The port\<close>

text \<open>Every project of the SDK defines \<^verbatim>\<open>FLASH_XIP\<close>, so the port reads through the cache.\<close>

definition flash_read :: "'c spi_chip \<Rightarrow> nat \<Rightarrow> nat \<Rightarrow> 'c \<Rightarrow> int \<times> byte list" where
  "flash_read chip offset len c = (0, FLASH_ReadByCache chip offset len c)"

definition flash_write :: "'c spi_chip \<Rightarrow> nat \<Rightarrow> byte list \<Rightarrow> 'c \<Rightarrow> int \<times> 'c" where
  "flash_write chip offset buf c = FLASH_Program chip offset buf c"

definition flash_erase :: "'c spi_chip \<Rightarrow> nat \<Rightarrow> nat \<Rightarrow> 'c \<Rightarrow> int \<times> 'c" where
  "flash_erase chip offset len c = (0, FLASH_Erase chip offset len c)"

definition kv_port_drv :: "'c spi_chip \<Rightarrow> 'c kv_flash_drv" where
  "kv_port_drv chip = \<lparr>drv_write = flash_write chip, drv_read = flash_read chip, drv_erase = flash_erase chip\<rparr>"

definition KV_CONFIG_FLASH_SECT_SIZE_LOG2 :: nat where "KV_CONFIG_FLASH_SECT_SIZE_LOG2 = 12"

definition ln_kv_port_init ::
  "'c spi_chip \<Rightarrow> nat \<Rightarrow> nat \<Rightarrow> 'c kv_flash_ctl \<times> 'c kv_st \<Rightarrow> kv_err \<times> 'c kv_flash_ctl \<times> 'c kv_st" where
  "ln_kv_port_init chip start fin ctl =
     ln_kv_init start fin (Some (kv_port_drv chip)) (Some KV_CONFIG_FLASH_SECT_SIZE_LOG2) ctl"

sublocale spi_nor \<subseteq> kv_port: nor_drv "kv_port_drv chip" cells FALSH_SIZE_MAX FALSH_SIZE_4K
proof
  fix a n :: nat and d
  assume "a + n \<le> FALSH_SIZE_MAX"
  then show "\<exists>r. drv_read (kv_port_drv chip) a n d = (r, mem_read (cells d) a n) \<and> 0 \<le> r"
    by (simp add: kv_port_drv_def flash_read_def FLASH_ReadByCache_cells)
next
  fix a :: nat and bs :: "byte list" and d
  assume "a + length bs \<le> FALSH_SIZE_MAX"
  from FLASH_Program_cells [OF this, of d] show "\<exists>r d'. drv_write (kv_port_drv chip) a bs d = (r, d') \<and> 0 \<le> r
      \<and> cells d' = nor_prog (cells d) a bs"
    by (cases "FLASH_Program chip a bs d") (simp add: kv_port_drv_def flash_write_def)
next
  fix a n :: nat and d
  assume "a mod FALSH_SIZE_4K = 0" "n mod FALSH_SIZE_4K = 0" "a + n \<le> FALSH_SIZE_MAX"
  then show "\<exists>r d'. drv_erase (kv_port_drv chip) a n d = (r, d') \<and> 0 \<le> r \<and> cells d' = nor_erase (cells d) a n"
    by (simp add: kv_port_drv_def flash_erase_def FLASH_Erase_cells)
qed

context spi_nor
begin

lemma port_nor_drv: "nor_drv (kv_port_drv chip) cells FALSH_SIZE_MAX FALSH_SIZE_4K"
  by (rule kv_port.nor_drv_axioms)

end

definition kv_port_fc :: "'c spi_chip \<Rightarrow> nat \<Rightarrow> nat \<Rightarrow> 'c kv_flash_ctl" where
  "kv_port_fc chip start fin = kv_flash_ctl_init start fin (kv_port_drv chip) KV_CONFIG_FLASH_SECT_SIZE_LOG2"

lemma kv_port_fc_simps [simp]:
  "flash_start (kv_port_fc chip start fin) = start" "flash_end (kv_port_fc chip start fin) = fin"
  "flash_drv (kv_port_fc chip start fin) = kv_port_drv chip"
  "sector_size_log2 (kv_port_fc chip start fin) = 12" "KV_FLASH_SECTOR_SIZE (kv_port_fc chip start fin) = 4096"
  by (simp_all add: kv_port_fc_def kv_flash_ctl_init_def KV_CONFIG_FLASH_SECT_SIZE_LOG2_def KV_FLASH_SECTOR_SIZE_def)

lemma kv_port_store:
  assumes "spi_nor chip cells" "start mod 4096 = 0" "fin mod 4096 = 0" "start \<le> fin" "fin \<le> FALSH_SIZE_MAX"
  shows "kv_store (kv_port_fc chip start fin) cells FALSH_SIZE_MAX FALSH_SIZE_4K"
proof (intro kv_store.intro kv_part.intro)
  have "(fin - start) div 4096 \<le> FALSH_SIZE_MAX div 4096" using assms(5) by (intro div_le_mono) simp
  then have "(fin - start) div 4096 < 2 ^ 16" by (simp add: FALSH_SIZE_MAX_def)
  then show "kv_geometry (kv_port_fc chip start fin) FALSH_SIZE_MAX FALSH_SIZE_4K"
    using assms by (simp add: kv_geometry_def FALSH_SIZE_MAX_def FALSH_SIZE_4K_def)
  show "nor_drv (flash_drv (kv_port_fc chip start fin)) cells FALSH_SIZE_MAX FALSH_SIZE_4K"
    by (simp add: spi_nor.port_nor_drv [OF assms(1)])
qed

section \<open>The store on the ideal chip\<close>

text \<open>The partition the projects of the SDK give to the store, \<^verbatim>\<open>KV_SPACE_OFFSET\<close> and
  \<^verbatim>\<open>KV_SPACE_SIZE\<close>.\<close>

definition KV_SPACE_OFFSET :: nat where "KV_SPACE_OFFSET = 0x001CF000"
definition KV_SPACE_SIZE :: nat where "KV_SPACE_SIZE = 1024 * 16"

abbreviation sdk_fc :: "ideal_state kv_flash_ctl" where
  "sdk_fc \<equiv> kv_port_fc ideal_chip KV_SPACE_OFFSET (KV_SPACE_OFFSET + KV_SPACE_SIZE)"

interpretation sdk: kv_store sdk_fc fst FALSH_SIZE_MAX FALSH_SIZE_4K
  by (rule kv_port_store [OF ideal.spi_nor_axioms])
    (simp_all add: KV_SPACE_OFFSET_def KV_SPACE_SIZE_def FALSH_SIZE_MAX_def)

definition blank_ctl :: "ideal_state kv_flash_ctl \<times> ideal_state kv_st" where
  "blank_ctl = (kv_port_fc ideal_chip 0 0,
     \<lparr>workspace = 0, num_inuse = 0, num_fresh = 0, num_hanging = 0, num_total = 0, blk_detail = [],
      dev = ((\<lambda>_. - 1), False), malloc_faults = []\<rparr>)"

definition sdk_state :: "ideal_state kv_st" where
  "sdk_state = snd (snd (ln_kv_port_init ideal_chip KV_SPACE_OFFSET (KV_SPACE_OFFSET + KV_SPACE_SIZE) blank_ctl))"

lemma blank_unformatted: "\<forall>b\<in>set (KV_BLK_FOR_EACH sdk_fc). sdk.unformatted (fst (dev (snd blank_ctl))) b"
  by (simp add: sdk.unformatted_def blank_ctl_def mem_read_def KV_BLK_IS_LEGAL_def blk_hdr_of_bytes_def
      map_replicate_const le_word_ones_full KV_BLK_HDR_MAGIC_def mask_eq_exp_minus_1)

lemma sdk_start:
  "ln_kv_port_init ideal_chip KV_SPACE_OFFSET (KV_SPACE_OFFSET + KV_SPACE_SIZE) blank_ctl = (KV_ERR_NONE, sdk_fc, sdk_state)"
  "kv_inv sdk_fc fst sdk_state Map.empty" "sdk.all_fresh sdk_state"
proof -
  have b: "malloc_faults (snd blank_ctl) = []" by (simp add: blank_ctl_def)
  have "flash_start sdk_fc < flash_end sdk_fc" by (simp add: KV_SPACE_SIZE_def)
  from sdk.init_unformatted [OF b blank_unformatted this, of "fst blank_ctl"] show
    "ln_kv_port_init ideal_chip KV_SPACE_OFFSET (KV_SPACE_OFFSET + KV_SPACE_SIZE) blank_ctl = (KV_ERR_NONE, sdk_fc, sdk_state)"
    "kv_inv sdk_fc fst sdk_state Map.empty" "sdk.all_fresh sdk_state"
    by (auto simp: ln_kv_port_init_def sdk_state_def KV_CONFIG_FLASH_SECT_SIZE_LOG2_def)
qed

text \<open>Starting the store on a partition without block headers.\<close>

lemma kv_port_start:
  assumes "spi_nor chip cells" "start mod 4096 = 0" "fin mod 4096 = 0" "start < fin" "fin \<le> FALSH_SIZE_MAX"
    and "malloc_faults s0 = []"
    and "\<And>i. i < (fin - start) div 4096 \<Longrightarrow>
           \<not> KV_BLK_IS_LEGAL (blk_hdr_of_bytes (mem_read (cells (dev s0)) (start + i * 4096) 32))"
  shows "\<exists>s. ln_kv_port_init chip start fin (fc0, s0) = (KV_ERR_NONE, kv_port_fc chip start fin, s)
    \<and> kv_inv (kv_port_fc chip start fin) cells s Map.empty \<and> kv_store.all_fresh (kv_port_fc chip start fin) s
    \<and> same_outside (kv_port_fc chip start fin) (cells (dev s0)) (cells (dev s))"
proof -
  let ?fc = "kv_port_fc chip start fin"
  have st: "kv_store ?fc cells FALSH_SIZE_MAX FALSH_SIZE_4K"
    using kv_port_store [OF assms(1-3)] assms(4,5) by simp
  have cnt: "kv_blk_count ?fc = (fin - start) div 4096"
    using kv_part.count [OF kv_store.axioms(1) [OF st]] by simp
  have "\<forall>b\<in>set (KV_BLK_FOR_EACH ?fc). kv_store.unformatted (cells (dev s0)) b"
    using assms(7) by (auto simp: kv_store.unformatted_def [OF st] KV_BLK_FOR_EACH_def cnt)
  from kv_store.init_unformatted [OF st assms(6) this, of fc0] assms(4) show ?thesis
    by (auto simp: ln_kv_port_init_def KV_CONFIG_FLASH_SECT_SIZE_LOG2_def)
qed

section \<open>Properties\<close>

text \<open>C1: \<open>ln_kv_set\<close> returns, with success or for lack of space.  On success the store holds the
  new value under the key and every other binding as before; for lack of space it holds what
  it held, even when blocks were collected on the way.  Nothing outside the partition is
  written.  The key and value are not empty, fit their length fields and one block, and do
  not contain the item magic.\<close>

theorem kv_set_refines:
  assumes "kv_store fc cells cap sect" "kv_inv fc cells s m" "kv_clean k v"
    and "KV_ITEM_SIZE (length k) (length v) \<le> KV_BLK_SIZE fc - KV_BLK_HDR_SIZE"
  shows "\<exists>err s'. ln_kv_set fc (Some k) (Some v) s = Some (err, s')
    \<and> same_outside fc (cells (dev s)) (cells (dev s'))
    \<and> (err = KV_ERR_NONE \<and> kv_inv fc cells s' (m(k \<mapsto> v))
       \<or> err = KV_ERR_INSUFFICIENT_SPACE \<and> kv_inv fc cells s' m)"
  using kv_store.set_refines [OF assms(1-3)] assms(4) kv_store.item_sizes(2) [OF assms(1)]
  by (simp add: KV_BLK_HDR_SIZE_def KV_ALIGNED_SIZE_def KV_ALIGN_UP_def KV_FLASH_WRITE_ALIGN_def)

theorem kv_set_refines_witness:
  "\<exists>err s'. ln_kv_set sdk_fc (Some [0x6B]) (Some [1, 2]) sdk_state = Some (err, s')
     \<and> (err = KV_ERR_NONE \<and> kv_inv sdk_fc fst s' [[0x6B] \<mapsto> [1, 2]]
        \<or> err = KV_ERR_INSUFFICIENT_SPACE \<and> kv_inv sdk_fc fst s' Map.empty)"
proof -
  have "kv_clean [0x6B] [1, 2]" by (simp add: kv_clean_def magic_bytes_eq sublist_code)
  from kv_set_refines [OF sdk.kv_store_axioms sdk_start(2) this] show ?thesis
    by (auto simp: KV_BLK_HDR_SIZE_def KV_ALIGNED_SIZE_def KV_ALIGN_UP_def KV_FLASH_WRITE_ALIGN_def)
qed

text \<open>C21: \<open>ln_kv_get\<close> answers with the binding of the key: its length always, its bytes when the
  buffer can hold them, the error for a buffer too short or a key not bound.  It leaves the
  flash and the bindings alone.\<close>

theorem kv_get_refines:
  assumes "kv_store fc cells cap sect" "kv_inv fc cells s m" "length k < 255"
    and "ln_kv_get fc (Some k) (Some n) True s = (err, vlen, buf, s')"
  shows "kv_inv fc cells s' m \<and> dev s' = dev s \<and>
    (case m k of
       None \<Rightarrow> err = KV_ERR_NOT_EXIST \<and> vlen = None \<and> buf = []
     | Some v \<Rightarrow> vlen = Some (length v) \<and>
         (if n < length v then err = KV_ERR_BUF_TOO_SHORT \<and> buf = [] else err = KV_ERR_NONE \<and> buf = v))"
  by (rule kv_store.get_refines [OF assms])

theorem kv_get_refines_witness:
  "fst (ln_kv_get sdk_fc (Some [0x6B]) (Some 4) True sdk_state) = KV_ERR_NOT_EXIST"
proof -
  obtain err vlen buf s' where g: "ln_kv_get sdk_fc (Some [0x6B]) (Some 4) True sdk_state = (err, vlen, buf, s')"
    by (metis prod_cases4)
  from kv_get_refines [OF sdk.kv_store_axioms _ _ g, of Map.empty] sdk_start show ?thesis
    by (simp add: g)
qed

text \<open>C22: \<open>ln_kv_del\<close> removes the binding of the key and no other, and says so; for a key not bound
  it reports that and changes no binding.  Nothing outside the partition is written.\<close>

theorem kv_del_refines:
  assumes "kv_store fc cells cap sect" "kv_inv fc cells s m" "length k < 255"
    and "ln_kv_del fc (Some k) s = (err, s')"
  shows "kv_inv fc cells s' (m(k := None)) \<and> same_outside fc (cells (dev s)) (cells (dev s'))
    \<and> err = (if k \<in> dom m then KV_ERR_NONE else KV_ERR_NOT_EXIST)"
  by (rule kv_store.del_refines [OF assms])

theorem kv_del_refines_witness:
  "fst (ln_kv_del sdk_fc (Some [0x6B]) sdk_state) = KV_ERR_NOT_EXIST"
proof -
  obtain err s' where g: "ln_kv_del sdk_fc (Some [0x6B]) sdk_state = (err, s')" by fastforce
  from kv_del_refines [OF sdk.kv_store_axioms _ _ g, of Map.empty] sdk_start show ?thesis
    by (simp add: g)
qed

text \<open>\<open>ln_kv_has_key\<close> returns one for a bound key and zero for another, and leaves the flash and
  the bindings alone.\<close>

lemma kv_has_key_refines:
  assumes "kv_store fc cells cap sect" "kv_inv fc cells s m" "length k < 255"
    and "ln_kv_has_key fc (Some k) s = (r, s')"
  shows "kv_inv fc cells s' m \<and> dev s' = dev s \<and> r = (if k \<in> dom m then 1 else 0)"
  by (rule kv_store.has_key_refines [OF assms])

lemma kv_has_key_refines_witness: "fst (ln_kv_has_key sdk_fc (Some [0x6B]) sdk_state) = 0"
proof -
  obtain r s' where g: "ln_kv_has_key sdk_fc (Some [0x6B]) sdk_state = (r, s')" by fastforce
  from kv_has_key_refines [OF sdk.kv_store_axioms _ _ g, of Map.empty] sdk_start show ?thesis
    by (simp add: g)
qed

text \<open>starting the store, over any chip that keeps its datasheet, on a partition of which no
  sector carries a block header succeeds and gives the empty store; nothing outside the
  partition is touched.\<close>

lemma kv_port_init_unformatted:
  assumes "spi_nor chip cells" "start mod 4096 = 0" "fin mod 4096 = 0" "start < fin" "fin \<le> FALSH_SIZE_MAX"
    and "malloc_faults s0 = []"
    and "\<And>i. i < (fin - start) div 4096 \<Longrightarrow>
           \<not> KV_BLK_IS_LEGAL (blk_hdr_of_bytes (mem_read (cells (dev s0)) (start + i * 4096) 32))"
  shows "\<exists>s. ln_kv_port_init chip start fin (fc0, s0) = (KV_ERR_NONE, kv_port_fc chip start fin, s)
    \<and> kv_inv (kv_port_fc chip start fin) cells s Map.empty
    \<and> same_outside (kv_port_fc chip start fin) (cells (dev s0)) (cells (dev s))"
  using kv_port_start [OF assms] by blast

lemma kv_port_init_unformatted_witness:
  "fst (ln_kv_port_init ideal_chip KV_SPACE_OFFSET (KV_SPACE_OFFSET + KV_SPACE_SIZE) blank_ctl) = KV_ERR_NONE"
proof -
  have "\<not> KV_BLK_IS_LEGAL (blk_hdr_of_bytes (mem_read (\<lambda>_. - 1) a 32))" for a
    by (simp add: mem_read_def KV_BLK_IS_LEGAL_def blk_hdr_of_bytes_def map_replicate_const
        le_word_ones_full KV_BLK_HDR_MAGIC_def mask_eq_exp_minus_1)
  then show ?thesis
    using kv_port_init_unformatted [OF ideal.spi_nor_axioms, of KV_SPACE_OFFSET "KV_SPACE_OFFSET + KV_SPACE_SIZE"
        "snd blank_ctl" "fst blank_ctl"]
    by (auto simp: blank_ctl_def KV_SPACE_OFFSET_def KV_SPACE_SIZE_def FALSH_SIZE_MAX_def)
qed



text \<open>C2: on a freshly started store over any chip that keeps its datasheet, setting a key succeeds and
  getting it then returns the bytes that were set.\<close>

theorem kv_port_set_get:
  assumes "spi_nor chip cells" "start mod 4096 = 0" "fin mod 4096 = 0" "start < fin" "fin \<le> FALSH_SIZE_MAX"
    and "malloc_faults s0 = []"
    and "\<And>i. i < (fin - start) div 4096 \<Longrightarrow>
           \<not> KV_BLK_IS_LEGAL (blk_hdr_of_bytes (mem_read (cells (dev s0)) (start + i * 4096) 32))"
    and "kv_clean k v" "length k + length v \<le> 4040" "length v \<le> n"
  shows "\<exists>fc s s1 s2. ln_kv_port_init chip start fin (fc0, s0) = (KV_ERR_NONE, fc, s)
    \<and> ln_kv_set fc (Some k) (Some v) s = Some (KV_ERR_NONE, s1)
    \<and> ln_kv_get fc (Some k) (Some n) True s1 = (KV_ERR_NONE, Some (length v), v, s2)"
proof -
  let ?fc = "kv_port_fc chip start fin"
  have st: "kv_store ?fc cells FALSH_SIZE_MAX FALSH_SIZE_4K"
    using kv_port_store [OF assms(1-3)] assms(4,5) by simp
  obtain s where s: "ln_kv_port_init chip start fin (fc0, s0) = (KV_ERR_NONE, ?fc, s)" "kv_inv ?fc cells s Map.empty"
    "kv_store.all_fresh ?fc s"
    using kv_port_start [OF assms(1-7)] by blast
  from kv_store.set_all_fresh [OF st s(2,3) assms(8)] assms(9) obtain s1 where
    s1: "ln_kv_set ?fc (Some k) (Some v) s = Some (KV_ERR_NONE, s1)" "kv_inv ?fc cells s1 [k \<mapsto> v]" by auto
  obtain err vl buf s2 where g: "ln_kv_get ?fc (Some k) (Some n) True s1 = (err, vl, buf, s2)" by (metis prod_cases4)
  have "length k < 255" using assms(8) by (simp add: kv_clean_def)
  from kv_store.get_refines [OF st s1(2) this g] assms(10) g s(1) s1(1) show ?thesis by auto
qed

theorem kv_port_set_get_witness:
  "\<exists>fc s s1 s2. ln_kv_port_init ideal_chip KV_SPACE_OFFSET (KV_SPACE_OFFSET + KV_SPACE_SIZE) blank_ctl
       = (KV_ERR_NONE, fc, s)
    \<and> ln_kv_set fc (Some [0x6B]) (Some [1, 2, 3]) s = Some (KV_ERR_NONE, s1)
    \<and> ln_kv_get fc (Some [0x6B]) (Some 16) True s1 = (KV_ERR_NONE, Some 3, [1, 2, 3], s2)"
proof -
  have "\<not> KV_BLK_IS_LEGAL (blk_hdr_of_bytes (mem_read (\<lambda>_. - 1) a 32))" for a
    by (simp add: mem_read_def KV_BLK_IS_LEGAL_def blk_hdr_of_bytes_def map_replicate_const
        le_word_ones_full KV_BLK_HDR_MAGIC_def mask_eq_exp_minus_1)
  moreover have "kv_clean [0x6B] [1, 2, 3]" by (simp add: kv_clean_def magic_bytes_eq sublist_code)
  ultimately show ?thesis
    using kv_port_set_get [OF ideal.spi_nor_axioms, of KV_SPACE_OFFSET "KV_SPACE_OFFSET + KV_SPACE_SIZE"
        "snd blank_ctl" "[0x6B]" "[1, 2, 3]" 16 "fst blank_ctl"]
    by (auto simp: blank_ctl_def KV_SPACE_OFFSET_def KV_SPACE_SIZE_def FALSH_SIZE_MAX_def)
qed

end
