(* ===== verification/Kv_Room.thy ===== *)
theory Kv_Room
  imports Kv_Init
begin

unbundle bit_operations_syntax

text \<open>
  When the key-value store is sure to take an item: as long as only the workspace holds items, none of
  them discarded, and its block has room, looking for a key changes no state and setting
  a new key succeeds.  This is the store between its first start and the first update
  of a key.
\<close>

context kv_store
begin

definition tidy :: "'d kv_st \<Rightarrow> (nat \<Rightarrow> kv_entry list) \<Rightarrow> bool" where
  "tidy s ess \<longleftrightarrow> kv_rep fc cells s ess \<and> workspace s \<in> set blks
     \<and> (\<forall>b\<in>set blks. b \<noteq> workspace s \<longrightarrow> kv_blk_is_fresh fc b s) \<and> list_all e_live (ess (workspace s))
     \<and> (if ess (workspace s) = [] then kv_blk_is_fresh fc (workspace s) s \<and> 0 < num_fresh s \<and> num_inuse s = 0
        else \<not> kv_blk_is_fresh fc (workspace s) s \<and> kv_blk_is_inuse fc (workspace s) s \<and> 0 < num_inuse s)"

section \<open>Looking for a key\<close>

lemma walk_next:
  "kv_walk_step fc W b p s = (Walk_Next n, s) \<Longrightarrow> p + (24 + n) = q \<Longrightarrow> q + 24 < b + KV_BLK_SIZE fc
     \<Longrightarrow> kv_walk fc W b p s = kv_walk fc W b q s"
  by (simp add: kv_walk.simps [of fc W b p])

lemma walk_live:
  assumes "looks W ess Q" "kv_rep fc cells s ess" "b \<in> set blks" "ess b = pre @ post" "list_all e_live post"
    and "esize (ess b) + 24 < FS"
  shows "\<exists>r. kv_walk fc W b (epos b pre) s = (r, s) \<and> (\<forall>c. r = Inr c \<longrightarrow> c = epos b (ess b))"
  using assms(4,5)
proof (induction post arbitrary: pre)
  case Nil
  then show ?case using walk_step_tail [OF assms(2,3), of W] assms(6) by (simp add: kv_walk.simps)
next
  case (Cons e post)
  have lk: "if Q e then W (raw_item e (epos b pre)) s = (KV_ERR_NONE, item_of e (epos b pre), s)
      else \<exists>i. W (raw_item e (epos b pre)) s = (KV_ERR_NEXT_LOOP, i, s)"
    using assms(1-3) Cons.prems unfolding looks_def by auto
  have pos: "epos b pre + (24 + (length (e_key e) + length (e_val e))) = epos b (pre @ [e])"
    using walk_goes_on(1) [OF assms(2,3) Cons.prems(1)] .
  show ?case
  proof (cases "Q e")
    case True
    then show ?thesis using walk_step_entry [OF assms(2,3) Cons.prems(1), of W] lk Cons.prems(2)
      by (simp add: kv_walk.simps)
  next
    case False
    then have step: "kv_walk_step fc W b (epos b pre) s = (Walk_Next (length (e_key e) + length (e_val e)), s)"
      using walk_step_entry [OF assms(2,3) Cons.prems(1), of W] lk Cons.prems(2) by auto
    have "esize (pre @ [e]) \<le> esize (ess b)" using Cons.prems(1) by simp
    then have "epos b (pre @ [e]) + 24 < b + KV_BLK_SIZE fc" using assms(6) by linarith
    then have "kv_walk fc W b (epos b pre) s = kv_walk fc W b (epos b (pre @ [e])) s"
      by (rule walk_next [OF step pos])
    then show ?thesis using Cons.IH [of "pre @ [e]"] Cons.prems by simp
  qed
qed

lemma walk_index_same:
  assumes "kv_rep fc cells s ess" "b \<in> set blks" "ess b \<noteq> []" "kv_blk_is_inuse fc b s" "esize (ess b) + 24 < FS"
  shows "kv_walk_index fc b (epos b (ess b)) s = s"
proof -
  have fb: "b + KV_BLK_SIZE fc < 2 ^ 32" using blk_range [OF assms(2)] by simp
  have "u32_sub (b + KV_BLK_SIZE fc) (epos b (ess b)) = FS - esize (ess b)"
    using fb assms(5) by simp
  then have fs: "u32_sub (b + KV_BLK_SIZE fc) (epos b (ess b)) = free_size (dt fc s b)"
    using free_exact [OF assms(1,2)] assms(5) by simp
  have "esize (ess b) \<noteq> 0" using assms(3) by (cases "ess b") (auto simp: entry_size_def)
  then have ne: "epos b (ess b) \<noteq> b + 32" by simp
  have 1: "kv_blk_freesz_set fc b (free_size (dt fc s b)) s = s"
    by (simp add: kv_blk_freesz_set_def upd_detail_def)
  have "blk_flags (dt fc s b) OR KV_BLK_FLAG_INUSE = blk_flags (dt fc s b)"
    using assms(4) by (intro bit_word_eqI) (auto simp: bit_simps)
  then have "kv_blk_set_inuse fc b s = s"
    using assms(4) by (simp add: kv_blk_set_inuse_def kv_blk_flags_add_def upd_detail_def)
  then show ?thesis using ne fs 1 assms(5) by (simp add: kv_walk_index_def KV_BLK_FIRST_ITEM_def)
qed

lemma find_in_fresh:
  "\<forall>b\<in>set bs. kv_blk_is_fresh fc b s \<Longrightarrow> kv_find_in fc F (bs @ cs) s = kv_find_in fc F cs s"
  by (induction bs) auto

lemma find_tidy:
  assumes t: "tidy s ess" and room: "esize (ess (workspace s)) + 24 < FS"
  shows "\<exists>it. kv_item_find fc k s = (it, s)"
proof -
  let ?w = "workspace s" and ?F = "\<lambda>b. kv_item_do_find fc b k"
  have rep: "kv_rep fc cells s ess" and w: "?w \<in> set blks" using t by (simp_all add: tidy_def)
  have others: "\<forall>b\<in>set blks. b \<noteq> ?w \<longrightarrow> kv_blk_is_fresh fc b s" using t unfolding tidy_def by blast
  show ?thesis
  proof (cases "ess ?w = []")
    case True
    then have "\<forall>b\<in>set blks. kv_blk_is_fresh fc b s" using t others unfolding tidy_def by metis
    then show ?thesis using find_all_fresh by (simp add: kv_item_find_def)
  next
    case False
    then have u: "\<not> kv_blk_is_fresh fc ?w s" "kv_blk_is_inuse fc ?w s" using t unfolding tidy_def by auto
    obtain r where r: "kv_walk fc (kv_item_do_fetch fc k) ?w (epos ?w []) s = (r, s)"
      "\<forall>c. r = Inr c \<longrightarrow> c = epos ?w (ess ?w)"
      using walk_live [OF fetch_looks [of k] rep w, where pre = "[]" and post = "ess ?w"] t room by (auto simp: tidy_def)
    have "\<exists>err i. kv_item_walkthru fc ?w (kv_item_do_fetch fc k) s = (err, i, s)"
      using r walk_index_same [OF rep w False u(2) room]
      by (cases r) (auto simp: kv_item_walkthru_def KV_BLK_FIRST_ITEM_def)
    then obtain it where it: "?F ?w s = (it, s)" by (auto simp: kv_item_do_find_def)
    obtain xs ys where bl: "blks = xs @ ?w # ys" using w split_list by fast
    then have "?w \<notin> set xs" "?w \<notin> set ys" using distinct_blks by auto
    then have "\<forall>b\<in>set xs. kv_blk_is_fresh fc b s" "\<forall>b\<in>set ys. kv_blk_is_fresh fc b s"
      using others unfolding bl by (metis UnCI set_append list.set_intros(2))+
    then have "kv_item_find fc k s = (if it = None then (None, s) else (it, s))"
      using it u(1) repx_blk [OF rep w] find_all_fresh [of ys s ?F] bl
      by (auto simp: kv_item_find_def find_in_fresh blk_data_def split: option.split)
    then show ?thesis by auto
  qed
qed

section \<open>Setting a new key\<close>

lemma save_index_tidy:
  assumes rep: "kv_rep fc cells s ess" and w: "w \<in> set blks" and n: "n + 24 < free_size (dt fc s w)"
    and lt: "free_size (dt fc s w) < 2 ^ 32"
    and fl: "if kv_blk_is_fresh fc w s then num_inuse s = 0 else kv_blk_is_inuse fc w s \<and> 0 < num_inuse s"
  shows "let s' = kv_save_index fc w n (s\<lparr>dev := d\<rparr>) in \<not> kv_blk_is_fresh fc w s' \<and> kv_blk_is_inuse fc w s'
    \<and> 0 < num_inuse s' \<and> (\<forall>c\<in>set blks. c \<noteq> w \<longrightarrow> dt fc s' c = dt fc s c)"
proof -
  let ?s = "s\<lparr>dev := d\<rparr>"
  let ?r1 = "kv_blk_freesz_reduce fc w n ?s"
  let ?r2 = "kv_blk_reset_fresh fc w ?r1"
  let ?r3 = "kv_blk_set_inuse fc w ?r2"
  have len: "length (blk_detail s) = kv_blk_count fc" by (rule repx_simps(2) [OF rep])
  have i: "KV_BLK_ADDR2IDX fc w < length (blk_detail s)" using addr2idx_less [OF w] len by simp
  have l: "length (blk_detail ?r1) = kv_blk_count fc" "length (blk_detail ?r2) = kv_blk_count fc"
    using len idx_op_intros(2) [of fc w n ?s] idx_op_intros(6) [of fc w ?r1] by (simp_all add: idx_op_def)
  have d1: "dt fc ?r1 c = (if c = w then (dt fc s w)\<lparr>free_size := free_size (dt fc s w) - n\<rparr> else dt fc s c)"
    if "c \<in> set blks" for c
    using dt_update [OF idx_op_intros(2) _ w that, of ?s n] len n lt by simp
  have d2: "dt fc ?r2 c = (if c = w then (dt fc ?r1 w)\<lparr>blk_flags := blk_flags (dt fc ?r1 w) AND NOT KV_BLK_FLAG_FRESH\<rparr> else dt fc ?r1 c)"
    if "c \<in> set blks" for c by (rule dt_update [OF idx_op_intros(6) l(1) w that])
  have d3: "dt fc ?r3 c = (if c = w then (dt fc ?r2 w)\<lparr>blk_flags := blk_flags (dt fc ?r2 w) OR KV_BLK_FLAG_INUSE\<rparr> else dt fc ?r2 c)"
    if "c \<in> set blks" for c by (rule dt_update [OF idx_op_intros(4) l(2) w that])
  have num1: "num_inuse ?r1 = num_inuse s" "num_inuse ?r2 = num_inuse s"
    by (simp_all add: kv_blk_freesz_reduce_def kv_blk_freesz_set_def upd_detail_def kv_blk_reset_fresh_def
        kv_blk_flags_rmv_def Let_def)
  show ?thesis
  proof (cases "kv_blk_is_fresh fc w s")
    case True
    then have ni: "\<not> bit (blk_flags (dt fc s w)) 1" using repx_fresh [OF rep w] by (simp add: blk_fresh_ok_def)
    then have "num_inuse ?r3 = 1" using fl True num1 d2 [OF w] d1 [OF w]
      by (simp add: kv_blk_set_inuse_def kv_blk_flags_add_def upd_detail_def bit_simps)
    moreover have "kv_save_index fc w n ?s = ?r3"
      using True n d1 [OF w] d2 [OF w] by (simp add: kv_save_index_def Let_def kv_blk_is_full_def kv_blk_freesz_get_def)
    ultimately show ?thesis using d1 d2 d3 w by (auto simp: Let_def bit_simps)
  next
    case False
    then have "kv_save_index fc w n ?s = ?r1"
      using n d1 [OF w] by (simp add: kv_save_index_def Let_def kv_blk_is_full_def kv_blk_freesz_get_def)
    then show ?thesis using False fl d1 w num1 by (simp add: Let_def)
  qed
qed

text \<open>The store holds \<open>m\<close>, is tidy, and has room for items of \<open>n\<close> bytes in all.\<close>

definition kv_room :: "'d kv_st \<Rightarrow> (byte list \<rightharpoonup> byte list) \<Rightarrow> nat \<Rightarrow> bool" where
  "kv_room s m n \<longleftrightarrow> (\<exists>ess. tidy s ess \<and> distinct (map e_key (lives fc ess)) \<and> m = kv_map fc ess
     \<and> esize (ess (workspace s)) + n + 24 < FS)"

lemma room_inv: "kv_room s m n \<Longrightarrow> kv_inv fc cells s m"
  by (auto simp: kv_room_def tidy_def kv_inv_def)

lemma room_mono: "kv_room s m n \<Longrightarrow> k \<le> n \<Longrightarrow> kv_room s m k"
  unfolding kv_room_def by fastforce

lemma room_fresh:
  assumes "kv_inv fc cells s m" "all_fresh s" "n + 24 < FS"
  shows "kv_room s m n"
proof -
  obtain ess where E: "kv_rep fc cells s ess" "distinct (map e_key (lives fc ess))" "m = kv_map fc ess"
    using assms(1) by (auto simp: kv_inv_def)
  have "ess b = []" if "b \<in> set blks" for b
    using repx_fresh [OF E(1) that] assms(2) that by (simp add: all_fresh_def blk_fresh_ok_def)
  then have "ess (workspace s) = []" using assms(2) by (simp add: all_fresh_def)
  then show ?thesis using E assms(2,3) unfolding kv_room_def
    by (intro exI [of _ ess]) (auto simp: tidy_def all_fresh_def)
qed

lemma find_room: "kv_room s m n \<Longrightarrow> \<exists>it. kv_item_find fc k s = (it, s)"
  using find_tidy by (fastforce simp: kv_room_def)

lemma get_room:
  assumes "kv_room s m n" "length k < 255"
  shows "ln_kv_get fc (Some k) (Some z) True s =
    (case m k of None \<Rightarrow> (KV_ERR_NOT_EXIST, None, [], s)
     | Some v \<Rightarrow> if z < length v then (KV_ERR_BUF_TOO_SHORT, Some (length v), [], s) else (KV_ERR_NONE, Some (length v), v, s))"
proof -
  obtain err vlen buf s' where g: "ln_kv_get fc (Some k) (Some z) True s = (err, vlen, buf, s')" by (metis prod_cases4)
  obtain it where "kv_item_find fc k s = (it, s)" using find_room [OF assms(1)] by blast
  then have "s' = s" using g assms(2) by (auto simp: ln_kv_get_def Let_def split: option.splits if_splits)
  then show ?thesis using get_refines [OF room_inv [OF assms(1)] assms(2) g] g by (auto split: option.splits if_splits)
qed

lemma set_room:
  assumes r: "kv_room s m (24 + (length k + length v) + n)" and new: "m k = None" and kv: "kv_clean k v"
  shows "\<exists>s'. ln_kv_set fc (Some k) (Some v) s = Some (KV_ERR_NONE, s') \<and> kv_room s' (m(k \<mapsto> v)) n
    \<and> same_outside fc (cells (dev s)) (cells (dev s'))"
proof -
  let ?w = "workspace s" and ?n = "24 + (length k + length v)"
  obtain ess where t: "tidy s ess" and d: "distinct (map e_key (lives fc ess))" and m: "m = kv_map fc ess"
    and fit: "esize (ess ?w) + (?n + n) + 24 < FS" using r unfolding kv_room_def by blast
  have rep: "kv_rep fc cells s ess" and w: "?w \<in> set blks" using t by (simp_all add: tidy_def)
  have wi: "?w \<noteq> KV_BLK_INVALID" using w invalid_not_blk by auto
  have fe: "free_size (dt fc s ?w) = FS - esize (ess ?w)" using free_exact [OF rep w] fit by simp
  have lk: "length k < 255" "length v < 65535" using kv by (auto simp: kv_clean_def)
  obtain it where it: "kv_item_find fc k s = (it, s)" using find_room [OF r] by blast
  then have it0: "it = None" using find_inv(4) [OF rep d it] new m by simp
  have "\<not> KV_NO_WRITEABLE_BLK s" using t by (auto simp: tidy_def KV_NO_WRITEABLE_BLK_def split: if_splits)
  moreover have "?n \<le> free_size (dt fc s ?w)" using fe fit by linarith
  ultimately have se: "kv_blk_search_suitable fc ?n s = Some (?w, s)"
    using wi by (simp add: kv_blk_search_suitable_def kv_search_fuel_def power2_eq_square kv_blk_freesz_get_def)
  let ?e = "\<lparr>e_live = True, e_key = k, e_val = v, e_prev = of_nat 0\<rparr>"
  obtain dv where dv: "kv_item_do_save fc (KV_BLK_USABLE_ADDR fc ?w s) k v 0 s = (KV_ERR_NONE, s\<lparr>dev := dv\<rparr>)"
    "kv_rep fc cells (kv_save_index fc ?w ?n (s\<lparr>dev := dv\<rparr>)) (ess(?w := ess ?w @ [?e]))"
    "grows s (kv_save_index fc ?w ?n (s\<lparr>dev := dv\<rparr>))"
    using do_save [OF rep w kv, of 0] fit by auto
  let ?s = "kv_save_index fc ?w ?n (s\<lparr>dev := dv\<rparr>)" and ?ess = "ess(?w := ess ?w @ [?e])"
  have st: "ln_kv_set fc (Some k) (Some v) s = Some (KV_ERR_NONE, ?s)"
    using lk it it0 se wi dv(1) by (simp add: ln_kv_set_def kv_item_save_def kv_fix_prev_def)
  have g: "workspace ?s = ?w" "same_outside fc (cells (dev s)) (cells (dev ?s))" using dv(3) by (simp_all add: grows_def)
  have "KV_BLK_SIZE fc < 2 ^ 32" using blk_range [OF w] by simp
  then have "free_size (dt fc s ?w) < 2 ^ 32" using fe by linarith
  moreover have "if kv_blk_is_fresh fc ?w s then num_inuse s = 0 else kv_blk_is_inuse fc ?w s \<and> 0 < num_inuse s"
    using t unfolding tidy_def by (auto split: if_splits)
  ultimately have S: "\<not> kv_blk_is_fresh fc ?w ?s" "kv_blk_is_inuse fc ?w ?s" "0 < num_inuse ?s"
    "\<forall>c\<in>set blks. c \<noteq> ?w \<longrightarrow> dt fc ?s c = dt fc s c"
    using save_index_tidy [OF rep w, of ?n dv] fe fit unfolding Let_def by auto
  have "tidy ?s ?ess" using t S dv(2) w unfolding tidy_def g(1) by simp
  moreover have "\<forall>x\<in>set (lives fc ess). e_key x \<noteq> e_key ?e"
    using kv_map_lookup [OF d, of k] new m by auto
  note A = kv_map_add [OF lives_append [of ?w ?e ess, OF w] d this]
  moreover have "esize (?ess (workspace ?s)) + n + 24 < FS" using fit g(1) by (simp add: entry_size_def)
  ultimately have "kv_room ?s (m(k \<mapsto> v)) n" unfolding kv_room_def using m by (intro exI [of _ ?ess]) auto
  then show ?thesis using st g(2) by blast
qed

end

end
