(* ===== verification/Art_String.thy ===== *)
theory Art_String
  imports Prelude "HOL-Library.Monad_Syntax"
begin

unbundle bit_operations_syntax

text \<open>
  The string utilities, \<^verbatim>\<open>components/utils/art_string.c\<close>: cutting fields out of the argument of an AT command,
  reading hexadecimal digits and MAC addresses, and making up a MAC address.  A string is the array it
  lives in; \<open>None\<close> is a read or write outside an array or through the null pointer.  The type
  \<^verbatim>\<open>char\<close> is unsigned on the target.
\<close>

section \<open>Cutting out a field\<close>

text \<open>\<^verbatim>\<open>strlen\<close>, \<^verbatim>\<open>strncpy\<close> and \<^verbatim>\<open>strchr\<close> of the C library on the array from the pointer on.\<close>

definition c_strlen :: "byte list \<Rightarrow> nat option" where
  "c_strlen str = (if 0 \<in> set str then Some (length (c_str str)) else None)"

definition c_strncpy :: "byte list \<Rightarrow> nat \<Rightarrow> byte list option" where
  "c_strncpy str n =
     (let s = take n (c_str str) in
      if length s < n \<and> 0 \<notin> set str then None else Some (s @ replicate (n - length s) 0))"

fun c_strchr :: "byte list \<Rightarrow> byte \<Rightarrow> nat option option" where
  "c_strchr [] c = None"
| "c_strchr (x # xs) c =
     (if x = c then Some (Some 0) else if x = 0 then Some None
      else do { r \<leftarrow> c_strchr xs c; Some (map_option Suc r) })"

text \<open>The two lengths are compared as unsigned numbers: a start past the end of the string wraps around.\<close>

definition substing :: "byte list option \<Rightarrow> byte list option \<Rightarrow> int \<Rightarrow> int \<Rightarrow> (bool \<times> byte list option) option" where
  "substing strSource strDest startPos endPos =
     (case (strSource, strDest) of
        (Some src, Some dst) \<Rightarrow>
          if startPos \<le> endPos then do {
            slen \<leftarrow> c_strlen src;
            let left = (word_of_int (int slen - startPos) :: u32); want = (word_of_int (endPos - startPos) :: u32);
                len = unat (if left > want then want else left) in
            if startPos < 0 \<or> int (length src) < startPos then None else do {
              bs \<leftarrow> c_strncpy (drop (nat startPos) src) len;
              if length dst \<le> len then None
              else Some (True, Some (bs @ 0 # drop (len + 1) dst)) } }
          else Some (False, strDest)
      | _ \<Rightarrow> Some (False, strDest))"

text \<open>The field from \<open>domain_begin\<close> to \<open>domain_end\<close>, both positions in the array \<open>mem\<close>, between two
  \<open>flag\<close> characters if one is given.  A search that finds nothing gives the null pointer: it is followed when the first
  \<open>flag\<close> is missing; when the second is missing, its distance to the string is negative, since memory lies below
  \<^verbatim>\<open>0x80000000\<close>, and no field is cut.\<close>

definition art_string_extract_domain_content ::
  "byte list \<Rightarrow> nat option \<Rightarrow> nat option \<Rightarrow> byte \<Rightarrow> byte option \<Rightarrow> byte list option \<Rightarrow> (bool \<times> byte list option) option" where
  "art_string_extract_domain_content mem domain_begin domain_end domain_separator flag dest_buffer =
     (case (domain_begin, domain_end, dest_buffer) of
        (Some db, Some de, Some dest) \<Rightarrow>
          if \<not> db \<le> de then Some (False, dest_buffer)
          else if db = de then Some (True, dest_buffer)
          else do {
            found \<leftarrow> c_strchr (drop db mem) domain_separator;
            let domain_separator_addr = (case found of None \<Rightarrow> de | Some k \<Rightarrow> db + k) in
            if domain_separator_addr = de then
              (case flag of
                 None \<Rightarrow> substing (Some (drop db mem)) dest_buffer 0 (int (de - db))
               | Some fl \<Rightarrow> do {
                   q \<leftarrow> c_strchr (drop db mem) fl;
                   k \<leftarrow> q;
                   if db + k > domain_separator_addr \<or> db + k + 1 > domain_separator_addr then Some (False, dest_buffer)
                   else do {
                     q2 \<leftarrow> c_strchr (drop (db + k + 1) mem) fl;
                     (case q2 of
                        None \<Rightarrow> Some (False, dest_buffer)
                      | Some k2 \<Rightarrow> substing (Some (drop db mem)) dest_buffer (int (k + 1)) (int (k + 1 + k2))) } })
            else Some (False, dest_buffer) }
      | _ \<Rightarrow> Some (False, dest_buffer))"

section \<open>Hexadecimal digits\<close>

definition isxdigit :: "byte \<Rightarrow> bool" where
  "isxdigit c \<longleftrightarrow> 48 \<le> c \<and> c \<le> 57 \<or> 65 \<le> c \<and> c \<le> 70 \<or> 97 \<le> c \<and> c \<le> 102"

definition ln_char2hex :: "byte \<Rightarrow> byte" where
  "ln_char2hex c =
     (if uint c - 48 \<le> 9 then c - 48
      else if 102 - uint c \<le> 6 then c - 97 + 10
      else c - 65 + 10)"

definition ln_char2hex_safe :: "byte \<Rightarrow> byte \<Rightarrow> bool \<times> byte" where
  "ln_char2hex_safe c hex = (if \<not> isxdigit c then (False, hex) else (True, ln_char2hex c))"

text \<open>The loop of \<^verbatim>\<open>ln_str2bytes\<close>: the characters left, how many were read, the bytes and the place of the next.\<close>

fun str2bytes_loop :: "byte list \<Rightarrow> nat \<Rightarrow> byte list \<Rightarrow> nat \<Rightarrow> (bool \<times> byte list) option" where
  "str2bytes_loop [] i bytes p = None"
| "str2bytes_loop (c # str) i bytes p =
     (if c = 0 then Some (True, bytes)
      else if \<not> isxdigit c then Some (False, bytes)
      else if length bytes \<le> p then None
      else let byte = ln_char2hex c in
        if i mod 2 = 0 then str2bytes_loop str (i + 1) (bytes[p := push_bit 4 byte AND 0xF0]) p
        else str2bytes_loop str (i + 1) (bytes[p := bytes ! p + (byte AND 0x0F)]) (p + 1))"

definition ln_str2bytes :: "byte list \<Rightarrow> byte list \<Rightarrow> (bool \<times> byte list) option" where
  "ln_str2bytes bytes str = str2bytes_loop str 0 bytes 0"

section \<open>MAC addresses\<close>

text \<open>The loop of \<^verbatim>\<open>ln_is_valid_mac_str\<close>: the digits and the separators counted so far.\<close>

fun valid_mac_loop :: "byte list \<Rightarrow> int \<Rightarrow> int \<Rightarrow> int \<times> int" where
  "valid_mac_loop [] i s = (i, s)"
| "valid_mac_loop (c # str) i s =
     (if isxdigit c then valid_mac_loop str (i + 1) s
      else if c = 58 \<or> c = 45 then
        (if i = 0 \<or> i div 2 - 1 \<noteq> s then (i, s) else valid_mac_loop str i (s + 1))
      else valid_mac_loop str i (- 1))"

definition ln_is_valid_mac_str :: "byte list option \<Rightarrow> bool" where
  "ln_is_valid_mac_str mac_str =
     (case mac_str of
        None \<Rightarrow> False
      | Some str \<Rightarrow>
          if length (c_str str) \<noteq> 17 then False
          else (case valid_mac_loop (c_str str) 0 0 of (i, s) \<Rightarrow> i = 12 \<and> (s = 5 \<or> s = 0)))"

definition ln_mac_str2hex :: "byte list option \<Rightarrow> byte list \<Rightarrow> (bool \<times> byte list) option" where
  "ln_mac_str2hex str hex =
     (if \<not> ln_is_valid_mac_str str then Some (False, hex)
      else if length hex < 6 then None
      else Some (True, map (\<lambda>i. ln_char2hex (the str ! (3 * i)) * 16 + ln_char2hex (the str ! (3 * i + 1))) [0..<6] @ drop 6 hex))"

definition ln_is_valid_mac :: "byte list option \<Rightarrow> bool" where
  "ln_is_valid_mac mac =
     (case mac of
        None \<Rightarrow> False
      | Some m \<Rightarrow> if take 6 m = replicate 6 0 then False else if take 6 m = replicate 6 0xFF then False else True)"

definition ln_is_zero_mem :: "byte list option \<Rightarrow> nat \<Rightarrow> bool" where
  "ln_is_zero_mem addr sz = (case addr of None \<Rightarrow> False | Some m \<Rightarrow> list_all (\<lambda>b. b = 0) (take sz m))"

text \<open>\<open>trng\<close> are the words of the random number generator once it is ready.  A null pointer passes the guard of
  \<^verbatim>\<open>ln_generate_true_random_words\<close>.\<close>

definition ln_generate_true_random_words :: "(nat \<Rightarrow> u32) \<Rightarrow> u32 list option \<Rightarrow> nat \<Rightarrow> (bool \<times> u32 list) option" where
  "ln_generate_true_random_words trng words words_len =
     (case words of
        None \<Rightarrow> if words_len = 0 then Some (True, []) else None
      | Some ws \<Rightarrow> if length ws < words_len then None else Some (True, map trng [0..<words_len] @ drop words_len ws))"

definition LN_MAC_OUI :: "byte list" where "LN_MAC_OUI = [0x00, 0x50, 0xC2]"

definition ln_generate_random_mac :: "u32 \<Rightarrow> byte list option \<Rightarrow> (int \<times> byte list option) option" where
  "ln_generate_random_mac trng addr =
     (case addr of
        None \<Rightarrow> Some (- 1, None)
      | Some a \<Rightarrow> if length a < 6 then None else Some (0, Some (LN_MAC_OUI @ take 3 (le_bytes 4 trng) @ drop 6 a)))"

section \<open>Reading back what is written\<close>

definition hexdig :: "bool \<Rightarrow> byte \<Rightarrow> byte" where
  "hexdig up n = (if n < 10 then n + 48 else if up then n + 55 else n + 87)"

definition hex2 :: "bool \<Rightarrow> byte \<Rightarrow> byte list" where
  "hex2 up b = [hexdig up (drop_bit 4 b), hexdig up (b AND 0x0F)]"

text \<open>A MAC address as it is usually written.\<close>

definition mac_text :: "bool \<Rightarrow> byte \<Rightarrow> byte list \<Rightarrow> byte list" where
  "mac_text up sep mac = concat (map (\<lambda>b. hex2 up b @ [sep]) (butlast mac)) @ hex2 up (last mac)"

lemma nibble_cases:
  assumes "(n :: byte) < 16"
  shows "n \<in> {0, 1, 2, 3, 4, 5, 6, 7, 8, 9, 10, 11, 12, 13, 14, 15}"
proof -
  have "unat n < 16" using assms by (simp add: word_less_nat_alt)
  then have "unat n \<in> {0, 1, 2, 3, 4, 5, 6, 7, 8, 9, 10, 11, 12, 13, 14, 15}" by simp presburger
  then have "of_nat (unat n) \<in> (of_nat ` {0, 1, 2, 3, 4, 5, 6, 7, 8, 9, 10, 11, 12, 13, 14, 15} :: byte set)" by (rule imageI)
  then show ?thesis by simp
qed

lemma hexdig_reads:
  assumes "n < 16"
  shows "isxdigit (hexdig up n)" "ln_char2hex (hexdig up n) = n" "hexdig up n \<noteq> 0"
  using nibble_cases [OF assms] by (cases up; auto simp: isxdigit_def ln_char2hex_def hexdig_def)+

lemma low_nibble: "b AND 0x0F = take_bit 4 (b :: byte)"
proof -
  have "(0x0F :: byte) = mask 4" by (simp add: mask_eq_exp_minus_1)
  then show ?thesis by (metis take_bit_eq_mask)
qed

lemma nibble_less: "drop_bit 4 (b :: byte) < 16" "b AND 0x0F < 16"
proof -
  have "unat b < 256" using unsigned_less [of b] by simp
  then show "drop_bit 4 b < 16" by (simp add: word_less_nat_alt drop_bit_eq_div unat_div)
  show "b AND 0x0F < 16" by (simp add: low_nibble word_less_nat_alt take_bit_eq_mod unat_mod)
qed

lemma nibbles_join: "drop_bit 4 (b :: byte) * 16 + (b AND 0x0F) = b"
  using bits_ident [of 4 b] by (simp add: low_nibble push_bit_eq_mult mult.commute)

lemmas hex_reads [simp] = hexdig_reads [OF nibble_less(1)] hexdig_reads [OF nibble_less(2)]

lemma mac_text_six: "mac_text up sep [a, b, c, d, e, f] =
  hex2 up a @ sep # hex2 up b @ sep # hex2 up c @ sep # hex2 up d @ sep # hex2 up e @ sep # hex2 up f"
  by (simp add: mac_text_def)

lemma list_six: "length xs = 6 \<Longrightarrow> \<exists>a b c d e f. xs = [a, b, c, d, e, f]"
  by (auto simp: length_Suc_conv numeral_eq_Suc)

text \<open>A MAC address written with two digits a byte, in either case, and colons or dashes between them is accepted, and its
  bytes are read.\<close>

lemma mac_text_roundtrip:
  assumes "length mac = 6" "sep = 58 \<or> sep = 45" "6 \<le> length hex"
  shows "ln_mac_str2hex (Some (mac_text up sep mac @ [0])) hex = Some (True, mac @ drop 6 hex)"
proof -
  obtain a b c d e f where mac: "mac = [a, b, c, d, e, f]" using list_six [OF assms(1)] by blast
  have sep: "\<not> isxdigit sep" "sep \<noteq> 0" using assms(2) by (auto simp: isxdigit_def)
  have cs: "c_str (mac_text up sep mac @ [0]) = mac_text up sep mac"
    using sep by (simp add: c_str_def mac mac_text_six hex2_def)
  have "valid_mac_loop (mac_text up sep mac) 0 0 = (12, 5)"
    using sep assms(2) by (simp add: mac mac_text_six hex2_def)
  then have "ln_is_valid_mac_str (Some (mac_text up sep mac @ [0]))"
    by (simp add: ln_is_valid_mac_str_def cs) (simp add: mac mac_text_six hex2_def)
  moreover have "map (\<lambda>i. ln_char2hex ((mac_text up sep mac @ [0]) ! (3 * i)) * 16
      + ln_char2hex ((mac_text up sep mac @ [0]) ! (3 * i + 1))) [0..<6] = mac"
    by (simp add: mac mac_text_six hex2_def upt_rec nibbles_join)
  ultimately show ?thesis using assms(3) by (simp add: ln_mac_str2hex_def)
qed

lemma mac_text_roundtrip_witness:
  "ln_mac_str2hex (Some (mac_text True 58 [0x00, 0x50, 0xC2, 0x5E, 0x10, 0x8D] @ [0])) (replicate 6 0)
     = Some (True, [0x00, 0x50, 0xC2, 0x5E, 0x10, 0x8D])"
  using mac_text_roundtrip [of "[0x00, 0x50, 0xC2, 0x5E, 0x10, 0x8D]" 58 "replicate 6 0" True] by simp

text \<open>The check counts digits and separators but not their places: a text whose third byte boundary is misplaced is accepted
  and read as a different address.\<close>

lemma mac_text_misplaced:
  "ln_mac_str2hex (Some (str_bytes ''112:3:44:55:66:77'' @ [0])) (replicate 6 0)
     = Some (True, [0x11, 0x33, 0x44, 0x55, 0x66, 0x77])"
  "ln_is_valid_mac_str (Some (str_bytes ''!!!!1:23456789abc'' @ [0]))"
  by (simp_all add: ln_mac_str2hex_def ln_is_valid_mac_str_def str_bytes_def c_str_def of_char_def isxdigit_def
      ln_char2hex_def upt_rec)

lemma push_and_mask: "push_bit n w AND NOT (mask n) = push_bit n (w :: 'a::len word)"
  by (intro bit_word_eqI) (auto simp: bit_simps)

lemma high_nibble: "(push_bit 4 (drop_bit 4 b) AND 0xF0) + ((b AND 0x0F) AND 0x0F) = (b :: byte)"
proof -
  have "NOT (mask 4) = (0xF0 :: byte)" by (simp add: mask_eq_exp_minus_1)
  then have "push_bit 4 (drop_bit 4 b) AND 0xF0 = push_bit 4 (drop_bit 4 b)" using push_and_mask [of 4 "drop_bit 4 b"] by simp
  then show ?thesis using bits_ident [of 4 b] by (simp add: low_nibble)
qed

lemma str2bytes_loop_hex:
  assumes "even i" "p + length bs \<le> length buf"
  shows "str2bytes_loop (concat (map (hex2 up) bs) @ 0 # rest) i buf p = Some (True, take p buf @ bs @ drop (p + length bs) buf)"
  using assms
proof (induction bs arbitrary: i p buf)
  case (Cons b bs)
  let ?hi = "push_bit 4 (drop_bit 4 b) AND 0xF0"
  have "str2bytes_loop (concat (map (hex2 up) (b # bs)) @ 0 # rest) i buf p
      = str2bytes_loop (concat (map (hex2 up) bs) @ 0 # rest) (i + 2) (buf[p := b]) (p + 1)"
    using Cons.prems high_nibble [of b] by (simp add: hex2_def Let_def even_iff_mod_2_eq_zero mod_Suc)
  also have "\<dots> = Some (True, take (p + 1) (buf[p := b]) @ bs @ drop (p + 1 + length bs) (buf[p := b]))"
    using Cons.prems by (intro Cons.IH) auto
  also have "take (p + 1) (buf[p := b]) = take p buf @ [b]" using Cons.prems(2) by (simp add: take_Suc_conv_app_nth)
  finally show ?case by simp
qed simp

text \<open>\<open>ln_str2bytes\<close> reads back the hexadecimal text of any sequence of bytes, in either case, and touches no byte of the array
  behind them.\<close>

lemma str2bytes_roundtrip:
  assumes "length bs \<le> length buf"
  shows "ln_str2bytes buf (concat (map (hex2 up) bs) @ 0 # rest) = Some (True, bs @ drop (length bs) buf)"
  using str2bytes_loop_hex [of 0 0 bs buf up rest] assms by (simp add: ln_str2bytes_def)

lemma str2bytes_roundtrip_witness:
  "ln_str2bytes [0, 0, 7] (concat (map (hex2 False) [0xDE, 0x0F]) @ [0]) = Some (True, [0xDE, 0x0F, 7])"
  using str2bytes_roundtrip [of "[0xDE, 0x0F]" "[0, 0, 7]" False "[]"] by simp

section \<open>Fields\<close>

lemma c_str_append: "0 \<notin> set xs \<Longrightarrow> c_str (xs @ ys) = xs @ c_str ys"
  by (auto simp: c_str_def takeWhile_append)

lemma add_fun: "(+) (0 :: nat) = id" "(+) (Suc n) = (\<lambda>k. Suc (n + k))"
  by auto

lemma c_strchr_append:
  "0 \<notin> set xs \<Longrightarrow> c \<notin> set xs \<Longrightarrow> c_strchr (xs @ ys) c = map_option (map_option ((+) (length xs))) (c_strchr ys c)"
  by (induction xs) (auto simp: option.map_comp comp_def add_fun option.map_id0 split: Option.bind_splits)

lemma c_str_drop: "k \<le> length (c_str xs) \<Longrightarrow> c_str (drop k xs) = drop k (c_str xs)"
proof (induction k arbitrary: xs)
  case (Suc k)
  then show ?case by (cases xs) (auto simp: c_str_def split: if_splits)
qed simp

lemma length_c_str: "length (c_str xs) \<le> length xs"
  by (simp add: c_str_def length_takeWhile_le)

lemma substing_span:
  assumes "s \<le> e" "e \<le> n" "n < 2 ^ 31"
  shows "unat (if (word_of_nat e - word_of_nat s :: u32) < word_of_nat n - word_of_nat s then word_of_nat e - word_of_nat s
    else (word_of_nat n - word_of_nat s :: u32)) = e - s"
proof -
  have u: "unat (word_of_int (int k) :: u32) = k" if "k < 2 ^ 31" for k
    using that by (simp add: unat_of_nat)
  have "unat (word_of_nat n - word_of_nat s :: u32) = n - s" "unat (word_of_nat e - word_of_nat s :: u32) = e - s"
    using u [of "n - s"] u [of "e - s"] assms by (simp_all add: of_nat_diff)
  then show ?thesis using assms(1,2) by (auto simp: word_less_nat_alt)
qed

lemma substing_cuts:
  assumes "0 \<in> set src" "s \<le> e" "e \<le> length (c_str src)" "length src < 2 ^ 31" "e - s < length dst"
  shows "substing (Some src) (Some dst) (int s) (int e)
    = Some (True, Some (take (e - s) (drop s (c_str src)) @ 0 # drop (e - s + 1) dst))"
proof -
  have n: "length (c_str src) < 2 ^ 31" "s \<le> length src" using assms length_c_str [of src] by linarith+
  have "c_strncpy (drop s src) (e - s) = Some (take (e - s) (drop s (c_str src)))"
    using assms(2,3) n by (simp add: c_strncpy_def c_str_drop)
  then show ?thesis using assms n substing_span [OF assms(2,3) n(1)] by (simp add: substing_def c_strlen_def Let_def)
qed

lemma substing_overruns:
  assumes "0 \<in> set src" "s \<le> e" "e \<le> length (c_str src)" "length src < 2 ^ 31" "length dst \<le> e - s"
  shows "substing (Some src) (Some dst) (int s) (int e) = None"
proof -
  have n: "length (c_str src) < 2 ^ 31" "s \<le> length src" using assms length_c_str [of src] by linarith+
  then show ?thesis using assms substing_span [OF assms(2,3) n(1)]
    by (simp add: substing_def c_strlen_def Let_def split: Option.bind_splits)
qed

text \<open>A field of an AT argument is found: between the begin and the separator, or the end of the argument, stands a quoted text
  without quotes, separators and zeros; it is copied and terminated, whatever follows the field.\<close>

lemma extract_quoted_field:
  assumes "drop db mem = q # body @ q # t # rest" "t = sep \<or> t = 0" "q \<noteq> 0" "sep \<noteq> q"
    and "q \<notin> set body" "0 \<notin> set body" "sep \<notin> set body"
    and "0 \<in> set (t # rest)" "length mem < 2 ^ 31" "length body < length dst"
  shows "art_string_extract_domain_content mem (Some db) (Some (db + length body + 2)) sep (Some q) (Some dst)
    = Some (True, Some (body @ 0 # drop (length body + 1) dst))"
proof -
  let ?src = "q # body @ q # t # rest"
  have cs: "c_str ?src = q # body @ q # c_str (t # rest)" using assms(3,6) c_str_append [of "q # body @ [q]" "t # rest"] by simp
  have sep: "c_strchr ?src sep = Some (if t = sep then Some (length body + 2) else None)"
    using c_strchr_append [of "q # body @ [q]" sep "t # rest"] assms(2-7) by auto
  have q2: "drop (Suc db) mem = body @ q # t # rest"
    using assms(1) by (metis drop_Suc drop_tl list.sel(3))
  have fl: "c_strchr (body @ q # t # rest) q = Some (Some (length body))" using c_strchr_append assms(5,6) by simp
  have "length ?src \<le> length mem" using assms(1) by (metis length_drop diff_le_self)
  then have "length ?src < 2 ^ 31" using assms(9) by linarith
  then have "substing (Some ?src) (Some dst) 1 (1 + int (length body)) = Some (True, Some (body @ 0 # drop (length body + 1) dst))"
    using substing_cuts [of ?src 1 "1 + length body" dst] assms(8,10) cs by auto
  then show ?thesis using assms(1) sep q2 fl by (cases "t = sep") (simp_all add: art_string_extract_domain_content_def)
qed

lemma extract_quoted_field_witness:
  "art_string_extract_domain_content (34 # str_bytes ''LN8826'' @ [34, 44, 34] @ str_bytes ''12345678'' @ [34, 0])
     (Some 9) (Some 19) 44 (Some 34) (Some (replicate 16 0xAA)) = Some (True, Some (str_bytes ''12345678'' @ 0 # replicate 7 0xAA))"
  using extract_quoted_field [of 9 "34 # str_bytes ''LN8826'' @ [34, 44, 34] @ str_bytes ''12345678'' @ [34, 0]" 34 "str_bytes ''12345678''"
      0 "[]" 44 "replicate 16 0xAA"]
  by (simp add: str_bytes_def of_char_def)

end
