(* ===== verification/Dhcp_Packet.thy ===== *)
theory Dhcp_Packet
  imports Prelude "HOL-Library.Monad_Syntax"
begin

text \<open>
  Reading DHCP packets, \<^verbatim>\<open>components/net/dhcpd/dhcp_packet.c\<close>.  A packet lies at the start of a
  buffer of bytes, the rest of which holds whatever the allocator left there.  Reading outside the
  buffer is the result \<open>None\<close>, so that a run that returns has stayed inside it.  The structure
  \<open>dhcp_packet\<close> is packed: \<open>op\<close> at 0, \<open>htype\<close> 1, \<open>hlen\<close> 2, \<open>hops\<close> 3, \<open>xid\<close> 4, \<open>secs\<close> 8,
  \<open>flags\<close> 10, \<open>ciaddr\<close> 12, \<open>yiaddr\<close> 16, \<open>siaddr\<close> 20, \<open>giaddr\<close> 24, \<open>chaddr\<close> 28, \<open>sname\<close> 44,
  \<open>file\<close> 108, \<open>cookie\<close> 236, options from 240.
\<close>

named_theorems dhcp_consts \<open>the constants of the protocol\<close>

section \<open>The model\<close>

definition DHO_PAD :: byte where [dhcp_consts]: "DHO_PAD = 0"
definition DHO_DHCP_OPTION_OVERLOAD :: byte where [dhcp_consts]: "DHO_DHCP_OPTION_OVERLOAD = 52"
definition DHO_END :: byte where [dhcp_consts]: "DHO_END = 255"
definition DHCP_SNAME_POS :: nat where [dhcp_consts]: "DHCP_SNAME_POS = 44"
definition DHCP_SNAME_LEN :: nat where [dhcp_consts]: "DHCP_SNAME_LEN = 64"
definition DHCP_FILE_POS :: nat where [dhcp_consts]: "DHCP_FILE_POS = 108"
definition DHCP_FILE_LEN :: nat where [dhcp_consts]: "DHCP_FILE_LEN = 128"
definition DHCP_OPTS_POS :: nat where [dhcp_consts]: "DHCP_OPTS_POS = 240"
definition OPT_LEN_OFS :: nat where [dhcp_consts]: "OPT_LEN_OFS = 1"
definition OPT_VAL_OFS :: nat where [dhcp_consts]: "OPT_VAL_OFS = 2"
definition BOOTP_ABSOLUTE_MIN_LEN :: nat where [dhcp_consts]: "BOOTP_ABSOLUTE_MIN_LEN = 236"
definition DHCP_MAGIC_COOKIE_LEN :: nat where [dhcp_consts]: "DHCP_MAGIC_COOKIE_LEN = 4"
definition DHCP_MAGIC_COOKIE_U32 :: u32 where [dhcp_consts]: "DHCP_MAGIC_COOKIE_U32 = 0x63825363"

definition buf_at :: "byte list \<Rightarrow> nat \<Rightarrow> byte option" where
  "buf_at buf i = (if i < length buf then Some (buf ! i) else None)"

definition buf_get :: "byte list \<Rightarrow> nat \<Rightarrow> nat \<Rightarrow> byte list option" where
  "buf_get buf i n = (if i + n \<le> length buf then Some (take n (drop i buf)) else None)"

text \<open>The four bytes \<open>dhcpd_htonl_copy\<close> stores: a word in network order.\<close>

definition htonl_bytes :: "u32 \<Rightarrow> byte list" where
  "htonl_bytes w = rev (le_bytes 4 w)"

text \<open>A requested option.  Its value is a position in the buffer, \<open>None\<close> for the null pointer.\<close>

record dhcp_option =
  opt_code :: byte
  opt_len :: byte
  opt_value :: "nat option"

datatype field_flag = FIELD_FLAG_OPTION | FIELD_FLAG_FILE | FIELD_FLAG_SNAME

definition option_match :: "dhcp_option option \<Rightarrow> byte \<Rightarrow> dhcp_option option" where
  "option_match opt c = (case opt of None \<Rightarrow> None | Some r \<Rightarrow> if c = opt_code r then Some r else None)"

text \<open>The test after the loop.  It reads a field of the request also when there is none: the word at
  address 4 of the machine, of which \<open>nullw\<close> says whether it is other than zero.\<close>

definition parse_end :: "bool \<Rightarrow> dhcp_option option \<Rightarrow> bool \<times> dhcp_option option" where
  "parse_end nullw opt = (case opt of None \<Rightarrow> (nullw, None) | Some r \<Rightarrow> (opt_value r \<noteq> None, opt))"

text \<open>The loop.  The pointer \<open>optionptr\<close> is \<open>base\<close>; \<open>offset\<close> counts from it, and for the two overloaded
  fields starts at the position of the field, to which \<open>base\<close> points already.\<close>

function parse_loop :: "bool \<Rightarrow> byte list \<Rightarrow> dhcp_option option \<Rightarrow> field_flag \<Rightarrow> nat \<Rightarrow> nat \<Rightarrow> nat \<Rightarrow> byte
    \<Rightarrow> (bool \<times> dhcp_option option) option" where
  "parse_loop nullw buf opt flag base len offset overload =
     (if len \<le> offset then Some (False, opt)
      else case buf_at buf (base + offset) of None \<Rightarrow> None
      | Some c \<Rightarrow> (case option_match opt c of
          Some r \<Rightarrow> (case buf_at buf (base + offset + OPT_LEN_OFS) of None \<Rightarrow> None
            | Some l \<Rightarrow> if len \<le> offset + 2 + unat l then Some (False, Some (r\<lparr>opt_len := l\<rparr>))
                else Some (True, Some (r\<lparr>opt_len := l, opt_value := Some (base + offset + OPT_VAL_OFS)\<rparr>)))
        | None \<Rightarrow>
            if c = DHO_PAD then parse_loop nullw buf opt flag base len (offset + 1) overload
            else if c = DHO_DHCP_OPTION_OVERLOAD
            then (case buf_at buf (base + offset + OPT_LEN_OFS) of None \<Rightarrow> None
              | Some l \<Rightarrow> if len \<le> offset + 2 + unat l then Some (False, opt)
                  else (case buf_at buf (base + offset + OPT_VAL_OFS) of None \<Rightarrow> None
                    | Some v \<Rightarrow> parse_loop nullw buf opt flag base len (offset + (2 + unat l)) v))
            else if c = DHO_END
            then (if flag = FIELD_FLAG_OPTION \<and> bit overload 0
                  then parse_loop nullw buf opt FIELD_FLAG_FILE DHCP_FILE_POS (DHCP_FILE_POS + DHCP_FILE_LEN) DHCP_FILE_POS overload
                  else if flag = FIELD_FLAG_OPTION \<and> bit overload 1
                  then parse_loop nullw buf opt FIELD_FLAG_SNAME DHCP_SNAME_POS (DHCP_SNAME_POS + DHCP_SNAME_LEN) DHCP_SNAME_POS overload
                  else Some (parse_end nullw opt))
            else (case buf_at buf (base + offset + OPT_LEN_OFS) of None \<Rightarrow> None
              | Some l \<Rightarrow> parse_loop nullw buf opt flag base len (offset + (2 + unat l)) overload)))"
  by pat_completeness auto
termination
  by (relation "measures [\<lambda>(_, _, _, flag, _). if flag = FIELD_FLAG_OPTION then 1 else 0,
        \<lambda>(_, _, _, _, _, len, offset, _). len - offset]") auto

declare parse_loop.simps [simp del]

definition dhcpd_parse_option :: "bool \<Rightarrow> byte list \<Rightarrow> nat \<Rightarrow> dhcp_option option \<Rightarrow> (bool \<times> dhcp_option option) option" where
  "dhcpd_parse_option nullw packet packet_len opt = do {
     cookie \<leftarrow> buf_get packet BOOTP_ABSOLUTE_MIN_LEN DHCP_MAGIC_COOKIE_LEN;
     if cookie \<noteq> htonl_bytes DHCP_MAGIC_COOKIE_U32 then Some (False, opt)
     else parse_loop nullw packet opt FIELD_FLAG_OPTION 0 (packet_len mod 2 ^ 16) DHCP_OPTS_POS 0 }"

definition dhcpd_recv_packet_check :: "bool \<Rightarrow> byte list \<Rightarrow> nat \<Rightarrow> bool option" where
  "dhcpd_recv_packet_check nullw packet len =
     (if len < BOOTP_ABSOLUTE_MIN_LEN + DHCP_MAGIC_COOKIE_LEN + 4 then Some False
      else map_option fst (dhcpd_parse_option nullw packet len None))"

section \<open>Staying inside the buffer\<close>

lemma buf_at_eq [simp]: "buf_at buf i = None \<longleftrightarrow> length buf \<le> i" "i < length buf \<Longrightarrow> buf_at buf i = Some (buf ! i)"
  by (auto simp: buf_at_def)

lemma option_match_code: "option_match opt c = Some r \<Longrightarrow> opt = Some r \<and> opt_code r = c"
  by (auto simp: option_match_def split: option.splits if_splits)

text \<open>What the parser returns: a result whose request, when there is one, keeps its code, and whose value
  when found ends before the byte \<open>B\<close>.\<close>

definition parse_ok :: "nat \<Rightarrow> dhcp_option option \<Rightarrow> (bool \<times> dhcp_option option) option \<Rightarrow> bool" where
  "parse_ok B opt res \<longleftrightarrow> (\<exists>found r. res = Some (found, r) \<and> (case r of None \<Rightarrow> opt = None
     | Some r \<Rightarrow> (\<exists>r0. opt = Some r0 \<and> opt_code r = opt_code r0)
        \<and> (found \<longrightarrow> (\<exists>i. opt_value r = Some i \<and> i + unat (opt_len r) < B))))"

lemma parse_ok_simps [simp]:
  "parse_ok B opt (Some (False, opt))"
  "\<forall>r. opt = Some r \<longrightarrow> opt_value r = None \<Longrightarrow> parse_ok B opt (Some (parse_end nullw opt))"
  "parse_ok B (Some r) (Some (False, Some (r\<lparr>opt_len := l\<rparr>)))"
  "i + unat l < B \<Longrightarrow> parse_ok B (Some r) (Some (True, Some (r\<lparr>opt_len := l, opt_value := Some i\<rparr>)))"
  by (auto simp: parse_ok_def parse_end_def split: option.splits)

lemma parse_loop_ok:
  assumes "base + len \<le> B" "344 \<le> B" "B < length buf" "\<forall>r. opt = Some r \<longrightarrow> opt_value r = None"
  shows "parse_ok B opt (parse_loop nullw buf opt flag base len offset overload)"
  using assms
proof (induction nullw buf opt flag base len offset overload rule: parse_loop.induct)
  case (1 nullw buf opt flag base len offset overload)
  note IH = 1(1-5) and prems = 1(6-9)
  show ?case
  proof (cases "len \<le> offset")
    case True
    then show ?thesis by (subst parse_loop.simps) simp
  next
    case in_len: False
    let ?c = "buf ! (base + offset)"
    let ?l = "buf ! (base + offset + 1)"
    have c: "buf_at buf (base + offset) = Some ?c" and l: "buf_at buf (base + offset + OPT_LEN_OFS) = Some ?l"
      using in_len prems by (auto simp: buf_at_def OPT_LEN_OFS_def)
    show ?thesis
    proof (cases "option_match opt ?c")
      case (Some r)
      then show ?thesis using in_len c l option_match_code [OF Some] prems
        by (subst parse_loop.simps) (auto simp: OPT_VAL_OFS_def)
    next
      case None
      note IH = IH [OF in_len c None]
      have v: "buf_at buf (base + offset + OPT_VAL_OFS) = Some (buf ! (base + offset + 2))"
        if "\<not> len \<le> offset + 2 + unat ?l" using that prems by (auto simp: buf_at_def OPT_VAL_OFS_def)
      show ?thesis using IH c l v None in_len prems
        by (subst parse_loop.simps) (auto simp: DHCP_FILE_POS_def DHCP_FILE_LEN_def DHCP_SNAME_POS_def DHCP_SNAME_LEN_def)
    qed
  qed
qed

lemma parse_option_ok:
  assumes "packet_len \<le> B" "344 \<le> B" "B < length buf" "\<forall>r. opt = Some r \<longrightarrow> opt_value r = None"
  shows "parse_ok B opt (dhcpd_parse_option nullw buf packet_len opt)"
proof -
  have "packet_len mod 2 ^ 16 \<le> B" using assms(1) mod_less_eq_dividend [of packet_len "2 ^ 16"] by linarith
  then have "parse_ok B opt (parse_loop nullw buf opt FIELD_FLAG_OPTION 0 (packet_len mod 2 ^ 16) DHCP_OPTS_POS 0)"
    using assms by (intro parse_loop_ok) auto
  moreover have "buf_get buf BOOTP_ABSOLUTE_MIN_LEN DHCP_MAGIC_COOKIE_LEN \<noteq> None"
    using assms by (simp add: buf_get_def BOOTP_ABSOLUTE_MIN_LEN_def DHCP_MAGIC_COOKIE_LEN_def)
  ultimately show ?thesis by (auto simp: dhcpd_parse_option_def)
qed

section \<open>Options as a list\<close>

text \<open>The options of a packet as the protocol has them, one after the other: padding, or a code, the length
  and the value.\<close>

datatype tlv = Pad | Opt byte "byte list"

fun tlv_bytes :: "tlv \<Rightarrow> byte list" where
  "tlv_bytes Pad = [DHO_PAD]"
| "tlv_bytes (Opt c v) = c # of_nat (length v) # v"

fun tlv_ok :: "tlv \<Rightarrow> bool" where
  "tlv_ok Pad = True"
| "tlv_ok (Opt c v) = (c \<notin> {DHO_PAD, DHO_DHCP_OPTION_OVERLOAD, DHO_END} \<and> length v < 256)"

text \<open>The first option with a code: where its value lies and what it is.\<close>

fun tlv_find :: "byte \<Rightarrow> nat \<Rightarrow> tlv list \<Rightarrow> (nat \<times> byte list) option" where
  "tlv_find c off [] = None"
| "tlv_find c off (Pad # ts) = tlv_find c (off + 1) ts"
| "tlv_find c off (Opt d v # ts) = (if d = c then Some (off + 2, v) else tlv_find c (off + 2 + length v) ts)"

definition tlv_result :: "bool \<Rightarrow> dhcp_option option \<Rightarrow> nat \<Rightarrow> tlv list \<Rightarrow> bool \<times> dhcp_option option" where
  "tlv_result nullw opt off ts = (case opt of None \<Rightarrow> (nullw, None)
     | Some r \<Rightarrow> (case tlv_find (opt_code r) off ts of None \<Rightarrow> (False, Some r)
         | Some (i, v) \<Rightarrow> (True, Some (r\<lparr>opt_len := of_nat (length v), opt_value := Some i\<rparr>))))"

definition request_ok :: "dhcp_option option \<Rightarrow> bool" where
  "request_ok opt = (case opt of None \<Rightarrow> True | Some r \<Rightarrow> opt_value r = None
     \<and> opt_code r \<notin> {DHO_PAD, DHO_DHCP_OPTION_OVERLOAD, DHO_END})"

lemma tlv_find_value: "tlv_find c (length pre) ts = Some (i, v) \<Longrightarrow>
    take (length v) (drop i (pre @ concat (map tlv_bytes ts) @ rest)) = v"
proof (induction c "length pre" ts arbitrary: pre rule: tlv_find.induct)
  case (2 c ts)
  then show ?case using "2.hyps" [of "pre @ [DHO_PAD]"] by simp
next
  case (3 c d u ts)
  then show ?case using "3.hyps" [of "pre @ d # of_nat (length u) # u"] by (auto split: if_splits)
qed simp

lemma parse_tlvs:
  assumes "buf = pre @ concat (map tlv_bytes ts) @ DHO_END # rest" "list_all tlv_ok ts" "request_ok opt"
    "length pre + length (concat (map tlv_bytes ts)) < len" "len \<le> length buf"
  shows "parse_loop nullw buf opt FIELD_FLAG_OPTION 0 len (length pre) 0 = Some (tlv_result nullw opt (length pre) ts)"
  using assms
proof (induction ts arbitrary: pre)
  case Nil
  have "option_match opt DHO_END = None" using Nil(3) by (auto simp: request_ok_def option_match_def split: option.splits)
  then show ?case using Nil
    by (subst parse_loop.simps)
      (auto simp: nth_append tlv_result_def parse_end_def request_ok_def dhcp_consts split: option.splits)
next
  case (Cons t ts)
  note IH = Cons.IH [OF _ _ Cons.prems(3)]
  show ?case
  proof (cases t)
    case Pad
    have m: "option_match opt DHO_PAD = None" using Cons.prems(3)
      by (auto simp: request_ok_def option_match_def split: option.splits)
    have "parse_loop nullw buf opt FIELD_FLAG_OPTION 0 len (length (pre @ [DHO_PAD])) 0
        = Some (tlv_result nullw opt (length (pre @ [DHO_PAD])) ts)"
      using Cons.prems Pad by (intro IH) auto
    then show ?thesis using Cons.prems Pad m
      by (subst parse_loop.simps) (auto simp: nth_append tlv_result_def split: option.splits)
  next
    case (Opt d v)
    have v: "length v < 256" "d \<notin> {DHO_PAD, DHO_DHCP_OPTION_OVERLOAD, DHO_END}" using Cons.prems(2) Opt by auto
    then have u: "unat (of_nat (length v) :: byte) = length v" by (simp add: unat_of_nat)
    let ?pre = "pre @ d # of_nat (length v) # v"
    have rec: "parse_loop nullw buf opt FIELD_FLAG_OPTION 0 len (length ?pre) 0 = Some (tlv_result nullw opt (length ?pre) ts)"
      using Cons.prems Opt by (intro IH) auto
    have at: "buf ! length pre = d" "buf ! Suc (length pre) = of_nat (length v)" "Suc (length pre) < length buf" "length pre < len"
      "\<not> len \<le> length pre + 2 + length v"
      using Cons.prems Opt by (auto simp: nth_append)
    show ?thesis
    proof (cases "option_match opt d")
      case None
      then show ?thesis using rec at v u Opt Cons.prems(3)
        by (subst parse_loop.simps)
          (auto simp: OPT_LEN_OFS_def tlv_result_def option_match_def algebra_simps split: option.splits if_splits)
    next
      case (Some r)
      then show ?thesis using at u Opt option_match_code [OF Some]
        by (subst parse_loop.simps) (auto simp: OPT_LEN_OFS_def OPT_VAL_OFS_def tlv_result_def)
    qed
  qed
qed

lemma parse_option_tlvs:
  assumes "packet = hdr @ htonl_bytes DHCP_MAGIC_COOKIE_U32 @ concat (map tlv_bytes ts) @ DHO_END # rest"
    and "length hdr = BOOTP_ABSOLUTE_MIN_LEN" "list_all tlv_ok ts" "code \<notin> {DHO_PAD, DHO_DHCP_OPTION_OVERLOAD, DHO_END}"
    and "DHCP_OPTS_POS + length (concat (map tlv_bytes ts)) < len" "len \<le> length packet" "length packet < 2 ^ 16"
  shows "\<exists>found r. dhcpd_parse_option nullw packet len (Some \<lparr>opt_code = code, opt_len = 0, opt_value = None\<rparr>) = Some (found, Some r)
    \<and> (case tlv_find code DHCP_OPTS_POS ts of None \<Rightarrow> \<not> found
       | Some (i, v) \<Rightarrow> found \<and> opt_value r = Some i \<and> opt_len r = of_nat (length v) \<and> take (length v) (drop i packet) = v)"
proof -
  let ?pre = "hdr @ htonl_bytes DHCP_MAGIC_COOKIE_U32"
  let ?r = "\<lparr>opt_code = code, opt_len = 0, opt_value = None\<rparr>"
  have len: "length ?pre = DHCP_OPTS_POS" using assms(2) by (simp add: htonl_bytes_def dhcp_consts)
  have "parse_loop nullw packet (Some ?r) FIELD_FLAG_OPTION 0 len (length ?pre) 0 = Some (tlv_result nullw (Some ?r) (length ?pre) ts)"
    using assms len by (intro parse_tlvs) (auto simp: request_ok_def)
  moreover have "buf_get packet BOOTP_ABSOLUTE_MIN_LEN DHCP_MAGIC_COOKIE_LEN = Some (htonl_bytes DHCP_MAGIC_COOKIE_U32)"
    using assms(1,2) by (simp add: buf_get_def htonl_bytes_def DHCP_MAGIC_COOKIE_LEN_def)
  moreover have "len mod 65536 = len" using assms(6,7) by simp
  ultimately have res: "dhcpd_parse_option nullw packet len (Some ?r) = Some (tlv_result nullw (Some ?r) DHCP_OPTS_POS ts)"
    unfolding len by (simp add: dhcpd_parse_option_def)
  show ?thesis
  proof (cases "tlv_find code DHCP_OPTS_POS ts")
    case None
    then show ?thesis using res by (auto simp: tlv_result_def)
  next
    case (Some iv)
    then obtain i v where iv: "tlv_find code (length ?pre) ts = Some (i, v)" using len by (cases iv) simp
    have "take (length v) (drop i packet) = v" using tlv_find_value [OF iv, of "DHO_END # rest"] assms(1) by simp
    then show ?thesis using res iv len by (auto simp: tlv_result_def)
  qed
qed

text \<open>On a packet with the cookie and well-formed options that are not overloaded, asking for an option finds
  the first one with its code, wherever padding stands between them, and says where its value lies; asking
  for an option that is not there fails.\<close>

lemma parse_option_finds:
  assumes "packet = hdr @ htonl_bytes DHCP_MAGIC_COOKIE_U32 @ concat (map tlv_bytes ts) @ DHO_END # rest"
    and "length hdr = BOOTP_ABSOLUTE_MIN_LEN" "list_all tlv_ok ts" "code \<notin> {DHO_PAD, DHO_DHCP_OPTION_OVERLOAD, DHO_END}"
    and "DHCP_OPTS_POS + length (concat (map tlv_bytes ts)) < len" "len \<le> length packet" "length packet < 2 ^ 16"
  shows "\<exists>found r. dhcpd_parse_option nullw packet len (Some \<lparr>opt_code = code, opt_len = 0, opt_value = None\<rparr>) = Some (found, Some r)
    \<and> (case tlv_find code DHCP_OPTS_POS ts of None \<Rightarrow> \<not> found
       | Some (i, v) \<Rightarrow> found \<and> opt_value r = Some i \<and> opt_len r = of_nat (length v) \<and> take (length v) (drop i packet) = v)"
  using assms by (rule parse_option_tlvs)

lemma parse_option_finds_witness:
  "\<exists>found r. dhcpd_parse_option True (replicate 236 0 @ [0x63, 0x82, 0x53, 0x63, 53, 1, 3, 0, 50, 4, 192, 168, 4, 100, 255, 0]) 252
       (Some \<lparr>opt_code = 50, opt_len = 0, opt_value = None\<rparr>) = Some (found, Some r)
    \<and> found \<and> opt_value r = Some 246 \<and> opt_len r = 4"
  using parse_option_finds [of "replicate 236 0 @ [0x63, 0x82, 0x53, 0x63, 53, 1, 3, 0, 50, 4, 192, 168, 4, 100, 255, 0]"
      "replicate 236 0" "[Opt 53 [3], Pad, Opt 50 [192, 168, 4, 100]]" "[0]" 50 252 True]
  by (simp add: dhcp_consts htonl_bytes_def le_bytes_numeral)

end
