(* ===== verification/Dhcp_Pool.thy ===== *)
theory Dhcp_Pool
  imports Prelude
begin

text \<open>
  The address pool of the DHCP server, \<^verbatim>\<open>components/net/dhcpd/ip_allocator.c\<close>.  The pool is an array of
  \<open>DHCPD_IP_POOL_SIZE\<close> items of which the first \<open>client_max\<close> are used.  An item holds the address it
  gives out, the hardware address of the client it was last given to and whether it is taken; an
  item offered and not yet asked for is not.  Writing through the null pointer is \<open>None\<close>.
\<close>

section \<open>The model\<close>

definition DHCPD_IP_POOL_SIZE :: nat where "DHCPD_IP_POOL_SIZE = 4"

record dhcpd_ip_item =
  allocted :: bool
  item_mac :: "byte list"
  item_ip :: u32

definition is_mac_all_zero :: "byte list \<Rightarrow> bool" where
  "is_mac_all_zero mac \<longleftrightarrow> mac = [0, 0, 0, 0, 0, 0]"

definition usable_num :: "u8 \<Rightarrow> nat" where
  "usable_num client_max = min DHCPD_IP_POOL_SIZE (unat client_max)"

text \<open>The loop over the items in use, with the two candidates it keeps and what is done with them at its end.\<close>

fun usable_loop :: "byte list \<Rightarrow> nat \<Rightarrow> dhcpd_ip_item list \<Rightarrow> nat option \<Rightarrow> nat option \<Rightarrow> nat option" where
  "usable_loop sta i [] usable usable2 = (if usable = None then usable2 else usable)"
| "usable_loop sta i (it # its) usable usable2 =
     (if item_mac it = sta then Some i
      else usable_loop sta (Suc i) its
        (if usable = None \<and> \<not> allocted it \<and> is_mac_all_zero (item_mac it) then Some i else usable)
        (if usable2 = None \<and> \<not> allocted it then Some i else usable2))"

definition get_next_usable_ip_item :: "u8 \<Rightarrow> dhcpd_ip_item list \<Rightarrow> byte list \<Rightarrow> nat option" where
  "get_next_usable_ip_item client_max ip_pool sta =
     (case usable_loop sta 0 (take (usable_num client_max) ip_pool) None None of None \<Rightarrow> None
      | Some i \<Rightarrow> if i < usable_num client_max then Some i else None)"

fun item_loop :: "byte list \<Rightarrow> nat \<Rightarrow> dhcpd_ip_item list \<Rightarrow> nat option" where
  "item_loop sta i [] = None"
| "item_loop sta i (it # its) = (if item_mac it = sta then Some i else item_loop sta (Suc i) its)"

definition get_ip_item :: "u8 \<Rightarrow> dhcpd_ip_item list \<Rightarrow> byte list \<Rightarrow> nat option" where
  "get_ip_item client_max ip_pool sta = item_loop sta 0 (take (usable_num client_max) ip_pool)"

definition set_ip_item_status :: "nat \<Rightarrow> bool \<Rightarrow> dhcpd_ip_item list \<Rightarrow> dhcpd_ip_item list" where
  "set_ip_item_status i st pool = pool[i := (pool ! i)\<lparr>allocted := st\<rparr>]"

text \<open>\<open>None\<close> for \<open>DHCPD_ERR_IP_USE_UP\<close>.\<close>

definition dhcpd_ip_allocate :: "u8 \<Rightarrow> dhcpd_ip_item list \<Rightarrow> byte list \<Rightarrow> bool \<Rightarrow> (u32 \<times> dhcpd_ip_item list) option" where
  "dhcpd_ip_allocate client_max ip_pool mac pre_allocated =
     (case get_next_usable_ip_item client_max ip_pool mac of None \<Rightarrow> None
      | Some i \<Rightarrow>
          let pool = ip_pool[i := (ip_pool ! i)\<lparr>item_mac := mac\<rparr>]
          in Some (item_ip (pool ! i),
               if pre_allocated \<and> \<not> allocted (pool ! i) then set_ip_item_status i True pool else pool))"

text \<open>Releasing the address of a client that has none writes through the null pointer.\<close>

definition dhcpd_ip_release :: "u8 \<Rightarrow> dhcpd_ip_item list \<Rightarrow> byte list \<Rightarrow> dhcpd_ip_item list option" where
  "dhcpd_ip_release client_max ip_pool mac =
     (case get_ip_item client_max ip_pool mac of None \<Rightarrow> None | Some i \<Rightarrow> Some (set_ip_item_status i False ip_pool))"

definition get_allocated_ip_sta_count :: "u8 \<Rightarrow> dhcpd_ip_item list \<Rightarrow> nat" where
  "get_allocated_ip_sta_count client_max ip_pool = length (filter allocted (take (usable_num client_max) ip_pool))"

section \<open>What the loops find\<close>

definition first_at :: "dhcpd_ip_item list \<Rightarrow> nat \<Rightarrow> byte list \<Rightarrow> bool" where
  "first_at its i mac \<longleftrightarrow> i < length its \<and> item_mac (its ! i) = mac \<and> (\<forall>j<i. item_mac (its ! j) \<noteq> mac)"

lemma first_at_Cons: "first_at (it # its) k mac \<longleftrightarrow>
    (if item_mac it = mac then k = 0 else (\<exists>j. k = Suc j \<and> first_at its j mac))"
  by (cases k) (auto simp: first_at_def nth_Cons split: nat.splits)

lemma item_loop_iff: "item_loop sta i its = Some k \<longleftrightarrow> (\<exists>j. k = i + j \<and> first_at its j sta)"
  by (induction sta i its rule: item_loop.induct) (auto simp: first_at_Cons, auto simp: first_at_def)

lemma get_ip_item_iff: "get_ip_item cm pool mac = Some i \<longleftrightarrow> first_at (take (usable_num cm) pool) i mac"
  by (simp add: get_ip_item_def item_loop_iff)

lemma usable_loop_first: "first_at its j sta \<Longrightarrow> usable_loop sta i its u u2 = Some (i + j)"
  by (induction sta i its u u2 arbitrary: j rule: usable_loop.induct) (auto simp: first_at_Cons first_at_def [of "[]"] split: if_splits)

lemma usable_loop_None: "usable_loop sta i its u u2 = None \<longleftrightarrow>
    (\<forall>it \<in> set its. item_mac it \<noteq> sta \<and> allocted it) \<and> u = None \<and> u2 = None"
  by (induction sta i its u u2 rule: usable_loop.induct) auto

lemma usable_loop_free:
  assumes "usable_loop sta i its u u2 = Some k" "\<forall>it \<in> set its. item_mac it \<noteq> sta"
  shows "Some k \<in> {u, u2} \<or> (\<exists>j<length its. k = i + j \<and> \<not> allocted (its ! j))"
  using assms
proof (induction sta i its u u2 rule: usable_loop.induct)
  case (2 sta i it its u u2)
  have "item_mac it \<noteq> sta" using 2(3) by simp
  from 2(1) [OF this] 2(2,3) show ?case by (auto split: if_splits)
qed (auto split: if_splits)

lemma first_at_ex: "it \<in> set its \<Longrightarrow> item_mac it = mac \<Longrightarrow> \<exists>i. first_at its i mac"
  by (induction its) (auto simp: first_at_Cons)

lemma first_at_not: "first_at its i mac \<Longrightarrow> \<exists>it \<in> set its. item_mac it = mac"
  by (auto simp: first_at_def)

lemma get_next_usable_first:
  "first_at (take (usable_num cm) pool) i mac \<Longrightarrow> get_next_usable_ip_item cm pool mac = Some i"
  using usable_loop_first [of "take (usable_num cm) pool" i mac 0 None None]
  by (auto simp: get_next_usable_ip_item_def first_at_def)

lemma get_next_usable_cases:
  assumes "get_next_usable_ip_item cm pool mac = Some i"
  shows "first_at (take (usable_num cm) pool) i mac
    \<or> (\<forall>it \<in> set (take (usable_num cm) pool). item_mac it \<noteq> mac) \<and> i < length (take (usable_num cm) pool) \<and> \<not> allocted (pool ! i)"
proof (cases "\<forall>it \<in> set (take (usable_num cm) pool). item_mac it \<noteq> mac")
  case True
  have "usable_loop mac 0 (take (usable_num cm) pool) None None = Some i"
    using assms by (auto simp: get_next_usable_ip_item_def split: option.splits if_splits)
  from usable_loop_free [OF this True] show ?thesis using True by auto
next
  case False
  then obtain j where "first_at (take (usable_num cm) pool) j mac" using first_at_ex by blast
  then show ?thesis using get_next_usable_first assms by fastforce
qed

lemma get_next_usable_None:
  assumes "length pool = DHCPD_IP_POOL_SIZE"
  shows "get_next_usable_ip_item cm pool mac = None
    \<longleftrightarrow> (\<forall>it \<in> set (take (usable_num cm) pool). item_mac it \<noteq> mac \<and> allocted it)"
proof (cases "usable_loop mac 0 (take (usable_num cm) pool) None None")
  case None
  then show ?thesis using usable_loop_None [of mac 0 "take (usable_num cm) pool" None None]
    by (simp add: get_next_usable_ip_item_def)
next
  case (Some k)
  have "k < usable_num cm"
  proof (cases "\<forall>it \<in> set (take (usable_num cm) pool). item_mac it \<noteq> mac")
    case True
    then show ?thesis using usable_loop_free [OF Some True] by auto
  next
    case False
    then obtain j where "first_at (take (usable_num cm) pool) j mac" using first_at_ex by blast
    moreover from usable_loop_first [OF this, of 0 None None] have "k = j" using Some by simp
    ultimately show ?thesis by (auto simp: first_at_def)
  qed
  then show ?thesis using Some usable_loop_None [of mac 0 "take (usable_num cm) pool" None None]
    by (simp add: get_next_usable_ip_item_def)
qed

section \<open>Leases\<close>

text \<open>A client holds the address of the first item with its hardware address when that item is taken.\<close>

definition holds :: "u8 \<Rightarrow> dhcpd_ip_item list \<Rightarrow> byte list \<Rightarrow> u32 \<Rightarrow> bool" where
  "holds cm pool mac ip \<longleftrightarrow> (\<exists>i. first_at (take (usable_num cm) pool) i mac \<and> allocted (pool ! i) \<and> item_ip (pool ! i) = ip)"

definition pool_ok :: "u8 \<Rightarrow> dhcpd_ip_item list \<Rightarrow> bool" where
  "pool_ok cm pool \<longleftrightarrow> length pool = DHCPD_IP_POOL_SIZE \<and> distinct (map item_ip (take (usable_num cm) pool))"

lemma usable_num_le [simp]: "usable_num cm \<le> DHCPD_IP_POOL_SIZE"
  by (simp add: usable_num_def)

lemma allocate_spec:
  assumes "dhcpd_ip_allocate cm pool mac pre = Some (ip, pool')" "pool_ok cm pool"
  obtains i where "get_next_usable_ip_item cm pool mac = Some i" "i < usable_num cm" "i < length pool"
    "ip = item_ip (pool ! i)"
    "pool' = pool[i := \<lparr>allocted = (allocted (pool ! i) \<or> pre), item_mac = mac, item_ip = item_ip (pool ! i)\<rparr>]"
proof -
  obtain i where i: "get_next_usable_ip_item cm pool mac = Some i"
    using assms(1) by (auto simp: dhcpd_ip_allocate_def split: option.splits)
  have "i < length (take (usable_num cm) pool)" using get_next_usable_cases [OF i] by (auto simp: first_at_def)
  moreover from this have "i < length pool" by simp
  ultimately show ?thesis using assms(1) i
    by (intro that [of i]; cases "pool ! i")
      (auto simp: dhcpd_ip_allocate_def set_ip_item_status_def Let_def split: if_splits)
qed

lemma first_at_upd_other:
  assumes "first_at its i m" "k \<noteq> i" "item_mac it \<noteq> m"
  shows "first_at (its[k := it]) i m"
proof -
  have "item_mac (its[k := it] ! j) \<noteq> m" if "j < i" for j
    using that assms by (cases "j = k") (auto simp: first_at_def)
  then show ?thesis using assms by (auto simp: first_at_def)
qed

text \<open>What one client does leaves the leases of the others.\<close>

lemma allocate_keeps:
  assumes "dhcpd_ip_allocate cm pool mac pre = Some (ip, pool')" "pool_ok cm pool" "holds cm pool m x" "m \<noteq> mac"
  shows "holds cm pool' m x"
  using assms(1,2)
proof (rule allocate_spec)
  fix k
  assume k: "get_next_usable_ip_item cm pool mac = Some k" "k < usable_num cm" "k < length pool" "ip = item_ip (pool ! k)"
    and p: "pool' = pool[k := \<lparr>allocted = (allocted (pool ! k) \<or> pre), item_mac = mac, item_ip = item_ip (pool ! k)\<rparr>]"
  obtain i where i: "first_at (take (usable_num cm) pool) i m" "allocted (pool ! i)" "item_ip (pool ! i) = x"
    using assms(3) by (auto simp: holds_def)
  have "k \<noteq> i" using get_next_usable_cases [OF k(1)] i assms(4) by (auto simp: first_at_def)
  then show ?thesis using first_at_upd_other [OF i(1), of k] i assms(4) k
    by (auto simp: holds_def p take_update_swap intro!: exI [of _ i])
qed

lemma allocate_ok:
  assumes "dhcpd_ip_allocate cm pool mac pre = Some (ip, pool')" "pool_ok cm pool"
  shows "pool_ok cm pool'" and "\<exists>i. first_at (take (usable_num cm) pool') i mac \<and> item_ip (pool' ! i) = ip
    \<and> (pre \<longrightarrow> allocted (pool' ! i)) \<and> i < length pool'"
proof -
  obtain k where k: "get_next_usable_ip_item cm pool mac = Some k" "k < usable_num cm" "k < length pool" "ip = item_ip (pool ! k)"
    and p: "pool' = pool[k := \<lparr>allocted = (allocted (pool ! k) \<or> pre), item_mac = mac, item_ip = item_ip (pool ! k)\<rparr>]"
    by (rule allocate_spec [OF assms])
  have "map item_ip (take (usable_num cm) pool') = map item_ip (take (usable_num cm) pool)"
    using k by (intro nth_equalityI) (auto simp: p nth_list_update)
  then show "pool_ok cm pool'" using assms(2) by (simp add: pool_ok_def p)
  have "first_at (take (usable_num cm) pool') k mac"
    using get_next_usable_cases [OF k(1)]
  proof
    assume "first_at (take (usable_num cm) pool) k mac"
    then show ?thesis using k by (auto simp: first_at_def p)
  next
    assume h: "(\<forall>it \<in> set (take (usable_num cm) pool). item_mac it \<noteq> mac) \<and> k < length (take (usable_num cm) pool)
      \<and> \<not> allocted (pool ! k)"
    have "item_mac (pool ! j) \<noteq> mac" if "j < k" for j
      using h that k nth_mem [of j "take (usable_num cm) pool"] by (auto simp del: nth_mem)
    then show ?thesis using k by (auto simp: first_at_def p)
  qed
  then show "\<exists>i. first_at (take (usable_num cm) pool') i mac \<and> item_ip (pool' ! i) = ip \<and> (pre \<longrightarrow> allocted (pool' ! i)) \<and> i < length pool'"
    using k by (intro exI [of _ k]) (auto simp: p)
qed

lemma allocate_gets: "dhcpd_ip_allocate cm pool mac True = Some (ip, pool') \<Longrightarrow> pool_ok cm pool \<Longrightarrow> holds cm pool' mac ip"
  using allocate_ok(2) [of cm pool mac True] by (auto simp: holds_def)

lemma allocate_renews:
  assumes "holds cm pool mac x" "pool_ok cm pool"
  shows "dhcpd_ip_allocate cm pool mac pre = Some (x, pool)"
proof -
  obtain i where i: "first_at (take (usable_num cm) pool) i mac" "allocted (pool ! i)" "item_ip (pool ! i) = x"
    using assms(1) by (auto simp: holds_def)
  then have "item_mac (pool ! i) = mac" "i < length pool" by (auto simp: first_at_def)
  moreover from this have "pool[i := (pool ! i)\<lparr>item_mac := mac\<rparr>] = pool"
    by (metis (no_types, lifting) dhcpd_ip_item.surjective dhcpd_ip_item.update_convs(2) list_update_id)
  ultimately show ?thesis using i get_next_usable_first [OF i(1)] by (simp add: dhcpd_ip_allocate_def)
qed

lemma release_keeps:
  assumes "dhcpd_ip_release cm pool mac = Some pool'" "pool_ok cm pool"
  shows "pool_ok cm pool'" and "holds cm pool m x \<Longrightarrow> m \<noteq> mac \<Longrightarrow> holds cm pool' m x" and "\<not> holds cm pool' mac x"
proof -
  obtain k where k: "first_at (take (usable_num cm) pool) k mac" "pool' = pool[k := (pool ! k)\<lparr>allocted := False\<rparr>]"
    using assms(1) by (auto simp: dhcpd_ip_release_def set_ip_item_status_def get_ip_item_iff split: option.splits)
  have "map item_ip (take (usable_num cm) pool') = map item_ip (take (usable_num cm) pool)"
    using k by (intro nth_equalityI) (auto simp: nth_list_update first_at_def)
  then show "pool_ok cm pool'" using assms(2) by (simp add: pool_ok_def k)
  show "holds cm pool' m x" if h: "holds cm pool m x" "m \<noteq> mac"
  proof -
    obtain i where i: "first_at (take (usable_num cm) pool) i m" "allocted (pool ! i)" "item_ip (pool ! i) = x"
      using h(1) by (auto simp: holds_def)
    have ne: "k \<noteq> i" "item_mac (pool ! k) \<noteq> m" using i(1) k(1) h(2) by (auto simp: first_at_def)
    then show ?thesis using first_at_upd_other [OF i(1), of k "(pool ! k)\<lparr>allocted := False\<rparr>"] i
      by (auto simp: holds_def k(2) take_update_swap)
  qed
  show "\<not> holds cm pool' mac x"
  proof
    assume "holds cm pool' mac x"
    then obtain i where i: "first_at (take (usable_num cm) pool') i mac" "allocted (pool' ! i)" by (auto simp: holds_def)
    have "i = k" using i(1) k by (auto simp: first_at_def nth_list_update split: if_splits) (metis linorder_cases)+
    then show False using i(2) k by (auto simp: first_at_def)
  qed
qed

lemma holds_inj:
  assumes "pool_ok cm pool" "holds cm pool m1 ip" "holds cm pool m2 ip"
  shows "m1 = m2"
proof -
  obtain i j where "first_at (take (usable_num cm) pool) i m1" "first_at (take (usable_num cm) pool) j m2"
    "item_ip (pool ! i) = ip" "item_ip (pool ! j) = ip" using assms(2,3) by (auto simp: holds_def)
  moreover from this have "i = j" using assms(1) nth_eq_iff_index_eq [of "map item_ip (take (usable_num cm) pool)" i j]
    by (auto simp: pool_ok_def first_at_def)
  ultimately show ?thesis by (auto simp: first_at_def)
qed

section \<open>The contract of the pool\<close>

text \<open>What the server relies on: the laws of granting, offering and taking back an address.  A set of leases is good when
  each is held and a client has one; that is kept by every operation and makes the addresses different.\<close>

definition leased :: "('q \<Rightarrow> 'm \<Rightarrow> 'a \<Rightarrow> bool) \<Rightarrow> 'q \<Rightarrow> ('m \<times> 'a) set \<Rightarrow> bool" where
  "leased has q L \<longleftrightarrow> (\<forall>l \<in> L. has q (fst l) (snd l)) \<and> inj_on fst L"

definition revoked :: "'m \<Rightarrow> ('m \<times> 'a) set \<Rightarrow> ('m \<times> 'a) set" where
  "revoked m L = {l \<in> L. fst l \<noteq> m}"

locale address_pool =
  fixes q_ok :: "'q \<Rightarrow> bool" and has :: "'q \<Rightarrow> 'm \<Rightarrow> 'a \<Rightarrow> bool"
    and alloc :: "'q \<Rightarrow> 'm \<Rightarrow> bool \<Rightarrow> ('a \<times> 'q) option" and free :: "'q \<Rightarrow> 'm \<Rightarrow> 'q option"
  assumes alloc_ok: "q_ok q \<Longrightarrow> alloc q m pre = Some (a, q') \<Longrightarrow> q_ok q'"
    and alloc_grants: "q_ok q \<Longrightarrow> alloc q m True = Some (a, q') \<Longrightarrow> has q' m a"
    and alloc_others: "q_ok q \<Longrightarrow> alloc q m pre = Some (a, q') \<Longrightarrow> has q n b \<Longrightarrow> n \<noteq> m \<Longrightarrow> has q' n b"
    and alloc_again: "q_ok q \<Longrightarrow> has q m a \<Longrightarrow> alloc q m pre = Some (a, q)"
    and free_ok: "q_ok q \<Longrightarrow> free q m = Some q' \<Longrightarrow> q_ok q'"
    and free_others: "q_ok q \<Longrightarrow> free q m = Some q' \<Longrightarrow> has q n b \<Longrightarrow> n \<noteq> m \<Longrightarrow> has q' n b"
    and one_client: "q_ok q \<Longrightarrow> has q m a \<Longrightarrow> has q n a \<Longrightarrow> m = n"
begin

lemma leased_grant:
  assumes "q_ok q" "leased has q L" "alloc q m True = Some (a, q')"
  shows "leased has q' (insert (m, a) (revoked m L))"
  using assms alloc_grants [OF assms(1,3)] alloc_others [OF assms(1,3)]
  by (auto simp: leased_def revoked_def inj_on_def)

lemma leased_offer:
  assumes "q_ok q" "leased has q L" "alloc q m False = Some (a, q')"
  shows "leased has q' L"
proof -
  have "has q' (fst l) (snd l)" if "l \<in> L" for l
  proof (cases "fst l = m")
    case True
    have h: "has q m (snd l)" using assms(2) that True by (auto simp: leased_def)
    then show ?thesis using alloc_again [OF assms(1) h, of False] assms(3) True by simp
  next
    case False
    then show ?thesis using alloc_others [OF assms(1,3) _ False] assms(2) that by (auto simp: leased_def)
  qed
  then show ?thesis using assms(2) by (simp add: leased_def)
qed

lemma leased_free: "q_ok q \<Longrightarrow> leased has q L \<Longrightarrow> free q m = Some q' \<Longrightarrow> leased has q' (revoked m L)"
  using free_others [of q m q'] by (auto simp: leased_def revoked_def inj_on_def)

lemma leased_refuse:
  assumes "q_ok q" "leased has q L" "alloc q m pre = Some (a, q1)" "free q1 m = Some q'"
  shows "leased has q' (revoked m L)"
  using alloc_others [OF assms(1,3)] free_others [OF alloc_ok [OF assms(1,3)] assms(4)] assms(2)
  by (auto simp: leased_def revoked_def inj_on_def)

lemma leased_exclusive: "q_ok q \<Longrightarrow> leased has q L \<Longrightarrow> inj_on snd L"
  unfolding leased_def inj_on_def by (metis one_client prod.expand)

end

interpretation pool: address_pool "pool_ok cm" "holds cm" "dhcpd_ip_allocate cm" "dhcpd_ip_release cm" for cm
  by unfold_locales
    (rule allocate_ok(1) allocate_gets allocate_keeps allocate_renews release_keeps(1,2) holds_inj, assumption+)+

end
