(* ===== verification/Dhcpd.thy ===== *)
theory Dhcpd
  imports Dhcp_Packet Dhcp_Pool
begin

text \<open>
  The DHCP server, \<^verbatim>\<open>components/net/dhcpd/dhcpd.c\<close>: what it answers to each message, starting and
  stopping it.  A received datagram lies at the start of a buffer of \<open>DHCP_MAX_MTU\<close> bytes, an answer
  is built in a second one; both hold what the allocator left there.  A read or write outside a buffer
  is \<open>None\<close>, as is a write through the null pointer.  The address conversion of the network stack,
  \<open>ip4addr_aton\<close>, is an argument, and so is whether the word at address 4 is other than zero (see
  \<open>Dhcp_Packet.parse_end\<close>).  Sockets, buffers and the task around the handler are not modelled.
\<close>

section \<open>The model\<close>

definition BOOT_REQUEST :: byte where [dhcp_consts]: "BOOT_REQUEST = 1"
definition BOOT_REPLY :: byte where [dhcp_consts]: "BOOT_REPLY = 2"
definition DHCP_DISCOVER :: byte where [dhcp_consts]: "DHCP_DISCOVER = 1"
definition DHCP_OFFER :: byte where [dhcp_consts]: "DHCP_OFFER = 2"
definition DHCP_REQUEST :: byte where [dhcp_consts]: "DHCP_REQUEST = 3"
definition DHCP_DECLINE :: byte where [dhcp_consts]: "DHCP_DECLINE = 4"
definition DHCP_ACK :: byte where [dhcp_consts]: "DHCP_ACK = 5"
definition DHCP_NAK :: byte where [dhcp_consts]: "DHCP_NAK = 6"
definition DHCP_RELEASE :: byte where [dhcp_consts]: "DHCP_RELEASE = 7"
definition DHCP_INFORM :: byte where [dhcp_consts]: "DHCP_INFORM = 8"
definition DHO_SUBNET :: byte where [dhcp_consts]: "DHO_SUBNET = 1"
definition DHO_ROUTERS :: byte where [dhcp_consts]: "DHO_ROUTERS = 3"
definition DHO_DOMAIN_NAME_SERVERS :: byte where [dhcp_consts]: "DHO_DOMAIN_NAME_SERVERS = 6"
definition DHO_HOST_NAME :: byte where [dhcp_consts]: "DHO_HOST_NAME = 12"
definition DHO_DHCP_REQUESTED_ADDRESS :: byte where [dhcp_consts]: "DHO_DHCP_REQUESTED_ADDRESS = 50"
definition DHO_DHCP_LEASE_TIME :: byte where [dhcp_consts]: "DHO_DHCP_LEASE_TIME = 51"
definition DHO_DHCP_MESSAGE_TYPE :: byte where [dhcp_consts]: "DHO_DHCP_MESSAGE_TYPE = 53"
definition DHO_DHCP_SERVER_IDENTIFIER :: byte where [dhcp_consts]: "DHO_DHCP_SERVER_IDENTIFIER = 54"
definition DHO_DHCP_RENEWAL_TIME :: byte where [dhcp_consts]: "DHO_DHCP_RENEWAL_TIME = 58"
definition DHO_DHCP_REBINDING_TIME :: byte where [dhcp_consts]: "DHO_DHCP_REBINDING_TIME = 59"
definition DHCP_MAX_MTU :: nat where [dhcp_consts]: "DHCP_MAX_MTU = 608"
definition DHCP_HOST_NETMASK :: string where "DHCP_HOST_NETMASK = ''255.255.255.0''"
definition DHCP_HOST_DNS1 :: string where "DHCP_HOST_DNS1 = ''114.114.114.114''"
definition DHCP_SERVER_NAME_STR :: string where "DHCP_SERVER_NAME_STR = ''LN-DHCP-Server''"
definition DHCP_HOST_NAME_STR :: string where "DHCP_HOST_NAME_STR = ''LN882x-SoftAP''"

datatype ln_dhcpd_err = DHCPD_ERR_NONE | DHCPD_ERR_INVALID_PARAM | DHCPD_ERR_SIZE_EXCEEDED | DHCPD_ERR_STATE
  | DHCPD_ERR_MEM | DHCPD_ERR_MSG | DHCPD_ERR_IP_USE_UP | DHCPD_ERR_OS_SERVICE

text \<open>An address is the word that holds its four bytes in memory order.\<close>

record server_config =
  sc_server :: u32
  sc_port :: u16
  sc_lease :: u32
  sc_renew :: u32
  sc_ip_start :: u32
  sc_ip_end :: u32
  sc_client_max :: u8

record dhcpd_ctrl =
  dh_flag :: bool
  dh_config :: server_config
  dh_pool :: "dhcpd_ip_item list"

definition fld :: "byte list \<Rightarrow> nat \<Rightarrow> nat \<Rightarrow> byte list" where
  "fld packet i n = take n (drop i packet)"

subsection \<open>Building an answer\<close>

definition buf_put :: "byte list \<Rightarrow> nat \<Rightarrow> byte list \<Rightarrow> byte list option" where
  "buf_put buf i bs = (if i + length bs \<le> length buf then Some (take i buf @ bs @ drop (i + length bs) buf) else None)"

fun put_fields :: "byte list \<Rightarrow> (nat \<times> byte list) list \<Rightarrow> byte list option" where
  "put_fields buf [] = Some buf"
| "put_fields buf ((i, bs) # ws) = do { b \<leftarrow> buf_put buf i bs; put_fields b ws }"

text \<open>The fields of the answer in the order they are stored, up to the magic cookie.\<close>

definition bootp_fields :: "byte list \<Rightarrow> byte list \<Rightarrow> (nat \<times> byte list) list" where
  "bootp_fields request yiaddr =
     [(0, [BOOT_REPLY]), (1, fld request 1 1), (2, fld request 2 1), (3, [0]), (4, fld request 4 4),
      (8, [0, 0]), (10, fld request 10 2), (12, fld request 12 4), (16, yiaddr), (20, replicate 4 0),
      (24, replicate 4 0), (28, fld request 28 16),
      (44, replicate 64 0), (44, str_bytes DHCP_SERVER_NAME_STR @ [0]), (108, replicate 128 0),
      (236, htonl_bytes DHCP_MAGIC_COOKIE_U32)]"

definition put_option :: "byte list \<times> nat \<Rightarrow> byte \<Rightarrow> byte list \<Rightarrow> (byte list \<times> nat) option" where
  "put_option st code v = (case st of (buf, offset) \<Rightarrow> do {
     b \<leftarrow> buf_put buf offset [code];
     b \<leftarrow> buf_put b (offset + 1) [of_nat (length v)];
     b \<leftarrow> buf_put b (offset + 2) v;
     Some (b, offset + 2 + length v) })"

fun put_options :: "byte list \<times> nat \<Rightarrow> (byte \<times> byte list) list \<Rightarrow> (byte list \<times> nat) option" where
  "put_options st [] = Some st"
| "put_options st ((code, v) # os) = do { st \<leftarrow> put_option st code v; put_options st os }"

definition LN_ROUNDUP :: "nat \<Rightarrow> nat \<Rightarrow> nat" where
  "LN_ROUNDUP x n = ((x + (n - 1)) div n) * n"

definition put_end :: "byte list \<times> nat \<Rightarrow> (byte list \<times> nat) option" where
  "put_end st = (case st of (buf, offset) \<Rightarrow> do {
     b \<leftarrow> buf_put buf offset [DHO_END];
     b \<leftarrow> buf_put b (offset + 1) [DHO_PAD];
     let offset = offset + 2; tmp_len = LN_ROUNDUP offset 4 - offset in do {
     b \<leftarrow> (if tmp_len > 0 then buf_put b offset (replicate tmp_len DHO_PAD) else Some b);
     Some (b, offset + tmp_len) } })"

definition head_options :: "server_config \<Rightarrow> byte \<Rightarrow> (byte \<times> byte list) list" where
  "head_options cfg msg_type = [(DHO_DHCP_MESSAGE_TYPE, [msg_type]), (DHO_DHCP_SERVER_IDENTIFIER, le_bytes 4 (sc_server cfg))]"

definition lease_options :: "(string \<Rightarrow> u32) \<Rightarrow> server_config \<Rightarrow> (byte \<times> byte list) list" where
  "lease_options aton cfg =
     [(DHO_DHCP_LEASE_TIME, htonl_bytes (sc_lease cfg)),
      (DHO_DHCP_RENEWAL_TIME, htonl_bytes (drop_bit 1 (sc_lease cfg))),
      (DHO_DHCP_REBINDING_TIME, htonl_bytes (drop_bit 3 (sc_lease cfg) * 7)),
      (DHO_ROUTERS, le_bytes 4 (sc_server cfg)),
      (DHO_SUBNET, le_bytes 4 (aton DHCP_HOST_NETMASK)),
      (DHO_DOMAIN_NAME_SERVERS, le_bytes 4 (aton DHCP_HOST_DNS1))]"

definition host_option :: "(byte \<times> byte list) list" where
  "host_option = [(DHO_HOST_NAME, str_bytes DHCP_HOST_NAME_STR)]"

text \<open>The part the three handlers share: the fixed fields, the options and the end.  The result is the length
  of the answer and the buffer it stands in.\<close>

definition build_reply :: "byte list \<Rightarrow> byte list \<Rightarrow> byte list \<Rightarrow> (byte \<times> byte list) list \<Rightarrow> (byte list \<times> nat) option" where
  "build_reply request response yiaddr os = do {
     b \<leftarrow> put_fields response (bootp_fields request yiaddr);
     st \<leftarrow> put_options (b, BOOTP_ABSOLUTE_MIN_LEN + DHCP_MAGIC_COOKIE_LEN) os;
     put_end st }"

subsection \<open>The handlers\<close>

text \<open>A handler returns whether to answer, the length of the answer, the send buffer and the new state.\<close>

type_synonym handled = "(bool \<times> nat \<times> byte list \<times> dhcpd_ctrl) option"

definition client_mac :: "byte list \<Rightarrow> byte list" where
  "client_mac request = fld request 28 6"

definition do_discover :: "(string \<Rightarrow> u32) \<Rightarrow> byte list \<Rightarrow> byte list \<Rightarrow> dhcpd_ctrl \<Rightarrow> nat \<Rightarrow> handled" where
  "do_discover aton request response d max_mtu =
     (case dhcpd_ip_allocate (sc_client_max (dh_config d)) (dh_pool d) (client_mac request) False of
        None \<Rightarrow> Some (False, 0, response, d)
      | Some (alloc_ipaddr, pool) \<Rightarrow> do {
          (b, offset) \<leftarrow> build_reply request response (le_bytes 4 alloc_ipaddr)
            (head_options (dh_config d) DHCP_OFFER @ lease_options aton (dh_config d) @ host_option);
          Some (offset \<le> max_mtu, offset, b, d\<lparr>dh_pool := pool\<rparr>) })"

text \<open>The address a client asks for: the option, or else the field \<open>ciaddr\<close> when it is set.\<close>

definition confirm_ipaddr :: "bool \<Rightarrow> byte list \<Rightarrow> nat \<Rightarrow> byte list option option" where
  "confirm_ipaddr nullw request recv_len = do {
     (found, r) \<leftarrow> dhcpd_parse_option nullw request recv_len
        (Some \<lparr>opt_code = DHO_DHCP_REQUESTED_ADDRESS, opt_len = 0, opt_value = None\<rparr>);
     if found then do {
       r \<leftarrow> r; i \<leftarrow> opt_value r; bs \<leftarrow> buf_get request i 4; Some (Some bs) }
     else if fld request 12 4 \<noteq> [0, 0, 0, 0] then Some (Some (fld request 12 4))
     else Some None }"

definition do_request :: "bool \<Rightarrow> (string \<Rightarrow> u32) \<Rightarrow> byte list \<Rightarrow> nat \<Rightarrow> byte list \<Rightarrow> dhcpd_ctrl \<Rightarrow> nat \<Rightarrow> handled" where
  "do_request nullw aton request recv_len response d max_mtu = do {
     confirm \<leftarrow> confirm_ipaddr nullw request recv_len;
     case confirm of None \<Rightarrow> Some (False, 0, response, d)
     | Some confirm \<Rightarrow>
        (case dhcpd_ip_allocate (sc_client_max (dh_config d)) (dh_pool d) (client_mac request) True of
           None \<Rightarrow> Some (False, 0, response, d)
         | Some (alloc_ipaddr, pool) \<Rightarrow>
             if le_bytes 4 alloc_ipaddr \<noteq> confirm
             then do {
               pool \<leftarrow> dhcpd_ip_release (sc_client_max (dh_config d)) pool (client_mac request);
               (b, offset) \<leftarrow> build_reply request response (replicate 4 0)
                 (head_options (dh_config d) DHCP_NAK @ host_option);
               Some (offset \<le> max_mtu, offset, b, d\<lparr>dh_pool := pool\<rparr>) }
             else do {
               (b, offset) \<leftarrow> build_reply request response confirm
                 (head_options (dh_config d) DHCP_ACK @ lease_options aton (dh_config d) @ host_option);
               Some (offset \<le> max_mtu, offset, b, d\<lparr>dh_pool := pool\<rparr>) }) }"

definition do_inform :: "(string \<Rightarrow> u32) \<Rightarrow> byte list \<Rightarrow> byte list \<Rightarrow> dhcpd_ctrl \<Rightarrow> nat \<Rightarrow> handled" where
  "do_inform aton request response d max_mtu =
     (case dhcpd_ip_allocate (sc_client_max (dh_config d)) (dh_pool d) (client_mac request) False of
        None \<Rightarrow> Some (False, 0, response, d)
      | Some (alloc_ipaddr, pool) \<Rightarrow> do {
          (b, offset) \<leftarrow> build_reply request response (le_bytes 4 alloc_ipaddr)
            (head_options (dh_config d) DHCP_ACK @ lease_options aton (dh_config d) @ host_option);
          Some (offset \<le> max_mtu, offset, b, d\<lparr>dh_pool := pool\<rparr>) })"

definition do_release :: "byte list \<Rightarrow> dhcpd_ctrl \<Rightarrow> handled" where
  "do_release response d = Some (False, 0, response, d)"

definition do_decline :: "byte list \<Rightarrow> dhcpd_ctrl \<Rightarrow> handled" where
  "do_decline response d = Some (False, 0, response, d)"

text \<open>The type of a message the server looks at; \<open>None\<close> inside when the packet is refused.\<close>

definition msg_type :: "bool \<Rightarrow> byte list \<Rightarrow> nat \<Rightarrow> byte option option" where
  "msg_type nullw request recv_len = do {
     opcode \<leftarrow> buf_at request 0;
     if opcode \<noteq> BOOT_REQUEST then Some None
     else do {
       ok \<leftarrow> dhcpd_recv_packet_check nullw request recv_len;
       if \<not> ok then Some None
       else do {
         (found, r) \<leftarrow> dhcpd_parse_option nullw request recv_len
           (Some \<lparr>opt_code = DHO_DHCP_MESSAGE_TYPE, opt_len = 0, opt_value = None\<rparr>);
         if \<not> found then Some None
         else do { r \<leftarrow> r; i \<leftarrow> opt_value r; c \<leftarrow> buf_at request i; Some (Some c) } } } }"

definition dhcpd_dispatch :: "bool \<Rightarrow> (string \<Rightarrow> u32) \<Rightarrow> byte list \<Rightarrow> nat \<Rightarrow> byte list \<Rightarrow> dhcpd_ctrl \<Rightarrow> nat \<Rightarrow> handled" where
  "dhcpd_dispatch nullw aton request recv_len response d max_mtu = do {
     t \<leftarrow> msg_type nullw request recv_len;
     case t of None \<Rightarrow> Some (False, 0, response, d)
     | Some c \<Rightarrow>
         if c = DHCP_DISCOVER then do_discover aton request response d max_mtu
         else if c = DHCP_RELEASE then do_release response d
         else if c = DHCP_INFORM then do_inform aton request response d max_mtu
         else if c = DHCP_REQUEST then do_request nullw aton request recv_len response d max_mtu
         else if c = DHCP_DECLINE then do_decline response d
         else Some (False, 0, response, d) }"

text \<open>The datagram that is broadcast in answer, if any, and the new state.\<close>

definition dhcpd_handle_msg :: "bool \<Rightarrow> (string \<Rightarrow> u32) \<Rightarrow> byte list \<Rightarrow> nat \<Rightarrow> byte list \<Rightarrow> dhcpd_ctrl
    \<Rightarrow> (byte list option \<times> dhcpd_ctrl) option" where
  "dhcpd_handle_msg nullw aton recv_buff recv_len send_buff d = do {
     (ret, send_pkt_len, b, d') \<leftarrow> dhcpd_dispatch nullw aton recv_buff recv_len send_buff d DHCP_MAX_MTU;
     Some (if ret \<and> send_pkt_len > 0 then Some (take send_pkt_len b) else None, d') }"

subsection \<open>Starting and stopping\<close>

definition pool_item :: "server_config \<Rightarrow> nat \<Rightarrow> dhcpd_ip_item \<Rightarrow> dhcpd_ip_item" where
  "pool_item cfg i it = it\<lparr>allocted := False,
     item_ip := le_word [le_bytes 4 (sc_server cfg) ! 0, le_bytes 4 (sc_server cfg) ! 1, le_bytes 4 (sc_server cfg) ! 2,
       le_bytes 4 (sc_ip_start cfg) ! 3 + of_nat i]\<rparr>"

definition init_pool :: "server_config \<Rightarrow> dhcpd_ip_item list \<Rightarrow> dhcpd_ip_item list" where
  "init_pool cfg pool = map (\<lambda>i. if i < usable_num (sc_client_max cfg) then pool_item cfg i (pool ! i) else pool ! i) [0..<length pool]"

text \<open>The configuration comes from the parameter store (\<open>None\<close> when reading it fails and the old one stays);
  \<open>thr\<close> says whether the task could be created.\<close>

definition dhcpd_start :: "server_config option \<Rightarrow> bool \<Rightarrow> dhcpd_ctrl \<Rightarrow> ln_dhcpd_err \<times> dhcpd_ctrl" where
  "dhcpd_start stored thr d =
     (let d = (case stored of None \<Rightarrow> d | Some cfg \<Rightarrow> d\<lparr>dh_config := cfg\<rparr>); cfg = dh_config d in
      if dh_flag d then (DHCPD_ERR_STATE, d)
      else
        let d = d\<lparr>dh_flag := True\<rparr> in
        if sc_server cfg = 0 \<or> sc_port cfg = 0 \<or> sc_lease cfg = 0 \<or> sc_renew cfg = 0 then (DHCPD_ERR_INVALID_PARAM, d)
        else
          let d = d\<lparr>dh_pool := init_pool cfg (dh_pool d)\<rparr> in
          if thr then (DHCPD_ERR_NONE, d) else (DHCPD_ERR_OS_SERVICE, d))"

definition dhcpd_stop :: "dhcpd_ctrl \<Rightarrow> ln_dhcpd_err \<times> dhcpd_ctrl" where
  "dhcpd_stop d = (DHCPD_ERR_NONE, if dh_flag d then d\<lparr>dh_flag := False\<rparr> else d)"

definition dhcpd_is_running :: "dhcpd_ctrl \<Rightarrow> bool" where
  "dhcpd_is_running d = dh_flag d"

definition dhcpd_curr_config_set :: "server_config \<Rightarrow> dhcpd_ctrl \<Rightarrow> ln_dhcpd_err \<times> dhcpd_ctrl" where
  "dhcpd_curr_config_set cfg d = (if dh_flag d then (DHCPD_ERR_STATE, d) else (DHCPD_ERR_NONE, d\<lparr>dh_config := cfg\<rparr>))"

definition dhcpd_curr_config_get :: "dhcpd_ctrl \<Rightarrow> server_config" where
  "dhcpd_curr_config_get d = dh_config d"

text \<open>A station leaves the access point.\<close>

definition ethernetif_remove_station :: "byte list \<Rightarrow> dhcpd_ctrl \<Rightarrow> dhcpd_ctrl option" where
  "ethernetif_remove_station mac d = do {
     pool \<leftarrow> dhcpd_ip_release (sc_client_max (dh_config d)) (dh_pool d) mac;
     Some (d\<lparr>dh_pool := pool\<rparr>) }"

end
