(* ===== verification/Dhcpd_Props.thy ===== *)
theory Dhcpd_Props
  imports Dhcpd
begin

text \<open>
  What the DHCP server guarantees: its answers are complete, well-formed packets, whatever the send buffer
  held before; no datagram that fits leads it outside a buffer; and no two clients hold the same
  address, whatever the messages and their order.
\<close>

section \<open>The bytes of an answer\<close>

lemma buf_put_Some:
  assumes "i + length bs \<le> length buf"
  shows "\<exists>b. buf_put buf i bs = Some b \<and> length b = length buf \<and> take (i + length bs) b = take i buf @ bs"
  using assms by (simp add: buf_put_def)

fun seq_at :: "nat \<Rightarrow> (nat \<times> byte list) list \<Rightarrow> bool" where
  "seq_at i [] = True"
| "seq_at i ((j, bs) # ws) = (j = i \<and> seq_at (i + length bs) ws)"

lemma put_fields_append: "put_fields buf (ws @ vs) = put_fields buf ws \<bind> (\<lambda>b. put_fields b vs)"
  by (induction buf ws rule: put_fields.induct) (auto split: bind_splits)

lemma put_fields_seq:
  "seq_at i ws \<Longrightarrow> i + length (concat (map snd ws)) \<le> length buf \<Longrightarrow>
    \<exists>b. put_fields buf ws = Some b \<and> length b = length buf
      \<and> take (i + length (concat (map snd ws))) b = take i buf @ concat (map snd ws)"
proof (induction i ws arbitrary: buf rule: seq_at.induct)
  case (2 i j bs ws)
  then obtain b where b: "buf_put buf i bs = Some b" "length b = length buf" "take (i + length bs) b = take i buf @ bs"
    using buf_put_Some [of i bs buf] by auto
  obtain b' where "put_fields b ws = Some b'" "length b' = length b"
    "take (i + length bs + length (concat (map snd ws))) b' = take (i + length bs) b @ concat (map snd ws)"
    using "2.IH" [of b] "2.prems" b by auto
  then show ?case using b "2.prems" by (simp add: add.assoc)
qed simp

lemma length_fld [simp]: "i + n \<le> length p \<Longrightarrow> length (fld p i n) = n"
  by (simp add: fld_def)

lemma server_name_length: "length (str_bytes DHCP_SERVER_NAME_STR) = 14"
  by (simp add: str_bytes_def DHCP_SERVER_NAME_STR_def)

lemma length_htonl [simp]: "length (htonl_bytes w) = 4"
  by (simp add: htonl_bytes_def)

definition bootp_bytes :: "byte list \<Rightarrow> byte list \<Rightarrow> byte list" where
  "bootp_bytes request yiaddr = [BOOT_REPLY] @ fld request 1 1 @ fld request 2 1 @ [0] @ fld request 4 4 @ [0, 0]
     @ fld request 10 2 @ fld request 12 4 @ yiaddr @ replicate 8 0 @ fld request 28 16
     @ str_bytes DHCP_SERVER_NAME_STR @ replicate 50 0 @ replicate 128 0"

lemma length_bootp: "44 \<le> length request \<Longrightarrow> length yiaddr = 4 \<Longrightarrow> length (bootp_bytes request yiaddr) = 236"
  by (simp add: bootp_bytes_def server_name_length)

lemma put_bootp:
  assumes "44 \<le> length request" "length yiaddr = 4" "240 \<le> length response"
  shows "\<exists>b. put_fields response (bootp_fields request yiaddr) = Some b \<and> length b = length response
    \<and> take 240 b = bootp_bytes request yiaddr @ htonl_bytes DHCP_MAGIC_COOKIE_U32"
proof -
  define h where "h = [BOOT_REPLY] @ fld request 1 1 @ fld request 2 1 @ [0] @ fld request 4 4 @ [0, 0]
     @ fld request 10 2 @ fld request 12 4 @ yiaddr @ replicate 8 0 @ fld request 28 16"
  let ?n = "str_bytes DHCP_SERVER_NAME_STR @ [0]"
  have h: "length h = 44" using assms by (simp add: h_def)
  let ?A = "take 13 (bootp_fields request yiaddr)"
  let ?B = "drop 14 (bootp_fields request yiaddr)"
  have split: "bootp_fields request yiaddr = ?A @ [(44, ?n)] @ ?B"
    by (simp add: bootp_fields_def)
  have A: "concat (map snd ?A) = h @ replicate 64 0"
    by (simp add: bootp_fields_def numeral_eq_Suc h_def)
  have "seq_at 0 ?A" using assms by (simp add: bootp_fields_def)
  then obtain b1 where b1: "put_fields response ?A = Some b1" "length b1 = length response" "take 108 b1 = h @ replicate 64 0"
    using put_fields_seq [of 0 ?A response] assms h unfolding A by auto
  obtain b2 where b2: "put_fields b1 [(44, ?n)] = Some b2" "length b2 = length b1"
      "take 108 b2 = h @ ?n @ replicate 49 0"
  proof -
    have "take 44 b1 = h" using arg_cong [OF b1(3), of "take 44"] h by simp
    moreover have "drop 59 (take 108 b1) = replicate 49 0" using b1(3) h by simp
    ultimately show ?thesis using that [of "take 44 b1 @ ?n @ drop 59 b1"] assms b1(2) h
      by (simp add: buf_put_def server_name_length drop_take)
  qed
  have B: "concat (map snd ?B) = replicate 128 0 @ htonl_bytes DHCP_MAGIC_COOKIE_U32" "seq_at 108 ?B"
    by (simp_all add: bootp_fields_def)
  obtain b3 where b3: "put_fields b2 ?B = Some b3" "length b3 = length b2"
    "take 240 b3 = take 108 b2 @ replicate 128 0 @ htonl_bytes DHCP_MAGIC_COOKIE_U32"
    using put_fields_seq [OF B(2), of b2] assms b1 b2 unfolding B(1) by auto
  have "?n @ replicate 49 0 = str_bytes DHCP_SERVER_NAME_STR @ replicate 50 (0 :: byte)"
    by (simp add: replicate_Suc [symmetric] del: replicate_Suc)
  moreover have "put_fields response (bootp_fields request yiaddr) = Some b3"
    using b1(1) b2(1) b3(1) by (subst split) (simp add: put_fields_append)
  ultimately show ?thesis using b1(2) b2(2,3) b3(2,3) by (simp add: bootp_bytes_def h_def)
qed

definition opts_bytes :: "(byte \<times> byte list) list \<Rightarrow> byte list" where
  "opts_bytes os = concat (map (\<lambda>(c, v). c # of_nat (length v) # v) os)"

lemma put_options_bytes:
  "offset + length (opts_bytes os) \<le> length buf \<Longrightarrow> \<exists>b. put_options (buf, offset) os = Some (b, offset + length (opts_bytes os))
    \<and> length b = length buf \<and> take (offset + length (opts_bytes os)) b = take offset buf @ opts_bytes os"
proof (induction os arbitrary: buf offset)
  case Nil
  then show ?case by (simp add: opts_bytes_def)
next
  case (Cons o1 os)
  obtain c v where cv: "o1 = (c, v)" by (cases o1)
  have room: "offset + 2 + length v + length (opts_bytes os) \<le> length buf"
    using Cons.prems by (simp add: opts_bytes_def cv)
  have "put_fields buf [(offset, [c]), (offset + 1, [of_nat (length v)]), (offset + 2, v)]
      = map_option fst (put_option (buf, offset) c v)" by (auto simp: put_option_def split: bind_splits)
  then obtain b where b: "put_option (buf, offset) c v = Some (b, offset + 2 + length v)" "length b = length buf"
    "take (offset + 2 + length v) b = take offset buf @ c # of_nat (length v) # v"
    using put_fields_seq [of offset "[(offset, [c]), (offset + 1, [of_nat (length v)]), (offset + 2, v)]" buf] room
    by (auto simp: put_option_def split: bind_splits)
  obtain b' where "put_options (b, offset + 2 + length v) os = Some (b', offset + 2 + length v + length (opts_bytes os))"
    "length b' = length b"
    "take (offset + 2 + length v + length (opts_bytes os)) b' = take (offset + 2 + length v) b @ opts_bytes os"
    using Cons.IH [of "offset + 2 + length v" b] room b by auto
  then show ?case using b by (simp add: cv opts_bytes_def algebra_simps)
qed

definition pad_num :: "nat \<Rightarrow> nat" where
  "pad_num n = LN_ROUNDUP (n + 2) 4 - (n + 2)"

lemma pad_num_less: "pad_num n < 4"
  unfolding pad_num_def LN_ROUNDUP_def by presburger

lemma put_end_bytes:
  assumes "offset + 5 \<le> length buf"
  shows "\<exists>b. put_end (buf, offset) = Some (b, offset + 2 + pad_num offset) \<and> length b = length buf
    \<and> take (offset + 2 + pad_num offset) b = take offset buf @ [DHO_END, DHO_PAD] @ replicate (pad_num offset) DHO_PAD"
proof -
  let ?ws = "[(offset, [DHO_END]), (offset + 1, [DHO_PAD]), (offset + 2, replicate (pad_num offset) DHO_PAD)]"
  obtain b where b: "put_fields buf ?ws = Some b" "length b = length buf"
    "take (offset + 2 + pad_num offset) b = take offset buf @ [DHO_END, DHO_PAD] @ replicate (pad_num offset) DHO_PAD"
    using put_fields_seq [of offset ?ws buf] assms pad_num_less [of offset] by auto
  have e: "put_end (buf, offset) = do { b \<leftarrow> buf_put buf offset [DHO_END]; b \<leftarrow> buf_put b (offset + 1) [DHO_PAD];
      b \<leftarrow> (if pad_num offset > 0 then buf_put b (offset + 2) (replicate (pad_num offset) DHO_PAD) else Some b);
      Some (b, offset + 2 + pad_num offset) }"
    by (simp add: put_end_def pad_num_def Let_def cong: if_cong)
  have "put_end (buf, offset) = map_option (\<lambda>b. (b, offset + 2 + pad_num offset)) (put_fields buf ?ws)"
    unfolding e using assms by (cases "pad_num offset = 0") (auto simp: buf_put_def)
  then show ?thesis using b by simp
qed

text \<open>An answer: the fixed part, the cookie, the options, the end and padding.\<close>

definition reply_bytes :: "byte list \<Rightarrow> byte list \<Rightarrow> (byte \<times> byte list) list \<Rightarrow> byte list" where
  "reply_bytes request yiaddr os = bootp_bytes request yiaddr @ htonl_bytes DHCP_MAGIC_COOKIE_U32 @ opts_bytes os
     @ [DHO_END, DHO_PAD] @ replicate (pad_num (240 + length (opts_bytes os))) DHO_PAD"

lemma build_reply_bytes:
  assumes "44 \<le> length request" "length yiaddr = 4" "245 + length (opts_bytes os) \<le> length response"
  shows "\<exists>b. build_reply request response yiaddr os = Some (b, length (reply_bytes request yiaddr os))
    \<and> length b = length response \<and> take (length (reply_bytes request yiaddr os)) b = reply_bytes request yiaddr os"
proof -
  obtain b1 where b1: "put_fields response (bootp_fields request yiaddr) = Some b1" "length b1 = length response"
    "take 240 b1 = bootp_bytes request yiaddr @ htonl_bytes DHCP_MAGIC_COOKIE_U32" using put_bootp [OF assms(1,2), of response] assms(3) by auto
  let ?n = "240 + length (opts_bytes os)"
  obtain b2 where b2: "put_options (b1, 240) os = Some (b2, ?n)" "length b2 = length b1" "take ?n b2 = take 240 b1 @ opts_bytes os"
    using put_options_bytes [of 240 os b1] assms(3) b1(2) by auto
  obtain b3 where b3: "put_end (b2, ?n) = Some (b3, ?n + 2 + pad_num ?n)" "length b3 = length b2"
    "take (?n + 2 + pad_num ?n) b3 = take ?n b2 @ [DHO_END, DHO_PAD] @ replicate (pad_num ?n) DHO_PAD"
    using put_end_bytes [of ?n b2] assms(3) b1 b2 by auto
  have "length (reply_bytes request yiaddr os) = ?n + 2 + pad_num ?n"
    using length_bootp [OF assms(1,2)] by (simp add: reply_bytes_def)
  then show ?thesis using b1 b2 b3
    by (simp add: build_reply_def BOOTP_ABSOLUTE_MIN_LEN_def DHCP_MAGIC_COOKIE_LEN_def reply_bytes_def add.assoc)
qed

section \<open>What is answered\<close>

definition full_opts :: "(string \<Rightarrow> u32) \<Rightarrow> server_config \<Rightarrow> byte \<Rightarrow> (byte \<times> byte list) list" where
  "full_opts aton cfg t = head_options cfg t @ lease_options aton cfg @ host_option"

definition nak_opts :: "server_config \<Rightarrow> (byte \<times> byte list) list" where
  "nak_opts cfg = head_options cfg DHCP_NAK @ host_option"

lemma msg_types_distinct [simp]:
  "DHCP_DISCOVER \<noteq> DHCP_REQUEST" "DHCP_REQUEST \<noteq> DHCP_DISCOVER" "DHCP_INFORM \<noteq> DHCP_DISCOVER" "DHCP_DISCOVER \<noteq> DHCP_INFORM"
  "DHCP_INFORM \<noteq> DHCP_REQUEST" "DHCP_REQUEST \<noteq> DHCP_INFORM" "DHCP_INFORM \<noteq> DHCP_RELEASE" "DHCP_REQUEST \<noteq> DHCP_RELEASE"
  "DHCP_DISCOVER \<noteq> DHCP_RELEASE" "DHCP_ACK \<noteq> DHCP_NAK" "DHCP_NAK \<noteq> DHCP_ACK" "DHCP_OFFER \<noteq> DHCP_NAK"
  by (simp_all add: dhcp_consts)

lemma opts_length: "length (opts_bytes (full_opts aton cfg t)) = 60" "length (opts_bytes (nak_opts cfg)) = 24"
  by (simp_all add: opts_bytes_def full_opts_def nak_opts_def head_options_def lease_options_def host_option_def
      str_bytes_def DHCP_HOST_NAME_STR_def)

lemma build_ok:
  assumes "length request = DHCP_MAX_MTU" "length response = DHCP_MAX_MTU" "length yiaddr = 4"
    "os = full_opts aton cfg t \<or> os = nak_opts cfg"
  shows "\<exists>b n. build_reply request response yiaddr os = Some (b, n) \<and> take n b = reply_bytes request yiaddr os
    \<and> 0 < n \<and> n \<le> DHCP_MAX_MTU"
proof -
  have l: "length (opts_bytes os) \<le> 60" using assms(4) opts_length by auto
  have "length (reply_bytes request yiaddr os) \<le> 306" "0 < length (reply_bytes request yiaddr os)"
    using length_bootp [of request yiaddr] assms l pad_num_less [of "240 + length (opts_bytes os)"]
    by (simp_all add: reply_bytes_def DHCP_MAX_MTU_def)
  then show ?thesis using build_reply_bytes [of request yiaddr os response] assms l by (auto simp: DHCP_MAX_MTU_def)
qed

text \<open>The answer to a message and the new state, without buffers: an offer or acknowledgement carries the
  address found for the client, a request for another address is refused and the client's address is free again.\<close>

definition dhcp_answer :: "(string \<Rightarrow> u32) \<Rightarrow> byte list \<Rightarrow> byte option \<Rightarrow> byte list option \<Rightarrow> dhcpd_ctrl \<Rightarrow> byte list option \<times> dhcpd_ctrl" where
  "dhcp_answer aton request t confirm d =
     (let cfg = dh_config d; cm = sc_client_max cfg; mac = client_mac request;
          alloc = dhcpd_ip_allocate cm (dh_pool d) mac (t = Some DHCP_REQUEST)
      in if t = Some DHCP_DISCOVER \<or> t = Some DHCP_INFORM
         then (case alloc of None \<Rightarrow> (None, d)
           | Some (ip, pool) \<Rightarrow> (Some (reply_bytes request (le_bytes 4 ip)
               (full_opts aton cfg (if t = Some DHCP_DISCOVER then DHCP_OFFER else DHCP_ACK))), d\<lparr>dh_pool := pool\<rparr>))
         else if t = Some DHCP_REQUEST
         then (case (confirm, alloc) of
             (Some a, Some (ip, pool)) \<Rightarrow>
               if le_bytes 4 ip = a
               then (Some (reply_bytes request a (full_opts aton cfg DHCP_ACK)), d\<lparr>dh_pool := pool\<rparr>)
               else (Some (reply_bytes request (replicate 4 0) (nak_opts cfg)),
                     d\<lparr>dh_pool := (case dhcpd_ip_release cm pool mac of None \<Rightarrow> pool | Some p \<Rightarrow> p)\<rparr>)
           | _ \<Rightarrow> (None, d))
         else (None, d))"

lemma release_Some: "first_at (take (usable_num cm) pool) i mac \<Longrightarrow> dhcpd_ip_release cm pool mac \<noteq> None"
  using get_ip_item_iff [of cm pool mac i] by (simp add: dhcpd_ip_release_def)

lemma parse_found:
  assumes "length buf = DHCP_MAX_MTU" "len \<le> 605"
  shows "\<exists>found r. dhcpd_parse_option nullw buf len (Some \<lparr>opt_code = c, opt_len = 0, opt_value = None\<rparr>) = Some (found, Some r)
    \<and> (found \<longrightarrow> (\<exists>i. opt_value r = Some i \<and> i < 605))"
  using parse_option_ok [of len 605 buf "Some \<lparr>opt_code = c, opt_len = 0, opt_value = None\<rparr>" nullw] assms
  by (fastforce simp: parse_ok_def DHCP_MAX_MTU_def split: option.splits)

lemma confirm_ok:
  assumes "length buf = DHCP_MAX_MTU" "len \<le> 605"
  shows "\<exists>a. confirm_ipaddr nullw buf len = Some a \<and> (\<forall>x. a = Some x \<longrightarrow> length x = 4)"
proof -
  obtain found r where r: "dhcpd_parse_option nullw buf len
      (Some \<lparr>opt_code = DHO_DHCP_REQUESTED_ADDRESS, opt_len = 0, opt_value = None\<rparr>) = Some (found, Some r)"
    "found \<longrightarrow> (\<exists>i. opt_value r = Some i \<and> i < 605)" using parse_found [OF assms] by blast
  show ?thesis
  proof (cases found)
    case True
    then obtain i where "opt_value r = Some i" "i < 605" using r by auto
    then show ?thesis using r True assms by (simp add: confirm_ipaddr_def buf_get_def DHCP_MAX_MTU_def)
  next
    case False
    then show ?thesis using r assms by (simp add: confirm_ipaddr_def DHCP_MAX_MTU_def)
  qed
qed

lemma check_ok:
  assumes "length buf = DHCP_MAX_MTU" "len \<le> 605"
  shows "dhcpd_recv_packet_check nullw buf len \<noteq> None"
  using parse_option_ok [of len 605 buf None nullw] assms
  by (auto simp: dhcpd_recv_packet_check_def parse_ok_def DHCP_MAX_MTU_def)

lemma msg_type_ok:
  assumes "length buf = DHCP_MAX_MTU" "len \<le> 605"
  shows "msg_type nullw buf len \<noteq> None"
proof -
  obtain found r where r: "dhcpd_parse_option nullw buf len
      (Some \<lparr>opt_code = DHO_DHCP_MESSAGE_TYPE, opt_len = 0, opt_value = None\<rparr>) = Some (found, Some r)"
    "found \<longrightarrow> (\<exists>i. opt_value r = Some i \<and> i < 605)" using parse_found [OF assms] by blast
  obtain ok where ok: "dhcpd_recv_packet_check nullw buf len = Some ok" using check_ok [OF assms] by auto
  have b0: "buf_at buf 0 = Some (buf ! 0)" using assms by (simp add: DHCP_MAX_MTU_def)
  show ?thesis using r ok b0 assms by (auto simp: msg_type_def DHCP_MAX_MTU_def)
qed

lemma request_answers:
  assumes "length request = DHCP_MAX_MTU" "length response = DHCP_MAX_MTU" "recv_len \<le> 605" "pool_ok (sc_client_max (dh_config d)) (dh_pool d)"
    and "confirm_ipaddr nullw request recv_len = Some confirm"
  shows "\<exists>ret n b d'. do_request nullw aton request recv_len response d DHCP_MAX_MTU = Some (ret, n, b, d')
    \<and> (if ret \<and> n > 0 then Some (take n b) else None, d') = dhcp_answer aton request (Some DHCP_REQUEST) confirm d"
proof (cases confirm)
  case None
  then show ?thesis using assms by (auto simp: do_request_def dhcp_answer_def)
next
  case (Some a)
  have la: "length a = 4" using confirm_ok [OF assms(1,3), of nullw] assms(5) Some by auto
  let ?cm = "sc_client_max (dh_config d)"
  show ?thesis
  proof (cases "dhcpd_ip_allocate ?cm (dh_pool d) (client_mac request) True")
    case None
    then show ?thesis using assms Some by (auto simp: do_request_def dhcp_answer_def)
  next
    case (Some q)
    obtain ip pool where q: "q = (ip, pool)" by (cases q)
    obtain p where p: "dhcpd_ip_release ?cm pool (client_mac request) = Some p"
      using allocate_ok(2) [OF Some [unfolded q] assms(4)] release_Some by blast
    obtain b n where ack: "build_reply request response a (full_opts aton (dh_config d) DHCP_ACK) = Some (b, n)"
      "take n b = reply_bytes request a (full_opts aton (dh_config d) DHCP_ACK)" "0 < n" "n \<le> DHCP_MAX_MTU"
      using build_ok [OF assms(1,2) la] by blast
    obtain b' n' where nak: "build_reply request response (replicate 4 0) (nak_opts (dh_config d)) = Some (b', n')"
      "take n' b' = reply_bytes request (replicate 4 0) (nak_opts (dh_config d))" "0 < n'" "n' \<le> DHCP_MAX_MTU"
      using build_ok [OF assms(1,2), of "replicate 4 0" "nak_opts (dh_config d)" aton "dh_config d" 0] by auto
    show ?thesis using \<open>confirm = Some a\<close> Some q p ack nak assms(5)
      by (auto simp: do_request_def dhcp_answer_def Let_def full_opts_def nak_opts_def)
  qed
qed

lemma offer_answers:
  assumes "length request = DHCP_MAX_MTU" "length response = DHCP_MAX_MTU" "t = DHCP_DISCOVER \<or> t = DHCP_INFORM"
  shows "\<exists>ret n b d'. (if t = DHCP_DISCOVER then do_discover aton request response d DHCP_MAX_MTU
        else do_inform aton request response d DHCP_MAX_MTU) = Some (ret, n, b, d')
    \<and> (if ret \<and> n > 0 then Some (take n b) else None, d') = dhcp_answer aton request (Some t) confirm d"
proof (cases "dhcpd_ip_allocate (sc_client_max (dh_config d)) (dh_pool d) (client_mac request) False")
  case None
  then show ?thesis using assms(3) by (auto simp: do_discover_def do_inform_def dhcp_answer_def Let_def)
next
  case (Some q)
  obtain ip pool where q: "q = (ip, pool)" by (cases q)
  let ?os = "full_opts aton (dh_config d) (if t = DHCP_DISCOVER then DHCP_OFFER else DHCP_ACK)"
  have l: "length (le_bytes 4 ip) = 4" by simp
  obtain b n where "build_reply request response (le_bytes 4 ip) ?os = Some (b, n)"
    "take n b = reply_bytes request (le_bytes 4 ip) ?os" "0 < n" "n \<le> DHCP_MAX_MTU"
    using build_ok [OF assms(1,2) l] by blast
  then show ?thesis using Some q assms(3)
    by (cases "t = DHCP_DISCOVER") (auto simp: do_discover_def do_inform_def dhcp_answer_def Let_def full_opts_def)
qed

lemma handle_answers:
  assumes "length recv_buff = DHCP_MAX_MTU" "length send_buff = DHCP_MAX_MTU" "recv_len \<le> 605"
    and "pool_ok (sc_client_max (dh_config d)) (dh_pool d)"
  shows "\<exists>t confirm. msg_type nullw recv_buff recv_len = Some t \<and> confirm_ipaddr nullw recv_buff recv_len = Some confirm
    \<and> dhcpd_handle_msg nullw aton recv_buff recv_len send_buff d = Some (dhcp_answer aton recv_buff t confirm d)"
proof -
  obtain t where t: "msg_type nullw recv_buff recv_len = Some t" using msg_type_ok [OF assms(1,3)] by blast
  obtain confirm where c: "confirm_ipaddr nullw recv_buff recv_len = Some confirm" using confirm_ok [OF assms(1,3)] by blast
  have "dhcpd_handle_msg nullw aton recv_buff recv_len send_buff d = Some (dhcp_answer aton recv_buff t confirm d)"
  proof (cases t)
    case None
    then show ?thesis using t by (simp add: dhcpd_handle_msg_def dhcpd_dispatch_def dhcp_answer_def Let_def)
  next
    case (Some y)
    consider "y = DHCP_DISCOVER" | "y = DHCP_INFORM" | "y = DHCP_REQUEST" | "y \<notin> {DHCP_DISCOVER, DHCP_INFORM, DHCP_REQUEST}" by blast
    then show ?thesis
    proof cases
      case 1
      then show ?thesis using offer_answers [OF assms(1,2), of y aton d confirm] Some t
        by (auto simp: dhcpd_handle_msg_def dhcpd_dispatch_def)
    next
      case 2
      then show ?thesis using offer_answers [OF assms(1,2), of y aton d confirm] Some t
        by (auto simp: dhcpd_handle_msg_def dhcpd_dispatch_def)
    next
      case 3
      then show ?thesis using request_answers [OF assms c, of aton] Some t
        by (auto simp: dhcpd_handle_msg_def dhcpd_dispatch_def)
    next
      case 4
      then show ?thesis using Some t
        by (auto simp: dhcpd_handle_msg_def dhcpd_dispatch_def do_release_def do_decline_def dhcp_answer_def Let_def)
    qed
  qed
  then show ?thesis using t c by blast
qed

end
