(* ===== verification/Dhcpd_Lease.thy ===== *)
theory Dhcpd_Lease
  imports Dhcpd_Props
begin

text \<open>
  Runs of the DHCP server: any sequence of datagrams and of stations leaving, and the leases the clients
  may rely on, which are recorded from what was sent to them.
\<close>

section \<open>Reading an answer\<close>

lemma fld_append: "length xs = i \<Longrightarrow> length ys = n \<Longrightarrow> fld (xs @ ys @ zs) i n = ys"
  by (simp add: fld_def)

lemma reply_split:
  assumes "44 \<le> length request" "length yiaddr = 4"
  obtains h m z where "reply_bytes request yiaddr os = h @ fld request 4 4 @ m @ yiaddr @ replicate 8 0 @ fld request 28 16 @ z"
    "length h = 4" "length m = 8"
  using assms
  by (intro that [of "[BOOT_REPLY] @ fld request 1 1 @ fld request 2 1 @ [0]" "[0, 0] @ fld request 10 2 @ fld request 12 4"])
    (simp_all add: reply_bytes_def bootp_bytes_def)

lemma reply_fields:
  assumes "44 \<le> length request" "length yiaddr = 4"
  shows "fld (reply_bytes request yiaddr os) 4 4 = fld request 4 4" "fld (reply_bytes request yiaddr os) 16 4 = yiaddr"
    "fld (reply_bytes request yiaddr os) 28 16 = fld request 28 16"
proof -
  obtain h m z where r: "reply_bytes request yiaddr os = h @ fld request 4 4 @ m @ yiaddr @ replicate 8 0 @ fld request 28 16 @ z"
    and l: "length h = 4" "length m = 8" by (rule reply_split [OF assms])
  have f: "length (fld request 4 4) = 4" "length (fld request 28 16) = 16" using assms by simp_all
  show "fld (reply_bytes request yiaddr os) 4 4 = fld request 4 4" unfolding r by (rule fld_append) (use l f in simp_all)
  show "fld (reply_bytes request yiaddr os) 16 4 = yiaddr"
    using fld_append [of "h @ fld request 4 4 @ m" 16 yiaddr 4] l f assms unfolding r by simp
  show "fld (reply_bytes request yiaddr os) 28 16 = fld request 28 16"
    using fld_append [of "h @ fld request 4 4 @ m @ yiaddr @ replicate 8 0" 28 "fld request 28 16" 16] l f assms unfolding r by simp
qed

lemma reply_type:
  assumes "44 \<le> length request" "length yiaddr = 4" "os = full_opts aton cfg t \<or> t = DHCP_NAK \<and> os = nak_opts cfg"
  shows "fld (reply_bytes request yiaddr os) 242 1 = [t]"
proof -
  have "\<exists>z. opts_bytes os = [DHO_DHCP_MESSAGE_TYPE, 1] @ [t] @ z"
    using assms(3) by (auto simp: opts_bytes_def full_opts_def nak_opts_def head_options_def)
  then obtain z where z: "opts_bytes os = [DHO_DHCP_MESSAGE_TYPE, 1] @ [t] @ z" ..
  show ?thesis
    using fld_append [of "bootp_bytes request yiaddr @ htonl_bytes DHCP_MAGIC_COOKIE_U32 @ [DHO_DHCP_MESSAGE_TYPE, 1]" 242 "[t]" 1]
      length_bootp [OF assms(1,2)] by (simp add: reply_bytes_def z)
qed

text \<open>Asking for an option of an answer with the parser of the packets.\<close>

lemma reply_option:
  assumes "44 \<le> length request" "length yiaddr = 4" "os = full_opts aton cfg t \<or> os = nak_opts cfg"
    and "(code, v) \<in> set os"
  shows "\<exists>r i. dhcpd_parse_option nullw (reply_bytes request yiaddr os) (length (reply_bytes request yiaddr os))
      (Some \<lparr>opt_code = code, opt_len = 0, opt_value = None\<rparr>) = Some (True, Some r) \<and> opt_value r = Some i
    \<and> unat (opt_len r) = length v \<and> fld (reply_bytes request yiaddr os) i (length v) = v"
proof -
  let ?ts = "map (\<lambda>(c, v). Opt c v) os" and ?p = "reply_bytes request yiaddr os"
  have ob: "opts_bytes os = concat (map tlv_bytes ?ts)" by (auto simp: opts_bytes_def comp_def intro!: arg_cong [of _ _ concat])
  have ok: "list_all tlv_ok ?ts" and code: "code \<notin> {DHO_PAD, DHO_DHCP_OPTION_OVERLOAD, DHO_END}"
    using assms(3,4) by (auto simp: full_opts_def nak_opts_def head_options_def lease_options_def host_option_def dhcp_consts
        str_bytes_def DHCP_HOST_NAME_STR_def)
  have find: "\<exists>i. tlv_find code DHCP_OPTS_POS ?ts = Some (i, v)" and lv: "length v < 256"
    using assms(3,4) by (auto simp: full_opts_def nak_opts_def head_options_def lease_options_def host_option_def dhcp_consts
        str_bytes_def DHCP_HOST_NAME_STR_def)
  have len: "length ?p = 242 + length (opts_bytes os) + pad_num (240 + length (opts_bytes os))"
    using length_bootp [OF assms(1,2)] by (simp add: reply_bytes_def)
  have small: "length (opts_bytes os) \<le> 60" using assms(3) opts_length by auto
  have "\<exists>found r. dhcpd_parse_option nullw ?p (length ?p) (Some \<lparr>opt_code = code, opt_len = 0, opt_value = None\<rparr>) = Some (found, Some r)
    \<and> (case tlv_find code DHCP_OPTS_POS ?ts of None \<Rightarrow> \<not> found
       | Some (i, v) \<Rightarrow> found \<and> opt_value r = Some i \<and> opt_len r = of_nat (length v) \<and> take (length v) (drop i ?p) = v)"
    using length_bootp [OF assms(1,2)] ok code len small pad_num_less [of "240 + length (opts_bytes os)"]
    by (intro parse_option_tlvs [of _ "bootp_bytes request yiaddr" ?ts "DHO_PAD # replicate (pad_num (240 + length (opts_bytes os))) DHO_PAD"])
      (simp_all add: reply_bytes_def ob [symmetric] BOOTP_ABSOLUTE_MIN_LEN_def DHCP_OPTS_POS_def del: map_map)
  then show ?thesis using find lv by (auto simp: fld_def unat_of_nat)
qed

text \<open>Every answer is one of these.\<close>

lemma answer_cases:
  assumes "dhcp_answer aton request t confirm d = (Some r, d')" "length request = DHCP_MAX_MTU"
    "\<forall>a. confirm = Some a \<longrightarrow> length a = 4" "pool_ok (sc_client_max (dh_config d)) (dh_pool d)"
  obtains ip pool k where "t = Some DHCP_DISCOVER \<and> k = DHCP_OFFER \<or> t = Some DHCP_INFORM \<and> k = DHCP_ACK \<or> t = Some DHCP_REQUEST \<and> k = DHCP_ACK"
      "dhcpd_ip_allocate (sc_client_max (dh_config d)) (dh_pool d) (client_mac request) (t = Some DHCP_REQUEST) = Some (ip, pool)"
      "d' = d\<lparr>dh_pool := pool\<rparr>" "r = reply_bytes request (le_bytes 4 ip) (full_opts aton (dh_config d) k)"
  | ip pool pool' where "t = Some DHCP_REQUEST" "dhcpd_ip_allocate (sc_client_max (dh_config d)) (dh_pool d) (client_mac request) True = Some (ip, pool)"
      "dhcpd_ip_release (sc_client_max (dh_config d)) pool (client_mac request) = Some pool'"
      "d' = d\<lparr>dh_pool := pool'\<rparr>" "r = reply_bytes request (replicate 4 0) (nak_opts (dh_config d))" "confirm \<noteq> Some (le_bytes 4 ip)"
proof -
  have rel: "dhcpd_ip_release (sc_client_max (dh_config d)) pool (client_mac request) \<noteq> None"
    if "dhcpd_ip_allocate (sc_client_max (dh_config d)) (dh_pool d) (client_mac request) True = Some (ip, pool)" for ip pool
    using allocate_ok(2) [OF that assms(4)] release_Some by blast
  show ?thesis using assms(1) that rel
    by (auto simp: dhcp_answer_def Let_def split: option.splits if_splits)
qed

text \<open>The state of a client that the answer is not for.\<close>

lemma answer_None: "dhcp_answer aton request t confirm d = (None, d') \<Longrightarrow> d' = d"
  by (auto simp: dhcp_answer_def Let_def split: option.splits if_splits)

lemma answer_keeps:
  assumes "dhcp_answer aton request t confirm d = (reply, d')" "length request = DHCP_MAX_MTU"
    "\<forall>a. confirm = Some a \<longrightarrow> length a = 4" "pool_ok (sc_client_max (dh_config d)) (dh_pool d)"
  shows "dh_config d' = dh_config d \<and> pool_ok (sc_client_max (dh_config d)) (dh_pool d')
    \<and> (\<forall>m x. m \<noteq> client_mac request \<longrightarrow> holds (sc_client_max (dh_config d)) (dh_pool d) m x
         \<longrightarrow> holds (sc_client_max (dh_config d)) (dh_pool d') m x)"
proof (cases reply)
  case None
  then show ?thesis using answer_None assms by blast
next
  case (Some r)
  from assms(1) [unfolded Some] assms(2-4) show ?thesis
  proof (cases rule: answer_cases)
    case (1 ip pool k)
    then show ?thesis using allocate_ok(1) [OF 1(2) assms(4)] allocate_keeps [OF 1(2) assms(4)] by simp
  next
    case (2 ip pool pool')
    have ok: "pool_ok (sc_client_max (dh_config d)) pool" by (rule allocate_ok(1) [OF 2(2) assms(4)])
    show ?thesis using release_keeps(1,2) [OF 2(3) ok] allocate_keeps [OF 2(2) assms(4)] 2(4) by simp
  qed
qed

section \<open>Properties of single answers\<close>


text \<open>A server as it is started, for the witnesses.\<close>

definition demo_cfg :: server_config where
  "demo_cfg = \<lparr>sc_server = 0x0104A8C0, sc_port = 67, sc_lease = 3600, sc_renew = 2880, sc_ip_start = 0x6404A8C0,
     sc_ip_end = 0x6704A8C0, sc_client_max = 4\<rparr>"

definition demo_dhcpd :: dhcpd_ctrl where
  "demo_dhcpd = snd (dhcpd_start (Some demo_cfg) True \<lparr>dh_flag = False, dh_config = demo_cfg,
     dh_pool = replicate 4 \<lparr>allocted = False, item_mac = replicate 6 0, item_ip = 0\<rparr>\<rparr>)"

lemma init_pool_ok:
  assumes "length pool = DHCPD_IP_POOL_SIZE"
  shows "pool_ok (sc_client_max cfg) (init_pool cfg pool)" and "\<not> holds (sc_client_max cfg) (init_pool cfg pool) mac ip"
proof -
  let ?n = "usable_num (sc_client_max cfg)"
  let ?b = "\<lambda>i. [le_bytes 4 (sc_server cfg) ! 0, le_bytes 4 (sc_server cfg) ! 1, le_bytes 4 (sc_server cfg) ! 2,
       le_bytes 4 (sc_ip_start cfg) ! 3 + of_nat i]"
  have n: "?n \<le> 4" "?n \<le> length pool" using assms usable_num_le [of "sc_client_max cfg"] by (simp_all add: DHCPD_IP_POOL_SIZE_def)
  have at: "init_pool cfg pool ! i = pool_item cfg i (pool ! i)" if "i < ?n" for i
    using that n by (simp add: init_pool_def)
  have inj: "i = j" if "(le_word (?b i) :: u32) = le_word (?b j)" "i < ?n" "j < ?n" for i j
  proof -
    have "?b i = ?b j" using le_word_inj [OF that(1), of 4] by simp
    then have "(of_nat i :: byte) = of_nat j" by simp
    then have "unat (of_nat i :: byte) = unat (of_nat j :: byte)" by simp
    then show ?thesis using that n by (simp add: unat_of_nat)
  qed
  have "distinct (map item_ip (take ?n (init_pool cfg pool)))"
    using n inj by (auto simp: distinct_conv_nth at pool_item_def init_pool_def [THEN arg_cong [of _ _ length]]
        simp del: le_word.simps)
  then show "pool_ok (sc_client_max cfg) (init_pool cfg pool)" using assms by (simp add: pool_ok_def init_pool_def)
  show "\<not> holds (sc_client_max cfg) (init_pool cfg pool) mac ip"
    by (auto simp: holds_def first_at_def at pool_item_def)
qed

lemma demo_dhcpd_ok: "pool_ok (sc_client_max (dh_config demo_dhcpd)) (dh_pool demo_dhcpd)" "dh_config demo_dhcpd = demo_cfg"
  using init_pool_ok(1) [of "replicate 4 \<lparr>allocted = False, item_mac = replicate 6 0, item_ip = 0\<rparr>" demo_cfg]
  by (simp_all add: demo_dhcpd_def dhcpd_start_def Let_def DHCPD_IP_POOL_SIZE_def) (simp_all add: demo_cfg_def)


text \<open>C31: An answer is a packet its receiver can read: it repeats the transaction and the hardware address of the
  request; the parser of the packets finds in it the type of the message and the address of the
  server; and an offer or an acknowledgement carries the address the pool now has for the client.\<close>

theorem dhcpd_answer_reads_back:
  assumes "dhcpd_handle_msg nullw aton recv_buff recv_len send_buff d = Some (Some r, d')"
    and "length recv_buff = DHCP_MAX_MTU" "length send_buff = DHCP_MAX_MTU" "recv_len \<le> 605"
    and "pool_ok (sc_client_max (dh_config d)) (dh_pool d)"
  shows "fld r 4 4 = fld recv_buff 4 4 \<and> fld r 28 16 = fld recv_buff 28 16
    \<and> (\<exists>k opt i. dhcpd_parse_option nullw r (length r) (Some \<lparr>opt_code = DHO_DHCP_MESSAGE_TYPE, opt_len = 0, opt_value = None\<rparr>)
          = Some (True, Some opt) \<and> opt_value opt = Some i \<and> fld r i 1 = [k]
        \<and> (k = DHCP_NAK \<or> k \<in> {DHCP_OFFER, DHCP_ACK} \<and>
            (\<exists>j. get_ip_item (sc_client_max (dh_config d)) (dh_pool d') (client_mac recv_buff) = Some j
              \<and> fld r 16 4 = le_bytes 4 (item_ip (dh_pool d' ! j)))))
    \<and> (\<exists>opt i. dhcpd_parse_option nullw r (length r) (Some \<lparr>opt_code = DHO_DHCP_SERVER_IDENTIFIER, opt_len = 0, opt_value = None\<rparr>)
          = Some (True, Some opt) \<and> opt_value opt = Some i \<and> fld r i 4 = le_bytes 4 (sc_server (dh_config d)))"
proof -
  let ?cm = "sc_client_max (dh_config d)"
  obtain t confirm where tc: "confirm_ipaddr nullw recv_buff recv_len = Some confirm"
    and ans: "dhcp_answer aton recv_buff t confirm d = (Some r, d')"
    using handle_answers [OF assms(2-5), of nullw aton] assms(1) by auto
  have len: "\<forall>a. confirm = Some a \<longrightarrow> length a = 4" using confirm_ok [OF assms(2,4), of nullw] tc by auto
  have b: "44 \<le> length recv_buff" using assms(2) by (simp add: DHCP_MAX_MTU_def)
  from ans assms(2) len assms(5) show ?thesis
  proof (cases rule: answer_cases)
    case (1 ip pool k)
    have l: "length (le_bytes 4 ip) = 4" by simp
    have os: "(DHO_DHCP_MESSAGE_TYPE, [k]) \<in> set (full_opts aton (dh_config d) k)"
      "(DHO_DHCP_SERVER_IDENTIFIER, le_bytes 4 (sc_server (dh_config d))) \<in> set (full_opts aton (dh_config d) k)"
      by (simp_all add: full_opts_def head_options_def)
    obtain j where "get_ip_item ?cm (dh_pool d') (client_mac recv_buff) = Some j" "item_ip (dh_pool d' ! j) = ip"
      using allocate_ok(2) [OF 1(2) assms(5)] 1(3) by (auto simp: get_ip_item_iff)
    moreover have "k \<in> {DHCP_OFFER, DHCP_ACK}" using 1(1) by auto
    ultimately show ?thesis
      using reply_option [OF b l _ os(1), of aton "dh_config d" k nullw] reply_option [OF b l _ os(2), of aton "dh_config d" k nullw]
        reply_fields [OF b l] 1(4) by auto
  next
    case (2 ip pool pool')
    have l: "length (replicate 4 (0 :: byte)) = 4" by simp
    have os: "(DHO_DHCP_MESSAGE_TYPE, [DHCP_NAK]) \<in> set (nak_opts (dh_config d))"
      "(DHO_DHCP_SERVER_IDENTIFIER, le_bytes 4 (sc_server (dh_config d))) \<in> set (nak_opts (dh_config d))"
      by (simp_all add: nak_opts_def head_options_def)
    show ?thesis
      using reply_option [OF b l _ os(1), of aton "dh_config d" 0 nullw] reply_option [OF b l _ os(2), of aton "dh_config d" 0 nullw]
        reply_fields [OF b l] 2(5) by auto
  qed
qed

section \<open>Runs\<close>

text \<open>What a client may take from an answer to its request: an acknowledgement gives it the address in the answer in
  place of any it had, a refusal takes its address away.\<close>

definition note_reply :: "byte option \<Rightarrow> byte list \<Rightarrow> byte list option \<Rightarrow> (byte list \<times> u32) set \<Rightarrow> (byte list \<times> u32) set" where
  "note_reply t request reply L = (case reply of None \<Rightarrow> L
     | Some r \<Rightarrow> if t \<noteq> Some DHCP_REQUEST then L
         else if fld r 242 1 = [DHCP_ACK] then insert (client_mac request, le_word (fld r 16 4)) (revoked (client_mac request) L)
         else revoked (client_mac request) L)"

inductive dhcp_run :: "bool \<Rightarrow> (string \<Rightarrow> u32) \<Rightarrow> dhcpd_ctrl \<Rightarrow> dhcpd_ctrl \<Rightarrow> (byte list \<times> u32) set \<Rightarrow> bool"
  for nullw aton d0 where
  started: "dhcp_run nullw aton d0 d0 {}"
| datagram: "dhcp_run nullw aton d0 d L \<Longrightarrow> length recv_buff = DHCP_MAX_MTU \<Longrightarrow> length send_buff = DHCP_MAX_MTU \<Longrightarrow> recv_len \<le> 605
    \<Longrightarrow> msg_type nullw recv_buff recv_len = Some t \<Longrightarrow> dhcpd_handle_msg nullw aton recv_buff recv_len send_buff d = Some (reply, d')
    \<Longrightarrow> dhcp_run nullw aton d0 d' (note_reply t recv_buff reply L)"
| leaves: "dhcp_run nullw aton d0 d L \<Longrightarrow> ethernetif_remove_station mac d = Some d' \<Longrightarrow> dhcp_run nullw aton d0 d' (revoked mac L)"

definition leases_held :: "dhcpd_ctrl \<Rightarrow> (byte list \<times> u32) set \<Rightarrow> bool" where
  "leases_held d L \<longleftrightarrow> pool_ok (sc_client_max (dh_config d)) (dh_pool d)
     \<and> leased (holds (sc_client_max (dh_config d))) (dh_pool d) L"

lemma run_datagram:
  assumes "leases_held d L" "length recv_buff = DHCP_MAX_MTU" "length send_buff = DHCP_MAX_MTU" "recv_len \<le> 605"
    "msg_type nullw recv_buff recv_len = Some t" "dhcpd_handle_msg nullw aton recv_buff recv_len send_buff d = Some (reply, d')"
  shows "leases_held d' (note_reply t recv_buff reply L)"
proof -
  let ?cm = "sc_client_max (dh_config d)" and ?mac = "client_mac recv_buff"
  have ok: "pool_ok ?cm (dh_pool d)" and L: "leased (holds ?cm) (dh_pool d) L" using assms(1) by (simp_all add: leases_held_def)
  obtain confirm where tc: "confirm_ipaddr nullw recv_buff recv_len = Some confirm"
    and ans: "dhcp_answer aton recv_buff t confirm d = (reply, d')"
    using handle_answers [OF assms(2-4) ok, of nullw aton] assms(5,6) by auto
  have len: "\<forall>a. confirm = Some a \<longrightarrow> length a = 4" using confirm_ok [OF assms(2,4), of nullw] tc by auto
  have b: "44 \<le> length recv_buff" using assms(2) by (simp add: DHCP_MAX_MTU_def)
  have l: "length (le_bytes 4 ip) = 4" "length (replicate 4 (0 :: byte)) = 4" for ip :: u32 by simp_all
  note keeps = answer_keeps [OF ans assms(2) len ok]
  have "leased (holds ?cm) (dh_pool d') (note_reply t recv_buff reply L)"
  proof (cases reply)
    case None
    then show ?thesis using answer_None [of aton recv_buff t confirm d d'] ans L by (simp add: note_reply_def)
  next
    case (Some r)
    from ans [unfolded Some] assms(2) len ok show ?thesis
    proof (cases rule: answer_cases)
      case (1 ip pool k)
      show ?thesis
      proof (cases "t = Some DHCP_REQUEST")
        case True
        then have "k = DHCP_ACK" using 1(1) by auto
        then have n: "note_reply t recv_buff reply L = insert (?mac, ip) (revoked ?mac L)"
          using True Some 1(4) reply_type [OF b l(1), of "full_opts aton (dh_config d) k"] reply_fields(2) [OF b l(1)]
          by (auto simp: note_reply_def)
        show ?thesis using pool.leased_grant [OF ok L] 1(2,3) True unfolding n by simp
      next
        case False
        then show ?thesis using pool.leased_offer [OF ok L] 1(2,3) Some by (simp add: note_reply_def)
      qed
    next
      case (2 ip pool pool')
      have "fld r 242 1 = [DHCP_NAK]" using 2(5) reply_type [OF b l(2), of "nak_opts (dh_config d)" _ "dh_config d" DHCP_NAK] by simp
      then show ?thesis using pool.leased_refuse [OF ok L 2(2,3)] 2(1,4) Some by (simp add: note_reply_def)
    qed
  qed
  then show ?thesis using keeps by (simp add: leases_held_def)
qed

lemma run_held:
  assumes "dhcp_run nullw aton d0 d L" "pool_ok (sc_client_max (dh_config d0)) (dh_pool d0)"
  shows "leases_held d L"
  using assms(1)
proof induction
  case started
  then show ?case using assms(2) by (simp add: leases_held_def leased_def)
next
  case (datagram d L recv_buff send_buff recv_len t reply d')
  then show ?case by (blast intro: run_datagram)
next
  case (leaves d L mac d')
  then obtain p where p: "dhcpd_ip_release (sc_client_max (dh_config d)) (dh_pool d) mac = Some p" "d' = d\<lparr>dh_pool := p\<rparr>"
    by (auto simp: ethernetif_remove_station_def split: bind_splits)
  then show ?case using leaves.IH pool.leased_free pool.free_ok by (auto simp: leases_held_def)
qed

text \<open>C8: No two clients hold the same address: in whatever order datagrams arrive and stations leave, the addresses
  acknowledged to clients and not taken back by a refusal or the client's leaving are pairwise
  different, a client has one, and it is taken in the pool under the client's hardware address.\<close>

theorem dhcp_leases_exclusive:
  assumes "dhcp_run nullw aton d0 d L" "pool_ok (sc_client_max (dh_config d0)) (dh_pool d0)"
  shows "inj_on snd L \<and> inj_on fst L \<and> (\<forall>(mac, ip) \<in> L. \<exists>i. get_ip_item (sc_client_max (dh_config d)) (dh_pool d) mac = Some i
    \<and> allocted (dh_pool d ! i) \<and> item_ip (dh_pool d ! i) = ip)"
proof -
  have held: "leases_held d L" by (rule run_held [OF assms])
  then have "inj_on snd L" using pool.leased_exclusive by (auto simp: leases_held_def)
  then show ?thesis using held by (fastforce simp: leases_held_def leased_def holds_def get_ip_item_iff)
qed

text \<open>A client keeps its address as long as it wants: whatever happened before, one that holds an address and asks for
  it again is answered with an acknowledgement of that address, and still holds it.\<close>

lemma dhcp_renewal:
  assumes "dhcp_run nullw aton d0 d L" "pool_ok (sc_client_max (dh_config d0)) (dh_pool d0)" "(client_mac recv_buff, ip) \<in> L"
    and "length recv_buff = DHCP_MAX_MTU" "length send_buff = DHCP_MAX_MTU" "recv_len \<le> 605"
    and "msg_type nullw recv_buff recv_len = Some (Some DHCP_REQUEST)" "confirm_ipaddr nullw recv_buff recv_len = Some (Some (le_bytes 4 ip))"
  shows "\<exists>r. dhcpd_handle_msg nullw aton recv_buff recv_len send_buff d = Some (Some r, d)
    \<and> fld r 242 1 = [DHCP_ACK] \<and> fld r 16 4 = le_bytes 4 ip"
proof -
  let ?cm = "sc_client_max (dh_config d)"
  have held: "leases_held d L" by (rule run_held [OF assms(1,2)])
  then have ok: "pool_ok ?cm (dh_pool d)" and ip: "holds ?cm (dh_pool d) (client_mac recv_buff) ip"
    using assms(3) by (auto simp: leases_held_def leased_def)
  let ?r = "reply_bytes recv_buff (le_bytes 4 ip) (full_opts aton (dh_config d) DHCP_ACK)"
  have "dhcp_answer aton recv_buff (Some DHCP_REQUEST) (Some (le_bytes 4 ip)) d = (Some ?r, d)"
    using pool.alloc_again [OF ok ip, of True] by (simp add: dhcp_answer_def Let_def)
  then have "dhcpd_handle_msg nullw aton recv_buff recv_len send_buff d = Some (Some ?r, d)"
    using handle_answers [OF assms(4-6) ok, of nullw aton] assms(7,8) by auto
  then show ?thesis
    using reply_type [of recv_buff "le_bytes 4 ip" "full_opts aton (dh_config d) DHCP_ACK" aton "dh_config d" DHCP_ACK]
      reply_fields(2) [of recv_buff "le_bytes 4 ip"] assms(4)
    by (auto simp: DHCP_MAX_MTU_def)
qed

section \<open>Concrete messages\<close>

text \<open>A message of a given type from a client, which asks for an address of the demo pool.\<close>

definition demo_hdr :: "byte list \<Rightarrow> byte list" where
  "demo_hdr mac = [1, 1, 6, 0] @ replicate 24 0 @ mac @ replicate 202 0"

definition demo_msg :: "byte \<Rightarrow> byte list \<Rightarrow> byte \<Rightarrow> byte list" where
  "demo_msg t mac x = demo_hdr mac @ htonl_bytes DHCP_MAGIC_COOKIE_U32
     @ concat (map tlv_bytes [Opt DHO_DHCP_MESSAGE_TYPE [t], Opt DHO_DHCP_REQUESTED_ADDRESS [192, 168, 4, x]]) @ DHO_END # replicate 358 0"

lemma demo_msg_simps:
  assumes "length mac = 6"
  shows "length (demo_msg t mac x) = DHCP_MAX_MTU" "client_mac (demo_msg t mac x) = mac"
    "msg_type True (demo_msg t mac x) 300 = Some (Some t)" "confirm_ipaddr True (demo_msg t mac x) 300 = Some (Some [192, 168, 4, x])"
proof -
  let ?p = "demo_msg t mac x" and ?ts = "[Opt DHO_DHCP_MESSAGE_TYPE [t], Opt DHO_DHCP_REQUESTED_ADDRESS [192, 168, 4, x]]"
  have h: "length (demo_hdr mac) = BOOTP_ABSOLUTE_MIN_LEN" using assms by (simp add: demo_hdr_def BOOTP_ABSOLUTE_MIN_LEN_def)
  show len: "length ?p = DHCP_MAX_MTU" using h by (simp add: demo_msg_def BOOTP_ABSOLUTE_MIN_LEN_def DHCP_MAX_MTU_def)
  show "client_mac ?p = mac" using assms by (simp add: client_mac_def demo_msg_def demo_hdr_def fld_def)
  have ok: "list_all tlv_ok ?ts" by (simp add: dhcp_consts)
  have parse: "\<exists>found r. dhcpd_parse_option True ?p 300 (Some \<lparr>opt_code = code, opt_len = 0, opt_value = None\<rparr>) = Some (found, Some r)
    \<and> (case tlv_find code DHCP_OPTS_POS ?ts of None \<Rightarrow> \<not> found
       | Some (i, v) \<Rightarrow> found \<and> opt_value r = Some i \<and> opt_len r = of_nat (length v) \<and> take (length v) (drop i ?p) = v)"
    if "code \<notin> {DHO_PAD, DHO_DHCP_OPTION_OVERLOAD, DHO_END}" for code
    by (rule parse_option_tlvs [OF _ h ok that]) (use h in \<open>simp_all add: demo_msg_def DHCP_OPTS_POS_def BOOTP_ABSOLUTE_MIN_LEN_def\<close>)
  have "parse_loop True ?p None FIELD_FLAG_OPTION 0 300 (length (demo_hdr mac @ htonl_bytes DHCP_MAGIC_COOKIE_U32)) 0
      = Some (tlv_result True None (length (demo_hdr mac @ htonl_bytes DHCP_MAGIC_COOKIE_U32)) ?ts)"
    by (rule parse_tlvs) (use ok h len in \<open>simp_all add: demo_msg_def request_ok_def BOOTP_ABSOLUTE_MIN_LEN_def DHCP_MAX_MTU_def\<close>)
  moreover have "buf_get ?p BOOTP_ABSOLUTE_MIN_LEN DHCP_MAGIC_COOKIE_LEN = Some (htonl_bytes DHCP_MAGIC_COOKIE_U32)"
    using h by (simp add: demo_msg_def buf_get_def DHCP_MAGIC_COOKIE_LEN_def)
  ultimately have check: "dhcpd_recv_packet_check True ?p 300 = Some True"
    using h by (simp add: dhcpd_recv_packet_check_def dhcpd_parse_option_def tlv_result_def dhcp_consts)
  have op: "buf_at ?p 0 = Some BOOT_REQUEST" by (simp add: demo_msg_def demo_hdr_def buf_at_def BOOT_REQUEST_def)
  have "DHO_DHCP_MESSAGE_TYPE \<notin> {DHO_PAD, DHO_DHCP_OPTION_OVERLOAD, DHO_END}" by (simp add: dhcp_consts)
  from parse [OF this] obtain r where "dhcpd_parse_option True ?p 300 (Some \<lparr>opt_code = DHO_DHCP_MESSAGE_TYPE, opt_len = 0, opt_value = None\<rparr>)
      = Some (True, Some r)" "opt_value r = Some 242" by (auto simp: DHCP_OPTS_POS_def)
  moreover have "buf_at ?p 242 = Some t" using h by (simp add: buf_at_def demo_msg_def BOOTP_ABSOLUTE_MIN_LEN_def nth_append)
  ultimately show "msg_type True ?p 300 = Some (Some t)" using op check by (simp add: msg_type_def)
  have "DHO_DHCP_REQUESTED_ADDRESS \<notin> {DHO_PAD, DHO_DHCP_OPTION_OVERLOAD, DHO_END}" by (simp add: dhcp_consts)
  from parse [OF this] obtain r where "dhcpd_parse_option True ?p 300 (Some \<lparr>opt_code = DHO_DHCP_REQUESTED_ADDRESS, opt_len = 0, opt_value = None\<rparr>)
      = Some (True, Some r)" "opt_value r = Some 245"
    by (auto simp: DHCP_OPTS_POS_def DHO_DHCP_MESSAGE_TYPE_def DHO_DHCP_REQUESTED_ADDRESS_def)
  moreover have "take 4 (drop 245 ?p) = [192, 168, 4, x]" using h by (simp add: demo_msg_def BOOTP_ABSOLUTE_MIN_LEN_def)
  ultimately show "confirm_ipaddr True ?p 300 = Some (Some [192, 168, 4, x])"
    using len by (simp add: confirm_ipaddr_def buf_get_def DHCP_MAX_MTU_def)
qed

text \<open>Two clients ask for the first two addresses of the started server.\<close>

definition demo_item :: "bool \<Rightarrow> byte \<Rightarrow> u32 \<Rightarrow> dhcpd_ip_item" where
  "demo_item a x ip = \<lparr>allocted = a, item_mac = (if a then [2, 0, 0, 0, 0, x] else [0, 0, 0, 0, 0, 0]), item_ip = ip\<rparr>"

definition demo_pool :: "bool \<Rightarrow> bool \<Rightarrow> dhcpd_ip_item list" where
  "demo_pool a b = [demo_item a 1 0x6404A8C0, demo_item b 2 0x6504A8C0, demo_item False 0 0x6604A8C0, demo_item False 0 0x6704A8C0]"

lemma demo_dhcpd_eq: "demo_dhcpd = \<lparr>dh_flag = True, dh_config = demo_cfg, dh_pool = demo_pool False False\<rparr>"
proof -
  have "[0..<4] = [0, 1, 2, 3 :: nat]" by (simp add: upt_rec)
  moreover have "replicate 4 x = [x, x, x, x]" "replicate 6 y = [y, y, y, y, y, y]" for x :: dhcpd_ip_item and y :: byte
    by (simp_all add: numeral_eq_Suc)
  ultimately show ?thesis
    by (simp add: demo_dhcpd_def dhcpd_start_def Let_def init_pool_def pool_item_def demo_cfg_def demo_pool_def demo_item_def
        usable_num_def DHCPD_IP_POOL_SIZE_def le_bytes_numeral)
qed

lemma demo_alloc:
  "dhcpd_ip_allocate 4 (demo_pool False False) [2, 0, 0, 0, 0, 1] True = Some (0x6404A8C0, demo_pool True False)"
  "dhcpd_ip_allocate 4 (demo_pool True False) [2, 0, 0, 0, 0, 2] True = Some (0x6504A8C0, demo_pool True True)"
  by (simp_all add: dhcpd_ip_allocate_def get_next_usable_ip_item_def usable_num_def DHCPD_IP_POOL_SIZE_def demo_pool_def demo_item_def
      is_mac_all_zero_def set_ip_item_status_def)

lemma demo_ack:
  assumes "length mac = 6" "dhcpd_ip_allocate 4 pool mac True = Some (ip, pool')" "le_bytes 4 ip = [192, 168, 4, x]" "pool_ok 4 pool"
  shows "\<exists>r. dhcpd_handle_msg True aton (demo_msg DHCP_REQUEST mac x) 300 (replicate 608 0) \<lparr>dh_flag = True, dh_config = demo_cfg, dh_pool = pool\<rparr>
      = Some (Some r, \<lparr>dh_flag = True, dh_config = demo_cfg, dh_pool = pool'\<rparr>) \<and> fld r 242 1 = [DHCP_ACK] \<and> fld r 16 4 = [192, 168, 4, x]"
proof -
  let ?d = "\<lparr>dh_flag = True, dh_config = demo_cfg, dh_pool = pool\<rparr>" and ?m = "demo_msg DHCP_REQUEST mac x"
  let ?r = "reply_bytes ?m [192, 168, 4, x] (full_opts aton demo_cfg DHCP_ACK)"
  have "dhcp_answer aton ?m (Some DHCP_REQUEST) (Some [192, 168, 4, x]) ?d = (Some ?r, ?d\<lparr>dh_pool := pool'\<rparr>)"
    using assms demo_msg_simps(2) [OF assms(1)] by (simp add: dhcp_answer_def Let_def demo_cfg_def)
  moreover have "pool_ok (sc_client_max (dh_config ?d)) (dh_pool ?d)" using assms(4) by (simp add: demo_cfg_def)
  ultimately have "dhcpd_handle_msg True aton ?m 300 (replicate 608 0) ?d = Some (Some ?r, ?d\<lparr>dh_pool := pool'\<rparr>)"
    using handle_answers [of ?m "replicate 608 0" 300 ?d True aton] demo_msg_simps [OF assms(1), of DHCP_REQUEST x]
    by (auto simp: DHCP_MAX_MTU_def)
  moreover have "fld ?r 242 1 = [DHCP_ACK]" "fld ?r 16 4 = [192, 168, 4, x]"
    using reply_type [of ?m "[192, 168, 4, x]" "full_opts aton demo_cfg DHCP_ACK" aton demo_cfg DHCP_ACK] reply_fields(2) [of ?m "[192, 168, 4, x]"]
      demo_msg_simps(1) [OF assms(1), of DHCP_REQUEST x] by (simp_all add: DHCP_MAX_MTU_def)
  ultimately show ?thesis by auto
qed

lemma demo_pool_ok: "pool_ok 4 (demo_pool a b)"
  by (simp add: pool_ok_def demo_pool_def demo_item_def usable_num_def DHCPD_IP_POOL_SIZE_def)

lemma demo_ip_bytes: "le_bytes 4 (0x6404A8C0 :: u32) = [192, 168, 4, 100]" "le_bytes 4 (0x6504A8C0 :: u32) = [192, 168, 4, 101]"
  by (simp_all add: le_bytes_numeral)

definition demo_leased :: dhcpd_ctrl where
  "demo_leased = \<lparr>dh_flag = True, dh_config = demo_cfg, dh_pool = demo_pool True True\<rparr>"

lemma demo_run: "dhcp_run True aton demo_dhcpd demo_leased {([2, 0, 0, 0, 0, 1], 0x6404A8C0), ([2, 0, 0, 0, 0, 2], 0x6504A8C0)}"
proof -
  let ?m1 = "[2, 0, 0, 0, 0, 1] :: byte list" and ?m2 = "[2, 0, 0, 0, 0, 2] :: byte list"
  have l: "length ?m1 = 6" "length ?m2 = 6" by simp_all
  let ?d1 = "\<lparr>dh_flag = True, dh_config = demo_cfg, dh_pool = demo_pool True False\<rparr>"
  obtain r1 where r1: "dhcpd_handle_msg True aton (demo_msg DHCP_REQUEST ?m1 100) 300 (replicate 608 0) demo_dhcpd = Some (Some r1, ?d1)"
    "fld r1 242 1 = [DHCP_ACK]" "fld r1 16 4 = [192, 168, 4, 100]"
    using demo_ack [OF l(1) demo_alloc(1) demo_ip_bytes(1) demo_pool_ok] demo_dhcpd_eq by auto
  obtain r2 where r2: "dhcpd_handle_msg True aton (demo_msg DHCP_REQUEST ?m2 101) 300 (replicate 608 0) ?d1 = Some (Some r2, demo_leased)"
    "fld r2 242 1 = [DHCP_ACK]" "fld r2 16 4 = [192, 168, 4, 101]"
    using demo_ack [OF l(2) demo_alloc(2) demo_ip_bytes(2) demo_pool_ok] unfolding demo_leased_def by blast
  have "length (replicate 608 (0 :: byte)) = DHCP_MAX_MTU" "(300 :: nat) \<le> 605" by (simp_all add: DHCP_MAX_MTU_def)
  note step = dhcp_run.datagram [OF _ demo_msg_simps(1) this demo_msg_simps(3)]
  have "dhcp_run True aton demo_dhcpd ?d1 {(?m1, 0x6404A8C0)}"
    using step [OF dhcp_run.started l(1) l(1) r1(1)] r1 demo_msg_simps(2) [OF l(1)] by (simp add: note_reply_def revoked_def)
  from step [OF this l(2) l(2) r2(1)] r2 demo_msg_simps(2) [OF l(2)] show ?thesis
    by (auto simp: note_reply_def revoked_def insert_commute elim!: back_subst [of "dhcp_run True aton demo_dhcpd demo_leased"])
qed

theorem dhcp_leases_exclusive_witness:
  "\<exists>d L. dhcp_run True (\<lambda>_. 0) demo_dhcpd d L \<and> ([2, 0, 0, 0, 0, 1], 0x6404A8C0) \<in> L
    \<and> ([2, 0, 0, 0, 0, 2], 0x6504A8C0) \<in> L \<and> inj_on snd L"
  using demo_run [of "\<lambda>_. 0"] dhcp_leases_exclusive [OF demo_run [of "\<lambda>_. 0"] demo_dhcpd_ok(1)] by blast

lemma dhcp_renewal_witness:
  "\<exists>r. dhcpd_handle_msg True (\<lambda>_. 0) (demo_msg DHCP_REQUEST [2, 0, 0, 0, 0, 1] 100) 300 (replicate 608 0) demo_leased = Some (Some r, demo_leased)
    \<and> fld r 16 4 = [192, 168, 4, 100]"
  using dhcp_renewal [OF demo_run [of "\<lambda>_. 0"] demo_dhcpd_ok(1), of "demo_msg DHCP_REQUEST [2, 0, 0, 0, 0, 1] 100" "0x6404A8C0"
      "replicate 608 0" 300] demo_msg_simps [of "[2, 0, 0, 0, 0, 1]" DHCP_REQUEST 100]
  by (auto simp: DHCP_MAX_MTU_def demo_ip_bytes)

theorem dhcpd_answer_reads_back_witness:
  "\<exists>r d'. dhcpd_handle_msg True (\<lambda>_. 0) (demo_msg DHCP_REQUEST [2, 0, 0, 0, 0, 1] 100) 300 (replicate 608 0) demo_dhcpd = Some (Some r, d')
    \<and> (\<exists>opt i. dhcpd_parse_option True r (length r) (Some \<lparr>opt_code = DHO_DHCP_SERVER_IDENTIFIER, opt_len = 0, opt_value = None\<rparr>)
          = Some (True, Some opt) \<and> opt_value opt = Some i \<and> fld r i 4 = [192, 168, 4, 1])"
proof -
  have l: "length ([2, 0, 0, 0, 0, 1] :: byte list) = 6" by simp
  obtain r d' where r: "dhcpd_handle_msg True (\<lambda>_. 0) (demo_msg DHCP_REQUEST [2, 0, 0, 0, 0, 1] 100) 300 (replicate 608 0) demo_dhcpd = Some (Some r, d')"
    using demo_ack [OF l demo_alloc(1) demo_ip_bytes(1) demo_pool_ok, of "\<lambda>_. 0"] demo_dhcpd_eq by auto
  have s: "le_bytes 4 (sc_server (dh_config demo_dhcpd)) = [192, 168, 4, 1]"
    by (simp add: demo_dhcpd_ok(2) demo_cfg_def le_bytes_numeral)
  show ?thesis using dhcpd_answer_reads_back [OF r demo_msg_simps(1) [OF l] _ _ demo_dhcpd_ok(1)] r s
    by (auto simp: DHCP_MAX_MTU_def)
qed

end
