(* ===== verification/Dhcpd_Faults.thy ===== *)
theory Dhcpd_Faults
  imports Dhcpd_Lease
begin

text \<open>
  Starting the DHCP server, and where it fails: a start refused for its configuration leaves the server marked
  as running, a station that leaves without having had an address is a write through the null pointer, and
  a datagram that fills the receive buffer can make the parser read past it.
\<close>

section \<open>Starting\<close>

definition config_ok :: "server_config \<Rightarrow> bool" where
  "config_ok cfg \<longleftrightarrow> sc_server cfg \<noteq> 0 \<and> sc_port cfg \<noteq> 0 \<and> sc_lease cfg \<noteq> 0 \<and> sc_renew cfg \<noteq> 0"

lemma start_pool:
  assumes "\<not> dh_flag d" "config_ok cfg" "length (dh_pool d) = DHCPD_IP_POOL_SIZE"
  shows "\<exists>d'. dhcpd_start (Some cfg) True d = (DHCPD_ERR_NONE, d') \<and> dhcpd_is_running d' \<and> dh_config d' = cfg
    \<and> pool_ok (sc_client_max cfg) (dh_pool d') \<and> (\<forall>mac ip. \<not> holds (sc_client_max cfg) (dh_pool d') mac ip)
    \<and> (\<forall>i < usable_num (sc_client_max cfg). le_bytes 4 (item_ip (dh_pool d' ! i))
         = take 3 (le_bytes 4 (sc_server cfg)) @ [le_bytes 4 (sc_ip_start cfg) ! 3 + of_nat i])"
proof -
  let ?d = "d\<lparr>dh_config := cfg, dh_flag := True, dh_pool := init_pool cfg (dh_pool d)\<rparr>"
  have st: "dhcpd_start (Some cfg) True d = (DHCPD_ERR_NONE, ?d)"
    using assms(1,2) by (simp add: dhcpd_start_def Let_def config_ok_def)
  have "le_bytes 4 (item_ip (dh_pool ?d ! i)) = take 3 (le_bytes 4 (sc_server cfg)) @ [le_bytes 4 (sc_ip_start cfg) ! 3 + of_nat i]"
    if "i < usable_num (sc_client_max cfg)" for i
  proof -
    have "i < length (dh_pool d)" using that usable_num_le [of "sc_client_max cfg"] assms(3) by linarith
    moreover have "take 3 bs = [bs ! 0, bs ! 1, bs ! 2]" if "length bs = 4" for bs :: "byte list"
      using that by (auto simp: list_eq_iff_nth_eq less_Suc_eq numeral_eq_Suc)
    ultimately show ?thesis using that by (simp add: init_pool_def pool_item_def del: le_word.simps)
  qed
  then show ?thesis using st init_pool_ok [OF assms(3), of cfg] by (simp add: dhcpd_is_running_def)
qed

text \<open>Starting a stopped server with a good configuration gives a running server with the pool the other properties
  ask for: its addresses are those from the start address on, in the network of the server and pairwise
  different, and no client holds one, whatever the pool held before.\<close>

lemma dhcpd_start_ready:
  assumes "\<not> dh_flag d" "config_ok cfg" "length (dh_pool d) = DHCPD_IP_POOL_SIZE"
  shows "\<exists>d'. dhcpd_start (Some cfg) True d = (DHCPD_ERR_NONE, d') \<and> dhcpd_is_running d' \<and> dh_config d' = cfg
    \<and> pool_ok (sc_client_max cfg) (dh_pool d') \<and> (\<forall>mac ip. \<not> holds (sc_client_max cfg) (dh_pool d') mac ip)
    \<and> (\<forall>i < usable_num (sc_client_max cfg). le_bytes 4 (item_ip (dh_pool d' ! i))
         = take 3 (le_bytes 4 (sc_server cfg)) @ [le_bytes 4 (sc_ip_start cfg) ! 3 + of_nat i])"
  by (rule start_pool [OF assms])

lemma dhcpd_start_ready_witness:
  "\<exists>d'. dhcpd_start (Some demo_cfg) True \<lparr>dh_flag = False, dh_config = demo_cfg,
       dh_pool = replicate 4 \<lparr>allocted = True, item_mac = replicate 6 1, item_ip = 0\<rparr>\<rparr> = (DHCPD_ERR_NONE, d')
    \<and> pool_ok 4 (dh_pool d')"
  using dhcpd_start_ready [of "\<lparr>dh_flag = False, dh_config = demo_cfg, dh_pool = replicate 4 \<lparr>allocted = True, item_mac = replicate 6 1, item_ip = 0\<rparr>\<rparr>" demo_cfg]
  by (auto simp: config_ok_def DHCPD_IP_POOL_SIZE_def demo_cfg_def)

text \<open>A start that is refused for its configuration leaves the server marked as running, with no task behind it: every
  later start fails with a state error, however good its configuration, until the server is stopped.\<close>

lemma dhcpd_start_refused_sticks:
  assumes "\<not> dh_flag d" "\<not> config_ok bad"
  shows "\<exists>d'. dhcpd_start (Some bad) True d = (DHCPD_ERR_INVALID_PARAM, d') \<and> dhcpd_is_running d'
    \<and> (\<forall>cfg thr. fst (dhcpd_start (Some cfg) thr d') = DHCPD_ERR_STATE)
    \<and> (\<forall>cfg. config_ok cfg \<longrightarrow> fst (dhcpd_start (Some cfg) True (snd (dhcpd_stop d'))) = DHCPD_ERR_NONE)"
  using assms by (auto simp: dhcpd_start_def Let_def config_ok_def dhcpd_is_running_def dhcpd_stop_def)

lemma dhcpd_start_refused_sticks_witness:
  "\<exists>d'. dhcpd_start (Some (demo_cfg\<lparr>sc_lease := 0\<rparr>)) True \<lparr>dh_flag = False, dh_config = demo_cfg, dh_pool = demo_pool False False\<rparr>
      = (DHCPD_ERR_INVALID_PARAM, d') \<and> fst (dhcpd_start (Some demo_cfg) True d') = DHCPD_ERR_STATE"
  using dhcpd_start_refused_sticks [of "\<lparr>dh_flag = False, dh_config = demo_cfg, dh_pool = demo_pool False False\<rparr>" "demo_cfg\<lparr>sc_lease := 0\<rparr>"]
  by (auto simp: config_ok_def)

section \<open>A station leaves\<close>

text \<open>When a station leaves, its address is freed if it has an item of the pool; if it has none, as a station that joined
  and never asked for an address, the release writes through the null pointer.\<close>

lemma station_leaves:
  assumes "pool_ok (sc_client_max (dh_config d)) (dh_pool d)"
  shows "if \<exists>it \<in> set (take (usable_num (sc_client_max (dh_config d))) (dh_pool d)). item_mac it = mac
    then \<exists>d'. ethernetif_remove_station mac d = Some d' \<and> (\<forall>ip. \<not> holds (sc_client_max (dh_config d)) (dh_pool d') mac ip)
    else ethernetif_remove_station mac d = None"
proof (cases "\<exists>it \<in> set (take (usable_num (sc_client_max (dh_config d))) (dh_pool d)). item_mac it = mac")
  case True
  then obtain i where "first_at (take (usable_num (sc_client_max (dh_config d))) (dh_pool d)) i mac" using first_at_ex by blast
  then obtain p where p: "dhcpd_ip_release (sc_client_max (dh_config d)) (dh_pool d) mac = Some p" using release_Some by blast
  then show ?thesis using True release_keeps(3) [OF p assms] by (simp add: ethernetif_remove_station_def)
next
  case False
  then have "get_ip_item (sc_client_max (dh_config d)) (dh_pool d) mac = None"
    using get_ip_item_iff first_at_not by (metis not_None_eq)
  then show ?thesis using False by (simp add: ethernetif_remove_station_def dhcpd_ip_release_def)
qed

lemma station_leaves_witness: "ethernetif_remove_station [2, 0, 0, 0, 0, 9] demo_dhcpd = None"
  using station_leaves [OF demo_dhcpd_ok(1), of "[2, 0, 0, 0, 0, 9]"]
  by (simp add: demo_dhcpd_eq demo_pool_def demo_item_def demo_cfg_def usable_num_def DHCPD_IP_POOL_SIZE_def)

section \<open>A datagram that fills the buffer\<close>

text \<open>Two options whose lengths lead the parser to the last byte of the receive buffer, which is taken as the code of an
  option whose length would be the next byte.\<close>

definition overrun_msg :: "byte list" where
  "overrun_msg = 1 # replicate 235 0 @ htonl_bytes DHCP_MAGIC_COOKIE_U32 @ [61, 255] @ replicate 255 0 @ [61, 108] @ replicate 108 0 @ [61]"

lemma dhcpd_reads_past_buffer:
  "length overrun_msg = DHCP_MAX_MTU \<and> dhcpd_handle_msg nullw aton overrun_msg DHCP_MAX_MTU send_buff d = None"
proof -
  have len: "length overrun_msg = 608" by (simp add: overrun_msg_def)
  have at: "overrun_msg ! 240 = 61" "overrun_msg ! 241 = 255" "overrun_msg ! 497 = 61" "overrun_msg ! 498 = 108" "overrun_msg ! 607 = 61"
    by (simp_all add: overrun_msg_def nth_append)
  have "parse_loop nullw overrun_msg None FIELD_FLAG_OPTION 0 608 607 0 = None"
    using at len by (subst parse_loop.simps) (simp add: option_match_def dhcp_consts buf_at_def)
  then have "parse_loop nullw overrun_msg None FIELD_FLAG_OPTION 0 608 497 0 = None"
    using at len by (subst parse_loop.simps) (simp add: option_match_def dhcp_consts buf_at_def)
  then have "parse_loop nullw overrun_msg None FIELD_FLAG_OPTION 0 608 240 0 = None"
    using at len by (subst parse_loop.simps) (simp add: option_match_def dhcp_consts buf_at_def)
  moreover have "buf_get overrun_msg BOOTP_ABSOLUTE_MIN_LEN DHCP_MAGIC_COOKIE_LEN = Some (htonl_bytes DHCP_MAGIC_COOKIE_U32)"
    by (simp add: overrun_msg_def buf_get_def BOOTP_ABSOLUTE_MIN_LEN_def DHCP_MAGIC_COOKIE_LEN_def)
  ultimately have "dhcpd_recv_packet_check nullw overrun_msg DHCP_MAX_MTU = None"
    by (simp add: dhcpd_recv_packet_check_def dhcpd_parse_option_def dhcp_consts)
  moreover have "buf_at overrun_msg 0 = Some BOOT_REQUEST" by (simp add: overrun_msg_def buf_at_def BOOT_REQUEST_def)
  ultimately have "msg_type nullw overrun_msg DHCP_MAX_MTU = None" by (simp add: msg_type_def)
  then show ?thesis using len by (simp add: dhcpd_handle_msg_def dhcpd_dispatch_def DHCP_MAX_MTU_def)
qed

end
