(* ===== verification/Sys_Param.thy ===== *)
theory Sys_Param
  imports Kv_Port Kv_Room Art_String Dhcpd_Faults
begin

unbundle bit_operations_syntax

text \<open>
  The system parameters, \<^verbatim>\<open>components/utils/system_parameter.c\<close> with the defaults of \<^verbatim>\<open>dflt_param_tab.h\<close>: structures that are kept as
  values of the key-value store.  A structure is passed as its memory image; \<open>None\<close> is a failed
  assertion or an access outside an object.  Enumerations take one byte, as the ABI of the target has it.
\<close>

section \<open>Keys and structures\<close>

named_theorems key_defs \<open>the keys of the parameters\<close>

definition KV_SYSTEM_PARAMETER_MODE :: "byte list" where [key_defs]: "KV_SYSTEM_PARAMETER_MODE = str_bytes ''kv_mode''"
definition KV_SYSTEM_PARAMETER_CCODE :: "byte list" where [key_defs]: "KV_SYSTEM_PARAMETER_CCODE = str_bytes ''kv_ccode''"
definition KV_SYSTEM_PARAMETER_ADDR :: "byte list" where [key_defs]: "KV_SYSTEM_PARAMETER_ADDR = str_bytes ''kv_addr''"
definition KV_SYSTEM_PARAMETER_AP_ADDR :: "byte list" where [key_defs]: "KV_SYSTEM_PARAMETER_AP_ADDR = str_bytes ''kv_ap_addr''"
definition KV_SYSTEM_PARAMETER_HNAME :: "byte list" where [key_defs]: "KV_SYSTEM_PARAMETER_HNAME = str_bytes ''kv_hostname''"
definition KV_SYSTEM_PARAMETER_AP_HNAME :: "byte list" where [key_defs]: "KV_SYSTEM_PARAMETER_AP_HNAME = str_bytes ''kv_ap_hname''"
definition KV_SYSTEM_PARAMETER_CONFIG :: "byte list" where [key_defs]: "KV_SYSTEM_PARAMETER_CONFIG = str_bytes ''kv_wifi_cfg''"
definition KV_SYSTEM_PARAMETER_AP_CONFIG :: "byte list" where [key_defs]: "KV_SYSTEM_PARAMETER_AP_CONFIG = str_bytes ''kv_ap_cfg''"
definition KV_SYSTEM_PARAMETER_IP_INFO :: "byte list" where [key_defs]: "KV_SYSTEM_PARAMETER_IP_INFO = str_bytes ''kv_ip_info''"
definition KV_SYSTEM_PARAMETER_AP_IP_INFO :: "byte list" where [key_defs]: "KV_SYSTEM_PARAMETER_AP_IP_INFO = str_bytes ''kv_ap_ip_info''"
definition KV_SYSTEM_PARAMETER_SERVER_CONFIG :: "byte list" where [key_defs]: "KV_SYSTEM_PARAMETER_SERVER_CONFIG = str_bytes ''kv_server_cfg''"

datatype wifi_interface_enum = STATION_IF | SOFT_AP_IF | MONITOR_IF | WIFI_IF_NUM

definition WIFI_MODE_STATION :: byte where "WIFI_MODE_STATION = 0"
definition WIFI_MODE_MAX :: byte where "WIFI_MODE_MAX = 4"
definition CTRY_CODE_CN :: byte where "CTRY_CODE_CN = 0"
definition CTRY_CODE_MAX :: byte where "CTRY_CODE_MAX = 4"
definition WIFI_AUTH_OPEN :: byte where "WIFI_AUTH_OPEN = 0"
definition WIFI_AUTH_WPA2_PSK :: byte where "WIFI_AUTH_WPA2_PSK = 3"
definition SSID_MAX_LEN :: nat where "SSID_MAX_LEN = 33"
definition PASSWORD_MAX_LEN :: nat where "PASSWORD_MAX_LEN = 64"
definition MAC_ADDRESS_LEN :: nat where "MAC_ADDRESS_LEN = 6"
definition NETIF_HOSTNAME_LEN_MAX :: nat where "NETIF_HOSTNAME_LEN_MAX = 8"

record wifi_sta_config =
  sta_ssid :: "byte list"
  sta_password :: "byte list"
  sta_bssid :: "byte list"
  sta_channel :: u8
  sta_bssid_set :: u8

record wifi_ap_config =
  ap_ssid :: "byte list"
  ap_password :: "byte list"
  ap_ssid_len :: u8
  ap_channel :: u8
  ap_authmode :: u8
  ap_ssid_hidden :: u8
  ap_max_connection :: u8
  ap_beacon_interval :: u16
  ap_reserved :: u16

text \<open>The union of the two is as long as the longer one.\<close>

definition sizeof_wifi_config :: nat where "sizeof_wifi_config = 106"

definition sta_image :: "wifi_sta_config \<Rightarrow> byte list" where
  "sta_image c = sta_ssid c @ sta_password c @ sta_bssid c @ [sta_channel c, sta_bssid_set c, 0]"

definition ap_image :: "wifi_ap_config \<Rightarrow> byte list" where
  "ap_image c = ap_ssid c @ ap_password c @ [ap_ssid_len c, ap_channel c, ap_authmode c, ap_ssid_hidden c, ap_max_connection c]
     @ le_bytes 2 (ap_beacon_interval c) @ le_bytes 2 (ap_reserved c)"

record tcpip_ip_info =
  ii_ip :: u32
  ii_netmask :: u32
  ii_gw :: u32

definition sizeof_tcpip_ip_info :: nat where "sizeof_tcpip_ip_info = 12"

definition ip_info_image :: "tcpip_ip_info \<Rightarrow> byte list" where
  "ip_info_image c = le_bytes 4 (ii_ip c) @ le_bytes 4 (ii_netmask c) @ le_bytes 4 (ii_gw c)"

definition sizeof_server_config :: nat where "sizeof_server_config = 28"

text \<open>The port is followed by two bytes of padding and the number of clients by three.\<close>

definition server_config_image :: "server_config \<Rightarrow> byte list" where
  "server_config_image c = le_bytes 4 (sc_server c) @ le_bytes 2 (sc_port c) @ [0, 0] @ le_bytes 4 (sc_lease c) @ le_bytes 4 (sc_renew c)
     @ le_bytes 4 (sc_ip_start c) @ le_bytes 4 (sc_ip_end c) @ [sc_client_max c, 0, 0, 0]"

definition server_config_of_bytes :: "byte list \<Rightarrow> server_config" where
  "server_config_of_bytes b = \<lparr>sc_server = le_word (fld b 0 4), sc_port = le_word (fld b 4 2), sc_lease = le_word (fld b 8 4),
     sc_renew = le_word (fld b 12 4), sc_ip_start = le_word (fld b 16 4), sc_ip_end = le_word (fld b 20 4), sc_client_max = b ! 24\<rparr>"

section \<open>Getting and setting\<close>

text \<open>What every setter and getter does with its key: an error of the store comes back negated.  The getter copies the value over
  the start of the object.\<close>

definition param_set :: "'d kv_flash_ctl \<Rightarrow> byte list \<Rightarrow> byte list \<Rightarrow> nat \<Rightarrow> 'd kv_st \<Rightarrow> (int \<times> 'd kv_st) option" where
  "param_set fc key obj n s =
     (if length obj < n then None
      else do {
        (ret, s) \<leftarrow> ln_kv_set fc (Some key) (Some (take n obj)) s;
        Some (if ret \<noteq> KV_ERR_NONE then - 1 * kv_err_code ret else 0, s) })"

definition param_get :: "'d kv_flash_ctl \<Rightarrow> byte list \<Rightarrow> nat \<Rightarrow> byte list \<Rightarrow> 'd kv_st \<Rightarrow> (int \<times> byte list \<times> 'd kv_st) option" where
  "param_get fc key n obj s =
     (case ln_kv_get fc (Some key) (Some n) True s of (ret, _, bs, s) \<Rightarrow>
        if length obj < length bs then None
        else Some (if ret \<noteq> KV_ERR_NONE then - 1 * kv_err_code ret else 0, bs @ drop (length bs) obj, s))"

definition system_parameter_set_macaddr ::
  "'d kv_flash_ctl \<Rightarrow> wifi_interface_enum \<Rightarrow> byte list option \<Rightarrow> 'd kv_st \<Rightarrow> (int \<times> 'd kv_st) option" where
  "system_parameter_set_macaddr fc if_index macaddr s = do {
     mac \<leftarrow> macaddr;
     if if_index = STATION_IF then param_set fc KV_SYSTEM_PARAMETER_ADDR mac MAC_ADDRESS_LEN s
     else if if_index = SOFT_AP_IF then param_set fc KV_SYSTEM_PARAMETER_AP_ADDR mac MAC_ADDRESS_LEN s
     else Some (0, s) }"

definition system_parameter_get_macaddr ::
  "'d kv_flash_ctl \<Rightarrow> wifi_interface_enum \<Rightarrow> byte list option \<Rightarrow> 'd kv_st \<Rightarrow> (int \<times> byte list \<times> 'd kv_st) option" where
  "system_parameter_get_macaddr fc if_index macaddr s = do {
     mac \<leftarrow> macaddr;
     if if_index = STATION_IF then param_get fc KV_SYSTEM_PARAMETER_ADDR MAC_ADDRESS_LEN mac s
     else if if_index = SOFT_AP_IF then param_get fc KV_SYSTEM_PARAMETER_AP_ADDR MAC_ADDRESS_LEN mac s
     else Some (0, mac, s) }"

definition system_parameter_set_config ::
  "'d kv_flash_ctl \<Rightarrow> wifi_interface_enum \<Rightarrow> byte list option \<Rightarrow> 'd kv_st \<Rightarrow> (int \<times> 'd kv_st) option" where
  "system_parameter_set_config fc if_index config s = do {
     cfg \<leftarrow> config;
     if if_index = STATION_IF then param_set fc KV_SYSTEM_PARAMETER_CONFIG cfg sizeof_wifi_config s
     else if if_index = SOFT_AP_IF then param_set fc KV_SYSTEM_PARAMETER_AP_CONFIG cfg sizeof_wifi_config s
     else Some (0, s) }"

definition system_parameter_get_config ::
  "'d kv_flash_ctl \<Rightarrow> wifi_interface_enum \<Rightarrow> byte list option \<Rightarrow> 'd kv_st \<Rightarrow> (int \<times> byte list \<times> 'd kv_st) option" where
  "system_parameter_get_config fc if_index config s = do {
     cfg \<leftarrow> config;
     if if_index = STATION_IF then param_get fc KV_SYSTEM_PARAMETER_CONFIG sizeof_wifi_config cfg s
     else if if_index = SOFT_AP_IF then param_get fc KV_SYSTEM_PARAMETER_AP_CONFIG sizeof_wifi_config cfg s
     else Some (0, cfg, s) }"

definition system_parameter_set_ip_config ::
  "'d kv_flash_ctl \<Rightarrow> wifi_interface_enum \<Rightarrow> byte list option \<Rightarrow> 'd kv_st \<Rightarrow> (int \<times> 'd kv_st) option" where
  "system_parameter_set_ip_config fc if_index ip_config s = do {
     cfg \<leftarrow> ip_config;
     if if_index = STATION_IF then param_set fc KV_SYSTEM_PARAMETER_IP_INFO cfg sizeof_tcpip_ip_info s
     else if if_index = SOFT_AP_IF then param_set fc KV_SYSTEM_PARAMETER_AP_IP_INFO cfg sizeof_tcpip_ip_info s
     else Some (0, s) }"

definition system_parameter_get_ip_config ::
  "'d kv_flash_ctl \<Rightarrow> wifi_interface_enum \<Rightarrow> byte list option \<Rightarrow> 'd kv_st \<Rightarrow> (int \<times> byte list \<times> 'd kv_st) option" where
  "system_parameter_get_ip_config fc if_index ip_config s = do {
     cfg \<leftarrow> ip_config;
     if if_index = STATION_IF then param_get fc KV_SYSTEM_PARAMETER_IP_INFO sizeof_tcpip_ip_info cfg s
     else if if_index = SOFT_AP_IF then param_get fc KV_SYSTEM_PARAMETER_AP_IP_INFO sizeof_tcpip_ip_info cfg s
     else Some (0, cfg, s) }"

definition system_parameter_set_wifi_mode :: "'d kv_flash_ctl \<Rightarrow> byte \<Rightarrow> 'd kv_st \<Rightarrow> (int \<times> 'd kv_st) option" where
  "system_parameter_set_wifi_mode fc wifi_mode s = param_set fc KV_SYSTEM_PARAMETER_MODE [wifi_mode] 1 s"

definition system_parameter_get_wifi_mode :: "'d kv_flash_ctl \<Rightarrow> 'd kv_st \<Rightarrow> (byte \<times> 'd kv_st) option" where
  "system_parameter_get_wifi_mode fc s = do {
     (ret, buf, s) \<leftarrow> param_get fc KV_SYSTEM_PARAMETER_MODE 1 [WIFI_MODE_MAX] s;
     Some (hd buf, s) }"

definition system_parameter_set_country_code :: "'d kv_flash_ctl \<Rightarrow> byte \<Rightarrow> 'd kv_st \<Rightarrow> (int \<times> 'd kv_st) option" where
  "system_parameter_set_country_code fc ccode s = param_set fc KV_SYSTEM_PARAMETER_CCODE [ccode] 1 s"

definition system_parameter_get_country_code :: "'d kv_flash_ctl \<Rightarrow> 'd kv_st \<Rightarrow> (byte \<times> 'd kv_st) option" where
  "system_parameter_get_country_code fc s = do {
     (ret, buf, s) \<leftarrow> param_get fc KV_SYSTEM_PARAMETER_CCODE 1 [CTRY_CODE_MAX] s;
     Some (hd buf, s) }"

text \<open>A host name is stored without its terminating zero.\<close>

definition system_parameter_set_hostname ::
  "'d kv_flash_ctl \<Rightarrow> wifi_interface_enum \<Rightarrow> byte list option \<Rightarrow> 'd kv_st \<Rightarrow> (int \<times> 'd kv_st) option" where
  "system_parameter_set_hostname fc if_index hostname s =
     (if if_index = STATION_IF then do {
        h \<leftarrow> hostname; n \<leftarrow> c_strlen h; param_set fc KV_SYSTEM_PARAMETER_HNAME h n s }
      else if if_index = SOFT_AP_IF then do {
        h \<leftarrow> hostname; n \<leftarrow> c_strlen h; param_set fc KV_SYSTEM_PARAMETER_AP_HNAME h n s }
      else Some (0, s))"

text \<open>The getter passes the null pointer on to the store, which refuses it.\<close>

definition system_parameter_get_hostname ::
  "'d kv_flash_ctl \<Rightarrow> wifi_interface_enum \<Rightarrow> byte list option \<Rightarrow> 'd kv_st \<Rightarrow> (int \<times> byte list option \<times> 'd kv_st) option" where
  "system_parameter_get_hostname fc if_index hostname s =
     (let get = (\<lambda>key. case hostname of
        None \<Rightarrow> Some (- 1 * kv_err_code KV_ERR_INVALID_PARAM, None, s)
      | Some h \<Rightarrow> do { (ret, h, s) \<leftarrow> param_get fc key NETIF_HOSTNAME_LEN_MAX h s; Some (ret, Some h, s) }) in
      if if_index = STATION_IF then get KV_SYSTEM_PARAMETER_HNAME
      else if if_index = SOFT_AP_IF then get KV_SYSTEM_PARAMETER_AP_HNAME
      else Some (0, hostname, s))"

definition system_parameter_set_dhcpd_config :: "'d kv_flash_ctl \<Rightarrow> byte list option \<Rightarrow> 'd kv_st \<Rightarrow> (int \<times> 'd kv_st) option" where
  "system_parameter_set_dhcpd_config fc server_config s = do {
     cfg \<leftarrow> server_config;
     param_set fc KV_SYSTEM_PARAMETER_SERVER_CONFIG cfg sizeof_server_config s }"

definition system_parameter_get_dhcpd_config ::
  "'d kv_flash_ctl \<Rightarrow> byte list option \<Rightarrow> 'd kv_st \<Rightarrow> (int \<times> byte list \<times> 'd kv_st) option" where
  "system_parameter_get_dhcpd_config fc server_config s = do {
     cfg \<leftarrow> server_config;
     param_get fc KV_SYSTEM_PARAMETER_SERVER_CONFIG sizeof_server_config cfg s }"

section \<open>Defaults\<close>

definition WIFI_MODE_DEFAULT :: byte where "WIFI_MODE_DEFAULT = WIFI_MODE_STATION"
definition WIFI_AP_SSID_DEFAULT :: "byte list" where "WIFI_AP_SSID_DEFAULT = str_bytes ''LN8826''"
definition WIFI_AP_PASSWORD_DEFAULT :: "byte list" where "WIFI_AP_PASSWORD_DEFAULT = str_bytes ''12345678''"
definition WIFI_AP_CHANNEL_DEFAULT :: u8 where "WIFI_AP_CHANNEL_DEFAULT = 7"
definition WIFI_AP_AUTH_MODE_DEFAULT :: u8 where "WIFI_AP_AUTH_MODE_DEFAULT = WIFI_AUTH_OPEN"
definition WIFI_AP_SSID_HIDDEN_DEFAULT :: u8 where "WIFI_AP_SSID_HIDDEN_DEFAULT = 0"
definition WIFI_AP_MAX_CONNECTION_DEFAULT :: u8 where "WIFI_AP_MAX_CONNECTION_DEFAULT = 3"
definition WIFI_AP_BEACON_INTERVAL_DEFAULT :: u16 where "WIFI_AP_BEACON_INTERVAL_DEFAULT = 100"
definition STA_HOSTNAME :: "byte list" where "STA_HOSTNAME = str_bytes ''wifi_sta''"
definition AP_HOSTNAME :: "byte list" where "AP_HOSTNAME = str_bytes ''wifi_ap''"

text \<open>The macros \<^verbatim>\<open>IP_ADDR0\<close> to \<^verbatim>\<open>AP_MAC_ADDR5\<close>, as the four or six bytes of each address.\<close>

definition IP_ADDR :: "byte list" where "IP_ADDR = [192, 168, 1, 20]"
definition NETMASK_ADDR :: "byte list" where "NETMASK_ADDR = [255, 255, 255, 0]"
definition GW_ADDR :: "byte list" where "GW_ADDR = [192, 168, 1, 1]"
definition MAC_ADDR :: "byte list" where "MAC_ADDR = [0x00, 0x50, 0xC2, 0x5E, 0x10, 0x8D]"
definition AP_IP_ADDR :: "byte list" where "AP_IP_ADDR = [192, 168, 1, 1]"
definition AP_NETMASK_ADDR :: "byte list" where "AP_NETMASK_ADDR = [255, 255, 255, 0]"
definition AP_GW_ADDR :: "byte list" where "AP_GW_ADDR = take 3 AP_IP_ADDR @ [1]"
definition AP_MAC_ADDR :: "byte list" where "AP_MAC_ADDR = take 5 MAC_ADDR @ [0x8B]"
definition DHCPD_IP_LEASE_TIME :: u32 where "DHCPD_IP_LEASE_TIME = 2880"
definition DHCPD_IP_RENEW_TIME :: u32 where "DHCPD_IP_RENEW_TIME = 2880"
definition DHCPD_LISTEN_PORT :: u16 where "DHCPD_LISTEN_PORT = 67"
definition DHCPD_CLIENT_MAX :: u8 where "DHCPD_CLIENT_MAX = WIFI_AP_MAX_CONNECTION_DEFAULT"

definition DHCPD_IP_START :: u32 where
  "DHCPD_IP_START = push_bit 24 100 OR push_bit 16 1 OR push_bit 8 168 OR 192"
definition DHCPD_IP_END :: u32 where
  "DHCPD_IP_END = push_bit 24 102 OR push_bit 16 1 OR push_bit 8 168 OR 192"

text \<open>A fixed-size array filled by \<^verbatim>\<open>memset\<close> and then by \<^verbatim>\<open>memcpy\<close>.\<close>

definition filled :: "nat \<Rightarrow> byte list \<Rightarrow> byte list" where
  "filled n bs = bs @ replicate (n - length bs) 0"

definition system_parameter_get_wifi_config_default :: "wifi_interface_enum \<Rightarrow> byte list" where
  "system_parameter_get_wifi_config_default if_index =
     (if if_index = STATION_IF then
        sta_image \<lparr>sta_ssid = filled SSID_MAX_LEN [], sta_password = filled PASSWORD_MAX_LEN [], sta_bssid = filled MAC_ADDRESS_LEN [],
          sta_channel = 1, sta_bssid_set = 0\<rparr>
      else
        let len = (if length WIFI_AP_PASSWORD_DEFAULT < PASSWORD_MAX_LEN then length WIFI_AP_PASSWORD_DEFAULT else PASSWORD_MAX_LEN);
            password = filled PASSWORD_MAX_LEN (take len WIFI_AP_PASSWORD_DEFAULT) in
        ap_image \<lparr>ap_ssid = filled SSID_MAX_LEN WIFI_AP_SSID_DEFAULT, ap_password = password,
          ap_ssid_len = of_nat (length WIFI_AP_SSID_DEFAULT), ap_channel = WIFI_AP_CHANNEL_DEFAULT,
          ap_authmode = (if length (c_str password) > 0 then WIFI_AUTH_WPA2_PSK else WIFI_AP_AUTH_MODE_DEFAULT),
          ap_ssid_hidden = WIFI_AP_SSID_HIDDEN_DEFAULT, ap_max_connection = WIFI_AP_MAX_CONNECTION_DEFAULT,
          ap_beacon_interval = WIFI_AP_BEACON_INTERVAL_DEFAULT, ap_reserved = 0\<rparr>)"

definition system_parameter_get_wifi_macaddr_default :: "wifi_interface_enum \<Rightarrow> byte list" where
  "system_parameter_get_wifi_macaddr_default if_index = (if if_index = STATION_IF then MAC_ADDR else AP_MAC_ADDR)"

definition system_parameter_get_ip_config_default :: "wifi_interface_enum \<Rightarrow> byte list" where
  "system_parameter_get_ip_config_default if_index = ip_info_image
     (if if_index = STATION_IF
      then \<lparr>ii_ip = le_word IP_ADDR, ii_netmask = le_word NETMASK_ADDR, ii_gw = le_word GW_ADDR\<rparr>
      else \<lparr>ii_ip = le_word AP_IP_ADDR, ii_netmask = le_word AP_NETMASK_ADDR, ii_gw = le_word AP_GW_ADDR\<rparr>)"

definition default_server_config :: server_config where
  "default_server_config = \<lparr>sc_server = le_word AP_IP_ADDR, sc_port = DHCPD_LISTEN_PORT, sc_lease = DHCPD_IP_LEASE_TIME,
     sc_renew = DHCPD_IP_RENEW_TIME, sc_ip_start = DHCPD_IP_START, sc_ip_end = DHCPD_IP_END, sc_client_max = DHCPD_CLIENT_MAX\<rparr>"

definition system_parameter_get_dhcpd_config_default :: "byte list" where
  "system_parameter_get_dhcpd_config_default = server_config_image default_server_config"

text \<open>The default host name is copied over the start of the array, without a zero.\<close>

definition system_parameter_get_hostname_default :: "wifi_interface_enum \<Rightarrow> byte list \<Rightarrow> byte list option" where
  "system_parameter_get_hostname_default if_index hostname =
     (let name = (if if_index = STATION_IF then STA_HOSTNAME else AP_HOSTNAME) in
      if length hostname < length name then None else Some (name @ drop (length name) hostname))"

section \<open>Start-up\<close>

text \<open>The stages of \<^verbatim>\<open>system_parameter_init\<close>, each for one parameter: if it cannot be read, its default is stored.  The local
  copies are zeroed at the start.  \<open>trng\<close> is the random word for a MAC address.\<close>

definition init_wifi_mode :: "'d kv_flash_ctl \<Rightarrow> 'd kv_st \<Rightarrow> 'd kv_st option" where
  "init_wifi_mode fc s = do {
     (mode, s) \<leftarrow> system_parameter_get_wifi_mode fc s;
     if WIFI_MODE_MAX = mode then do { (_, s) \<leftarrow> system_parameter_set_wifi_mode fc WIFI_MODE_DEFAULT s; Some s }
     else Some s }"

definition init_country_code :: "'d kv_flash_ctl \<Rightarrow> 'd kv_st \<Rightarrow> 'd kv_st option" where
  "init_country_code fc s = do {
     (ccode, s) \<leftarrow> system_parameter_get_country_code fc s;
     if CTRY_CODE_MAX = ccode then do { (_, s) \<leftarrow> system_parameter_set_country_code fc CTRY_CODE_CN s; Some s }
     else Some s }"

definition init_macaddr :: "'d kv_flash_ctl \<Rightarrow> wifi_interface_enum \<Rightarrow> u32 \<Rightarrow> 'd kv_st \<Rightarrow> 'd kv_st option" where
  "init_macaddr fc if_index trng s = do {
     (ret, addr, s) \<leftarrow> system_parameter_get_macaddr fc if_index (Some (replicate MAC_ADDRESS_LEN 0)) s;
     if ret < 0 then do {
       (_, addr) \<leftarrow> ln_generate_random_mac trng (Some addr);
       (_, s) \<leftarrow> system_parameter_set_macaddr fc if_index addr s;
       Some s }
     else Some s }"

definition init_hostname :: "'d kv_flash_ctl \<Rightarrow> wifi_interface_enum \<Rightarrow> 'd kv_st \<Rightarrow> 'd kv_st option" where
  "init_hostname fc if_index s = do {
     (ret, hostname, s) \<leftarrow> system_parameter_get_hostname fc if_index (Some (replicate (NETIF_HOSTNAME_LEN_MAX + 1) 0)) s;
     if ret < 0 then do {
       hostname \<leftarrow> system_parameter_get_hostname_default if_index (the hostname);
       (_, s) \<leftarrow> system_parameter_set_hostname fc if_index (Some hostname) s;
       Some s }
     else Some s }"

definition init_config :: "'d kv_flash_ctl \<Rightarrow> wifi_interface_enum \<Rightarrow> 'd kv_st \<Rightarrow> 'd kv_st option" where
  "init_config fc if_index s = do {
     (ret, config, s) \<leftarrow> system_parameter_get_config fc if_index (Some (replicate sizeof_wifi_config 0)) s;
     if ret < 0 then do {
       (_, s) \<leftarrow> system_parameter_set_config fc if_index (Some (system_parameter_get_wifi_config_default if_index)) s;
       Some s }
     else Some s }"

definition init_ip_config :: "'d kv_flash_ctl \<Rightarrow> wifi_interface_enum \<Rightarrow> 'd kv_st \<Rightarrow> 'd kv_st option" where
  "init_ip_config fc if_index s = do {
     (ret, ip_info, s) \<leftarrow> system_parameter_get_ip_config fc if_index (Some (replicate sizeof_tcpip_ip_info 0)) s;
     if ret < 0 then do {
       (_, s) \<leftarrow> system_parameter_set_ip_config fc if_index (Some (system_parameter_get_ip_config_default if_index)) s;
       Some s }
     else Some s }"

definition system_parameter_init :: "'d kv_flash_ctl \<Rightarrow> u32 \<Rightarrow> u32 \<Rightarrow> 'd kv_st \<Rightarrow> (int \<times> 'd kv_st) option" where
  "system_parameter_init fc trng1 trng2 s = do {
     s \<leftarrow> init_wifi_mode fc s;
     s \<leftarrow> init_country_code fc s;
     s \<leftarrow> init_macaddr fc STATION_IF trng1 s;
     s \<leftarrow> init_macaddr fc SOFT_AP_IF trng2 s;
     s \<leftarrow> init_hostname fc STATION_IF s;
     s \<leftarrow> init_hostname fc SOFT_AP_IF s;
     s \<leftarrow> init_config fc STATION_IF s;
     s \<leftarrow> init_config fc SOFT_AP_IF s;
     s \<leftarrow> init_ip_config fc STATION_IF s;
     s \<leftarrow> init_ip_config fc SOFT_AP_IF s;
     (ret, _, s) \<leftarrow> system_parameter_get_dhcpd_config fc (Some (replicate sizeof_server_config 0)) s;
     s \<leftarrow> (if ret < 0 then do {
         (_, s) \<leftarrow> system_parameter_set_dhcpd_config fc (Some system_parameter_get_dhcpd_config_default) s;
         Some s }
       else Some s);
     Some (ret, s) }"

text \<open>The start of the DHCP server reads its configuration in place; what cannot be read stays as it was.\<close>

definition dhcpd_start_stored ::
  "'d kv_flash_ctl \<Rightarrow> bool \<Rightarrow> 'd kv_st \<Rightarrow> dhcpd_ctrl \<Rightarrow> (ln_dhcpd_err \<times> dhcpd_ctrl \<times> 'd kv_st) option" where
  "dhcpd_start_stored fc thr s d = do {
     (_, cfg, s) \<leftarrow> system_parameter_get_dhcpd_config fc (Some (server_config_image (dh_config d))) s;
     let (err, d) = dhcpd_start (Some (server_config_of_bytes cfg)) thr d in Some (err, d, s) }"

end
