(* ===== verification/Sys_Param_Props.thy ===== *)
theory Sys_Param_Props
  imports Sys_Param
begin

unbundle bit_operations_syntax

text \<open>
  What the system parameters promise: a parameter that was set is got back and no other one changes;
  start-up gives a default to every parameter that cannot be read and touches no other; and
  after the first start of a device every parameter is there and the DHCP server runs on the
  stored configuration.
\<close>

section \<open>A parameter in the store\<close>

text \<open>What reading a key into an object with room for \<open>n\<close> bytes gives when the store holds \<open>m\<close>.\<close>

definition fetched :: "(byte list \<rightharpoonup> byte list) \<Rightarrow> byte list \<Rightarrow> nat \<Rightarrow> byte list \<Rightarrow> int \<times> byte list" where
  "fetched m k n obj = (case m k of None \<Rightarrow> (- 61, obj)
     | Some v \<Rightarrow> if n < length v then (- 10, obj) else (0, v @ drop (length v) obj))"

context kv_store
begin

lemma param_get_spec:
  assumes "kv_inv fc cells s m" "length k < 255" "n \<le> length obj"
  shows "\<exists>s'. param_get fc k n obj s = Some (fst (fetched m k n obj), snd (fetched m k n obj), s')
    \<and> kv_inv fc cells s' m \<and> dev s' = dev s"
proof -
  obtain err vlen buf s' where g: "ln_kv_get fc (Some k) (Some n) True s = (err, vlen, buf, s')" by (metis prod_cases4)
  show ?thesis using get_refines [OF assms(1,2) g] g assms(3)
    by (auto simp: param_get_def fetched_def split: option.splits if_splits)
qed

lemma param_set_spec:
  assumes "kv_inv fc cells s m" "kv_clean k (take n obj)" "24 + (length k + n) \<le> FS" "n \<le> length obj"
  shows "\<exists>ret s'. param_set fc k obj n s = Some (ret, s') \<and> same_outside fc (cells (dev s)) (cells (dev s'))
    \<and> (ret = 0 \<and> kv_inv fc cells s' (m(k \<mapsto> take n obj)) \<or> ret = - 51 \<and> kv_inv fc cells s' m)"
proof -
  obtain err s' where st: "ln_kv_set fc (Some k) (Some (take n obj)) s = Some (err, s')"
    "same_outside fc (cells (dev s)) (cells (dev s'))"
    "err = KV_ERR_NONE \<and> kv_inv fc cells s' (m(k \<mapsto> take n obj)) \<or> err = KV_ERR_INSUFFICIENT_SPACE \<and> kv_inv fc cells s' m"
    using set_refines [OF assms(1,2)] assms(3,4) by auto
  then show ?thesis using assms(4) by (auto simp: param_set_def)
qed

lemma param_get_room:
  assumes "kv_room s m r" "length k < 255" "n \<le> length obj"
  shows "param_get fc k n obj s = Some (fst (fetched m k n obj), snd (fetched m k n obj), s)"
  using get_room [OF assms(1,2), of n] assms(3) by (auto simp: param_get_def fetched_def split: option.splits)

lemma param_set_room:
  assumes "kv_room s m (24 + (length k + n) + r)" "m k = None" "kv_clean k (take n obj)" "n \<le> length obj"
  shows "\<exists>s'. param_set fc k obj n s = Some (0, s') \<and> kv_room s' (m(k \<mapsto> take n obj)) r
    \<and> same_outside fc (cells (dev s)) (cells (dev s'))"
  using set_room [of s m k "take n obj" r] assms by (auto simp: param_set_def min_absorb2)

end

section \<open>A stage of the start-up\<close>

text \<open>A parameter: its key, the size it is read with, the object it is read into, and the value that is stored when
  \<open>p_lacks\<close> holds of what was read.\<close>

record sys_param =
  p_key :: "byte list"
  p_size :: nat
  p_init :: "byte list"
  p_default :: "byte list"
  p_lacks :: "int \<Rightarrow> byte list \<Rightarrow> bool"

definition missing :: "(byte list \<rightharpoonup> byte list) \<Rightarrow> sys_param \<Rightarrow> bool" where
  "missing m p \<longleftrightarrow> (case fetched m (p_key p) (p_size p) (p_init p) of (ret, obj) \<Rightarrow> p_lacks p ret obj)"

definition param_stage :: "'d kv_flash_ctl \<Rightarrow> sys_param \<Rightarrow> 'd kv_st \<Rightarrow> (int \<times> 'd kv_st) option" where
  "param_stage fc p s = do {
     (ret, obj, s) \<leftarrow> param_get fc (p_key p) (p_size p) (p_init p) s;
     if p_lacks p ret obj then do {
       (_, s) \<leftarrow> param_set fc (p_key p) (p_default p) (length (p_default p)) s;
       Some (ret, s) }
     else Some (ret, s) }"

fun param_stages :: "'d kv_flash_ctl \<Rightarrow> sys_param list \<Rightarrow> int \<Rightarrow> 'd kv_st \<Rightarrow> (int \<times> 'd kv_st) option" where
  "param_stages fc [] ret s = Some (ret, s)"
| "param_stages fc (p # ps) ret s = do { (ret, s) \<leftarrow> param_stage fc p s; param_stages fc ps ret s }"

definition param_ok :: "sys_param \<Rightarrow> bool" where
  "param_ok p \<longleftrightarrow> kv_clean (p_key p) (p_default p) \<and> p_size p \<le> length (p_init p)
     \<and> length (p_key p) + length (p_default p) \<le> 200 \<and> p_lacks p (- 61) (p_init p)"

text \<open>\<open>m'\<close> is \<open>m\<close> with defaults for some of the parameters that are missing in it.\<close>

definition defaulted :: "sys_param list \<Rightarrow> (byte list \<rightharpoonup> byte list) \<Rightarrow> (byte list \<rightharpoonup> byte list) \<Rightarrow> bool" where
  "defaulted ps m m' \<longleftrightarrow> (\<forall>k. m' k = m k \<or> (\<exists>p\<in>set ps. p_key p = k \<and> missing m p \<and> m' k = Some (p_default p)))"

definition all_defaults :: "sys_param list \<Rightarrow> (byte list \<rightharpoonup> byte list)" where
  "all_defaults ps = map_of (map (\<lambda>p. (p_key p, p_default p)) ps)"

lemma missing_cong: "m (p_key p) = m' (p_key p) \<Longrightarrow> missing m p \<longleftrightarrow> missing m' p"
  by (simp add: missing_def fetched_def)

lemma defaulted_Cons:
  assumes "distinct (map p_key (p # ps))" "defaulted [p] m m1" "defaulted ps m1 m'"
  shows "defaulted (p # ps) m m'"
  unfolding defaulted_def
proof
  fix k
  have eq: "m1 (p_key q) = m (p_key q)" if "q \<in> set ps" for q
  proof -
    have "p_key q \<noteq> p_key p" using assms(1) that by (metis distinct.simps(2) image_eqI list.set_map list.simps(9))
    then show ?thesis using assms(2) unfolding defaulted_def by force
  qed
  consider "m' k = m1 k" | q where "q \<in> set ps" "p_key q = k" "missing m1 q" "m' k = Some (p_default q)"
    using assms(3) unfolding defaulted_def by blast
  then show "m' k = m k \<or> (\<exists>q\<in>set (p # ps). p_key q = k \<and> missing m q \<and> m' k = Some (p_default q))"
  proof cases
    case 1
    then show ?thesis using assms(2) unfolding defaulted_def by auto
  next
    case 2
    then show ?thesis using missing_cong [of m1 q m] eq [of q] by auto
  qed
qed

lemma kv_clean_len: "kv_clean k v \<Longrightarrow> length k < 255"
  by (simp add: kv_clean_def)

context kv_store
begin

lemma stage_spec:
  assumes "kv_inv fc cells s m" "param_ok p" "224 \<le> FS"
  shows "\<exists>s' m'. param_stage fc p s = Some (fst (fetched m (p_key p) (p_size p) (p_init p)), s')
    \<and> kv_inv fc cells s' m' \<and> same_outside fc (cells (dev s)) (cells (dev s'))
    \<and> defaulted [p] m m' \<and> (\<not> missing m p \<longrightarrow> dev s' = dev s)"
proof -
  let ?f = "fetched m (p_key p) (p_size p) (p_init p)"
  have ok: "length (p_key p) < 255" "p_size p \<le> length (p_init p)" "kv_clean (p_key p) (p_default p)"
    "24 + (length (p_key p) + length (p_default p)) \<le> FS"
    using assms(2,3) by (auto simp: param_ok_def dest: kv_clean_len)
  obtain s1 where g: "param_get fc (p_key p) (p_size p) (p_init p) s = Some (fst ?f, snd ?f, s1)"
    "kv_inv fc cells s1 m" "dev s1 = dev s" using param_get_spec [OF assms(1) ok(1,2)] by blast
  show ?thesis
  proof (cases "missing m p")
    case True
    then have l: "p_lacks p (fst ?f) (snd ?f)" by (simp add: missing_def case_prod_beta)
    obtain ret s2 where st: "param_set fc (p_key p) (p_default p) (length (p_default p)) s1 = Some (ret, s2)"
      "same_outside fc (cells (dev s1)) (cells (dev s2))"
      "kv_inv fc cells s2 (m(p_key p \<mapsto> p_default p)) \<or> kv_inv fc cells s2 m"
      using param_set_spec [OF g(2), of "p_key p" "length (p_default p)" "p_default p"] ok by auto
    have "defaulted [p] m m" "defaulted [p] m (m(p_key p \<mapsto> p_default p))" using True by (simp_all add: defaulted_def)
    then show ?thesis using g l st True by (auto simp: param_stage_def)
  next
    case False
    then have "\<not> p_lacks p (fst ?f) (snd ?f)" by (simp add: missing_def case_prod_beta)
    then show ?thesis using g by (auto simp: param_stage_def defaulted_def same_outside_refl)
  qed
qed

lemma stages_spec:
  assumes "kv_inv fc cells s m" "list_all param_ok ps" "distinct (map p_key ps)" "224 \<le> FS"
  shows "\<exists>s' m'. param_stages fc ps ret s
      = Some (if ps = [] then ret else fst (fetched m (p_key (last ps)) (p_size (last ps)) (p_init (last ps))), s')
    \<and> kv_inv fc cells s' m' \<and> same_outside fc (cells (dev s)) (cells (dev s'))
    \<and> defaulted ps m m' \<and> ((\<forall>p\<in>set ps. \<not> missing m p) \<longrightarrow> dev s' = dev s)"
  using assms
proof (induction ps arbitrary: s m ret)
  case Nil
  then show ?case by (auto simp: defaulted_def same_outside_refl)
next
  case (Cons p ps)
  let ?f = "fetched m (p_key p) (p_size p) (p_init p)"
  obtain s1 m1 where s1: "param_stage fc p s = Some (fst ?f, s1)" "kv_inv fc cells s1 m1"
    "same_outside fc (cells (dev s)) (cells (dev s1))" "defaulted [p] m m1" "\<not> missing m p \<Longrightarrow> dev s1 = dev s"
    using stage_spec [OF Cons.prems(1) _ Cons.prems(4), of p] Cons.prems(2) by auto
  obtain s2 m2 where s2: "param_stages fc ps (fst ?f) s1
      = Some (if ps = [] then fst ?f else fst (fetched m1 (p_key (last ps)) (p_size (last ps)) (p_init (last ps))), s2)"
    "kv_inv fc cells s2 m2" "same_outside fc (cells (dev s1)) (cells (dev s2))" "defaulted ps m1 m2"
    "(\<forall>p\<in>set ps. \<not> missing m1 p) \<Longrightarrow> dev s2 = dev s1"
    using Cons.IH [OF s1(2), of "fst ?f"] Cons.prems(2-4) by auto
  have same: "m1 (p_key q) = m (p_key q)" if "q \<in> set ps" for q
    using s1(4) Cons.prems(3) that by (auto simp: defaulted_def image_iff)
  have l: "fetched m1 (p_key (last ps)) n z = fetched m (p_key (last ps)) n z" if "ps \<noteq> []" for n z
    using same [of "last ps"] that by (simp add: fetched_def)
  have "(\<forall>q\<in>set (p # ps). \<not> missing m q) \<longrightarrow> dev s2 = dev s"
    using s1(5) s2(5) same missing_cong by (metis list.set_intros)
  then show ?case
    using s1(1,3) s2(1-3) l defaulted_Cons [OF Cons.prems(3) s1(4) s2(4)]
    by (auto intro: same_outside_trans)
qed

lemma stages_room:
  assumes "kv_room s m (\<Sum>p\<leftarrow>ps. 24 + (length (p_key p) + length (p_default p)))" "list_all param_ok ps"
    and "distinct (map p_key ps)" "\<And>p. p \<in> set ps \<Longrightarrow> m (p_key p) = None"
  shows "\<exists>s'. param_stages fc ps ret s = Some (if ps = [] then ret else - 61, s')
    \<and> kv_room s' (m ++ all_defaults ps) 0 \<and> same_outside fc (cells (dev s)) (cells (dev s'))"
  using assms
proof (induction ps arbitrary: s m ret)
  case Nil
  then show ?case by (auto simp: all_defaults_def same_outside_refl)
next
  case (Cons p ps)
  let ?r = "\<Sum>p\<leftarrow>ps. 24 + (length (p_key p) + length (p_default p))"
  have ok: "length (p_key p) < 255" "p_size p \<le> length (p_init p)" "kv_clean (p_key p) (p_default p)" "p_lacks p (- 61) (p_init p)"
    using Cons.prems(2) by (auto simp: param_ok_def dest: kv_clean_len)
  have none: "m (p_key p) = None" using Cons.prems(4) by simp
  have g: "param_get fc (p_key p) (p_size p) (p_init p) s = Some (- 61, p_init p, s)"
    using param_get_room [OF Cons.prems(1) ok(1,2)] none by (simp add: fetched_def)
  obtain s1 where s1: "param_set fc (p_key p) (p_default p) (length (p_default p)) s = Some (0, s1)"
    "kv_room s1 (m(p_key p \<mapsto> p_default p)) ?r" "same_outside fc (cells (dev s)) (cells (dev s1))"
    using param_set_room [of s m "p_key p" "length (p_default p)" ?r "p_default p"] Cons.prems(1) none ok(3) by auto
  have nn: "(m(p_key p \<mapsto> p_default p)) (p_key q) = None" if "q \<in> set ps" for q
    using Cons.prems(3,4) that by (auto simp: image_iff)
  have "\<exists>s'. param_stages fc ps (- 61) s1 = Some (if ps = [] then - 61 else - 61, s')
      \<and> kv_room s' (m(p_key p \<mapsto> p_default p) ++ all_defaults ps) 0 \<and> same_outside fc (cells (dev s1)) (cells (dev s'))"
    by (rule Cons.IH [OF s1(2)]) (use Cons.prems(2,3) nn in simp_all)
  then obtain s2 where s2: "param_stages fc ps (- 61) s1 = Some (- 61, s2)"
    "kv_room s2 (m(p_key p \<mapsto> p_default p) ++ all_defaults ps) 0" "same_outside fc (cells (dev s1)) (cells (dev s2))"
    by (metis (full_types))
  have "p_key p \<notin> dom (all_defaults ps)" using Cons.prems(3) by (auto simp: all_defaults_def dom_map_of_conv_image_fst image_iff)
  then have "m(p_key p \<mapsto> p_default p) ++ all_defaults ps = m ++ all_defaults (p # ps)"
    by (simp add: all_defaults_def map_add_upd_left)
  then show ?case using g s1 s2 ok(4) by (auto simp: param_stage_def intro: same_outside_trans)
qed

end

section \<open>Start-up is a list of stages\<close>

definition reading_fails :: "int \<Rightarrow> byte list \<Rightarrow> bool" where
  "reading_fails ret obj \<longleftrightarrow> ret < 0"

definition random_mac :: "u32 \<Rightarrow> byte list" where
  "random_mac trng = LN_MAC_OUI @ take 3 (le_bytes 4 trng)"

text \<open>The parameters in the order of \<^verbatim>\<open>system_parameter_init\<close>.\<close>

definition sys_params :: "u32 \<Rightarrow> u32 \<Rightarrow> sys_param list" where
  "sys_params trng1 trng2 =
     [\<lparr>p_key = KV_SYSTEM_PARAMETER_MODE, p_size = 1, p_init = [WIFI_MODE_MAX], p_default = [WIFI_MODE_STATION],
        p_lacks = \<lambda>ret obj. hd obj = WIFI_MODE_MAX\<rparr>,
      \<lparr>p_key = KV_SYSTEM_PARAMETER_CCODE, p_size = 1, p_init = [CTRY_CODE_MAX], p_default = [CTRY_CODE_CN],
        p_lacks = \<lambda>ret obj. hd obj = CTRY_CODE_MAX\<rparr>,
      \<lparr>p_key = KV_SYSTEM_PARAMETER_ADDR, p_size = 6, p_init = replicate 6 0, p_default = random_mac trng1, p_lacks = reading_fails\<rparr>,
      \<lparr>p_key = KV_SYSTEM_PARAMETER_AP_ADDR, p_size = 6, p_init = replicate 6 0, p_default = random_mac trng2, p_lacks = reading_fails\<rparr>,
      \<lparr>p_key = KV_SYSTEM_PARAMETER_HNAME, p_size = 8, p_init = replicate 9 0, p_default = STA_HOSTNAME, p_lacks = reading_fails\<rparr>,
      \<lparr>p_key = KV_SYSTEM_PARAMETER_AP_HNAME, p_size = 8, p_init = replicate 9 0, p_default = AP_HOSTNAME, p_lacks = reading_fails\<rparr>,
      \<lparr>p_key = KV_SYSTEM_PARAMETER_CONFIG, p_size = 106, p_init = replicate 106 0,
        p_default = system_parameter_get_wifi_config_default STATION_IF, p_lacks = reading_fails\<rparr>,
      \<lparr>p_key = KV_SYSTEM_PARAMETER_AP_CONFIG, p_size = 106, p_init = replicate 106 0,
        p_default = system_parameter_get_wifi_config_default SOFT_AP_IF, p_lacks = reading_fails\<rparr>,
      \<lparr>p_key = KV_SYSTEM_PARAMETER_IP_INFO, p_size = 12, p_init = replicate 12 0,
        p_default = system_parameter_get_ip_config_default STATION_IF, p_lacks = reading_fails\<rparr>,
      \<lparr>p_key = KV_SYSTEM_PARAMETER_AP_IP_INFO, p_size = 12, p_init = replicate 12 0,
        p_default = system_parameter_get_ip_config_default SOFT_AP_IF, p_lacks = reading_fails\<rparr>,
      \<lparr>p_key = KV_SYSTEM_PARAMETER_SERVER_CONFIG, p_size = 28, p_init = replicate 28 0,
        p_default = system_parameter_get_dhcpd_config_default, p_lacks = reading_fails\<rparr>]"

text \<open>The bytes of the defaults.\<close>

lemmas default_defs = WIFI_MODE_STATION_def WIFI_MODE_MAX_def CTRY_CODE_MAX_def CTRY_CODE_CN_def STA_HOSTNAME_def AP_HOSTNAME_def
  random_mac_def LN_MAC_OUI_def system_parameter_get_ip_config_default_def ip_info_image_def IP_ADDR_def NETMASK_ADDR_def GW_ADDR_def
  AP_IP_ADDR_def AP_NETMASK_ADDR_def AP_GW_ADDR_def system_parameter_get_dhcpd_config_default_def server_config_image_def
  default_server_config_def DHCPD_LISTEN_PORT_def DHCPD_IP_LEASE_TIME_def DHCPD_IP_RENEW_TIME_def DHCPD_IP_START_def DHCPD_IP_END_def
  DHCPD_CLIENT_MAX_def WIFI_AP_MAX_CONNECTION_DEFAULT_def

lemmas wifi_default_defs = system_parameter_get_wifi_config_default_def sta_image_def ap_image_def filled_def SSID_MAX_LEN_def
  PASSWORD_MAX_LEN_def MAC_ADDRESS_LEN_def WIFI_AP_SSID_DEFAULT_def WIFI_AP_PASSWORD_DEFAULT_def WIFI_AP_CHANNEL_DEFAULT_def
  WIFI_AP_SSID_HIDDEN_DEFAULT_def WIFI_AP_MAX_CONNECTION_DEFAULT_def WIFI_AP_BEACON_INTERVAL_DEFAULT_def WIFI_AUTH_WPA2_PSK_def

lemma default_lengths [simp]:
  "length (random_mac r) = 6" "length STA_HOSTNAME = 8" "length AP_HOSTNAME = 7"
  "length (system_parameter_get_wifi_config_default STATION_IF) = 106" "length (system_parameter_get_wifi_config_default SOFT_AP_IF) = 106"
  "length (system_parameter_get_ip_config_default if_index) = 12" "length system_parameter_get_dhcpd_config_default = 28"
  by (simp_all add: default_defs wifi_default_defs Let_def str_bytes_def)

lemma hostname_default_c_str:
  "c_str (STA_HOSTNAME @ [0]) = STA_HOSTNAME" "c_str (AP_HOSTNAME @ [0, 0]) = AP_HOSTNAME"
  by (simp_all add: STA_HOSTNAME_def AP_HOSTNAME_def str_bytes_def c_str_def of_char_def)

lemma param_get_length: "param_get fc k n obj s = Some (ret, obj', s') \<Longrightarrow> length obj' = length obj"
  by (auto simp: param_get_def split: prod.splits if_splits)

lemma param_get_fails:
  assumes "param_get fc k n obj s = Some (ret, obj', s')" "ret < 0"
  shows "obj' = obj"
proof -
  obtain err vlen buf s1 where g: "ln_kv_get fc (Some k) (Some n) True s = (err, vlen, buf, s1)" by (metis prod_cases4)
  have "err \<noteq> KV_ERR_NONE" using assms g by (auto simp: param_get_def split: if_splits)
  then have "buf = []" using g by (auto simp: ln_kv_get_def Let_def split: option.splits prod.splits if_splits)
  then show ?thesis using assms(1) g by (auto simp: param_get_def)
qed

lemma init_stages:
  "init_wifi_mode fc s = map_option snd (param_stage fc (sys_params r1 r2 ! 0) s)"
  "init_country_code fc s = map_option snd (param_stage fc (sys_params r1 r2 ! 1) s)"
  "init_config fc STATION_IF s = map_option snd (param_stage fc (sys_params r1 r2 ! 6) s)"
  "init_config fc SOFT_AP_IF s = map_option snd (param_stage fc (sys_params r1 r2 ! 7) s)"
  "init_ip_config fc STATION_IF s = map_option snd (param_stage fc (sys_params r1 r2 ! 8) s)"
  "init_ip_config fc SOFT_AP_IF s = map_option snd (param_stage fc (sys_params r1 r2 ! 9) s)"
  by (auto simp: sys_params_def param_stage_def init_wifi_mode_def init_country_code_def init_config_def init_ip_config_def
      system_parameter_get_wifi_mode_def system_parameter_set_wifi_mode_def WIFI_MODE_DEFAULT_def
      system_parameter_get_country_code_def system_parameter_set_country_code_def
      system_parameter_get_config_def system_parameter_set_config_def sizeof_wifi_config_def
      system_parameter_get_ip_config_def system_parameter_set_ip_config_def sizeof_tcpip_ip_info_def
      reading_fails_def split: Option.bind_splits)

lemma init_mac_stages:
  "init_macaddr fc STATION_IF r1 s = map_option snd (param_stage fc (sys_params r1 r2 ! 2) s)"
  "init_macaddr fc SOFT_AP_IF r2 s = map_option snd (param_stage fc (sys_params r1 r2 ! 3) s)"
  by (auto simp: sys_params_def param_stage_def init_macaddr_def system_parameter_get_macaddr_def MAC_ADDRESS_LEN_def
      system_parameter_set_macaddr_def reading_fails_def ln_generate_random_mac_def random_mac_def LN_MAC_OUI_def
      split: Option.bind_splits dest!: param_get_length)

lemma init_hostname_stages:
  "init_hostname fc STATION_IF s = map_option snd (param_stage fc (sys_params r1 r2 ! 4) s)"
  "init_hostname fc SOFT_AP_IF s = map_option snd (param_stage fc (sys_params r1 r2 ! 5) s)"
proof -
  have tk: "param_set fc k (STA_HOSTNAME @ [0]) 8 s = param_set fc k STA_HOSTNAME 8 s"
    "param_set fc k (AP_HOSTNAME @ [0, 0]) 7 s = param_set fc k AP_HOSTNAME 7 s" for k s
    by (simp_all add: param_set_def)
  have z: "drop 8 (replicate 9 (0 :: byte)) = [0]" "drop 7 (replicate 9 (0 :: byte)) = [0, 0]" "replicate 2 (0 :: byte) = [0, 0]" by (simp_all add: numeral_eq_Suc)
  have "system_parameter_set_hostname fc STATION_IF (Some (STA_HOSTNAME @ [0])) s' = param_set fc KV_SYSTEM_PARAMETER_HNAME STA_HOSTNAME 8 s'"
    "system_parameter_set_hostname fc SOFT_AP_IF (Some (AP_HOSTNAME @ [0, 0])) s' = param_set fc KV_SYSTEM_PARAMETER_AP_HNAME AP_HOSTNAME 7 s'" for s'
    by (simp_all add: system_parameter_set_hostname_def c_strlen_def hostname_default_c_str tk)
  then show "init_hostname fc STATION_IF s = map_option snd (param_stage fc (sys_params r1 r2 ! 4) s)"
    "init_hostname fc SOFT_AP_IF s = map_option snd (param_stage fc (sys_params r1 r2 ! 5) s)"
    by (auto simp: sys_params_def param_stage_def init_hostname_def system_parameter_get_hostname_def NETIF_HOSTNAME_LEN_MAX_def
        reading_fails_def system_parameter_get_hostname_default_def Let_def z split: Option.bind_splits dest!: param_get_fails)
qed

lemma init_eq: "system_parameter_init fc r1 r2 s = param_stages fc (sys_params r1 r2) ret s"
proof -
  let ?p = "sys_params r1 r2"
  have ps: "?p = [?p ! 0, ?p ! 1, ?p ! 2, ?p ! 3, ?p ! 4, ?p ! 5, ?p ! 6, ?p ! 7, ?p ! 8, ?p ! 9, ?p ! 10]"
    by (simp add: sys_params_def)
  have run: "param_stages fc (p # ps) ret s = do { s \<leftarrow> map_option snd (param_stage fc p s); param_stages fc ps 0 s }"
    if "ps \<noteq> []" for p ps ret s
    using that by (cases ps) (auto split: Option.bind_splits)
  have dh: "do { (ret, _, s) \<leftarrow> system_parameter_get_dhcpd_config fc (Some (replicate sizeof_server_config 0)) s;
     s \<leftarrow> (if ret < 0 then do {
         (_, s) \<leftarrow> system_parameter_set_dhcpd_config fc (Some system_parameter_get_dhcpd_config_default) s;
         Some s }
       else Some s);
     Some (ret, s) } = param_stages fc [?p ! 10] 0 s" for s
    by (auto simp: sys_params_def param_stage_def system_parameter_get_dhcpd_config_def system_parameter_set_dhcpd_config_def
        sizeof_server_config_def reading_fails_def split: Option.bind_splits)
  show ?thesis
    by (subst ps) (simp only: run list.distinct not_False_eq_True system_parameter_init_def dh
        init_stages [of _ _ r1 r2] init_mac_stages(1) [of fc r1 _ r2] init_mac_stages(2) [of fc r2 _ r1] init_hostname_stages [of _ _ r1 r2])
qed

lemma sys_params_distinct: "distinct (map p_key (sys_params r1 r2))"
  by (simp add: sys_params_def key_defs str_bytes_def)

lemma replicate_numeral: "replicate (numeral k) x = x # replicate (pred_numeral k) x"
  by (simp add: numeral_eq_Suc)

lemma wifi_clean:
  "kv_clean KV_SYSTEM_PARAMETER_CONFIG (system_parameter_get_wifi_config_default STATION_IF)"
  "kv_clean KV_SYSTEM_PARAMETER_AP_CONFIG (system_parameter_get_wifi_config_default SOFT_AP_IF)"
  by (simp_all add: kv_clean_def) (simp_all add: wifi_default_defs Let_def key_defs str_bytes_def of_char_def magic_bytes_eq sublist_code
      replicate_numeral le_bytes_numeral c_str_def)

lemma other_clean:
  "kv_clean KV_SYSTEM_PARAMETER_MODE [WIFI_MODE_STATION]" "kv_clean KV_SYSTEM_PARAMETER_CCODE [CTRY_CODE_CN]"
  "kv_clean KV_SYSTEM_PARAMETER_ADDR (random_mac r)" "kv_clean KV_SYSTEM_PARAMETER_AP_ADDR (random_mac r)"
  "kv_clean KV_SYSTEM_PARAMETER_HNAME STA_HOSTNAME" "kv_clean KV_SYSTEM_PARAMETER_AP_HNAME AP_HOSTNAME"
  "kv_clean KV_SYSTEM_PARAMETER_IP_INFO (system_parameter_get_ip_config_default STATION_IF)"
  "kv_clean KV_SYSTEM_PARAMETER_AP_IP_INFO (system_parameter_get_ip_config_default SOFT_AP_IF)"
  "kv_clean KV_SYSTEM_PARAMETER_SERVER_CONFIG system_parameter_get_dhcpd_config_default"
  by (simp_all add: kv_clean_def default_defs key_defs str_bytes_def of_char_def magic_bytes_eq sublist_code le_bytes_numeral)

lemma key_lengths [simp]:
  "length KV_SYSTEM_PARAMETER_MODE = 7" "length KV_SYSTEM_PARAMETER_CCODE = 8" "length KV_SYSTEM_PARAMETER_ADDR = 7"
  "length KV_SYSTEM_PARAMETER_AP_ADDR = 10" "length KV_SYSTEM_PARAMETER_HNAME = 11" "length KV_SYSTEM_PARAMETER_AP_HNAME = 11"
  "length KV_SYSTEM_PARAMETER_CONFIG = 11" "length KV_SYSTEM_PARAMETER_AP_CONFIG = 9" "length KV_SYSTEM_PARAMETER_IP_INFO = 10"
  "length KV_SYSTEM_PARAMETER_AP_IP_INFO = 13" "length KV_SYSTEM_PARAMETER_SERVER_CONFIG = 13"
  by (simp_all add: key_defs str_bytes_def)

lemma sys_params_ok: "list_all param_ok (sys_params r1 r2)"
  using wifi_clean other_clean by (simp add: sys_params_def param_ok_def reading_fails_def)

lemma sys_params_last:
  "sys_params r1 r2 \<noteq> []" "p_key (last (sys_params r1 r2)) = KV_SYSTEM_PARAMETER_SERVER_CONFIG"
  "p_size (last (sys_params r1 r2)) = 28" "p_init (last (sys_params r1 r2)) = replicate 28 0"
  by (simp_all add: sys_params_def)

lemma all_defaults_at:
  "p \<in> set ps \<Longrightarrow> distinct (map p_key ps) \<Longrightarrow> all_defaults ps (p_key p) = Some (p_default p)"
  unfolding all_defaults_def by (rule map_of_is_SomeI) (auto simp: comp_def)

lemma default_lookup:
  "all_defaults (sys_params r1 r2) KV_SYSTEM_PARAMETER_MODE = Some [WIFI_MODE_STATION]"
  "all_defaults (sys_params r1 r2) KV_SYSTEM_PARAMETER_CCODE = Some [CTRY_CODE_CN]"
  "all_defaults (sys_params r1 r2) KV_SYSTEM_PARAMETER_ADDR = Some (random_mac r1)"
  "all_defaults (sys_params r1 r2) KV_SYSTEM_PARAMETER_AP_ADDR = Some (random_mac r2)"
  "all_defaults (sys_params r1 r2) KV_SYSTEM_PARAMETER_HNAME = Some STA_HOSTNAME"
  "all_defaults (sys_params r1 r2) KV_SYSTEM_PARAMETER_AP_HNAME = Some AP_HOSTNAME"
  "all_defaults (sys_params r1 r2) KV_SYSTEM_PARAMETER_CONFIG = Some (system_parameter_get_wifi_config_default STATION_IF)"
  "all_defaults (sys_params r1 r2) KV_SYSTEM_PARAMETER_AP_CONFIG = Some (system_parameter_get_wifi_config_default SOFT_AP_IF)"
  "all_defaults (sys_params r1 r2) KV_SYSTEM_PARAMETER_IP_INFO = Some (system_parameter_get_ip_config_default STATION_IF)"
  "all_defaults (sys_params r1 r2) KV_SYSTEM_PARAMETER_AP_IP_INFO = Some (system_parameter_get_ip_config_default SOFT_AP_IF)"
  "all_defaults (sys_params r1 r2) KV_SYSTEM_PARAMETER_SERVER_CONFIG = Some system_parameter_get_dhcpd_config_default"
proof -
  obtain m where m: "m = all_defaults (sys_params r1 r2)" by blast
  then have "list_all (\<lambda>p. m (p_key p) = Some (p_default p)) (sys_params r1 r2)"
    using all_defaults_at [OF _ sys_params_distinct] by (simp add: list_all_iff)
  then show "all_defaults (sys_params r1 r2) KV_SYSTEM_PARAMETER_MODE = Some [WIFI_MODE_STATION]"
    "all_defaults (sys_params r1 r2) KV_SYSTEM_PARAMETER_CCODE = Some [CTRY_CODE_CN]"
    "all_defaults (sys_params r1 r2) KV_SYSTEM_PARAMETER_ADDR = Some (random_mac r1)"
    "all_defaults (sys_params r1 r2) KV_SYSTEM_PARAMETER_AP_ADDR = Some (random_mac r2)"
    "all_defaults (sys_params r1 r2) KV_SYSTEM_PARAMETER_HNAME = Some STA_HOSTNAME"
    "all_defaults (sys_params r1 r2) KV_SYSTEM_PARAMETER_AP_HNAME = Some AP_HOSTNAME"
    "all_defaults (sys_params r1 r2) KV_SYSTEM_PARAMETER_CONFIG = Some (system_parameter_get_wifi_config_default STATION_IF)"
    "all_defaults (sys_params r1 r2) KV_SYSTEM_PARAMETER_AP_CONFIG = Some (system_parameter_get_wifi_config_default SOFT_AP_IF)"
    "all_defaults (sys_params r1 r2) KV_SYSTEM_PARAMETER_IP_INFO = Some (system_parameter_get_ip_config_default STATION_IF)"
    "all_defaults (sys_params r1 r2) KV_SYSTEM_PARAMETER_AP_IP_INFO = Some (system_parameter_get_ip_config_default SOFT_AP_IF)"
    "all_defaults (sys_params r1 r2) KV_SYSTEM_PARAMETER_SERVER_CONFIG = Some system_parameter_get_dhcpd_config_default"
    unfolding m [symmetric] by (simp_all add: sys_params_def)
qed

lemma defaults_not_missing: "\<forall>p\<in>set (sys_params r3 r4). \<not> missing (all_defaults (sys_params r1 r2)) p"
  by (simp add: sys_params_def [of r3 r4] missing_def fetched_def default_lookup reading_fails_def
      WIFI_MODE_STATION_def WIFI_MODE_MAX_def CTRY_CODE_CN_def CTRY_CODE_MAX_def)

lemma sys_params_room: "(\<Sum>p\<leftarrow>sys_params r1 r2. 24 + (length (p_key p) + length (p_default p))) = 667"
  by (simp add: sys_params_def)

section \<open>Properties\<close>

text \<open>Start-up of the parameters returns, on any store.  A parameter that can be read keeps its value; one that cannot, because it
  was never set or is longer than its place, keeps it or has its default, for lack of space or not;
  no other key changes and nothing outside the partition is written.  When every parameter can be read the flash is not
  written at all.  The result is that of reading the last parameter, before any default is stored.\<close>

lemma sysparam_init_defaults:
  assumes "kv_store fc cells cap sect" "kv_inv fc cells s m" "256 \<le> KV_BLK_SIZE fc"
  shows "\<exists>s' m'. system_parameter_init fc trng1 trng2 s
      = Some (fst (fetched m KV_SYSTEM_PARAMETER_SERVER_CONFIG 28 (replicate 28 0)), s') \<and> kv_inv fc cells s' m'
    \<and> same_outside fc (cells (dev s)) (cells (dev s')) \<and> defaulted (sys_params trng1 trng2) m m'
    \<and> ((\<forall>p\<in>set (sys_params trng1 trng2). \<not> missing m p) \<longrightarrow> dev s' = dev s)"
proof -
  have "224 \<le> KV_BLK_SIZE fc - 32" using assms(3) by simp
  from kv_store.stages_spec [OF assms(1,2) sys_params_ok [of trng1 trng2] sys_params_distinct this, of 0]
  show ?thesis unfolding init_eq [of fc trng1 trng2 s 0] by (simp only: sys_params_last if_False)
qed

lemma sysparam_init_defaults_witness:
  "\<exists>s' m'. system_parameter_init sdk_fc 1 2 sdk_state = Some (- 61, s') \<and> kv_inv sdk_fc fst s' m'
    \<and> defaulted (sys_params 1 2) Map.empty m'"
  using sysparam_init_defaults [OF sdk.kv_store_axioms sdk_start(2), of 1 2]
  by (auto simp: fetched_def)

lemma server_config_roundtrip: "server_config_of_bytes (server_config_image c) = c"
  by (cases c) (simp add: server_config_of_bytes_def server_config_image_def fld_def nth_append)

lemma default_config_ok: "config_ok default_server_config" "le_bytes 4 (sc_server default_server_config) = [192, 168, 1, 1]"
  "le_bytes 4 (sc_ip_start default_server_config) = [192, 168, 1, 100]" "sc_client_max default_server_config = 3"
  by (simp_all add: default_defs config_ok_def le_bytes_numeral)



text \<open>The setters and getters of the parameters that are structures, with key and size.\<close>

definition struct_params :: "'d kv_flash_ctl \<Rightarrow> ((byte list option \<Rightarrow> 'd kv_st \<Rightarrow> (int \<times> 'd kv_st) option)
    \<times> (byte list option \<Rightarrow> 'd kv_st \<Rightarrow> (int \<times> byte list \<times> 'd kv_st) option) \<times> byte list \<times> nat) list" where
  "struct_params fc =
     [(system_parameter_set_macaddr fc STATION_IF, system_parameter_get_macaddr fc STATION_IF, KV_SYSTEM_PARAMETER_ADDR, 6),
      (system_parameter_set_macaddr fc SOFT_AP_IF, system_parameter_get_macaddr fc SOFT_AP_IF, KV_SYSTEM_PARAMETER_AP_ADDR, 6),
      (system_parameter_set_config fc STATION_IF, system_parameter_get_config fc STATION_IF, KV_SYSTEM_PARAMETER_CONFIG, 106),
      (system_parameter_set_config fc SOFT_AP_IF, system_parameter_get_config fc SOFT_AP_IF, KV_SYSTEM_PARAMETER_AP_CONFIG, 106),
      (system_parameter_set_ip_config fc STATION_IF, system_parameter_get_ip_config fc STATION_IF, KV_SYSTEM_PARAMETER_IP_INFO, 12),
      (system_parameter_set_ip_config fc SOFT_AP_IF, system_parameter_get_ip_config fc SOFT_AP_IF, KV_SYSTEM_PARAMETER_AP_IP_INFO, 12),
      (system_parameter_set_dhcpd_config fc, system_parameter_get_dhcpd_config fc, KV_SYSTEM_PARAMETER_SERVER_CONFIG, 28)]"

lemma struct_params_generic:
  assumes "(st, gt, k, n) \<in> set (struct_params fc)"
  shows "st (Some v) s = param_set fc k v n s" "gt (Some obj) s = param_get fc k n obj s" "length k < 255" "length k + n \<le> 200"
  using assms by (auto simp: struct_params_def system_parameter_set_macaddr_def system_parameter_get_macaddr_def
      system_parameter_set_config_def system_parameter_get_config_def system_parameter_set_ip_config_def system_parameter_get_ip_config_def
      system_parameter_set_dhcpd_config_def system_parameter_get_dhcpd_config_def MAC_ADDRESS_LEN_def sizeof_wifi_config_def
      sizeof_tcpip_ip_info_def sizeof_server_config_def)

text \<open>Setting one of these parameters returns.  When it succeeds, getting it into any object of its size gives what was set,
  and getting any other of them gives what it gave before; when it fails, for lack of space, getting each of them gives what it
  gave before.\<close>

lemma sysparam_set_get:
  assumes "kv_store fc cells cap sect" "kv_inv fc cells s m" "256 \<le> KV_BLK_SIZE fc"
    and "(st, gt, k, n) \<in> set (struct_params fc)" "length v = n" "kv_clean k v"
  shows "\<exists>ret s'. st (Some v) s = Some (ret, s') \<and> ret \<in> {0, - 51}
    \<and> (\<forall>(st', gt', k', n') \<in> set (struct_params fc). \<forall>obj. length obj = n' \<longrightarrow>
         (\<exists>s''. gt' (Some obj) s' = Some (if ret = 0 \<and> k' = k then (0, v, s'')
            else (fst (fetched m k' n' obj), snd (fetched m k' n' obj), s''))))"
proof -
  note g = struct_params_generic [OF assms(4)]
  have fit: "24 + (length k + n) \<le> KV_BLK_SIZE fc - 32" using assms(3) g(4) by linarith
  obtain ret s' where r: "param_set fc k v n s = Some (ret, s')"
    "ret = 0 \<and> kv_inv fc cells s' (m(k \<mapsto> v)) \<or> ret = - 51 \<and> kv_inv fc cells s' m"
    using kv_store.param_set_spec [OF assms(1,2), of k n v] fit assms(5,6) by auto
  have "\<exists>s''. gt' (Some obj) s' = Some (if ret = 0 \<and> k' = k then (0, v, s'')
      else (fst (fetched m k' n' obj), snd (fetched m k' n' obj), s''))"
    if p: "(st', gt', k', n') \<in> set (struct_params fc)" "length obj = n'" for st' gt' k' n' obj
  proof -
    note g' = struct_params_generic [OF p(1)]
    obtain m' where m': "kv_inv fc cells s' m'" "m' = (if ret = 0 then m(k \<mapsto> v) else m)" using r(2) by auto
    have "n' = n" if "k' = k" using that p(1) assms(4) by (auto simp: struct_params_def key_defs str_bytes_def)
    moreover obtain s'' where "param_get fc k' n' obj s' = Some (fst (fetched m' k' n' obj), snd (fetched m' k' n' obj), s'')"
      using kv_store.param_get_spec [OF assms(1) m'(1) g'(3), of n' obj] p(2) by auto
    ultimately show ?thesis using g'(2) m'(2) assms(5) p(2) by (auto simp: fetched_def)
  qed
  then have "\<forall>(st', gt', k', n') \<in> set (struct_params fc). \<forall>obj. length obj = n' \<longrightarrow>
      (\<exists>s''. gt' (Some obj) s' = Some (if ret = 0 \<and> k' = k then (0, v, s'')
         else (fst (fetched m k' n' obj), snd (fetched m k' n' obj), s'')))"
    by (intro ballI) (clarify, blast)
  moreover have "ret \<in> {0, - 51}" using r(2) by auto
  moreover have "st (Some v) s = Some (ret, s')" using g(1) r(1) by simp
  ultimately show ?thesis by (intro exI [of _ ret] exI [of _ s'] conjI)
qed

lemma sysparam_set_get_witness:
  "\<exists>ret s'. system_parameter_set_macaddr sdk_fc STATION_IF (Some MAC_ADDR) sdk_state = Some (ret, s') \<and> ret \<in> {0, - 51}"
proof -
  have "kv_clean KV_SYSTEM_PARAMETER_ADDR MAC_ADDR"
    by (simp add: kv_clean_def MAC_ADDR_def key_defs str_bytes_def of_char_def magic_bytes_eq sublist_code)
  from sysparam_set_get [OF sdk.kv_store_axioms sdk_start(2) _ _ _ this, of _ _ 6]
  show ?thesis by (fastforce simp: struct_params_def MAC_ADDR_def)
qed

text \<open>A host name of more than eight characters is lost: it is stored without complaint as long as there is room, but reading it
  fails and leaves the buffer alone, and start-up counts it as missing.\<close>

lemma long_hostname_lost:
  assumes "kv_store fc cells cap sect" "kv_inv fc cells s m" "256 \<le> KV_BLK_SIZE fc"
    and "8 < length name" "length name \<le> 180" "0 \<notin> set name" "kv_clean KV_SYSTEM_PARAMETER_HNAME name"
    and "system_parameter_set_hostname fc STATION_IF (Some (name @ [0])) s = Some (ret, s')"
  shows "ret = - 51 \<or> ret = 0
    \<and> (\<forall>buf. 8 \<le> length buf \<longrightarrow> (\<exists>s''. system_parameter_get_hostname fc STATION_IF (Some buf) s' = Some (- 10, Some buf, s'')))
    \<and> (\<exists>m'. kv_inv fc cells s' m' \<and> missing m' (sys_params trng1 trng2 ! 4))"
proof -
  have fit: "24 + (length KV_SYSTEM_PARAMETER_HNAME + length name) \<le> KV_BLK_SIZE fc - 32" using assms(3,5) by simp
  have "c_str (name @ [0]) = name" using c_str_append [OF assms(6), of "[0]"] by (simp add: c_str_def)
  then have "param_set fc KV_SYSTEM_PARAMETER_HNAME (name @ [0]) (length name) s = Some (ret, s')"
    using assms(8) by (simp add: system_parameter_set_hostname_def c_strlen_def)
  then have r: "ret = 0 \<and> kv_inv fc cells s' (m(KV_SYSTEM_PARAMETER_HNAME \<mapsto> name)) \<or> ret = - 51"
    using kv_store.param_set_spec [OF assms(1,2), of KV_SYSTEM_PARAMETER_HNAME "length name" "name @ [0]"] fit assms(7) by auto
  have "\<exists>s''. system_parameter_get_hostname fc STATION_IF (Some buf) s' = Some (- 10, Some buf, s'')"
    if "kv_inv fc cells s' (m(KV_SYSTEM_PARAMETER_HNAME \<mapsto> name))" "8 \<le> length buf" for buf
    using kv_store.param_get_spec [OF assms(1) that(1), of KV_SYSTEM_PARAMETER_HNAME 8 buf] that(2) assms(4)
    by (auto simp: system_parameter_get_hostname_def NETIF_HOSTNAME_LEN_MAX_def fetched_def)
  moreover have "missing (m(KV_SYSTEM_PARAMETER_HNAME \<mapsto> name)) (sys_params trng1 trng2 ! 4)"
    using assms(4) by (simp add: missing_def fetched_def sys_params_def reading_fails_def)
  ultimately show ?thesis using r by blast
qed

lemma long_hostname_lost_witness:
  "\<exists>s' s''. system_parameter_set_hostname sdk_fc STATION_IF (Some (str_bytes ''livingroom'' @ [0])) sdk_state = Some (0, s')
    \<and> system_parameter_get_hostname sdk_fc STATION_IF (Some (replicate 9 0)) s' = Some (- 10, Some (replicate 9 0), s'')"
proof -
  let ?n = "str_bytes ''livingroom''"
  have z: "0 \<notin> set ?n" "length ?n = 10" by (simp_all add: str_bytes_def of_char_def)
  have cl: "kv_clean KV_SYSTEM_PARAMETER_HNAME ?n"
    by (simp add: kv_clean_def key_defs str_bytes_def of_char_def magic_bytes_eq sublist_code)
  have "c_str (?n @ [0]) = ?n" using c_str_append [OF z(1), of "[0]"] by (simp add: c_str_def)
  moreover have "kv_store.kv_room sdk_fc fst sdk_state Map.empty (24 + (length KV_SYSTEM_PARAMETER_HNAME + 10) + 0)"
    by (rule kv_store.room_fresh [OF sdk.kv_store_axioms sdk_start(2,3)]) simp
  ultimately obtain s' where s': "system_parameter_set_hostname sdk_fc STATION_IF (Some (?n @ [0])) sdk_state = Some (0, s')"
    using kv_store.param_set_room [OF sdk.kv_store_axioms, of sdk_state Map.empty KV_SYSTEM_PARAMETER_HNAME 10 0 "?n @ [0]"] cl z(2)
    by (auto simp: system_parameter_set_hostname_def c_strlen_def)
  show ?thesis
    using long_hostname_lost [OF sdk.kv_store_axioms sdk_start(2) _ _ _ z(1) cl s'] z(2) s' by force
qed

end
