(* ===== verification/Arrays.thy ===== *)
theory Arrays
  imports Prelude "HOL-Library.Monad_Syntax"
begin

unbundle bit_operations_syntax

text \<open>
  C arrays of a fixed size as lists: an access outside the array is \<open>None\<close>.  The collection \<open>array_simps\<close> evaluates accesses
  that are inside.  Facts about single bits of a byte follow.
\<close>

named_theorems array_simps \<open>accesses inside an array\<close>

definition at_pos :: "'a list \<Rightarrow> nat \<Rightarrow> 'a option" where
  "at_pos bs i = (if i < length bs then Some (bs ! i) else None)"

definition put_pos :: "nat \<Rightarrow> 'a \<Rightarrow> 'a list \<Rightarrow> 'a list option" where
  "put_pos i b bs = (if i < length bs then Some (bs[i := b]) else None)"

text \<open>What \<^verbatim>\<open>memcpy\<close> reads and stores.\<close>

definition get_run :: "nat \<Rightarrow> nat \<Rightarrow> 'a list \<Rightarrow> 'a list option" where
  "get_run i n bs = (if i + n \<le> length bs then Some (take n (drop i bs)) else None)"

definition put_run :: "nat \<Rightarrow> 'a list \<Rightarrow> 'a list \<Rightarrow> 'a list option" where
  "put_run i new bs = (if i + length new \<le> length bs then Some (take i bs @ new @ drop (i + length new) bs) else None)"

lemma at_pos_in [array_simps]: "i < length bs \<Longrightarrow> at_pos bs i = Some (bs ! i)"
  by (simp add: at_pos_def)

lemma put_pos_in [array_simps]: "i < length bs \<Longrightarrow> put_pos i b bs = Some (bs[i := b])"
  by (simp add: put_pos_def)

lemma get_run_in [array_simps]: "i + n \<le> length bs \<Longrightarrow> get_run i n bs = Some (take n (drop i bs))"
  by (simp add: get_run_def)

lemma put_run_in [array_simps]:
  "i + length new \<le> length bs \<Longrightarrow> put_run i new bs = Some (take i bs @ new @ drop (i + length new) bs)"
  by (simp add: put_run_def)

lemma at_pos_simps [simp]:
  "at_pos (b # bs) 0 = Some b" "at_pos (b # bs) (Suc i) = at_pos bs i" "at_pos (b # bs) (numeral n) = at_pos bs (pred_numeral n)"
  by (simp_all add: at_pos_def numeral_eq_Suc)

lemma put_pos_simps [simp]:
  "put_pos 0 c (b # bs) = Some (c # bs)" "put_pos (Suc i) c (b # bs) = map_option ((#) b) (put_pos i c bs)"
  "put_pos (numeral n) c (b # bs) = map_option ((#) b) (put_pos (pred_numeral n) c bs)"
  by (simp_all add: put_pos_def numeral_eq_Suc)

lemma length_put_pos: "put_pos i b bs = Some cs \<Longrightarrow> length cs = length bs"
  by (auto simp: put_pos_def split: if_splits)

lemma length_put_run: "put_run i new bs = Some cs \<Longrightarrow> length cs = length bs"
  by (auto simp: put_run_def split: if_splits)

lemma length_get_run: "get_run i n bs = Some cs \<Longrightarrow> length cs = n"
  by (auto simp: get_run_def split: if_splits)

text \<open>Reading back what was stored, and next to it.\<close>

lemma put_run_nth:
  "i + length new \<le> length bs \<Longrightarrow> j < length bs \<Longrightarrow>
     (take i bs @ new @ drop (i + length new) bs) ! j = (if i \<le> j \<and> j < i + length new then new ! (j - i) else bs ! j)"
  by (auto simp: nth_append min_def)

section \<open>Bits of a byte\<close>

lemma less_8_cases: "n < 8 \<Longrightarrow> n = 0 \<or> n = 1 \<or> n = 2 \<or> n = 3 \<or> n = 4 \<or> n = 5 \<or> n = 6 \<or> n = (7 :: nat)"
  by presburger

lemma byte_eqI:
  assumes "bit a 0 = bit b 0" "bit a 1 = bit b 1" "bit a 2 = bit b 2" "bit a 3 = bit b 3"
    "bit a 4 = bit b 4" "bit a 5 = bit b 5" "bit a 6 = bit b 6" "bit a 7 = bit (b :: byte) 7"
  shows "a = b"
proof (rule bit_word_eqI)
  fix n
  assume "n < LENGTH(8)"
  then show "bit a n = bit b n" using less_8_cases [of n] assms by auto
qed

lemma byte_value:
  "unat (c :: byte) = of_bool (bit c 0) + 2 * of_bool (bit c 1) + 4 * of_bool (bit c 2) + 8 * of_bool (bit c 3)
     + 16 * of_bool (bit c 4) + 32 * of_bool (bit c 5) + 64 * of_bool (bit c 6) + 128 * of_bool (bit c 7)"
proof -
  have "unat c < 2 ^ 8" using unsigned_less [of c] by simp
  then have "unat c = horner_sum of_bool 2 (map (bit (unat c)) [0..<8])"
    unfolding horner_sum_bit_eq_take_bit by (simp add: take_bit_nat_eq_self)
  also have "[0..<8] = [0, 1, 2, 3, 4, 5, 6, 7 :: nat]" by (simp add: upt_rec)
  finally show ?thesis by (simp add: bit_simps)
qed

end
