(* ===== verification/Unicode.thy ===== *)
theory Unicode
  imports Arrays
begin

unbundle bit_operations_syntax

text \<open>
  The character conversions, \<^verbatim>\<open>components/utils/unicode_convert/unicode_convert.c\<close>.  The tables of GBK and BIG5 are arguments, lists of
  pairs of a code and its Unicode value.  A string is the list of its bytes before the terminating zero.
  \<open>None\<close> is a failed assertion, which loops, a loop that does not end, or an access outside an array.
\<close>

type_synonym code_table = "(u16 \<times> u16) list"

section \<open>One character\<close>

text \<open>\<open>ucs\<close> is what the output variable holds before; a code that is not in the table leaves it.\<close>

definition encode_gbk_to_unicode_one :: "code_table \<Rightarrow> u16 \<Rightarrow> u16 \<Rightarrow> nat \<times> u16" where
  "encode_gbk_to_unicode_one tab gbk ucs =
     (let hibyte = drop_bit 8 gbk in
      if hibyte < 0x80 then (1, hibyte)
      else case map_of tab gbk of Some u \<Rightarrow> (2, u) | None \<Rightarrow> (0, ucs))"

definition encode_unicode_one_to_big5 :: "code_table \<Rightarrow> u16 \<Rightarrow> byte list option" where
  "encode_unicode_one_to_big5 tab unicode =
     (if unicode = 0 then None
      else case find (\<lambda>p. snd p = unicode) tab of
             Some (b, _) \<Rightarrow> Some [ucast (drop_bit 8 (b AND 0xFF00)), ucast (b AND 0xFF)]
           | None \<Rightarrow> Some [])"

text \<open>The bytes stored; their number is returned.\<close>

definition encode_unicode_to_utf8_one :: "u32 \<Rightarrow> int \<Rightarrow> byte list option" where
  "encode_unicode_to_utf8_one unic out_size =
     (if out_size < 6 then None
      else if unic \<le> 0x7F then Some [ucast (unic AND 0x7F)]
      else if unic \<le> 0x7FF then
        Some [ucast ((drop_bit 6 unic AND 0x1F) OR 0xC0), ucast ((unic AND 0x3F) OR 0x80)]
      else if unic \<le> 0xFFFF then
        Some [ucast ((drop_bit 12 unic AND 0x0F) OR 0xE0), ucast ((drop_bit 6 unic AND 0x3F) OR 0x80), ucast ((unic AND 0x3F) OR 0x80)]
      else if unic \<le> 0x1FFFFF then
        Some [ucast ((drop_bit 18 unic AND 0x07) OR 0xF0), ucast ((drop_bit 12 unic AND 0x3F) OR 0x80),
              ucast ((drop_bit 6 unic AND 0x3F) OR 0x80), ucast ((unic AND 0x3F) OR 0x80)]
      else if unic \<le> 0x3FFFFFF then
        Some [ucast ((drop_bit 24 unic AND 0x03) OR 0xF8), ucast ((drop_bit 18 unic AND 0x3F) OR 0x80), ucast ((drop_bit 12 unic AND 0x3F) OR 0x80),
              ucast ((drop_bit 6 unic AND 0x3F) OR 0x80), ucast ((unic AND 0x3F) OR 0x80)]
      else if unic \<le> 0x7FFFFFFF then
        Some [ucast ((drop_bit 30 unic AND 0x01) OR 0xFC), ucast ((drop_bit 24 unic AND 0x3F) OR 0x80), ucast ((drop_bit 18 unic AND 0x3F) OR 0x80),
              ucast ((drop_bit 12 unic AND 0x3F) OR 0x80), ucast ((drop_bit 6 unic AND 0x3F) OR 0x80), ucast ((unic AND 0x3F) OR 0x80)]
      else Some [])"

definition enc_get_utf8_size :: "byte \<Rightarrow> int" where
  "enc_get_utf8_size c =
     (if c < 0x80 then 0 else if c < 0xC0 then - 1 else if c < 0xE0 then 2 else if c < 0xF0 then 3
      else if c < 0xF8 then 4 else if c < 0xFC then 5 else 6)"

definition continues :: "byte \<Rightarrow> bool" where
  "continues b \<longleftrightarrow> b AND 0xC0 = 0x80"

text \<open>The number of bytes read, zero for a malformed sequence, and what the output array holds after.\<close>

definition enc_utf8_to_unicode_one :: "byte list \<Rightarrow> byte list \<Rightarrow> (int \<times> byte list) option" where
  "enc_utf8_to_unicode_one inp out = do {
     out \<leftarrow> put_pos 0 0 out;
     b1 \<leftarrow> at_pos inp 0;
     let utfbytes = enc_get_utf8_size b1 in
     if utfbytes = 0 then do { out \<leftarrow> put_pos 0 b1 out; Some (utfbytes + 1, out) }
     else if utfbytes = 2 then do {
       b2 \<leftarrow> at_pos inp 1;
       if b2 AND 0xE0 \<noteq> 0x80 then Some (0, out)
       else do {
         out \<leftarrow> put_pos 0 (push_bit 6 b1 + (b2 AND 0x3F)) out;
         out \<leftarrow> put_pos 1 (drop_bit 2 b1 AND 0x07) out;
         Some (utfbytes, out) } }
     else if utfbytes = 3 then do {
       b2 \<leftarrow> at_pos inp 1; b3 \<leftarrow> at_pos inp 2;
       if \<not> continues b2 \<or> \<not> continues b3 then Some (0, out)
       else do {
         out \<leftarrow> put_pos 0 (push_bit 6 b2 + (b3 AND 0x3F)) out;
         out \<leftarrow> put_pos 1 (push_bit 4 b1 + (drop_bit 2 b2 AND 0x0F)) out;
         Some (utfbytes, out) } }
     else if utfbytes = 4 then do {
       b2 \<leftarrow> at_pos inp 1; b3 \<leftarrow> at_pos inp 2; b4 \<leftarrow> at_pos inp 3;
       if \<not> continues b2 \<or> \<not> continues b3 \<or> \<not> continues b4 then Some (0, out)
       else do {
         out \<leftarrow> put_pos 0 (push_bit 6 b3 + (b4 AND 0x3F)) out;
         out \<leftarrow> put_pos 1 (push_bit 4 b2 + (drop_bit 2 b3 AND 0x0F)) out;
         out \<leftarrow> put_pos 2 ((push_bit 2 b1 AND 0x1C) + (drop_bit 4 b2 AND 0x03)) out;
         Some (utfbytes, out) } }
     else if utfbytes = 5 then do {
       b2 \<leftarrow> at_pos inp 1; b3 \<leftarrow> at_pos inp 2; b4 \<leftarrow> at_pos inp 3; b5 \<leftarrow> at_pos inp 4;
       if \<not> continues b2 \<or> \<not> continues b3 \<or> \<not> continues b4 \<or> \<not> continues b5 then Some (0, out)
       else do {
         out \<leftarrow> put_pos 0 (push_bit 6 b4 + (b5 AND 0x3F)) out;
         out \<leftarrow> put_pos 1 (push_bit 4 b3 + (drop_bit 2 b4 AND 0x0F)) out;
         out \<leftarrow> put_pos 2 (push_bit 2 b2 + (drop_bit 4 b3 AND 0x03)) out;
         out \<leftarrow> put_pos 3 (push_bit 6 b1) out;
         Some (utfbytes, out) } }
     else if utfbytes = 6 then do {
       b2 \<leftarrow> at_pos inp 1; b3 \<leftarrow> at_pos inp 2; b4 \<leftarrow> at_pos inp 3; b5 \<leftarrow> at_pos inp 4; b6 \<leftarrow> at_pos inp 5;
       if \<not> continues b2 \<or> \<not> continues b3 \<or> \<not> continues b4 \<or> \<not> continues b5 \<or> \<not> continues b6 then Some (0, out)
       else do {
         out \<leftarrow> put_pos 0 (push_bit 6 b5 + (b6 AND 0x3F)) out;
         out \<leftarrow> put_pos 1 (push_bit 4 b5 + (drop_bit 2 b6 AND 0x0F)) out;
         out \<leftarrow> put_pos 2 (push_bit 2 b3 + (drop_bit 4 b4 AND 0x03)) out;
         out \<leftarrow> put_pos 3 ((push_bit 6 b1 AND 0x40) + (b2 AND 0x3F)) out;
         Some (utfbytes, out) } }
     else Some (utfbytes, out) }"

section \<open>Strings\<close>

text \<open>The loop of \<^verbatim>\<open>ln_encode_gbk_to_utf8\<close>: the bytes left, the value of the local variable and the bytes written so far.  A lead
  byte at the end of the string takes the terminating zero as its second byte, and the loop goes on behind it.\<close>

fun gbk_to_utf8_loop :: "code_table \<Rightarrow> int \<Rightarrow> byte list \<Rightarrow> u16 \<Rightarrow> byte list \<Rightarrow> byte list option" where
  "gbk_to_utf8_loop tab len_max [] unicode out = Some out"
| "gbk_to_utf8_loop tab len_max (chr # s) unicode out =
     (if 0x81 \<le> chr \<and> chr \<le> 0xFE then
        (case s of
           [] \<Rightarrow> None
         | chr2 # s \<Rightarrow> do {
             let (n, unicode) = encode_gbk_to_unicode_one tab (push_bit 8 (ucast chr) OR ucast chr2) unicode;
             bs \<leftarrow> encode_unicode_to_utf8_one (ucast unicode) (len_max - int (length out));
             gbk_to_utf8_loop tab len_max s unicode (out @ bs) })
      else if len_max \<le> int (length out) then None
      else gbk_to_utf8_loop tab len_max s unicode (out @ [chr]))"

definition ln_encode_gbk_to_utf8 :: "code_table \<Rightarrow> u16 \<Rightarrow> byte list option \<Rightarrow> int \<Rightarrow> byte list option" where
  "ln_encode_gbk_to_utf8 tab garbage gbk_str utf8_len_max = do {
     s \<leftarrow> gbk_str;
     if utf8_len_max < 6 then None else gbk_to_utf8_loop tab utf8_len_max s garbage [] }"

text \<open>The output arrays of the two conversions to BIG5 have no bound; what they write is the result.\<close>

fun gbk_to_big5_loop :: "code_table \<Rightarrow> code_table \<Rightarrow> byte list \<Rightarrow> u16 \<Rightarrow> byte list \<Rightarrow> byte list option" where
  "gbk_to_big5_loop tab tab5 [] unicode out = Some out"
| "gbk_to_big5_loop tab tab5 (chr # s) unicode out =
     (if 0x81 \<le> chr \<and> chr \<le> 0xFE then
        (case s of
           [] \<Rightarrow> None
         | chr2 # s \<Rightarrow> do {
             let (n, unicode) = encode_gbk_to_unicode_one tab (push_bit 8 (ucast chr) OR ucast chr2) unicode;
             bs \<leftarrow> encode_unicode_one_to_big5 tab5 unicode;
             gbk_to_big5_loop tab tab5 s unicode (out @ bs) })
      else gbk_to_big5_loop tab tab5 s unicode (out @ [chr]))"

definition ln_encode_gbk_to_big5 :: "code_table \<Rightarrow> code_table \<Rightarrow> u16 \<Rightarrow> byte list option \<Rightarrow> int \<Rightarrow> byte list option" where
  "ln_encode_gbk_to_big5 tab tab5 garbage gbk_str big5_len_max = do {
     s \<leftarrow> gbk_str;
     if big5_len_max < 6 then None else gbk_to_big5_loop tab tab5 s garbage [] }"

text \<open>A byte above 0x7F with two more behind it that is not the lead of a three-byte character is looked at again and again.\<close>

partial_function (option) utf8_to_big5_loop :: "code_table \<Rightarrow> byte list \<Rightarrow> u16 \<Rightarrow> byte list \<Rightarrow> byte list option" where
  "utf8_to_big5_loop tab5 s unicode out =
     (case s of
        [] \<Rightarrow> Some out
      | chr # r \<Rightarrow>
          if 0x80 \<le> chr \<and> 2 \<le> length r then
            let chr2 = r ! 0; chr3 = r ! 1 in
            if 0xE0 \<le> chr \<and> chr \<le> 0xEF \<and> 0x80 \<le> chr2 \<and> chr2 \<le> 0xBF \<and> 0x80 \<le> chr3 \<and> chr3 \<le> 0xBF then do {
              (_, u) \<leftarrow> enc_utf8_to_unicode_one [chr, chr2, chr3, 0] (le_bytes 2 unicode);
              bs \<leftarrow> encode_unicode_one_to_big5 tab5 (le_word u);
              utf8_to_big5_loop tab5 (drop 2 r) (le_word u) (out @ bs) }
            else utf8_to_big5_loop tab5 s unicode out
          else utf8_to_big5_loop tab5 r unicode (out @ [chr]))"

definition ln_encode_utf8_to_big5 :: "code_table \<Rightarrow> u16 \<Rightarrow> byte list option \<Rightarrow> byte list option" where
  "ln_encode_utf8_to_big5 tab5 garbage utf8_str = do { s \<leftarrow> utf8_str; utf8_to_big5_loop tab5 s garbage [] }"

section \<open>Guessing the encoding\<close>

fun is_utf8_loop :: "byte list \<Rightarrow> nat \<Rightarrow> bool" where
  "is_utf8_loop [] nBytes \<longleftrightarrow> nBytes = 0"
| "is_utf8_loop (chr # s) nBytes \<longleftrightarrow>
     (if nBytes = 0 then
        if 0x80 \<le> chr then
          if 0xFC \<le> chr \<and> chr \<le> 0xFD then is_utf8_loop s 5
          else if 0xF8 \<le> chr then is_utf8_loop s 4
          else if 0xF0 \<le> chr then is_utf8_loop s 3
          else if 0xE0 \<le> chr then is_utf8_loop s 2
          else if 0xC0 \<le> chr then is_utf8_loop s 1
          else False
        else is_utf8_loop s 0
      else if chr AND 0xC0 \<noteq> 0x80 then False
      else is_utf8_loop s (nBytes - 1))"

definition ln_is_str_utf8 :: "byte list \<Rightarrow> bool" where
  "ln_is_str_utf8 str = is_utf8_loop str 0"

fun is_big5_loop :: "byte list \<Rightarrow> bool" where
  "is_big5_loop [] \<longleftrightarrow> False"
| "is_big5_loop (chr # s) \<longleftrightarrow>
     (if 0xA1 \<le> chr \<and> chr \<le> 0xFE then
        (case s of
           [] \<Rightarrow> is_big5_loop s
         | chr2 # _ \<Rightarrow>
             if 0xAA \<le> chr \<and> chr \<le> 0xAF \<and> 0xA1 \<le> chr2 \<and> chr2 \<le> 0xFE then True
             else if 0x40 \<le> chr2 \<and> chr2 \<le> 0x7E then True
             else if 0xA4 \<le> chr \<and> chr \<le> 0xA9 then True
             else is_big5_loop s)
      else is_big5_loop s)"

definition ln_is_str_big5 :: "byte list \<Rightarrow> bool" where
  "ln_is_str_big5 str = (if ln_is_str_utf8 str then False else is_big5_loop str)"

fun is_gbk_loop :: "byte list \<Rightarrow> nat \<Rightarrow> bool \<Rightarrow> bool" where
  "is_gbk_loop [] nBytes bAllAscii \<longleftrightarrow> (if nBytes \<noteq> 0 then False else \<not> bAllAscii)"
| "is_gbk_loop (chr # s) nBytes bAllAscii \<longleftrightarrow>
     (let bAllAscii = (if chr AND 0x80 \<noteq> 0 \<and> nBytes = 0 then False else bAllAscii) in
      if nBytes = 0 then
        if 0x80 \<le> chr then
          if 0x81 \<le> chr \<and> chr \<le> 0xFE then is_gbk_loop s 1 bAllAscii else False
        else is_gbk_loop s 0 bAllAscii
      else if chr < 0x40 \<or> 0xFE < chr then False
      else is_gbk_loop s (nBytes - 1) bAllAscii)"

definition ln_is_str_gbk :: "byte list \<Rightarrow> bool" where
  "ln_is_str_gbk str = (if ln_is_str_utf8 str then False else is_gbk_loop str 0 True)"

end
