(* ===== verification/Unicode_Props.thy ===== *)
theory Unicode_Props
  imports Unicode
begin

unbundle bit_operations_syntax

text \<open>
  What the character conversions do: which characters survive UTF-8 encoding and decoding, what the test for UTF-8 accepts, and
  the texts on which the conversion to BIG5 does not return.
\<close>

section \<open>Bits of bytes\<close>

lemma small_bits: "u < 2 ^ k \<Longrightarrow> k \<le> n \<Longrightarrow> \<not> bit (u :: u32) n"
  using less_mask_eq [of u k] by (metis bit_and_iff bit_mask_iff not_le)

text \<open>The lead byte tells the length by its upper bits.\<close>

lemma lead_size:
  "bit c 7 \<Longrightarrow> bit c 6 \<Longrightarrow> \<not> bit c 5 \<Longrightarrow> enc_get_utf8_size c = 2"
  "bit c 7 \<Longrightarrow> bit c 6 \<Longrightarrow> bit c 5 \<Longrightarrow> \<not> bit c 4 \<Longrightarrow> enc_get_utf8_size c = 3"
  "bit c 7 \<Longrightarrow> bit c 6 \<Longrightarrow> bit c 5 \<Longrightarrow> bit c 4 \<Longrightarrow> \<not> bit c 3 \<Longrightarrow> enc_get_utf8_size c = 4"
  "\<not> bit c 7 \<Longrightarrow> enc_get_utf8_size c = 0"
  by (simp_all add: enc_get_utf8_size_def word_less_nat_alt byte_value)

lemma continuation [simp]: "continues (ucast ((x :: u32) AND 0x3F OR 0x80))"
  unfolding continues_def by (rule byte_eqI) (simp_all add: bit_simps)

lemma byte_joins:
  "push_bit 6 b + (c AND 0x3F) = push_bit 6 b OR (c AND 0x3F :: byte)"
  "push_bit 4 b + (drop_bit 2 c AND 0x0F) = push_bit 4 b OR (drop_bit 2 c AND 0x0F :: byte)"
  "(push_bit 2 b AND 0x1C) + (drop_bit 4 c AND 0x03) = (push_bit 2 b AND 0x1C) OR (drop_bit 4 c AND 0x03 :: byte)"
  by (rule disjunctive_add_eq_or, rule byte_eqI; simp add: bit_simps)+

lemma le_bytes_4: "le_bytes 4 (u :: u32) = [ucast u, ucast (drop_bit 8 u), ucast (drop_bit 16 u), ucast (drop_bit 24 u)]"
  by (simp add: le_bytes_numeral)

section \<open>Encoding and decoding\<close>

lemma roundtrip_1:
  assumes "u \<le> 0x7F"
  shows "encode_unicode_to_utf8_one u 6 = Some [ucast u]"
    "enc_utf8_to_unicode_one (ucast u # rest) [0, 0, 0, 0] = Some (1, le_bytes 4 u)"
proof -
  have "u < 2 ^ 7" using assms by (simp add: word_le_nat_alt word_less_nat_alt)
  then have z: "\<not> bit u n" if "7 \<le> n" for n using small_bits that by blast
  have "ucast (u AND 0x7F) = (ucast u :: byte)" by (rule byte_eqI) (simp_all add: bit_simps z)
  then show "encode_unicode_to_utf8_one u 6 = Some [ucast u]" using assms by (simp add: encode_unicode_to_utf8_one_def)
  have "\<not> bit (ucast u :: byte) 7" using z by (simp add: bit_simps)
  moreover have "drop_bit 8 u = 0" "drop_bit 16 u = 0" "drop_bit 24 u = 0" by (rule bit_word_eqI, simp add: bit_simps z)+
  ultimately show "enc_utf8_to_unicode_one (ucast u # rest) [0, 0, 0, 0] = Some (1, le_bytes 4 u)"
    by (simp add: enc_utf8_to_unicode_one_def lead_size le_bytes_4)
qed

lemma roundtrip_2:
  assumes "0x7F < u" "u \<le> 0x7FF"
  shows "\<exists>b1 b2. encode_unicode_to_utf8_one u 6 = Some [b1, b2]
    \<and> enc_utf8_to_unicode_one (b1 # b2 # rest) [0, 0, 0, 0] = Some (if bit u 5 then (0, [0, 0, 0, 0]) else (2, le_bytes 4 u))"
proof -
  have "u < 2 ^ 11" using assms by (simp add: word_le_nat_alt word_less_nat_alt)
  then have z: "\<not> bit u n" if "11 \<le> n" for n using small_bits that by blast
  let ?b1 = "ucast ((drop_bit 6 u AND 0x1F) OR 0xC0) :: byte" and ?b2 = "ucast ((u AND 0x3F) OR 0x80) :: byte"
  have "enc_get_utf8_size ?b1 = 2" by (rule lead_size) (simp_all add: bit_simps)
  moreover have "?b2 AND 0xE0 = 0x80 \<longleftrightarrow> \<not> bit u 5"
  proof
    assume "?b2 AND 0xE0 = 0x80"
    then have "bit (?b2 AND 0xE0) 5 = bit (0x80 :: byte) 5" by simp
    then show "\<not> bit u 5" by (simp add: bit_simps)
  next
    assume "\<not> bit u 5"
    then show "?b2 AND 0xE0 = 0x80" by (intro byte_eqI) (simp_all add: bit_simps)
  qed
  moreover have "push_bit 6 ?b1 OR (?b2 AND 0x3F) = ucast u" if "\<not> bit u 5" by (rule byte_eqI) (simp_all add: bit_simps)
  moreover have "drop_bit 2 ?b1 AND 0x07 = ucast (drop_bit 8 u)" by (rule byte_eqI) (simp_all add: bit_simps z)
  moreover have "drop_bit 16 u = 0" "drop_bit 24 u = 0" by (rule bit_word_eqI, simp add: bit_simps z)+
  ultimately have "enc_utf8_to_unicode_one (?b1 # ?b2 # rest) [0, 0, 0, 0] = Some (if bit u 5 then (0, [0, 0, 0, 0]) else (2, le_bytes 4 u))"
    by (simp add: enc_utf8_to_unicode_one_def le_bytes_4 byte_joins)
  then show ?thesis using assms by (simp add: encode_unicode_to_utf8_one_def)
qed

lemma roundtrip_3:
  assumes "0x7FF < u" "u \<le> 0xFFFF"
  shows "\<exists>b1 b2 b3. encode_unicode_to_utf8_one u 6 = Some [b1, b2, b3]
    \<and> enc_utf8_to_unicode_one (b1 # b2 # b3 # rest) [0, 0, 0, 0] = Some (3, le_bytes 4 u)"
proof -
  have "u < 2 ^ 16" using assms by (simp add: word_le_nat_alt word_less_nat_alt)
  then have z: "\<not> bit u n" if "16 \<le> n" for n using small_bits that by blast
  let ?b1 = "ucast ((drop_bit 12 u AND 0x0F) OR 0xE0) :: byte" and ?b2 = "ucast ((drop_bit 6 u AND 0x3F) OR 0x80) :: byte"
    and ?b3 = "ucast ((u AND 0x3F) OR 0x80) :: byte"
  have "enc_get_utf8_size ?b1 = 3" by (rule lead_size) (simp_all add: bit_simps)
  moreover have "push_bit 6 ?b2 OR (?b3 AND 0x3F) = ucast u" by (rule byte_eqI) (simp_all add: bit_simps)
  moreover have "push_bit 4 ?b1 OR (drop_bit 2 ?b2 AND 0x0F) = ucast (drop_bit 8 u)" by (rule byte_eqI) (simp_all add: bit_simps z)
  moreover have "drop_bit 16 u = 0" "drop_bit 24 u = 0" by (rule bit_word_eqI, simp add: bit_simps z)+
  ultimately have "enc_utf8_to_unicode_one (?b1 # ?b2 # ?b3 # rest) [0, 0, 0, 0] = Some (3, le_bytes 4 u)"
    by (simp add: enc_utf8_to_unicode_one_def le_bytes_4 byte_joins)
  moreover have "\<not> u \<le> 0x7F" "\<not> u \<le> 0x7FF" using assms by (auto simp: word_le_nat_alt word_less_nat_alt)
  ultimately show ?thesis using assms by (simp add: encode_unicode_to_utf8_one_def)
qed

lemma roundtrip_4:
  assumes "0xFFFF < u" "u \<le> 0x1FFFFF"
  shows "\<exists>b1 b2 b3 b4. encode_unicode_to_utf8_one u 6 = Some [b1, b2, b3, b4]
    \<and> enc_utf8_to_unicode_one (b1 # b2 # b3 # b4 # rest) [0, 0, 0, 0] = Some (4, le_bytes 4 u)"
proof -
  have "u < 2 ^ 21" using assms by (simp add: word_le_nat_alt word_less_nat_alt)
  then have z: "\<not> bit u n" if "21 \<le> n" for n using small_bits that by blast
  let ?b1 = "ucast ((drop_bit 18 u AND 0x07) OR 0xF0) :: byte" and ?b2 = "ucast ((drop_bit 12 u AND 0x3F) OR 0x80) :: byte"
    and ?b3 = "ucast ((drop_bit 6 u AND 0x3F) OR 0x80) :: byte" and ?b4 = "ucast ((u AND 0x3F) OR 0x80) :: byte"
  have "enc_get_utf8_size ?b1 = 4" by (rule lead_size) (simp_all add: bit_simps)
  moreover have "push_bit 6 ?b3 OR (?b4 AND 0x3F) = ucast u" by (rule byte_eqI) (simp_all add: bit_simps)
  moreover have "push_bit 4 ?b2 OR (drop_bit 2 ?b3 AND 0x0F) = ucast (drop_bit 8 u)" by (rule byte_eqI) (simp_all add: bit_simps)
  moreover have "(push_bit 2 ?b1 AND 0x1C) OR (drop_bit 4 ?b2 AND 0x03) = ucast (drop_bit 16 u)"
    by (rule byte_eqI) (simp_all add: bit_simps z)
  moreover have "drop_bit 24 u = 0" by (rule bit_word_eqI) (simp add: bit_simps z)
  ultimately have "enc_utf8_to_unicode_one (?b1 # ?b2 # ?b3 # ?b4 # rest) [0, 0, 0, 0] = Some (4, le_bytes 4 u)"
    by (simp add: enc_utf8_to_unicode_one_def le_bytes_4 byte_joins)
  moreover have "\<not> u \<le> 0x7F" "\<not> u \<le> 0x7FF" "\<not> u \<le> 0xFFFF" using assms by (auto simp: word_le_nat_alt word_less_nat_alt)
  ultimately show ?thesis using assms by (simp add: encode_unicode_to_utf8_one_def)
qed

text \<open>C32: Encoding a character up to 0x1FFFFF in UTF-8 and decoding the bytes, whatever follows them, gives the character and
  the number of its bytes, except for the characters from 0x80 to 0x7FF whose bit 5 is set, half of those of two
  bytes: these are refused as malformed.\<close>

theorem utf8_roundtrip:
  assumes "u \<le> 0x1FFFFF"
  shows "\<exists>bs. encode_unicode_to_utf8_one u 6 = Some bs
    \<and> enc_utf8_to_unicode_one (bs @ rest) [0, 0, 0, 0]
        = Some (if 0x7F < u \<and> u \<le> 0x7FF \<and> bit u 5 then (0, [0, 0, 0, 0]) else (int (length bs), le_bytes 4 u))"
proof -
  consider "u \<le> 0x7F" | "0x7F < u" "u \<le> 0x7FF" | "0x7FF < u" "u \<le> 0xFFFF" | "0xFFFF < u" using linear by (meson not_le)
  then show ?thesis
  proof cases
    case 1
    then show ?thesis using roundtrip_1(1) [OF 1] roundtrip_1(2) [OF 1, of rest] by (auto simp: not_le [symmetric])
  next
    case 2
    then obtain b1 b2 where "encode_unicode_to_utf8_one u 6 = Some [b1, b2]"
      "enc_utf8_to_unicode_one (b1 # b2 # rest) [0, 0, 0, 0] = Some (if bit u 5 then (0, [0, 0, 0, 0]) else (2, le_bytes 4 u))"
      using roundtrip_2 [of u rest] by blast
    then show ?thesis using 2 by auto
  next
    case 3
    then obtain b1 b2 b3 where "encode_unicode_to_utf8_one u 6 = Some [b1, b2, b3]"
      "enc_utf8_to_unicode_one (b1 # b2 # b3 # rest) [0, 0, 0, 0] = Some (3, le_bytes 4 u)"
      using roundtrip_3 [of u rest] by blast
    then show ?thesis using 3 by (auto simp: not_le [symmetric])
  next
    case 4
    then obtain b1 b2 b3 b4 where "encode_unicode_to_utf8_one u 6 = Some [b1, b2, b3, b4]"
      "enc_utf8_to_unicode_one (b1 # b2 # b3 # b4 # rest) [0, 0, 0, 0] = Some (4, le_bytes 4 u)"
      using roundtrip_4 [of u rest] assms by blast
    moreover have "\<not> u \<le> 0x7FF" using 4 by (auto simp: word_le_nat_alt word_less_nat_alt)
    ultimately show ?thesis by auto
  qed
qed

theorem utf8_roundtrip_witness:
  "\<exists>bs. encode_unicode_to_utf8_one 0x6C34 6 = Some bs \<and> enc_utf8_to_unicode_one bs [0, 0, 0, 0] = Some (int (length bs), le_bytes 4 (0x6C34 :: u32))"
  using utf8_roundtrip [of "0x6C34" "[]"] by simp

text \<open>The longer forms are decoded wrongly: the upper bits of a five-byte character are lost.\<close>

lemma utf8_five_bytes_lost:
  "encode_unicode_to_utf8_one 0x1200000 6 = Some [0xF9, 0x88, 0x80, 0x80, 0x80]"
  "enc_utf8_to_unicode_one [0xF9, 0x88, 0x80, 0x80, 0x80] [0, 0, 0, 0] = Some (5, [0, 0, 0x20, 0x40])"
  by code_simp+

section \<open>The test for UTF-8\<close>

text \<open>Texts of characters of one to six bytes; the lead bytes 0xFE and 0xFF, which UTF-8 does not have, count as five.\<close>

definition lead_more :: "byte \<Rightarrow> nat option" where
  "lead_more c = (if c < 0x80 then Some 0 else if c < 0xC0 then None else if c < 0xE0 then Some 1 else if c < 0xF0 then Some 2
     else if c < 0xF8 then Some 3 else if c = 0xFC \<or> c = 0xFD then Some 5 else Some 4)"

inductive utf8_text :: "byte list \<Rightarrow> bool" where
  utf8_empty: "utf8_text []"
| utf8_char: "lead_more c = Some (length cs) \<Longrightarrow> list_all continues cs \<Longrightarrow> utf8_text t \<Longrightarrow> utf8_text (c # cs @ t)"

lemma is_utf8_lead: "is_utf8_loop (c # s) 0 \<longleftrightarrow> (case lead_more c of None \<Rightarrow> False | Some n \<Rightarrow> is_utf8_loop s n)"
  by (auto simp: lead_more_def word_le_nat_alt word_less_nat_alt word_unat_eq_iff)

lemma is_utf8_more: "is_utf8_loop s n \<longleftrightarrow> n \<le> length s \<and> list_all continues (take n s) \<and> is_utf8_loop (drop n s) 0"
  by (induction s n rule: is_utf8_loop.induct) (auto simp: continues_def take_Cons' drop_Cons' split: if_splits)

lemma is_utf8_text: "is_utf8_loop s 0 \<Longrightarrow> utf8_text s"
proof (induction s rule: length_induct)
  case (1 s)
  show ?case
  proof (cases s)
    case Nil
    then show ?thesis by (simp add: utf8_empty)
  next
    case (Cons c r)
    then obtain n where n: "lead_more c = Some n" "is_utf8_loop r n" using 1(2) is_utf8_lead [of c r] by (auto split: option.splits)
    then have r: "n \<le> length r" "list_all continues (take n r)" "is_utf8_loop (drop n r) 0" using is_utf8_more [of r n] by blast+
    have "length (drop n r) < length s" using Cons by simp
    then have "utf8_text (drop n r)" using 1(1) r(3) by blast
    then have "utf8_text (c # take n r @ drop n r)" using n(1) r(1,2) by (intro utf8_char) simp_all
    then show ?thesis using Cons by simp
  qed
qed

text \<open>C33: \<open>ln_is_str_utf8\<close> accepts exactly the texts made of lead bytes followed by as many continuation bytes as they announce.\<close>

theorem is_str_utf8_grammar: "ln_is_str_utf8 s \<longleftrightarrow> utf8_text s"
proof
  show "ln_is_str_utf8 s \<Longrightarrow> utf8_text s" using is_utf8_text by (simp add: ln_is_str_utf8_def)
  assume "utf8_text s"
  then have "is_utf8_loop s 0"
  proof induction
    case (utf8_char c cs t)
    then show ?case using is_utf8_lead [of c "cs @ t"] is_utf8_more [of "cs @ t" "length cs"] by simp
  qed simp
  then show "ln_is_str_utf8 s" by (simp add: ln_is_str_utf8_def)
qed

section \<open>The conversion to BIG5\<close>

datatype uchar = Ascii byte | Three byte byte byte

primrec uchar_bytes :: "uchar \<Rightarrow> byte list" where
  "uchar_bytes (Ascii c) = [c]"
| "uchar_bytes (Three b1 b2 b3) = [b1, b2, b3]"

definition three_value :: "byte \<Rightarrow> byte \<Rightarrow> byte \<Rightarrow> u16" where
  "three_value b1 b2 b3 = le_word [push_bit 6 b2 + (b3 AND 0x3F), push_bit 4 b1 + (drop_bit 2 b2 AND 0x0F)]"

primrec uchar_ok :: "uchar \<Rightarrow> bool" where
  "uchar_ok (Ascii c) \<longleftrightarrow> c < 0x80"
| "uchar_ok (Three b1 b2 b3) \<longleftrightarrow> 0xE0 \<le> b1 \<and> b1 \<le> 0xEF \<and> 0x80 \<le> b2 \<and> b2 \<le> 0xBF \<and> 0x80 \<le> b3 \<and> b3 \<le> 0xBF
     \<and> three_value b1 b2 b3 \<noteq> 0"

primrec uchar_big5 :: "code_table \<Rightarrow> uchar \<Rightarrow> byte list" where
  "uchar_big5 tab5 (Ascii c) = [c]"
| "uchar_big5 tab5 (Three b1 b2 b3) = the (encode_unicode_one_to_big5 tab5 (three_value b1 b2 b3))"

text \<open>What makes the loop stand still.\<close>

definition stuck :: "byte list \<Rightarrow> bool" where
  "stuck s \<longleftrightarrow> 3 \<le> length s \<and> 0x80 \<le> s ! 0
     \<and> \<not> (0xE0 \<le> s ! 0 \<and> s ! 0 \<le> 0xEF \<and> 0x80 \<le> s ! 1 \<and> s ! 1 \<le> 0xBF \<and> 0x80 \<le> s ! 2 \<and> s ! 2 \<le> 0xBF)"

lemma stuck_hangs:
  assumes "utf8_to_big5_loop tab5 s unicode out = Some y"
  shows "\<not> stuck s"
proof (rule utf8_to_big5_loop.raw_induct [where P = "\<lambda>tab5 s unicode out y. \<not> stuck s", OF _ assms], rule notI)
  fix loop tab5 s unicode out y
  assume IH: "\<And>tab5 s unicode out y. loop tab5 s unicode out = Some y \<Longrightarrow> \<not> stuck s" and st: "stuck s"
    and body: "(case s of
        [] \<Rightarrow> Some out
      | chr # r \<Rightarrow>
          if 0x80 \<le> chr \<and> 2 \<le> length r then
            let chr2 = r ! 0; chr3 = r ! 1 in
            if 0xE0 \<le> chr \<and> chr \<le> 0xEF \<and> 0x80 \<le> chr2 \<and> chr2 \<le> 0xBF \<and> 0x80 \<le> chr3 \<and> chr3 \<le> 0xBF then do {
              (_, u) \<leftarrow> enc_utf8_to_unicode_one [chr, chr2, chr3, 0] (le_bytes 2 unicode);
              bs \<leftarrow> encode_unicode_one_to_big5 tab5 (le_word u);
              loop tab5 (drop 2 r) (le_word u) (out @ bs) }
            else loop tab5 s unicode out
          else loop tab5 r unicode (out @ [chr])) = Some y"
  obtain c r where s: "s = c # r" "2 \<le> length r" using st by (cases s) (auto simp: stuck_def)
  then have "loop tab5 s unicode out = Some y"
    using body st by (auto simp: stuck_def Let_def numeral_2_eq_2 split: if_splits)
  then show False using IH st by blast
qed

lemma continues_range: "continues b \<longleftrightarrow> 0x80 \<le> b \<and> b \<le> 0xBF"
proof -
  have "continues b \<longleftrightarrow> bit b 7 \<and> \<not> bit b 6"
  proof
    assume "continues b"
    then have "bit (b AND 0xC0) 7 = bit (0x80 :: byte) 7" "bit (b AND 0xC0) 6 = bit (0x80 :: byte) 6" by (simp_all add: continues_def)
    then show "bit b 7 \<and> \<not> bit b 6" by (simp add: bit_simps)
  next
    assume "bit b 7 \<and> \<not> bit b 6"
    then show "continues b" unfolding continues_def by (intro byte_eqI) (simp_all add: bit_simps)
  qed
  then show ?thesis by (auto simp: word_le_nat_alt byte_value of_bool_def split: if_splits)
qed

lemma big5_ascii: "c < 0x80 \<Longrightarrow> utf8_to_big5_loop tab5 (c # r) u out = utf8_to_big5_loop tab5 r u (out @ [c])"
  by (subst utf8_to_big5_loop.simps) (simp add: word_le_nat_alt word_less_nat_alt)

lemma big5_three:
  assumes "uchar_ok (Three b1 b2 b3)"
  shows "utf8_to_big5_loop tab5 (b1 # b2 # b3 # r) u out
    = utf8_to_big5_loop tab5 r (three_value b1 b2 b3) (out @ uchar_big5 tab5 (Three b1 b2 b3))"
proof -
  have sz: "enc_get_utf8_size b1 = 3" "0x80 \<le> b1"
    using assms by (auto simp: enc_get_utf8_size_def word_le_nat_alt word_less_nat_alt)
  have "enc_utf8_to_unicode_one [b1, b2, b3, 0] (le_bytes 2 u)
      = Some (3, [push_bit 6 b2 + (b3 AND 0x3F), push_bit 4 b1 + (drop_bit 2 b2 AND 0x0F)])"
    using sz(1) assms by (simp add: enc_utf8_to_unicode_one_def continues_range le_bytes_numeral)
  moreover have "\<exists>bs. encode_unicode_one_to_big5 tab5 (three_value b1 b2 b3) = Some bs"
    using assms by (auto simp: encode_unicode_one_to_big5_def split: option.split)
  ultimately show ?thesis
    using assms sz(2) by (subst utf8_to_big5_loop.simps) (auto simp: three_value_def [symmetric] simp del: le_word.simps)
qed

lemma big5_prefix:
  assumes "list_all uchar_ok us"
  shows "\<exists>u'. utf8_to_big5_loop tab5 (concat (map uchar_bytes us) @ s) u out
    = utf8_to_big5_loop tab5 s u' (out @ concat (map (uchar_big5 tab5) us))"
  using assms
proof (induction us arbitrary: u out)
  case (Cons x us)
  show ?case
  proof (cases x)
    case (Ascii c)
    then show ?thesis using Cons.prems Cons.IH [of u "out @ [c]"]
        big5_ascii [of c tab5 "concat (map uchar_bytes us) @ s" u out] by auto
  next
    case (Three b1 b2 b3)
    then show ?thesis using Cons.prems Cons.IH [of "three_value b1 b2 b3" "out @ uchar_big5 tab5 x"]
        big5_three [of b1 b2 b3 tab5 "concat (map uchar_bytes us) @ s" u out] by auto
  qed
qed auto

text \<open>\<open>ln_encode_utf8_to_big5\<close> converts a text of ASCII and three-byte characters character by character, dropping those without a
  code.  If such a text is followed by a byte above 0x7F that does not start a three-byte character and has two more behind it,
  as a two-byte or four-byte character inside a text, the function does not return, although the text passes the test for UTF-8.\<close>

lemma utf8_to_big5_returns:
  assumes "list_all uchar_ok us"
  shows "ln_encode_utf8_to_big5 tab5 garbage (Some (concat (map uchar_bytes us))) = Some (concat (map (uchar_big5 tab5) us))
    \<and> (\<forall>s. stuck s \<longrightarrow> ln_encode_utf8_to_big5 tab5 garbage (Some (concat (map uchar_bytes us) @ s)) = None)"
proof (intro conjI allI impI)
  obtain u' where "utf8_to_big5_loop tab5 (concat (map uchar_bytes us) @ []) garbage []
      = utf8_to_big5_loop tab5 [] u' ([] @ concat (map (uchar_big5 tab5) us))"
    using big5_prefix [OF assms, of tab5 "[]" garbage "[]"] by blast
  then show "ln_encode_utf8_to_big5 tab5 garbage (Some (concat (map uchar_bytes us))) = Some (concat (map (uchar_big5 tab5) us))"
    by (simp add: ln_encode_utf8_to_big5_def utf8_to_big5_loop.simps [of tab5 "[]"])
next
  fix s assume "stuck s"
  then have "utf8_to_big5_loop tab5 s u out = None" for u out using stuck_hangs by (metis not_None_eq)
  then show "ln_encode_utf8_to_big5 tab5 garbage (Some (concat (map uchar_bytes us) @ s)) = None"
    using big5_prefix [OF assms, of tab5 s garbage "[]"] by (auto simp: ln_encode_utf8_to_big5_def)
qed

lemma utf8_to_big5_returns_witness:
  "ln_encode_utf8_to_big5 [(0xA4F4, 0x6C34)] 0 (Some [0xE6, 0xB0, 0xB4, 0x31]) = Some [0xA4, 0xF4, 0x31]
    \<and> ln_encode_utf8_to_big5 [(0xA4F4, 0x6C34)] 0 (Some [0xE6, 0xB0, 0xB4, 0x31, 0xC3, 0xA9, 0x31]) = None
    \<and> ln_is_str_utf8 [0xE6, 0xB0, 0xB4, 0x31, 0xC3, 0xA9, 0x31]"
proof -
  have ok: "list_all uchar_ok [Three 0xE6 0xB0 0xB4, Ascii 0x31]" by (simp add: three_value_def)
  have "stuck [0xC3, 0xA9, 0x31]" by (simp add: stuck_def)
  moreover have "ln_is_str_utf8 [0xE6, 0xB0, 0xB4, 0x31, 0xC3, 0xA9, 0x31]" by (simp add: ln_is_str_utf8_def)
  ultimately show ?thesis using utf8_to_big5_returns [OF ok, of "[(0xA4F4, 0x6C34)]" 0]
    by (auto simp: three_value_def encode_unicode_one_to_big5_def)
qed

end
