(* ===== verification/Smartlink.thy ===== *)
theory Smartlink
  imports Arrays
begin

unbundle bit_operations_syntax

text \<open>
  What the two ways of receiving the Wi-Fi configuration by air have in common, \<^verbatim>\<open>components/smartlink\<close>: the header of an IEEE 802.11
  frame, the checksum, with a different polynomial in each, and the timer callback that changes the channel.
\<close>

section \<open>Frames\<close>

text \<open>A structure of 24 bytes that is laid over the bytes received.\<close>

definition sizeof_ieee80211_frame :: nat where
  "sizeof_ieee80211_frame = 24"

definition i_addr2 :: "byte list \<Rightarrow> nat \<Rightarrow> byte option" where
  "i_addr2 f i = at_pos f (10 + i)"

definition i_addr3 :: "byte list \<Rightarrow> nat \<Rightarrow> byte option" where
  "i_addr3 f i = at_pos f (16 + i)"

section \<open>The checksum\<close>

primrec rcrc8_bits :: "byte \<Rightarrow> nat \<Rightarrow> byte \<Rightarrow> byte" where
  "rcrc8_bits poly 0 crc = crc"
| "rcrc8_bits poly (Suc n) crc =
     rcrc8_bits poly n (if crc AND 0x01 \<noteq> 0 then drop_bit 1 crc XOR poly else drop_bit 1 crc)"

primrec rcrc8_loop :: "byte \<Rightarrow> byte list \<Rightarrow> byte \<Rightarrow> byte" where
  "rcrc8_loop poly [] crc = crc"
| "rcrc8_loop poly (b # bs) crc = rcrc8_loop poly bs (rcrc8_bits poly 8 (crc XOR b))"

section \<open>Channels\<close>

text \<open>The callback counts the channel up until its bit is set in the map.\<close>

partial_function (option) hop_loop :: "nat \<Rightarrow> u16 \<Rightarrow> nat \<Rightarrow> nat option" where
  "hop_loop modulus cmap idx =
     (let idx = (idx + 1) mod modulus in if bit cmap idx then Some idx else hop_loop modulus cmap idx)"

lemma hop_loop_found:
  assumes "hop_loop modulus cmap idx = Some j"
  shows "0 < modulus \<longrightarrow> j < modulus \<and> bit cmap j"
  by (rule hop_loop.raw_induct [OF _ assms]) (auto simp: Let_def split: if_splits)

text \<open>The distance to the next channel of the map.\<close>

lemma hop_loop_reaches:
  assumes "bit cmap ((idx + Suc k) mod modulus)" "0 < modulus"
  shows "\<exists>j. hop_loop modulus cmap idx = Some j"
  using assms
proof (induction k arbitrary: idx)
  case 0
  then show ?case by (subst hop_loop.simps) (auto simp: Let_def)
next
  case (Suc k)
  have "bit cmap (((idx + 1) mod modulus + Suc k) mod modulus)" 
    using Suc.prems by (simp only: mod_add_left_eq) simp
  then have "\<exists>j. hop_loop modulus cmap ((idx + 1) mod modulus) = Some j" using Suc by blast
  then show ?case by (subst hop_loop.simps) (auto simp: Let_def)
qed

lemma hop_loop_returns:
  assumes "0 < modulus"
  shows "(\<exists>j. hop_loop modulus cmap idx = Some j) \<longleftrightarrow> (\<exists>j < modulus. bit cmap j)"
proof
  assume "\<exists>j < modulus. bit cmap j"
  then obtain j where j: "j < modulus" "bit cmap j" by blast
  define k where "k = j + modulus - 1 - idx mod modulus"
  have "idx mod modulus < modulus" using assms by simp
  then have e: "idx mod modulus + Suc k = j + modulus" using j(1) unfolding k_def by linarith
  have "(idx + Suc k) mod modulus = (idx mod modulus + Suc k) mod modulus" by (simp only: mod_add_left_eq)
  then have "(idx + Suc k) mod modulus = j" using j(1) by (simp only: e) simp
  then show "\<exists>j. hop_loop modulus cmap idx = Some j" using hop_loop_reaches [of cmap idx k modulus] j(2) assms by simp
qed (use hop_loop_found assms in blast)

end
