(* ===== verification/Smartcfg.thy ===== *)
theory Smartcfg
  imports Smartlink
begin

unbundle bit_operations_syntax

text \<open>
  The configuration by multicast frames, \<^verbatim>\<open>components/smartlink/smartcfg/ln_smartcfg.c\<close>: a phone sends frames whose destination
  addresses carry the name and the password of the network, and the device listens on one channel after the other.  Four numbered
  frames, the lead code, tell the lengths; the others carry two bytes each.  The static variables are the record \<open>smartcfg\<close>;
  the two result pointers always point to the two static arrays.  \<open>None\<close> is an access outside an array or through
  the null pointer.
\<close>

section \<open>Data\<close>

definition WLAN_SSID_MAX_LEN :: nat where "WLAN_SSID_MAX_LEN = 33"
definition WLAN_PWD_MAX_LEN :: nat where "WLAN_PWD_MAX_LEN = 64"
definition SC_MAX_SSIDPWD_LEN :: nat where "SC_MAX_SSIDPWD_LEN = 128"
definition SC_PKT_BYTE_MARK_LEN :: nat where "SC_PKT_BYTE_MARK_LEN = (SC_MAX_SSIDPWD_LEN div 2) div 8"
definition PACKET_NUM_MAX :: byte where "PACKET_NUM_MAX = 127"
definition SC_MAGIC_ADD0 :: byte where "SC_MAGIC_ADD0 = 0x01"
definition SC_MAGIC_ADD1 :: byte where "SC_MAGIC_ADD1 = 0x00"
definition SC_MAGIC_ADD2 :: byte where "SC_MAGIC_ADD2 = 0x5E"

datatype sc_state = SC_STATE_IDLE | SC_STATE_SEARCH_CHAN | SC_STATE_LOCKED_CHAN | SC_STATE_DECODE_ERR | SC_STATE_COMPLETE

definition LEAD_CODE_SEQ_NONE :: byte where "LEAD_CODE_SEQ_NONE = 0"
definition LEAD_CODE_SEQ_CHANNEL :: byte where "LEAD_CODE_SEQ_CHANNEL = 1"
definition LEAD_CODE_SEQ_SSIDPWD_SIZE :: byte where "LEAD_CODE_SEQ_SSIDPWD_SIZE = 2"
definition LEAD_CODE_SEQ_PWD_SIZE :: byte where "LEAD_CODE_SEQ_PWD_SIZE = 3"
definition LEAD_CODE_SEQ_RANDOM :: byte where "LEAD_CODE_SEQ_RANDOM = 4"
definition LEAD_CODE_SEQ_COMPLETE :: byte where "LEAD_CODE_SEQ_COMPLETE = 5"

lemmas smartcfg_consts = WLAN_SSID_MAX_LEN_def WLAN_PWD_MAX_LEN_def SC_MAX_SSIDPWD_LEN_def SC_PKT_BYTE_MARK_LEN_def PACKET_NUM_MAX_def
  SC_MAGIC_ADD0_def SC_MAGIC_ADD1_def SC_MAGIC_ADD2_def LEAD_CODE_SEQ_NONE_def LEAD_CODE_SEQ_CHANNEL_def
  LEAD_CODE_SEQ_SSIDPWD_SIZE_def LEAD_CODE_SEQ_PWD_SIZE_def LEAD_CODE_SEQ_RANDOM_def LEAD_CODE_SEQ_COMPLETE_def

record lc =
  lc_channel :: byte
  lc_ssidpwd_len :: byte
  lc_pwd_len :: byte
  lc_random :: byte
  lc_mark :: byte
  lc_expect_total_pkt :: byte
  lc_pkt_count :: byte
  is_lc_complete :: bool
  lc_pkt_mark :: "byte list"

record sc_result =
  res_ssid_len :: byte
  res_pwd_len :: byte
  res_random :: byte

record sc_ctl =
  sc_aes_key :: "byte list option"
  sc_recvbuff :: "byte list"
  sc_lead_code :: lc
  sc_result :: sc_result
  sc_state :: sc_state
  sc_is_ch_hopping :: bool
  sc_ch_map :: u16

text \<open>What the port is asked to do: start and stop the channel timer and the sniffer, and set the channel.\<close>

datatype sc_call = Hop_Start u16 | Hop_Stop | Sniffer_Enable | Sniffer_Disable | Set_Channel nat

record smartcfg =
  sc_ctl :: "sc_ctl option"
  sc_ssid :: "byte list"
  sc_pwd :: "byte list"
  sc_random :: byte
  sc_hop_idx :: nat
  sc_calls :: "sc_call list"

definition smartcfg_boot :: smartcfg where
  "smartcfg_boot = \<lparr>sc_ctl = None, sc_ssid = replicate WLAN_SSID_MAX_LEN 0, sc_pwd = replicate (WLAN_PWD_MAX_LEN + 1) 0, sc_random = 0,
     sc_hop_idx = 0, sc_calls = []\<rparr>"

section \<open>Decoding\<close>

definition cal_crc8 :: "byte list \<Rightarrow> byte" where
  "cal_crc8 bs = rcrc8_loop 0x31 bs 0x00"

text \<open>The hardware decryption is not written yet: the output stays as it is.\<close>

definition ln_sc_aes_decrypt :: "byte list \<Rightarrow> byte list \<Rightarrow> byte list \<Rightarrow> bool \<times> byte list" where
  "ln_sc_aes_decrypt key enc_data dec_buf = (True, dec_buf)"

definition aes_ebc_decrypt :: "byte list \<Rightarrow> byte list \<Rightarrow> byte list \<Rightarrow> bool \<times> byte list" where
  "aes_ebc_decrypt inp out key = ln_sc_aes_decrypt key inp out"

text \<open>The last byte tells how many bytes of padding there are, and each of them is that number.\<close>

primrec sc_padding :: "byte list \<Rightarrow> nat \<Rightarrow> byte \<Rightarrow> nat list \<Rightarrow> bool option" where
  "sc_padding temp_buf sz dlen [] = Some True"
| "sc_padding temp_buf sz dlen (i # is) =
     (if sz < i + 1 then None
      else do {
        temp_val \<leftarrow> at_pos temp_buf (sz - 1 - i);
        if temp_val \<noteq> dlen then Some False else sc_padding temp_buf sz dlen is })"

definition sc_decrypt_part :: "byte list \<Rightarrow> byte list \<Rightarrow> byte \<Rightarrow> byte \<times> byte list \<Rightarrow> (bool \<times> byte \<times> byte list) option" where
  "sc_decrypt_part key src sz = (\<lambda>(dst_len, dst).
     if sz = 0 then Some (True, dst_len, dst)
     else (case aes_ebc_decrypt src (replicate 66 0) key of (ok, temp_buf) \<Rightarrow>
        if \<not> ok then Some (True, dst_len, dst)
        else do {
          dlen \<leftarrow> at_pos temp_buf (unat sz - 1);
          good \<leftarrow> sc_padding temp_buf (unat sz) dlen [0..<unat dlen];
          if \<not> good then Some (False, dst_len, dst)
          else if 0 \<notin> set temp_buf then None
          else do { dst \<leftarrow> put_run 0 (c_str temp_buf) dst; Some (True, sz - dlen, dst) } }))"

text \<open>The name and the password taken out of the receive buffer.\<close>

definition sc_take_out :: "sc_ctl \<Rightarrow> byte list \<Rightarrow> byte list \<Rightarrow> (bool \<times> sc_ctl \<times> byte list \<times> byte list) option" where
  "sc_take_out ctl ssid pwd =
     (let lead = sc_lead_code ctl;
          src_ssid_size = lc_ssidpwd_len lead - lc_pwd_len lead;
          src_pwd_size = lc_pwd_len lead in
        case sc_aes_key ctl of
          Some key \<Rightarrow>
            if 66 \<le> src_pwd_size \<or> 65 \<le> src_ssid_size then Some (False, ctl, ssid, pwd)
            else do {
              src_pwd_data \<leftarrow> get_run 0 (unat src_pwd_size) (sc_recvbuff ctl);
              (ok, plen, pwd) \<leftarrow> sc_decrypt_part key src_pwd_data src_pwd_size (res_pwd_len (sc_result ctl), pwd);
              let ctl = ctl\<lparr>sc_result := sc_result ctl\<lparr>res_pwd_len := plen\<rparr>\<rparr>;
              if \<not> ok then Some (False, ctl, ssid, pwd)
              else do {
                src_ssid_data \<leftarrow> get_run (unat src_pwd_size) (unat src_ssid_size) (sc_recvbuff ctl);
                (ok, slen, ssid) \<leftarrow> sc_decrypt_part key src_ssid_data src_ssid_size (res_ssid_len (sc_result ctl), ssid);
                let ctl = ctl\<lparr>sc_result := sc_result ctl\<lparr>res_ssid_len := slen\<rparr>\<rparr>;
                if \<not> ok then Some (False, ctl, ssid, pwd)
                else do {
                  pwd \<leftarrow> put_pos (unat plen) 0 pwd;
                  ssid \<leftarrow> put_pos (unat slen) 0 ssid;
                  Some (True, ctl, ssid, pwd) } } }
        | None \<Rightarrow> do {
            src_ssid_data \<leftarrow> get_run (unat src_pwd_size) (unat src_ssid_size) (sc_recvbuff ctl);
            ssid \<leftarrow> put_run 0 src_ssid_data ssid;
            src_pwd_data \<leftarrow> get_run 0 (unat src_pwd_size) (sc_recvbuff ctl);
            pwd \<leftarrow> put_run 0 src_pwd_data pwd;
            pwd \<leftarrow> put_pos (unat src_pwd_size) 0 pwd;
            ssid \<leftarrow> put_pos (unat src_ssid_size) 0 ssid;
            Some (True, ctl\<lparr>sc_result := sc_result ctl\<lparr>res_ssid_len := src_ssid_size, res_pwd_len := src_pwd_size\<rparr>\<rparr>, ssid, pwd) })"

definition sc_clear_recvbuff :: "sc_ctl \<Rightarrow> sc_ctl" where
  "sc_clear_recvbuff ctl = ctl\<lparr>sc_recvbuff := replicate SC_MAX_SSIDPWD_LEN 0\<rparr>"

definition ln_sc_decode :: "sc_ctl \<Rightarrow> byte list \<Rightarrow> byte list \<Rightarrow> (bool \<times> sc_ctl \<times> byte list \<times> byte list) option" where
  "ln_sc_decode ctl ssid pwd = do {
     (ok, ctl, ssid, pwd) \<leftarrow> sc_take_out ctl ssid pwd;
     if \<not> ok then Some (False, ctl, ssid, pwd)
     else
       let lead = sc_lead_code ctl;
           ctl = ctl\<lparr>sc_result := sc_result ctl\<lparr>res_random := lc_random lead\<rparr>\<rparr>;
           i = unat (lc_ssidpwd_len lead mod 2) in
       do {
         crc8 \<leftarrow> at_pos (sc_recvbuff ctl) (unat (lc_ssidpwd_len lead) + i);
         pwd_bytes \<leftarrow> get_run 0 (unat (res_pwd_len (sc_result ctl))) pwd;
         if crc8 \<noteq> cal_crc8 pwd_bytes then Some (False, sc_clear_recvbuff ctl, ssid, pwd)
         else do {
           crc8 \<leftarrow> at_pos (sc_recvbuff ctl) (unat (lc_ssidpwd_len lead) + i + 1);
           ssid_bytes \<leftarrow> get_run 0 (unat (res_ssid_len (sc_result ctl))) ssid;
           Some (crc8 = cal_crc8 ssid_bytes, sc_clear_recvbuff ctl, ssid, pwd) } } }"

section \<open>Receiving\<close>

definition sc_lead_take :: "byte \<Rightarrow> byte \<Rightarrow> byte \<Rightarrow> lc \<Rightarrow> lc" where
  "sc_lead_take data crc packet_num lead =
     (if crc \<noteq> cal_crc8 [data] then lead
      else if packet_num = LEAD_CODE_SEQ_CHANNEL
      then lead\<lparr>lc_channel := data, lc_mark := lc_mark lead OR push_bit (unat LEAD_CODE_SEQ_CHANNEL) 1\<rparr>
      else if packet_num = LEAD_CODE_SEQ_SSIDPWD_SIZE
      then lead\<lparr>lc_ssidpwd_len := data, lc_mark := lc_mark lead OR push_bit (unat LEAD_CODE_SEQ_SSIDPWD_SIZE) 1,
                lc_expect_total_pkt := data div 2 + data mod 2 + 1\<rparr>
      else if packet_num = LEAD_CODE_SEQ_PWD_SIZE
      then lead\<lparr>lc_pwd_len := data, lc_mark := lc_mark lead OR push_bit (unat LEAD_CODE_SEQ_PWD_SIZE) 1\<rparr>
      else if packet_num = LEAD_CODE_SEQ_RANDOM
      then lead\<lparr>lc_random := data, lc_mark := lc_mark lead OR push_bit (unat LEAD_CODE_SEQ_RANDOM) 1\<rparr>
      else lead)"

definition ln_sc_lead_code_proc :: "byte list \<Rightarrow> lc \<Rightarrow> byte \<Rightarrow> lc option" where
  "ln_sc_lead_code_proc iframe lead packet_num = do {
     data \<leftarrow> i_addr3 iframe 4;
     crc \<leftarrow> i_addr3 iframe 5;
     Some
       (if packet_num = LEAD_CODE_SEQ_NONE \<or> LEAD_CODE_SEQ_RANDOM < packet_num then lead
        else if lc_mark lead AND 0x1E = 0x1E then
          if lc_pwd_len lead \<le> 63 \<and> lc_ssidpwd_len lead - lc_pwd_len lead \<le> 32 then lead\<lparr>is_lc_complete := True\<rparr>
          else sc_lead_take data crc packet_num
                 (lead\<lparr>lc_mark := lc_mark lead AND NOT (push_bit (unat LEAD_CODE_SEQ_SSIDPWD_SIZE) 1)
                                     AND NOT (push_bit (unat LEAD_CODE_SEQ_PWD_SIZE) 1)\<rparr>)
        else sc_lead_take data crc packet_num lead) }"

definition ln_sc_is_packet_valid :: "byte list \<Rightarrow> byte \<Rightarrow> (bool \<times> byte list) option" where
  "ln_sc_is_packet_valid pkt_mark data_index =
     (if SC_MAX_SSIDPWD_LEN < unat data_index * 2 then Some (False, pkt_mark)
      else do {
        byte_mark \<leftarrow> at_pos pkt_mark (unat data_index div 8);
        let bit_mark = push_bit (8 - unat data_index mod 8 - 1) 1;
        if byte_mark AND bit_mark \<noteq> 0 then Some (False, pkt_mark)
        else do {
          pkt_mark \<leftarrow> put_pos (unat data_index div 8) (byte_mark OR bit_mark) pkt_mark;
          Some (True, pkt_mark) } })"

text \<open>The number of packets still missing comes first.  The buffer holds half words; the target is little endian.\<close>

definition ln_sc_push_data :: "lc \<Rightarrow> byte \<Rightarrow> byte list \<Rightarrow> u16 \<Rightarrow> (int \<times> lc \<times> byte list) option" where
  "ln_sc_push_data lead packet_num recvbuff half_word = do {
     let data_index = packet_num - 5;
     (valid, marks) \<leftarrow> ln_sc_is_packet_valid (lc_pkt_mark lead) data_index;
     (lead, recvbuff) \<leftarrow>
       (if valid then do {
          recvbuff \<leftarrow> put_run (2 * unat data_index) (le_bytes 2 half_word) recvbuff;
          Some (lead\<lparr>lc_pkt_mark := marks, lc_pkt_count := lc_pkt_count lead + 1\<rparr>, recvbuff) }
        else Some (lead\<lparr>lc_pkt_mark := marks\<rparr>, recvbuff));
     Some (uint (lc_expect_total_pkt lead) - uint (lc_pkt_count lead), lead, recvbuff) }"

definition zero_result :: sc_result where
  "zero_result = \<lparr>res_ssid_len = 0, res_pwd_len = 0, res_random = 0\<rparr>"

text \<open>All packets have arrived.\<close>

definition sc_finish :: "sc_ctl \<Rightarrow> smartcfg \<Rightarrow> (sc_state \<times> smartcfg) option" where
  "sc_finish ctl g = do {
     (ok, ctl, ssid, pwd) \<leftarrow> ln_sc_decode ctl (sc_ssid g) (sc_pwd g);
     Some
       (if \<not> ok
        then (SC_STATE_DECODE_ERR,
              g\<lparr>sc_ctl := Some (ctl\<lparr>sc_lead_code := sc_lead_code ctl\<lparr>lc_pkt_count := 0, lc_pkt_mark := replicate SC_PKT_BYTE_MARK_LEN 0\<rparr>,
                                     sc_recvbuff := replicate SC_MAX_SSIDPWD_LEN 0, sc_result := zero_result\<rparr>),
                sc_ssid := replicate WLAN_SSID_MAX_LEN 0, sc_pwd := replicate (WLAN_PWD_MAX_LEN + 1) 0\<rparr>)
        else (SC_STATE_COMPLETE,
              g\<lparr>sc_ctl := Some ctl, sc_ssid := ssid, sc_pwd := pwd, sc_random := res_random (sc_result ctl)\<rparr>)) }"

definition ln_sc_recv_frame_proc :: "sc_ctl \<Rightarrow> byte list \<Rightarrow> smartcfg \<Rightarrow> (sc_state \<times> smartcfg) option" where
  "ln_sc_recv_frame_proc ctl iframe g = do {
     packet_num \<leftarrow> i_addr3 iframe 3;
     let state = sc_state ctl;
     let lead = sc_lead_code ctl;
     if LEAD_CODE_SEQ_NONE < packet_num \<and> packet_num < LEAD_CODE_SEQ_COMPLETE then
       if \<not> is_lc_complete lead then do {
         lead \<leftarrow> ln_sc_lead_code_proc iframe lead packet_num;
         Some (if is_lc_complete lead then SC_STATE_LOCKED_CHAN else state, g\<lparr>sc_ctl := Some (ctl\<lparr>sc_lead_code := lead\<rparr>)\<rparr>) }
       else Some (state, g)
     else if \<not> is_lc_complete lead then Some (state, g)
     else do {
       (diff, ctl) \<leftarrow>
         (if packet_num \<le> PACKET_NUM_MAX then do {
            lo \<leftarrow> i_addr3 iframe 4;
            hi \<leftarrow> i_addr3 iframe 5;
            (diff, lead, recvbuff) \<leftarrow> ln_sc_push_data lead packet_num (sc_recvbuff ctl) (ucast lo OR push_bit 8 (ucast hi));
            Some (diff, ctl\<lparr>sc_lead_code := lead, sc_recvbuff := recvbuff\<rparr>) }
          else Some (0, ctl));
       let g = g\<lparr>sc_ctl := Some ctl\<rparr>;
       if diff \<noteq> 0 then Some (state, g)
       else if state \<noteq> SC_STATE_COMPLETE \<and> lc_expect_total_pkt (sc_lead_code ctl) = lc_pkt_count (sc_lead_code ctl)
       then sc_finish ctl g
       else Some (state, g) } }"

definition ln_sc_sniffer_callback :: "byte list \<Rightarrow> smartcfg \<Rightarrow> smartcfg option" where
  "ln_sc_sniffer_callback frame g =
     (case sc_ctl g of
        None \<Rightarrow> Some g
      | Some ctl \<Rightarrow>
          if sc_state ctl = SC_STATE_COMPLETE then Some g
          else if length frame < sizeof_ieee80211_frame then Some g
          else do {
            let iframe = drop 1 frame;
            a0 \<leftarrow> i_addr3 iframe 0; a1 \<leftarrow> i_addr3 iframe 1; a2 \<leftarrow> i_addr3 iframe 2;
            if a0 \<noteq> SC_MAGIC_ADD0 \<or> a1 \<noteq> SC_MAGIC_ADD1 \<or> a2 \<noteq> SC_MAGIC_ADD2 then Some g
            else do {
              (curr_state, g) \<leftarrow> ln_sc_recv_frame_proc ctl iframe g;
              ctl \<leftarrow> sc_ctl g;
              Some
                (if curr_state = SC_STATE_LOCKED_CHAN \<and> sc_state ctl \<noteq> curr_state
                 then g\<lparr>sc_ctl := Some (ctl\<lparr>sc_state := curr_state, sc_is_ch_hopping := False\<rparr>), sc_calls := sc_calls g @ [Hop_Stop]\<rparr>
                 else if curr_state = SC_STATE_COMPLETE \<and> sc_state ctl \<noteq> SC_STATE_COMPLETE
                 then g\<lparr>sc_ctl := Some (ctl\<lparr>sc_state := curr_state\<rparr>)\<rparr>
                 else g) } })"

section \<open>Channels, start and stop\<close>

definition ln_sc_wifi_channel_hopping :: "u16 \<Rightarrow> smartcfg \<Rightarrow> smartcfg option" where
  "ln_sc_wifi_channel_hopping cmap g = do {
     idx \<leftarrow> hop_loop 14 cmap (sc_hop_idx g);
     Some (g\<lparr>sc_hop_idx := idx, sc_calls := sc_calls g @ [Set_Channel idx]\<rparr>) }"

definition zero_lc :: lc where
  "zero_lc = \<lparr>lc_channel = 0, lc_ssidpwd_len = 0, lc_pwd_len = 0, lc_random = 0, lc_mark = 0, lc_expect_total_pkt = 0,
     lc_pkt_count = 0, is_lc_complete = False, lc_pkt_mark = replicate SC_PKT_BYTE_MARK_LEN 0\<rparr>"

text \<open>\<open>room\<close> tells whether the heap has space for the control block.  Encryption is switched off.\<close>

definition ln_smartconfig_start :: "bool \<Rightarrow> u16 \<Rightarrow> smartcfg \<Rightarrow> bool \<times> smartcfg" where
  "ln_smartconfig_start room channel_map g =
     (if \<not> room then (False, g\<lparr>sc_ctl := None\<rparr>)
      else (True,
        g\<lparr>sc_ctl := Some \<lparr>sc_aes_key = None, sc_recvbuff = replicate SC_MAX_SSIDPWD_LEN 0, sc_lead_code = zero_lc, sc_result = zero_result,
              sc_state = SC_STATE_SEARCH_CHAN, sc_is_ch_hopping = True, sc_ch_map = channel_map\<rparr>,
          sc_ssid := replicate WLAN_SSID_MAX_LEN 0, sc_pwd := replicate (WLAN_PWD_MAX_LEN + 1) 0,
          sc_calls := sc_calls g @ [Hop_Start channel_map, Sniffer_Enable]\<rparr>))"

text \<open>The control block is freed and the pointer to it stays.\<close>

definition ln_smartconfig_stop :: "smartcfg \<Rightarrow> smartcfg option" where
  "ln_smartconfig_stop g = do {
     ctl \<leftarrow> sc_ctl g;
     Some (g\<lparr>sc_calls := sc_calls g @ (if sc_is_ch_hopping ctl then [Sniffer_Disable, Hop_Stop] else [Sniffer_Disable])\<rparr>) }"

definition ln_smartconfig_get_ssid :: "smartcfg \<Rightarrow> byte list" where
  "ln_smartconfig_get_ssid g = c_str (sc_ssid g)"

definition ln_smartconfig_get_pwd :: "smartcfg \<Rightarrow> byte list" where
  "ln_smartconfig_get_pwd g = c_str (sc_pwd g)"

definition ln_smartconfig_is_complete :: "smartcfg \<Rightarrow> bool" where
  "ln_smartconfig_is_complete g = (case sc_ctl g of None \<Rightarrow> False | Some ctl \<Rightarrow> sc_state ctl = SC_STATE_COMPLETE)"

text \<open>The random byte is sent back by UDP.\<close>

definition ln_smartconfig_send_ack :: "(byte \<Rightarrow> bool) \<Rightarrow> smartcfg \<Rightarrow> bool" where
  "ln_smartconfig_send_ack ln_sc_udp_send_ack g = ln_sc_udp_send_ack (sc_random g)"

end
