(* ===== verification/Smartcfg_Props.thy ===== *)
theory Smartcfg_Props
  imports Smartcfg
begin

unbundle bit_operations_syntax

text \<open>
  What the configuration by multicast frames does.  The frames of one phone, in any order, repeated and mixed with other traffic, drive an
  abstract machine with three phases, which the code simulates; so the device ends with the name and the password that were sent.
  For arbitrary frames the code stays inside its arrays, except for one packet number.
\<close>

section \<open>Frames\<close>

text \<open>The packet number and the two bytes a frame carries, if it is a frame of this protocol.\<close>

definition sc_packet :: "byte list \<Rightarrow> (byte \<times> byte \<times> byte) option" where
  "sc_packet frame =
     (if length frame < 24 \<or> frame ! 17 \<noteq> 0x01 \<or> frame ! 18 \<noteq> 0x00 \<or> frame ! 19 \<noteq> 0x5E then None
      else Some (frame ! 20, frame ! 21, frame ! 22))"

primrec sc_run :: "byte list list \<Rightarrow> smartcfg \<Rightarrow> smartcfg option" where
  "sc_run [] g = Some g"
| "sc_run (f # fs) g = Option.bind (ln_sc_sniffer_callback f g) (sc_run fs)"

lemma sc_run_append: "sc_run (fs @ gs) g = Option.bind (sc_run fs g) (sc_run gs)"
  by (induction fs arbitrary: g) (auto split: bind_splits)

text \<open>What follows the call of \<open>ln_sc_recv_frame_proc\<close>.\<close>

definition sc_after :: "sc_state \<Rightarrow> smartcfg \<Rightarrow> smartcfg option" where
  "sc_after curr_state g = do {
     ctl \<leftarrow> sc_ctl g;
     Some
       (if curr_state = SC_STATE_LOCKED_CHAN \<and> sc_state ctl \<noteq> curr_state
        then g\<lparr>sc_ctl := Some (ctl\<lparr>sc_state := curr_state, sc_is_ch_hopping := False\<rparr>), sc_calls := sc_calls g @ [Hop_Stop]\<rparr>
        else if curr_state = SC_STATE_COMPLETE \<and> sc_state ctl \<noteq> SC_STATE_COMPLETE
        then g\<lparr>sc_ctl := Some (ctl\<lparr>sc_state := curr_state\<rparr>)\<rparr>
        else g) }"

lemma callback_other [simp]: "sc_packet f = None \<Longrightarrow> ln_sc_sniffer_callback f g = Some g"
  by (auto simp: ln_sc_sniffer_callback_def sc_packet_def i_addr3_def sizeof_ieee80211_frame_def smartcfg_consts array_simps
      split: option.split if_splits)

lemma callback_complete [simp]: "sc_ctl g = Some c \<Longrightarrow> sc_state c = SC_STATE_COMPLETE \<Longrightarrow> ln_sc_sniffer_callback f g = Some g"
  by (simp add: ln_sc_sniffer_callback_def)

lemma callback_packet:
  assumes "sc_packet f = Some (n, lo, hi)" "sc_ctl g = Some c" "sc_state c \<noteq> SC_STATE_COMPLETE"
  shows "ln_sc_sniffer_callback f g = Option.bind (ln_sc_recv_frame_proc c (drop 1 f) g) (\<lambda>(st, g). sc_after st g)"
    and "i_addr3 (drop 1 f) 3 = Some n" and "i_addr3 (drop 1 f) 4 = Some lo" and "i_addr3 (drop 1 f) 5 = Some hi"
  using assms
  by (auto simp: ln_sc_sniffer_callback_def sc_packet_def i_addr3_def sizeof_ieee80211_frame_def smartcfg_consts array_simps sc_after_def
      split: if_splits)

section \<open>Marks\<close>

definition marked :: "byte list \<Rightarrow> nat \<Rightarrow> bool" where
  "marked marks i \<longleftrightarrow> bit (marks ! (i div 8)) (7 - i mod 8)"

lemma lead_mark: "(m :: byte) AND 0x1E = 0x1E \<longleftrightarrow> bit m 1 \<and> bit m 2 \<and> bit m 3 \<and> bit m 4"
proof
  assume h: "m AND 0x1E = 0x1E"
  have "bit m i" if "bit (0x1E :: byte) i" for i using that h by (metis bit_and_iff)
  then show "bit m 1 \<and> bit m 2 \<and> bit m 3 \<and> bit m 4" by simp
next
  assume "bit m 1 \<and> bit m 2 \<and> bit m 3 \<and> bit m 4"
  then show "m AND 0x1E = 0x1E" by (intro byte_eqI) (simp_all add: bit_simps)
qed

lemma and_one_bit: "(m :: byte) AND push_bit k 1 \<noteq> 0 \<longleftrightarrow> k < 8 \<and> bit m k"
  by (auto simp: bit_eq_iff [where ?'a = "8 word"] bit_simps)

lemma marked_zero [simp]: "i < 64 \<Longrightarrow> \<not> marked (replicate 8 0) i"
  by (simp add: marked_def)

lemma marked_set:
  assumes "i < 64" "j < 64" "length marks = 8"
  shows "marked (marks[i div 8 := marks ! (i div 8) OR push_bit (7 - i mod 8) 1]) j \<longleftrightarrow> j = i \<or> marked marks j"
proof (cases "j div 8 = i div 8")
  case True
  have "j = i \<longleftrightarrow> 7 - j mod 8 = 7 - i mod 8"
  proof
    assume "7 - j mod 8 = 7 - i mod 8"
    moreover have "j mod 8 < 8" "i mod 8 < 8" by simp_all
    ultimately have "j mod 8 = i mod 8" by linarith
    then show "j = i" using True by (metis div_mult_mod_eq)
  qed simp
  moreover have "i div 8 < length marks" using assms by simp
  ultimately show ?thesis using True assms by (auto simp: marked_def bit_simps)
qed (use assms in \<open>auto simp: marked_def\<close>)

lemma is_packet_valid_small:
  assumes "unat i < 64" "length marks = 8"
  shows "ln_sc_is_packet_valid marks i = Some (if marked marks (unat i) then (False, marks)
    else (True, marks[unat i div 8 := marks ! (unat i div 8) OR push_bit (7 - unat i mod 8) 1]))"
proof -
  have "unat i div 8 < length marks" using assms by simp
  then show ?thesis using assms and_one_bit [of "marks ! (unat i div 8)" "7 - unat i mod 8"]
    by (auto simp: ln_sc_is_packet_valid_def smartcfg_consts array_simps marked_def Let_def)
qed

lemma is_packet_valid_large: "64 < unat i \<Longrightarrow> ln_sc_is_packet_valid marks i = Some (False, marks)"
  by (simp add: ln_sc_is_packet_valid_def smartcfg_consts)

section \<open>Arbitrary frames\<close>

text \<open>What holds between two frames: the arrays have their sizes, and the lengths of a complete lead code fit them.\<close>

definition sc_ok :: "smartcfg \<Rightarrow> bool" where
  "sc_ok g \<longleftrightarrow> length (sc_ssid g) = 33 \<and> length (sc_pwd g) = 65 \<and>
     (case sc_ctl g of None \<Rightarrow> False | Some c \<Rightarrow>
        sc_aes_key c = None \<and> length (sc_recvbuff c) = 128 \<and> length (lc_pkt_mark (sc_lead_code c)) = 8
        \<and> (is_lc_complete (sc_lead_code c) \<longrightarrow>
              lc_pwd_len (sc_lead_code c) \<le> 63 \<and> lc_ssidpwd_len (sc_lead_code c) - lc_pwd_len (sc_lead_code c) \<le> 32))"

lemma lens_fit:
  assumes "p \<le> (63 :: byte)" "sp - p \<le> 32"
  shows "unat p \<le> 63" "unat (sp - p) \<le> 32" "unat sp = unat p + unat (sp - p)"
proof -
  show le: "unat p \<le> 63" "unat (sp - p) \<le> 32" using assms by (simp_all add: word_le_nat_alt)
  have "unat (p + (sp - p)) = unat p + unat (sp - p)" using le by (subst unat_add_lem [symmetric]) simp
  then show "unat sp = unat p + unat (sp - p)" by simp
qed

lemma mod2_le: "unat ((x :: byte) mod 2) = unat x mod 2"
  by (simp add: unat_mod)

text \<open>Decoding with lengths that fit.\<close>

lemma decode_fits:
  assumes "sc_aes_key c = None" "length (sc_recvbuff c) = 128" "length ssid = 33" "length pwd = 65"
    and fit: "lc_pwd_len (sc_lead_code c) \<le> 63" "lc_ssidpwd_len (sc_lead_code c) - lc_pwd_len (sc_lead_code c) \<le> 32"
  defines "pl \<equiv> unat (lc_pwd_len (sc_lead_code c))"
    and "sl \<equiv> unat (lc_ssidpwd_len (sc_lead_code c) - lc_pwd_len (sc_lead_code c))"
    and "e \<equiv> unat (lc_ssidpwd_len (sc_lead_code c)) + unat (lc_ssidpwd_len (sc_lead_code c)) mod 2"
  shows "ln_sc_decode c ssid pwd = Some
     (sc_recvbuff c ! e = cal_crc8 (take pl (sc_recvbuff c)) \<and> sc_recvbuff c ! (e + 1) = cal_crc8 (take sl (drop pl (sc_recvbuff c))),
      c\<lparr>sc_recvbuff := replicate 128 0,
        sc_result := \<lparr>res_ssid_len = of_nat sl, res_pwd_len = of_nat pl, res_random = lc_random (sc_lead_code c)\<rparr>\<rparr>,
      take sl (drop pl (sc_recvbuff c)) @ 0 # drop (sl + 1) ssid, take pl (sc_recvbuff c) @ 0 # drop (pl + 1) pwd)"
proof -
  note lf = lens_fit [OF fit, folded pl_def sl_def]
  have e: "e + 1 < 128" "e < 128" using lf unfolding e_def by linarith+
  have u: "unat (of_nat pl :: byte) = pl" "unat (of_nat sl :: byte) = sl" by (simp_all add: pl_def sl_def)
  have cut: "((xs @ drop n ys)[n := (z :: byte)]) = xs @ z # drop (n + 1) ys" if "length xs = n" "n < length ys" for xs ys n z
    using that by (simp add: list_update_append Cons_nth_drop_Suc [symmetric])
  have "sc_take_out c ssid pwd = Some (True,
      c\<lparr>sc_result := sc_result c\<lparr>res_ssid_len := of_nat sl, res_pwd_len := of_nat pl\<rparr>\<rparr>,
      take sl (drop pl (sc_recvbuff c)) @ 0 # drop (sl + 1) ssid, take pl (sc_recvbuff c) @ 0 # drop (pl + 1) pwd)"
    using assms(1-4) lf cut [of "take sl (drop pl (sc_recvbuff c))" sl ssid 0] cut [of "take pl (sc_recvbuff c)" pl pwd 0]
    by (simp add: sc_take_out_def Let_def array_simps pl_def [symmetric] sl_def [symmetric]) (simp add: pl_def sl_def)
  then show ?thesis
    using assms(1-4) lf(1,2) e
    by (auto simp: ln_sc_decode_def Let_def array_simps sc_clear_recvbuff_def smartcfg_consts mod2_le e_def [symmetric] pl_def [symmetric]
        sl_def [symmetric] u)
qed

lemma lead_proc_ok:
  assumes "i_addr3 f 4 = Some lo" "i_addr3 f 5 = Some hi"
    and "length (lc_pkt_mark lead) = 8" and "\<not> is_lc_complete lead"
  shows "\<exists>lead'. ln_sc_lead_code_proc f lead n = Some lead' \<and> length (lc_pkt_mark lead') = 8
    \<and> (is_lc_complete lead' \<longrightarrow> lc_pwd_len lead' \<le> 63 \<and> lc_ssidpwd_len lead' - lc_pwd_len lead' \<le> 32)"
  using assms by (simp add: ln_sc_lead_code_proc_def sc_lead_take_def)

lemma push_data_ok:
  assumes "n - 5 \<noteq> 64" "length (lc_pkt_mark lead) = 8" "length buf = 128"
  shows "\<exists>d marks k buf'. ln_sc_push_data lead n buf w = Some (d, lead\<lparr>lc_pkt_mark := marks, lc_pkt_count := k\<rparr>, buf')
    \<and> length marks = 8 \<and> length buf' = 128"
proof -
  have "unat (n - 5) \<noteq> 64" using assms(1) by (simp add: word_unat_eq_iff)
  then consider "64 < unat (n - 5) \<or> unat (n - 5) < 64 \<and> marked (lc_pkt_mark lead) (unat (n - 5))"
    | "unat (n - 5) < 64" "\<not> marked (lc_pkt_mark lead) (unat (n - 5))" by linarith
  then show ?thesis
  proof cases
    case 1
    then have "ln_sc_is_packet_valid (lc_pkt_mark lead) (n - 5) = Some (False, lc_pkt_mark lead)"
      using assms is_packet_valid_large is_packet_valid_small by auto
    then have "ln_sc_push_data lead n buf w = Some (uint (lc_expect_total_pkt lead) - uint (lc_pkt_count lead),
        lead\<lparr>lc_pkt_mark := lc_pkt_mark lead, lc_pkt_count := lc_pkt_count lead\<rparr>, buf)"
      by (simp add: ln_sc_push_data_def Let_def)
    then show ?thesis using assms by blast
  next
    case 2
    then show ?thesis using assms by (auto simp: ln_sc_push_data_def Let_def is_packet_valid_small array_simps)
  qed
qed

lemma finish_ok:
  assumes "sc_ok (g\<lparr>sc_ctl := Some c\<rparr>)" "is_lc_complete (sc_lead_code c)"
  shows "\<exists>st g'. sc_finish c (g\<lparr>sc_ctl := Some c\<rparr>) = Some (st, g') \<and> sc_ok g'"
  using assms decode_fits [of c "sc_ssid g" "sc_pwd g"] lens_fit [of "lc_pwd_len (sc_lead_code c)" "lc_ssidpwd_len (sc_lead_code c)"]
  by (auto simp: sc_finish_def sc_ok_def smartcfg_consts)

lemma after_ok: "sc_ok g \<Longrightarrow> \<exists>g'. sc_after st g = Some g' \<and> sc_ok g'"
  by (cases "sc_ctl g") (simp_all add: sc_after_def sc_ok_def)

lemma recv_ok:
  assumes "sc_ok g" "sc_ctl g = Some c" "i_addr3 f 3 = Some n" "i_addr3 f 4 = Some lo" "i_addr3 f 5 = Some hi" "n \<noteq> 69"
  shows "\<exists>st g'. ln_sc_recv_frame_proc c f g = Some (st, g') \<and> sc_ok g'"
proof -
  let ?lead = "sc_lead_code c"
  have n: "n - 5 \<noteq> 64" using assms(6) by (simp add: diff_eq_eq)
  consider (lead) "LEAD_CODE_SEQ_NONE < n \<and> n < LEAD_CODE_SEQ_COMPLETE" "\<not> is_lc_complete ?lead"
    | (data) "\<not> (LEAD_CODE_SEQ_NONE < n \<and> n < LEAD_CODE_SEQ_COMPLETE)" "is_lc_complete ?lead" "n \<le> PACKET_NUM_MAX"
    | (other) "\<not> (LEAD_CODE_SEQ_NONE < n \<and> n < LEAD_CODE_SEQ_COMPLETE)" "is_lc_complete ?lead" "\<not> n \<le> PACKET_NUM_MAX"
    | (skip) "LEAD_CODE_SEQ_NONE < n \<and> n < LEAD_CODE_SEQ_COMPLETE \<longleftrightarrow> is_lc_complete ?lead" by blast
  then show ?thesis
  proof cases
    case lead
    obtain lead' where "ln_sc_lead_code_proc f ?lead n = Some lead'" "length (lc_pkt_mark lead') = 8"
      "is_lc_complete lead' \<longrightarrow> lc_pwd_len lead' \<le> 63 \<and> lc_ssidpwd_len lead' - lc_pwd_len lead' \<le> 32"
      using lead_proc_ok [OF assms(4,5) _ lead(2)] assms(1,2) by (auto simp: sc_ok_def)
    then show ?thesis using assms lead by (simp add: ln_sc_recv_frame_proc_def sc_ok_def)
  next
    case data
    obtain d marks k buf where p: "ln_sc_push_data ?lead n (sc_recvbuff c) (ucast lo OR push_bit 8 (ucast hi))
        = Some (d, ?lead\<lparr>lc_pkt_mark := marks, lc_pkt_count := k\<rparr>, buf)" "length marks = 8" "length buf = 128"
      using push_data_ok [OF n, of ?lead "sc_recvbuff c" "ucast lo OR push_bit 8 (ucast hi)"] assms(1,2) by (auto simp: sc_ok_def)
    let ?c = "c\<lparr>sc_lead_code := ?lead\<lparr>lc_pkt_mark := marks, lc_pkt_count := k\<rparr>, sc_recvbuff := buf\<rparr>"
    have ok: "sc_ok (g\<lparr>sc_ctl := Some ?c\<rparr>)" using assms(1,2) p by (simp add: sc_ok_def)
    then show ?thesis using assms data p finish_ok [where c = ?c and g = g] by (auto simp: ln_sc_recv_frame_proc_def Let_def)
  next
    case other
    have "sc_ok (g\<lparr>sc_ctl := Some c\<rparr>)" using assms(1,2) by (simp add: sc_ok_def)
    then show ?thesis using assms other finish_ok [where c = c and g = g] by (auto simp: ln_sc_recv_frame_proc_def Let_def)
  next
    case skip
    then show ?thesis using assms by (auto simp: ln_sc_recv_frame_proc_def Let_def)
  qed
qed

lemma callback_ok:
  assumes "sc_ok g" "\<And>lo hi. sc_packet f \<noteq> Some (69, lo, hi)"
  shows "\<exists>g'. ln_sc_sniffer_callback f g = Some g' \<and> sc_ok g'"
proof (cases "sc_packet f")
  case (Some p)
  obtain n lo hi where p: "sc_packet f = Some (n, lo, hi)" using Some by (cases p) auto
  obtain c where c: "sc_ctl g = Some c" using assms(1) by (auto simp: sc_ok_def split: option.splits)
  show ?thesis
  proof (cases "sc_state c = SC_STATE_COMPLETE")
    case False
    note cb = callback_packet [OF p c False]
    obtain st g' where "ln_sc_recv_frame_proc c (drop 1 f) g = Some (st, g')" "sc_ok g'"
      using recv_ok [OF assms(1) c cb(2-4)] p assms(2) by auto
    then show ?thesis using cb(1) after_ok [of g' st] by simp
  qed (use assms c in simp)
qed (use assms in simp)

lemma start_ok: "sc_ok (snd (ln_smartconfig_start True cmap g))"
  by (simp add: sc_ok_def ln_smartconfig_start_def zero_lc_def smartcfg_consts)

text \<open>C10: Whatever frames are received after the start, the code stays inside its arrays if none of them has the packet number 69.
  Once the lengths are known, a frame with that number is stored behind the end of two arrays.\<close>

theorem sc_stays_in_buffers:
  assumes "\<forall>f \<in> set fs. \<forall>lo hi. sc_packet f \<noteq> Some (69, lo, hi)"
  shows "\<exists>g'. sc_run fs (snd (ln_smartconfig_start True cmap g)) = Some g'
    \<and> (\<forall>c f lo hi. sc_ctl g' = Some c \<and> sc_state c \<noteq> SC_STATE_COMPLETE \<and> is_lc_complete (sc_lead_code c) \<and> sc_packet f = Some (69, lo, hi)
         \<longrightarrow> ln_sc_sniffer_callback f g' = None)"
proof -
  have "\<exists>g'. sc_run fs g0 = Some g' \<and> sc_ok g'" if "sc_ok g0" for g0
    using assms that
  proof (induction fs arbitrary: g0)
    case (Cons f fs)
    then obtain g1 where "ln_sc_sniffer_callback f g0 = Some g1" "sc_ok g1" using callback_ok [of g0 f] by auto
    then show ?case using Cons by simp
  qed simp
  then obtain g' where g': "sc_run fs (snd (ln_smartconfig_start True cmap g)) = Some g'" "sc_ok g'" using start_ok by blast
  have "ln_sc_sniffer_callback f g' = None"
    if h: "sc_ctl g' = Some c" "sc_state c \<noteq> SC_STATE_COMPLETE" "is_lc_complete (sc_lead_code c)" "sc_packet f = Some (69, lo, hi)" for c f lo hi
  proof -
    have "ln_sc_push_data (sc_lead_code c) 69 buf w = None" for buf w
      using g'(2) h(1) by (simp add: ln_sc_push_data_def ln_sc_is_packet_valid_def smartcfg_consts at_pos_def sc_ok_def)
    then have "ln_sc_recv_frame_proc c (drop 1 f) g' = None"
      using callback_packet(2-4) [OF h(4,1,2)] h(3) by (simp add: ln_sc_recv_frame_proc_def smartcfg_consts)
    then show ?thesis using callback_packet(1) [OF h(4,1,2)] by simp
  qed
  then show ?thesis using g'(1) by blast
qed

theorem sc_stays_in_buffers_witness:
  "\<exists>g'. sc_run [replicate 30 0, replicate 10 1] (snd (ln_smartconfig_start True 0x3FFE smartcfg_boot)) = Some g'"
  using sc_stays_in_buffers [of "[replicate 30 0, replicate 10 1]" "0x3FFE" smartcfg_boot] by (auto simp: sc_packet_def)

section \<open>The frames of one phone\<close>

record phone =
  ph_channel :: byte
  ph_ssid :: "byte list"
  ph_pwd :: "byte list"
  ph_random :: byte
  ph_pad :: byte

definition phone_ok :: "phone \<Rightarrow> bool" where
  "phone_ok p \<longleftrightarrow> length (ph_ssid p) \<le> 32 \<and> length (ph_pwd p) \<le> 63 \<and> 0 \<notin> set (ph_ssid p) \<and> 0 \<notin> set (ph_pwd p)"

definition ph_len :: "phone \<Rightarrow> nat" where
  "ph_len p = length (ph_pwd p) + length (ph_ssid p)"

text \<open>Password, name, one byte if their number is odd, and the two checksums, in pieces of two bytes.\<close>

definition ph_payload :: "phone \<Rightarrow> byte list" where
  "ph_payload p = ph_pwd p @ ph_ssid p @ replicate (ph_len p mod 2) (ph_pad p) @ [cal_crc8 (ph_pwd p), cal_crc8 (ph_ssid p)]"

definition ph_packets :: "phone \<Rightarrow> nat" where
  "ph_packets p = ph_len p div 2 + ph_len p mod 2 + 1"

fun lead_value :: "phone \<Rightarrow> nat \<Rightarrow> byte" where
  "lead_value p k = (if k = 1 then ph_channel p else if k = 2 then of_nat (ph_len p)
     else if k = 3 then of_nat (length (ph_pwd p)) else ph_random p)"

datatype sc_pkt = Other | Lead nat | Data nat

fun carries :: "phone \<Rightarrow> byte list \<Rightarrow> sc_pkt \<Rightarrow> bool" where
  "carries p f Other \<longleftrightarrow> sc_packet f = None"
| "carries p f (Lead k) \<longleftrightarrow> 1 \<le> k \<and> k \<le> 4 \<and> sc_packet f = Some (of_nat k, lead_value p k, cal_crc8 [lead_value p k])"
| "carries p f (Data i) \<longleftrightarrow> i < ph_packets p \<and> sc_packet f = Some (of_nat (5 + i), ph_payload p ! (2 * i), ph_payload p ! (2 * i + 1))"

text \<open>The abstract machine: the lead packets seen, then the data packets seen.\<close>

datatype sc_phase = Search "nat set" | Locked "nat set" | Done

fun sc_phase_step :: "phone \<Rightarrow> sc_phase \<Rightarrow> sc_pkt \<Rightarrow> sc_phase" where
  "sc_phase_step p (Search K) (Lead k) = (if K = {1..4} then Locked {} else Search (insert k K))"
| "sc_phase_step p (Locked D) (Data i) = (if insert i D = {0..<ph_packets p} then Done else Locked (insert i D))"
| "sc_phase_step p ph pkt = ph"

definition sc_common :: "smartcfg \<Rightarrow> sc_ctl \<Rightarrow> bool" where
  "sc_common g c \<longleftrightarrow> sc_ctl g = Some c \<and> sc_aes_key c = None \<and> length (sc_recvbuff c) = 128 \<and> length (lc_pkt_mark (sc_lead_code c)) = 8
     \<and> length (sc_ssid g) = 33 \<and> length (sc_pwd g) = 65"

fun lead_right :: "phone \<Rightarrow> lc \<Rightarrow> nat \<Rightarrow> bool" where
  "lead_right p lead k =
     (if k = 2 then lc_ssidpwd_len lead = of_nat (ph_len p) \<and> lc_expect_total_pkt lead = of_nat (ph_packets p)
      else if k = 3 then lc_pwd_len lead = of_nat (length (ph_pwd p))
      else if k = 4 then lc_random lead = ph_random p else True)"

text \<open>The lengths are known and the data packets in the set have been stored.\<close>

definition sc_stored :: "phone \<Rightarrow> nat set \<Rightarrow> smartcfg \<Rightarrow> sc_ctl \<Rightarrow> bool" where
  "sc_stored p D g c \<longleftrightarrow> D \<subseteq> {0..<ph_packets p} \<and> sc_common g c \<and> sc_state c = SC_STATE_LOCKED_CHAN \<and> is_lc_complete (sc_lead_code c)
     \<and> unat (lc_pkt_count (sc_lead_code c)) = card D \<and> (\<forall>k \<in> {1..4}. lead_right p (sc_lead_code c) k)
     \<and> (\<forall>i < 64. marked (lc_pkt_mark (sc_lead_code c)) i \<longleftrightarrow> i \<in> D)
     \<and> (\<forall>i \<in> D. sc_recvbuff c ! (2 * i) = ph_payload p ! (2 * i) \<and> sc_recvbuff c ! (2 * i + 1) = ph_payload p ! (2 * i + 1))"

fun sc_rel :: "phone \<Rightarrow> sc_phase \<Rightarrow> smartcfg \<Rightarrow> bool" where
  "sc_rel p (Search K) g \<longleftrightarrow> K \<subseteq> {1..4} \<and> (\<exists>c. sc_common g c \<and> sc_state c = SC_STATE_SEARCH_CHAN \<and> (let lead = sc_lead_code c in
      \<not> is_lc_complete lead \<and> lc_pkt_count lead = 0 \<and> lc_pkt_mark lead = replicate 8 0
      \<and> (\<forall>k \<in> {1..4}. (bit (lc_mark lead) k \<longleftrightarrow> k \<in> K) \<and> (k \<in> K \<longrightarrow> lead_right p lead k))))"
| "sc_rel p (Locked D) g \<longleftrightarrow> D \<noteq> {0..<ph_packets p} \<and> (\<exists>c. sc_stored p D g c)"
| "sc_rel p Done g \<longleftrightarrow> ln_smartconfig_is_complete g \<and> ln_smartconfig_get_ssid g = ph_ssid p \<and> ln_smartconfig_get_pwd g = ph_pwd p
      \<and> sc_random g = ph_random p"

lemma ph_bounds:
  assumes "phone_ok p"
  shows "ph_len p \<le> 95" "ph_packets p \<le> 49" "length (ph_payload p) = 2 * ph_packets p"
    "unat (of_nat (ph_len p) :: byte) = ph_len p" "unat (of_nat (length (ph_pwd p)) :: byte) = length (ph_pwd p)"
    "unat (of_nat (ph_packets p) :: byte) = ph_packets p"
proof -
  show l: "ph_len p \<le> 95" using assms by (simp add: phone_ok_def ph_len_def)
  then show n: "ph_packets p \<le> 49" unfolding ph_packets_def by presburger
  show "length (ph_payload p) = 2 * ph_packets p"
    using div_mult_mod_eq [of "ph_len p" 2] by (simp add: ph_payload_def ph_packets_def ph_len_def)
  show "unat (of_nat (ph_len p) :: byte) = ph_len p" "unat (of_nat (ph_packets p) :: byte) = ph_packets p" using l n
    by (simp_all add: unat_of_nat)
  show "unat (of_nat (length (ph_pwd p)) :: byte) = length (ph_pwd p)" using assms by (simp add: unat_of_nat phone_ok_def)
qed

lemma start_rel: "sc_rel p (Search {}) (snd (ln_smartconfig_start True cmap g))"
  by (simp add: sc_common_def ln_smartconfig_start_def zero_lc_def smartcfg_consts)

lemma lead_cases: "1 \<le> k \<Longrightarrow> k \<le> 4 \<Longrightarrow> k = 1 \<or> k = 2 \<or> k = 3 \<or> k = (4 :: nat)"
  by linarith

lemma lead_range: "{Suc 0..4} = {1, 2, 3, 4}"
  by auto

lemma lead_fits:
  assumes "phone_ok p" "lc_ssidpwd_len lead = of_nat (ph_len p)" "lc_pwd_len lead = of_nat (length (ph_pwd p))"
  shows "lc_pwd_len lead \<le> 63" "lc_ssidpwd_len lead - lc_pwd_len lead = of_nat (length (ph_ssid p))"
    "lc_ssidpwd_len lead - lc_pwd_len lead \<le> 32"
proof -
  show "lc_pwd_len lead \<le> 63" using assms(1,3) ph_bounds(5) [OF assms(1)] by (simp add: word_le_nat_alt phone_ok_def)
  show d: "lc_ssidpwd_len lead - lc_pwd_len lead = of_nat (length (ph_ssid p))" using assms(2,3) by (simp add: ph_len_def)
  show "lc_ssidpwd_len lead - lc_pwd_len lead \<le> 32" using assms(1) unfolding d by (simp add: word_le_nat_alt unat_of_nat phone_ok_def)
qed

lemma packets_word: "phone_ok p \<Longrightarrow> (of_nat (ph_len p) :: byte) div 2 + of_nat (ph_len p) mod 2 + 1 = of_nat (ph_packets p)"
proof -
  assume ok: "phone_ok p"
  have "(of_nat (ph_len p) :: byte) div 2 = of_nat (ph_len p div 2)" "(of_nat (ph_len p) :: byte) mod 2 = of_nat (ph_len p mod 2)"
    using ph_bounds(1,4) [OF ok] by (simp_all add: word_unat_eq_iff unat_div unat_mod unat_of_nat)
  then show ?thesis by (simp add: ph_packets_def)
qed

text \<open>A lead packet while some are missing, and when all have been seen.\<close>

lemma lead_step_more:
  assumes "phone_ok p" "1 \<le> k" "k \<le> 4" "K \<subseteq> {1..4}" "K \<noteq> {1..4}"
    and "i_addr3 f 4 = Some (lead_value p k)" "i_addr3 f 5 = Some (cal_crc8 [lead_value p k])"
    and "\<forall>k \<in> {1..4}. (bit (lc_mark lead) k \<longleftrightarrow> k \<in> K) \<and> (k \<in> K \<longrightarrow> lead_right p lead k)"
  shows "\<exists>lead'. ln_sc_lead_code_proc f lead (of_nat k) = Some lead'
    \<and> is_lc_complete lead' = is_lc_complete lead \<and> lc_pkt_count lead' = lc_pkt_count lead \<and> lc_pkt_mark lead' = lc_pkt_mark lead
    \<and> (\<forall>j \<in> {1..4}. (bit (lc_mark lead') j \<longleftrightarrow> j \<in> insert k K) \<and> (j \<in> insert k K \<longrightarrow> lead_right p lead' j))"
proof -
  have "\<not> {1, 2, 3, 4} \<subseteq> K" using assms(4,5) by (auto simp: lead_range)
  then have m: "lc_mark lead AND 0x1E \<noteq> 0x1E" using assms(8) by (auto simp: lead_mark lead_range)
  have "ln_sc_lead_code_proc f lead (of_nat k) = Some (sc_lead_take (lead_value p k) (cal_crc8 [lead_value p k]) (of_nat k) lead)"
    using lead_cases [OF assms(2,3)] m assms(6,7) by (auto simp: ln_sc_lead_code_proc_def smartcfg_consts)
  then show ?thesis using lead_cases [OF assms(2,3)] assms(8) packets_word [OF assms(1)]
    by (auto simp: sc_lead_take_def smartcfg_consts lead_range bit_simps)
qed

lemma lead_step_full:
  assumes "phone_ok p" "1 \<le> k" "k \<le> 4" and "i_addr3 f 4 = Some lo" "i_addr3 f 5 = Some hi"
    and "\<forall>k \<in> {1..4}. bit (lc_mark lead) k \<and> lead_right p lead k"
  shows "ln_sc_lead_code_proc f lead (of_nat k) = Some (lead\<lparr>is_lc_complete := True\<rparr>)"
proof -
  have "lc_mark lead AND 0x1E = 0x1E" using assms(6) by (auto simp: lead_mark lead_range)
  moreover have "lc_pwd_len lead \<le> 63" "lc_ssidpwd_len lead - lc_pwd_len lead \<le> 32"
    using lead_fits [OF assms(1), of lead] assms(6) by (auto simp: lead_range)
  ultimately show ?thesis using lead_cases [OF assms(2,3)] assms(4,5) by (auto simp: ln_sc_lead_code_proc_def smartcfg_consts)
qed

lemma search_step:
  assumes ok: "phone_ok p" and rel: "sc_rel p (Search K) g" and car: "carries p f (Lead k)"
  shows "\<exists>g'. ln_sc_sniffer_callback f g = Some g' \<and> sc_rel p (sc_phase_step p (Search K) (Lead k)) g'"
proof -
  obtain c where c: "sc_common g c" "sc_state c = SC_STATE_SEARCH_CHAN" "\<not> is_lc_complete (sc_lead_code c)" "lc_pkt_count (sc_lead_code c) = 0"
    "lc_pkt_mark (sc_lead_code c) = replicate 8 0" "K \<subseteq> {1..4}"
    and ks: "\<forall>k \<in> {1..4}. (bit (lc_mark (sc_lead_code c)) k \<longleftrightarrow> k \<in> K) \<and> (k \<in> K \<longrightarrow> lead_right p (sc_lead_code c) k)"
    using rel by (auto simp: Let_def simp del: lead_right.simps)
  have pk: "sc_packet f = Some (of_nat k, lead_value p k, cal_crc8 [lead_value p k])" and k: "1 \<le> k" "k \<le> 4" using car by auto
  have g: "sc_ctl g = Some c" "sc_state c \<noteq> SC_STATE_COMPLETE" using c by (simp_all add: sc_common_def)
  note cb = callback_packet [OF pk g]
  have n: "LEAD_CODE_SEQ_NONE < of_nat k" "of_nat k < LEAD_CODE_SEQ_COMPLETE" using lead_cases [OF k] by (auto simp: smartcfg_consts)
  show ?thesis
  proof (cases "K = {1..4}")
    case True
    have "ln_sc_lead_code_proc (drop 1 f) (sc_lead_code c) (of_nat k) = Some ((sc_lead_code c)\<lparr>is_lc_complete := True\<rparr>)"
      using lead_step_full [OF ok k cb(3,4)] ks True by blast
    then have cbk: "ln_sc_sniffer_callback f g = Some (g\<lparr>sc_ctl := Some (c\<lparr>sc_lead_code := (sc_lead_code c)\<lparr>is_lc_complete := True\<rparr>,
        sc_state := SC_STATE_LOCKED_CHAN, sc_is_ch_hopping := False\<rparr>), sc_calls := sc_calls g @ [Hop_Stop]\<rparr>)" (is "_ = Some ?g")
      using c(2,3) g cb n by (simp add: ln_sc_recv_frame_proc_def sc_after_def)
    moreover have "sc_stored p {} ?g (the (sc_ctl ?g))" using c ks True by (simp add: sc_stored_def sc_common_def)
    moreover have "0 < ph_packets p" by (simp add: ph_packets_def)
    ultimately show ?thesis using True by auto
  next
    case False
    obtain lead where "ln_sc_lead_code_proc (drop 1 f) (sc_lead_code c) (of_nat k) = Some lead"
      "is_lc_complete lead = is_lc_complete (sc_lead_code c)" "lc_pkt_count lead = lc_pkt_count (sc_lead_code c)"
      "lc_pkt_mark lead = lc_pkt_mark (sc_lead_code c)"
      "\<forall>j \<in> {1..4}. (bit (lc_mark lead) j \<longleftrightarrow> j \<in> insert k K) \<and> (j \<in> insert k K \<longrightarrow> lead_right p lead j)"
      using lead_step_more [OF ok k c(6) False cb(3,4) ks] by blast
    then show ?thesis using False c g cb n k
      by (simp add: ln_sc_recv_frame_proc_def sc_after_def sc_common_def del: lead_right.simps)
  qed
qed

text \<open>A data packet: stored and marked, or known already.\<close>

lemma push_data_new:
  assumes "i < 64" "\<not> marked (lc_pkt_mark lead) i" "length (lc_pkt_mark lead) = 8" "length buf = 128"
  shows "\<exists>marks buf'. ln_sc_push_data lead (of_nat (5 + i)) buf (ucast lo OR push_bit 8 (ucast hi))
      = Some (uint (lc_expect_total_pkt lead) - uint (lc_pkt_count lead + 1),
              lead\<lparr>lc_pkt_mark := marks, lc_pkt_count := lc_pkt_count lead + 1\<rparr>, buf')
    \<and> length marks = 8 \<and> (\<forall>j < 64. marked marks j \<longleftrightarrow> j = i \<or> marked (lc_pkt_mark lead) j)
    \<and> length buf' = 128 \<and> (\<forall>j < 128. buf' ! j = (if j = 2 * i then lo else if j = 2 * i + 1 then hi else buf ! j))"
proof -
  have i: "(of_nat (5 + i) :: byte) - 5 = of_nat i" "unat (of_nat i :: byte) = i" using assms(1) by (simp_all add: unat_of_nat)
  have w: "le_bytes 2 (ucast lo OR push_bit 8 (ucast hi) :: u16) = [lo, hi]"
    using le_bytes_le_word [of "[lo, hi]" 2, where ?'a = 16] by simp
  let ?marks = "(lc_pkt_mark lead)[i div 8 := lc_pkt_mark lead ! (i div 8) OR push_bit (7 - i mod 8) 1]"
  let ?buf = "take (2 * i) buf @ [lo, hi] @ drop (2 * i + 2) buf"
  have "ln_sc_push_data lead (of_nat (5 + i)) buf (ucast lo OR push_bit 8 (ucast hi))
      = Some (uint (lc_expect_total_pkt lead) - uint (lc_pkt_count lead + 1),
              lead\<lparr>lc_pkt_mark := ?marks, lc_pkt_count := lc_pkt_count lead + 1\<rparr>, ?buf)"
    using assms by (simp only: ln_sc_push_data_def Let_def i w) (simp add: is_packet_valid_small i array_simps)
  moreover have "\<forall>j < 64. marked ?marks j \<longleftrightarrow> j = i \<or> marked (lc_pkt_mark lead) j" using marked_set assms(1,3) by simp
  moreover have "\<forall>j < 128. ?buf ! j = (if j = 2 * i then lo else if j = 2 * i + 1 then hi else buf ! j)"
    using assms(1,4) put_run_nth [of "2 * i" "[lo, hi]" buf] by (auto simp: nth_Cons split: nat.split)
  moreover have "length ?marks = 8" "length ?buf = 128" using assms(1,3,4) by auto
  ultimately show ?thesis by blast
qed

lemma push_data_known:
  assumes "i < 64" "marked (lc_pkt_mark lead) i" "length (lc_pkt_mark lead) = 8"
  shows "ln_sc_push_data lead (of_nat (5 + i)) buf w = Some (uint (lc_expect_total_pkt lead) - uint (lc_pkt_count lead), lead, buf)"
proof -
  have i: "(of_nat (5 + i) :: byte) - 5 = of_nat i" "unat (of_nat i :: byte) = i" using assms(1) by (simp_all add: unat_of_nat)
  show ?thesis using assms by (simp only: ln_sc_push_data_def Let_def i) (simp add: is_packet_valid_small i)
qed

text \<open>With all packets in the buffer, decoding gives what the phone sent.\<close>

lemma finish_right:
  assumes ok: "phone_ok p" and c: "sc_common g c" "\<forall>k \<in> {1..4}. lead_right p (sc_lead_code c) k"
    and buf: "take (2 * ph_packets p) (sc_recvbuff c) = ph_payload p"
  shows "\<exists>c' g'. sc_finish c g = Some (SC_STATE_COMPLETE, g') \<and> sc_ctl g' = Some c' \<and> ln_smartconfig_get_ssid g' = ph_ssid p
    \<and> ln_smartconfig_get_pwd g' = ph_pwd p \<and> sc_random g' = ph_random p"
proof -
  let ?lead = "sc_lead_code c" and ?b = "sc_recvbuff c"
  have lr: "lc_ssidpwd_len ?lead = of_nat (ph_len p)" "lc_pwd_len ?lead = of_nat (length (ph_pwd p))" "lc_random ?lead = ph_random p"
    using c(2) by (auto simp: lead_range)
  note fit = lead_fits [OF ok lr(1,2)] and pb = ph_bounds [OF ok]
  have sl: "unat (of_nat (length (ph_ssid p)) :: byte) = length (ph_ssid p)" using ok by (simp add: phone_ok_def unat_of_nat)
  have b: "?b = ph_payload p @ drop (2 * ph_packets p) ?b" using buf by (metis append_take_drop_id)
  have parts: "take (length (ph_pwd p)) ?b = ph_pwd p" "take (length (ph_ssid p)) (drop (length (ph_pwd p)) ?b) = ph_ssid p"
    "?b ! (ph_len p + ph_len p mod 2) = cal_crc8 (ph_pwd p)" "?b ! (ph_len p + ph_len p mod 2 + 1) = cal_crc8 (ph_ssid p)"
    by (subst b, simp add: ph_payload_def ph_len_def nth_append)+
  have str: "c_str (xs @ 0 # ys) = xs" if "0 \<notin> set xs" for xs ys :: "byte list" unfolding c_str_def using that by (subst takeWhile_append2) auto
  show ?thesis
    using decode_fits [of c "sc_ssid g" "sc_pwd g", OF _ _ _ _ fit(1,3)] c(1) parts ok
    by (auto simp: sc_common_def lr fit(2) [unfolded lr] sl pb(4,5) sc_finish_def ln_smartconfig_get_ssid_def ln_smartconfig_get_pwd_def
        str phone_ok_def)
qed

lemma stored_card:
  assumes "phone_ok p" "sc_stored p D g c"
  shows "finite D" "card D \<le> ph_packets p" "card D = ph_packets p \<longleftrightarrow> D = {0..<ph_packets p}"
    "unat (lc_expect_total_pkt (sc_lead_code c)) = ph_packets p"
    "lc_expect_total_pkt (sc_lead_code c) = lc_pkt_count (sc_lead_code c) \<longleftrightarrow> D = {0..<ph_packets p}"
proof -
  have D: "D \<subseteq> {0..<ph_packets p}" using assms(2) by (simp add: sc_stored_def)
  show "finite D" using D finite_subset by blast
  show le: "card D \<le> ph_packets p" using card_mono [OF _ D] by simp
  show all: "card D = ph_packets p \<longleftrightarrow> D = {0..<ph_packets p}" using card_subset_eq [OF _ D] by auto
  show E: "unat (lc_expect_total_pkt (sc_lead_code c)) = ph_packets p"
    using assms(2) ph_bounds(6) [OF assms(1)] by (auto simp: sc_stored_def lead_range)
  show "lc_expect_total_pkt (sc_lead_code c) = lc_pkt_count (sc_lead_code c) \<longleftrightarrow> D = {0..<ph_packets p}"
    using assms(2) E by (auto simp: word_unat_eq_iff sc_stored_def all [symmetric])
qed

lemma all_stored:
  assumes "phone_ok p" "sc_stored p {0..<ph_packets p} g c"
  shows "take (2 * ph_packets p) (sc_recvbuff c) = ph_payload p"
proof (rule nth_equalityI)
  note pb = ph_bounds [OF assms(1)]
  show "length (take (2 * ph_packets p) (sc_recvbuff c)) = length (ph_payload p)"
    using assms(2) pb(2,3) by (simp add: sc_stored_def sc_common_def)
  fix j assume "j < length (take (2 * ph_packets p) (sc_recvbuff c))"
  then have "j < 2 * ph_packets p" by simp
  moreover from this have "j div 2 \<in> {0..<ph_packets p}" by auto
  moreover have "j = 2 * (j div 2) \<or> j = 2 * (j div 2) + 1" by presburger
  ultimately show "take (2 * ph_packets p) (sc_recvbuff c) ! j = ph_payload p ! j"
    using assms(2) unfolding sc_stored_def by (metis nth_take)
qed

text \<open>What the machine holds after a data packet, and how many are missing then.\<close>

lemma stored_push:
  assumes ok: "phone_ok p" and st: "sc_stored p D g c" and i: "i < ph_packets p"
  defines "w \<equiv> ucast (ph_payload p ! (2 * i)) OR push_bit 8 (ucast (ph_payload p ! (2 * i + 1)))"
  shows "\<exists>lead buf. ln_sc_push_data (sc_lead_code c) (of_nat (5 + i)) (sc_recvbuff c) w
      = Some (int (ph_packets p) - int (card (insert i D)), lead, buf)
    \<and> sc_stored p (insert i D) (g\<lparr>sc_ctl := Some (c\<lparr>sc_lead_code := lead, sc_recvbuff := buf\<rparr>)\<rparr>)
        (c\<lparr>sc_lead_code := lead, sc_recvbuff := buf\<rparr>)"
proof -
  let ?lead = "sc_lead_code c" and ?lo = "ph_payload p ! (2 * i)" and ?hi = "ph_payload p ! (2 * i + 1)"
  note pb = ph_bounds [OF ok] and sc = stored_card [OF ok st]
  have i64: "i < 64" "ph_packets p \<le> 64" using i pb(2) by linarith+
  have c: "length (lc_pkt_mark ?lead) = 8" "length (sc_recvbuff c) = 128" "unat (lc_pkt_count ?lead) = card D"
    and ms: "\<forall>i < 64. marked (lc_pkt_mark ?lead) i \<longleftrightarrow> i \<in> D" using st by (simp_all add: sc_stored_def sc_common_def)
  show ?thesis
  proof (cases "i \<in> D")
    case True
    then show ?thesis using push_data_known [of i ?lead "sc_recvbuff c" w] ms i64 c(1,3) sc(4) st
      by (simp add: uint_nat insert_absorb sc_stored_def sc_common_def)
  next
    case False
    obtain marks buf where p: "ln_sc_push_data ?lead (of_nat (5 + i)) (sc_recvbuff c) w
        = Some (uint (lc_expect_total_pkt ?lead) - uint (lc_pkt_count ?lead + 1),
                ?lead\<lparr>lc_pkt_mark := marks, lc_pkt_count := lc_pkt_count ?lead + 1\<rparr>, buf)"
      "length marks = 8" "\<forall>j < 64. marked marks j \<longleftrightarrow> j = i \<or> marked (lc_pkt_mark ?lead) j"
      "length buf = 128" "\<forall>j < 128. buf ! j = (if j = 2 * i then ?lo else if j = 2 * i + 1 then ?hi else sc_recvbuff c ! j)"
      using push_data_new [of i ?lead "sc_recvbuff c" ?lo ?hi] False ms i64(1) c(1,2) unfolding w_def by auto
    have cnt: "unat (lc_pkt_count ?lead + 1) = card (insert i D)" using c(3) sc(1,2) False pb(2) by (simp add: unat_word_ariths)
    have "buf ! (2 * j) = ph_payload p ! (2 * j) \<and> buf ! (2 * j + 1) = ph_payload p ! (2 * j + 1)" if j: "j \<in> insert i D" for j
    proof -
      have "2 * j + 1 < 128" using j i64(2) i st by (auto simp: sc_stored_def)
      moreover have "2 * j \<noteq> 2 * i + 1" "2 * j + 1 \<noteq> 2 * i" by presburger+
      ultimately show ?thesis using p(5) st j by (auto simp: sc_stored_def)
    qed
    then show ?thesis using p cnt sc(4) st ms i by (simp add: uint_nat sc_stored_def sc_common_def)
  qed
qed

lemma locked_step:
  assumes ok: "phone_ok p" and rel: "sc_rel p (Locked D) g" and car: "carries p f (Data i)"
  shows "\<exists>g'. ln_sc_sniffer_callback f g = Some g' \<and> sc_rel p (sc_phase_step p (Locked D) (Data i)) g'"
proof -
  obtain c where st: "sc_stored p D g c" using rel by auto
  let ?lo = "ph_payload p ! (2 * i)" and ?hi = "ph_payload p ! (2 * i + 1)"
  have pk: "sc_packet f = Some (of_nat (5 + i), ?lo, ?hi)" and i: "i < ph_packets p" using car by auto
  have g: "sc_ctl g = Some c" "sc_state c \<noteq> SC_STATE_COMPLETE" "is_lc_complete (sc_lead_code c)"
    using st by (simp_all add: sc_stored_def sc_common_def)
  note cb = callback_packet [OF pk g(1,2)] and pb = ph_bounds [OF ok]
  have u: "unat (of_nat (5 + i) :: byte) = 5 + i" using i pb(2) by (simp add: unat_of_nat del: of_nat_add)
  have n: "\<not> of_nat (5 + i) < LEAD_CODE_SEQ_COMPLETE" "of_nat (5 + i) \<le> PACKET_NUM_MAX"
    using u i pb(2) by (simp_all only: word_less_nat_alt word_le_nat_alt smartcfg_consts) simp_all
  obtain lead buf where p: "ln_sc_push_data (sc_lead_code c) (of_nat (5 + i)) (sc_recvbuff c) (ucast ?lo OR push_bit 8 (ucast ?hi))
      = Some (int (ph_packets p) - int (card (insert i D)), lead, buf)"
    "sc_stored p (insert i D) (g\<lparr>sc_ctl := Some (c\<lparr>sc_lead_code := lead, sc_recvbuff := buf\<rparr>)\<rparr>) (c\<lparr>sc_lead_code := lead, sc_recvbuff := buf\<rparr>)"
    using stored_push [OF ok st i] by blast
  let ?c = "c\<lparr>sc_lead_code := lead, sc_recvbuff := buf\<rparr>" and ?g = "g\<lparr>sc_ctl := Some (c\<lparr>sc_lead_code := lead, sc_recvbuff := buf\<rparr>)\<rparr>"
  note sc = stored_card [OF ok p(2)]
  show ?thesis
  proof (cases "insert i D = {0..<ph_packets p}")
    case True
    have "sc_common ?g ?c" "\<forall>k \<in> {1..4}. lead_right p (sc_lead_code ?c) k" using p(2) by (simp_all add: sc_stored_def)
    then obtain c' g' where "sc_finish ?c ?g = Some (SC_STATE_COMPLETE, g')" "sc_ctl g' = Some c'"
      "ln_smartconfig_get_ssid g' = ph_ssid p" "ln_smartconfig_get_pwd g' = ph_pwd p" "sc_random g' = ph_random p"
      using finish_right [OF ok _ _ all_stored [OF ok p(2) [unfolded True]]] by blast
    then show ?thesis using True g cb n p(1) sc(5)
      by (simp add: ln_sc_recv_frame_proc_def sc_after_def Let_def ln_smartconfig_is_complete_def ln_smartconfig_get_ssid_def
          ln_smartconfig_get_pwd_def del: of_nat_add)
  next
    case False
    have "int (ph_packets p) - int (card (insert i D)) \<noteq> 0" using False sc(3) by linarith
    moreover have "sc_state c = SC_STATE_LOCKED_CHAN" using st by (simp add: sc_stored_def)
    ultimately have "ln_sc_sniffer_callback f g = Some ?g" using g cb n p(1)
      by (simp add: ln_sc_recv_frame_proc_def sc_after_def Let_def del: of_nat_add)
    then show ?thesis using False p(2) by auto
  qed
qed

section \<open>The machine simulates the phases\<close>

text \<open>Packets out of phase change nothing.\<close>

lemma idle_step:
  assumes "sc_packet f = Some (n, lo, hi)" "sc_ctl g = Some c" "sc_state c \<noteq> SC_STATE_COMPLETE"
    and "LEAD_CODE_SEQ_NONE < n \<and> n < LEAD_CODE_SEQ_COMPLETE \<longleftrightarrow> is_lc_complete (sc_lead_code c)"
  shows "ln_sc_sniffer_callback f g = Some g"
  using callback_packet [OF assms(1-3)] assms(2-4)
  by (cases "LEAD_CODE_SEQ_NONE < n"; cases "n < LEAD_CODE_SEQ_COMPLETE") (simp_all add: ln_sc_recv_frame_proc_def sc_after_def Let_def)

lemma data_not_lead:
  assumes "phone_ok p" "i < ph_packets p"
  shows "\<not> of_nat (5 + i) < LEAD_CODE_SEQ_COMPLETE"
proof -
  have "unat (of_nat (5 + i) :: byte) = 5 + i" using assms ph_bounds(2) [OF assms(1)] by (simp add: unat_of_nat del: of_nat_add)
  then show ?thesis by (simp only: word_less_nat_alt smartcfg_consts) simp
qed

lemma sc_step:
  assumes "phone_ok p" "sc_rel p ph g" "carries p f pkt"
  shows "\<exists>g'. ln_sc_sniffer_callback f g = Some g' \<and> sc_rel p (sc_phase_step p ph pkt) g'"
proof -
  consider (search) K k where "ph = Search K" "pkt = Lead k" | (locked) D i where "ph = Locked D" "pkt = Data i" | (other) "pkt = Other"
    | (early) K i where "ph = Search K" "pkt = Data i" | (late) D k where "ph = Locked D" "pkt = Lead k" | (finished) "ph = Done"
    by (cases ph; cases pkt) auto
  then show ?thesis
  proof cases
    case search
    then show ?thesis using search_step assms by blast
  next
    case locked
    then show ?thesis using locked_step assms by blast
  next
    case early
    then obtain c where "sc_ctl g = Some c" "sc_state c = SC_STATE_SEARCH_CHAN" "\<not> is_lc_complete (sc_lead_code c)"
      using assms(2) by (auto simp: sc_common_def Let_def simp del: lead_right.simps)
    then show ?thesis using early assms data_not_lead [OF assms(1), of i] idle_step [of f "of_nat (5 + i)" _ _ g c]
      by (auto simp del: of_nat_add sc_rel.simps)
  next
    case late
    then obtain c where c: "sc_ctl g = Some c" "sc_state c = SC_STATE_LOCKED_CHAN" "is_lc_complete (sc_lead_code c)"
      using assms(2) by (auto simp: sc_stored_def sc_common_def)
    have k: "1 \<le> k" "k \<le> 4" using late assms(3) by auto
    have "LEAD_CODE_SEQ_NONE < of_nat k" "of_nat k < LEAD_CODE_SEQ_COMPLETE" using lead_cases [OF k] by (auto simp: smartcfg_consts)
    then show ?thesis using late assms c idle_step [of f "of_nat k" _ _ g c] by (auto simp del: sc_rel.simps)
  next
    case other
    then show ?thesis using assms by (cases ph) simp_all
  next
    case finished
    then show ?thesis using assms(2) callback_complete by (auto simp: ln_smartconfig_is_complete_def split: option.splits)
  qed
qed

lemma sc_simulates:
  assumes "phone_ok p" "list_all2 (carries p) fs pkts" "sc_rel p ph g"
  shows "\<exists>g'. sc_run fs g = Some g' \<and> sc_rel p (foldl (sc_phase_step p) ph pkts) g'"
  using assms(2,3)
proof (induction arbitrary: ph g rule: list_all2_induct)
  case (Cons f fs pkt pkts)
  obtain g' where "ln_sc_sniffer_callback f g = Some g'" "sc_rel p (sc_phase_step p ph pkt) g'"
    using sc_step [OF assms(1) Cons.prems Cons.hyps(1)] by blast
  then show ?case using Cons.IH [of "sc_phase_step p ph pkt" g'] by simp
qed simp

section \<open>Progress\<close>

lemma search_back:
  "sc_phase_step p ph x = Search K' \<Longrightarrow> \<exists>K. ph = Search K \<and> K \<subseteq> K' \<and> (\<forall>k. x = Lead k \<longrightarrow> k \<in> K')"
  by (cases "(p, ph, x)" rule: sc_phase_step.cases) (auto split: if_splits)

lemma search_progress:
  "foldl (sc_phase_step p) (Search {}) pkts = Search K \<Longrightarrow> Lead k \<in> set pkts \<Longrightarrow> k \<in> K"
proof (induction pkts arbitrary: K rule: rev_induct)
  case (snoc x pkts)
  then show ?case using search_back [of p "foldl (sc_phase_step p) (Search {}) pkts" x K] by auto
qed simp

text \<open>Once the channel is locked, it stays so until all data have arrived.\<close>

lemma locked_progress:
  "foldl (sc_phase_step p) (Locked D) pkts = Done
    \<or> (\<exists>D'. foldl (sc_phase_step p) (Locked D) pkts = Locked D' \<and> D \<subseteq> D' \<and> (\<forall>i. Data i \<in> set pkts \<longrightarrow> i \<in> D'))"
proof (induction pkts rule: rev_induct)
  case (snoc x pkts)
  show ?case
  proof (cases x)
    case (Data i)
    show ?thesis using snoc
    proof (elim disjE exE conjE)
      fix D' assume "foldl (sc_phase_step p) (Locked D) pkts = Locked D'" "D \<subseteq> D'" "\<forall>i. Data i \<in> set pkts \<longrightarrow> i \<in> D'"
      then show ?thesis using Data by (cases "insert i D' = {0..<ph_packets p}") auto
    qed (use Data in simp)
  qed (use snoc in auto)
qed simp

lemma phases_done:
  assumes pkts: "pkts = pre @ Lead k # post" and leads: "\<forall>k \<in> {1..4}. Lead k \<in> set pre" and data: "\<forall>i < ph_packets p. Data i \<in> set post"
    and range: "\<And>K. foldl (sc_phase_step p) (Search {}) pre = Search K \<Longrightarrow> K \<subseteq> {1..4}"
  defines "final \<equiv> foldl (sc_phase_step p) (Search {}) pkts"
  shows "final = Done \<or> (\<exists>D. final = Locked D \<and> {0..<ph_packets p} \<subseteq> D)"
proof -
  let ?mid = "foldl (sc_phase_step p) (Search {}) pre"
  have e: "final = foldl (sc_phase_step p) (sc_phase_step p ?mid (Lead k)) post" unfolding final_def pkts by simp
  have dn: "foldl (sc_phase_step p) Done xs = Done" for xs by (induction xs) auto
  have lk: "foldl (sc_phase_step p) (Locked D) post = Done
      \<or> (\<exists>D'. foldl (sc_phase_step p) (Locked D) post = Locked D' \<and> {0..<ph_packets p} \<subseteq> D')" for D
    using locked_progress [of p D post] data by fastforce
  show ?thesis
  proof (cases ?mid)
    case (Search K)
    then have "K = {1..4}" using search_progress [of p pre K] leads range by blast
    then show ?thesis using e Search lk [of "{}"] by simp
  next
    case (Locked D)
    then show ?thesis using e lk [of D] by simp
  qed (use e dn in simp)
qed


definition phone_frame :: "phone \<Rightarrow> sc_pkt \<Rightarrow> byte list" where
  "phone_frame p pkt = replicate 17 0 @
     (case pkt of Other \<Rightarrow> replicate 7 0
      | Lead k \<Rightarrow> [0x01, 0x00, 0x5E, of_nat k, lead_value p k, cal_crc8 [lead_value p k], 0]
      | Data i \<Rightarrow> [0x01, 0x00, 0x5E, of_nat (5 + i), ph_payload p ! (2 * i), ph_payload p ! (2 * i + 1), 0])"


section \<open>Channels\<close>

text \<open>The timer callback returns if the map has one of the channels 0 to 13, and sets one of the map; otherwise it does not return.\<close>

lemma sc_hop_returns:
  "(\<exists>g'. ln_sc_wifi_channel_hopping cmap g = Some g') \<longleftrightarrow> (\<exists>j < 14. bit cmap j)"
  using hop_loop_returns [of 14 cmap "sc_hop_idx g"]
  by (cases "hop_loop 14 cmap (sc_hop_idx g)") (auto simp: ln_sc_wifi_channel_hopping_def)

end
