(* ===== verification/Airkiss.thy ===== *)
theory Airkiss
  imports Smartlink "HOL-Library.Signed_Division"
begin

unbundle bit_operations_syntax

text \<open>
  The configuration by the lengths of broadcast frames, \<^verbatim>\<open>components/smartlink/airkiss/airkiss.c\<close>, with the callbacks of
  \<^verbatim>\<open>airkiss_entry.c\<close>.  A phone sends frames whose lengths spell a guide code, a magic code, a prefix and then the data in blocks of a
  checksum, an index and four bytes.  A block is taken from six lengths in a row, or put together from single frames by their sequence
  numbers.  The union of the two code buffers is two fields: it is cleared before the other part is used.  \<open>None\<close> is an access outside an
  array or a division by zero.  Characters are unsigned on the target.
\<close>

section \<open>Data\<close>

datatype akstate = AKSTATE_WFG | AKSTATE_WFM | AKSTATE_WFP | AKSTATE_WFD | AKSTATE_CMP

datatype airkiss_status = AIRKISS_STATUS_CONTINUE | AIRKISS_STATUS_CHANNEL_LOCKED | AIRKISS_STATUS_COMPLETE

record akcode =
  ac_val :: "u16 list"
  ac_pos :: byte
  ac_scnt :: byte
  ac_err :: byte
  ac_rcnt :: byte

record akdatf_seq =
  sq_ws :: u16
  sq_crc :: byte
  sq_ind :: byte

record akdatf_header =
  hd_crc :: byte
  hd_ind :: byte

text \<open>The position and the count of successes have four bits.\<close>

record akcode_guide =
  ag_ws :: u16
  ag_val :: "byte list"
  ag_pos :: nat
  ag_scnt :: nat
  ag_err :: byte
  ag_wval :: byte
  ag_seqcnt :: byte
  ag_sa :: "byte list"

record akloc =
  ak_code1 :: "akcode_guide list"
  ak_code2 :: akcode
  dcfl_data :: "byte list"
  dcfl_pos :: "byte list"
  ak_prews :: u16
  ak_preseq :: akdatf_seq
  ak_curseq :: akdatf_seq
  ak_pendseq :: "akdatf_header list"
  ak_locked :: "byte list"
  ak_seqstep :: byte
  ak_reclen :: byte
  ak_state :: akstate
  ak_seq :: "byte list"
  ak_data :: "byte list"
  ak_random :: byte
  ak_baselen :: byte
  ak_prslen :: byte
  ak_ssidcrc :: byte
  ak_pwdlen :: byte

definition zero_akcode :: akcode where
  "zero_akcode = \<lparr>ac_val = replicate 6 0, ac_pos = 0, ac_scnt = 0, ac_err = 0, ac_rcnt = 0\<rparr>"

definition zero_guide :: akcode_guide where
  "zero_guide = \<lparr>ag_ws = 0, ag_val = replicate 4 0, ag_pos = 0, ag_scnt = 0, ag_err = 0, ag_wval = 0, ag_seqcnt = 0, ag_sa = replicate 4 0\<rparr>"

definition zero_seq :: akdatf_seq where
  "zero_seq = \<lparr>sq_ws = 0, sq_crc = 0, sq_ind = 0\<rparr>"

definition zero_header :: akdatf_header where
  "zero_header = \<lparr>hd_crc = 0, hd_ind = 0\<rparr>"

definition akloc_reset :: akloc where
  "akloc_reset =
     \<lparr>ak_code1 = replicate 3 zero_guide, ak_code2 = zero_akcode, dcfl_data = replicate 16 0, dcfl_pos = replicate 16 0, ak_prews = 0,
      ak_preseq = zero_seq, ak_curseq = zero_seq, ak_pendseq = replicate 10 zero_header, ak_locked = replicate 4 0, ak_seqstep = 0,
      ak_reclen = 0, ak_state = AKSTATE_WFG, ak_seq = replicate 16 0, ak_data = replicate 66 0, ak_random = 0, ak_baselen = 0,
      ak_prslen = 0, ak_ssidcrc = 0, ak_pwdlen = 0\<rparr>"

section \<open>Small helpers\<close>

definition airkiss_crc8 :: "byte list \<Rightarrow> byte" where
  "airkiss_crc8 message = rcrc8_loop 0x8c message 0"

definition akwseq_make :: "byte \<Rightarrow> byte \<Rightarrow> u16" where
  "akwseq_make seq0 seq1 = push_bit 4 (ucast seq1) OR drop_bit 4 (ucast seq0)"

definition akinfo_getu8 :: "u16 \<Rightarrow> u16 \<Rightarrow> byte" where
  "akinfo_getu8 v0 v1 = ucast (push_bit 4 (v0 AND 0xF) OR (v1 AND 0xF))"

definition aklen_udp :: "akloc \<Rightarrow> u16 \<Rightarrow> u16" where
  "aklen_udp c len = len - ucast (ak_baselen c)"

section \<open>Magic code and prefix\<close>

definition ak_get_magicfield :: "akloc \<Rightarrow> bool \<times> akloc" where
  "ak_get_magicfield c =
     (let ac = ak_code2 c;
          val = (if ac_val ac ! 0 = 8 then (ac_val ac)[0 := 0] else ac_val ac);
          prslen = akinfo_getu8 (val ! 0) (val ! 1) in
      (\<not> 65 < prslen, c\<lparr>ak_code2 := ac\<lparr>ac_val := val\<rparr>, ak_prslen := prslen, ak_ssidcrc := akinfo_getu8 (val ! 2) (val ! 3)\<rparr>))"

text \<open>The two codes are four lengths with their number in the upper bits, starting at \<open>first\<close>.\<close>

definition ak_field_input :: "nat \<Rightarrow> akcode \<Rightarrow> u16 \<Rightarrow> (bool \<times> akcode) option" where
  "ak_field_input first ac len =
     (let mc = unat (drop_bit 4 len) in
      do {
        ac \<leftarrow>
          (if mc = first then Some (ac\<lparr>ac_val := (ac_val ac)[0 := len], ac_pos := 1\<rparr>)
           else if mc = unat (ac_pos ac) + first then do {
             val \<leftarrow> put_pos (unat (ac_pos ac)) len (ac_val ac);
             Some (ac\<lparr>ac_val := val, ac_pos := ac_pos ac + 1\<rparr>) }
           else Some (ac\<lparr>ac_pos := 0\<rparr>));
        Some (ac_pos ac = 4, ac) })"

definition ak_magicfield_input :: "akcode \<Rightarrow> u16 \<Rightarrow> (bool \<times> akcode) option" where
  "ak_magicfield_input = ak_field_input 0"

definition ak_prefixfield_input :: "akcode \<Rightarrow> u16 \<Rightarrow> (bool \<times> akcode) option" where
  "ak_prefixfield_input = ak_field_input 4"

definition ak_get_prefixfield :: "akloc \<Rightarrow> bool \<times> akloc" where
  "ak_get_prefixfield c =
     (let val = ac_val (ak_code2 c); pwdlen = akinfo_getu8 (val ! 0) (val ! 1); crc = akinfo_getu8 (val ! 2) (val ! 3) in
      (airkiss_crc8 [pwdlen] = crc, c\<lparr>ak_pwdlen := pwdlen\<rparr>))"

definition ak_waitfor_magicfield :: "akloc \<Rightarrow> u16 \<Rightarrow> (airkiss_status \<times> akloc) option" where
  "ak_waitfor_magicfield c len = do {
     (got, ac) \<leftarrow> ak_magicfield_input (ak_code2 c) (aklen_udp c len);
     let c = c\<lparr>ak_code2 := ac\<rparr>;
     let c = (if got then
                (case ak_get_magicfield (c\<lparr>ak_code2 := ac\<lparr>ac_pos := 0\<rparr>\<rparr>) of (ok, c) \<Rightarrow> if ok then c\<lparr>ak_state := AKSTATE_WFP\<rparr> else c)
              else c);
     let rcnt = ac_rcnt (ak_code2 c);
     let c = c\<lparr>ak_code2 := (ak_code2 c)\<lparr>ac_rcnt := rcnt + 1\<rparr>\<rparr>;
     Some (AIRKISS_STATUS_CONTINUE, if 250 < rcnt then akloc_reset else c) }"

definition ak_waitfor_prefixfield :: "akloc \<Rightarrow> u16 \<Rightarrow> (airkiss_status \<times> akloc) option" where
  "ak_waitfor_prefixfield c len = do {
     (got, ac) \<leftarrow> ak_prefixfield_input (ak_code2 c) (aklen_udp c len);
     let c = c\<lparr>ak_code2 := ac\<rparr>;
     Some (AIRKISS_STATUS_CONTINUE,
       if got then
         (case ak_get_prefixfield (c\<lparr>ak_code2 := ac\<lparr>ac_pos := 0\<rparr>\<rparr>) of (ok, c) \<Rightarrow> if ok then c\<lparr>ak_state := AKSTATE_WFD\<rparr> else c)
       else c) }"

section \<open>Guide code\<close>

definition akaddr_fromframe :: "byte list \<Rightarrow> byte list option" where
  "akaddr_fromframe f = do {
     a \<leftarrow> i_addr2 f 4; b \<leftarrow> i_addr2 f 5; c \<leftarrow> i_addr3 f 4; d \<leftarrow> i_addr3 f 5;
     Some [a, b, c, d] }"

definition akwseq_fromframe :: "byte list \<Rightarrow> u16 option" where
  "akwseq_fromframe f = do { s0 \<leftarrow> at_pos f 22; s1 \<leftarrow> at_pos f 23; Some (akwseq_make s0 s1) }"

text \<open>The first entry with the address, or the one with the least weight.\<close>

primrec guide_scan :: "byte list \<Rightarrow> akcode_guide list \<Rightarrow> nat list \<Rightarrow> nat \<Rightarrow> bool \<times> nat" where
  "guide_scan sa codes [] imin = (False, imin)"
| "guide_scan sa codes (i # is) imin =
     (if ag_sa (codes ! i) = sa then (True, i)
      else guide_scan sa codes is (if ag_wval (codes ! i) < ag_wval (codes ! imin) then i else imin))"

text \<open>Without a frame the result is an uninitialised pointer.\<close>

definition ak_guide_getcode :: "akloc \<Rightarrow> byte list option \<Rightarrow> (nat \<times> akloc) option" where
  "ak_guide_getcode c frame = do {
     f \<leftarrow> frame;
     sa \<leftarrow> akaddr_fromframe f;
     (case guide_scan sa (ak_code1 c) [0..<3] 0 of (found, i) \<Rightarrow>
        Some (i, if found then c
                 else c\<lparr>ak_code1 := (ak_code1 c)[i := (ak_code1 c ! i)\<lparr>ag_pos := 0, ag_err := 0, ag_scnt := 0, ag_wval := 0, ag_sa := sa\<rparr>]\<rparr>)) }"

text \<open>A length that does not follow the one before starts the code again.\<close>

definition ak_guide_prepare :: "akcode_guide \<Rightarrow> u16 \<Rightarrow> u16 \<Rightarrow> akcode_guide" where
  "ak_guide_prepare ac ws len =
     (let ac = (if ag_pos ac \<noteq> 0 \<and> uint len - uint (ag_val ac ! (ag_pos ac - 1)) \<noteq> 1
                then ac\<lparr>ag_pos := 0, ag_wval := if 0 < ag_wval ac then ag_wval ac - 1 else ag_wval ac\<rparr> else ac);
          ac = (if ag_pos ac = 0 then ac\<lparr>ag_ws := ws, ag_seqcnt := 0\<rparr> else ac) in
      ac\<lparr>ag_seqcnt := ag_seqcnt ac + ucast (ws - ag_ws ac)\<rparr>)"

definition ak_guidefield_input :: "akcode_guide \<Rightarrow> byte list option \<Rightarrow> u16 \<Rightarrow> (bool \<times> akcode_guide) option" where
  "ak_guidefield_input ac frame len = do {
     ws \<leftarrow> (case frame of None \<Rightarrow> Some 0 | Some f \<Rightarrow> akwseq_fromframe f);
     ac \<leftarrow>
       (if ag_pos ac < 4 then do {
          let ac = ak_guide_prepare ac ws len;
          val \<leftarrow> put_pos (ag_pos ac) (ucast len) (ag_val ac);
          let pos = (ag_pos ac + 1) mod 16;
          Some (ac\<lparr>ag_val := val, ag_pos := pos, ag_wval := ag_wval ac + of_nat pos\<rparr>) }
        else Some ac);
     Some (ag_pos ac = 4, ac) }"

definition ak_waitfor_guidefield :: "akloc \<Rightarrow> byte list option \<Rightarrow> u16 \<Rightarrow> (airkiss_status \<times> akloc) option" where
  "ak_waitfor_guidefield c frame len = do {
     (i, c) \<leftarrow> ak_guide_getcode c frame;
     (got, ac) \<leftarrow> ak_guidefield_input (ak_code1 c ! i) frame len;
     Some
       (if got then
          let ac = ac\<lparr>ag_pos := 0, ag_scnt := (ag_scnt ac + 1) mod 16\<rparr> in
          if 2 \<le> ag_scnt ac \<and> 20 \<le> ag_wval ac
          then (AIRKISS_STATUS_CHANNEL_LOCKED,
                c\<lparr>ak_state := AKSTATE_WFM, ak_baselen := ag_val ac ! 0 - 1, ak_seqstep := ag_seqcnt ac div 6, ak_locked := ag_sa ac,
                  ak_code1 := replicate 3 zero_guide, ak_code2 := zero_akcode\<rparr>)
          else (AIRKISS_STATUS_CONTINUE, c\<lparr>ak_code1 := (ak_code1 c)[i := ac]\<rparr>)
        else (AIRKISS_STATUS_CONTINUE, c\<lparr>ak_code1 := (ak_code1 c)[i := ac]\<rparr>)) }"

section \<open>Data by lengths in a row\<close>

definition ak_get_datafield :: "akloc \<Rightarrow> (bool \<times> akloc) option" where
  "ak_get_datafield c =
     (let val = ac_val (ak_code2 c);
          seqi = unat (val ! 1 AND 0x7f);
          pos = seqi * 4;
          n = min (unat (ak_prslen c) - pos) 4;
          tmp0 = ucast (val ! 0 AND 0x7F);
          tmp = ucast (val ! 1 AND 0x7F) # map (\<lambda>v. ucast (v AND 0xFF)) (take 4 (drop 2 val)) in
      if unat (ak_prslen c) div 4 < seqi then Some (False, c)
      else do {
        m \<leftarrow> at_pos (ak_seq c) seqi;
        if m \<noteq> 0 then Some (False, c)
        else if airkiss_crc8 (take (n + 1) tmp) AND 0x7F = tmp0 then do {
          data \<leftarrow> put_run pos (take n (drop 1 tmp)) (ak_data c);
          seq \<leftarrow> put_pos seqi 1 (ak_seq c);
          Some (True, c\<lparr>ak_data := data, ak_reclen := ak_reclen c + of_nat n, ak_seq := seq\<rparr>) }
        else Some (False, c) })"

definition ak_datainput_onlylength :: "akloc \<Rightarrow> akcode \<Rightarrow> u16 \<Rightarrow> (bool \<times> akcode) option" where
  "ak_datainput_onlylength c ac len =
     (if len AND 0x100 \<noteq> 0 then
        if 1 < ac_pos ac then do {
          val \<leftarrow> put_pos (unat (ac_pos ac)) len (ac_val ac);
          let pos = ac_pos ac + 1;
          let sz = unat (val ! 1 AND 0x7f) * 4;
          let n = (if sz < unat (ak_prslen c) \<and> unat (ak_prslen c) - sz < 4 then unat (ak_prslen c) - sz + 2 else 6);
          Some (unat pos = n, ac\<lparr>ac_val := val, ac_pos := pos\<rparr>) }
        else Some (False, ac\<lparr>ac_pos := 0\<rparr>)
      else if ac_pos ac < 2 then do {
        val \<leftarrow> put_pos (unat (ac_pos ac)) len (ac_val ac);
        Some (ac_pos ac + 1 = 6, ac\<lparr>ac_val := val, ac_pos := ac_pos ac + 1\<rparr>) }
      else Some (False, ac\<lparr>ac_val := (ac_val ac)[0 := len], ac_pos := 1\<rparr>))"

section \<open>Data by sequence numbers\<close>

primrec pend_scan :: "byte \<Rightarrow> akdatf_header list \<Rightarrow> nat \<Rightarrow> nat option" where
  "pend_scan ind [] i = None"
| "pend_scan ind (p # ps) i = (if hd_ind p = ind then Some i else pend_scan ind ps (i + 1))"

definition akseq_getpend :: "akloc \<Rightarrow> byte \<Rightarrow> nat option" where
  "akseq_getpend c ind = pend_scan ind (ak_pendseq c) 0"

text \<open>The number of bytes of the block with an index: four, or fewer at the end.\<close>

definition ak_block_size :: "akloc \<Rightarrow> nat \<Rightarrow> int" where
  "ak_block_size c ind = min (uint (ak_prslen c) - 4 * int ind) 4"

text \<open>A header is waiting: if the block is full and its checksum right, it is done.\<close>

definition ak_pendinput_mark :: "akloc \<Rightarrow> byte \<Rightarrow> akloc option" where
  "ak_pendinput_mark c ind =
     (case akseq_getpend c ind of
        None \<Rightarrow> Some c
      | Some k \<Rightarrow>
          let ind = ind AND 0x7f; pos = unat ind * 4; sz = ak_block_size c (unat ind) in
          if sz < 0 then None
          else do {
            bs \<leftarrow> get_run pos (nat sz) (ak_data c);
            if 0 \<in> set bs then Some c
            else if airkiss_crc8 (ind # bs) AND 0x7f = hd_crc (ak_pendseq c ! k) AND 0x7f then do {
              seq \<leftarrow> put_pos (unat ind) 1 (ak_seq c);
              Some (c\<lparr>ak_pendseq := (ak_pendseq c)[k := zero_header], ak_seq := seq, ak_reclen := ak_reclen c + of_int sz\<rparr>) }
            else Some c })"

definition ak_maxoffs :: "akloc \<Rightarrow> nat" where
  "ak_maxoffs c = unat (ak_prslen c) + ((unat (ak_prslen c) + 3) div 4) * 2"

definition ak_penddata_getpos :: "akloc \<Rightarrow> akdatf_seq \<Rightarrow> u16 \<Rightarrow> int option" where
  "ak_penddata_getpos c ref ws =
     (if ws < sq_ws ref then Some (- 1)
      else if ak_seqstep c = 0 then None
      else
        let offs = (unat ws - unat (sq_ws ref)) div unat (ak_seqstep c) in
        if offs mod 6 < 2 then Some (- 1)
        else if ak_maxoffs c < offs then Some (- 1)
        else if ak_maxoffs c = 0 then None
        else
          let fmpos = (unat (sq_ind ref AND 0x7f) * 6 + offs) mod ak_maxoffs c in
          Some (int (fmpos div 6) * 4 + int (fmpos mod 6) - 2))"

definition ak_pendcrc_getpos :: "akloc \<Rightarrow> akdatf_seq \<Rightarrow> u16 \<Rightarrow> int option" where
  "ak_pendcrc_getpos c ref ws =
     (if ws < sq_ws ref then Some (- 1)
      else if ak_seqstep c = 0 then None
      else
        let offs = (unat ws - unat (sq_ws ref)) div unat (ak_seqstep c) in
        if ak_maxoffs c < offs then Some (- 1)
        else if ak_maxoffs c = 0 then None
        else Some (int (((offs + unat (sq_ind ref AND 0x7f) * 6) mod ak_maxoffs c) div 6) OR 0x80))"

text \<open>Bytes that contradict one received before are kept in the first twelve entries of a table; the last four are for a moment's use.
  The search for an entry is left as soon as the pair is there, and gives the last free entry.\<close>

primrec conflict_scan :: "akloc \<Rightarrow> byte \<Rightarrow> byte \<Rightarrow> nat list \<Rightarrow> nat option \<Rightarrow> bool \<times> nat option" where
  "conflict_scan c pos d [] zi = (False, zi)"
| "conflict_scan c pos d (i # is) zi =
     (if dcfl_pos c ! i = pos \<and> dcfl_data c ! i = d then (True, zi)
      else conflict_scan c pos d is (if dcfl_pos c ! i = 0 then Some i else zi))"

definition ak_dataconflict_add :: "akloc \<Rightarrow> byte \<Rightarrow> byte \<Rightarrow> nat \<Rightarrow> akloc" where
  "ak_dataconflict_add c pos d mode =
     (case conflict_scan c (pos + 1) d (if mode = 0 then [0..<12] else [12..<16]) None of
        (False, Some zi) \<Rightarrow> c\<lparr>dcfl_data := (dcfl_data c)[zi := d], dcfl_pos := (dcfl_pos c)[zi := pos + 1]\<rparr>
      | _ \<Rightarrow> c)"

text \<open>The next byte noted for a position, and where to go on.\<close>

primrec conflict_next :: "akloc \<Rightarrow> byte \<Rightarrow> nat list \<Rightarrow> byte option \<times> nat" where
  "conflict_next c pos [] = (None, 16)"
| "conflict_next c pos (i # is) = (if dcfl_pos c ! i = pos then (Some (dcfl_data c ! i), i + 1) else conflict_next c pos is)"

definition ak_dataconflict_getchar :: "akloc \<Rightarrow> byte \<Rightarrow> nat \<Rightarrow> byte option \<times> nat" where
  "ak_dataconflict_getchar c pos cpos = (if 16 \<le> cpos then (None, cpos) else conflict_next c (pos + 1) [cpos..<16])"

lemma conflict_next_bound: "conflict_next c pos [i..<16] = (Some ch, j) \<Longrightarrow> i < j \<and> j \<le> 16"
proof (induction "16 - i" arbitrary: i)
  case 0
  then show ?case by simp
next
  case (Suc k)
  then have "[i..<16] = i # [Suc i..<16]" by (simp add: upt_conv_Cons)
  moreover have "k = 16 - Suc i" using Suc.hyps(2) by simp
  ultimately show ?case using Suc.hyps(1) [of "Suc i"] Suc.hyps(2) Suc.prems by (fastforce split: if_splits)
qed

text \<open>All of them, as the loops of \<open>ak_dataconflict_crccheck\<close> fetch them; the table does not change meanwhile.\<close>

function conflict_chars :: "akloc \<Rightarrow> byte \<Rightarrow> nat \<Rightarrow> byte list" where
  "conflict_chars c pos cpos =
     (case ak_dataconflict_getchar c pos cpos of (None, _) \<Rightarrow> [] | (Some ch, cpos') \<Rightarrow> ch # conflict_chars c pos cpos')"
  by auto
termination
  by (relation "measure (\<lambda>(c, pos, cpos). 16 - cpos)")
    (auto simp: ak_dataconflict_getchar_def split: if_splits dest!: sym [of "(Some _, _)"] conflict_next_bound)

definition ak_dataconflict_clear :: "akloc \<Rightarrow> byte option \<Rightarrow> akloc" where
  "ak_dataconflict_clear c pos =
     (let hit = (\<lambda>i. case pos of None \<Rightarrow> 12 \<le> i | Some p \<Rightarrow> i < 12 \<and> uint (dcfl_pos c ! i) = uint p + 1) in
      c\<lparr>dcfl_data := map (\<lambda>i. if hit i then 0 else dcfl_data c ! i) [0..<16],
        dcfl_pos := map (\<lambda>i. if hit i then 0 else dcfl_pos c ! i) [0..<16]\<rparr>)"

definition dataconflict_crccheck :: "akloc \<Rightarrow> nat \<Rightarrow> byte \<Rightarrow> byte list \<Rightarrow> nat \<Rightarrow> (bool \<times> akloc) option" where
  "dataconflict_crccheck c k dpos d sz =
     (let pd = ak_pendseq c ! k in
      if airkiss_crc8 (take (sz + 1) d) AND 0x7f = hd_crc pd AND 0x7f then do {
        data \<leftarrow> put_run (unat (hd_ind pd AND 0x7f) * 4) (take sz (drop 1 d)) (ak_data c);
        seq \<leftarrow> put_pos (unat (d ! 0)) 1 (ak_seq c);
        Some (True, ak_dataconflict_clear
          (c\<lparr>ak_data := data, ak_pendseq := (ak_pendseq c)[k := zero_header], ak_seq := seq, ak_reclen := ak_reclen c + of_nat sz\<rparr>) (Some dpos)) }
      else Some (False, c))"

text \<open>The four nested loops: every choice of one noted byte for each of the positions left, until a checksum is right.\<close>

fun conflict_try :: "akloc \<Rightarrow> nat \<Rightarrow> byte \<Rightarrow> byte list \<Rightarrow> byte list list \<Rightarrow> (bool \<times> akloc) option" where
  "conflict_try c k dpos d [] = dataconflict_crccheck c k dpos d 4"
| "conflict_try c k dpos d ([] # css) = Some (False, c)"
| "conflict_try c k dpos d ((ch # cs) # css) = do {
     (ok, c') \<leftarrow> conflict_try c k dpos (d @ [ch]) css;
     if ok then Some (True, c') else conflict_try c k dpos d (cs # css) }"

primrec conflict_add_block :: "akloc \<Rightarrow> byte \<Rightarrow> nat list \<Rightarrow> akloc option" where
  "conflict_add_block c spos [] = Some c"
| "conflict_add_block c spos (i # is) = do {
     ch \<leftarrow> at_pos (ak_data c) (unat spos + i);
     conflict_add_block (ak_dataconflict_add c (spos + of_nat i) ch 1) spos is }"

text \<open>The check stands in the innermost loop, which a block of fewer than four bytes does not reach.\<close>

definition ak_dataconflict_crccheck :: "akloc \<Rightarrow> nat \<Rightarrow> nat \<Rightarrow> akloc option" where
  "ak_dataconflict_crccheck c k sz =
     (let d0 = hd_ind (ak_pendseq c ! k) AND 0x7f; spos = d0 * 4 in
      do {
        c \<leftarrow> conflict_add_block c spos [0..<sz];
        (ok, c) \<leftarrow>
          (if 3 < sz
           then conflict_try c k (spos + 3) [d0]
                  [conflict_chars c spos 0, conflict_chars c (spos + 1) 0, conflict_chars c (spos + 2) 0, conflict_chars c (spos + 3) 0]
           else Some (False, c));
        Some (ak_dataconflict_clear c None) })"

definition ak_dataconflict_input :: "akloc \<Rightarrow> byte \<Rightarrow> byte \<Rightarrow> byte \<Rightarrow> akloc option" where
  "ak_dataconflict_input c ind pos data =
     (let sz = ak_block_size c (unat ind); c = ak_dataconflict_add c pos data 0 in
      do {
        bs \<leftarrow> get_run (unat ind * 4) (nat sz) (ak_data c);
        if 0 \<in> set bs then Some c
        else (case akseq_getpend c (ind OR 0x80) of
                None \<Rightarrow> Some c
              | Some k \<Rightarrow> ak_dataconflict_crccheck c k (nat sz)) })"

definition ak_databody_input :: "akloc \<Rightarrow> akdatf_seq \<Rightarrow> u16 \<Rightarrow> byte \<Rightarrow> (bool \<times> akloc) option" where
  "ak_databody_input c ref ws data =
     (if ak_seqstep c = 0 then None
      else
        let dif = word_of_int ((uint ws - uint (ak_prews c)) sdiv uint (ak_seqstep c)) :: byte in
        if 5 < dif then Some (False, c)
        else do {
          pos \<leftarrow> ak_penddata_getpos c ref ws;
          if pos < 0 then Some (False, c)
          else do {
            let ind = nat pos div 4;
            m \<leftarrow> at_pos (ak_seq c) ind;
            if m \<noteq> 0 then Some (False, c)
            else do {
              old \<leftarrow> at_pos (ak_data c) (nat pos);
              c \<leftarrow>
                (if old = 0 then do {
                   new \<leftarrow> put_pos (nat pos) data (ak_data c);
                   ak_pendinput_mark (c\<lparr>ak_data := new\<rparr>) (of_nat ind OR 0x80) }
                 else if old \<noteq> data then ak_dataconflict_input c (of_nat ind) (of_int pos) data
                 else Some c);
              Some (True, c) } } })"

text \<open>The entry with the index, or the last free one before it; the first if there is none.\<close>

primrec alloc_scan :: "byte \<Rightarrow> akdatf_header list \<Rightarrow> nat \<Rightarrow> nat \<Rightarrow> nat" where
  "alloc_scan ind [] i idle = idle"
| "alloc_scan ind (p # ps) i idle = (if hd_ind p = ind then i else alloc_scan ind ps (i + 1) (if hd_crc p = 0 then i else idle))"

definition akseq_allocpend :: "akloc \<Rightarrow> byte \<Rightarrow> byte \<Rightarrow> akloc option" where
  "akseq_allocpend c crc ind = do {
     m \<leftarrow> at_pos (ak_seq c) (unat (ind AND 0x7f));
     Some (if m \<noteq> 0 then c
           else c\<lparr>ak_pendseq := (ak_pendseq c)[alloc_scan ind (ak_pendseq c) 0 0 := \<lparr>hd_crc = crc, hd_ind = ind\<rparr>]\<rparr>) }"

definition ak_datahead_input :: "akloc \<Rightarrow> u16 \<Rightarrow> byte \<Rightarrow> akloc option" where
  "ak_datahead_input c ws head =
     (let cur = ak_curseq c; seqmax = (ak_prslen c div 4) OR 0x80 in
      if sq_crc cur \<noteq> 0 then
        if ak_seqstep c = 0 then None
        else
          let dif = word_of_int ((uint ws - uint (sq_ws cur)) sdiv uint (ak_seqstep c)) :: byte in
          if head \<le> seqmax then
            let cur = cur\<lparr>sq_ind := head, sq_ws := ws - ucast (ak_seqstep c)\<rparr>; c = c\<lparr>ak_curseq := cur, ak_preseq := cur\<rparr> in
            if dif < 3 then akseq_allocpend c (sq_crc cur) (sq_ind cur) else Some c
          else Some (c\<lparr>ak_curseq := \<lparr>sq_ws = ws, sq_crc = head, sq_ind = 0\<rparr>\<rparr>)
      else if seqmax < head then Some (c\<lparr>ak_curseq := \<lparr>sq_ws = ws, sq_crc = head, sq_ind = 0\<rparr>\<rparr>)
      else do {
        pos \<leftarrow> ak_pendcrc_getpos c cur ws;
        Some (if pos = uint head then c\<lparr>ak_curseq := cur\<lparr>sq_ind := head, sq_ws := ws - ucast (ak_seqstep c)\<rparr>\<rparr> else c) })"

text \<open>A checksum came without an index: it is guessed from the block before.\<close>

definition ak_guess_index :: "akloc \<Rightarrow> u16 \<Rightarrow> akloc option" where
  "ak_guess_index c ws = do {
     pos \<leftarrow> ak_pendcrc_getpos c (ak_preseq c) ws;
     if 0 < pos then
       let cur = (ak_curseq c)\<lparr>sq_ind := of_int pos\<rparr> in akseq_allocpend (c\<lparr>ak_curseq := cur\<rparr>) (sq_crc cur) (sq_ind cur)
     else Some c }"

definition ak_body_done :: "akloc \<Rightarrow> u16 \<Rightarrow> byte \<Rightarrow> akloc option" where
  "ak_body_done c ws data = do {
     (ok, c) \<leftarrow> ak_databody_input c (ak_curseq c) ws data;
     let c = (if ok then c else c\<lparr>ak_curseq := zero_seq\<rparr>);
     Some (if ak_reclen c = ak_prslen c then c\<lparr>ak_state := AKSTATE_CMP\<rparr> else c) }"

definition ak_datainput_withwireseq :: "akloc \<Rightarrow> byte list \<Rightarrow> u16 \<Rightarrow> akloc option" where
  "ak_datainput_withwireseq c f len = do {
     ws \<leftarrow> akwseq_fromframe f;
     c \<leftarrow>
       (if len AND 0x100 \<noteq> 0 then do {
          c \<leftarrow> (if sq_ind (ak_curseq c) = 0 \<and> sq_crc (ak_curseq c) \<noteq> 0 then ak_guess_index c ws else Some c);
          c \<leftarrow> (if sq_ind (ak_curseq c) \<noteq> 0 then ak_body_done c ws (ucast len) else Some c);
          Some (c\<lparr>ak_curseq := (ak_curseq c)\<lparr>sq_crc := 0\<rparr>\<rparr>) }
        else ak_datahead_input c ws (ucast len));
     Some (c\<lparr>ak_prews := ws\<rparr>) }"

section \<open>Receiving\<close>

definition ak_waitfor_datafield :: "akloc \<Rightarrow> byte list option \<Rightarrow> u16 \<Rightarrow> (airkiss_status \<times> akloc) option" where
  "ak_waitfor_datafield c frame len =
     (let udplen = aklen_udp c len in
      if udplen < 0x80 then Some (AIRKISS_STATUS_CONTINUE, c)
      else do {
        (got, ac) \<leftarrow> ak_datainput_onlylength c (ak_code2 c) udplen;
        let c = c\<lparr>ak_code2 := ac\<rparr>;
        (leave, c) \<leftarrow>
          (if got then do {
             (ok, c) \<leftarrow> ak_get_datafield (c\<lparr>ak_code2 := ac\<lparr>ac_pos := 0\<rparr>\<rparr>);
             Some (if ak_reclen c = ak_prslen c then (True, c\<lparr>ak_state := AKSTATE_CMP\<rparr>) else (False, c)) }
           else Some (False, c));
        c \<leftarrow> (case frame of Some f \<Rightarrow> if leave then Some c else ak_datainput_withwireseq c f udplen | None \<Rightarrow> Some c);
        Some (if ak_state c = AKSTATE_CMP then AIRKISS_STATUS_COMPLETE else AIRKISS_STATUS_CONTINUE, c) })"

definition ak_sa_filter :: "akloc \<Rightarrow> byte list \<Rightarrow> bool option" where
  "ak_sa_filter c f =
     (if ak_state c \<noteq> AKSTATE_WFG then do { sa \<leftarrow> akaddr_fromframe f; Some (ak_locked c \<noteq> sa) } else Some False)"

definition airkiss_recv :: "akloc \<Rightarrow> byte list option \<Rightarrow> u16 \<Rightarrow> (airkiss_status \<times> akloc) option" where
  "airkiss_recv c frame len = do {
     other \<leftarrow> (case frame of None \<Rightarrow> Some False | Some f \<Rightarrow> ak_sa_filter c f);
     if other then Some (AIRKISS_STATUS_CONTINUE, c)
     else (case ak_state c of
             AKSTATE_WFG \<Rightarrow> ak_waitfor_guidefield c frame len
           | AKSTATE_WFM \<Rightarrow> ak_waitfor_magicfield c len
           | AKSTATE_WFP \<Rightarrow> ak_waitfor_prefixfield c len
           | AKSTATE_WFD \<Rightarrow> ak_waitfor_datafield c frame len
           | AKSTATE_CMP \<Rightarrow> Some (AIRKISS_STATUS_COMPLETE, c)) }"

text \<open>The result is two pointers into the context; here it has the strings they point to.\<close>

record airkiss_result =
  ar_pwd :: "byte list"
  ar_ssid :: "byte list"
  ar_pwd_length :: byte
  ar_ssid_length :: byte
  ar_random :: byte

definition airkiss_get_result :: "akloc \<Rightarrow> (airkiss_result option \<times> akloc) option" where
  "airkiss_get_result c =
     (if ak_state c \<noteq> AKSTATE_CMP then Some (None, c)
      else do {
        r \<leftarrow> at_pos (ak_data c) (unat (ak_pwdlen c));
        let c = (if r = 0 then c else c\<lparr>ak_random := r, ak_data := (ak_data c)[unat (ak_pwdlen c) := 0]\<rparr>);
        data \<leftarrow> put_pos (unat (ak_prslen c)) 0 (ak_data c);
        let c = c\<lparr>ak_data := data\<rparr>;
        Some (Some \<lparr>ar_pwd = c_str data, ar_ssid = c_str (drop (unat (ak_pwdlen c) + 1) data), ar_pwd_length = ak_pwdlen c,
                    ar_ssid_length = ak_prslen c - ak_pwdlen c - 1, ar_random = ak_random c\<rparr>, c) })"

definition airkiss_change_channel :: "akloc \<Rightarrow> akloc" where
  "airkiss_change_channel c = akloc_reset"

text \<open>The context is large enough, and the configuration given has all its functions.\<close>

definition airkiss_init :: "akloc \<Rightarrow> akloc" where
  "airkiss_init c = akloc_reset"

section \<open>The callbacks\<close>

datatype ak_call = Ak_Timer_Create u16 | Ak_Hop_Start | Ak_Hop_Stop | Ak_Timer_Delete | Ak_Sniffer_Enable | Ak_Sniffer_Disable | Ak_Set_Channel nat

record airkiss =
  is_complete :: bool
  ak_context :: akloc
  ak_result :: "airkiss_result option"
  ak_hop_idx :: nat
  ak_calls :: "ak_call list"

definition airkiss_boot :: airkiss where
  "airkiss_boot = \<lparr>is_complete = False, ak_context = akloc_reset, ak_result = None, ak_hop_idx = 0, ak_calls = []\<rparr>"

definition airkiss_wifi_channel_hopping :: "u16 \<Rightarrow> airkiss \<Rightarrow> airkiss option" where
  "airkiss_wifi_channel_hopping cmap g = do {
     idx \<leftarrow> hop_loop 15 cmap (ak_hop_idx g);
     Some (g\<lparr>ak_hop_idx := idx, ak_calls := ak_calls g @ [Ak_Set_Channel idx], ak_context := airkiss_change_channel (ak_context g)\<rparr>) }"

text \<open>The length is handed on with sixteen bits.\<close>

definition airkiss_wifi_sniffer_callback :: "byte list \<Rightarrow> airkiss \<Rightarrow> airkiss option" where
  "airkiss_wifi_sniffer_callback frame g =
     (if is_complete g then Some g
      else if frame = [] then None
      else if length frame - 1 < 24 then Some g
      else do {
        (ret, c) \<leftarrow> airkiss_recv (ak_context g) (Some (drop 1 frame)) (of_nat (length frame - 1));
        let g = g\<lparr>ak_context := c\<rparr>;
        case ret of
          AIRKISS_STATUS_CHANNEL_LOCKED \<Rightarrow> Some (g\<lparr>ak_calls := ak_calls g @ [Ak_Hop_Stop]\<rparr>)
        | AIRKISS_STATUS_COMPLETE \<Rightarrow> do {
            (res, c) \<leftarrow> airkiss_get_result c;
            Some (g\<lparr>is_complete := True, ak_context := c, ak_result := res\<rparr>) }
        | AIRKISS_STATUS_CONTINUE \<Rightarrow> Some g })"

text \<open>The flag of completion is not cleared.\<close>

definition airkiss_start :: "u16 \<Rightarrow> airkiss \<Rightarrow> airkiss" where
  "airkiss_start channel_mask g =
     g\<lparr>ak_context := airkiss_init (ak_context g), ak_result := None,
       ak_calls := ak_calls g @ [Ak_Timer_Create channel_mask, Ak_Hop_Start, Ak_Sniffer_Enable]\<rparr>"

definition airkiss_stop :: "airkiss \<Rightarrow> airkiss" where
  "airkiss_stop g = g\<lparr>ak_calls := ak_calls g @ [Ak_Sniffer_Disable, Ak_Timer_Delete]\<rparr>"

definition airkiss_is_complete :: "airkiss \<Rightarrow> bool" where
  "airkiss_is_complete g = is_complete g"

text \<open>The pointers are null before a result is there.\<close>

definition airkiss_get_ssid :: "airkiss \<Rightarrow> byte list option" where
  "airkiss_get_ssid g = map_option ar_ssid (ak_result g)"

definition airkiss_get_pwd :: "airkiss \<Rightarrow> byte list option" where
  "airkiss_get_pwd g = map_option ar_pwd (ak_result g)"

definition airkiss_send_ack :: "(byte \<Rightarrow> bool) \<Rightarrow> airkiss \<Rightarrow> bool" where
  "airkiss_send_ack ak_port_udp_send_ack g = ak_port_udp_send_ack (case ak_result g of None \<Rightarrow> 0 | Some r \<Rightarrow> ar_random r)"

end
