(* ===== verification/Airkiss_Props.thy ===== *)
theory Airkiss_Props
  imports Airkiss
begin

unbundle bit_operations_syntax

text \<open>
  What the configuration by frame lengths does with arbitrary frames: the states that can be reached, an invariant of the arrays and of the
  number of bytes received, and the conditions under which no array is left and nothing divided by zero.
\<close>

section \<open>Blocks\<close>

definition ak_block :: "akloc \<Rightarrow> nat \<Rightarrow> nat" where
  "ak_block c i = min (unat (ak_prslen c) - 4 * i) 4"

definition ak_marked :: "akloc \<Rightarrow> nat set" where
  "ak_marked c = {i. i < 16 \<and> ak_seq c ! i \<noteq> 0}"

text \<open>The count of bytes is the sum over the blocks that are done.\<close>

definition ak_counts :: "akloc \<Rightarrow> bool" where
  "ak_counts c \<longleftrightarrow> unat (ak_reclen c) = sum (ak_block c) (ak_marked c)"

lemma finite_marked [simp]: "finite (ak_marked c)"
  by (simp add: ak_marked_def)

lemma blocks_sum: "(\<Sum>i < n. min (p - 4 * i) (4 :: nat)) = min p (4 * n)"
  by (induction n) auto

lemma blocks_total: "unat (ak_prslen c) \<le> 64 \<Longrightarrow> sum (ak_block c) {i. i < 16} = unat (ak_prslen c)"
  using blocks_sum [of "unat (ak_prslen c)" 16] by (simp add: ak_block_def lessThan_def)

lemma marked_le: "sum (ak_block c) (ak_marked c) \<le> sum (ak_block c) {i. i < 16}"
  by (rule sum_mono2) (auto simp: ak_marked_def)

text \<open>All bytes are there only if every block is done.\<close>

lemma all_marked:
  assumes "ak_counts c" "ak_reclen c = ak_prslen c" "unat (ak_prslen c) \<le> 64" "4 * i < unat (ak_prslen c)"
  shows "i \<in> ak_marked c"
proof (rule ccontr)
  assume "i \<notin> ak_marked c"
  moreover have i: "i < 16" using assms(3,4) by linarith
  ultimately have "sum (ak_block c) (insert i (ak_marked c)) = ak_block c i + sum (ak_block c) (ak_marked c)" by simp
  moreover have "sum (ak_block c) (insert i (ak_marked c)) \<le> sum (ak_block c) {i. i < 16}"
    using i by (intro sum_mono2) (auto simp: ak_marked_def)
  moreover have "0 < ak_block c i" using assms(4) by (simp add: ak_block_def)
  ultimately show False using assms(1,2) blocks_total [OF assms(3)] by (simp add: ak_counts_def)
qed

text \<open>One more block.\<close>

lemma counts_mark:
  assumes c: "ak_counts c" "length (ak_seq c) = 16" "i < 16" "ak_seq c ! i = 0" "unat (ak_prslen c) \<le> 64"
    and c': "ak_prslen c' = ak_prslen c" "ak_seq c' = (ak_seq c)[i := 1]" "ak_reclen c' = ak_reclen c + of_nat (ak_block c i)"
  shows "ak_counts c'"
proof -
  have m: "ak_marked c' = insert i (ak_marked c)" "i \<notin> ak_marked c" using c(2-4) c'(2) by (auto simp: ak_marked_def nth_list_update)
  have b: "ak_block c' = ak_block c" by (rule ext) (simp add: ak_block_def c'(1))
  have s: "sum (ak_block c') (ak_marked c') = unat (ak_reclen c) + ak_block c i" using c(1) m by (simp add: ak_counts_def b)
  moreover have "sum (ak_block c') (ak_marked c') \<le> 64" using marked_le [of c'] blocks_total [of c'] c(5) c'(1) by simp
  ultimately have "unat (ak_reclen c + of_nat (ak_block c i)) = unat (ak_reclen c) + ak_block c i"
    by (simp add: unat_word_ariths unat_of_nat)
  then show ?thesis by (simp add: ak_counts_def c'(3) s)
qed

section \<open>The data phase\<close>

definition ak_shape :: "akloc \<Rightarrow> bool" where
  "ak_shape c \<longleftrightarrow> length (ak_code1 c) = 3 \<and> (\<forall>g \<in> set (ak_code1 c). length (ag_val g) = 4 \<and> ag_pos g < 4)
     \<and> length (ac_val (ak_code2 c)) = 6 \<and> length (dcfl_data c) = 16 \<and> length (dcfl_pos c) = 16 \<and> length (ak_pendseq c) = 10
     \<and> length (ak_seq c) = 16 \<and> length (ak_data c) = 66"

text \<open>What the data phase relies on: a step of the sequence numbers that is not zero, and at most 63 bytes.\<close>

definition ak_sound :: "akloc \<Rightarrow> bool" where
  "ak_sound c \<longleftrightarrow> 0 < ak_seqstep c \<and> 0 < ak_prslen c \<and> ak_prslen c \<le> 63"

definition ak_same :: "akloc \<Rightarrow> akloc \<Rightarrow> bool" where
  "ak_same c c' \<longleftrightarrow> ak_prslen c' = ak_prslen c \<and> ak_seqstep c' = ak_seqstep c \<and> ak_code1 c' = ak_code1 c \<and> ak_code2 c' = ak_code2 c
     \<and> ak_baselen c' = ak_baselen c"

text \<open>A step of the data phase keeps the invariant, and these.\<close>

definition ak_wired :: "akloc \<Rightarrow> akloc option \<Rightarrow> bool" where
  "ak_wired c r \<longleftrightarrow> (\<exists>c'. r = Some c' \<and> ak_shape c' \<and> ak_counts c' \<and> ak_same c c' \<and> ak_state c' = ak_state c)"

lemma prslen_63: "ak_sound c \<Longrightarrow> unat (ak_prslen c) \<le> 63" "ak_sound c \<Longrightarrow> 0 < unat (ak_prslen c)" "ak_sound c \<Longrightarrow> 0 < unat (ak_seqstep c)"
  by (simp_all add: ak_sound_def word_le_nat_alt word_less_nat_alt)

lemma pend_scan_bound: "pend_scan ind ps i = Some k \<Longrightarrow> i \<le> k \<and> k < i + length ps \<and> hd_ind (ps ! (k - i)) = ind"
proof (induction ps arbitrary: i)
  case (Cons p ps)
  show ?case
  proof (cases "hd_ind p = ind")
    case False
    then have "i + 1 \<le> k \<and> k < i + 1 + length ps \<and> hd_ind (ps ! (k - (i + 1))) = ind"
      using Cons.IH [of "i + 1"] Cons.prems by simp
    then show ?thesis by (auto simp: nth_Cons')
  qed (use Cons.prems in auto)
qed simp

lemma getpend_bound: "akseq_getpend c ind = Some k \<Longrightarrow> k < length (ak_pendseq c) \<and> hd_ind (ak_pendseq c ! k) = ind"
  using pend_scan_bound [of ind "ak_pendseq c" 0 k] by (simp add: akseq_getpend_def)

lemma index_byte:
  assumes "i < 16"
  shows "(of_nat i OR 0x80 :: byte) AND 0x7f = of_nat i" "unat (of_nat i :: byte) = i" "(of_nat i :: byte) AND 0x7f = of_nat i"
proof -
  show u: "unat (of_nat i :: byte) = i" using assms by (simp add: unat_of_nat)
  have "\<forall>j \<in> set [0..<16]. (of_nat j OR 0x80 :: byte) AND 0x7f = of_nat j \<and> (of_nat j :: byte) AND 0x7f = of_nat j" by code_simp
  then show "(of_nat i OR 0x80 :: byte) AND 0x7f = of_nat i" "(of_nat i :: byte) AND 0x7f = of_nat i" using assms by auto
qed

lemma block_size: "4 * i \<le> unat (ak_prslen c) \<Longrightarrow> ak_block_size c i = int (ak_block c i)"
  by (simp add: ak_block_size_def ak_block_def of_nat_min of_nat_diff)

lemma counts_cong: "ak_counts c \<Longrightarrow> ak_prslen c' = ak_prslen c \<Longrightarrow> ak_seq c' = ak_seq c \<Longrightarrow> ak_reclen c' = ak_reclen c \<Longrightarrow> ak_counts c'"
  unfolding ak_counts_def ak_marked_def ak_block_def by simp

lemma pendinput_mark_ok:
  assumes "ak_shape c" "ak_counts c" "ak_sound c" "i < 16" "4 * i < unat (ak_prslen c)" "ak_seq c ! i = 0"
  shows "ak_wired c (ak_pendinput_mark c (of_nat i OR 0x80))"
proof (cases "akseq_getpend c (of_nat i OR 0x80)")
  case None
  then show ?thesis using assms by (simp add: ak_pendinput_mark_def ak_wired_def ak_same_def)
next
  case (Some k)
  let ?c = "c\<lparr>ak_pendseq := (ak_pendseq c)[k := zero_header], ak_seq := (ak_seq c)[i := 1], ak_reclen := ak_reclen c + of_nat (ak_block c i)\<rparr>"
  have "ak_counts ?c" using counts_mark [of c i ?c] assms prslen_63(1) [OF assms(3)] by (simp add: ak_shape_def)
  moreover have "4 * i + ak_block c i \<le> 66" using assms(4) by (simp add: ak_block_def)
  ultimately show ?thesis using assms Some
    by (auto simp: ak_pendinput_mark_def ak_wired_def ak_same_def ak_shape_def Let_def index_byte block_size array_simps mult.commute)
qed

text \<open>Positions computed from sequence numbers lie inside the data.\<close>

lemma frame_pos_bound: "fm < p + (p + 3) div 4 * 2 \<Longrightarrow> fm div 6 * 4 + fm mod 6 < p + (2 :: nat)"
proof -
  assume h: "fm < p + (p + 3) div 4 * 2"
  define q r a where "q = fm div 6" and "r = fm mod 6" and "a = (p + 3) div 4"
  have "fm = 6 * q + r" "r < 6" "4 * a \<le> p + 3" "p < 4 * a + 1" unfolding q_def r_def a_def by simp_all
  moreover have "q + 2 \<le> a \<or> q + 1 = a \<or> a \<le> q" by linarith
  ultimately show ?thesis using h unfolding q_def [symmetric] r_def [symmetric] a_def [symmetric] by linarith
qed

lemma offs_bound: "p \<le> 63 \<Longrightarrow> p + (p + 3) div 4 * 2 \<le> (95 :: nat)"
  by presburger

lemma penddata_bound:
  assumes "ak_sound c"
  shows "\<exists>pos. ak_penddata_getpos c ref ws = Some pos \<and> pos < int (unat (ak_prslen c))"
proof -
  have m: "0 < ak_maxoffs c" using prslen_63(2) [OF assms] by (simp add: ak_maxoffs_def)
  have "int (fm div 6) * 4 + int (fm mod 6) - 2 < int (unat (ak_prslen c))" if "fm < ak_maxoffs c" for fm
    using frame_pos_bound [of fm "unat (ak_prslen c)"] that unfolding ak_maxoffs_def by linarith
  moreover have "- 1 < uint (ak_prslen c)" by (rule order.strict_trans2 [of _ 0]) simp_all
  ultimately show ?thesis using m prslen_63(3) [OF assms] assms
    by (auto simp: ak_penddata_getpos_def Let_def ak_sound_def)
qed

lemma pendcrc_bound:
  assumes "ak_sound c"
  shows "\<exists>pos. ak_pendcrc_getpos c ref ws = Some pos \<and> (pos = - 1 \<or> (\<exists>j < 16. pos = int j OR 0x80))"
proof -
  have m: "0 < ak_maxoffs c" "ak_maxoffs c \<le> 95"
    using prslen_63(1,2) [OF assms] offs_bound by (auto simp: ak_maxoffs_def)
  have "x mod ak_maxoffs c div 6 < 16" for x using m mod_less_divisor [of "ak_maxoffs c" x] by linarith
  then show ?thesis using m(1) assms by (fastforce simp: ak_pendcrc_getpos_def Let_def ak_sound_def)
qed

lemma allocpend_ok:
  assumes "ak_shape c" "ak_counts c" "unat (ind AND 0x7f) < 16"
  shows "ak_wired c (akseq_allocpend c crc ind)"
  using assms counts_cong [OF assms(2)] by (auto simp: akseq_allocpend_def ak_wired_def ak_same_def ak_shape_def array_simps)

section \<open>Conflicts\<close>

text \<open>Only the table of conflicts changes.\<close>

definition ak_noted :: "akloc \<Rightarrow> akloc \<Rightarrow> bool" where
  "ak_noted c c' \<longleftrightarrow> (\<exists>a b. c' = c\<lparr>dcfl_data := a, dcfl_pos := b\<rparr> \<and> length a = 16 \<and> length b = 16)"

lemma noted_refl: "ak_shape c \<Longrightarrow> ak_noted c c"
  unfolding ak_noted_def ak_shape_def by (metis akloc.surjective akloc.update_convs(3,4))

lemma noted_keeps:
  assumes "ak_noted c c'" "ak_shape c" "ak_counts c"
  shows "ak_shape c' \<and> ak_counts c' \<and> ak_same c c' \<and> ak_state c' = ak_state c \<and> ak_pendseq c' = ak_pendseq c \<and> ak_seq c' = ak_seq c
    \<and> ak_data c' = ak_data c \<and> ak_prslen c' = ak_prslen c"
  using assms counts_cong [OF assms(3), of c'] by (auto simp: ak_noted_def ak_shape_def ak_same_def)

lemma notedI: "length a = 16 \<Longrightarrow> length b = 16 \<Longrightarrow> ak_noted c (c\<lparr>dcfl_data := a, dcfl_pos := b\<rparr>)"
  unfolding ak_noted_def by blast

lemma noted_trans: "ak_noted c c1 \<Longrightarrow> ak_noted c1 c2 \<Longrightarrow> ak_noted c c2"
  by (auto simp: ak_noted_def [of c c1] ak_noted_def [of c1] intro: notedI)

lemma add_noted:
  assumes "ak_shape c"
  shows "ak_noted c (ak_dataconflict_add c pos d mode)"
proof -
  obtain found zi where "conflict_scan c (pos + 1) d (if mode = 0 then [0..<12] else [12..<16]) None = (found, zi)"
    by (metis surj_pair)
  moreover have "ak_noted c (c\<lparr>dcfl_data := (dcfl_data c)[i := d], dcfl_pos := (dcfl_pos c)[i := pos + 1]\<rparr>)" for i
    using assms by (intro notedI) (simp_all add: ak_shape_def)
  ultimately show ?thesis using noted_refl [OF assms] by (cases found; cases zi) (simp_all add: ak_dataconflict_add_def)
qed

lemma clear_noted: "ak_noted c (ak_dataconflict_clear c pos)"
  unfolding ak_dataconflict_clear_def Let_def by (rule notedI) simp_all

lemma add_block_noted:
  assumes "ak_shape c" "ak_counts c" "\<forall>i \<in> set is. unat spos + i < 66"
  shows "\<exists>c'. conflict_add_block c spos is = Some c' \<and> ak_noted c c'"
  using assms
proof (induction "is" arbitrary: c)
  case (Cons i "is")
  let ?c = "ak_dataconflict_add c (spos + of_nat i) (ak_data c ! (unat spos + i)) 1"
  have n: "ak_noted c ?c" by (rule add_noted [OF Cons.prems(1)])
  obtain c' where "conflict_add_block ?c spos is = Some c'" "ak_noted ?c c'"
    using Cons.IH [of ?c] noted_keeps [OF n Cons.prems(1,2)] Cons.prems(3) by auto
  then show ?case using n Cons.prems noted_trans [OF n] by (auto simp: array_simps ak_shape_def)
qed (auto intro: noted_refl)

text \<open>A block is put together from the table.\<close>

definition ak_tried :: "akloc \<Rightarrow> (bool \<times> akloc) option \<Rightarrow> bool" where
  "ak_tried c r \<longleftrightarrow> (\<exists>ok c'. r = Some (ok, c') \<and> ak_shape c' \<and> ak_counts c' \<and> ak_same c c' \<and> ak_state c' = ak_state c)"

lemma ak_triedI: "ak_shape c' \<Longrightarrow> ak_counts c' \<Longrightarrow> ak_same c c' \<Longrightarrow> ak_state c' = ak_state c \<Longrightarrow> ak_tried c (Some (ok, c'))"
  by (auto simp: ak_tried_def)

lemma ak_same_refl [simp]: "ak_same c c"
  by (simp add: ak_same_def)

lemma ak_same_trans: "ak_same c c1 \<Longrightarrow> ak_same c1 c2 \<Longrightarrow> ak_same c c2"
  by (simp add: ak_same_def)

lemma conflict_crc_ok:
  assumes "ak_shape c" "ak_counts c" "ak_sound c" "i < 16" "ak_seq c ! i = 0" "ak_block c i = 4"
    and "hd_ind (ak_pendseq c ! k) AND 0x7f = of_nat i" "length d = 5" "d ! 0 = of_nat i"
  shows "ak_tried c (dataconflict_crccheck c k dpos d 4)"
proof -
  let ?data = "take (i * 4) (ak_data c) @ take 4 (drop 1 d) @ drop (i * 4 + 4) (ak_data c)"
  let ?c = "c\<lparr>ak_data := ?data, ak_pendseq := (ak_pendseq c)[k := zero_header], ak_seq := (ak_seq c)[i := 1], ak_reclen := ak_reclen c + of_nat 4\<rparr>"
  have p: "unat (ak_prslen c) \<le> 64" using prslen_63(1) [OF assms(3)] by simp
  have cnt: "ak_counts ?c" using assms counts_mark [OF assms(2) _ assms(4,5) p, of ?c] by (simp add: ak_shape_def)
  have shp: "ak_shape ?c" using assms(1,4,8) by (simp add: ak_shape_def)
  have "ak_same c ?c" by (simp add: ak_same_def)
  then have "ak_tried c (Some (True, ak_dataconflict_clear ?c (Some dpos)))"
    using noted_keeps [OF clear_noted shp cnt] ak_same_trans by (intro ak_triedI) auto
  moreover have "ak_tried c (Some (False, c))" using assms(1,2) by (intro ak_triedI) simp_all
  moreover have "dataconflict_crccheck c k dpos d 4 =
      (if airkiss_crc8 (take 5 d) AND 0x7f = hd_crc (ak_pendseq c ! k) AND 0x7f
       then Some (True, ak_dataconflict_clear ?c (Some dpos)) else Some (False, c))"
    using assms(1,4,7-9) by (simp add: dataconflict_crccheck_def Let_def ak_shape_def array_simps index_byte)
  ultimately show ?thesis by (simp only: split: if_split) blast
qed

lemma conflict_try_ok:
  assumes "ak_shape c" "ak_counts c" "ak_sound c" "i < 16" "ak_seq c ! i = 0" "ak_block c i = 4"
    and "hd_ind (ak_pendseq c ! k) AND 0x7f = of_nat i" "length d + length css = 5" "d \<noteq> []" "d ! 0 = of_nat i"
  shows "ak_tried c (conflict_try c k dpos d css)"
  using assms
proof (induction c k dpos d css rule: conflict_try.induct)
  case (1 c k dpos d)
  then show ?case using conflict_crc_ok [of c i k d dpos] by simp
next
  case (2 c k dpos d css)
  then show ?case by (auto intro: ak_triedI)
next
  case (3 c k dpos d ch cs css)
  have "ak_tried c (conflict_try c k dpos (d @ [ch]) css)" using "3.IH"(1) "3.prems" by (simp add: nth_append)
  then obtain ok c' where t: "conflict_try c k dpos (d @ [ch]) css = Some (ok, c')" "ak_tried c (Some (ok, c'))"
    by (auto simp: ak_tried_def)
  show ?case
  proof (cases ok)
    case False
    then show ?thesis using "3.IH"(2) [OF t(1)] "3.prems" t(1) by simp
  qed (use t in simp)
qed

lemma conflict_input_ok:
  assumes "ak_shape c" "ak_counts c" "ak_sound c" "i < 16" "4 * i < unat (ak_prslen c)" "ak_seq c ! i = 0"
  shows "ak_wired c (ak_dataconflict_input c (of_nat i) pos data)"
proof -
  let ?c = "ak_dataconflict_add c pos data 0"
  have n: "ak_noted c ?c" by (rule add_noted [OF assms(1)])
  note k = noted_keeps [OF n assms(1,2)]
  have snd: "ak_sound ?c" "ak_block ?c i = ak_block c i" using k assms(3) by (simp_all add: ak_sound_def ak_same_def ak_block_def)
  have sz: "ak_block_size c i = int (ak_block c i)" using block_size assms(5) by simp
  have fits: "4 * i + ak_block c i \<le> 66" using assms(4) by (simp add: ak_block_def)
  have crc: "ak_wired ?c (ak_dataconflict_crccheck ?c m (ak_block c i))" if m: "akseq_getpend ?c (of_nat i OR 0x80) = Some m" for m
  proof -
    have h: "hd_ind (ak_pendseq ?c ! m) AND 0x7f = of_nat i" using getpend_bound [OF m] assms(4) by (simp add: index_byte)
    have u: "unat (of_nat i * 4 :: byte) = i * 4" using assms(4) by (simp add: unat_word_ariths unat_of_nat)
    obtain c1 where c1: "conflict_add_block ?c (of_nat i * 4) [0..<ak_block c i] = Some c1" "ak_noted ?c c1"
      using add_block_noted [of ?c "[0..<ak_block c i]" "of_nat i * 4"] k fits u by auto
    note k1 = noted_keeps [OF c1(2)]
    have t: "ak_tried c1 (if 3 < ak_block c i
        then conflict_try c1 m (of_nat i * 4 + 3) [of_nat i] [conflict_chars c1 (of_nat i * 4) 0, conflict_chars c1 (of_nat i * 4 + 1) 0,
               conflict_chars c1 (of_nat i * 4 + 2) 0, conflict_chars c1 (of_nat i * 4 + 3) 0]
        else Some (False, c1))"
    proof (cases "3 < ak_block c i")
      case True
      then have "ak_block c1 i = 4" using k k1 by (simp add: ak_block_def)
      moreover have "ak_sound c1" using snd k k1 by (simp add: ak_sound_def ak_same_def)
      ultimately show ?thesis using True k k1 h assms(4,6) by (simp add: conflict_try_ok del: conflict_chars.simps)
    qed (use k k1 in \<open>auto intro: ak_triedI\<close>)
    then obtain ok c2 where c2: "(if 3 < ak_block c i
        then conflict_try c1 m (of_nat i * 4 + 3) [of_nat i] [conflict_chars c1 (of_nat i * 4) 0, conflict_chars c1 (of_nat i * 4 + 1) 0,
               conflict_chars c1 (of_nat i * 4 + 2) 0, conflict_chars c1 (of_nat i * 4 + 3) 0]
        else Some (False, c1)) = Some (ok, c2)" "ak_shape c2" "ak_counts c2" "ak_same c1 c2" "ak_state c2 = ak_state c1"
      unfolding ak_tried_def by blast
    have "ak_dataconflict_crccheck ?c m (ak_block c i) = Some (ak_dataconflict_clear c2 None)"
      using c1(1) c2(1) h by (simp add: ak_dataconflict_crccheck_def Let_def del: conflict_chars.simps)
    then show ?thesis using noted_keeps [OF clear_noted c2(2,3), of None] c2 k k1 ak_same_trans unfolding ak_wired_def
      by (auto simp: ak_same_def)
  qed
  show ?thesis
  proof (cases "akseq_getpend ?c (of_nat i OR 0x80)")
    case None
    then show ?thesis using k n fits assms(4) sz
      by (auto simp: ak_dataconflict_input_def Let_def ak_wired_def array_simps index_byte mult.commute ak_shape_def)
  next
    case (Some m)
    have "ak_wired c (Some ?c)" using k by (simp add: ak_wired_def)
    moreover have "ak_wired c (ak_dataconflict_crccheck ?c m (ak_block c i))"
      using crc [OF Some] k by (auto simp: ak_wired_def ak_same_def)
    moreover have "length (ak_data c) = 66" using assms(1) by (simp add: ak_shape_def)
    ultimately show ?thesis using k fits assms(4) sz Some
      by (simp add: ak_dataconflict_input_def Let_def array_simps index_byte mult.commute)
  qed
qed

section \<open>Single frames\<close>

lemma wired_tried: "ak_wired c r \<Longrightarrow> ak_tried c (Option.bind r (\<lambda>c'. Some (ok, c')))"
  by (auto simp: ak_wired_def ak_tried_def)

lemma databody_ok:
  assumes "ak_shape c" "ak_counts c" "ak_sound c"
  shows "ak_tried c (ak_databody_input c ref ws data)"
proof -
  obtain pos where pos: "ak_penddata_getpos c ref ws = Some pos" "pos < int (unat (ak_prslen c))"
    using penddata_bound [OF assms(3)] by blast
  have no: "ak_tried c (Some (False, c))" "ak_tried c (Some (True, c))" using assms by (auto intro: ak_triedI)
  have step: "ak_seqstep c \<noteq> 0" using assms(3) by (auto simp: ak_sound_def)
  show ?thesis
  proof (cases "pos < 0")
    case True
    then show ?thesis using pos(1) no step by (simp add: ak_databody_input_def Let_def)
  next
    case False
    let ?i = "nat pos div 4"
    have i: "?i < 16" "4 * ?i < unat (ak_prslen c)" "nat pos < 66" using False pos(2) prslen_63(1) [OF assms(3)] by linarith+
    let ?c = "c\<lparr>ak_data := (ak_data c)[nat pos := data]\<rparr>"
    have len: "length (ak_seq c) = 16" "length (ak_data c) = 66" using assms(1) by (simp_all add: ak_shape_def)
    have c1: "ak_shape ?c" "ak_counts ?c" "ak_sound ?c" using assms counts_cong [OF assms(2)] by (simp_all add: ak_shape_def ak_sound_def)
    have "ak_wired c (ak_pendinput_mark ?c (of_nat ?i OR 0x80))" "ak_wired c (ak_dataconflict_input c (of_nat ?i) (of_int pos) data)"
      if "ak_seq c ! ?i = 0"
      using pendinput_mark_ok [OF c1 i(1)] conflict_input_ok [OF assms i(1)] i(2) that by (auto simp: ak_wired_def ak_same_def)
    then show ?thesis using False pos(1) no step i len
      by (auto simp: ak_databody_input_def Let_def array_simps wired_tried)
  qed
qed

lemma byte_upper: "bit (h :: byte) 7 \<Longrightarrow> unat h = 128 + unat (h AND 0x7f)"
  by (simp add: byte_value bit_simps)

lemma head_index:
  assumes "ak_sound c" "(0x80 :: byte) \<le> head" "head \<le> (ak_prslen c div 4) OR 0x80"
  shows "unat (head AND 0x7f) < 16"
proof -
  have p: "unat (ak_prslen c div 4) \<le> 15" using prslen_63(1) [OF assms(1)] by (simp add: unat_div)
  have b: "bit head 7" using assms(2) by (auto simp: word_le_nat_alt byte_value of_bool_def split: if_splits)
  have "ak_prslen c div 4 = of_nat (unat (ak_prslen c div 4))" by simp
  then have m: "((ak_prslen c div 4) OR 0x80) AND 0x7f = ak_prslen c div 4" using index_byte(1) [of "unat (ak_prslen c div 4)"] p by simp
  have "unat ((ak_prslen c div 4) OR 0x80) = 128 + unat (ak_prslen c div 4)"
    using byte_upper [of "(ak_prslen c div 4) OR 0x80"] m by (simp add: bit_simps)
  then show ?thesis using assms(3) byte_upper [OF b] p by (simp add: word_le_nat_alt)
qed

lemma datahead_ok:
  assumes "ak_shape c" "ak_counts c" "ak_sound c" "0x80 \<le> head"
  shows "ak_wired c (ak_datahead_input c ws head)"
proof -
  obtain pos where pos: "ak_pendcrc_getpos c (ak_curseq c) ws = Some pos" using pendcrc_bound [OF assms(3)] by blast
  have upd: "ak_wired c (Some (c\<lparr>ak_curseq := x\<rparr>))" "ak_wired c (Some (c\<lparr>ak_curseq := x, ak_preseq := y\<rparr>))" "ak_wired c (Some c)" for x y
    using assms(1,2) counts_cong [OF assms(2)] by (auto simp: ak_wired_def ak_shape_def ak_same_def)
  have "ak_wired c (akseq_allocpend (c\<lparr>ak_curseq := x, ak_preseq := x\<rparr>) crc head)" if "head \<le> (ak_prslen c div 4) OR 0x80" for x crc
  proof -
    let ?c = "c\<lparr>ak_curseq := x, ak_preseq := x\<rparr>"
    have "ak_shape ?c" "ak_counts ?c" using assms(1) counts_cong [OF assms(2), of ?c] by (simp_all add: ak_shape_def)
    then have "ak_wired ?c (akseq_allocpend ?c crc head)" using head_index [OF assms(3,4) that] by (rule allocpend_ok)
    then show ?thesis by (simp add: ak_wired_def ak_same_def)
  qed
  moreover have "ak_seqstep c \<noteq> 0" using assms(3) by (auto simp: ak_sound_def)
  ultimately show ?thesis using pos upd by (simp add: ak_datahead_input_def Let_def)
qed

text \<open>A state after a frame of the data phase: unchanged in these parts, or all bytes have arrived.\<close>

definition ak_fed :: "akloc \<Rightarrow> akloc option \<Rightarrow> bool" where
  "ak_fed c r \<longleftrightarrow> (\<exists>c'. r = Some c' \<and> ak_shape c' \<and> ak_counts c' \<and> ak_same c c'
     \<and> (ak_state c' = ak_state c \<or> ak_state c' = AKSTATE_CMP \<and> ak_reclen c' = ak_prslen c'))"

lemma fedI: "ak_shape c' \<Longrightarrow> ak_counts c' \<Longrightarrow> ak_same c c'
    \<Longrightarrow> ak_state c' = ak_state c \<or> ak_state c' = AKSTATE_CMP \<and> ak_reclen c' = ak_prslen c' \<Longrightarrow> ak_fed c (Some c')"
  by (simp add: ak_fed_def)

lemma fed_some: "ak_fed c r \<Longrightarrow> \<exists>c'. r = Some c'"
  by (auto simp: ak_fed_def)

lemma fedD:
  assumes "ak_fed c (Some c')"
  shows "ak_shape c'" "ak_counts c'" "ak_same c c'" "ak_state c' = ak_state c \<or> ak_state c' = AKSTATE_CMP \<and> ak_reclen c' = ak_prslen c'"
  using assms by (simp_all add: ak_fed_def)

lemma wired_fed: "ak_wired c r \<Longrightarrow> ak_fed c r"
  by (auto simp: ak_wired_def ak_fed_def)

text \<open>Fields that no part of the invariant mentions.\<close>

lemma fed_irrelevant:
  assumes "ak_fed c (Some c')"
  shows "ak_fed c (Some (c'\<lparr>ak_curseq := x\<rparr>))" "ak_fed c (Some (c'\<lparr>ak_prews := w\<rparr>))"
  using fedD [OF assms] counts_cong [of c' "c'\<lparr>ak_curseq := x\<rparr>"] counts_cong [of c' "c'\<lparr>ak_prews := w\<rparr>"]
  by (auto intro!: fedI simp: ak_shape_def ak_same_def)

lemma fed_complete:
  assumes "ak_fed c (Some c')" "ak_reclen c' = ak_prslen c'"
  shows "ak_fed c (Some (c'\<lparr>ak_state := AKSTATE_CMP\<rparr>))"
  using fedD [OF assms(1)] assms(2) counts_cong [of c' "c'\<lparr>ak_state := AKSTATE_CMP\<rparr>"] by (auto intro!: fedI simp: ak_shape_def ak_same_def)

lemma body_fed:
  assumes "ak_shape c" "ak_counts c" "ak_sound c"
  shows "ak_fed c (ak_body_done c ws data)"
proof -
  obtain ok c' where c': "ak_databody_input c (ak_curseq c) ws data = Some (ok, c')" "ak_shape c'" "ak_counts c'" "ak_same c c'" "ak_state c' = ak_state c"
    using databody_ok [OF assms] unfolding ak_tried_def by blast
  have "ak_fed c (Some c')" using c' by (auto intro: fedI)
  then have "ak_fed c (Some (if ok then c' else c'\<lparr>ak_curseq := zero_seq\<rparr>))" using fed_irrelevant(1) by simp
  then show ?thesis using c'(1) fed_complete by (simp add: ak_body_done_def Let_def)
qed

lemma small_head:
  assumes "(0x80 :: u16) \<le> len" "len < 0x200" "len AND 0x100 = 0"
  shows "(0x80 :: byte) \<le> ucast len"
proof -
  have "\<not> bit len 8"
  proof
    assume "bit len 8"
    then have "bit (len AND 0x100) 8" by (simp add: bit_simps)
    then show False using assms(3) by simp
  qed
  then have "\<not> bit (unat len) 8" by (simp add: bit_unsigned_iff)
  then have "even (unat len div 256)" by (simp add: bit_iff_odd)
  moreover have "unat len < 512" using assms(2) by (simp add: word_less_nat_alt)
  then have "unat len div 256 < 2" by simp
  ultimately have "unat len div 256 = 0" using less_2_cases by fastforce
  then have "unat len < 256" by (simp add: div_eq_0_iff)
  then show ?thesis using assms(1) by (simp add: word_le_nat_alt unsigned_ucast_eq take_bit_nat_eq_self)
qed

lemma fed_sound: "ak_fed c (Some c') \<Longrightarrow> ak_sound c \<Longrightarrow> ak_sound c'"
  by (auto dest: fedD(3) simp: ak_same_def ak_sound_def)

lemma fed_trans:
  assumes "ak_fed c (Some c1)" "ak_state c1 = ak_state c" "ak_fed c1 r"
  shows "ak_fed c r"
  using assms ak_same_trans [OF fedD(3) [OF assms(1)]] by (auto simp: ak_fed_def)

text \<open>A checksum without an index: the index is guessed from the block before.\<close>

lemma guess_ok:
  assumes "ak_shape c" "ak_counts c" "ak_sound c"
  shows "ak_wired c (ak_guess_index c ws)"
proof -
  obtain pos where pos: "ak_pendcrc_getpos c (ak_preseq c) ws = Some pos" "pos = - 1 \<or> (\<exists>j < 16. pos = int j OR 0x80)"
    using pendcrc_bound [OF assms(3)] by blast
  show ?thesis
  proof (cases "0 < pos")
    case True
    then obtain j where j: "j < 16" "pos = int j OR 0x80" using pos(2) by auto
    then have "(of_int pos :: byte) AND 0x7f = of_nat j" using index_byte(1) [OF j(1)] by (simp add: of_int_or_eq)
    then have ix: "unat ((of_int pos :: byte) AND 0x7f) < 16" using j(1) index_byte(2) by simp
    let ?c = "c\<lparr>ak_curseq := (ak_curseq c)\<lparr>sq_ind := of_int pos\<rparr>\<rparr>"
    have "ak_shape ?c" "ak_counts ?c" using assms(1) counts_cong [OF assms(2), of ?c] by (simp_all add: ak_shape_def)
    from allocpend_ok [OF this, of "of_int pos" "sq_crc (ak_curseq c)"]
    show ?thesis using ix True pos(1) by (simp add: ak_guess_index_def Let_def ak_wired_def ak_same_def)
  qed (use assms pos(1) in \<open>simp add: ak_guess_index_def ak_wired_def\<close>)
qed

lemma wireseq_ok:
  assumes "ak_shape c" "ak_counts c" "ak_sound c" "24 \<le> length f" "0x80 \<le> len" "len < 0x200"
  shows "ak_fed c (ak_datainput_withwireseq c f len)"
proof -
  have "\<exists>ws. akwseq_fromframe f = Some ws" using assms(4) by (simp add: akwseq_fromframe_def array_simps)
  then obtain ws where ws: "akwseq_fromframe f = Some ws" by blast
  show ?thesis
  proof (cases "len AND 0x100 = 0")
    case True
    have "ak_fed c (ak_datahead_input c ws (ucast len))"
      using datahead_ok [OF assms(1-3) small_head [OF assms(5,6) True]] by (rule wired_fed)
    then show ?thesis using True ws fed_irrelevant(2) fed_some by (fastforce simp: ak_datainput_withwireseq_def)
  next
    case False
    let ?guess = "if sq_ind (ak_curseq c) = 0 \<and> sq_crc (ak_curseq c) \<noteq> 0 then ak_guess_index c ws else Some c"
    have "ak_wired c ?guess" using guess_ok [OF assms(1-3), of ws] assms(1,2) by (auto simp: ak_wired_def)
    then obtain c1 where c1: "?guess = Some c1" "ak_fed c (Some c1)" "ak_state c1 = ak_state c" "ak_shape c1" "ak_counts c1"
      unfolding ak_wired_def by (metis fedI)
    let ?body = "if sq_ind (ak_curseq c1) \<noteq> 0 then ak_body_done c1 ws (ucast len) else Some c1"
    have "ak_fed c1 ?body" using body_fed [OF c1(4,5) fed_sound [OF c1(2) assms(3)]] c1(4,5) by (auto intro: fedI)
    then have fed: "ak_fed c ?body" using c1(2,3) fed_trans by blast
    obtain c2 where c2: "?body = Some c2" using fed_some [OF fed] by blast
    have "ak_datainput_withwireseq c f len = Some (c2\<lparr>ak_curseq := (ak_curseq c2)\<lparr>sq_crc := 0\<rparr>, ak_prews := ws\<rparr>)"
      unfolding ak_datainput_withwireseq_def using False ws c1(1) c2 by simp
    then show ?thesis using fed_irrelevant(2) [OF fed_irrelevant(1) [OF fed [unfolded c2]]] by simp
  qed
qed

section \<open>Six lengths in a row\<close>

text \<open>How many lengths make the block whose index came second.\<close>

definition ak_group :: "akloc \<Rightarrow> u16 list \<Rightarrow> nat" where
  "ak_group c val =
     (let sz = unat (val ! 1 AND 0x7f) * 4 in
      if sz < unat (ak_prslen c) \<and> unat (ak_prslen c) - sz < 4 then unat (ak_prslen c) - sz + 2 else 6)"

definition ak_filling :: "akloc \<Rightarrow> akcode \<Rightarrow> bool" where
  "ak_filling c ac \<longleftrightarrow> length (ac_val ac) = 6 \<and> (ac_pos ac < 2 \<or> unat (ac_pos ac) < ak_group c (ac_val ac))"

lemma group_bounds: "3 \<le> ak_group c val" "ak_group c val \<le> 6"
  by (auto simp: ak_group_def Let_def)

lemma onlylength_ok:
  assumes "ak_filling c ac"
  shows "\<exists>got ac'. ak_datainput_onlylength c ac len = Some (got, ac') \<and> length (ac_val ac') = 6 \<and> (got \<or> ak_filling c ac')"
proof -
  let ?pos = "unat (ac_pos ac)" and ?val = "(ac_val ac)[unat (ac_pos ac) := len]"
  have l: "length (ac_val ac) = 6" using assms by (simp add: ak_filling_def)
  consider (data) "len AND 0x100 \<noteq> 0" "1 < ac_pos ac" | (lost) "len AND 0x100 \<noteq> 0" "\<not> 1 < ac_pos ac"
    | (head) "len AND 0x100 = 0" "ac_pos ac < 2" | (again) "len AND 0x100 = 0" "\<not> ac_pos ac < 2" by blast
  then show ?thesis
  proof cases
    case data
    have two: "1 < ?pos" "\<not> ac_pos ac < 2" using data(2) by (auto simp: word_less_nat_alt)
    then have pos: "?pos < ak_group c (ac_val ac)" using assms by (auto simp: ak_filling_def)
    have u: "unat (ac_pos ac + 1) = ?pos + 1" using pos group_bounds(2) [of c "ac_val ac"] by (simp add: unat_word_ariths)
    have g: "ak_group c ?val = ak_group c (ac_val ac)" using two(1) by (simp add: ak_group_def)
    have "ak_datainput_onlylength c ac len
        = Some (unat (ac_pos ac + 1) = ak_group c ?val, ac\<lparr>ac_val := ?val, ac_pos := ac_pos ac + 1\<rparr>)"
      using data l pos group_bounds(2) [of c "ac_val ac"]
      by (simp add: ak_datainput_onlylength_def Let_def array_simps ak_group_def [of c ?val])
    moreover have "unat (ac_pos ac + 1) = ak_group c ?val \<or> ak_filling c (ac\<lparr>ac_val := ?val, ac_pos := ac_pos ac + 1\<rparr>)"
      using pos u g l by (auto simp: ak_filling_def)
    ultimately show ?thesis using l by auto
  next
    case lost
    then show ?thesis using l by (auto simp: ak_datainput_onlylength_def ak_filling_def)
  next
    case head
    have "?pos < 2" using head(2) by (simp add: word_less_nat_alt)
    then have u: "unat (ac_pos ac + 1) \<le> 2" by (simp add: unat_word_ariths)
    then have "ak_filling c (ac\<lparr>ac_val := ?val, ac_pos := ac_pos ac + 1\<rparr>)"
      using l group_bounds(1) [of c ?val] by (simp add: ak_filling_def)
    then show ?thesis using head l \<open>?pos < 2\<close> by (auto simp: ak_datainput_onlylength_def array_simps)
  next
    case again
    then show ?thesis using l by (auto simp: ak_datainput_onlylength_def ak_filling_def)
  qed
qed

lemma get_datafield_ok:
  assumes "ak_shape c" "ak_counts c" "unat (ak_prslen c) \<le> 63"
  shows "ak_tried c (ak_get_datafield c)"
proof -
  let ?val = "ac_val (ak_code2 c)"
  let ?i = "unat (?val ! 1 AND 0x7f)"
  let ?tmp = "ucast (?val ! 1 AND 0x7F) # map (\<lambda>v. ucast (v AND 0xFF)) (take 4 (drop 2 ?val)) :: byte list"
  let ?new = "take (ak_block c ?i) (drop 1 ?tmp)"
  let ?data = "take (?i * 4) (ak_data c) @ ?new @ drop (?i * 4 + length ?new) (ak_data c)"
  let ?c = "c\<lparr>ak_data := ?data, ak_reclen := ak_reclen c + of_nat (ak_block c ?i), ak_seq := (ak_seq c)[?i := 1]\<rparr>"
  have no: "ak_tried c (Some (False, c))" using assms by (auto intro: ak_triedI)
  have len: "length (ak_seq c) = 16" "length (ak_data c) = 66" "length ?val = 6" using assms(1) by (simp_all add: ak_shape_def)
  have new: "length ?new = ak_block c ?i" using len(3) by (simp add: ak_block_def)
  have blk: "min (unat (ak_prslen c) - ?i * 4) 4 = ak_block c ?i" by (simp add: ak_block_def mult.commute)
  show ?thesis
  proof (cases "unat (ak_prslen c) div 4 < ?i")
    case True
    then show ?thesis using no by (simp add: ak_get_datafield_def Let_def)
  next
    case False
    then have i: "?i < 16" "?i * 4 + ak_block c ?i \<le> 66" using assms(3) by (auto simp: ak_block_def)
    have "ak_tried c (Some (True, ?c))" if "ak_seq c ! ?i = 0"
    proof (rule ak_triedI)
      show "ak_counts ?c" using counts_mark [OF assms(2) len(1) i(1) that, of ?c] assms(3) by simp
      show "ak_shape ?c" using assms(1) i(2) new len(2) by (simp add: ak_shape_def)
    qed (simp_all add: ak_same_def)
    moreover have "ak_get_datafield c = (if ak_seq c ! ?i \<noteq> 0 then Some (False, c)
        else if airkiss_crc8 (take (ak_block c ?i + 1) ?tmp) AND 0x7F = ucast (?val ! 0 AND 0x7F) then Some (True, ?c) else Some (False, c))"
      using False i len new blk by (simp add: ak_get_datafield_def Let_def array_simps)
    ultimately show ?thesis using no by (simp only: split: if_split) blast
  qed
qed

section \<open>The invariant\<close>

definition ak_fresh :: "akloc \<Rightarrow> bool" where
  "ak_fresh c \<longleftrightarrow> ak_reclen c = 0 \<and> ak_seq c = replicate 16 0"

definition ak_inv :: "akloc \<Rightarrow> bool" where
  "ak_inv c \<longleftrightarrow> ak_shape c \<and> (case ak_state c of
       AKSTATE_WFG \<Rightarrow> ak_fresh c
     | AKSTATE_WFM \<Rightarrow> ak_fresh c \<and> ac_pos (ak_code2 c) < 4
     | AKSTATE_WFP \<Rightarrow> ak_fresh c \<and> ac_pos (ak_code2 c) < 4
     | AKSTATE_WFD \<Rightarrow> ak_counts c \<and> ak_filling c (ak_code2 c)
     | AKSTATE_CMP \<Rightarrow> ak_counts c \<and> ak_reclen c = ak_prslen c \<and> ak_prslen c \<le> 63)"

definition ak_step_ok :: "(airkiss_status \<times> akloc) option \<Rightarrow> bool" where
  "ak_step_ok r \<longleftrightarrow> (\<exists>s c'. r = Some (s, c') \<and> ak_inv c')"

lemma step_okI: "ak_inv c' \<Longrightarrow> ak_step_ok (Some (s, c'))"
  by (simp add: ak_step_ok_def)

lemma fresh_counts: "ak_fresh c \<Longrightarrow> ak_counts c"
  by (auto simp: ak_fresh_def ak_counts_def ak_marked_def)

lemma reset_inv: "ak_inv akloc_reset"
  by (simp add: ak_inv_def ak_shape_def akloc_reset_def ak_fresh_def zero_guide_def zero_akcode_def)

text \<open>The guide code.\<close>

lemma guide_scan_bound: "(\<forall>i \<in> set is. i < 3) \<Longrightarrow> imin < 3 \<Longrightarrow> snd (guide_scan sa codes is imin) < 3"
  by (induction "is" arbitrary: imin) auto

lemma guidefield_input_ok:
  assumes "length (ag_val ac) = 4" "ag_pos ac < 4" "24 \<le> length f"
  shows "\<exists>got ac'. ak_guidefield_input ac (Some f) len = Some (got, ac') \<and> length (ag_val ac') = 4 \<and> (got \<or> ag_pos ac' < 4)"
proof -
  obtain ws where ws: "akwseq_fromframe f = Some ws" using assms(3) by (auto simp: akwseq_fromframe_def array_simps)
  let ?p = "ak_guide_prepare ac ws len"
  have p: "length (ag_val ?p) = 4" "ag_pos ?p < 4" using assms(1,2) by (auto simp: ak_guide_prepare_def Let_def)
  let ?a = "?p\<lparr>ag_val := (ag_val ?p)[ag_pos ?p := ucast len], ag_pos := ag_pos ?p + 1, ag_wval := ag_wval ?p + of_nat (ag_pos ?p + 1)\<rparr>"
  have "ak_guidefield_input ac (Some f) len = Some (ag_pos ?a = 4, ?a)"
    using assms(2) p by (simp add: ak_guidefield_input_def ws Let_def array_simps)
  then show ?thesis using p by auto
qed

lemma guide_ok:
  assumes "ak_inv c" "ak_state c = AKSTATE_WFG" "24 \<le> length f"
  shows "ak_step_ok (ak_waitfor_guidefield c (Some f) len)"
proof -
  have c: "ak_shape c" "ak_fresh c" using assms(1,2) by (simp_all add: ak_inv_def)
  obtain sa where sa: "akaddr_fromframe f = Some sa" using assms(3) by (auto simp: akaddr_fromframe_def i_addr2_def i_addr3_def array_simps)
  obtain found i where g: "guide_scan sa (ak_code1 c) [0..<3] 0 = (found, i)" by (metis surj_pair)
  have i: "i < 3" using guide_scan_bound [of "[0..<3]" 0 sa "ak_code1 c"] g by simp
  define c1 where "c1 = (if found then c
    else c\<lparr>ak_code1 := (ak_code1 c)[i := (ak_code1 c ! i)\<lparr>ag_pos := 0, ag_err := 0, ag_scnt := 0, ag_wval := 0, ag_sa := sa\<rparr>]\<rparr>)"
  have get: "ak_guide_getcode c (Some f) = Some (i, c1)" using sa g by (simp add: ak_guide_getcode_def c1_def)
  have all: "\<forall>g \<in> set (ak_code1 c). length (ag_val g) = 4 \<and> ag_pos g < 4" "length (ak_code1 c) = 3" using c(1) by (simp_all add: ak_shape_def)
  have mem: "ak_code1 c ! i \<in> set (ak_code1 c)" using i all(2) by simp
  have c1: "ak_shape c1" "ak_fresh c1" "ak_state c1 = AKSTATE_WFG"
    using c assms(2) i mem by (auto simp: c1_def ak_shape_def ak_fresh_def dest!: set_update_subset_insert [THEN subsetD])
  have all1: "\<forall>g \<in> set (ak_code1 c1). length (ag_val g) = 4 \<and> ag_pos g < 4" "length (ak_code1 c1) = 3" using c1(1) by (simp_all add: ak_shape_def)
  have "ak_code1 c1 ! i \<in> set (ak_code1 c1)" using i all1(2) by simp
  then obtain got ac where ac: "ak_guidefield_input (ak_code1 c1 ! i) (Some f) len = Some (got, ac)" "length (ag_val ac) = 4" "got \<or> ag_pos ac < 4"
    using guidefield_input_ok [of "ak_code1 c1 ! i" f len] all1(1) assms(3) by blast
  have put: "ak_inv (c1\<lparr>ak_code1 := (ak_code1 c1)[i := a]\<rparr>)" if "length (ag_val a) = 4" "ag_pos a < 4" for a
    using c1 that by (auto simp: ak_inv_def ak_shape_def ak_fresh_def dest!: set_update_subset_insert [THEN subsetD])
  have lock: "ak_inv (c1\<lparr>ak_state := AKSTATE_WFM, ak_baselen := x, ak_seqstep := y, ak_locked := z,
      ak_code1 := replicate 3 zero_guide, ak_code2 := zero_akcode\<rparr>)" for x y z
    using c1 by (simp add: ak_inv_def ak_shape_def ak_fresh_def zero_guide_def zero_akcode_def)
  show ?thesis
    using ac put [of "ac\<lparr>ag_pos := 0, ag_scnt := (ag_scnt ac + 1) mod 16\<rparr>"] put [of ac] lock
    by (auto simp: ak_waitfor_guidefield_def get Let_def intro!: step_okI)
qed

text \<open>The magic code and the prefix.\<close>

lemma field_input_ok:
  assumes "length (ac_val ac) = 6" "ac_pos ac < 4"
  shows "\<exists>got ac'. ak_field_input first ac len = Some (got, ac') \<and> length (ac_val ac') = 6 \<and> (got \<or> ac_pos ac' < 4)"
proof -
  have p: "unat (ac_pos ac) < 4" using assms(2) by (simp add: word_less_nat_alt)
  then have "unat (ac_pos ac + 1) \<le> 4" by (simp add: unat_word_ariths)
  then have "ac_pos ac + 1 = 4 \<or> ac_pos ac + 1 < 4" by (auto simp: word_less_nat_alt word_unat_eq_iff)
  then show ?thesis using assms p by (auto simp: ak_field_input_def Let_def array_simps)
qed

lemma magic_ok:
  assumes "ak_inv c" "ak_state c = AKSTATE_WFM"
  shows "ak_step_ok (ak_waitfor_magicfield c len)"
proof -
  have c: "ak_shape c" "ak_fresh c" "ac_pos (ak_code2 c) < 4" using assms by (simp_all add: ak_inv_def)
  obtain got ac where ac: "ak_magicfield_input (ak_code2 c) (aklen_udp c len) = Some (got, ac)" "length (ac_val ac) = 6" "got \<or> ac_pos ac < 4"
    using field_input_ok [of "ak_code2 c" 0 "aklen_udp c len"] c by (auto simp: ak_magicfield_input_def ak_shape_def)
  show ?thesis
    using c ac assms(2) reset_inv
    by (auto simp: ak_waitfor_magicfield_def ak_get_magicfield_def Let_def ak_inv_def ak_shape_def ak_fresh_def intro!: step_okI)
qed

lemma prefix_ok:
  assumes "ak_inv c" "ak_state c = AKSTATE_WFP"
  shows "ak_step_ok (ak_waitfor_prefixfield c len)"
proof -
  have c: "ak_shape c" "ak_fresh c" "ac_pos (ak_code2 c) < 4" using assms by (simp_all add: ak_inv_def)
  obtain got ac where ac: "ak_prefixfield_input (ak_code2 c) (aklen_udp c len) = Some (got, ac)" "length (ac_val ac) = 6" "got \<or> ac_pos ac < 4"
    using field_input_ok [of "ak_code2 c" 4 "aklen_udp c len"] c by (auto simp: ak_prefixfield_input_def ak_shape_def)
  have "ak_counts (c\<lparr>ak_code2 := x, ak_pwdlen := y, ak_state := z\<rparr>)" for x y z
    by (rule counts_cong [OF fresh_counts [OF c(2)]]) simp_all
  then show ?thesis
    using c ac assms(2)
    by (auto simp: ak_waitfor_prefixfield_def ak_get_prefixfield_def Let_def ak_inv_def ak_shape_def ak_fresh_def ak_filling_def intro!: step_okI)
qed

text \<open>The data.\<close>

lemma group_cong: "ak_prslen c' = ak_prslen c \<Longrightarrow> ak_group c' = ak_group c"
  by (rule ext) (simp add: ak_group_def Let_def)

lemma filling_cong: "ak_filling c ac \<Longrightarrow> ak_prslen c' = ak_prslen c \<Longrightarrow> ak_filling c' ac"
  unfolding ak_filling_def by (subst (asm) group_cong [symmetric, of c']) auto

lemma fed_inv:
  assumes "ak_fed c (Some c')" "ak_state c = AKSTATE_WFD" "ak_filling c (ak_code2 c)" "ak_sound c"
  shows "ak_inv c'"
proof -
  note d = fedD [OF assms(1)]
  have "ak_filling c' (ak_code2 c')" "ak_prslen c' \<le> 63" using filling_cong [OF assms(3)] d(3) assms(4) by (simp_all add: ak_same_def ak_sound_def)
  then show ?thesis using d assms(2) by (auto simp: ak_inv_def)
qed

lemma data_ok:
  assumes inv: "ak_inv c" "ak_state c = AKSTATE_WFD" and f: "24 \<le> length f" and fair: "ak_sound c" "aklen_udp c len < 0x200"
  shows "ak_step_ok (ak_waitfor_datafield c (Some f) len)"
proof (cases "aklen_udp c len < 0x80")
  case True
  then show ?thesis using inv by (simp add: ak_waitfor_datafield_def Let_def step_okI)
next
  case False
  have c: "ak_shape c" "ak_counts c" "ak_filling c (ak_code2 c)" using inv by (simp_all add: ak_inv_def)
  obtain got ac where ac: "ak_datainput_onlylength c (ak_code2 c) (aklen_udp c len) = Some (got, ac)" "length (ac_val ac) = 6"
    "got \<or> ak_filling c ac" using onlylength_ok [OF c(3)] by blast
  have upd: "ak_shape (c\<lparr>ak_code2 := a\<rparr>)" "ak_counts (c\<lparr>ak_code2 := a\<rparr>)" "ak_sound (c\<lparr>ak_code2 := a\<rparr>)" if "length (ac_val a) = 6" for a
    using c that fair(1) counts_cong [OF c(2), of "c\<lparr>ak_code2 := a\<rparr>"] by (simp_all add: ak_shape_def ak_sound_def)
  have wire: "\<exists>c'. ak_datainput_withwireseq c1 f (aklen_udp c len) = Some c' \<and> ak_inv c'"
    if "ak_shape c1" "ak_counts c1" "ak_sound c1" "ak_state c1 = AKSTATE_WFD" "ak_filling c1 (ak_code2 c1)" for c1
  proof -
    have fed: "ak_fed c1 (ak_datainput_withwireseq c1 f (aklen_udp c len))" using wireseq_ok [OF that(1-3) f _ fair(2)] False by simp
    then obtain c' where "ak_datainput_withwireseq c1 f (aklen_udp c len) = Some c'" using fed_some by blast
    then show ?thesis using fed fed_inv [of c1 c'] that by simp
  qed
  show ?thesis
  proof (cases got)
    case False
    let ?c = "c\<lparr>ak_code2 := ac\<rparr>"
    have "ak_filling ?c (ak_code2 ?c)" using ac(3) False filling_cong by simp
    then show ?thesis using wire [of ?c] upd [OF ac(2)] inv(2) ac(1) False \<open>\<not> aklen_udp c len < 0x80\<close>
      by (auto simp: ak_waitfor_datafield_def Let_def intro!: step_okI)
  next
    case True
    let ?c = "c\<lparr>ak_code2 := ac\<lparr>ac_pos := 0\<rparr>\<rparr>"
    have u: "ak_shape ?c" "ak_counts ?c" "ak_sound ?c" using upd [of "ac\<lparr>ac_pos := 0\<rparr>"] ac(2) by simp_all
    obtain ok c1 where c1: "ak_get_datafield ?c = Some (ok, c1)" "ak_shape c1" "ak_counts c1" "ak_same ?c c1" "ak_state c1 = AKSTATE_WFD"
      using get_datafield_ok [OF u(1,2)] prslen_63(1) [OF u(3)] inv(2) unfolding ak_tried_def by auto
    have s1: "ak_sound c1" "ak_filling c1 (ak_code2 c1)" using c1(4) u(3) ac(2) by (simp_all add: ak_same_def ak_sound_def ak_filling_def)
    have cmp: "ak_inv (c1\<lparr>ak_state := AKSTATE_CMP\<rparr>)" if "ak_reclen c1 = ak_prslen c1"
      using fed_inv [OF fed_complete [OF fedI [where c = c1] that]] c1 s1 by simp
    obtain c2 where "ak_datainput_withwireseq c1 f (aklen_udp c len) = Some c2" "ak_inv c2" using wire [OF c1(2,3) s1(1) c1(5) s1(2)] by blast
    then show ?thesis using True c1(1) cmp ac(1) \<open>\<not> aklen_udp c len < 0x80\<close>
      by (simp add: ak_waitfor_datafield_def Let_def step_okI)
  qed
qed

section \<open>Reachable states\<close>

text \<open>What the data phase needs of the codes before it and of a frame.\<close>

definition ak_fair :: "akloc \<Rightarrow> u16 \<Rightarrow> bool" where
  "ak_fair c len \<longleftrightarrow> (ak_state c = AKSTATE_WFD \<longrightarrow> ak_sound c \<and> aklen_udp c len < 0x200)"

lemma recv_step:
  assumes "ak_inv c" "24 \<le> length f" "ak_fair c len"
  shows "ak_step_ok (airkiss_recv c (Some f) len)"
proof -
  obtain sa where sa: "akaddr_fromframe f = Some sa" using assms(2) by (auto simp: akaddr_fromframe_def i_addr2_def i_addr3_def array_simps)
  then obtain other where "ak_sa_filter c f = Some other" by (cases "ak_state c = AKSTATE_WFG") (auto simp: ak_sa_filter_def)
  then show ?thesis
    using assms guide_ok [OF assms(1) _ assms(2)] magic_ok [OF assms(1)] prefix_ok [OF assms(1)] data_ok [OF assms(1) _ assms(2)]
    by (cases "ak_state c") (auto simp: airkiss_recv_def ak_fair_def intro!: step_okI)
qed

inductive ak_reach :: "akloc \<Rightarrow> bool" where
  start: "ak_reach akloc_reset"
| recv: "ak_reach c \<Longrightarrow> 24 \<le> length f \<Longrightarrow> ak_fair c len \<Longrightarrow> airkiss_recv c (Some f) len = Some (s, c') \<Longrightarrow> ak_reach c'"
| hop: "ak_reach c \<Longrightarrow> ak_reach (airkiss_change_channel c)"

lemma reach_inv: "ak_reach c \<Longrightarrow> ak_inv c"
proof (induction rule: ak_reach.induct)
  case (recv c f len s c')
  then show ?case using recv_step [of c f len] by (simp add: ak_step_ok_def)
qed (simp_all add: reset_inv airkiss_change_channel_def)

text \<open>C12: However frames of any length and content follow each other and channels change, as long as the guide code gave a step of the sequence
  numbers that is not zero, the magic code a length from 1 to 63, and no frame of the data phase is 512 bytes or more
  above the base length, the next frame is handled inside the arrays and without a division by zero; and when the
  configuration is complete, every block of it is marked as received: no byte was counted twice.\<close>

theorem airkiss_safe:
  assumes "ak_reach c"
  shows "(\<forall>f len. 24 \<le> length f \<and> ak_fair c len \<longrightarrow> (\<exists>s c'. airkiss_recv c (Some f) len = Some (s, c')))
    \<and> (ak_state c = AKSTATE_CMP \<longrightarrow> (\<forall>i. 4 * i < unat (ak_prslen c) \<longrightarrow> ak_seq c ! i \<noteq> 0))"
proof (intro conjI allI impI)
  fix f :: "byte list" and len
  assume "24 \<le> length f \<and> ak_fair c len"
  then show "\<exists>s c'. airkiss_recv c (Some f) len = Some (s, c')" using recv_step [OF reach_inv [OF assms]] unfolding ak_step_ok_def by blast
next
  fix i
  assume "ak_state c = AKSTATE_CMP" "4 * i < unat (ak_prslen c)"
  moreover from this have "ak_counts c" "ak_reclen c = ak_prslen c" "unat (ak_prslen c) \<le> 63"
    using reach_inv [OF assms] by (simp_all add: ak_inv_def word_le_nat_alt)
  ultimately show "ak_seq c ! i \<noteq> 0" using all_marked [of c i] by (simp add: ak_marked_def)
qed

section \<open>Concrete frames\<close>

text \<open>A frame with a sequence number, and frames given by their sequence numbers and their lengths above the base length 100.\<close>

definition ak_frame :: "nat \<Rightarrow> byte list" where
  "ak_frame ws = replicate 22 0 @ [of_nat (ws mod 16 * 16), of_nat (ws div 16)]"

primrec ak_feed :: "(nat \<times> nat) list \<Rightarrow> akloc \<Rightarrow> akloc option" where
  "ak_feed [] c = Some c"
| "ak_feed (x # xs) c = Option.bind (airkiss_recv c (Some (ak_frame (fst x))) (of_nat (100 + snd x))) (\<lambda>(s, c). ak_feed xs c)"

text \<open>The guide code twice, then the magic code for \<open>n\<close> bytes and the prefix for a password of \<open>p\<close> bytes.\<close>

definition ak_codes :: "nat \<Rightarrow> nat \<Rightarrow> nat list" where
  "ak_codes n p = (let crc = unat (airkiss_crc8 [of_nat p]) in
     [1, 2, 3, 4, 1, 2, 3, 4, n div 16, 16 + n mod 16, 32, 48, 64 + p div 16, 80 + p mod 16, 96 + crc div 16, 112 + crc mod 16])"

primrec ak_feed_fair :: "(nat \<times> nat) list \<Rightarrow> akloc \<Rightarrow> bool" where
  "ak_feed_fair [] c \<longleftrightarrow> True"
| "ak_feed_fair (x # xs) c \<longleftrightarrow> ak_fair c (of_nat (100 + snd x)) \<and>
     (case airkiss_recv c (Some (ak_frame (fst x))) (of_nat (100 + snd x)) of None \<Rightarrow> False | Some (s, c) \<Rightarrow> ak_feed_fair xs c)"

lemma ak_feed_reach: "ak_feed_fair xs c \<Longrightarrow> ak_reach c \<Longrightarrow> \<exists>c'. ak_feed xs c = Some c' \<and> ak_reach c'"
proof (induction xs arbitrary: c)
  case (Cons x xs)
  then obtain s d where d: "airkiss_recv c (Some (ak_frame (fst x))) (of_nat (100 + snd x)) = Some (s, d)" "ak_feed_fair xs d"
    by (auto split: option.splits)
  have "ak_reach d" using ak_reach.recv [OF Cons.prems(2) _ _ d(1)] Cons.prems(1) by (simp add: ak_frame_def)
  then show ?case using Cons.IH [OF d(2)] d(1) by simp
qed simp

text \<open>Five bytes: a password of two, the random byte and a name of two.\<close>

definition ak_example :: "(nat \<times> nat) list" where
  "ak_example = zip [0..<25] (ak_codes 5 2 @
     [128 + unat (airkiss_crc8 [0, 0x70, 0x77, 0x4D, 0x61] AND 0x7f), 128, 256 + 0x70, 256 + 0x77, 256 + 0x4D, 256 + 0x61,
      128 + unat (airkiss_crc8 [1, 0x62] AND 0x7f), 129, 256 + 0x62])"

theorem airkiss_safe_witness:
  "\<exists>c. ak_feed ak_example akloc_reset = Some c \<and> ak_reach c \<and> ak_state c = AKSTATE_CMP \<and> ak_seq c ! 0 \<noteq> 0 \<and> ak_seq c ! 1 \<noteq> 0"
proof -
  have "ak_feed_fair ak_example akloc_reset" by code_simp
  then obtain c where c: "ak_feed ak_example akloc_reset = Some c" "ak_reach c" using ak_feed_reach [OF _ ak_reach.start] by blast
  have "map_option (\<lambda>c. (ak_state c, ak_prslen c)) (ak_feed ak_example akloc_reset) = Some (AKSTATE_CMP, 5)" by code_simp
  then have "ak_state c = AKSTATE_CMP" "unat (ak_prslen c) = 5" using c(1) by simp_all
  then show ?thesis using c airkiss_safe [OF c(2)] by auto
qed


end
