(* ===== verification/Airkiss_Phone.thy ===== *)
theory Airkiss_Phone
  imports Airkiss_Props
begin

unbundle bit_operations_syntax

text \<open>
  A phone that sends a configuration by frame lengths, and how its frames, received in order and without loss, take the receiver through the
  guide code, the magic code and the prefix.  \<^verbatim>\<open>Airkiss_Run\<close> goes on with the data.
\<close>

section \<open>The phone\<close>

record akphone =
  ap_base :: nat
  ap_first :: nat
  ap_step :: nat
  ap_sa :: "byte list"
  ap_ssidcrc :: nat
  ap_pwd :: "byte list"
  ap_random :: byte
  ap_ssid :: "byte list"

definition ap_payload :: "akphone \<Rightarrow> byte list" where
  "ap_payload p = ap_pwd p @ ap_random p # ap_ssid p"

definition ap_len :: "akphone \<Rightarrow> nat" where
  "ap_len p = length (ap_payload p)"

text \<open>The bytes of a block, their number, and the checksum of seven bits over the index and the bytes.\<close>

definition ap_block :: "akphone \<Rightarrow> nat \<Rightarrow> byte list" where
  "ap_block p i = take 4 (drop (4 * i) (ap_payload p))"

definition ap_crc :: "akphone \<Rightarrow> nat \<Rightarrow> nat" where
  "ap_crc p i = unat (airkiss_crc8 (of_nat i # ap_block p i) AND 0x7f)"

definition ap_blocks :: "akphone \<Rightarrow> nat" where
  "ap_blocks p = (ap_len p + 3) div 4"

definition ap_frames :: "akphone \<Rightarrow> nat" where
  "ap_frames p = 16 + ap_len p + 2 * ap_blocks p"

text \<open>The length of frame number \<open>k\<close> above the base length.\<close>

definition ap_above :: "akphone \<Rightarrow> nat \<Rightarrow> nat" where
  "ap_above p k =
     (let n = ap_len p; l = length (ap_pwd p); crc = unat (airkiss_crc8 [of_nat l]); i = (k - 16) div 6; j = (k - 16) mod 6 in
      if k < 8 then 1 + k mod 4
      else if k < 16 then
        [n div 16, 16 + n mod 16, 32 + ap_ssidcrc p div 16, 48 + ap_ssidcrc p mod 16, 64 + l div 16, 80 + l mod 16, 96 + crc div 16,
         112 + crc mod 16] ! (k - 8)
      else if j = 0 then 128 + ap_crc p i else if j = 1 then 128 + i else 256 + unat (ap_payload p ! (4 * i + (j - 2))))"

text \<open>The lengths fit their fields, and the sequence numbers neither wrap nor start so low that they seem to continue an unknown block.\<close>

definition ap_ok :: "akphone \<Rightarrow> bool" where
  "ap_ok p \<longleftrightarrow> 24 \<le> ap_base p \<and> ap_base p + 4 \<le> 255 \<and> 1 \<le> ap_step p \<and> ap_step p \<le> 42 \<and> ap_len p \<le> 63 \<and> ap_ssidcrc p < 256
     \<and> 0 \<notin> set (ap_pwd p) \<and> 0 \<notin> set (ap_ssid p) \<and> length (ap_sa p) = 4
     \<and> ap_first p + ap_frames p * ap_step p \<le> 4095 \<and> ap_len p + 2 * ap_blocks p < ap_first p div ap_step p + 16"

text \<open>The frames are a function of their number; only the addresses and the sequence number matter.\<close>

definition ap_frame :: "akphone \<Rightarrow> nat \<Rightarrow> byte list \<Rightarrow> bool" where
  "ap_frame p k f \<longleftrightarrow> akaddr_fromframe f = Some (ap_sa p) \<and> akwseq_fromframe f = Some (of_nat (ap_first p + k * ap_step p))"

definition ap_length :: "akphone \<Rightarrow> nat \<Rightarrow> u16" where
  "ap_length p k = of_nat (ap_base p + ap_above p k)"

primrec ak_run :: "akphone \<Rightarrow> (nat \<Rightarrow> byte list) \<Rightarrow> nat list \<Rightarrow> akloc \<Rightarrow> akloc option" where
  "ak_run p F [] c = Some c"
| "ak_run p F (k # ks) c = Option.bind (airkiss_recv c (Some (F k)) (ap_length p k)) (\<lambda>(s, c). ak_run p F ks c)"

lemma ak_run_append: "ak_run p F (ks @ js) c = Option.bind (ak_run p F ks c) (ak_run p F js)"
  by (induction ks arbitrary: c) (auto split: bind_splits)

section \<open>Numbers\<close>

lemma ap_bounds:
  assumes "ap_ok p"
  shows "ap_base p < 256" "0 < ap_len p" "ap_len p \<le> 63" "length (ap_pwd p) < 63" "ap_step p \<le> 42" "0 < ap_step p"
    "unat (of_nat (ap_len p) :: byte) = ap_len p" "unat (of_nat (ap_step p) :: byte) = ap_step p"
proof -
  show "ap_base p < 256" "ap_len p \<le> 63" "ap_step p \<le> 42" "0 < ap_step p" using assms by (simp_all add: ap_ok_def)
  show "0 < ap_len p" "length (ap_pwd p) < 63" using assms by (simp_all add: ap_ok_def ap_len_def ap_payload_def)
  show "unat (of_nat (ap_len p) :: byte) = ap_len p" "unat (of_nat (ap_step p) :: byte) = ap_step p"
    using assms by (simp_all add: ap_ok_def unat_of_nat)
qed

lemma ws_unat:
  assumes "ap_ok p" "k \<le> ap_frames p"
  shows "unat (of_nat (ap_first p + k * ap_step p) :: u16) = ap_first p + k * ap_step p"
proof -
  have "k * ap_step p \<le> ap_frames p * ap_step p" using assms(2) by simp
  then have "ap_first p + k * ap_step p < 65536" using assms(1) unfolding ap_ok_def by linarith
  then show ?thesis by (simp only: unat_of_nat) simp
qed

lemma udp_len:
  assumes "ap_ok p" "ak_baselen c = of_nat (ap_base p)"
  shows "aklen_udp c (ap_length p k) = of_nat (ap_above p k)"
proof -
  have "(ucast (of_nat (ap_base p) :: byte) :: u16) = of_nat (ap_base p)"
    using ap_bounds(1) [OF assms(1)] by (simp add: word_unat_eq_iff unsigned_ucast_eq unat_of_nat take_bit_nat_eq_self)
  then show ?thesis by (simp add: aklen_udp_def ap_length_def assms(2))
qed

lemma field_code: "x < 65536 \<Longrightarrow> unat (drop_bit 4 (of_nat x :: u16)) = x div 16"
  by (simp add: drop_bit_eq_div unat_div unat_of_nat)

lemma nibbles_all: "\<forall>v0 \<in> set [0..<16]. \<forall>v1 \<in> set [0..<16].
    ucast (push_bit 4 (of_nat v0 :: u16) OR of_nat v1) = (of_nat (16 * v0 + v1) :: byte)"
  by code_simp

lemma ap_low_nibble: "(of_nat x :: u16) AND 0xF = of_nat (x mod 16)"
proof -
  have "(of_nat x :: u16) AND 0xF = take_bit 4 (of_nat x)" by (simp add: take_bit_eq_mask mask_numeral)
  also have "\<dots> = of_nat (take_bit 4 x)" by (simp add: take_bit_of_nat)
  finally show ?thesis by (simp add: take_bit_eq_mod)
qed

lemma info_nibbles:
  assumes "x mod 16 = v div 16" "y mod 16 = v mod 16" "v < 256"
  shows "akinfo_getu8 (of_nat x) (of_nat y) = of_nat v"
proof -
  have "v div 16 \<in> set [0..<16]" "v mod 16 \<in> set [0..<16]" using assms(3) by auto
  then have "ucast (push_bit 4 (of_nat (v div 16) :: u16) OR of_nat (v mod 16)) = (of_nat (16 * (v div 16) + v mod 16) :: byte)"
    using nibbles_all by blast
  then show ?thesis by (simp add: akinfo_getu8_def ap_low_nibble assms(1,2))
qed

lemma byte_of_nat: "(ucast (of_nat n :: u16) :: byte) = of_nat n"
  by (simp add: word_unat_eq_iff unsigned_ucast_eq unat_of_nat take_bit_eq_mod mod_mod_cancel)

section \<open>The guide code\<close>

definition guide_at :: "akphone \<Rightarrow> akcode_guide \<Rightarrow> nat \<Rightarrow> nat \<Rightarrow> bool" where
  "guide_at p g r k \<longleftrightarrow> ag_sa g = ap_sa p \<and> ag_pos g = k \<and> ag_scnt g = r \<and> ag_wval g = of_nat (10 * r + k * (k + 1) div 2)
     \<and> length (ag_val g) = 4
     \<and> (0 < k \<longrightarrow> ag_ws g = of_nat (ap_first p + 4 * r * ap_step p) \<and> ag_val g ! 0 = of_nat (ap_base p + 1)
          \<and> ag_val g ! (k - 1) = of_nat (ap_base p + k) \<and> ag_seqcnt g = of_nat (ap_step p * (k * (k - 1) div 2)))"

lemma four_cases: "k < 4 \<Longrightarrow> k = 0 \<or> k = 1 \<or> k = 2 \<or> k = (3 :: nat)"
  by linarith

lemma guide_follows:
  assumes "ap_ok p" "0 < k" "k < 4"
  shows "uint (of_nat (ap_base p + (k + 1)) :: u16) - uint (of_nat (ap_base p + k) :: byte) = 1"
proof -
  have "ap_base p + 4 \<le> 255" using assms(1) by (simp add: ap_ok_def)
  then have "unat (of_nat (ap_base p + (k + 1)) :: u16) = ap_base p + (k + 1)" "unat (of_nat (ap_base p + k) :: byte) = ap_base p + k"
    using assms(3) by (simp_all only: unat_of_nat) simp_all
  then show ?thesis by (metis add_diff_cancel_left add_diff_cancel_left' of_nat_1 of_nat_add uint_nat)
qed

lemma guide_input:
  assumes ok: "ap_ok p" and g: "guide_at p g r k" and k: "k < 4" and f: "ap_frame p (4 * r + k) f"
  shows "\<exists>g'. ak_guidefield_input g (Some f) (of_nat (ap_base p + (k + 1))) = Some (k = 3, g') \<and> guide_at p g' r (k + 1)"
proof -
  let ?ws = "of_nat (ap_first p + (4 * r + k) * ap_step p) :: u16" and ?len = "of_nat (ap_base p + (k + 1)) :: u16"
  have ws: "akwseq_fromframe f = Some ?ws" using f by (simp add: ap_frame_def)
  have d: "(ucast (?ws - of_nat (ap_first p + 4 * r * ap_step p)) :: byte) = of_nat (k * ap_step p)"
    using byte_of_nat [of "k * ap_step p"] by (simp add: algebra_simps)
  let ?p = "ak_guide_prepare g ?ws ?len"
  have prep: "ag_sa ?p = ag_sa g" "ag_pos ?p = k" "ag_scnt ?p = ag_scnt g" "ag_wval ?p = ag_wval g" "ag_val ?p = ag_val g"
    "ag_ws ?p = of_nat (ap_first p + 4 * r * ap_step p)" "ag_seqcnt ?p = of_nat (ap_step p * ((k + 1) * k div 2))"
    using four_cases [OF k] g d guide_follows [OF ok, of k] by (auto simp: ak_guide_prepare_def Let_def guide_at_def algebra_simps)
  have l: "length (ag_val g) = 4" using g by (simp add: guide_at_def)
  let ?g = "?p\<lparr>ag_val := (ag_val g)[k := ucast ?len], ag_pos := k + 1, ag_wval := ag_wval g + of_nat (k + 1)\<rparr>"
  have "ak_guidefield_input g (Some f) ?len = Some (k = 3, ?g)"
    using k l g prep by (simp add: ak_guidefield_input_def ws Let_def array_simps guide_at_def)
  moreover have "guide_at p ?g r (k + 1)"
    using four_cases [OF k] g prep l byte_of_nat [of "ap_base p + (k + 1)"] by (auto simp: guide_at_def algebra_simps)
  ultimately show ?thesis by blast
qed

definition guiding :: "akphone \<Rightarrow> akloc \<Rightarrow> nat \<Rightarrow> nat \<Rightarrow> bool" where
  "guiding p c r k \<longleftrightarrow> (\<exists>gs. c = akloc_reset\<lparr>ak_code1 := gs\<rparr> \<and> length gs = 3 \<and> guide_at p (gs ! 0) r k)"

definition ap_locked :: "akphone \<Rightarrow> akloc" where
  "ap_locked p = akloc_reset\<lparr>ak_state := AKSTATE_WFM, ak_baselen := of_nat (ap_base p), ak_seqstep := of_nat (ap_step p), ak_locked := ap_sa p\<rparr>"

lemma upt_3: "[0..<3] = [0, 1, 2 :: nat]"
  by (simp add: upt_rec)

lemma getcode_again:
  assumes "guiding p c r k" "ap_frame p j f"
  shows "ak_guide_getcode c (Some f) = Some (0, c)"
  using assms by (auto simp: guiding_def guide_at_def ak_guide_getcode_def ap_frame_def upt_3)

lemma getcode_first:
  assumes "ap_frame p j f"
  shows "\<exists>c. ak_guide_getcode akloc_reset (Some f) = Some (0, c) \<and> guiding p c 0 0"
proof -
  let ?c = "akloc_reset\<lparr>ak_code1 := [zero_guide\<lparr>ag_sa := ap_sa p\<rparr>, zero_guide, zero_guide]\<rparr>"
  have three: "replicate 3 zero_guide = [zero_guide, zero_guide, zero_guide]" by (simp add: numeral_3_eq_3)
  have "guide_scan (ap_sa p) (replicate 3 zero_guide) [0..<3] 0 = (ap_sa p = ag_sa zero_guide, 0)"
    unfolding three upt_3 by (auto simp: zero_guide_def)
  moreover have "ak_code1 akloc_reset = replicate 3 zero_guide" by (simp add: akloc_reset_def)
  ultimately have "ak_guide_getcode akloc_reset (Some f) = Some (0, ?c)"
    using assms three by (auto simp: ak_guide_getcode_def ap_frame_def zero_guide_def akloc_reset_def)
  moreover have "guiding p ?c 0 0" unfolding guiding_def by (intro exI conjI, rule refl) (simp_all add: guide_at_def zero_guide_def)
  ultimately show ?thesis by blast
qed

lemma guide_wait:
  assumes ok: "ap_ok p" and get: "ak_guide_getcode c (Some f) = Some (0, c1)" and c1: "guiding p c1 r k" and k: "k < 4" and r: "r < 2"
    and f: "ap_frame p (4 * r + k) f"
  shows "\<exists>s c'. ak_waitfor_guidefield c (Some f) (of_nat (ap_base p + (k + 1))) = Some (s, c')
    \<and> (if k < 3 then guiding p c' r (k + 1) else if r = 0 then guiding p c' 1 0 else c' = ap_locked p)"
proof -
  obtain gs where gs: "c1 = akloc_reset\<lparr>ak_code1 := gs\<rparr>" "length gs = 3" "guide_at p (gs ! 0) r k" using c1 by (auto simp: guiding_def)
  obtain g where g: "ak_guidefield_input (gs ! 0) (Some f) (of_nat (ap_base p + (k + 1))) = Some (k = 3, g)" "guide_at p g r (k + 1)"
    using guide_input [OF ok gs(3) k f] by blast
  have upd: "guiding p (c1\<lparr>ak_code1 := (ak_code1 c1)[0 := h]\<rparr>) r' k'" if "guide_at p h r' k'" for h r' k'
    unfolding guiding_def gs(1) using that gs(2) by (intro exI [of _ "gs[0 := h]"]) simp
  have code: "ak_code1 c1 ! 0 = gs ! 0" by (simp add: gs(1))
  have w: "ak_waitfor_guidefield c (Some f) (of_nat (ap_base p + (k + 1))) = Some
       (if k = 3 then
          let ac = g\<lparr>ag_pos := 0, ag_scnt := (ag_scnt g + 1) mod 16\<rparr> in
          if 2 \<le> ag_scnt ac \<and> 20 \<le> ag_wval ac
          then (AIRKISS_STATUS_CHANNEL_LOCKED,
                c1\<lparr>ak_state := AKSTATE_WFM, ak_baselen := ag_val ac ! 0 - 1, ak_seqstep := ag_seqcnt ac div 6, ak_locked := ag_sa ac,
                  ak_code1 := replicate 3 zero_guide, ak_code2 := zero_akcode\<rparr>)
          else (AIRKISS_STATUS_CONTINUE, c1\<lparr>ak_code1 := (ak_code1 c1)[0 := ac]\<rparr>)
        else (AIRKISS_STATUS_CONTINUE, c1\<lparr>ak_code1 := (ak_code1 c1)[0 := g]\<rparr>))"
    using get g(1) code by (simp add: ak_waitfor_guidefield_def del: of_nat_add)
  consider "k < 3" | "k = 3" "r = 0" | "k = 3" "r = 1" using k r by linarith
  then show ?thesis
  proof cases
    case 1
    then show ?thesis using w upd [OF g(2)] by simp
  next
    case 2
    then have "guide_at p (g\<lparr>ag_pos := 0, ag_scnt := (ag_scnt g + 1) mod 16\<rparr>) 1 0" using g(2) by (simp add: guide_at_def)
    from upd [OF this] show ?thesis using w 2 g(2) by (simp add: guide_at_def)
  next
    case 3
    have "(of_nat (ap_step p * 6) :: byte) div 6 = of_nat (ap_step p)"
      using ap_bounds(5) [OF ok] by (simp add: word_unat_eq_iff unat_div unat_of_nat del: of_nat_mult)
    then have "c1\<lparr>ak_state := AKSTATE_WFM, ak_baselen := ag_val g ! 0 - 1, ak_seqstep := ag_seqcnt g div 6, ak_locked := ag_sa g,
        ak_code1 := replicate 3 zero_guide, ak_code2 := zero_akcode\<rparr> = ap_locked p"
      using 3 g(2) gs(1) by (simp add: guide_at_def ap_locked_def akloc_reset_def del: of_nat_mult)
    then show ?thesis using w 3 g(2) by (simp add: guide_at_def)
  qed
qed

lemma guide_recv:
  assumes "ap_ok p" "guiding p c r k" "k < 4" "r < 2" "ap_frame p (4 * r + k) f"
  shows "\<exists>s c'. airkiss_recv c (Some f) (ap_length p (4 * r + k)) = Some (s, c')
    \<and> (if k < 3 then guiding p c' r (k + 1) else if r = 0 then guiding p c' 1 0 else c' = ap_locked p)"
proof -
  have "ap_length p (4 * r + k) = of_nat (ap_base p + (k + 1))" using assms(3,4) by (simp add: ap_length_def ap_above_def)
  moreover have "ak_state c = AKSTATE_WFG" using assms(2) by (auto simp: guiding_def akloc_reset_def)
  ultimately show ?thesis using guide_wait [OF assms(1) getcode_again [OF assms(2,5)] assms(2-5)]
    by (simp add: airkiss_recv_def ak_sa_filter_def)
qed

lemma guide_recv_first:
  assumes "ap_ok p" "ap_frame p 0 f"
  shows "\<exists>s c. airkiss_recv akloc_reset (Some f) (ap_length p 0) = Some (s, c) \<and> guiding p c 0 1"
proof -
  obtain c1 where c1: "ak_guide_getcode akloc_reset (Some f) = Some (0, c1)" "guiding p c1 0 0" using getcode_first [OF assms(2)] by blast
  have "ap_length p 0 = of_nat (ap_base p + (0 + 1))" by (simp add: ap_length_def ap_above_def)
  moreover have "ak_state akloc_reset = AKSTATE_WFG" by (simp add: akloc_reset_def)
  ultimately show ?thesis using guide_wait [OF assms(1) c1, of] assms(2) by (simp add: airkiss_recv_def ak_sa_filter_def)
qed

lemma guide_phase:
  assumes "ap_ok p" "\<And>k. k < 8 \<Longrightarrow> ap_frame p k (F k)"
  shows "ak_run p F [0..<8] akloc_reset = Some (ap_locked p)"
proof -
  have st: "\<exists>s c'. airkiss_recv c (Some (F m)) (ap_length p m) = Some (s, c') \<and> guiding p c' r' k'"
    if "guiding p c r k" "r < 2" "m = 4 * r + k" "k < 3 \<and> r' = r \<and> k' = k + 1 \<or> k = 3 \<and> r = 0 \<and> r' = 1 \<and> k' = 0" for c r k m r' k'
  proof -
    have "k < 4" "m < 8" using that by auto
    then show ?thesis using guide_recv [OF assms(1) that(1) _ that(2), of "F m"] assms(2) [of m] that by (auto split: if_splits)
  qed
  obtain s c1 where c1: "airkiss_recv akloc_reset (Some (F 0)) (ap_length p 0) = Some (s, c1)" "guiding p c1 0 1"
    using guide_recv_first [OF assms(1) assms(2) [of 0]] by auto
  obtain s1 c2 where c2: "airkiss_recv c1 (Some (F 1)) (ap_length p 1) = Some (s1, c2)" "guiding p c2 0 2"
    using st [OF c1(2), of 1 0 2] by auto
  obtain s2 c3 where c3: "airkiss_recv c2 (Some (F 2)) (ap_length p 2) = Some (s2, c3)" "guiding p c3 0 3"
    using st [OF c2(2), of 2 0 3] by auto
  obtain s3 c4 where c4: "airkiss_recv c3 (Some (F 3)) (ap_length p 3) = Some (s3, c4)" "guiding p c4 1 0"
    using st [OF c3(2), of 3 1 0] by auto
  obtain s4 c5 where c5: "airkiss_recv c4 (Some (F 4)) (ap_length p 4) = Some (s4, c5)" "guiding p c5 1 1"
    using st [OF c4(2), of 4 1 1] by auto
  obtain s5 c6 where c6: "airkiss_recv c5 (Some (F 5)) (ap_length p 5) = Some (s5, c6)" "guiding p c6 1 2"
    using st [OF c5(2), of 5 1 2] by auto
  obtain s6 c7 where c7: "airkiss_recv c6 (Some (F 6)) (ap_length p 6) = Some (s6, c7)" "guiding p c7 1 3"
    using st [OF c6(2), of 6 1 3] by auto
  obtain s7 where c8: "airkiss_recv c7 (Some (F 7)) (ap_length p 7) = Some (s7, ap_locked p)"
    using guide_recv [OF assms(1) c7(2), of "F 7"] assms(2) [of 7] by auto
  have "[0..<8] = [0, 1, 2, 3, 4, 5, 6, 7 :: nat]" by (simp add: upt_rec)
  then show ?thesis using c1 c2 c3 c4 c5 c6 c7 c8 by simp
qed

section \<open>Magic code and prefix\<close>

lemma field_next:
  assumes "x div 16 = first + k" "x < 65536" "k < 4" "length (ac_val ac) = 6" "k = 0 \<or> ac_pos ac = of_nat k"
  shows "ak_field_input first ac (of_nat x) = Some (k = 3, ac\<lparr>ac_val := (ac_val ac)[k := of_nat x], ac_pos := of_nat (k + 1)\<rparr>)"
proof (cases "k = 0")
  case True
  then show ?thesis using assms(1,2) by (simp add: ak_field_input_def Let_def field_code)
next
  case False
  have u: "unat (of_nat k :: byte) = k" using assms(3) by (simp add: unat_of_nat)
  have "(of_nat k + 1 = (4 :: byte)) = (k = 3)" using four_cases [OF assms(3)] by auto
  then show ?thesis using False assms u by (simp add: ak_field_input_def Let_def field_code array_simps add.commute)
qed

lemma recv_locked:
  assumes "ap_frame p k f" "ak_locked c = ap_sa p"
  shows "airkiss_recv c (Some f) len = (case ak_state c of
      AKSTATE_WFG \<Rightarrow> ak_waitfor_guidefield c (Some f) len | AKSTATE_WFM \<Rightarrow> ak_waitfor_magicfield c len
    | AKSTATE_WFP \<Rightarrow> ak_waitfor_prefixfield c len | AKSTATE_WFD \<Rightarrow> ak_waitfor_datafield c (Some f) len
    | AKSTATE_CMP \<Rightarrow> Some (AIRKISS_STATUS_COMPLETE, c))"
  using assms by (simp add: airkiss_recv_def ak_sa_filter_def ap_frame_def)

text \<open>The four values of a code have been stored after four frames.\<close>

definition code_at :: "akphone \<Rightarrow> nat \<Rightarrow> akcode \<Rightarrow> nat \<Rightarrow> bool" where
  "code_at p m ac k \<longleftrightarrow> length (ac_val ac) = 6 \<and> (k = 0 \<or> ac_pos ac = of_nat k) \<and> ac_rcnt ac \<le> 100 \<and> (\<forall>j < k. ac_val ac ! j = of_nat (ap_above p (m + j)))"

lemma code_next:
  assumes "code_at p m ac k" "k < 4" "ap_above p (m + k) div 16 = first + k" "ap_above p (m + k) < 65536"
  shows "\<exists>ac'. ak_field_input first ac (of_nat (ap_above p (m + k))) = Some (k = 3, ac') \<and> code_at p m ac' (k + 1) \<and> ac_rcnt ac' = ac_rcnt ac"
proof -
  let ?ac = "ac\<lparr>ac_val := (ac_val ac)[k := of_nat (ap_above p (m + k))], ac_pos := of_nat (k + 1)\<rparr>"
  have ac: "length (ac_val ac) = 6" "k = 0 \<or> ac_pos ac = of_nat k" "ac_rcnt ac \<le> 100" "\<And>j. j < k \<Longrightarrow> ac_val ac ! j = of_nat (ap_above p (m + j))"
    using assms(1) by (simp_all add: code_at_def)
  have v: "(ac_val ac)[k := x] ! j = (if j = k then x else ac_val ac ! j)" for x j using ac(1) assms(2) by (simp add: nth_list_update)
  have "(ac_val ac)[k := of_nat (ap_above p (m + k))] ! j = of_nat (ap_above p (m + j))" if "j < k + 1" for j
    using that ac(4) [of j] v by auto
  then have "code_at p m ?ac (k + 1)" using ac(1,3) unfolding code_at_def by (intro conjI allI impI) simp_all
  then show ?thesis using field_next [OF assms(3,4,2) ac(1,2)] by (intro exI [of _ ?ac] conjI) (assumption, assumption, simp)
qed

definition magic_at :: "akphone \<Rightarrow> akloc \<Rightarrow> nat \<Rightarrow> bool" where
  "magic_at p c k \<longleftrightarrow> (\<exists>ac. c = (ap_locked p)\<lparr>ak_code2 := ac\<rparr> \<and> code_at p 8 ac k \<and> unat (ac_rcnt ac) = k)"

definition prefix_at :: "akphone \<Rightarrow> akloc \<Rightarrow> nat \<Rightarrow> bool" where
  "prefix_at p c k \<longleftrightarrow> (\<exists>ac. c = (ap_locked p)\<lparr>ak_prslen := of_nat (ap_len p), ak_ssidcrc := of_nat (ap_ssidcrc p), ak_state := AKSTATE_WFP, ak_code2 := ac\<rparr>
     \<and> code_at p 12 ac k)"

text \<open>The state in which the data begin.\<close>

definition data_start :: "akphone \<Rightarrow> akloc \<Rightarrow> bool" where
  "data_start p c \<longleftrightarrow> (\<exists>ac. c = (ap_locked p)\<lparr>ak_code2 := ac, ak_prslen := of_nat (ap_len p), ak_ssidcrc := of_nat (ap_ssidcrc p),
       ak_pwdlen := of_nat (length (ap_pwd p)), ak_state := AKSTATE_WFD\<rparr> \<and> length (ac_val ac) = 6 \<and> ac_pos ac = 0)"

lemma upper_nibble:
  "y < 16 \<Longrightarrow> (32 + y) mod 16 = (y :: nat)" "y < 16 \<Longrightarrow> (48 + y) mod 16 = y" "y < 16 \<Longrightarrow> (64 + y) mod 16 = y"
  "y < 16 \<Longrightarrow> (80 + y) mod 16 = y" "y < 16 \<Longrightarrow> (96 + y) mod 16 = y" "y < 16 \<Longrightarrow> (112 + y) mod 16 = y"
  using mod_mult_self4 [of 16 2 y] mod_mult_self4 [of 16 3 y] mod_mult_self4 [of 16 4 y] mod_mult_self4 [of 16 5 y] mod_mult_self4 [of 16 6 y]
    mod_mult_self4 [of 16 7 y] by simp_all

lemma magic_values:
  assumes "ap_ok p" "k < 4"
  shows "ap_above p (8 + k) div 16 = k" "ap_above p (8 + k) < 65536"
    "ap_above p (8 + k) mod 16 = [ap_len p div 16, ap_len p mod 16, ap_ssidcrc p div 16, ap_ssidcrc p mod 16] ! k"
  using four_cases [OF assms(2)] assms(1) by (auto simp: ap_above_def Let_def ap_ok_def upper_nibble)

lemma prefix_values:
  assumes "ap_ok p" "k < 4"
  defines "crc \<equiv> unat (airkiss_crc8 [of_nat (length (ap_pwd p))])"
  shows "ap_above p (12 + k) div 16 = 4 + k" "ap_above p (12 + k) < 65536"
    "ap_above p (12 + k) mod 16 = [length (ap_pwd p) div 16, length (ap_pwd p) mod 16, crc div 16, crc mod 16] ! k"
proof -
  have "crc < 256" unfolding crc_def using unsigned_less [of "airkiss_crc8 [of_nat (length (ap_pwd p))]"] by simp
  then show "ap_above p (12 + k) div 16 = 4 + k" "ap_above p (12 + k) < 65536"
    "ap_above p (12 + k) mod 16 = [length (ap_pwd p) div 16, length (ap_pwd p) mod 16, crc div 16, crc mod 16] ! k"
    using four_cases [OF assms(2)] ap_bounds(4) [OF assms(1)] by (auto simp: ap_above_def Let_def crc_def upper_nibble)
qed

lemma magic_step:
  assumes ok: "ap_ok p" and c: "magic_at p c k" and k: "k < 4" and f: "ap_frame p (8 + k) f"
  shows "\<exists>s c'. airkiss_recv c (Some f) (ap_length p (8 + k)) = Some (s, c') \<and> (if k = 3 then prefix_at p c' 0 else magic_at p c' (k + 1))"
proof -
  obtain ac where ac: "c = (ap_locked p)\<lparr>ak_code2 := ac\<rparr>" "code_at p 8 ac k" "unat (ac_rcnt ac) = k" using c by (auto simp: magic_at_def)
  obtain ac' where ac': "ak_field_input 0 ac (of_nat (ap_above p (8 + k))) = Some (k = 3, ac')" "code_at p 8 ac' (k + 1)" "ac_rcnt ac' = ac_rcnt ac"
    using code_next [OF ac(2) k] magic_values(1,2) [OF ok k] by auto
  have u: "aklen_udp c (ap_length p (8 + k)) = of_nat (ap_above p (8 + k))"
    using udp_len [OF ok, of c "8 + k"] by (simp add: ac(1) ap_locked_def)
  have rc: "\<not> 250 < ac_rcnt ac" "ac_rcnt ac + 1 \<le> 100" "unat (ac_rcnt ac + 1) = k + 1"
    using ac(3) k by (simp_all add: word_less_nat_alt word_le_nat_alt unat_word_ariths)
  have r: "airkiss_recv c (Some f) (ap_length p (8 + k)) = ak_waitfor_magicfield c (ap_length p (8 + k))"
    using recv_locked [OF f, of c] by (simp add: ac(1) ap_locked_def)
  show ?thesis
  proof (cases "k = 3")
    case False
    let ?a = "ac'\<lparr>ac_rcnt := ac_rcnt ac + 1\<rparr>"
    have "ak_waitfor_magicfield c (ap_length p (8 + k)) = Some (AIRKISS_STATUS_CONTINUE, (ap_locked p)\<lparr>ak_code2 := ?a\<rparr>)"
      using False ac' rc u by (simp add: ak_waitfor_magicfield_def ak_magicfield_input_def ac(1) Let_def)
    moreover have "magic_at p ((ap_locked p)\<lparr>ak_code2 := ?a\<rparr>) (k + 1)"
      unfolding magic_at_def using ac'(2) rc by (intro exI [of _ ?a]) (simp add: code_at_def)
    ultimately show ?thesis using False r by simp
  next
    case True
    have v: "\<forall>j < 4. ac_val ac' ! j = of_nat (ap_above p (8 + j))" "length (ac_val ac') = 6" using ac'(2) True by (simp_all add: code_at_def)
    have v0: "ac_val ac' ! 0 \<noteq> 8"
    proof
      assume "ac_val ac' ! 0 = 8"
      then have "(of_nat (ap_above p 8) :: u16) = of_nat 8" using v by simp
      then have "ap_above p 8 = 8" using magic_values(2) [OF ok, of 0] by (simp add: word_unat_eq_iff unat_of_nat)
      then show False using ap_bounds(3) [OF ok] by (simp add: ap_above_def Let_def)
    qed
    have i: "akinfo_getu8 (ac_val ac' ! 0) (ac_val ac' ! 1) = of_nat (ap_len p)" "akinfo_getu8 (ac_val ac' ! 2) (ac_val ac' ! 3) = of_nat (ap_ssidcrc p)"
      using v(1) magic_values(3) [OF ok, of 0] magic_values(3) [OF ok, of 1] magic_values(3) [OF ok, of 2] magic_values(3) [OF ok, of 3] ok
      by (simp_all add: info_nibbles ap_ok_def)
    have len: "\<not> 65 < (of_nat (ap_len p) :: byte)" using ap_bounds(3,7) [OF ok] by (simp add: word_less_nat_alt)
    let ?a = "ac'\<lparr>ac_pos := 0, ac_rcnt := ac_rcnt ac + 1\<rparr>"
    let ?c = "(ap_locked p)\<lparr>ak_code2 := ?a, ak_prslen := of_nat (ap_len p), ak_ssidcrc := of_nat (ap_ssidcrc p), ak_state := AKSTATE_WFP\<rparr>"
    have "ak_waitfor_magicfield c (ap_length p (8 + k)) = Some (AIRKISS_STATUS_CONTINUE, ?c)"
      using True ac' rc u v0 i len by (simp add: ak_waitfor_magicfield_def ak_magicfield_input_def ak_get_magicfield_def ac(1) Let_def)
    moreover have "prefix_at p ?c 0" unfolding prefix_at_def using v(2) rc by (intro exI [of _ ?a]) (simp add: code_at_def)
    ultimately show ?thesis using True r by simp
  qed
qed

lemma prefix_step:
  assumes ok: "ap_ok p" and c: "prefix_at p c k" and k: "k < 4" and f: "ap_frame p (12 + k) f"
  shows "\<exists>s c'. airkiss_recv c (Some f) (ap_length p (12 + k)) = Some (s, c') \<and> (if k = 3 then data_start p c' else prefix_at p c' (k + 1))"
proof -
  let ?w = "(ap_locked p)\<lparr>ak_prslen := of_nat (ap_len p), ak_ssidcrc := of_nat (ap_ssidcrc p), ak_state := AKSTATE_WFP\<rparr>"
  obtain ac where ac: "c = ?w\<lparr>ak_code2 := ac\<rparr>" "code_at p 12 ac k" using c unfolding prefix_at_def by blast
  obtain ac' where ac': "ak_field_input 4 ac (of_nat (ap_above p (12 + k))) = Some (k = 3, ac')" "code_at p 12 ac' (k + 1)"
    using code_next [OF ac(2) k] prefix_values(1,2) [OF ok k] by auto
  have u: "aklen_udp c (ap_length p (12 + k)) = of_nat (ap_above p (12 + k))"
    using udp_len [OF ok, of c "12 + k"] by (simp add: ac(1) ap_locked_def)
  have r: "airkiss_recv c (Some f) (ap_length p (12 + k)) = ak_waitfor_prefixfield c (ap_length p (12 + k))"
    using recv_locked [OF f, of c] by (simp add: ac(1) ap_locked_def)
  show ?thesis
  proof (cases "k = 3")
    case False
    have "ak_waitfor_prefixfield c (ap_length p (12 + k)) = Some (AIRKISS_STATUS_CONTINUE, ?w\<lparr>ak_code2 := ac'\<rparr>)"
      using False ac' u by (simp add: ak_waitfor_prefixfield_def ak_prefixfield_input_def ac(1) Let_def)
    moreover have "prefix_at p (?w\<lparr>ak_code2 := ac'\<rparr>) (k + 1)"
      unfolding prefix_at_def using ac'(2) by (intro exI [of _ ac']) simp
    ultimately show ?thesis using False r by simp
  next
    case True
    let ?l = "length (ap_pwd p)"
    let ?crc = "airkiss_crc8 [of_nat ?l]"
    have v: "\<forall>j < 4. ac_val ac' ! j = of_nat (ap_above p (12 + j))" "length (ac_val ac') = 6" using ac'(2) True by (simp_all add: code_at_def)
    have i: "akinfo_getu8 (ac_val ac' ! 0) (ac_val ac' ! 1) = of_nat ?l" "akinfo_getu8 (ac_val ac' ! 2) (ac_val ac' ! 3) = ?crc"
      using v(1) prefix_values(3) [OF ok, of 0] prefix_values(3) [OF ok, of 1] prefix_values(3) [OF ok, of 2] prefix_values(3) [OF ok, of 3]
        ap_bounds(4) [OF ok] info_nibbles [of "ap_above p 14" "unat ?crc" "ap_above p 15"] unsigned_less [of ?crc]
      by (simp_all add: info_nibbles)
    let ?a = "ac'\<lparr>ac_pos := 0\<rparr>"
    let ?c = "?w\<lparr>ak_code2 := ?a, ak_pwdlen := of_nat ?l, ak_state := AKSTATE_WFD\<rparr>"
    have "ak_waitfor_prefixfield c (ap_length p (12 + k)) = Some (AIRKISS_STATUS_CONTINUE, ?c)"
      using True ac' u i by (simp add: ak_waitfor_prefixfield_def ak_prefixfield_input_def ak_get_prefixfield_def ac(1) Let_def)
    moreover have "data_start p ?c" unfolding data_start_def using v(2) by (intro exI [of _ ?a]) simp
    ultimately show ?thesis using True r by simp
  qed
qed

text \<open>Four frames that each take the receiver one step further.\<close>

lemma run_four:
  assumes "\<And>k c. k < 4 \<Longrightarrow> P c k \<Longrightarrow> \<exists>s c'. airkiss_recv c (Some (F (m + k))) (ap_length p (m + k)) = Some (s, c') \<and> (if k = 3 then Q c' else P c' (k + 1))"
    and "P c 0"
  shows "\<exists>c'. ak_run p F [m..<m + 4] c = Some c' \<and> Q c'"
proof -
  obtain s0 c1 where c1: "airkiss_recv c (Some (F m)) (ap_length p m) = Some (s0, c1)" "P c1 1" using assms(1) [of 0 c] assms(2) by auto
  obtain s1 c2 where c2: "airkiss_recv c1 (Some (F (m + 1))) (ap_length p (m + 1)) = Some (s1, c2)" "P c2 2"
    using assms(1) [of 1 c1] c1(2) by (auto simp: numeral_2_eq_2)
  obtain s2 c3 where c3: "airkiss_recv c2 (Some (F (m + 2))) (ap_length p (m + 2)) = Some (s2, c3)" "P c3 3"
    using assms(1) [of 2 c2] c2(2) by (auto simp: numeral_3_eq_3)
  obtain s3 c4 where c4: "airkiss_recv c3 (Some (F (m + 3))) (ap_length p (m + 3)) = Some (s3, c4)" "Q c4"
    using assms(1) [of 3 c3] c3(2) by auto
  have "[m..<m + 4] = [m, m + 1, m + 2, m + 3]" by (simp add: upt_rec)
  then show ?thesis using c1 c2 c3 c4 by (intro exI [of _ c4]) (simp del: upt_Suc)
qed

lemma codes_phase:
  assumes ok: "ap_ok p" and F: "\<And>k. k < 16 \<Longrightarrow> ap_frame p k (F k)"
  shows "\<exists>c. ak_run p F [0..<16] akloc_reset = Some c \<and> data_start p c"
proof -
  have magic: "\<exists>s c'. airkiss_recv c (Some (F (8 + k))) (ap_length p (8 + k)) = Some (s, c') \<and> (if k = 3 then prefix_at p c' 0 else magic_at p c' (k + 1))"
    if "k < 4" "magic_at p c k" for k c using magic_step [OF ok that(2,1) F] that(1) by simp
  have prefix: "\<exists>s c'. airkiss_recv c (Some (F (12 + k))) (ap_length p (12 + k)) = Some (s, c') \<and> (if k = 3 then data_start p c' else prefix_at p c' (k + 1))"
    if "k < 4" "prefix_at p c k" for k c using prefix_step [OF ok that(2,1) F] that(1) by simp
  have "magic_at p (ap_locked p) 0"
    unfolding magic_at_def by (intro exI [of _ zero_akcode]) (simp add: ap_locked_def akloc_reset_def code_at_def zero_akcode_def)
  then obtain c where c: "ak_run p F [8..<8 + 4] (ap_locked p) = Some c" "prefix_at p c 0"
    using run_four [of "magic_at p" F 8 p "\<lambda>c. prefix_at p c 0", OF magic] by blast
  then obtain d where d: "ak_run p F [12..<12 + 4] c = Some d" "data_start p d"
    using run_four [of "prefix_at p" F 12 p "data_start p", OF prefix] by blast
  have "[0..<16] = [0..<8] @ [8..<8 + 4] @ [12..<12 + 4 :: nat]" by (simp add: upt_rec)
  then have "ak_run p F [0..<16] akloc_reset = Some d" using guide_phase [OF ok, of F] F by (simp only: ak_run_append c(1) d(1) bind.bind_lunit)
  then show ?thesis using d(2) by blast
qed

end
