(* ===== verification/Airkiss_Run.thy ===== *)
theory Airkiss_Run
  imports Airkiss_Phone
begin

unbundle bit_operations_syntax

text \<open>
  The data of a configuration by frame lengths: the frames of the phone of \<^verbatim>\<open>Airkiss_Phone\<close>, block by block, end with the name, the password
  and the random byte of the phone.
\<close>

section \<open>Lengths of the data phase\<close>

lemma head_words:
  assumes "x < 128"
  shows "(of_nat (128 + x) :: u16) AND 0x100 = 0" "(of_nat (128 + x) :: u16) AND 0x7f = of_nat x"
    "(ucast (of_nat (128 + x) :: u16) :: byte) = of_nat (128 + x)" "\<not> (of_nat (128 + x) :: u16) < 0x80"
    "(of_nat (128 + x) :: byte) AND 0x7f = of_nat x" "(of_nat (128 + x) :: byte) \<noteq> 0" "(of_nat x OR 0x80 :: byte) = of_nat (128 + x)"
proof -
  have "\<forall>x \<in> set [0..<128]. (of_nat (128 + x) :: u16) AND 0x100 = 0 \<and> (of_nat (128 + x) :: u16) AND 0x7f = of_nat x
      \<and> \<not> (of_nat (128 + x) :: u16) < 0x80 \<and> (of_nat (128 + x) :: byte) AND 0x7f = of_nat x \<and> (of_nat (128 + x) :: byte) \<noteq> 0
      \<and> (of_nat x OR 0x80 :: byte) = of_nat (128 + x)" by code_simp
  moreover have "x \<in> set [0..<128]" using assms by simp
  ultimately show "(of_nat (128 + x) :: u16) AND 0x100 = 0" "(of_nat (128 + x) :: u16) AND 0x7f = of_nat x"
    "\<not> (of_nat (128 + x) :: u16) < 0x80" "(of_nat (128 + x) :: byte) AND 0x7f = of_nat x" "(of_nat (128 + x) :: byte) \<noteq> 0"
    "(of_nat x OR 0x80 :: byte) = of_nat (128 + x)" by blast+
  show "(ucast (of_nat (128 + x) :: u16) :: byte) = of_nat (128 + x)" by (rule byte_of_nat)
qed

lemma data_words:
  fixes b :: byte
  shows "(of_nat (256 + unat b) :: u16) AND 0x100 \<noteq> 0" "(ucast ((of_nat (256 + unat b) :: u16) AND 0xFF) :: byte) = b"
    "(ucast (of_nat (256 + unat b) :: u16) :: byte) = b" "\<not> (of_nat (256 + unat b) :: u16) < 0x80"
proof -
  have "\<forall>x \<in> set [0..<256]. (of_nat (256 + x) :: u16) AND 0x100 \<noteq> 0 \<and> (of_nat (256 + x) :: u16) AND 0xFF = of_nat x
      \<and> \<not> (of_nat (256 + x) :: u16) < 0x80" by code_simp
  moreover have "unat b \<in> set [0..<256]" using unsigned_less [of b] by simp
  ultimately have b: "(of_nat (256 + unat b) :: u16) AND 0x100 \<noteq> 0" "(of_nat (256 + unat b) :: u16) AND 0xFF = of_nat (unat b)"
    "\<not> (of_nat (256 + unat b) :: u16) < 0x80" by blast+
  then show "(of_nat (256 + unat b) :: u16) AND 0x100 \<noteq> 0" "\<not> (of_nat (256 + unat b) :: u16) < 0x80" by blast+
  show "(ucast ((of_nat (256 + unat b) :: u16) AND 0xFF) :: byte) = b" unfolding b(2) using byte_of_nat [of "unat b"] by simp
  show "(ucast (of_nat (256 + unat b) :: u16) :: byte) = b" using byte_of_nat [of "256 + unat b"] by simp
qed

lemma seqmax_word:
  assumes "n < 64"
  shows "(of_nat n :: byte) div 4 OR 0x80 = of_nat (128 + n div 4)"
proof -
  have "\<forall>n \<in> set [0..<64]. (of_nat n :: byte) div 4 OR 0x80 = of_nat (128 + n div 4)" by code_simp
  then show ?thesis using assms by simp
qed

text \<open>The number of bytes of a block, and where its frames stand.\<close>

definition ap_size :: "akphone \<Rightarrow> nat \<Rightarrow> nat" where
  "ap_size p i = min (ap_len p - 4 * i) 4"

definition ap_ws :: "akphone \<Rightarrow> nat \<Rightarrow> u16" where
  "ap_ws p k = of_nat (ap_first p + k * ap_step p)"

lemma block_bounds:
  assumes "ap_ok p" "i < ap_blocks p"
  shows "4 * i < ap_len p" "i < 16" "0 < ap_size p i" "ap_size p i \<le> 4" "4 * i + ap_size p i \<le> ap_len p"
    "6 * i + ap_size p i + 2 \<le> ap_len p + 2 * ap_blocks p" "Suc i < ap_blocks p \<Longrightarrow> ap_size p i = 4"
    "Suc i = ap_blocks p \<Longrightarrow> 4 * i + ap_size p i = ap_len p"
  using assms ap_bounds(3) [OF assms(1)] by (auto simp: ap_blocks_def ap_size_def min_def)

lemma above_values:
  assumes "ap_ok p" "i < ap_blocks p"
  shows "ap_above p (16 + 6 * i) = 128 + ap_crc p i" "ap_above p (16 + 6 * i + 1) = 128 + i" "ap_crc p i < 128" "i < 128"
    "2 \<le> j \<Longrightarrow> j < 6 \<Longrightarrow> ap_above p (16 + 6 * i + j) = 256 + unat (ap_payload p ! (4 * i + (j - 2)))"
proof -
  have m: "(6 * i + j) mod 6 = j" "(6 * i + j) div 6 = i" if "j < 6" for j using that by simp_all
  show "ap_above p (16 + 6 * i) = 128 + ap_crc p i" using m [of 0] by (simp add: ap_above_def Let_def)
  show "ap_above p (16 + 6 * i + 1) = 128 + i" using m [of 1] by (simp add: ap_above_def Let_def)
  show "ap_above p (16 + 6 * i + j) = 256 + unat (ap_payload p ! (4 * i + (j - 2)))" if "2 \<le> j" "j < 6"
    using m [OF that(2)] that by (simp add: ap_above_def Let_def)
  show "i < 128" using block_bounds(2) [OF assms] by simp
  have "airkiss_crc8 (of_nat i # ap_block p i) AND 0x7f \<le> 0x7f" by (rule word_and_le1)
  then show "ap_crc p i < 128" by (simp add: ap_crc_def word_le_nat_alt)
qed

lemma index_le:
  assumes "ap_ok p" "i < ap_blocks p"
  shows "(of_nat (128 + i) :: byte) \<le> of_nat (ap_len p) div 4 OR 0x80"
proof -
  have "i \<le> ap_len p div 4" "ap_len p div 4 < 128" "ap_len p < 64" using block_bounds(1) [OF assms] ap_bounds(3) [OF assms(1)] by simp_all
  then show ?thesis unfolding seqmax_word [OF \<open>ap_len p < 64\<close>] by (simp add: word_le_nat_alt unat_of_nat del: of_nat_add)
qed

lemma ws_next:
  assumes "ap_ok p" "k + m < ap_frames p"
  shows "ap_ws p k \<le> ap_ws p (k + m)" "unat (ap_ws p (k + m)) - unat (ap_ws p k) = m * ap_step p"
    "uint (ap_ws p (k + m)) - uint (ap_ws p k) = int (m * ap_step p)" "ap_ws p (Suc k) - of_nat (ap_step p) = ap_ws p k"
proof -
  have u: "unat (ap_ws p k) = ap_first p + k * ap_step p" "unat (ap_ws p (k + m)) = ap_first p + (k + m) * ap_step p"
    using assms(2) ws_unat [OF assms(1)] by (simp_all only: ap_ws_def)
  then show "ap_ws p k \<le> ap_ws p (k + m)" "unat (ap_ws p (k + m)) - unat (ap_ws p k) = m * ap_step p"
    by (simp_all add: word_le_nat_alt add_mult_distrib)
  show "uint (ap_ws p (k + m)) - uint (ap_ws p k) = int (m * ap_step p)" using u by (simp only: uint_nat) (simp add: add_mult_distrib)
  show "ap_ws p (Suc k) - of_nat (ap_step p) = ap_ws p k" by (simp add: ap_ws_def)
qed

section \<open>A block from lengths in a row\<close>

definition row_at :: "akphone \<Rightarrow> akcode \<Rightarrow> nat \<Rightarrow> nat \<Rightarrow> bool" where
  "row_at p ac i j \<longleftrightarrow> length (ac_val ac) = 6 \<and> ac_pos ac = of_nat j \<and> (\<forall>q < j. ac_val ac ! q = of_nat (ap_above p (16 + 6 * i + q)))"

lemma row_put:
  assumes "row_at p ac i j" "j < 6"
  shows "row_at p (ac\<lparr>ac_val := (ac_val ac)[j := of_nat (ap_above p (16 + 6 * i + j))], ac_pos := of_nat j + 1\<rparr>) i (j + 1)"
proof -
  have "length (ac_val ac) = 6" "\<forall>q < j. ac_val ac ! q = of_nat (ap_above p (16 + 6 * i + q))" using assms(1) by (simp_all add: row_at_def)
  then have "(ac_val ac)[j := of_nat (ap_above p (16 + 6 * i + j))] ! q = of_nat (ap_above p (16 + 6 * i + q))" if "q < j + 1" for q
    using that assms(2) by (cases "q = j") simp_all
  then show ?thesis using \<open>length (ac_val ac) = 6\<close> unfolding row_at_def by (intro conjI allI impI) simp_all
qed

lemma row_next:
  assumes ok: "ap_ok p" "i < ap_blocks p" and row: "row_at p ac i j" and j: "j < ap_size p i + 2" and c: "ak_prslen c = of_nat (ap_len p)"
  shows "\<exists>ac'. ak_datainput_onlylength c ac (of_nat (ap_above p (16 + 6 * i + j))) = Some (j + 1 = ap_size p i + 2, ac') \<and> row_at p ac' i (j + 1)"
proof -
  let ?v = "of_nat (ap_above p (16 + 6 * i + j)) :: u16"
  let ?ac = "ac\<lparr>ac_val := (ac_val ac)[j := ?v], ac_pos := of_nat j + 1\<rparr>"
  have sz: "0 < ap_size p i" "ap_size p i \<le> 4" using block_bounds [OF ok] by simp_all
  have j6: "j < 6" using j sz by simp
  have ac: "length (ac_val ac) = 6" "ac_pos ac = of_nat j" "unat (of_nat j :: byte) = j" "unat (of_nat j + 1 :: byte) = j + 1"
    using row j6 by (simp_all add: row_at_def unat_of_nat unat_word_ariths)
  have "ak_datainput_onlylength c ac ?v = Some (j + 1 = ap_size p i + 2, ?ac)"
  proof (cases "j < 2")
    case True
    then have "?v AND 0x100 = 0" using above_values [OF ok] head_words(1) by (cases "j = 0") (simp_all add: less_2_cases_iff del: of_nat_add)
    moreover have "(of_nat j :: byte) < 2" "of_nat j + 1 \<noteq> (6 :: byte)" using True by (auto simp: less_2_cases_iff)
    ultimately show ?thesis using ac True sz by (simp add: ak_datainput_onlylength_def array_simps)
  next
    case False
    then have "?v AND 0x100 \<noteq> 0" using above_values(5) [OF ok, of j] j6 data_words(1) by simp
    moreover have "(1 :: byte) < of_nat j" using False ac(3) by (simp add: word_less_nat_alt)
    moreover have "unat ((ac_val ac)[j := ?v] ! 1 AND 0x7f) = i"
    proof -
      have "(ac_val ac)[j := ?v] ! 1 = of_nat (128 + i)" using False row above_values(2) [OF ok] by (simp add: row_at_def)
      then show ?thesis using head_words(2) [OF above_values(4) [OF ok]] block_bounds(2) [OF ok] by (simp add: unat_of_nat)
    qed
    moreover have "(if i * 4 < ap_len p \<and> ap_len p - i * 4 < 4 then ap_len p - i * 4 + 2 else 6) = ap_size p i + 2"
      using block_bounds(1) [OF ok] by (auto simp: ap_size_def min_def)
    ultimately show ?thesis using ac j6 by (auto simp: ak_datainput_onlylength_def array_simps c ap_bounds(7) [OF ok(1)] Let_def split: if_splits)
  qed
  then show ?thesis using row_put [OF row j6] by blast
qed

lemma length_block: "ap_ok p \<Longrightarrow> i < ap_blocks p \<Longrightarrow> length (ap_block p i) = ap_size p i"
  by (simp add: ap_block_def ap_size_def ap_len_def)

lemma row_bytes:
  assumes ok: "ap_ok p" "i < ap_blocks p" and row: "row_at p ac i (ap_size p i + 2)"
  shows "take (ap_size p i) (map (\<lambda>v. ucast (v AND 0xFF)) (take 4 (drop 2 (ac_val ac)))) = ap_block p i"
proof (rule nth_equalityI)
  have sz: "ap_size p i \<le> 4" "4 * i + ap_size p i \<le> length (ap_payload p)" using block_bounds [OF ok] by (simp_all add: ap_len_def)
  have l: "length (ac_val ac) = 6" using row by (simp add: row_at_def)
  then show "length (take (ap_size p i) (map (\<lambda>v. ucast (v AND 0xFF)) (take 4 (drop 2 (ac_val ac))))) = length (ap_block p i)"
    using sz(1) length_block [OF ok] by simp
  fix q
  assume "q < length (take (ap_size p i) (map (\<lambda>v. ucast (v AND 0xFF)) (take 4 (drop 2 (ac_val ac)))))"
  then have q: "q < ap_size p i" using l sz(1) by simp
  then have "ac_val ac ! (q + 2) = of_nat (256 + unat (ap_payload p ! (4 * i + q)))"
    using row above_values(5) [OF ok, of "q + 2"] sz(1) by (simp add: row_at_def)
  then show "take (ap_size p i) (map (\<lambda>v. ucast (v AND 0xFF)) (take 4 (drop 2 (ac_val ac)))) ! q = ap_block p i ! q"
    using q l sz data_words(2) [of "ap_payload p ! (4 * i + q)"] by (simp add: ap_block_def add.commute)
qed

lemma row_block:
  assumes ok: "ap_ok p" "i < ap_blocks p" and row: "row_at p ac i (ap_size p i + 2)"
    and c: "ak_prslen c = of_nat (ap_len p)" "length (ak_seq c) = 16" "ak_seq c ! i = 0" "length (ak_data c) = 66" "ac_val (ak_code2 c) = ac_val ac"
  shows "ak_get_datafield c = Some (True, c\<lparr>ak_data := take (4 * i) (ak_data c) @ ap_block p i @ drop (4 * i + ap_size p i) (ak_data c),
    ak_reclen := ak_reclen c + of_nat (ap_size p i), ak_seq := (ak_seq c)[i := 1]\<rparr>)"
proof -
  let ?val = "ac_val ac" and ?bs = "map (\<lambda>v. ucast (v AND 0xFF)) (take 4 (drop 2 (ac_val ac))) :: byte list"
  have b: "4 * i < ap_len p" "i < 16" "0 < ap_size p i" "ap_size p i \<le> 4" "4 * i + ap_size p i \<le> ap_len p" using block_bounds [OF ok] by simp_all
  have "?val ! 0 = of_nat (ap_above p (16 + 6 * i + 0))" "?val ! 1 = of_nat (ap_above p (16 + 6 * i + 1))"
    using row b(3) unfolding row_at_def by auto
  then have v: "?val ! 0 AND 0x7F = of_nat (ap_crc p i)" "?val ! 1 AND 0x7F = of_nat i"
    using above_values(1-4) [OF ok] head_words(2) by (simp_all del: of_nat_add)
  have i: "unat (of_nat i :: u16) = i" "(ucast (of_nat i :: u16) :: byte) = of_nat i" using b(2) byte_of_nat by (simp_all add: unat_of_nat)
  have n: "min (ap_len p - i * 4) 4 = ap_size p i" "\<not> ap_len p div 4 < i" using b(1) by (auto simp: ap_size_def mult.commute)
  have crc: "airkiss_crc8 (of_nat i # ap_block p i) AND 0x7F = ucast (of_nat (ap_crc p i) :: u16)"
    using byte_of_nat [of "ap_crc p i"] by (simp add: ap_crc_def)
  have l: "length (ap_block p i) = ap_size p i" "ap_len p \<le> 63" using length_block [OF ok] ap_bounds(3) [OF ok(1)] by simp_all
  have "put_run (4 * i) (ap_block p i) (ak_data c) = Some (take (4 * i) (ak_data c) @ ap_block p i @ drop (4 * i + ap_size p i) (ak_data c))"
    using put_run_in [of "4 * i" "ap_block p i" "ak_data c"] l b(5) c(3,4) by simp
  then show ?thesis using v i n crc b(2) c row_bytes [OF ok row]
    by (simp add: ak_get_datafield_def ap_bounds(7) [OF ok(1)] Let_def array_simps mult.commute)
qed

section \<open>The same frames by their sequence numbers\<close>

text \<open>Blocks before \<open>i\<close> are there; of block \<open>i\<close> at most the first \<open>q\<close> bytes have been stored, and behind them there are zeros.\<close>

definition data_at :: "akphone \<Rightarrow> akloc \<Rightarrow> nat \<Rightarrow> nat \<Rightarrow> bool" where
  "data_at p c i q \<longleftrightarrow> ak_state c = AKSTATE_WFD \<and> ak_locked c = ap_sa p \<and> ak_baselen c = of_nat (ap_base p) \<and> ak_seqstep c = of_nat (ap_step p)
     \<and> ak_prslen c = of_nat (ap_len p) \<and> ak_pwdlen c = of_nat (length (ap_pwd p)) \<and> ak_random c = 0 \<and> ak_reclen c = of_nat (4 * i)
     \<and> ak_seq c = replicate i 1 @ replicate (16 - i) 0 \<and> length (ak_data c) = 66 \<and> take (4 * i) (ak_data c) = take (4 * i) (ap_payload p)
     \<and> (\<forall>x. 4 * i + q \<le> x \<and> x < 66 \<longrightarrow> ak_data c ! x = 0)"

lemma data_at_other [simp]:
  "data_at p (c\<lparr>ak_curseq := cur\<rparr>) i q = data_at p c i q" "data_at p (c\<lparr>ak_preseq := pre\<rparr>) i q = data_at p c i q"
  "data_at p (c\<lparr>ak_prews := w\<rparr>) i q = data_at p c i q" "data_at p (c\<lparr>ak_pendseq := hs\<rparr>) i q = data_at p c i q"
  "data_at p (c\<lparr>ak_code2 := ac\<rparr>) i q = data_at p c i q"
  by (simp_all add: data_at_def)

definition wire_at :: "akphone \<Rightarrow> akloc \<Rightarrow> nat \<Rightarrow> nat \<Rightarrow> bool" where
  "wire_at p c i j \<longleftrightarrow>
     (if j = 0 then ak_curseq c = zero_seq
      else if j = 1 then ak_curseq c = zero_seq \<or> ak_curseq c = \<lparr>sq_ws = ap_ws p (16 + 6 * i), sq_crc = of_nat (128 + ap_crc p i), sq_ind = 0\<rparr>
      else ak_prews c = ap_ws p (15 + 6 * i + j)
        \<and> (ak_curseq c = zero_seq \<or> sq_ws (ak_curseq c) = ap_ws p (16 + 6 * i) \<and> sq_ind (ak_curseq c) = of_nat (128 + i)))"

lemma frame_ws: "ap_frame p k f \<Longrightarrow> akwseq_fromframe f = Some (ap_ws p k)"
  by (simp add: ap_frame_def ap_ws_def)

lemma data_step:
  assumes "ap_ok p" "data_at p c i q"
  shows "ak_seqstep c \<noteq> 0" "unat (ak_seqstep c) = ap_step p" "uint (ak_seqstep c) = int (ap_step p)" "ak_maxoffs c = ap_len p + 2 * ap_blocks p"
    "(ucast (ak_seqstep c) :: u16) = of_nat (ap_step p)"
proof -
  show u: "unat (ak_seqstep c) = ap_step p" using assms ap_bounds(8) by (simp add: data_at_def)
  then show "uint (ak_seqstep c) = int (ap_step p)" by (simp only: uint_nat)
  show "ak_seqstep c \<noteq> 0" using u ap_bounds(6) [OF assms(1)] by auto
  show "ak_maxoffs c = ap_len p + 2 * ap_blocks p" using assms ap_bounds(7) by (simp add: data_at_def ak_maxoffs_def ap_blocks_def)
  show "(ucast (ak_seqstep c) :: u16) = of_nat (ap_step p)" using u by (simp add: word_unat_eq_iff unsigned_ucast_eq unat_of_nat take_bit_eq_mod)
qed

text \<open>Before the first checksum was taken, the sequence numbers seem too far away.\<close>

lemma far_away:
  assumes "ap_ok p" "data_at p c i q" "16 \<le> k" "k < ap_frames p"
  shows "ak_pendcrc_getpos c zero_seq (ap_ws p k) = Some (- 1)"
proof -
  have u: "unat (ap_ws p k) = ap_first p + k * ap_step p" using ws_unat [OF assms(1), of k] assms(4) by (simp only: ap_ws_def)
  have "(ap_first p + k * ap_step p) div ap_step p = ap_first p div ap_step p + k" using ap_bounds(6) [OF assms(1)] by simp
  then have "ap_len p + 2 * ap_blocks p < unat (ap_ws p k) div ap_step p" using assms(1,3) u by (simp add: ap_ok_def)
  then show ?thesis using data_step [OF assms(1,2)] by (simp add: ak_pendcrc_getpos_def zero_seq_def Let_def)
qed

lemma frame_bounds:
  assumes "ap_ok p" "i < ap_blocks p" "j < ap_size p i + 2"
  shows "16 + 6 * i + j < ap_frames p"
  using block_bounds(6) [OF assms(1,2)] assms(3) by (simp add: ap_frames_def)

lemma wire_crc:
  assumes ok: "ap_ok p" "i < ap_blocks p" and c: "data_at p c i q" "ak_curseq c = zero_seq" and f: "ap_frame p (16 + 6 * i) f"
  shows "\<exists>c'. ak_datainput_withwireseq c f (of_nat (ap_above p (16 + 6 * i))) = Some c' \<and> data_at p c' i q \<and> ak_code2 c' = ak_code2 c \<and> wire_at p c' i 1"
proof -
  let ?h = "of_nat (128 + ap_crc p i) :: byte" and ?ws = "ap_ws p (16 + 6 * i)"
  have len: "of_nat (ap_above p (16 + 6 * i)) AND 0x100 = (0 :: u16)" "ucast (of_nat (ap_above p (16 + 6 * i)) :: u16) = ?h"
    using above_values(1,3) [OF ok] head_words(1,3) [of "ap_crc p i"] by (simp_all del: of_nat_add)
  have "16 + 6 * i + 0 < ap_frames p" by (rule frame_bounds [OF ok]) simp
  then have far: "ak_pendcrc_getpos c zero_seq ?ws = Some (- 1)" using far_away [OF ok(1) c(1), of "16 + 6 * i"] by simp
  have "\<exists>cur. ak_datahead_input c ?ws ?h = Some (c\<lparr>ak_curseq := cur\<rparr>)
      \<and> (cur = zero_seq \<or> cur = \<lparr>sq_ws = ?ws, sq_crc = ?h, sq_ind = 0\<rparr>)"
  proof (cases "ak_prslen c div 4 OR 0x80 < ?h")
    case True
    then have "ak_datahead_input c ?ws ?h = Some (c\<lparr>ak_curseq := \<lparr>sq_ws = ?ws, sq_crc = ?h, sq_ind = 0\<rparr>\<rparr>)"
      using c(2) by (simp add: ak_datahead_input_def zero_seq_def Let_def del: of_nat_add)
    then show ?thesis by blast
  next
    case False
    moreover have "- 1 \<noteq> uint ?h" using uint_ge_0 [of ?h] by linarith
    ultimately have "ak_datahead_input c ?ws ?h = Some (c\<lparr>ak_curseq := zero_seq\<rparr>)" using c(2) far by (simp add: ak_datahead_input_def Let_def zero_seq_def del: of_nat_add)
    then show ?thesis by blast
  qed
  then obtain cur where "ak_datahead_input c ?ws ?h = Some (c\<lparr>ak_curseq := cur\<rparr>)" "cur = zero_seq \<or> cur = \<lparr>sq_ws = ?ws, sq_crc = ?h, sq_ind = 0\<rparr>" by blast
  then show ?thesis using len c(1) frame_ws [OF f] by (simp add: ak_datainput_withwireseq_def wire_at_def del: of_nat_add)
qed

lemma wire_index:
  assumes ok: "ap_ok p" "i < ap_blocks p" and c: "data_at p c i q" "wire_at p c i 1" and f: "ap_frame p (16 + 6 * i + 1) f"
  shows "\<exists>c'. ak_datainput_withwireseq c f (of_nat (ap_above p (16 + 6 * i + 1))) = Some c' \<and> data_at p c' i q \<and> ak_code2 c' = ak_code2 c
    \<and> wire_at p c' i 2"
proof -
  let ?h = "of_nat (128 + i) :: byte" and ?ws = "ap_ws p (16 + 6 * i + 1)"
  have i: "i < 128" "i < 16" "0 < ap_size p i" using above_values(4) [OF ok] block_bounds [OF ok] by simp_all
  have len: "of_nat (ap_above p (16 + 6 * i + 1)) AND 0x100 = (0 :: u16)" "ucast (of_nat (ap_above p (16 + 6 * i + 1)) :: u16) = ?h"
    unfolding above_values(2) [OF ok] using head_words(1,3) [OF i(1)] by blast+
  have fr: "16 + 6 * i + 1 < ap_frames p" by (rule frame_bounds [OF ok]) simp
  then have far: "ak_pendcrc_getpos c zero_seq ?ws = Some (- 1)" using far_away [OF ok(1) c(1), of "16 + 6 * i + 1"] by simp
  have "\<exists>cur pre hs. ak_datahead_input c ?ws ?h = Some (c\<lparr>ak_curseq := cur, ak_preseq := pre, ak_pendseq := hs\<rparr>)
      \<and> (cur = zero_seq \<or> sq_ws cur = ap_ws p (16 + 6 * i) \<and> sq_ind cur = ?h)"
  proof (cases "ak_curseq c = zero_seq")
    case True
    have "- 1 \<noteq> uint ?h" using uint_ge_0 [of ?h] by linarith
    moreover have "\<not> ak_prslen c div 4 OR 0x80 < ?h"
      using index_le [OF ok] c(1) by (simp add: data_at_def del: of_nat_add)
    ultimately have "ak_datahead_input c ?ws ?h = Some c"
      using True far by (simp add: ak_datahead_input_def Let_def zero_seq_def del: of_nat_add)
    then show ?thesis using True by (intro exI [of _ zero_seq] exI [of _ "ak_preseq c"] exI [of _ "ak_pendseq c"]) simp
  next
    case False
    then have cur: "ak_curseq c = \<lparr>sq_ws = ap_ws p (16 + 6 * i), sq_crc = of_nat (128 + ap_crc p i), sq_ind = 0\<rparr>"
      using c(2) by (simp add: wire_at_def)
    have "uint ?ws - uint (ap_ws p (16 + 6 * i)) = int (ap_step p)" using ws_next(3) [OF ok(1) fr] by simp
    then have dif: "(word_of_int ((uint ?ws - uint (ap_ws p (16 + 6 * i))) sdiv uint (ak_seqstep c)) :: byte) < 3"
      using data_step(3) [OF ok(1) c(1)] ap_bounds(6) [OF ok(1)] by (simp add: signed_divide_int_def sgn_if)
    have m: "at_pos (ak_seq c) (unat (?h AND 0x7f)) = Some 0"
      using head_words(5) [OF i(1)] i(2) c(1) by (simp add: data_at_def array_simps unat_of_nat nth_append del: of_nat_add)
    have le: "?h \<le> ak_prslen c div 4 OR 0x80" using index_le [OF ok] c(1) by (simp add: data_at_def del: of_nat_add)
    have crc: "(of_nat (128 + ap_crc p i) :: byte) \<noteq> 0" by (rule head_words(6) [OF above_values(3) [OF ok]])
    have ws: "?ws - ucast (ak_seqstep c) = ap_ws p (16 + 6 * i)"
      using ws_next(4) [OF ok(1), of "16 + 6 * i" 0] fr data_step(5) [OF ok(1) c(1)] by simp
    let ?cur = "\<lparr>sq_ws = ap_ws p (16 + 6 * i), sq_crc = of_nat (128 + ap_crc p i), sq_ind = ?h\<rparr>"
    have "ak_datahead_input c ?ws ?h = Some (c\<lparr>ak_curseq := ?cur, ak_preseq := ?cur,
        ak_pendseq := (ak_pendseq c)[alloc_scan ?h (ak_pendseq c) 0 0 := \<lparr>hd_crc = of_nat (128 + ap_crc p i), hd_ind = ?h\<rparr>]\<rparr>)"
      using cur dif m le crc ws data_step(1) [OF ok(1) c(1)] by (simp add: ak_datahead_input_def akseq_allocpend_def Let_def del: of_nat_add)
    then show ?thesis by (intro exI conjI, assumption) simp
  qed
  then obtain cur pre hs where "ak_datahead_input c ?ws ?h = Some (c\<lparr>ak_curseq := cur, ak_preseq := pre, ak_pendseq := hs\<rparr>)"
    "cur = zero_seq \<or> sq_ws cur = ap_ws p (16 + 6 * i) \<and> sq_ind cur = ?h" by blast
  then show ?thesis using len c(1) frame_ws [OF f] by (simp add: ak_datainput_withwireseq_def wire_at_def del: of_nat_add)
qed

lemma block_zero:
  assumes ok: "ap_ok p" "i < ap_blocks p" and c: "data_at p c i q" and q: "q < ap_size p i"
  shows "ak_pendinput_mark c (of_nat i OR 0x80) = Some c"
proof -
  have b: "i < 128" "i < 16" "ap_size p i \<le> 4" "4 * i + ap_size p i \<le> 63" "4 * i < ap_len p"
    using above_values(4) [OF ok] block_bounds [OF ok] ap_bounds(3) [OF ok(1)] by simp_all
  have z: "\<forall>x. 4 * i + q \<le> x \<and> x < 66 \<longrightarrow> ak_data c ! x = 0" "length (ak_data c) = 66" using c by (simp_all add: data_at_def)
  have d: "length (ak_data c) = 66" "ak_data c ! (4 * i + (ap_size p i - 1)) = 0"
    using z(2) z(1) [rule_format, of "4 * i + (ap_size p i - 1)"] q b(4) by linarith+
  have "(of_nat i OR 0x80 :: byte) AND 0x7f = of_nat i" "unat (of_nat i :: byte) = i" using index_byte [OF b(2)] by simp_all
  moreover have "ak_block_size c i = int (ap_size p i)"
    using c b(5) ap_bounds(7) [OF ok(1)] by (simp add: ak_block_size_def data_at_def uint_nat ap_size_def of_nat_diff of_nat_min)
  moreover have "0 \<in> set (take (ap_size p i) (drop (4 * i) (ak_data c)))"
  proof -
    have "take (ap_size p i) (drop (4 * i) (ak_data c)) ! (ap_size p i - 1) = 0" "ap_size p i - 1 < length (take (ap_size p i) (drop (4 * i) (ak_data c)))"
      using d q b(4) by simp_all
    then show ?thesis by (metis nth_mem)
  qed
  ultimately show ?thesis using d(1) b(4)
    by (auto simp: ak_pendinput_mark_def Let_def array_simps mult.commute split: option.split)
qed

lemma body_pos:
  assumes ok: "ap_ok p" "i < ap_blocks p" and c: "data_at p c k q" and j: "2 \<le> j" "j < ap_size p i + 2"
    and cur: "sq_ws cur = ap_ws p (16 + 6 * i)" "sq_ind cur = of_nat (128 + i)"
  shows "ak_penddata_getpos c cur (ap_ws p (16 + 6 * i + j)) = Some (int (4 * i + (j - 2)))"
proof -
  have fr: "16 + 6 * i + j < ap_frames p" by (rule frame_bounds [OF ok j(2)])
  have b: "6 * i + ap_size p i + 2 \<le> ap_len p + 2 * ap_blocks p" "ap_size p i \<le> 4" "i < 128" using block_bounds [OF ok] above_values(4) [OF ok] by simp_all
  have st: "ak_seqstep c \<noteq> 0" "unat (ak_seqstep c) = ap_step p" "ak_maxoffs c = ap_len p + 2 * ap_blocks p" by (rule data_step [OF ok(1) c])+
  have "\<not> ap_ws p (16 + 6 * i + j) < sq_ws cur" using ws_next(1) [OF ok(1) fr] cur(1) by simp
  moreover have "(unat (ap_ws p (16 + 6 * i + j)) - unat (sq_ws cur)) div unat (ak_seqstep c) = j"
    using ws_next(2) [OF ok(1) fr] cur(1) st(2) ap_bounds(6) [OF ok(1)] by simp
  moreover have "unat (sq_ind cur AND 0x7f) = i" using cur(2) head_words(5) [OF b(3)] b(3) by (simp add: unat_of_nat del: of_nat_add)
  moreover have "(i * 6 + j) mod (ap_len p + 2 * ap_blocks p) = 6 * i + j" "j mod 6 = j" "(6 * i + j) div 6 = i" "(6 * i + j) mod 6 = j"
    using b j by simp_all
  ultimately show ?thesis using st b j ap_bounds(2) [OF ok(1)] by (simp add: ak_penddata_getpos_def Let_def of_nat_diff)
qed

lemma body_near:
  assumes "ap_ok p" "data_at p c k q" "ak_prews c = ap_ws p m" "Suc m < ap_frames p"
  shows "\<not> (5 :: byte) < word_of_int ((uint (ap_ws p (Suc m)) - uint (ak_prews c)) sdiv uint (ak_seqstep c))"
  using ws_next(3) [OF assms(1), of m 1] assms(3,4) data_step(3) [OF assms(1,2)] ap_bounds(6) [OF assms(1)]
  by (simp add: signed_divide_int_def sgn_if)

lemma not_all:
  assumes "ap_ok p" "i < ap_blocks p" "data_at p c i q"
  shows "ak_reclen c \<noteq> ak_prslen c"
proof -
  have "unat (of_nat (4 * i) :: byte) = 4 * i" using block_bounds(2) [OF assms(1,2)] by (simp only: unat_of_nat) simp
  then show ?thesis using assms(3) ap_bounds(7) [OF assms(1)] block_bounds(1) [OF assms(1,2)] unfolding data_at_def by (metis nat_less_le)
qed

lemma data_mono: "data_at p c i q \<Longrightarrow> q \<le> q' \<Longrightarrow> data_at p c i q'"
  by (auto simp: data_at_def)

lemma data_store:
  assumes "data_at p c i q" "4 * i + q < 66"
  shows "data_at p (c\<lparr>ak_data := (ak_data c)[4 * i + q := b]\<rparr>) i (Suc q)"
proof -
  have "(ak_data c)[4 * i + q := b] ! x = 0" if "4 * i + Suc q \<le> x" "x < 66" for x using that assms(1) by (simp add: data_at_def)
  then show ?thesis using assms(1) by (simp add: data_at_def)
qed

lemma wire_unknown:
  assumes "ak_curseq c = zero_seq" "len AND 0x100 \<noteq> 0" "akwseq_fromframe f = Some ws"
  shows "ak_datainput_withwireseq c f len = Some (c\<lparr>ak_prews := ws\<rparr>)"
  using assms by (cases c) (simp add: ak_datainput_withwireseq_def zero_seq_def)

lemma wire_body:
  assumes "sq_ind (ak_curseq c) \<noteq> 0" "len AND 0x100 \<noteq> 0" "akwseq_fromframe f = Some ws"
    and "ak_databody_input c (ak_curseq c) ws (ucast len) = Some (ok, c')" "ak_reclen c' \<noteq> ak_prslen c'"
  shows "ak_datainput_withwireseq c f len =
    Some (c'\<lparr>ak_curseq := (if ok then ak_curseq c' else zero_seq)\<lparr>sq_crc := 0\<rparr>, ak_prews := ws\<rparr>)"
  using assms by (simp add: ak_datainput_withwireseq_def ak_body_done_def)

lemma body_new:
  assumes "ak_seqstep c \<noteq> 0" "\<not> (5 :: byte) < word_of_int ((uint ws - uint (ak_prews c)) sdiv uint (ak_seqstep c))"
    and "ak_penddata_getpos c cur ws = Some (int pos)" "at_pos (ak_seq c) i = Some 0" "pos div 4 = i" "pos < length (ak_data c)" "ak_data c ! pos = 0"
    and "ak_pendinput_mark (c\<lparr>ak_data := (ak_data c)[pos := b]\<rparr>) (of_nat i OR 0x80) = Some c'"
  shows "ak_databody_input c cur ws b = Some (True, c')"
  using assms by (simp add: ak_databody_input_def Let_def array_simps)

lemma wire_byte:
  assumes ok: "ap_ok p" "i < ap_blocks p" and c: "data_at p c i (j - 2)" "wire_at p c i j" and j: "2 \<le> j" "j < ap_size p i + 1"
    and f: "ap_frame p (16 + 6 * i + j) f"
  shows "\<exists>c'. ak_datainput_withwireseq c f (of_nat (ap_above p (16 + 6 * i + j))) = Some c' \<and> data_at p c' i (j - 1) \<and> ak_code2 c' = ak_code2 c
    \<and> wire_at p c' i (j + 1)"
proof -
  let ?b = "ap_payload p ! (4 * i + (j - 2))" and ?ws = "ap_ws p (16 + 6 * i + j)" and ?pos = "4 * i + (j - 2)"
  let ?len = "of_nat (ap_above p (16 + 6 * i + j)) :: u16" and ?cur = "ak_curseq c"
  have b: "i < 128" "i < 16" "ap_size p i \<le> 4" "4 * i + ap_size p i \<le> 63" using above_values(4) [OF ok] block_bounds [OF ok] ap_bounds(3) [OF ok(1)] by simp_all
  have fr: "16 + 6 * i + j < ap_frames p" using frame_bounds [OF ok, of j] j by simp
  have len: "?len AND 0x100 \<noteq> 0" "ucast ?len = ?b" using above_values(5) [OF ok j(1)] j b(3) data_words(1,3) [of ?b] by simp_all
  have ws: "akwseq_fromframe f = Some ?ws" by (rule frame_ws [OF f])
  show ?thesis
  proof (cases "?cur = zero_seq")
    case True
    then show ?thesis using wire_unknown [OF True len(1) ws] j data_mono [OF c(1), of "j - 1"] by (simp add: wire_at_def add.assoc)
  next
    case False
    then have cur: "sq_ws ?cur = ap_ws p (16 + 6 * i)" "sq_ind ?cur = of_nat (128 + i)" "ak_prews c = ap_ws p (15 + 6 * i + j)"
      using c(2) j(1) by (simp_all add: wire_at_def)
    let ?c = "c\<lparr>ak_data := (ak_data c)[?pos := ?b]\<rparr>"
    have pos: "ak_penddata_getpos c ?cur ?ws = Some (int ?pos)" using body_pos [OF ok c(1) j(1) _ cur(1,2)] j(2) by simp
    have near: "\<not> (5 :: byte) < word_of_int ((uint ?ws - uint (ak_prews c)) sdiv uint (ak_seqstep c))"
      using body_near [OF ok(1) c(1) cur(3)] fr by (simp add: add.assoc)
    have j': "Suc (j - 2) = j - 1" using j(1) by linarith
    have st: "data_at p ?c i (j - 1)" using data_store [OF c(1), of ?b] j b(4) unfolding j' by linarith
    have "length (ak_data c) = 66" "ak_data c ! ?pos = 0" "at_pos (ak_seq c) i = Some 0"
      using c(1) b j by (simp_all add: data_at_def array_simps nth_append)
    moreover have "?pos div 4 = i" "?pos < 66" using j b(3,4) by simp_all
    moreover have "ak_pendinput_mark ?c (of_nat i OR 0x80) = Some ?c" using block_zero [OF ok st] j by simp
    ultimately have "ak_databody_input c ?cur ?ws ?b = Some (True, ?c)"
      using body_new [OF data_step(1) [OF ok(1) c(1)] near pos] b(4) j by simp
    then have "ak_databody_input c ?cur ?ws (ucast ?len) = Some (True, ?c)" by (simp only: len(2))
    from wire_body [OF _ len(1) ws this not_all [OF ok st]] head_words(6) [OF b(1)] cur(2)
    have "ak_datainput_withwireseq c f ?len = Some (?c\<lparr>ak_curseq := ?cur\<lparr>sq_crc := 0\<rparr>, ak_prews := ?ws\<rparr>)" by (simp del: of_nat_add)
    then show ?thesis using st cur j by (simp add: wire_at_def add.assoc)
  qed
qed

lemma wire_done:
  assumes ok: "ap_ok p" "Suc i < ap_blocks p" and c: "data_at p c (Suc i) 0" "wire_at p c i 5" and f: "ap_frame p (16 + 6 * i + 5) f"
  shows "\<exists>c'. ak_datainput_withwireseq c f (of_nat (ap_above p (16 + 6 * i + 5))) = Some c' \<and> data_at p c' (Suc i) 0 \<and> ak_code2 c' = ak_code2 c
    \<and> wire_at p c' (Suc i) 0"
proof -
  let ?b = "ap_payload p ! (4 * i + 3)" and ?ws = "ap_ws p (16 + 6 * i + 5)" and ?len = "of_nat (ap_above p (16 + 6 * i + 5)) :: u16"
  let ?cur = "ak_curseq c"
  have ok': "i < ap_blocks p" using ok(2) by simp
  have b: "i < 128" "i < 16" "ap_size p i = 4" using above_values(4) [OF ok(1) ok'] block_bounds [OF ok(1) ok'] ok(2) by simp_all
  have fr: "16 + 6 * i + 5 < ap_frames p" using frame_bounds [OF ok(1) ok', of 5] b(3) by simp
  have len: "?len AND 0x100 \<noteq> 0" using above_values(5) [OF ok(1) ok', of 5] data_words(1) [of ?b] by simp
  have ws: "akwseq_fromframe f = Some ?ws" by (rule frame_ws [OF f])
  show ?thesis
  proof (cases "?cur = zero_seq")
    case True
    then show ?thesis using wire_unknown [OF True len ws] c(1) by (simp add: wire_at_def)
  next
    case False
    then have cur: "sq_ws ?cur = ap_ws p (16 + 6 * i)" "sq_ind ?cur = of_nat (128 + i)" "ak_prews c = ap_ws p (15 + 6 * i + 5)"
      using c(2) by (simp_all add: wire_at_def)
    have pos: "ak_penddata_getpos c ?cur ?ws = Some (int (4 * i + 3))" using body_pos [OF ok(1) ok' c(1) _ _ cur(1,2), of 5] b(3) by simp
    have near: "\<not> (5 :: byte) < word_of_int ((uint ?ws - uint (ak_prews c)) sdiv uint (ak_seqstep c))"
      using body_near [OF ok(1) c(1) cur(3)] fr by simp
    have "at_pos (ak_seq c) i = Some 1" using c(1) b(2) by (simp add: data_at_def array_simps nth_append del: replicate_Suc)
    moreover have "nat (int (4 * i + 3)) div 4 = i" by simp
    ultimately have "ak_databody_input c ?cur ?ws (ucast ?len) = Some (False, c)"
      using near pos data_step(1) [OF ok(1) c(1)] by (simp add: ak_databody_input_def Let_def)
    from wire_body [OF _ len ws this not_all [OF ok c(1)]] head_words(6) [OF b(1)] cur(2)
    have "ak_datainput_withwireseq c f ?len = Some (c\<lparr>ak_curseq := zero_seq\<lparr>sq_crc := 0\<rparr>, ak_prews := ?ws\<rparr>)" by (simp del: of_nat_add)
    then show ?thesis using c(1) by (simp add: wire_at_def zero_seq_def)
  qed
qed

section \<open>Frame by frame\<close>

definition mid :: "akphone \<Rightarrow> akloc \<Rightarrow> nat \<Rightarrow> nat \<Rightarrow> bool" where
  "mid p c i j \<longleftrightarrow> data_at p c i (j - 2) \<and> wire_at p c i j \<and> row_at p (ak_code2 c) i j"

definition provisioned :: "akphone \<Rightarrow> akloc \<Rightarrow> bool" where
  "provisioned p c \<longleftrightarrow> ak_state c = AKSTATE_CMP \<and> ak_prslen c = of_nat (ap_len p) \<and> ak_pwdlen c = of_nat (length (ap_pwd p)) \<and> ak_random c = 0
     \<and> length (ak_data c) = 66 \<and> take (ap_len p) (ak_data c) = ap_payload p"

lemma wire_at_code [simp]: "wire_at p (c\<lparr>ak_code2 := ac\<rparr>) i j = wire_at p c i j"
  by (simp add: wire_at_def)

lemma recv_data:
  assumes "ap_ok p" "data_at p c i q" "ap_frame p k f"
  shows "airkiss_recv c (Some f) (ap_length p k) = ak_waitfor_datafield c (Some f) (ap_length p k)"
    "aklen_udp c (ap_length p k) = of_nat (ap_above p k)"
  using recv_locked [OF assms(3), of c] udp_len [OF assms(1), of c k] assms(2) by (simp_all add: data_at_def)

lemma above_long:
  assumes "ap_ok p" "i < ap_blocks p" "j < 6"
  shows "\<not> (of_nat (ap_above p (16 + 6 * i + j)) :: u16) < 0x80"
proof -
  consider "j = 0" | "j = 1" | "2 \<le> j" by linarith
  then show ?thesis
  proof cases
    case 1
    then show ?thesis using above_values(1,3) [OF assms(1,2)] head_words(4) by (simp del: of_nat_add)
  next
    case 2
    then show ?thesis using above_values(2,4) [OF assms(1,2)] head_words(4) [of i] by (simp del: of_nat_add)
  next
    case 3
    then show ?thesis using above_values(5) [OF assms(1,2), of j] assms(3) data_words(4) by simp
  qed
qed

lemma mid_step:
  assumes ok: "ap_ok p" "i < ap_blocks p" and c: "mid p c i j" and j: "j < ap_size p i + 1" and f: "ap_frame p (16 + 6 * i + j) f"
  shows "\<exists>s c'. airkiss_recv c (Some f) (ap_length p (16 + 6 * i + j)) = Some (s, c') \<and> mid p c' i (j + 1)"
proof -
  let ?len = "of_nat (ap_above p (16 + 6 * i + j)) :: u16"
  have d: "data_at p c i (j - 2)" "wire_at p c i j" "row_at p (ak_code2 c) i j" using c by (simp_all add: mid_def)
  obtain ac where ac: "ak_datainput_onlylength c (ak_code2 c) ?len = Some (False, ac)" "row_at p ac i (j + 1)"
    using row_next [OF ok d(3), of c] d(1) j by (auto simp: data_at_def)
  have d1: "data_at p (c\<lparr>ak_code2 := ac\<rparr>) i (j - 2)" "wire_at p (c\<lparr>ak_code2 := ac\<rparr>) i j" using d by simp_all
  have "\<exists>c'. ak_datainput_withwireseq (c\<lparr>ak_code2 := ac\<rparr>) f ?len = Some c' \<and> data_at p c' i (j + 1 - 2) \<and> ak_code2 c' = ac \<and> wire_at p c' i (j + 1)"
  proof -
    consider "j = 0" | "j = 1" | "2 \<le> j" by linarith
    then show ?thesis
    proof cases
      case 1
      then show ?thesis using wire_crc [OF ok d1(1)] d1(2) f by (simp add: wire_at_def)
    next
      case 2
      then show ?thesis using wire_index [OF ok d1(1)] d1(2) f by (simp add: numeral_2_eq_2)
    next
      case 3
      then show ?thesis using wire_byte [OF ok d1 3 j f] by (simp add: Suc_diff_le)
    qed
  qed
  then obtain c' where c': "ak_datainput_withwireseq (c\<lparr>ak_code2 := ac\<rparr>) f ?len = Some c'" "data_at p c' i (j + 1 - 2)" "ak_code2 c' = ac" "wire_at p c' i (j + 1)"
    by blast
  have "\<not> ?len < 0x80" using above_long [OF ok, of j] j block_bounds(4) [OF ok] by simp
  then have "ak_waitfor_datafield c (Some f) (ap_length p (16 + 6 * i + j)) = Some (AIRKISS_STATUS_CONTINUE, c')"
    using ac(1) c'(1,2) recv_data(2) [OF ok(1) d(1) f] by (simp add: ak_waitfor_datafield_def data_at_def)
  then show ?thesis using recv_data(1) [OF ok(1) d(1) f] c' ac(2) by (simp add: mid_def)
qed

lemma block_data:
  assumes ok: "ap_ok p" "i < ap_blocks p" and c: "data_at p c i (ap_size p i - 1)"
  defines "d \<equiv> take (4 * i) (ak_data c) @ ap_block p i @ drop (4 * i + ap_size p i) (ak_data c)"
  shows "length d = 66" "take (4 * i + ap_size p i) d = take (4 * i + ap_size p i) (ap_payload p)"
    "\<forall>x. 4 * i + ap_size p i \<le> x \<and> x < 66 \<longrightarrow> d ! x = 0" "(ak_seq c)[i := 1] = replicate (Suc i) 1 @ replicate (16 - Suc i) 0"
proof -
  have b: "4 * i + ap_size p i \<le> 63" "0 < ap_size p i" "i < 16" "4 * i + ap_size p i \<le> length (ap_payload p)" "ap_size p i \<le> 4"
    using block_bounds [OF ok] ap_bounds(3) [OF ok(1)] by (simp_all add: ap_len_def)
  have l: "length (ak_data c) = 66" "length (ap_block p i) = ap_size p i" using c length_block [OF ok] by (simp_all add: data_at_def)
  show "length d = 66" using l b(1) by (simp add: d_def)
  have "take (4 * i + ap_size p i) d = take (4 * i) (ak_data c) @ ap_block p i" using l b(1) by (simp add: d_def)
  also have "take (4 * i) (ak_data c) = take (4 * i) (ap_payload p)" using c by (simp add: data_at_def)
  also have "ap_block p i = take (ap_size p i) (drop (4 * i) (ap_payload p))" using l(2) unfolding ap_block_def by (metis length_take min.cobounded1 take_all_iff take_take min.absorb2 min.commute nle_le)
  finally show "take (4 * i + ap_size p i) d = take (4 * i + ap_size p i) (ap_payload p)" by (simp add: take_add)
  show "\<forall>x. 4 * i + ap_size p i \<le> x \<and> x < 66 \<longrightarrow> d ! x = 0"
  proof (intro allI impI)
    fix x
    assume x: "4 * i + ap_size p i \<le> x \<and> x < 66"
    then have "d ! x = ak_data c ! x" using put_run_nth [of "4 * i" "ap_block p i" "ak_data c" x] l b(1) by (simp add: d_def)
    moreover have "4 * i + (ap_size p i - 1) \<le> x \<and> x < 66" using x by linarith
    ultimately show "d ! x = 0" using c unfolding data_at_def by metis
  qed
  have "ak_seq c = replicate i 1 @ 0 # replicate (16 - Suc i) 0" using c b(3) by (simp add: data_at_def flip: replicate_Suc)
  then show "(ak_seq c)[i := 1] = replicate (Suc i) 1 @ replicate (16 - Suc i) 0" by (simp add: list_update_append replicate_app_Cons_same)
qed

lemma mid_last:
  assumes ok: "ap_ok p" "i < ap_blocks p" and c: "mid p c i (ap_size p i + 1)" and f: "ap_frame p (16 + 6 * i + (ap_size p i + 1)) f"
  shows "\<exists>s c'. airkiss_recv c (Some f) (ap_length p (16 + 6 * i + (ap_size p i + 1))) = Some (s, c')
    \<and> (if Suc i < ap_blocks p then mid p c' (Suc i) 0 else provisioned p c')"
proof -
  let ?sz = "ap_size p i"
  let ?k = "16 + 6 * i + (?sz + 1)"
  let ?len = "of_nat (ap_above p ?k) :: u16"
  have sz: "0 < ?sz" "?sz \<le> 4" "i < 16" using block_bounds [OF ok] by simp_all
  have d: "data_at p c i (?sz - 1)" "wire_at p c i (?sz + 1)" "row_at p (ak_code2 c) i (?sz + 1)" using c sz by (simp_all add: mid_def)
  have p: "ak_prslen c = of_nat (ap_len p)" using d(1) by (simp add: data_at_def)
  obtain ac where ac: "ak_datainput_onlylength c (ak_code2 c) ?len = Some (True, ac)" "row_at p ac i (?sz + 2)"
    using row_next [OF ok d(3) _ p] by auto
  let ?c1 = "c\<lparr>ak_code2 := ac\<lparr>ac_pos := 0\<rparr>\<rparr>"
  define d' where "d' = take (4 * i) (ak_data c) @ ap_block p i @ drop (4 * i + ?sz) (ak_data c)"
  let ?d = d'
  let ?c2 = "?c1\<lparr>ak_data := ?d, ak_reclen := ak_reclen c + of_nat ?sz, ak_seq := (ak_seq c)[i := 1]\<rparr>"
  have bd: "length ?d = 66" "take (4 * i + ?sz) ?d = take (4 * i + ?sz) (ap_payload p)" "\<forall>x. 4 * i + ?sz \<le> x \<and> x < 66 \<longrightarrow> ?d ! x = 0"
    "(ak_seq c)[i := 1] = replicate (Suc i) 1 @ replicate (16 - Suc i) 0"
    unfolding d'_def by (rule block_data [OF ok d(1)])+
  have get: "ak_get_datafield ?c1 = Some (True, ?c2)"
    unfolding d'_def using row_block [OF ok ac(2), of ?c1] d(1) sz by (simp add: data_at_def nth_append)
  have rec: "ak_reclen c + of_nat ?sz = of_nat (4 * i + ?sz)" using d(1) by (simp add: data_at_def)
  have long: "\<not> ?len < 0x80" using above_long [OF ok, of "?sz + 1"] sz by simp
  note r = recv_data [OF ok(1) d(1) f]
  have rw: "row_at p (ac\<lparr>ac_pos := 0\<rparr>) (Suc i) 0" using ac(2) by (simp add: row_at_def)
  show ?thesis
  proof (cases "Suc i < ap_blocks p")
    case True
    then have s4: "?sz = 4" using block_bounds(7) [OF ok] by simp
    have d2: "data_at p ?c2 (Suc i) 0" using bd rec d(1) unfolding s4 by (simp add: data_at_def add.commute del: replicate_Suc)
    have w2: "wire_at p ?c2 i 5" using d(2) s4 by (simp add: wire_at_def)
    have f5: "ap_frame p (16 + 6 * i + 5) f" using f s4 by simp
    obtain c' where c': "ak_datainput_withwireseq ?c2 f ?len = Some c'" "data_at p c' (Suc i) 0" "ak_code2 c' = ak_code2 ?c2" "wire_at p c' (Suc i) 0"
      using wire_done [OF ok(1) True d2 w2 f5] s4 by auto
    have "ak_waitfor_datafield c (Some f) (ap_length p ?k) = Some (AIRKISS_STATUS_CONTINUE, c')"
      using ac(1) get c'(1,2) r(2) long not_all [OF ok(1) True d2] by (simp add: ak_waitfor_datafield_def data_at_def)
    then show ?thesis using r(1) c' rw True by (simp add: mid_def)
  next
    case False
    then have all: "4 * i + ?sz = ap_len p" using block_bounds(8) [OF ok] ok(2) by simp
    have "ak_reclen ?c2 = ak_prslen ?c2" using rec all p by simp
    then have "ak_waitfor_datafield c (Some f) (ap_length p ?k) = Some (AIRKISS_STATUS_COMPLETE, ?c2\<lparr>ak_state := AKSTATE_CMP\<rparr>)"
      using ac(1) get r(2) long by (simp add: ak_waitfor_datafield_def)
    moreover have "provisioned p (?c2\<lparr>ak_state := AKSTATE_CMP\<rparr>)" using bd(1,2) d(1) unfolding all by (simp add: provisioned_def data_at_def ap_len_def)
    ultimately show ?thesis using r(1) False by simp
  qed
qed

section \<open>The whole run\<close>

lemma block_run:
  assumes ok: "ap_ok p" "i < ap_blocks p" and c: "mid p c i 0" and F: "\<And>k. k < ap_frames p \<Longrightarrow> ap_frame p k (F k)" and m: "m \<le> ap_size p i + 1"
  shows "\<exists>c'. ak_run p F [16 + 6 * i..<16 + 6 * i + m] c = Some c' \<and> mid p c' i m"
  using m
proof (induction m)
  case 0
  then show ?case using c by simp
next
  case (Suc m)
  then obtain c' where c': "ak_run p F [16 + 6 * i..<16 + 6 * i + m] c = Some c'" "mid p c' i m" by auto
  have "m < ap_size p i + 1" using Suc.prems by simp
  moreover from this have "ap_frame p (16 + 6 * i + m) (F (16 + 6 * i + m))" using F frame_bounds [OF ok, of m] by simp
  ultimately obtain s d where "airkiss_recv c' (Some (F (16 + 6 * i + m))) (ap_length p (16 + 6 * i + m)) = Some (s, d)" "mid p d i (m + 1)"
    using mid_step [OF ok c'(2)] by blast
  moreover have "[16 + 6 * i..<16 + 6 * i + Suc m] = [16 + 6 * i..<16 + 6 * i + m] @ [16 + 6 * i + m]"
    using upt_Suc_append [of "16 + 6 * i" "16 + 6 * i + m"] by (simp add: add.assoc)
  ultimately show ?case using c'(1) by (simp only: ak_run_append bind.bind_lunit) simp
qed

lemma blocks_run:
  assumes ok: "ap_ok p" and c: "mid p c 0 0" and F: "\<And>k. k < ap_frames p \<Longrightarrow> ap_frame p k (F k)" and i: "i < ap_blocks p"
  shows "\<exists>c'. ak_run p F [16..<16 + 6 * i] c = Some c' \<and> mid p c' i 0"
  using i
proof (induction i)
  case 0
  then show ?case using c by simp
next
  case (Suc i)
  then have i: "i < ap_blocks p" "ap_size p i = 4" using block_bounds(7) [OF ok, of i] by simp_all
  obtain c1 where c1: "ak_run p F [16..<16 + 6 * i] c = Some c1" "mid p c1 i 0" using Suc.IH i(1) by blast
  obtain c2 where c2: "ak_run p F [16 + 6 * i..<16 + 6 * i + 5] c1 = Some c2" "mid p c2 i 5"
    using block_run [OF ok i(1) c1(2), of F 5] F i(2) by auto
  have "ap_frame p (16 + 6 * i + 5) (F (16 + 6 * i + 5))" using F frame_bounds [OF ok i(1), of 5] i(2) by simp
  then obtain s d where d: "airkiss_recv c2 (Some (F (16 + 6 * i + 5))) (ap_length p (16 + 6 * i + 5)) = Some (s, d)" "mid p d (Suc i) 0"
    using mid_last [OF ok i(1), of c2 "F (16 + 6 * i + 5)"] c2(2) i(2) Suc.prems by auto
  have "[16..<16 + 6 * Suc i] = [16..<16 + 6 * i] @ [16 + 6 * i..<16 + 6 * i + 5] @ [16 + 6 * i + 5]"
    using upt_add_eq_append [of 16 "16 + 6 * i" 6] upt_Suc_append [of "16 + 6 * i" "16 + 6 * i + 5"] by simp
  then have "ak_run p F [16..<16 + 6 * Suc i] c = Some d" using c1(1) c2(1) d(1) by (simp only: ak_run_append bind.bind_lunit) simp
  then show ?case using d(2) by blast
qed

lemma start_mid: "data_start p c \<Longrightarrow> mid p c 0 0"
  by (auto simp: data_start_def mid_def data_at_def wire_at_def row_at_def ap_locked_def akloc_reset_def)

lemma run_to_last:
  assumes ok: "ap_ok p" and F: "\<And>k. k < ap_frames p \<Longrightarrow> ap_frame p k (F k)"
  shows "\<exists>c s c'. ak_run p F [0..<ap_frames p - 1] akloc_reset = Some c \<and> ak_state c = AKSTATE_WFD
    \<and> airkiss_recv c (Some (F (ap_frames p - 1))) (ap_length p (ap_frames p - 1)) = Some (s, c') \<and> provisioned p c'"
proof -
  let ?i = "ap_blocks p - 1"
  let ?sz = "ap_size p ?i"
  have i: "?i < ap_blocks p" "Suc ?i = ap_blocks p" using ap_bounds(2) [OF ok] by (simp_all add: ap_blocks_def)
  then have fr: "ap_frames p - 1 = 16 + 6 * ?i + (?sz + 1)" using block_bounds(8) [OF ok i] by (simp add: ap_frames_def)
  have "16 \<le> ap_frames p" by (simp add: ap_frames_def)
  then obtain c0 where c0: "ak_run p F [0..<16] akloc_reset = Some c0" "data_start p c0" using codes_phase [OF ok, of F] F by auto
  obtain c1 where c1: "ak_run p F [16..<16 + 6 * ?i] c0 = Some c1" "mid p c1 ?i 0" using blocks_run [OF ok start_mid [OF c0(2)], of F ?i] F i(1) by blast
  obtain c2 where c2: "ak_run p F [16 + 6 * ?i..<16 + 6 * ?i + (?sz + 1)] c1 = Some c2" "mid p c2 ?i (?sz + 1)"
    using block_run [OF ok i(1) c1(2), of F "?sz + 1"] F by blast
  have "ap_frame p (16 + 6 * ?i + (?sz + 1)) (F (16 + 6 * ?i + (?sz + 1)))" using F [of "ap_frames p - 1"] fr \<open>16 \<le> ap_frames p\<close> by simp
  then obtain s d where d: "airkiss_recv c2 (Some (F (16 + 6 * ?i + (?sz + 1)))) (ap_length p (16 + 6 * ?i + (?sz + 1))) = Some (s, d)" "provisioned p d"
    using mid_last [OF ok i(1) c2(2), of "F (16 + 6 * ?i + (?sz + 1))"] i(2) by auto
  have "[0..<ap_frames p - 1] = [0..<16] @ [16..<16 + 6 * ?i] @ [16 + 6 * ?i..<16 + 6 * ?i + (?sz + 1)]"
    unfolding fr using upt_add_eq_append [of 0 16 "6 * ?i + (?sz + 1)"] upt_add_eq_append [of 16 "16 + 6 * ?i" "?sz + 1"] by (simp add: add.assoc)
  then have "ak_run p F [0..<ap_frames p - 1] akloc_reset = Some c2" using c0(1) c1(1) c2(1) by (simp only: ak_run_append bind.bind_lunit)
  moreover have "ak_state c2 = AKSTATE_WFD" using c2(2) by (simp add: mid_def data_at_def)
  ultimately show ?thesis using d unfolding fr by blast
qed

section \<open>From the callback to the result\<close>

lemma c_str_prefix: "0 \<notin> set xs \<Longrightarrow> c_str (xs @ 0 # ys) = xs"
  by (induction xs) (simp_all add: c_str_def)

lemma provisioned_result:
  assumes ok: "ap_ok p" and c: "provisioned p c"
  shows "\<exists>r c'. airkiss_get_result c = Some (Some r, c') \<and> ar_pwd r = ap_pwd p \<and> ar_ssid r = ap_ssid p \<and> ar_random r = ap_random p"
proof -
  let ?n = "ap_len p" and ?l = "length (ap_pwd p)"
  have b: "?n \<le> 63" "?l < ?n" "unat (of_nat ?n :: byte) = ?n" "unat (of_nat ?l :: byte) = ?l"
    using ap_bounds [OF ok] by (simp_all add: ap_len_def ap_payload_def unat_of_nat)
  obtain d where d: "ak_data c = ap_payload p @ d" "length d = 66 - ?n"
    using c append_take_drop_id [of ?n "ak_data c"] by (metis length_drop provisioned_def)
  have "0 < length d" using d(2) b(1) by simp
  then obtain z d' where z: "d = z # d'" by (cases d) auto
  have nz: "0 \<notin> set (ap_pwd p)" "0 \<notin> set (ap_ssid p)" using ok by (simp_all add: ap_ok_def)
  have at: "at_pos (ak_data c) ?l = Some (ap_random p)" using b d by (simp add: at_pos_def ap_payload_def ap_len_def nth_append)
  let ?e = "ap_pwd p @ 0 # ap_ssid p @ 0 # d'"
  have n: "?n = length (ap_pwd p @ 0 # ap_ssid p)" by (simp add: ap_len_def ap_payload_def)
  have dat: "(ak_data c)[?l := 0] = ap_pwd p @ 0 # ap_ssid p @ d" "ap_random p = 0 \<Longrightarrow> ak_data c = ap_pwd p @ 0 # ap_ssid p @ d"
    using d(1) by (simp_all add: ap_payload_def list_update_append)
  have put: "put_pos ?n 0 (ap_pwd p @ 0 # ap_ssid p @ d) = Some ?e"
    using b(1) n unfolding z put_pos_def by (simp add: list_update_append)
  have e: "c_str ?e = ap_pwd p" "c_str (ap_ssid p @ 0 # d') = ap_ssid p" using c_str_prefix [OF nz(1)] c_str_prefix [OF nz(2)] by simp_all
  have c0: "ak_state c = AKSTATE_CMP" "ak_prslen c = of_nat ?n" "ak_pwdlen c = of_nat ?l" "ak_random c = 0" using c by (simp_all add: provisioned_def)
  show ?thesis
  proof (cases "ap_random p = 0")
    case True
    then show ?thesis using c0 at put b(3,4) dat(2) e by (simp add: airkiss_get_result_def Let_def)
  next
    case False
    then show ?thesis using c0 at put b(3,4) dat(1) e by (simp add: airkiss_get_result_def Let_def)
  qed
qed

lemma codes_incomplete:
  "ak_waitfor_guidefield c frame len = Some (s, c') \<Longrightarrow> ak_state c = AKSTATE_WFG \<Longrightarrow> s \<noteq> AIRKISS_STATUS_COMPLETE \<and> ak_state c' \<noteq> AKSTATE_CMP"
  "ak_waitfor_magicfield c len = Some (s, c') \<Longrightarrow> ak_state c = AKSTATE_WFM \<Longrightarrow> s \<noteq> AIRKISS_STATUS_COMPLETE \<and> ak_state c' \<noteq> AKSTATE_CMP"
  "ak_waitfor_prefixfield c len = Some (s, c') \<Longrightarrow> ak_state c = AKSTATE_WFP \<Longrightarrow> s \<noteq> AIRKISS_STATUS_COMPLETE \<and> ak_state c' \<noteq> AKSTATE_CMP"
  subgoal by (auto simp: ak_waitfor_guidefield_def ak_guide_getcode_def Let_def split: bind_splits if_splits prod.splits)
  subgoal by (auto simp: ak_waitfor_magicfield_def ak_get_magicfield_def akloc_reset_def Let_def split: bind_splits if_splits prod.splits)
  subgoal by (auto simp: ak_waitfor_prefixfield_def ak_get_prefixfield_def Let_def split: bind_splits if_splits prod.splits)
  done

lemma data_complete:
  assumes "ak_waitfor_datafield c frame len = Some (s, c')" "ak_state c \<noteq> AKSTATE_CMP"
  shows "s = AIRKISS_STATUS_COMPLETE \<longleftrightarrow> ak_state c' = AKSTATE_CMP"
  using assms unfolding ak_waitfor_datafield_def Let_def by (auto split: bind_split_asm if_split_asm prod.split_asm)

lemma complete_status:
  assumes "airkiss_recv c (Some f) len = Some (s, c')" "ak_state c \<noteq> AKSTATE_CMP"
  shows "s = AIRKISS_STATUS_COMPLETE \<longleftrightarrow> ak_state c' = AKSTATE_CMP"
proof -
  obtain other where "ak_sa_filter c f = Some other" using assms(1) by (auto simp: airkiss_recv_def split: bind_splits)
  then show ?thesis using assms by (cases "ak_state c") (auto simp: airkiss_recv_def data_complete dest: codes_incomplete split: if_splits)
qed

lemma complete_stays: "airkiss_recv c (Some f) len = Some (s, c') \<Longrightarrow> ak_state c = AKSTATE_CMP \<Longrightarrow> c' = c"
  by (auto simp: airkiss_recv_def split: bind_splits if_splits)

lemma run_complete: "ak_run p F ks c = Some c' \<Longrightarrow> ak_state c = AKSTATE_CMP \<Longrightarrow> c' = c"
  by (induction ks arbitrary: c) (auto split: bind_splits dest: complete_stays)

text \<open>What the sniffer delivers for frame number \<open>k\<close>: a byte before the frame, and the frame with its length.\<close>

definition ap_sends :: "akphone \<Rightarrow> nat \<Rightarrow> byte list \<Rightarrow> bool" where
  "ap_sends p k fr \<longleftrightarrow> length fr = 1 + ap_base p + ap_above p k \<and> ap_frame p k (drop 1 fr)"

primrec ak_sniffed :: "byte list list \<Rightarrow> airkiss \<Rightarrow> airkiss option" where
  "ak_sniffed [] g = Some g"
| "ak_sniffed (fr # frs) g = Option.bind (airkiss_wifi_sniffer_callback fr g) (ak_sniffed frs)"

lemma ak_sniffed_append: "ak_sniffed (xs @ ys) g = Option.bind (ak_sniffed xs g) (ak_sniffed ys)"
  by (induction xs arbitrary: g) (auto split: bind_splits)

lemma callback_recv:
  assumes "ap_ok p" "ap_sends p k fr" "\<not> is_complete g" "airkiss_recv (ak_context g) (Some (drop 1 fr)) (ap_length p k) = Some (s, c')"
  shows "airkiss_wifi_sniffer_callback fr g = (case s of
      AIRKISS_STATUS_CHANNEL_LOCKED \<Rightarrow> Some (g\<lparr>ak_context := c', ak_calls := ak_calls g @ [Ak_Hop_Stop]\<rparr>)
    | AIRKISS_STATUS_COMPLETE \<Rightarrow> Option.bind (airkiss_get_result c') (\<lambda>(res, c). Some (g\<lparr>is_complete := True, ak_context := c, ak_result := res\<rparr>))
    | AIRKISS_STATUS_CONTINUE \<Rightarrow> Some (g\<lparr>ak_context := c'\<rparr>))"
proof -
  have l: "length fr - 1 = ap_base p + ap_above p k" "24 \<le> ap_base p" "fr \<noteq> []" using assms(1,2) by (auto simp: ap_sends_def ap_ok_def)
  then have "\<not> length fr - 1 < 24" "(of_nat (length fr - 1) :: u16) = ap_length p k" by (simp_all add: ap_length_def)
  then show ?thesis using assms(3,4) l(3) by (simp add: airkiss_wifi_sniffer_callback_def split: airkiss_status.split)
qed

lemma sniffed_run:
  assumes "ap_ok p" "ak_run p F ks (ak_context g) = Some c" "ak_state c \<noteq> AKSTATE_CMP" "\<not> is_complete g"
    and "\<forall>k \<in> set ks. ap_sends p k (G k) \<and> F k = drop 1 (G k)"
  shows "\<exists>g'. ak_sniffed (map G ks) g = Some g' \<and> \<not> is_complete g' \<and> ak_context g' = c"
  using assms(2-5)
proof (induction ks arbitrary: g)
  case (Cons k ks)
  then obtain s d where d: "airkiss_recv (ak_context g) (Some (drop 1 (G k))) (ap_length p k) = Some (s, d)" "ak_run p F ks d = Some c"
    by (auto split: bind_splits)
  have nd: "ak_state d \<noteq> AKSTATE_CMP" using run_complete [OF d(2)] Cons.prems(2) by auto
  then have "ak_state (ak_context g) \<noteq> AKSTATE_CMP" using complete_stays [OF d(1)] by auto
  then have "s \<noteq> AIRKISS_STATUS_COMPLETE" using complete_status [OF d(1)] nd by simp
  then have "\<exists>calls. airkiss_wifi_sniffer_callback (G k) g = Some (g\<lparr>ak_context := d, ak_calls := calls\<rparr>)"
    using callback_recv [OF assms(1) _ Cons.prems(3) d(1)] Cons.prems(4)
    by (cases s) (simp, rule exI [of _ "ak_calls g"], simp, rule exI [of _ "ak_calls g @ [Ak_Hop_Stop]"], simp, simp)
  then obtain calls where g1: "airkiss_wifi_sniffer_callback (G k) g = Some (g\<lparr>ak_context := d, ak_calls := calls\<rparr>)" by blast
  show ?case using Cons.IH [of "g\<lparr>ak_context := d, ak_calls := calls\<rparr>"] g1 d(2) Cons.prems by simp
qed simp

text \<open>C11: A phone that sends a network name, a password and a random byte by frame lengths configures the device.  Whatever the bytes,
  the base length, the distance of the sequence numbers and the addresses are, once the frames have been received in order from
  a started device, it is complete, gives exactly the name and the password, and acknowledges with the random byte.\<close>

theorem airkiss_provisions:
  assumes "ap_ok p" "length frs = ap_frames p" "\<forall>k < ap_frames p. ap_sends p k (frs ! k)" "\<not> is_complete g"
  shows "\<exists>g'. ak_sniffed frs (airkiss_start ch_mask g) = Some g' \<and> airkiss_is_complete g' \<and> airkiss_get_ssid g' = Some (ap_ssid p)
    \<and> airkiss_get_pwd g' = Some (ap_pwd p) \<and> (\<forall>send. airkiss_send_ack send g' = send (ap_random p))"
proof -
  let ?n = "ap_frames p - 1" and ?F = "\<lambda>k. drop 1 (frs ! k)" and ?g = "airkiss_start ch_mask g"
  have g: "ak_context ?g = akloc_reset" "\<not> is_complete ?g" using assms(4) by (simp_all add: airkiss_start_def airkiss_init_def)
  have n: "?n < ap_frames p" "frs = map ((!) frs) [0..<?n] @ [frs ! ?n]"
  proof -
    show "?n < ap_frames p" by (simp add: ap_frames_def)
    then have "[0..<ap_frames p] = [0..<?n] @ [?n]" by (metis Suc_diff_1 gr0_conv_Suc less_nat_zero_code not_gr_zero upt_Suc_append zero_le)
    then show "frs = map ((!) frs) [0..<?n] @ [frs ! ?n]" using map_nth [of frs] assms(2) by (metis list.simps(8,9) map_append)
  qed
  have fr: "ap_frame p k (?F k)" if "k < ap_frames p" for k using assms(3) that by (simp add: ap_sends_def)
  obtain c s c' where c: "ak_run p ?F [0..<?n] akloc_reset = Some c" "ak_state c = AKSTATE_WFD"
    "airkiss_recv c (Some (?F ?n)) (ap_length p ?n) = Some (s, c')" "provisioned p c'"
    using run_to_last [OF assms(1), of ?F] fr by blast
  obtain g1 where g1: "ak_sniffed (map ((!) frs) [0..<?n]) ?g = Some g1" "\<not> is_complete g1" "ak_context g1 = c"
    using sniffed_run [OF assms(1), of ?F "[0..<?n]" ?g c "(!) frs"] c(1,2) g assms(3) by auto
  have s: "s = AIRKISS_STATUS_COMPLETE" using complete_status [OF c(3)] c(2,4) by (simp add: provisioned_def)
  obtain r c2 where r: "airkiss_get_result c' = Some (Some r, c2)" "ar_pwd r = ap_pwd p" "ar_ssid r = ap_ssid p" "ar_random r = ap_random p"
    using provisioned_result [OF assms(1) c(4)] by blast
  have "airkiss_wifi_sniffer_callback (frs ! ?n) g1 = Some (g1\<lparr>is_complete := True, ak_context := c2, ak_result := Some r\<rparr>)"
    using callback_recv [OF assms(1) _ g1(2), of ?n "frs ! ?n" s c'] c(3) g1(3) assms(3) n(1) s r(1) by simp
  then have "ak_sniffed frs ?g = Some (g1\<lparr>is_complete := True, ak_context := c2, ak_result := Some r\<rparr>)"
    by (subst n(2)) (simp only: ak_sniffed_append g1(1) bind.bind_lunit, simp)
  then show ?thesis using r(2-4) by (simp add: airkiss_is_complete_def airkiss_get_ssid_def airkiss_get_pwd_def airkiss_send_ack_def)
qed

definition demo_phone :: akphone where
  "demo_phone = \<lparr>ap_base = 100, ap_first = 40, ap_step = 1, ap_sa = [1, 2, 3, 4], ap_ssidcrc = 0x5A, ap_pwd = [0x70, 0x77], ap_random = 0x4D, ap_ssid = [0x61, 0x62]\<rparr>"

definition demo_sent :: "akphone \<Rightarrow> nat \<Rightarrow> byte list" where
  "demo_sent p k = (let ws = ap_first p + k * ap_step p in
     replicate 15 0 @ take 2 (ap_sa p) @ replicate 4 0 @ drop 2 (ap_sa p) @ [of_nat (ws mod 16 * 16), of_nat (ws div 16)]
       @ replicate (ap_base p + ap_above p k - 24) 0)"

theorem airkiss_provisions_witness:
  "\<exists>g'. ak_sniffed (map (demo_sent demo_phone) [0..<25]) (airkiss_start 0x3FFE airkiss_boot) = Some g'
     \<and> airkiss_is_complete g' \<and> airkiss_get_ssid g' = Some [0x61, 0x62] \<and> airkiss_get_pwd g' = Some [0x70, 0x77]"
proof -
  have "ap_ok demo_phone" "ap_frames demo_phone = 25" by code_simp+
  moreover have "list_all (\<lambda>k. ap_sends demo_phone k (demo_sent demo_phone k)) [0..<25]" by code_simp
  moreover have "\<not> is_complete airkiss_boot" by code_simp
  ultimately show ?thesis using airkiss_provisions [where p = demo_phone and frs = "map (demo_sent demo_phone) [0..<25]" and g = airkiss_boot and ch_mask = "0x3FFE"]
    by (auto simp: list_all_iff demo_phone_def)
qed

end
