(* ===== verification/Softapcfg.thy ===== *)
theory Softapcfg
  imports Art_String Arrays
begin

text \<open>
  Configuration over an access point of the device's own, \<^verbatim>\<open>components/smartlink/softapcfg/ln_softapcfg.c\<close>, and the program that uses
  it, \<^verbatim>\<open>project/wifi_mcu_softapconfig_demo/app/usr_app.c\<close>.  The device opens an access point and waits for a datagram with the name
  and the password of a network, answers it three times and joins the network.  The text is searched with the functions of the C library on the array the
  datagram was received in; \<open>None\<close> is an access outside an array, through the null pointer, or the release of memory that was not
  allocated.  Strings given by the caller are their characters; the answers of the kernel, the sockets and the Wi-Fi library are arguments.
\<close>

section \<open>The C library\<close>

text \<open>A pointer into an array is what the array holds from there on.  The inner option of a search is the null pointer.\<close>

fun c_strstr :: "byte list \<Rightarrow> byte list \<Rightarrow> byte list option option" where
  "c_strstr [] key = None"
| "c_strstr (x # xs) key =
     (if take (length key) (x # xs) = key then Some (Some (x # xs)) else if x = 0 then Some None else c_strstr xs key)"

text \<open>\<^verbatim>\<open>strcspn\<close> with the quotation mark as the only character to stop at.\<close>

fun strcspn_quote :: "byte list \<Rightarrow> nat option" where
  "strcspn_quote [] = None"
| "strcspn_quote (x # xs) = (if x = 34 \<or> x = 0 then Some 0 else map_option Suc (strcspn_quote xs))"

text \<open>The address behind the first character \<open>c\<close>.\<close>

definition behind :: "byte \<Rightarrow> byte list \<Rightarrow> byte list option option" where
  "behind c p = do { r \<leftarrow> c_strchr p c; Some (map_option (\<lambda>k. drop (k + 1) p) r) }"

text \<open>\<^verbatim>\<open>strcpy\<close> into a cleared array of \<open>n\<close> bytes, and the same without the final null.\<close>

definition cleared_with :: "nat \<Rightarrow> byte list \<Rightarrow> byte list option" where
  "cleared_with n v = put_run 0 v (replicate n 0)"

section \<open>The request\<close>

definition WLAN_SSID_MAX_LEN :: nat where "WLAN_SSID_MAX_LEN = 32"
definition WLAN_PWD_MAX_LEN :: nat where "WLAN_PWD_MAX_LEN = 64"
definition TOKEN_MAX_LEN :: nat where "TOKEN_MAX_LEN = 48"
definition RECV_JSON_DATA_LEN_MIN :: nat where "RECV_JSON_DATA_LEN_MIN = 74"
definition RECV_JSON_DATA_LEN_MAX :: nat where "RECV_JSON_DATA_LEN_MAX = 255"
definition RXTX_BUF_SIZE :: nat where "RXTX_BUF_SIZE = 256"

record product_param =
  product_id :: "byte list option"
  device_name :: "byte list option"
  proto_ver :: "byte list option"

record softapcfg =
  target_ssid :: "byte list"
  target_pwd :: "byte list"
  apcfg_token :: "byte list"
  aes_flag :: bool
  is_complete :: bool
  apcfg_stop :: bool
  apcfg_product :: product_param

text \<open>A field of the request from the pointer on: the key, a colon, a quotation mark, and the text to the next one, of a length between the bounds.  The code
  has these lines once for each of the three fields.\<close>

definition recv_field :: "byte list \<Rightarrow> nat \<Rightarrow> nat \<Rightarrow> byte list \<Rightarrow> (byte list \<times> byte list) option option" where
  "recv_field key lo hi p = do {
     r \<leftarrow> c_strstr p key;
     case r of None \<Rightarrow> Some None | Some p \<Rightarrow> do {
       r \<leftarrow> behind 58 p;
       case r of None \<Rightarrow> Some None | Some p \<Rightarrow> do {
         r \<leftarrow> behind 34 p;
         case r of None \<Rightarrow> Some None | Some p \<Rightarrow> do {
           len \<leftarrow> strcspn_quote p;
           Some (if len < lo \<or> hi < len then None else Some (take len p, drop len p)) } } } }"

text \<open>The last field needs no text.  If its colon or its quotation mark is missing, the null pointer is followed.\<close>

definition recv_aes :: "byte list \<Rightarrow> bool option" where
  "recv_aes p = do {
     r \<leftarrow> c_strstr p (str_bytes ''\"aes\"'');
     case r of None \<Rightarrow> Some False | Some p \<Rightarrow> do {
       r \<leftarrow> behind 58 p;
       p \<leftarrow> r;
       r \<leftarrow> behind 34 p;
       p \<leftarrow> r;
       c \<leftarrow> at_pos p 0;
       Some (if c = 48 then False else if c = 49 then True else False) } }"

definition recv_proc :: "byte list \<Rightarrow> nat \<Rightarrow> softapcfg \<Rightarrow> (bool \<times> softapcfg) option" where
  "recv_proc buf buf_len s =
     (if RECV_JSON_DATA_LEN_MIN < buf_len \<and> buf_len < RECV_JSON_DATA_LEN_MAX then do {
        r \<leftarrow> recv_field (str_bytes ''\"ssid\"'') 1 WLAN_SSID_MAX_LEN buf;
        case r of None \<Rightarrow> Some (False, s) | Some (v, p) \<Rightarrow> do {
          a \<leftarrow> cleared_with (WLAN_SSID_MAX_LEN + 1) v;
          let s = s\<lparr>target_ssid := a\<rparr>;
          r \<leftarrow> recv_field (str_bytes ''\"password\"'') 0 (WLAN_PWD_MAX_LEN - 1) p;
          case r of None \<Rightarrow> Some (False, s) | Some (v, p) \<Rightarrow> do {
            a \<leftarrow> cleared_with WLAN_PWD_MAX_LEN v;
            let s = s\<lparr>target_pwd := a\<rparr>;
            r \<leftarrow> recv_field (str_bytes ''\"token\"'') 1 TOKEN_MAX_LEN p;
            case r of None \<Rightarrow> Some (False, s) | Some (v, p) \<Rightarrow> do {
              a \<leftarrow> cleared_with (TOKEN_MAX_LEN + 1) v;
              let s = s\<lparr>apcfg_token := a\<rparr>;
              aes \<leftarrow> recv_aes p;
              Some (True, s\<lparr>aes_flag := aes\<rparr>) } } } }
      else Some (False, s))"

section \<open>The task\<close>

text \<open>Where the buffer of the task lies: on the heap, or in a string literal of the program.\<close>

datatype rxtx = Heap "byte list" | Literal "byte list"

fun rxtx_bytes :: "rxtx \<Rightarrow> byte list" where
  "rxtx_bytes (Heap bs) = bs" | "rxtx_bytes (Literal bs) = bs"

definition OS_Free_rxtx :: "rxtx \<Rightarrow> unit option" where
  "OS_Free_rxtx b = (case b of Heap bs \<Rightarrow> Some () | Literal bs \<Rightarrow> None)"

definition ack_text :: "byte list \<Rightarrow> byte list \<Rightarrow> byte list \<Rightarrow> byte list" where
  "ack_text pid name ver = str_bytes ''{\"cmdType\":2,\"productId\":\"'' @ pid @ str_bytes ''\",\"deviceName\":\"'' @ name
     @ str_bytes ''\",\"protoVersion\":\"'' @ ver @ str_bytes ''\"}''"

text \<open>\<^verbatim>\<open>snprintf\<close> writes at most as many characters as leave room for the null.\<close>

definition ack_buf :: "product_param \<Rightarrow> rxtx" where
  "ack_buf pp =
     (case (product_id pp, device_name pp, proto_ver pp) of
        (Some pid, Some name, Some ver) \<Rightarrow>
          (let t = take (RXTX_BUF_SIZE - 1) (ack_text pid name ver) in Heap (t @ replicate (RXTX_BUF_SIZE - length t) 0))
      | _ \<Rightarrow> Literal (ack_text (str_bytes ''id_xxx'') (str_bytes ''name_xxx'') (str_bytes ''ver_xxx'') @ [0]))"

text \<open>A turn of the loop: \<^verbatim>\<open>select\<close> reports nothing to read, \<^verbatim>\<open>recvfrom\<close> fails, or a datagram is received; between
  two turns another task may call \<^verbatim>\<open>ln_softapcfg_stop\<close>.\<close>

datatype turn = Stop_Called | Nothing_Read | Recv_Failed | Datagram "byte list"

datatype task_end = Polling | Stopped | Completed | Not_Started

text \<open>The result of the task: how it ended, whether it still holds its buffer and its socket, and the datagrams it sent.\<close>

record softap_task =
  task_ended :: task_end
  buf_held :: bool
  socket_open :: bool
  task_sent :: "byte list list"

definition task_polls :: softap_task where
  "task_polls = \<lparr>task_ended = Polling, buf_held = True, socket_open = True, task_sent = []\<rparr>"

text \<open>A datagram: the received bytes are printed as a string, and a request that is accepted is printed and answered.\<close>

definition recv_turn :: "byte list \<Rightarrow> softapcfg \<Rightarrow> ((byte list list) option \<times> softapcfg) option" where
  "recv_turn d s =
     (let got = take RXTX_BUF_SIZE d; buf = got @ replicate (RXTX_BUF_SIZE - length got) 0 in
      if got = [] then Some (None, s)
      else do {
        n \<leftarrow> c_strlen buf;
        (ok, s) \<leftarrow> recv_proc buf (length got) s;
        if \<not> ok then Some (None, s)
        else do {
          n \<leftarrow> c_strlen (target_ssid s);
          n \<leftarrow> c_strlen (target_pwd s);
          n \<leftarrow> c_strlen (apcfg_token s);
          let b = ack_buf (apcfg_product s);
          ack_len \<leftarrow> c_strlen (rxtx_bytes b);
          let sent = replicate 3 (take ack_len (rxtx_bytes b));
          _ \<leftarrow> OS_Free_rxtx b;
          Some (Some sent, s\<lparr>is_complete := True\<rparr>) } })"

text \<open>\<^verbatim>\<open>ln_softapcfg_stop\<close> sets a flag, waits a quarter of a second and stops Wi-Fi.\<close>

definition ln_softapcfg_stop :: "softapcfg \<Rightarrow> softapcfg" where
  "ln_softapcfg_stop s = s\<lparr>apcfg_stop := True\<rparr>"

fun softapcfg_loop :: "turn list \<Rightarrow> softapcfg \<Rightarrow> (softap_task \<times> softapcfg) option" where
  "softapcfg_loop [] s = Some (task_polls, s)"
| "softapcfg_loop (Stop_Called # ts) s = softapcfg_loop ts (ln_softapcfg_stop s)"
| "softapcfg_loop (Nothing_Read # ts) s = softapcfg_loop ts s"
| "softapcfg_loop (Recv_Failed # ts) s =
     (if apcfg_stop s then Some (task_polls\<lparr>task_ended := Stopped, socket_open := False\<rparr>, s) else softapcfg_loop ts s)"
| "softapcfg_loop (Datagram d # ts) s =
     (if apcfg_stop s then Some (task_polls\<lparr>task_ended := Stopped, socket_open := False\<rparr>, s)
      else do {
        (sent, s) \<leftarrow> recv_turn d s;
        case sent of
          None \<Rightarrow> softapcfg_loop ts s
        | Some acks \<Rightarrow> Some (\<lparr>task_ended = Completed, buf_held = False, socket_open = False, task_sent = acks\<rparr>, s) })"

definition softapcfg_task_entry :: "bool \<Rightarrow> bool \<Rightarrow> bool \<Rightarrow> turn list \<Rightarrow> softapcfg \<Rightarrow> (softap_task \<times> softapcfg) option" where
  "softapcfg_task_entry malloc_ok socket_ok bind_ok ts s =
     (if \<not> malloc_ok then Some (\<lparr>task_ended = Not_Started, buf_held = False, socket_open = False, task_sent = []\<rparr>, s)
      else if \<not> socket_ok \<or> \<not> bind_ok then Some (\<lparr>task_ended = Not_Started, buf_held = True, socket_open = False, task_sent = []\<rparr>, s)
      else softapcfg_loop ts s)"

section \<open>The access point\<close>

datatype auth_mode = WIFI_AUTH_OPEN | WIFI_AUTH_WPA2_PSK

text \<open>What the Wi-Fi library is given: the fields of its two structures that are set, and the address.\<close>

record ap_setup =
  ap_ssid :: "byte list"
  ap_ssid_len :: nat
  ap_password :: "byte list"
  ap_channel :: nat
  ap_authmode :: auth_mode
  ap_max_connection :: nat
  ap_beacon_interval :: nat
  ap_local_ip :: "byte list"
  ap_net_mask :: "byte list"
  ap_gateway_ip :: "byte list"
  ap_macaddr :: "byte list"

definition wifi_softap_startup ::
  "u32 \<Rightarrow> bool \<Rightarrow> byte list option \<Rightarrow> byte list option \<Rightarrow> byte list \<Rightarrow> (bool \<times> ap_setup option) option" where
  "wifi_softap_startup trng start_ok ssid pwd local_ip =
     (case ssid of
        None \<Rightarrow> Some (False, None)
      | Some n \<Rightarrow>
          if WLAN_SSID_MAX_LEN < length n then Some (False, None)
          else (case pwd of
              Some w \<Rightarrow> if length w < 8 \<or> WLAN_PWD_MAX_LEN \<le> length w then Some (False, None) else do {
                  name \<leftarrow> cleared_with 33 (n @ [0]);
                  psk \<leftarrow> cleared_with 64 (w @ [0]);
                  ip \<leftarrow> cleared_with 16 (local_ip @ [0]);
                  mask \<leftarrow> cleared_with 16 (str_bytes ''255.255.255.0'' @ [0]);
                  (r, mac) \<leftarrow> ln_generate_random_mac trng (Some (replicate 6 0));
                  Some (start_ok, Some \<lparr>ap_ssid = name, ap_ssid_len = length n, ap_password = psk, ap_channel = 6, ap_authmode = WIFI_AUTH_WPA2_PSK,
                    ap_max_connection = 4, ap_beacon_interval = 100, ap_local_ip = ip, ap_net_mask = mask, ap_gateway_ip = ip, ap_macaddr = the mac\<rparr>) }
            | None \<Rightarrow> do {
                  name \<leftarrow> cleared_with 33 (n @ [0]);
                  ip \<leftarrow> cleared_with 16 (local_ip @ [0]);
                  mask \<leftarrow> cleared_with 16 (str_bytes ''255.255.255.0'' @ [0]);
                  (r, mac) \<leftarrow> ln_generate_random_mac trng (Some (replicate 6 0));
                  Some (start_ok, Some \<lparr>ap_ssid = name, ap_ssid_len = length n, ap_password = replicate 64 0, ap_channel = 6, ap_authmode = WIFI_AUTH_OPEN,
                    ap_max_connection = 4, ap_beacon_interval = 100, ap_local_ip = ip, ap_net_mask = mask, ap_gateway_ip = ip, ap_macaddr = the mac\<rparr>) }))"

definition ln_softapcfg_set_product_param :: "byte list option \<Rightarrow> byte list option \<Rightarrow> byte list option \<Rightarrow> softapcfg \<Rightarrow> bool \<times> softapcfg" where
  "ln_softapcfg_set_product_param pid name ver s =
     (if pid = None \<or> name = None \<or> ver = None then (False, s)
      else (True, s\<lparr>apcfg_product := \<lparr>product_id = pid, device_name = name, proto_ver = ver\<rparr>\<rparr>))"

text \<open>The result, what the Wi-Fi library was given, and the state; the task runs if the result is true.\<close>

definition ln_softapcfg_start ::
  "u32 \<Rightarrow> bool \<Rightarrow> bool \<Rightarrow> byte list option \<Rightarrow> byte list option \<Rightarrow> byte list \<Rightarrow> softapcfg \<Rightarrow> (bool \<times> ap_setup option \<times> softapcfg) option" where
  "ln_softapcfg_start trng start_ok thread_ok ssid pwd local_ip s =
     (let s = s\<lparr>target_ssid := replicate (WLAN_SSID_MAX_LEN + 1) 0, target_pwd := replicate WLAN_PWD_MAX_LEN 0,
                apcfg_token := replicate (TOKEN_MAX_LEN + 1) 0, is_complete := False, apcfg_stop := False\<rparr> in do {
        (ok, ap) \<leftarrow> wifi_softap_startup trng start_ok ssid pwd local_ip;
        Some (ok \<and> thread_ok, ap, s) })"

definition ln_softapcfg_is_complete :: "softapcfg \<Rightarrow> bool" where
  "ln_softapcfg_is_complete s = is_complete s"

definition ln_softapcfg_get_ssid :: "softapcfg \<Rightarrow> byte list" where
  "ln_softapcfg_get_ssid s = target_ssid s"

definition ln_softapcfg_get_pwd :: "softapcfg \<Rightarrow> byte list" where
  "ln_softapcfg_get_pwd s = target_pwd s"

definition ln_softapcfg_get_token :: "softapcfg \<Rightarrow> byte list" where
  "ln_softapcfg_get_token s = apcfg_token s"

section \<open>The program\<close>

record sta_config =
  sta_ssid :: "byte list"
  sta_password :: "byte list"

definition connect_to_ap :: "byte list \<Rightarrow> byte list \<Rightarrow> sta_config option" where
  "connect_to_ap ssid pwd = do {
     n \<leftarrow> c_strlen ssid;
     name \<leftarrow> cleared_with 33 (take n ssid);
     k \<leftarrow> c_strlen pwd;
     key \<leftarrow> cleared_with 64 (take k pwd);
     Some \<lparr>sta_ssid = name, sta_password = key\<rparr> }"

text \<open>The task of the program up to the connection, with the turns of the configuration task meanwhile: \<open>Some None\<close> as long as the
  configuration is not complete.  A start that fails is only reported.\<close>

definition usr_app_task_entry :: "u32 \<Rightarrow> bool \<Rightarrow> bool \<Rightarrow> turn list \<Rightarrow> softapcfg \<Rightarrow> sta_config option option" where
  "usr_app_task_entry trng start_ok thread_ok ts s = do {
     let (r, s) = ln_softapcfg_set_product_param (Some (str_bytes ''id_xxx'')) (Some (str_bytes ''name_xxx'')) (Some (str_bytes ''ver_xxx'')) s;
     (ok, ap, s) \<leftarrow> ln_softapcfg_start trng start_ok thread_ok (Some (str_bytes ''softap_cfg_wifi'')) (Some (str_bytes ''12345678''))
       (str_bytes ''192.168.4.1'') s;
     (t, s) \<leftarrow> (if ok then softapcfg_task_entry True True True ts s else Some (task_polls, s));
     if ln_softapcfg_is_complete s then map_option Some (connect_to_ap (ln_softapcfg_get_ssid s) (ln_softapcfg_get_pwd s))
     else Some None }"

section \<open>A request as the template has it\<close>

definition softap_request :: "byte list \<Rightarrow> byte list \<Rightarrow> byte list \<Rightarrow> bool \<Rightarrow> byte list" where
  "softap_request ssid pwd token aes =
     str_bytes ''{\"cmdType\":1,\"ssid\":\"'' @ ssid @ str_bytes ''\",\"password\":\"'' @ pwd @ str_bytes ''\",\"token\":\"'' @ token
     @ str_bytes ''\",\"aes\":\"'' @ [if aes then 49 else 48] @ str_bytes ''\"}''"

abbreviation unquoted :: "byte list \<Rightarrow> bool" where
  "unquoted xs \<equiv> 0 \<notin> set xs \<and> 34 \<notin> set xs"

lemma strcspn_plain: "unquoted xs \<Longrightarrow> strcspn_quote (xs @ 34 # ys) = Some (length xs)"
  by (induction xs) auto

lemma recv_field_ssid:
  assumes "unquoted v" "lo \<le> length v" "length v \<le> hi"
  shows "recv_field (str_bytes ''\"ssid\"'') lo hi (str_bytes ''{\"cmdType\":1,\"ssid\":\"'' @ v @ 34 # ys) = Some (Some (v, 34 # ys))"
  using assms by (simp add: recv_field_def str_bytes_def behind_def strcspn_plain)

lemma recv_field_password:
  assumes "unquoted v" "lo \<le> length v" "length v \<le> hi"
  shows "recv_field (str_bytes ''\"password\"'') lo hi (str_bytes ''\",\"password\":\"'' @ v @ 34 # ys) = Some (Some (v, 34 # ys))"
  using assms by (simp add: recv_field_def str_bytes_def behind_def strcspn_plain)

lemma recv_field_token:
  assumes "unquoted v" "lo \<le> length v" "length v \<le> hi"
  shows "recv_field (str_bytes ''\"token\"'') lo hi (str_bytes ''\",\"token\":\"'' @ v @ 34 # ys) = Some (Some (v, 34 # ys))"
  using assms by (simp add: recv_field_def str_bytes_def behind_def strcspn_plain)

lemma recv_aes_request: "recv_aes (str_bytes ''\",\"aes\":\"'' @ (if aes then 49 else 48) # ys) = Some aes"
  by (simp add: recv_aes_def str_bytes_def behind_def)

lemma cleared_with_eq: "length v \<le> n \<Longrightarrow> cleared_with n v = Some (v @ replicate (n - length v) 0)"
  by (simp add: cleared_with_def put_run_in)

definition padded :: "nat \<Rightarrow> byte list \<Rightarrow> byte list" where
  "padded n v = v @ replicate (n - length v) 0"

lemma length_padded [simp]: "length v \<le> n \<Longrightarrow> length (padded n v) = n"
  by (simp add: padded_def)

lemma c_str_null: "c_str (0 # xs) = []"
  by (simp add: c_str_def)

lemma c_strlen_padded: "0 \<notin> set v \<Longrightarrow> length v < n \<Longrightarrow> c_strlen (padded n v) = Some (length v)"
  by (cases "n - length v") (auto simp: c_strlen_def padded_def c_str_append c_str_null)

lemma take_padded [simp]: "take (length v) (padded n v) = v"
  by (simp add: padded_def)

lemma length_softap_request: "length (softap_request ssid pwd token aes) = length ssid + length pwd + length token + 58"
  by (simp add: softap_request_def str_bytes_def)

lemma softap_request_no_null: "unquoted ssid \<Longrightarrow> unquoted pwd \<Longrightarrow> unquoted token \<Longrightarrow> 0 \<notin> set (softap_request ssid pwd token aes)"
  by (auto simp: softap_request_def str_bytes_def)

lemma recv_proc_request:
  assumes "unquoted ssid" "unquoted pwd" "unquoted token" "1 \<le> length ssid" "length ssid \<le> 32" "length pwd \<le> 63" "1 \<le> length token" "length token \<le> 48"
    "74 < n" "n < 255"
  shows "recv_proc (softap_request ssid pwd token aes @ zs) n s
    = Some (True, s\<lparr>target_ssid := padded 33 ssid, target_pwd := padded 64 pwd, apcfg_token := padded 49 token, aes_flag := aes\<rparr>)"
proof -
  let ?a = "str_bytes ''\",\"aes\":\"'' @ (if aes then 49 else 48) # str_bytes ''\"}'' @ zs"
  let ?t = "str_bytes ''\",\"token\":\"'' @ token @ ?a"
  let ?p = "str_bytes ''\",\"password\":\"'' @ pwd @ ?t"
  have "hd ?a = 34" "hd ?t = 34" "hd ?p = 34" "?a \<noteq> []" "?t \<noteq> []" "?p \<noteq> []" by (simp_all add: str_bytes_def)
  then obtain a t p where q: "?a = 34 # a" "?t = 34 # t" "?p = 34 # p" by (metis list.collapse)
  have 1: "recv_field (str_bytes ''\"ssid\"'') 1 32 (softap_request ssid pwd token aes @ zs) = Some (Some (ssid, ?p))"
    using recv_field_ssid [OF assms(1,4,5), of p, folded q(3)] by (simp add: softap_request_def)
  have 2: "recv_field (str_bytes ''\"password\"'') 0 63 ?p = Some (Some (pwd, ?t))"
    using recv_field_password [OF assms(2) le0 assms(6), of t, folded q(2)] by simp
  have 3: "recv_field (str_bytes ''\"token\"'') 1 48 ?t = Some (Some (token, ?a))"
    using recv_field_token [OF assms(3,7,8), of a, folded q(1)] by simp
  show ?thesis using assms 1 2 3 recv_aes_request [of aes "str_bytes ''\"}'' @ zs"]
    by (simp add: recv_proc_def RECV_JSON_DATA_LEN_MIN_def RECV_JSON_DATA_LEN_MAX_def WLAN_SSID_MAX_LEN_def WLAN_PWD_MAX_LEN_def
        TOKEN_MAX_LEN_def cleared_with_eq padded_def)
qed

lemma ack_buf_set:
  assumes "product_id pp = Some pid" "device_name pp = Some name" "proto_ver pp = Some ver"
  shows "ack_buf pp = Heap (padded 256 (take 255 (ack_text pid name ver)))"
  using assms by (simp add: ack_buf_def RXTX_BUF_SIZE_def padded_def Let_def)

lemma ack_text_no_null: "0 \<notin> set pid \<Longrightarrow> 0 \<notin> set name \<Longrightarrow> 0 \<notin> set ver \<Longrightarrow> 0 \<notin> set (ack_text pid name ver)"
  by (auto simp: ack_text_def str_bytes_def)

lemma recv_turn_short: "length d \<le> 74 \<Longrightarrow> recv_turn d s = Some (None, s)"
  by (cases "d = []") (auto simp: recv_turn_def RXTX_BUF_SIZE_def c_strlen_def recv_proc_def RECV_JSON_DATA_LEN_MIN_def)

lemma recv_turn_request:
  assumes "unquoted ssid" "unquoted pwd" "unquoted token" "1 \<le> length ssid" "length ssid \<le> 32" "length pwd \<le> 63" "1 \<le> length token" "length token \<le> 48"
    "16 < length ssid + length pwd + length token"
    "product_id (apcfg_product s) = Some pid" "device_name (apcfg_product s) = Some name" "proto_ver (apcfg_product s) = Some ver"
    "0 \<notin> set pid" "0 \<notin> set name" "0 \<notin> set ver"
  shows "recv_turn (softap_request ssid pwd token aes) s
    = Some (Some (replicate 3 (take 255 (ack_text pid name ver))),
        s\<lparr>target_ssid := padded 33 ssid, target_pwd := padded 64 pwd, apcfg_token := padded 49 token, aes_flag := aes, is_complete := True\<rparr>)"
proof -
  let ?d = "softap_request ssid pwd token aes" and ?t = "take 255 (ack_text pid name ver)"
  have n: "74 < length ?d" "length ?d < 255" using assms by (simp_all add: length_softap_request)
  have "0 \<notin> set ?t" using ack_text_no_null [OF assms(13-15)] by (meson in_set_takeD)
  then have t: "c_strlen (padded 256 ?t) = Some (length ?t)" by (rule c_strlen_padded) (simp add: min_def)
  have d: "c_strlen (?d @ replicate (256 - length ?d) 0) = Some (length ?d)"
    using c_strlen_padded [OF softap_request_no_null [OF assms(1-3), of aes], of 256] n by (simp add: padded_def)
  have "?d \<noteq> []" "take 256 ?d = ?d" "take (min (length (ack_text pid name ver)) 255) (padded 256 ?t) = ?t"
    using n take_padded [of ?t 256] by auto
  then show ?thesis using n d t recv_proc_request [OF assms(1-8) n, of aes "replicate (256 - length ?d) 0" s] assms
    by (simp add: recv_turn_def RXTX_BUF_SIZE_def ack_buf_set c_strlen_padded OS_Free_rxtx_def)
qed

lemma recv_proc_keeps:
  "recv_proc buf n s = Some (r, s') \<Longrightarrow> apcfg_product s' = apcfg_product s \<and> apcfg_stop s' = apcfg_stop s \<and> is_complete s' = is_complete s"
  by (auto simp: recv_proc_def Let_def split: Option.bind_splits option.splits if_splits)

lemma recv_turn_keeps:
  "recv_turn d s = Some (r, s') \<Longrightarrow> apcfg_product s' = apcfg_product s \<and> apcfg_stop s' = apcfg_stop s"
  by (auto simp: recv_turn_def Let_def dest!: recv_proc_keeps split: Option.bind_splits if_splits)

lemma loop_refused:
  assumes "\<forall>d. Datagram d \<in> set pre \<longrightarrow> (\<forall>s. \<exists>s'. recv_turn d s = Some (None, s'))" "Stop_Called \<notin> set pre" "\<not> apcfg_stop s"
  shows "\<exists>s'. softapcfg_loop (pre @ ts) s = softapcfg_loop ts s' \<and> apcfg_product s' = apcfg_product s \<and> \<not> apcfg_stop s'"
  using assms
proof (induction pre arbitrary: s)
  case (Cons t pre)
  have pre: "\<exists>s''. softapcfg_loop (pre @ ts) s' = softapcfg_loop ts s'' \<and> apcfg_product s'' = apcfg_product s' \<and> \<not> apcfg_stop s''"
    if "\<not> apcfg_stop s'" for s' by (rule Cons.IH) (use Cons.prems that in auto)
  show ?case
  proof (cases t)
    case (Datagram d)
    then obtain s' where s': "recv_turn d s = Some (None, s')" using Cons.prems(1) by force
    with pre [of s'] recv_turn_keeps [OF s'] Cons.prems(3) show ?thesis by (simp add: Datagram)
  qed (use pre [of s] Cons.prems in auto)
qed auto

definition cleared_cfg :: "softapcfg \<Rightarrow> softapcfg" where
  "cleared_cfg s = s\<lparr>target_ssid := replicate 33 0, target_pwd := replicate 64 0, apcfg_token := replicate 49 0, is_complete := False, apcfg_stop := False\<rparr>"

definition demo_product :: product_param where
  "demo_product = \<lparr>product_id = Some (str_bytes ''id_xxx''), device_name = Some (str_bytes ''name_xxx''), proto_ver = Some (str_bytes ''ver_xxx'')\<rparr>"

definition demo_started :: "softapcfg \<Rightarrow> softapcfg" where
  "demo_started s = cleared_cfg (s\<lparr>apcfg_product := demo_product\<rparr>)"

definition demo_ack :: "byte list" where
  "demo_ack = ack_text (str_bytes ''id_xxx'') (str_bytes ''name_xxx'') (str_bytes ''ver_xxx'')"

lemma take_demo_ack: "take 255 demo_ack = demo_ack"
  by (simp add: demo_ack_def ack_text_def str_bytes_def)

lemma softap_start_ok:
  assumes "length n \<le> 32" "8 \<le> length w" "length w < 64" "length ip < 16"
  shows "\<exists>ap. ln_softapcfg_start trng True True (Some n) (Some w) ip s = Some (True, Some ap, cleared_cfg s)"
  using assms by (simp add: ln_softapcfg_start_def wifi_softap_startup_def cleared_with_eq ln_generate_random_mac_def str_bytes_def
      WLAN_SSID_MAX_LEN_def WLAN_PWD_MAX_LEN_def TOKEN_MAX_LEN_def cleared_cfg_def)

lemma usr_app_runs:
  assumes "softapcfg_task_entry True True True ts (demo_started s) = Some (t, s')"
  shows "usr_app_task_entry trng True True ts s
    = (if is_complete s' then map_option Some (connect_to_ap (target_ssid s') (target_pwd s')) else Some None)"
proof -
  obtain ap where "ln_softapcfg_start trng True True (Some (str_bytes ''softap_cfg_wifi'')) (Some (str_bytes ''12345678'')) (str_bytes ''192.168.4.1'')
      (s\<lparr>apcfg_product := demo_product\<rparr>) = Some (True, Some ap, demo_started s)"
    using softap_start_ok [of "str_bytes ''softap_cfg_wifi''" "str_bytes ''12345678''" "str_bytes ''192.168.4.1''" trng]
    by (auto simp: str_bytes_def demo_started_def)
  with assms show ?thesis
    by (simp add: usr_app_task_entry_def ln_softapcfg_set_product_param_def demo_product_def ln_softapcfg_is_complete_def
        ln_softapcfg_get_ssid_def ln_softapcfg_get_pwd_def)
qed

lemma connect_to_ap_padded:
  "0 \<notin> set ssid \<Longrightarrow> length ssid \<le> 32 \<Longrightarrow> 0 \<notin> set pwd \<Longrightarrow> length pwd \<le> 63
    \<Longrightarrow> connect_to_ap (padded 33 ssid) (padded 64 pwd) = Some \<lparr>sta_ssid = padded 33 ssid, sta_password = padded 64 pwd\<rparr>"
  by (simp add: connect_to_ap_def c_strlen_padded cleared_with_eq) (simp add: padded_def)

text \<open>C13: The program joins the network that a request names.  Whatever turns of the loop come before, with no datagram or with datagrams that are
  refused, when a request as the template has it arrives (name, password and token of admissible lengths, without quotation marks, seventeen
  characters at least together) the task answers it three times with the parameters of the product, gives back its buffer and its socket,
  and keeps the token and the mark for encryption; the program then connects with the name and the password of the request, whatever follows.\<close>

theorem softap_provisions:
  assumes "unquoted ssid" "unquoted pwd" "unquoted token" "1 \<le> length ssid" "length ssid \<le> 32" "length pwd \<le> 63" "1 \<le> length token" "length token \<le> 48"
    "16 < length ssid + length pwd + length token"
    "\<forall>d. Datagram d \<in> set pre \<longrightarrow> (\<forall>s. \<exists>s'. recv_turn d s = Some (None, s'))" "Stop_Called \<notin> set pre"
  shows "\<exists>s'. softapcfg_task_entry True True True (pre @ Datagram (softap_request ssid pwd token aes) # post) (demo_started s)
        = Some (\<lparr>task_ended = Completed, buf_held = False, socket_open = False, task_sent = [demo_ack, demo_ack, demo_ack]\<rparr>, s')
      \<and> c_str (ln_softapcfg_get_token s') = token \<and> aes_flag s' = aes
      \<and> usr_app_task_entry trng True True (pre @ Datagram (softap_request ssid pwd token aes) # post) s
        = Some (Some \<lparr>sta_ssid = padded 33 ssid, sta_password = padded 64 pwd\<rparr>)"
proof -
  let ?d = "softap_request ssid pwd token aes"
  have "\<not> apcfg_stop (demo_started s)" "apcfg_product (demo_started s) = demo_product" by (simp_all add: demo_started_def cleared_cfg_def)
  then obtain s1 where s1: "softapcfg_loop (pre @ Datagram ?d # post) (demo_started s) = softapcfg_loop (Datagram ?d # post) s1"
    "apcfg_product s1 = demo_product" "\<not> apcfg_stop s1"
    using loop_refused [OF assms(10,11), of "demo_started s" "Datagram ?d # post"] by auto
  let ?s = "s1\<lparr>target_ssid := padded 33 ssid, target_pwd := padded 64 pwd, apcfg_token := padded 49 token, aes_flag := aes, is_complete := True\<rparr>"
  have "recv_turn ?d s1 = Some (Some [demo_ack, demo_ack, demo_ack], ?s)"
    using recv_turn_request [OF assms(1-9), of s1] s1(2) take_demo_ack
    by (simp add: demo_product_def demo_ack_def str_bytes_def numeral_3_eq_3)
  then have run: "softapcfg_task_entry True True True (pre @ Datagram ?d # post) (demo_started s)
      = Some (\<lparr>task_ended = Completed, buf_held = False, socket_open = False, task_sent = [demo_ack, demo_ack, demo_ack]\<rparr>, ?s)"
    using s1 by (simp add: softapcfg_task_entry_def)
  moreover have "c_str (padded 49 token) = token"
    using c_strlen_padded [of token 49] assms(3,8) by (cases "49 - length token") (simp_all add: padded_def c_str_append c_str_null)
  ultimately show ?thesis using usr_app_runs [OF run, of trng] connect_to_ap_padded [of ssid pwd] assms(1,2,5,6)
    by (simp add: ln_softapcfg_get_token_def)
qed

definition demo_softap :: softapcfg where
  "demo_softap = \<lparr>target_ssid = [], target_pwd = [], apcfg_token = [], aes_flag = False, is_complete = False, apcfg_stop = False,
     apcfg_product = \<lparr>product_id = None, device_name = None, proto_ver = None\<rparr>\<rparr>"

theorem softap_provisions_witness:
  "usr_app_task_entry 7 True True ([Nothing_Read, Datagram [1, 2, 3], Recv_Failed]
      @ Datagram (softap_request (str_bytes ''Home-WiFi'') (str_bytes ''12345678'') (str_bytes ''6ab82618a9d529a2ee777bf6e528a0fd'') False) # []) demo_softap
    = Some (Some \<lparr>sta_ssid = padded 33 (str_bytes ''Home-WiFi''), sta_password = padded 64 (str_bytes ''12345678'')\<rparr>)"
  using softap_provisions [of "str_bytes ''Home-WiFi''" "str_bytes ''12345678''" "str_bytes ''6ab82618a9d529a2ee777bf6e528a0fd''"
      "[Nothing_Read, Datagram [1, 2, 3], Recv_Failed]" False "[]" demo_softap 7]
  by (simp add: recv_turn_short) (auto simp: str_bytes_def)

section \<open>Any datagram\<close>

text \<open>A text in which every key for encryption is followed by a colon and a quotation mark.\<close>

fun aes_ok :: "byte list \<Rightarrow> bool" where
  "aes_ok [] = True"
| "aes_ok (x # xs) =
     ((take 5 (x # xs) = str_bytes ''\"aes\"'' \<longrightarrow> 34 \<in> set (dropWhile (\<lambda>b. b \<noteq> 58) (c_str (x # xs)))) \<and> aes_ok xs)"

lemma c_str_zeros_end: "c_str (xs @ replicate n 0) = c_str xs"
  by (induction xs) (auto simp: c_str_def)

lemma take_key_zeros: "take n (xs @ replicate k 0) = key \<Longrightarrow> 0 \<notin> set key \<Longrightarrow> length key = n \<Longrightarrow> take n xs = (key :: byte list)"
  by (cases "n - length xs"; cases k) auto

lemma aes_ok_zeros: "aes_ok (replicate n 0)"
  by (induction n) (auto simp: str_bytes_def)

lemma aes_ok_no_a: "97 \<notin> set d \<Longrightarrow> aes_ok d"
proof (induction d)
  case (Cons x d)
  have "97 \<in> set (str_bytes ''\"aes\"'')" by (simp add: str_bytes_def)
  then have "take 5 (x # d) \<noteq> str_bytes ''\"aes\"''" using Cons.prems by (metis in_set_takeD)
  with Cons show ?case by simp
qed simp

lemma aes_ok_padded: "aes_ok d \<Longrightarrow> aes_ok (d @ replicate n 0)"
proof (induction d)
  case (Cons x d)
  have "take 5 (x # d) = str_bytes ''\"aes\"''" if "take 5 ((x # d) @ replicate n 0) = str_bytes ''\"aes\"''"
    by (rule take_key_zeros [OF that]) (simp_all add: str_bytes_def)
  with Cons show ?case using c_str_zeros_end [of "x # d" n] by auto
qed (simp add: aes_ok_zeros)

lemma c_strstr_terminated:
  assumes "0 \<in> set p"
  shows "\<exists>r. c_strstr p key = Some r \<and> (\<forall>q. r = Some q \<longrightarrow> 0 \<in> set q \<and> take (length key) q = key \<and> (aes_ok p \<longrightarrow> aes_ok q))"
  using assms by (induction p) auto

lemma c_strchr_terminated:
  assumes "0 \<in> set p" "c \<noteq> 0"
  shows "\<exists>r. c_strchr p c = Some r \<and> (\<forall>k. r = Some k \<longrightarrow> 0 \<in> set (drop (k + 1) p))"
  using assms by (induction p) (auto split: Option.bind_splits)

lemma aes_ok_drop: "aes_ok p \<Longrightarrow> aes_ok (drop k p)"
  by (induction p arbitrary: k) (auto simp: drop_Cons split: nat.splits)

lemma behind_terminated:
  assumes "0 \<in> set p" "c \<noteq> 0"
  shows "\<exists>r. behind c p = Some r \<and> (\<forall>q. r = Some q \<longrightarrow> 0 \<in> set q \<and> (aes_ok p \<longrightarrow> aes_ok q))"
  using c_strchr_terminated [OF assms] aes_ok_drop by (fastforce simp: behind_def)

lemma strcspn_terminated:
  assumes "0 \<in> set p"
  shows "\<exists>n. strcspn_quote p = Some n \<and> 0 \<in> set (drop n p) \<and> unquoted (take n p) \<and> n < length p"
  using assms by (induction p) auto

lemma recv_field_terminated:
  assumes "0 \<in> set p"
  shows "\<exists>r. recv_field key lo hi p = Some r
    \<and> (\<forall>v q. r = Some (v, q) \<longrightarrow> lo \<le> length v \<and> length v \<le> hi \<and> unquoted v \<and> 0 \<in> set q \<and> (aes_ok p \<longrightarrow> aes_ok q))"
proof -
  obtain r1 where 1: "c_strstr p key = Some r1" "\<And>q. r1 = Some q \<Longrightarrow> 0 \<in> set q \<and> (aes_ok p \<longrightarrow> aes_ok q)"
    using c_strstr_terminated [OF assms, of key] by auto
  have "\<exists>r. (do { r \<leftarrow> behind 58 q; case r of None \<Rightarrow> Some None | Some p \<Rightarrow> do {
         r \<leftarrow> behind 34 p; case r of None \<Rightarrow> Some None | Some p \<Rightarrow> do {
           len \<leftarrow> strcspn_quote p; Some (if len < lo \<or> hi < len then None else Some (take len p, drop len p)) } } }) = Some r
      \<and> (\<forall>v q. r = Some (v, q) \<longrightarrow> lo \<le> length v \<and> length v \<le> hi \<and> unquoted v \<and> 0 \<in> set q \<and> (aes_ok p \<longrightarrow> aes_ok q))"
    if q: "0 \<in> set q" "aes_ok p \<longrightarrow> aes_ok q" for q
  proof -
    obtain r2 where 2: "behind 58 q = Some r2" "\<And>q. r2 = Some q \<Longrightarrow> 0 \<in> set q \<and> (aes_ok p \<longrightarrow> aes_ok q)"
      using behind_terminated [OF q(1), of 58] q(2) by auto
    show ?thesis
    proof (cases r2)
      case (Some q2)
      then obtain r3 where 3: "behind 34 q2 = Some r3" "\<And>q. r3 = Some q \<Longrightarrow> 0 \<in> set q \<and> (aes_ok p \<longrightarrow> aes_ok q)"
        using behind_terminated [of q2 34] 2(2) by auto
      show ?thesis
      proof (cases r3)
        case (Some q3)
        then obtain n where "strcspn_quote q3 = Some n" "0 \<in> set (drop n q3)" "unquoted (take n q3)" "n < length q3" "aes_ok p \<longrightarrow> aes_ok (drop n q3)"
          using strcspn_terminated [of q3] 3(2) aes_ok_drop by blast
        with 2(1) 3(1) \<open>r2 = Some q2\<close> Some show ?thesis by auto
      qed (use 2(1) 3(1) \<open>r2 = Some q2\<close> in auto)
    qed (use 2(1) in auto)
  qed
  then show ?thesis using 1 by (cases r1) (auto simp: recv_field_def)
qed

lemma c_strchr_found: "c \<in> set (c_str p) \<Longrightarrow> \<exists>k. c_strchr p c = Some (Some k) \<and> dropWhile (\<lambda>b. b \<noteq> c) (c_str p) = c # c_str (drop (k + 1) p)"
  by (induction p) (auto simp: c_str_def split: if_splits)

lemma recv_aes_terminated:
  assumes "0 \<in> set p" "aes_ok p"
  shows "\<exists>b. recv_aes p = Some b"
proof -
  have five: "length (str_bytes ''\"aes\"'') = 5" by (simp add: str_bytes_def)
  obtain r where r: "c_strstr p (str_bytes ''\"aes\"'') = Some r"
    "\<And>q. r = Some q \<Longrightarrow> 0 \<in> set q \<and> take 5 q = str_bytes ''\"aes\"'' \<and> aes_ok q"
    using c_strstr_terminated [OF assms(1), of "str_bytes ''\"aes\"''"] assms(2) unfolding five by auto
  show ?thesis
  proof (cases r)
    case (Some q)
    then obtain x xs where "q = x # xs" using r(2) by (cases q) auto
    then have q: "0 \<in> set q" "34 \<in> set (dropWhile (\<lambda>b. b \<noteq> 58) (c_str q))" using r(2) [OF Some] by (simp_all only: aes_ok.simps)
    have "dropWhile (\<lambda>b. b \<noteq> 58) (c_str q) = []" if "58 \<notin> set (c_str q)" using that by (auto simp: dropWhile_eq_Nil_conv)
    then have "58 \<in> set (c_str q)" using q(2) by (metis empty_iff list.set(1))
    then obtain k where k: "c_strchr q 58 = Some (Some k)" "34 \<in> set (c_str (drop (k + 1) q))"
      using c_strchr_found [of 58 q] q(2) by auto
    then obtain j where j: "c_strchr (drop (k + 1) q) 34 = Some (Some j)" using c_strchr_found by blast
    have "0 \<in> set (drop (k + 1) q)" using c_strchr_terminated [OF q(1), of 58] k(1) by auto
    then have "drop (j + 1) (drop (k + 1) q) \<noteq> []" using c_strchr_terminated [of "drop (k + 1) q" 34] j by force
    then show ?thesis using r(1) Some k(1) j by (simp add: recv_aes_def behind_def at_pos_def)
  qed (use r(1) in \<open>auto simp: recv_aes_def\<close>)
qed

text \<open>The arrays have their sizes and end with a null.\<close>

definition fields_ok :: "softapcfg \<Rightarrow> bool" where
  "fields_ok s \<longleftrightarrow> length (target_ssid s) = 33 \<and> 0 \<in> set (target_ssid s) \<and> length (target_pwd s) = 64 \<and> 0 \<in> set (target_pwd s)
     \<and> length (apcfg_token s) = 49 \<and> 0 \<in> set (apcfg_token s)"

lemma null_in_padded: "length v < n \<Longrightarrow> 0 \<in> set (padded n v)"
  by (auto simp: padded_def)

lemma recv_proc_any:
  assumes "0 \<in> set buf" "aes_ok buf" "fields_ok s"
  shows "\<exists>ok s'. recv_proc buf n s = Some (ok, s') \<and> fields_ok s' \<and> (ok \<longrightarrow> target_ssid s' ! 0 \<noteq> 0 \<and> apcfg_token s' ! 0 \<noteq> 0)"
proof (cases "RECV_JSON_DATA_LEN_MIN < n \<and> n < RECV_JSON_DATA_LEN_MAX")
  case True
  note defs = recv_proc_def WLAN_SSID_MAX_LEN_def WLAN_PWD_MAX_LEN_def TOKEN_MAX_LEN_def cleared_with_eq padded_def [symmetric] fields_ok_def null_in_padded
  obtain r1 where 1: "recv_field (str_bytes ''\"ssid\"'') 1 32 buf = Some r1"
    "\<And>v q. r1 = Some (v, q) \<Longrightarrow> 1 \<le> length v \<and> length v \<le> 32 \<and> unquoted v \<and> 0 \<in> set q \<and> aes_ok q"
    using recv_field_terminated [OF assms(1), of "str_bytes ''\"ssid\"''" 1 32] assms(2) by blast
  show ?thesis
  proof (cases r1)
    case None then show ?thesis using 1(1) True assms(3) by (auto simp: defs)
  next
    case (Some vp)
    obtain v1 p1 where v1: "vp = (v1, p1)" by (cases vp)
    note v = 1(2) [OF Some [unfolded v1]]
    obtain r2 where 2: "recv_field (str_bytes ''\"password\"'') 0 63 p1 = Some r2"
      "\<And>v q. r2 = Some (v, q) \<Longrightarrow> length v \<le> 63 \<and> unquoted v \<and> 0 \<in> set q \<and> aes_ok q"
      using recv_field_terminated [of p1 "str_bytes ''\"password\"''" 0 63] v by blast
    show ?thesis
    proof (cases r2)
      case None then show ?thesis using 1(1) 2(1) True assms(3) v \<open>r1 = Some vp\<close> v1 by (auto simp: defs)
    next
      case (Some wp)
      obtain v2 p2 where v2: "wp = (v2, p2)" by (cases wp)
      note w = 2(2) [OF Some [unfolded v2]]
      obtain r3 where 3: "recv_field (str_bytes ''\"token\"'') 1 48 p2 = Some r3"
        "\<And>v q. r3 = Some (v, q) \<Longrightarrow> 1 \<le> length v \<and> length v \<le> 48 \<and> unquoted v \<and> 0 \<in> set q \<and> aes_ok q"
        using recv_field_terminated [of p2 "str_bytes ''\"token\"''" 1 48] w by blast
      show ?thesis
      proof (cases r3)
        case None then show ?thesis using 1(1) 2(1) 3(1) True assms(3) v w \<open>r1 = Some vp\<close> v1 \<open>r2 = Some wp\<close> v2 by (auto simp: defs)
      next
        case (Some tp)
        obtain v3 p3 where v3: "tp = (v3, p3)" by (cases tp)
        note t = 3(2) [OF Some [unfolded v3]]
        obtain b where "recv_aes p3 = Some b" using recv_aes_terminated [of p3] t by blast
        moreover have "padded 33 v1 ! 0 \<noteq> 0" "padded 49 v3 ! 0 \<noteq> 0" using v t by (cases v1; cases v3; auto simp: padded_def)+
        ultimately show ?thesis using 1(1) 2(1) 3(1) True v w t \<open>r1 = Some vp\<close> v1 \<open>r2 = Some wp\<close> v2 Some v3 by (auto simp: defs)
      qed
    qed
  qed
qed (use assms(3) in \<open>auto simp: recv_proc_def\<close>)

lemma c_strlen_terminated: "0 \<in> set p \<Longrightarrow> c_strlen p = Some (length (c_str p))"
  by (simp add: c_strlen_def)

lemma recv_turn_any:
  assumes "length d < 256" "aes_ok d" "fields_ok s" "apcfg_product s = demo_product" "\<not> is_complete s"
  shows "\<exists>r s'. recv_turn d s = Some (r, s') \<and> fields_ok s' \<and> is_complete s' = (r \<noteq> None) \<and> (r \<noteq> None \<longrightarrow> target_ssid s' ! 0 \<noteq> 0 \<and> r = Some [demo_ack, demo_ack, demo_ack])"
proof (cases "d = []")
  case False
  let ?b = "d @ replicate (256 - length d) 0"
  have z: "0 \<in> set ?b" using assms(1) by simp
  obtain ok s' where p: "recv_proc ?b (length d) s = Some (ok, s')" "fields_ok s'" "ok \<longrightarrow> target_ssid s' ! 0 \<noteq> 0"
    using recv_proc_any [OF z aes_ok_padded [OF assms(2)] assms(3), of "length d"] by blast
  have ack: "c_strlen (padded 256 demo_ack) = Some (length demo_ack)"
    by (rule c_strlen_padded) (simp_all add: demo_ack_def ack_text_def str_bytes_def)
  have "ack_buf (apcfg_product s') = Heap (padded 256 demo_ack)"
    using recv_proc_keeps [OF p(1)] assms(4) ack_buf_set [of demo_product] take_demo_ack by (simp add: demo_product_def demo_ack_def)
  then show ?thesis using False assms(1,5) z p recv_proc_keeps [OF p(1)] ack
    by (auto simp: recv_turn_def RXTX_BUF_SIZE_def fields_ok_def c_strlen_terminated OS_Free_rxtx_def numeral_3_eq_3)
qed (use assms in \<open>simp add: recv_turn_def\<close>)

lemma loop_any:
  assumes "\<forall>d. Datagram d \<in> set ts \<longrightarrow> length d < 256 \<and> aes_ok d" "fields_ok s" "apcfg_product s = demo_product" "\<not> is_complete s"
  shows "\<exists>t s'. softapcfg_loop ts s = Some (t, s') \<and> fields_ok s' \<and> is_complete s' = (task_ended t = Completed)
    \<and> task_sent t = (if is_complete s' then [demo_ack, demo_ack, demo_ack] else []) \<and> (is_complete s' \<longrightarrow> target_ssid s' ! 0 \<noteq> 0)"
  using assms
proof (induction ts arbitrary: s)
  case (Cons x ts)
  have stop: "fields_ok (ln_softapcfg_stop s)" "apcfg_product (ln_softapcfg_stop s) = demo_product" "\<not> is_complete (ln_softapcfg_stop s)"
    using Cons.prems by (simp_all add: ln_softapcfg_stop_def fields_ok_def)
  show ?case
  proof (cases x)
    case (Datagram d)
    then obtain r s' where "recv_turn d s = Some (r, s')" "fields_ok s'" "is_complete s' = (r \<noteq> None)"
      "r \<noteq> None \<longrightarrow> target_ssid s' ! 0 \<noteq> 0 \<and> r = Some [demo_ack, demo_ack, demo_ack]" "apcfg_product s' = demo_product"
      using recv_turn_any [of d s] recv_turn_keeps [of d s] Cons.prems by fastforce
    with Cons Datagram show ?thesis by (cases r) (auto simp: task_polls_def)
  qed (use Cons stop in \<open>auto simp: task_polls_def\<close>)
qed (simp add: task_polls_def)

lemma connect_to_ap_any:
  assumes "length ssid = 33" "0 \<in> set ssid" "length pwd = 64" "0 \<in> set pwd"
  shows "\<exists>c. connect_to_ap ssid pwd = Some c \<and> c_str (sta_ssid c) = c_str ssid \<and> c_str (sta_password c) = c_str pwd"
proof -
  have cut: "take (length (c_str p)) p = c_str p" for p by (simp add: c_str_def takeWhile_eq_take [symmetric])
  have idem: "c_str (c_str p @ replicate n 0) = c_str p" for p n by (simp add: c_str_zeros_end) (simp add: c_str_def)
  show ?thesis using assms length_c_str [of ssid] length_c_str [of pwd] cut idem
    by (simp add: connect_to_ap_def c_strlen_terminated cleared_with_eq)
qed

text \<open>C14: No datagram makes the device leave its arrays.  Under any sequence of turns, with any datagrams shorter than the buffer in which every
  key for encryption is followed by a colon and a quotation mark, and stopped at any moment, the task runs without a fault; the name, the
  password and the token it holds end inside their arrays; it has answered three times exactly if it has completed, and then the name is not empty and
  the program connects with the name and the password held.\<close>

theorem softap_stays_in_buffers:
  assumes "\<forall>d. Datagram d \<in> set ts \<longrightarrow> length d < RXTX_BUF_SIZE \<and> aes_ok d"
  shows "\<exists>t s'. softapcfg_task_entry True True True ts (demo_started s) = Some (t, s') \<and> fields_ok s'
      \<and> task_sent t = (if task_ended t = Completed then [demo_ack, demo_ack, demo_ack] else [])
      \<and> (if task_ended t = Completed
         then c_str (target_ssid s') \<noteq> [] \<and> (\<exists>c. usr_app_task_entry trng True True ts s = Some (Some c)
           \<and> c_str (sta_ssid c) = c_str (target_ssid s') \<and> c_str (sta_password c) = c_str (target_pwd s'))
         else usr_app_task_entry trng True True ts s = Some None)"
proof -
  have "fields_ok (demo_started s)" "apcfg_product (demo_started s) = demo_product" "\<not> is_complete (demo_started s)"
    by (simp_all add: demo_started_def cleared_cfg_def fields_ok_def)
  then obtain t s' where r: "softapcfg_task_entry True True True ts (demo_started s) = Some (t, s')" "fields_ok s'" "is_complete s' = (task_ended t = Completed)"
    "task_sent t = (if is_complete s' then [demo_ack, demo_ack, demo_ack] else [])" "is_complete s' \<longrightarrow> target_ssid s' ! 0 \<noteq> 0"
    using loop_any [of ts "demo_started s"] assms unfolding RXTX_BUF_SIZE_def softapcfg_task_entry_def by auto
  moreover obtain c where "connect_to_ap (target_ssid s') (target_pwd s') = Some c" "c_str (sta_ssid c) = c_str (target_ssid s')"
    "c_str (sta_password c) = c_str (target_pwd s')"
    using connect_to_ap_any r(2) unfolding fields_ok_def by blast
  moreover have "target_ssid s' ! 0 \<noteq> 0 \<longrightarrow> c_str (target_ssid s') \<noteq> []" using r(2) by (cases "target_ssid s'") (auto simp: c_str_def fields_ok_def)
  ultimately show ?thesis using usr_app_runs [OF r(1), of trng] by auto
qed

theorem softap_stays_in_buffers_witness:
  "\<exists>t s'. softapcfg_task_entry True True True [Datagram (replicate 200 34), Stop_Called, Datagram [7]] (demo_started demo_softap) = Some (t, s') \<and> fields_ok s'"
proof -
  have "aes_ok (replicate 200 34)" by (rule aes_ok_no_a) simp
  then have "\<forall>d. Datagram d \<in> set [Datagram (replicate 200 34), Stop_Called, Datagram [7]] \<longrightarrow> length d < RXTX_BUF_SIZE \<and> aes_ok d"
    by (auto simp: RXTX_BUF_SIZE_def str_bytes_def)
  from softap_stays_in_buffers [OF this, of demo_softap 0] show ?thesis by blast
qed

section \<open>Faults\<close>

text \<open>A request whose key for encryption is the last thing in it.\<close>

definition cut_request :: "byte list" where
  "cut_request = str_bytes ''{\"cmdType\":1,\"ssid\":\"Home-WiFi\",\"password\":\"12345678\",\"token\":\"6ab82618a9d529a2ee777bf6e528a0fd\",\"aes\"}''"

lemma c_strchr_zeros: "c \<noteq> 0 \<Longrightarrow> 0 < n \<Longrightarrow> c_strchr (replicate n 0) c = Some None"
  by (cases n) auto

lemma cut_request_fault: "recv_turn cut_request s = None"
proof -
  have "recv_proc (take 256 cut_request @ replicate (256 - length (take 256 cut_request)) 0) (length (take 256 cut_request)) s = None"
    by (simp add: recv_proc_def cut_request_def str_bytes_def recv_field_def behind_def recv_aes_def cleared_with_def put_run_in c_strchr_zeros
        RECV_JSON_DATA_LEN_MIN_def RECV_JSON_DATA_LEN_MAX_def WLAN_SSID_MAX_LEN_def WLAN_PWD_MAX_LEN_def TOKEN_MAX_LEN_def)
  moreover have "cut_request \<noteq> []" by (simp add: cut_request_def str_bytes_def)
  ultimately show ?thesis by (simp add: recv_turn_def RXTX_BUF_SIZE_def split: Option.bind_splits)
qed

lemma loop_stop_unseen: "softapcfg_loop (replicate n Nothing_Read) s = Some (task_polls, s)"
  by (induction n) auto


end
