(* ===== verification/Mem_Pool.thy ===== *)
theory Mem_Pool
  imports Arrays
begin

text \<open>
  The pool of fixed-size chunks, \<^verbatim>\<open>components/utils/ln_mem_pool.h\<close>, and the pool of captured frames in \<^verbatim>\<open>components/wifi/wifi_port/wifi_port.c\<close>.
  A chunk has an index byte, a flag byte and a buffer; a stack of pointers holds the free chunks.  Pointers are addresses, the null pointer
  is 0; \<open>None\<close> is an access outside the memory of the pool or the stack.  The operations run with interrupts disabled: each is one step.
\<close>

section \<open>The pool\<close>

record ln_mem_pool =
  free_chunk_cnt :: u16
  total_chunk_cnt :: u16
  chunk_size :: u16
  mem_base :: nat
  pool_mem :: "byte list"
  free_chunk_ptr :: "nat list"

definition CHUNK_BUF_FLAG_ALLOC :: byte where
  "CHUNK_BUF_FLAG_ALLOC = 0xAA"

definition CHUNK_BUF_FLAG_FREE :: byte where
  "CHUNK_BUF_FLAG_FREE = 0x55"

definition MEM_POOL_CHUNK_INFO_SIZE :: nat where
  "MEM_POOL_CHUNK_INFO_SIZE = 2"

definition pool_load :: "ln_mem_pool \<Rightarrow> nat \<Rightarrow> byte option" where
  "pool_load p a = (if mem_base p \<le> a then at_pos (pool_mem p) (a - mem_base p) else None)"

definition pool_store :: "nat \<Rightarrow> byte \<Rightarrow> ln_mem_pool \<Rightarrow> ln_mem_pool option" where
  "pool_store a b p = (if mem_base p \<le> a then map_option (\<lambda>m. p\<lparr>pool_mem := m\<rparr>) (put_pos (a - mem_base p) b (pool_mem p)) else None)"

definition pool_push :: "nat \<Rightarrow> ln_mem_pool \<Rightarrow> ln_mem_pool option" where
  "pool_push chunk p = map_option (\<lambda>ptrs. p\<lparr>free_chunk_ptr := ptrs, free_chunk_cnt := free_chunk_cnt p + 1\<rparr>)
     (put_pos (unat (free_chunk_cnt p)) chunk (free_chunk_ptr p))"

primrec pool_init_loop :: "nat list \<Rightarrow> nat \<Rightarrow> ln_mem_pool \<Rightarrow> ln_mem_pool option" where
  "pool_init_loop [] chunk p = Some p"
| "pool_init_loop (i # is) chunk p = do {
     p \<leftarrow> pool_store chunk (of_nat i) p;
     p \<leftarrow> pool_store (chunk + 1) CHUNK_BUF_FLAG_FREE p;
     p \<leftarrow> pool_push chunk p;
     pool_init_loop is (chunk + unat (chunk_size p)) p }"

definition ln_mem_pool_init :: "ln_mem_pool \<Rightarrow> ln_mem_pool option" where
  "ln_mem_pool_init p = pool_init_loop [0..<unat (total_chunk_cnt p)] (mem_base p) (p\<lparr>free_chunk_cnt := 0\<rparr>)"

text \<open>A chunk whose flag is wrong is not put back, and its address is returned as if it were a buffer.\<close>

definition ln_mem_pool_alloc :: "ln_mem_pool \<Rightarrow> (nat \<times> ln_mem_pool) option" where
  "ln_mem_pool_alloc p =
     (if free_chunk_cnt p = 0 then Some (0, p)
      else do {
        let p = p\<lparr>free_chunk_cnt := free_chunk_cnt p - 1\<rparr>;
        chunk \<leftarrow> at_pos (free_chunk_ptr p) (unat (free_chunk_cnt p));
        flag \<leftarrow> pool_load p (chunk + 1);
        if flag = CHUNK_BUF_FLAG_FREE then do {
          p \<leftarrow> pool_store (chunk + 1) CHUNK_BUF_FLAG_ALLOC p;
          Some (chunk + MEM_POOL_CHUNK_INFO_SIZE, p) }
        else Some (chunk, p) })"

definition ln_mem_pool_free :: "nat \<Rightarrow> ln_mem_pool \<Rightarrow> (bool \<times> ln_mem_pool) option" where
  "ln_mem_pool_free addr p =
     (if addr = 0 then Some (False, p)
      else do {
        let chunk = addr - MEM_POOL_CHUNK_INFO_SIZE;
        flag \<leftarrow> pool_load p (chunk + 1);
        if flag \<noteq> CHUNK_BUF_FLAG_ALLOC then Some (False, p)
        else if total_chunk_cnt p \<le> free_chunk_cnt p then Some (False, p)
        else do {
          p \<leftarrow> pool_push chunk p;
          p \<leftarrow> pool_store (chunk + 1) CHUNK_BUF_FLAG_FREE p;
          Some (True, p) } })"

section \<open>The pool of captured frames\<close>

definition SNIFFER_MEM_POOL_CHUNK_CNT :: nat where
  "SNIFFER_MEM_POOL_CHUNK_CNT = 200"

definition SNIFFER_MEM_POOL_CHUNK_BUF_SIZE :: nat where
  "SNIFFER_MEM_POOL_CHUNK_BUF_SIZE = 30"

definition SNIFFER_MEM_POOL_CHUNK_SIZE :: nat where
  "SNIFFER_MEM_POOL_CHUNK_SIZE = MEM_POOL_CHUNK_INFO_SIZE + SNIFFER_MEM_POOL_CHUNK_BUF_SIZE"

text \<open>The arrays are static ones, as the condition for the dynamic ones names a macro that does not exist; \<open>block\<close> is the address of the first.\<close>

definition sniffer_mem_pool :: ln_mem_pool where
  "sniffer_mem_pool = \<lparr>free_chunk_cnt = 0, total_chunk_cnt = 0, chunk_size = 0, mem_base = 0,
     pool_mem = replicate (SNIFFER_MEM_POOL_CHUNK_CNT * SNIFFER_MEM_POOL_CHUNK_SIZE) 0, free_chunk_ptr = replicate SNIFFER_MEM_POOL_CHUNK_CNT 0\<rparr>"

definition wlib_sniffer_mem_pool_init :: "nat \<Rightarrow> ln_mem_pool \<Rightarrow> (bool \<times> ln_mem_pool) option" where
  "wlib_sniffer_mem_pool_init block p = do {
     p \<leftarrow> ln_mem_pool_init (p\<lparr>mem_base := block, total_chunk_cnt := of_nat SNIFFER_MEM_POOL_CHUNK_CNT,
                              chunk_size := of_nat SNIFFER_MEM_POOL_CHUNK_SIZE\<rparr>);
     Some (True, p) }"

definition wlib_sniffer_mem_pool_alloc :: "ln_mem_pool \<Rightarrow> (nat \<times> ln_mem_pool) option" where
  "wlib_sniffer_mem_pool_alloc p = ln_mem_pool_alloc p"

definition wlib_sniffer_mem_pool_free :: "nat \<Rightarrow> ln_mem_pool \<Rightarrow> (bool \<times> ln_mem_pool) option" where
  "wlib_sniffer_mem_pool_free addr p = ln_mem_pool_free addr p"

definition wlib_sniffer_mem_chunk_count_get :: u16 where
  "wlib_sniffer_mem_chunk_count_get = of_nat SNIFFER_MEM_POOL_CHUNK_CNT"

definition wlib_sniffer_mem_chunk_buf_size_get :: u16 where
  "wlib_sniffer_mem_chunk_buf_size_get = of_nat SNIFFER_MEM_POOL_CHUNK_BUF_SIZE"

section \<open>What a pool promises\<close>

text \<open>
  The contract of an allocator, over its state and the set of buffers in use: a buffer that is handed out was not in use, there is none only
  when all are, a buffer in use can be given back, once, and the users' writes disturb nothing.
\<close>

locale chunk_pool =
  fixes inv :: "'p \<Rightarrow> nat set \<Rightarrow> bool"
    and chunks :: "'p \<Rightarrow> nat set"
    and alloc :: "'p \<Rightarrow> (nat \<times> 'p) option"
    and free :: "nat \<Rightarrow> 'p \<Rightarrow> (bool \<times> 'p) option"
    and wr :: "nat \<Rightarrow> nat \<Rightarrow> byte \<Rightarrow> 'p \<Rightarrow> 'p option"
  assumes in_use: "inv p H \<Longrightarrow> H \<subseteq> chunks p"
    and alloc_law: "inv p H \<Longrightarrow> \<exists>a p'. alloc p = Some (a, p') \<and> chunks p' = chunks p
      \<and> (if H = chunks p then a = 0 \<and> p' = p else a \<noteq> 0 \<and> a \<in> chunks p - H \<and> inv p' (insert a H))"
    and free_law: "inv p H \<Longrightarrow> a \<in> H \<Longrightarrow> \<exists>p'. free a p = Some (True, p') \<and> inv p' (H - {a}) \<and> chunks p' = chunks p"
    and stale_law: "inv p H \<Longrightarrow> a \<in> chunks p - H \<Longrightarrow> free a p = Some (False, p)"
    and write_law: "inv p H \<Longrightarrow> a \<in> H \<Longrightarrow> wr a k b p = Some p' \<Longrightarrow> inv p' H \<and> chunks p' = chunks p"

text \<open>What the users do: fetch a buffer, give one back, now or again, write into one.\<close>

datatype pool_op = Pool_Alloc | Pool_Free nat | Pool_Write nat nat byte

text \<open>A run over the state and the buffers in use.  \<open>None\<close> is a fault of the pool.  A buffer is given back only with an address of the pool, and
  written only by its user.\<close>

primrec pool_run :: "('p \<Rightarrow> nat set) \<Rightarrow> ('p \<Rightarrow> (nat \<times> 'p) option) \<Rightarrow> (nat \<Rightarrow> 'p \<Rightarrow> (bool \<times> 'p) option) \<Rightarrow> (nat \<Rightarrow> nat \<Rightarrow> byte \<Rightarrow> 'p \<Rightarrow> 'p option)
    \<Rightarrow> pool_op list \<Rightarrow> 'p \<times> nat set \<Rightarrow> ('p \<times> nat set) option" where
  "pool_run chunks alloc free wr [] s = Some s"
| "pool_run chunks alloc free wr (x # xs) s =
     (case s of (p, H) \<Rightarrow>
        Option.bind
          (case x of
             Pool_Alloc \<Rightarrow> map_option (\<lambda>(a, p). (p, if a = 0 then H else insert a H)) (alloc p)
           | Pool_Free a \<Rightarrow> if a \<in> chunks p then map_option (\<lambda>(ok, p). (p, if ok then H - {a} else H)) (free a p) else Some (p, H)
           | Pool_Write a k b \<Rightarrow> (case wr a k b p of Some p' \<Rightarrow> Some (if a \<in> H then p' else p, H) | None \<Rightarrow> Some (p, H)))
          (pool_run chunks alloc free wr xs))"

context chunk_pool
begin

lemma run_inv: "inv p H \<Longrightarrow> \<exists>p' H'. pool_run chunks alloc free wr xs (p, H) = Some (p', H') \<and> inv p' H' \<and> chunks p' = chunks p"
proof (induction xs arbitrary: p H)
  case (Cons x xs)
  show ?case
  proof (cases x)
    case Pool_Alloc
    obtain a p' where a: "alloc p = Some (a, p')" "chunks p' = chunks p"
      "if H = chunks p then a = 0 \<and> p' = p else a \<noteq> 0 \<and> a \<in> chunks p - H \<and> inv p' (insert a H)" using alloc_law [OF Cons.prems] by blast
    then have "inv p' (if a = 0 then H else insert a H)" using Cons.prems by (auto split: if_splits)
    then show ?thesis using Cons.IH [of p' "if a = 0 then H else insert a H"] a(1,2) Pool_Alloc by auto
  next
    case (Pool_Free a)
    consider "a \<in> H" | "a \<in> chunks p - H" | "a \<notin> chunks p" by blast
    then show ?thesis
    proof cases
      case 1
      then obtain p' where "free a p = Some (True, p')" "inv p' (H - {a})" "chunks p' = chunks p" using free_law [OF Cons.prems] by blast
      then show ?thesis using Cons.IH [of p' "H - {a}"] 1 in_use [OF Cons.prems] Pool_Free by auto
    next
      case 2
      then show ?thesis using stale_law [OF Cons.prems 2] Cons.IH [OF Cons.prems] Pool_Free by auto
    next
      case 3
      then show ?thesis using Cons.IH [OF Cons.prems] Pool_Free by auto
    qed
  next
    case (Pool_Write a k b)
    then show ?thesis
    proof (cases "\<exists>p'. a \<in> H \<and> wr a k b p = Some p'")
      case True
      then obtain p' where p': "a \<in> H" "wr a k b p = Some p'" by blast
      show ?thesis using write_law [OF Cons.prems p'] Cons.IH [of p' H] p' Pool_Write by auto
    next
      case False
      then show ?thesis using Cons.IH [OF Cons.prems] Pool_Write by (auto split: option.splits)
    qed
  qed
qed (simp add: in_use)

end

section \<open>The pool keeps its promise\<close>

definition chunk_at :: "ln_mem_pool \<Rightarrow> nat \<Rightarrow> nat" where
  "chunk_at p i = mem_base p + i * unat (chunk_size p)"

definition pool_buffers :: "ln_mem_pool \<Rightarrow> nat set" where
  "pool_buffers p = (\<lambda>i. chunk_at p i + 2) ` {..<unat (total_chunk_cnt p)}"

definition free_chunks :: "ln_mem_pool \<Rightarrow> nat list" where
  "free_chunks p = take (unat (free_chunk_cnt p)) (free_chunk_ptr p)"

definition pool_shape :: "ln_mem_pool \<Rightarrow> bool" where
  "pool_shape p \<longleftrightarrow> 2 \<le> unat (chunk_size p) \<and> length (pool_mem p) = unat (total_chunk_cnt p) * unat (chunk_size p)
     \<and> length (free_chunk_ptr p) = unat (total_chunk_cnt p) \<and> free_chunk_cnt p \<le> total_chunk_cnt p"

text \<open>Every buffer is free or in use, with the flag that says so, and the stack has each free one once.\<close>

definition chunks_ok :: "ln_mem_pool \<Rightarrow> nat set \<Rightarrow> bool" where
  "chunks_ok p H \<longleftrightarrow> pool_shape p \<and> H \<subseteq> pool_buffers p \<and> distinct (free_chunks p) \<and> (\<lambda>c. c + 2) ` set (free_chunks p) = pool_buffers p - H
     \<and> (\<forall>a \<in> H. pool_load p (a - 1) = Some CHUNK_BUF_FLAG_ALLOC) \<and> (\<forall>a \<in> pool_buffers p - H. pool_load p (a - 1) = Some CHUNK_BUF_FLAG_FREE)"

text \<open>The user of a buffer writes its bytes.\<close>

definition pool_write :: "nat \<Rightarrow> nat \<Rightarrow> byte \<Rightarrow> ln_mem_pool \<Rightarrow> ln_mem_pool option" where
  "pool_write a k b p = (if k + 2 < unat (chunk_size p) then pool_store (a + k) b p else None)"

lemma pool_store_fields:
  assumes "pool_store a b p = Some p'"
  shows "free_chunk_cnt p' = free_chunk_cnt p" "total_chunk_cnt p' = total_chunk_cnt p" "chunk_size p' = chunk_size p" "mem_base p' = mem_base p"
    "free_chunk_ptr p' = free_chunk_ptr p" "length (pool_mem p') = length (pool_mem p)" "pool_buffers p' = pool_buffers p"
    "pool_load p' x = (if x = a then Some b else pool_load p x)" "pool_shape p' = pool_shape p" "free_chunks p' = free_chunks p"
  using assms
  by (auto simp: pool_store_def put_pos_def pool_buffers_def chunk_at_def pool_load_def at_pos_def pool_shape_def free_chunks_def
      split: if_splits)

lemma pool_store_in: "pool_load p a = Some c \<Longrightarrow> \<exists>p'. pool_store a b p = Some p'"
  by (auto simp: pool_load_def pool_store_def at_pos_def put_pos_def split: if_splits)

lemma chunk_inj: "pool_shape p \<Longrightarrow> inj (\<lambda>i. chunk_at p i + 2)"
  by (auto simp: inj_def chunk_at_def pool_shape_def)

lemma buffers_finite: "finite (pool_buffers p)"
  by (simp add: pool_buffers_def)

lemma card_buffers: "pool_shape p \<Longrightarrow> card (pool_buffers p) = unat (total_chunk_cnt p)"
  unfolding pool_buffers_def using chunk_inj [of p] by (simp add: card_image inj_on_subset)

lemma free_count:
  assumes "chunks_ok p H"
  shows "unat (free_chunk_cnt p) = card (pool_buffers p - H)" "length (free_chunks p) = unat (free_chunk_cnt p)"
proof -
  show l: "length (free_chunks p) = unat (free_chunk_cnt p)" using assms by (simp add: chunks_ok_def free_chunks_def pool_shape_def word_le_nat_alt)
  have "card ((\<lambda>c. c + 2) ` set (free_chunks p)) = card (set (free_chunks p))" by (rule card_image) (simp add: inj_on_def)
  then show "unat (free_chunk_cnt p) = card (pool_buffers p - H)" using assms l distinct_card [of "free_chunks p"] by (simp add: chunks_ok_def)
qed

lemma buffer_two: "a \<in> pool_buffers p \<Longrightarrow> 2 \<le> a"
  by (auto simp: pool_buffers_def)

lemma flag_free:
  assumes "chunks_ok p H" "c + 2 \<in> pool_buffers p - H"
  shows "pool_load p (c + 1) = Some CHUNK_BUF_FLAG_FREE"
proof -
  have "\<forall>a \<in> pool_buffers p - H. pool_load p (a - 1) = Some CHUNK_BUF_FLAG_FREE" using assms(1) by (simp add: chunks_ok_def)
  from bspec [OF this assms(2)] show ?thesis by simp
qed

lemma flag_alloc:
  assumes "chunks_ok p H" "c + 2 \<in> H"
  shows "pool_load p (c + 1) = Some CHUNK_BUF_FLAG_ALLOC"
proof -
  have "\<forall>a \<in> H. pool_load p (a - 1) = Some CHUNK_BUF_FLAG_ALLOC" using assms(1) by (simp add: chunks_ok_def)
  from bspec [OF this assms(2)] show ?thesis by simp
qed

lemma pool_alloc_ok:
  assumes ok: "chunks_ok p H"
  shows "\<exists>a p'. ln_mem_pool_alloc p = Some (a, p') \<and> pool_buffers p' = pool_buffers p
    \<and> (if H = pool_buffers p then a = 0 \<and> p' = p else a \<noteq> 0 \<and> a \<in> pool_buffers p - H \<and> chunks_ok p' (insert a H))"
proof (cases "free_chunk_cnt p = 0")
  case True
  then have "H = pool_buffers p" using free_count(1) [OF ok] ok buffers_finite [of p] by (auto simp: chunks_ok_def)
  then show ?thesis using True by (simp add: ln_mem_pool_alloc_def)
next
  case False
  let ?n = "unat (free_chunk_cnt p)" and ?q = "p\<lparr>free_chunk_cnt := free_chunk_cnt p - 1\<rparr>"
  have n: "0 < ?n" "unat (free_chunk_cnt p - 1) = ?n - 1" "?n \<le> length (free_chunk_ptr p)"
    using False ok by (auto simp: unat_minus_one unat_gt_0 chunks_ok_def pool_shape_def word_le_nat_alt)
  let ?c = "free_chunk_ptr p ! (?n - 1)"
  have fc: "free_chunks p = free_chunks ?q @ [?c]"
    using n take_Suc_conv_app_nth [of "?n - 1" "free_chunk_ptr p"] by (simp add: free_chunks_def)
  have c: "?c + 2 \<in> pool_buffers p - H" "?c \<notin> set (free_chunks ?q)" using ok fc by (auto simp: chunks_ok_def)
  have fl: "pool_load p (?c + 1) = Some CHUNK_BUF_FLAG_FREE" by (rule flag_free [OF ok c(1)])
  have q: "pool_load ?q x = pool_load p x" "pool_buffers ?q = pool_buffers p" for x by (simp_all add: pool_load_def pool_buffers_def chunk_at_def)
  obtain p' where p': "pool_store (?c + 1) CHUNK_BUF_FLAG_ALLOC ?q = Some p'" using pool_store_in fl q(1) by metis
  note f = pool_store_fields [OF p']
  have "ln_mem_pool_alloc p = Some (?c + 2, p')"
    using False fl q(1) p' n by (simp add: ln_mem_pool_alloc_def array_simps MEM_POOL_CHUNK_INFO_SIZE_def)
  moreover have "chunks_ok p' (insert (?c + 2) H)"
  proof -
    have "pool_shape ?q" using ok n by (simp add: chunks_ok_def pool_shape_def word_le_nat_alt le_diff_conv)
    moreover have "(\<lambda>c. c + 2) ` set (free_chunks ?q) = pool_buffers p - insert (?c + 2) H"
      using ok fc c(2) unfolding chunks_ok_def by auto
    moreover have "pool_load p' (a - 1) = Some CHUNK_BUF_FLAG_ALLOC" if "a \<in> insert (?c + 2) H" for a using that ok f(8) q(1) by (auto simp: chunks_ok_def)
    moreover have "pool_load p' (a - 1) = Some CHUNK_BUF_FLAG_FREE" if "a \<in> pool_buffers p - insert (?c + 2) H" for a
    proof -
      have "a - 1 \<noteq> ?c + 1" using that buffer_two [of a p] by auto
      then show ?thesis using that ok f(8) q(1) by (auto simp: chunks_ok_def)
    qed
    ultimately show ?thesis using ok fc c(1) f q(2) by (auto simp: chunks_ok_def)
  qed
  moreover have "H \<noteq> pool_buffers p" using c(1) by blast
  ultimately show ?thesis using c(1) f(7) q(2) by auto
qed

lemma pool_free_ok:
  assumes ok: "chunks_ok p H" and a: "a \<in> H"
  shows "\<exists>p'. ln_mem_pool_free a p = Some (True, p') \<and> chunks_ok p' (H - {a}) \<and> pool_buffers p' = pool_buffers p"
proof -
  define c where "c = a - 2"
  have ac: "a = c + 2" using a ok buffer_two [of a p] by (auto simp: chunks_ok_def c_def)
  have fl: "pool_load p (c + 1) = Some CHUNK_BUF_FLAG_ALLOC" using flag_alloc [OF ok] a ac by blast
  let ?n = "unat (free_chunk_cnt p)"
  let ?q = "p\<lparr>free_chunk_ptr := (free_chunk_ptr p)[?n := c], free_chunk_cnt := free_chunk_cnt p + 1\<rparr>"
  have inb: "a \<in> pool_buffers p" using a ok by (auto simp: chunks_ok_def)
  have "card (pool_buffers p - H) < card (pool_buffers p)" by (rule psubset_card_mono [OF buffers_finite]) (use a inb in blast)
  then have n: "?n < unat (total_chunk_cnt p)" using free_count(1) [OF ok] card_buffers [of p] ok by (simp add: chunks_ok_def)
  have sh: "pool_shape p" using ok by (simp add: chunks_ok_def)
  have "unat (total_chunk_cnt p) < 65536" using unsigned_less [of "total_chunk_cnt p"] by simp
  then have n1: "unat (free_chunk_cnt p + 1) = ?n + 1" using n by (simp add: unat_word_ariths)
  have push: "pool_push c p = Some ?q" using n sh by (simp add: pool_push_def array_simps pool_shape_def)
  have q: "pool_load ?q x = pool_load p x" "pool_buffers ?q = pool_buffers p" for x by (simp_all add: pool_load_def pool_buffers_def chunk_at_def)
  obtain p' where p': "pool_store (c + 1) CHUNK_BUF_FLAG_FREE ?q = Some p'" using pool_store_in fl q(1) by metis
  note f = pool_store_fields [OF p']
  have fc: "free_chunks ?q = free_chunks p @ [c]" using n n1 sh by (simp add: free_chunks_def pool_shape_def take_Suc_conv_app_nth)
  have img: "(\<lambda>c. c + 2) ` set (free_chunks p) = pool_buffers p - H" "distinct (free_chunks p)" using ok by (simp_all add: chunks_ok_def)
  have "c \<notin> set (free_chunks p)" using img(1) a ac by blast
  then have d: "distinct (free_chunks ?q)" "(\<lambda>c. c + 2) ` set (free_chunks ?q) = pool_buffers p - (H - {a})"
    unfolding fc using img a ac inb by auto
  have shq: "pool_shape ?q" using sh n n1 by (simp add: pool_shape_def word_le_nat_alt)
  have other: "pool_load p' (x - 1) = pool_load p (x - 1)" if "x \<in> pool_buffers p" "x \<noteq> a" for x
  proof -
    have "x - 1 \<noteq> c + 1" using that(2) buffer_two [OF that(1)] ac by simp
    then show ?thesis using f(8) q(1) by simp
  qed
  have "chunks_ok p' (H - {a})"
    unfolding chunks_ok_def f(7,9,10) q(2)
  proof (intro conjI ballI)
    show "pool_load p' (x - 1) = Some CHUNK_BUF_FLAG_ALLOC" if "x \<in> H - {a}" for x
      using other [of x] that ok by (auto simp: chunks_ok_def)
    show "pool_load p' (x - 1) = Some CHUNK_BUF_FLAG_FREE" if "x \<in> pool_buffers p - (H - {a})" for x
      using other [of x] that ok f(8) ac by (cases "x = a") (auto simp: chunks_ok_def)
    show "H - {a} \<subseteq> pool_buffers p" using ok by (auto simp: chunks_ok_def)
  qed (use shq d in auto)
  moreover have "ln_mem_pool_free a p = Some (True, p')"
    using fl n push p' ac by (simp add: ln_mem_pool_free_def MEM_POOL_CHUNK_INFO_SIZE_def word_le_nat_alt)
  ultimately show ?thesis using f(7) q(2) by simp
qed

lemma pool_stale:
  assumes "chunks_ok p H" "a \<in> pool_buffers p - H"
  shows "ln_mem_pool_free a p = Some (False, p)"
proof -
  define c where "c = a - 2"
  have ac: "a = c + 2" using assms(2) buffer_two [of a p] by (auto simp: c_def)
  have "pool_load p (c + 1) = Some CHUNK_BUF_FLAG_FREE" using flag_free [OF assms(1)] assms(2) ac by blast
  then show ?thesis using ac by (simp add: ln_mem_pool_free_def MEM_POOL_CHUNK_INFO_SIZE_def CHUNK_BUF_FLAG_FREE_def CHUNK_BUF_FLAG_ALLOC_def)
qed

text \<open>A byte of a buffer is no flag of any chunk.\<close>

lemma buffer_no_flag:
  assumes "a \<in> pool_buffers p" "x \<in> pool_buffers p" "k + 2 < unat (chunk_size p)"
  shows "x - 1 \<noteq> a + k"
proof
  let ?s = "unat (chunk_size p)"
  obtain i j where ij: "a = mem_base p + i * ?s + 2" "x = mem_base p + j * ?s + 2" using assms(1,2) by (auto simp: pool_buffers_def chunk_at_def)
  assume "x - 1 = a + k"
  then have "1 + j * ?s = (k + 2) + i * ?s" using ij by simp
  then have "(1 + j * ?s) mod ?s = ((k + 2) + i * ?s) mod ?s" by (rule arg_cong)
  then show False using assms(3) by (simp only: mod_mult_self1) simp
qed

lemma pool_write_ok:
  assumes "chunks_ok p H" "a \<in> H" "pool_write a k b p = Some p'"
  shows "chunks_ok p' H \<and> pool_buffers p' = pool_buffers p"
proof -
  have k: "k + 2 < unat (chunk_size p)" "pool_store (a + k) b p = Some p'" using assms(3) by (simp_all add: pool_write_def split: if_splits)
  note f = pool_store_fields [OF k(2)]
  have "pool_load p' (x - 1) = pool_load p (x - 1)" if "x \<in> pool_buffers p" for x
    using buffer_no_flag [OF _ that k(1)] assms(1,2) f(8) by (auto simp: chunks_ok_def)
  then show ?thesis using assms(1) f unfolding chunks_ok_def by (metis (no_types, lifting) DiffD1 subsetD)
qed

interpretation frame_pool: chunk_pool chunks_ok pool_buffers ln_mem_pool_alloc ln_mem_pool_free pool_write
  by unfold_locales (simp add: chunks_ok_def, rule pool_alloc_ok, assumption, rule pool_free_ok, assumption+, rule pool_stale, assumption+,
      rule pool_write_ok, assumption+)

section \<open>Setting up\<close>

text \<open>The first \<open>i\<close> chunks are set up.\<close>

definition pool_upto :: "ln_mem_pool \<Rightarrow> nat \<Rightarrow> bool" where
  "pool_upto p i \<longleftrightarrow> pool_shape p \<and> unat (free_chunk_cnt p) = i \<and> free_chunks p = map (chunk_at p) [0..<i]
     \<and> (\<forall>j < i. pool_load p (chunk_at p j + 1) = Some CHUNK_BUF_FLAG_FREE)"

lemma chunk_inside:
  assumes "pool_shape p" "i < unat (total_chunk_cnt p)" "k < unat (chunk_size p)"
  shows "\<exists>p'. pool_store (chunk_at p i + k) b p = Some p'"
proof -
  have "i * unat (chunk_size p) + k < (i + 1) * unat (chunk_size p)" using assms(3) by simp
  also have "\<dots> \<le> unat (total_chunk_cnt p) * unat (chunk_size p)" using assms(2) by (intro mult_right_mono) simp_all
  finally show ?thesis using assms(1) by (simp add: pool_store_def chunk_at_def put_pos_def pool_shape_def)
qed

lemma store_chunk_at: "pool_store a b p = Some p' \<Longrightarrow> chunk_at p' = chunk_at p"
  by (auto simp: fun_eq_iff chunk_at_def pool_store_fields)

lemma init_chunk:
  assumes up: "pool_upto p i" and i: "i < unat (total_chunk_cnt p)"
  shows "\<exists>p1 p2 p3. pool_store (chunk_at p i) b p = Some p1 \<and> pool_store (chunk_at p i + 1) CHUNK_BUF_FLAG_FREE p1 = Some p2
    \<and> pool_push (chunk_at p i) p2 = Some p3 \<and> pool_upto p3 (Suc i) \<and> chunk_at p3 = chunk_at p \<and> total_chunk_cnt p3 = total_chunk_cnt p"
proof -
  have sh: "pool_shape p" "2 \<le> unat (chunk_size p)" using up by (simp_all add: pool_upto_def pool_shape_def)
  obtain p1 where p1: "pool_store (chunk_at p i + 0) b p = Some p1" using chunk_inside [OF sh(1) i, of 0 b] sh(2) by auto
  note f1 = pool_store_fields [OF p1]
  obtain p2 where p2: "pool_store (chunk_at p1 i + 1) CHUNK_BUF_FLAG_FREE p1 = Some p2"
    using chunk_inside [of p1 i 1 CHUNK_BUF_FLAG_FREE] f1 sh i by auto
  note f2 = pool_store_fields [OF p2]
  have c: "chunk_at p1 = chunk_at p" "chunk_at p2 = chunk_at p" using store_chunk_at [OF p1] store_chunk_at [OF p2] by simp_all
  let ?p3 = "p2\<lparr>free_chunk_ptr := (free_chunk_ptr p)[i := chunk_at p i], free_chunk_cnt := free_chunk_cnt p + 1\<rparr>"
  have n: "unat (free_chunk_cnt p) = i" "length (free_chunk_ptr p) = unat (total_chunk_cnt p)" using up by (simp_all add: pool_upto_def pool_shape_def)
  have "unat (total_chunk_cnt p) < 65536" using unsigned_less [of "total_chunk_cnt p"] by simp
  then have n1: "unat (free_chunk_cnt p + 1) = Suc i" using n(1) i by (simp add: unat_word_ariths)
  have p3: "pool_push (chunk_at p i) p2 = Some ?p3" using f1 f2 n i by (simp add: pool_push_def array_simps)
  have c3: "chunk_at ?p3 = chunk_at p" "pool_load ?p3 x = pool_load p2 x" for x using c(2) by (auto simp: fun_eq_iff chunk_at_def pool_load_def)
  have "pool_load p2 (chunk_at p j + 1) = Some CHUNK_BUF_FLAG_FREE" if "j < Suc i" for j
  proof (cases "j = i")
    case False
    then have "chunk_at p j + 1 \<noteq> chunk_at p i"
    proof -
      have "Suc j * unat (chunk_size p) \<le> i * unat (chunk_size p)" using False that by (intro mult_le_mono1) simp
      then show ?thesis using sh(2) by (simp add: chunk_at_def)
    qed
    then show ?thesis using False that up f1(8) f2(8) c(1) by (auto simp: pool_upto_def)
  qed (use f2(8) c(1) in simp)
  moreover have "free_chunks ?p3 = map (chunk_at p) [0..<Suc i]"
    using up n n1 i by (simp add: pool_upto_def free_chunks_def take_Suc_conv_app_nth)
  moreover have "pool_shape ?p3" using f1 f2 sh(1) n n1 i by (simp add: pool_shape_def word_le_nat_alt)
  ultimately have "pool_upto ?p3 (Suc i)" using n1 c3 by (simp add: pool_upto_def)
  then show ?thesis using p1 p2 p3 c(1) c3(1) f1(2) f2(2) by auto
qed

lemma init_loop:
  "pool_upto p i \<Longrightarrow> i + n = unat (total_chunk_cnt p) \<Longrightarrow>
     \<exists>p'. pool_init_loop [i..<i + n] (chunk_at p i) p = Some p' \<and> pool_upto p' (i + n) \<and> chunk_at p' = chunk_at p \<and> total_chunk_cnt p' = total_chunk_cnt p"
proof (induction n arbitrary: i p)
  case (Suc n)
  obtain p1 p2 p3 where p: "pool_store (chunk_at p i) (of_nat i) p = Some p1" "pool_store (chunk_at p i + 1) CHUNK_BUF_FLAG_FREE p1 = Some p2"
    "pool_push (chunk_at p i) p2 = Some p3" "pool_upto p3 (Suc i)" "chunk_at p3 = chunk_at p" "total_chunk_cnt p3 = total_chunk_cnt p"
    using init_chunk [OF Suc.prems(1), of "of_nat i"] Suc.prems(2) by auto
  have "chunk_at p i + unat (chunk_size p3) = chunk_at p3 (Suc i)" using fun_cong [OF p(5), of i] by (simp add: chunk_at_def)
  moreover have "[i..<i + Suc n] = i # [Suc i..<Suc i + n]" by (simp add: upt_conv_Cons)
  ultimately have "pool_init_loop [i..<i + Suc n] (chunk_at p i) p = pool_init_loop [Suc i..<Suc i + n] (chunk_at p3 (Suc i)) p3"
    using p(1-3) by (simp del: upt_Suc)
  then show ?case using Suc.IH [OF p(4)] Suc.prems(2) p(5,6) by (simp del: upt_Suc)
qed simp

lemma pool_init_ok:
  assumes "pool_shape (p\<lparr>free_chunk_cnt := 0\<rparr>)"
  shows "\<exists>p'. ln_mem_pool_init p = Some p' \<and> chunks_ok p' {} \<and> chunk_at p' = chunk_at p \<and> total_chunk_cnt p' = total_chunk_cnt p"
proof -
  let ?p = "p\<lparr>free_chunk_cnt := 0\<rparr>" and ?n = "unat (total_chunk_cnt p)"
  have "pool_upto ?p 0" using assms by (simp add: pool_upto_def free_chunks_def)
  then obtain p' where p': "pool_init_loop [0..<?n] (mem_base p) ?p = Some p'" "pool_upto p' ?n" "chunk_at p' = chunk_at ?p" "total_chunk_cnt p' = total_chunk_cnt p"
    using init_loop [of ?p 0 ?n] by (auto simp: chunk_at_def)
  have c: "chunk_at ?p = chunk_at p" by (simp add: fun_eq_iff chunk_at_def)
  have "distinct (map (chunk_at p') [0..<?n])" using chunk_inj [of p'] p'(2) by (auto simp: distinct_map inj_on_def pool_upto_def inj_def)
  moreover have "(\<lambda>c. c + 2) ` set (map (chunk_at p') [0..<?n]) = pool_buffers p'" using p'(4) by (auto simp: pool_buffers_def image_image)
  moreover have "pool_load p' (a - 1) = Some CHUNK_BUF_FLAG_FREE" if "a \<in> pool_buffers p'" for a
    using that p'(2,4) by (auto simp: pool_buffers_def pool_upto_def)
  ultimately have "chunks_ok p' {}" using p'(2) by (simp add: chunks_ok_def pool_upto_def)
  then show ?thesis using p'(1,3,4) c by (simp add: ln_mem_pool_init_def)
qed

text \<open>C16: Whoever fetches, gives back and writes buffers of captured frames in whatever order, also giving one back twice: the pool never leaves
  its memory; it hands out a buffer that lies in the memory and shares no byte with a buffer in use, and none only when all two hundred are in use; and
  the count of free chunks is exact.\<close>

theorem sniffer_pool_exclusive:
  "\<exists>p. wlib_sniffer_mem_pool_init block sniffer_mem_pool = Some (True, p)
     \<and> (\<forall>ops. \<exists>q H. pool_run pool_buffers wlib_sniffer_mem_pool_alloc wlib_sniffer_mem_pool_free pool_write ops (p, {}) = Some (q, H)
         \<and> H \<subseteq> (\<lambda>i. block + 32 * i + 2) ` {..<200} \<and> unat (free_chunk_cnt q) + card H = 200
         \<and> (\<exists>a r. wlib_sniffer_mem_pool_alloc q = Some (a, r)
              \<and> (if card H = 200 then a = 0
                 else {a..<a + 30} \<subseteq> {block..<block + 6400} \<and> {a..<a + 30} \<inter> (\<Union>b \<in> H. {b..<b + 30}) = {})))"
proof -
  let ?p = "sniffer_mem_pool\<lparr>mem_base := block, total_chunk_cnt := of_nat SNIFFER_MEM_POOL_CHUNK_CNT, chunk_size := of_nat SNIFFER_MEM_POOL_CHUNK_SIZE\<rparr>"
  note sizes = SNIFFER_MEM_POOL_CHUNK_CNT_def SNIFFER_MEM_POOL_CHUNK_SIZE_def SNIFFER_MEM_POOL_CHUNK_BUF_SIZE_def MEM_POOL_CHUNK_INFO_SIZE_def
  have "pool_shape (?p\<lparr>free_chunk_cnt := 0\<rparr>)" by (simp add: pool_shape_def sniffer_mem_pool_def sizes)
  then obtain p where p: "ln_mem_pool_init ?p = Some p" "chunks_ok p {}" "chunk_at p = chunk_at ?p" "total_chunk_cnt p = total_chunk_cnt ?p"
    using pool_init_ok [of ?p] by auto
  have bufs: "pool_buffers p = (\<lambda>i. block + 32 * i + 2) ` {..<200}"
    using p(3,4) by (simp add: pool_buffers_def chunk_at_def sizes mult.commute)
  have "\<exists>q H. pool_run pool_buffers wlib_sniffer_mem_pool_alloc wlib_sniffer_mem_pool_free pool_write ops (p, {}) = Some (q, H)
         \<and> H \<subseteq> (\<lambda>i. block + 32 * i + 2) ` {..<200} \<and> unat (free_chunk_cnt q) + card H = 200
         \<and> (\<exists>a r. wlib_sniffer_mem_pool_alloc q = Some (a, r)
              \<and> (if card H = 200 then a = 0
                 else {a..<a + 30} \<subseteq> {block..<block + 6400} \<and> {a..<a + 30} \<inter> (\<Union>b \<in> H. {b..<b + 30}) = {}))" for ops
  proof -
    have same: "wlib_sniffer_mem_pool_alloc = ln_mem_pool_alloc" "wlib_sniffer_mem_pool_free = ln_mem_pool_free"
      by (simp_all add: fun_eq_iff wlib_sniffer_mem_pool_alloc_def wlib_sniffer_mem_pool_free_def)
    obtain q H where q: "pool_run pool_buffers ln_mem_pool_alloc ln_mem_pool_free pool_write ops (p, {}) = Some (q, H)" "chunks_ok q H"
      "pool_buffers q = pool_buffers p" using frame_pool.run_inv [OF p(2), of ops] by auto
    have H: "H \<subseteq> pool_buffers p" "finite H" "card (pool_buffers p) = 200"
      using frame_pool.in_use [OF q(2)] q(3) finite_subset [OF _ buffers_finite [of p]] bufs by (auto simp: card_image inj_on_def)
    have cnt: "unat (free_chunk_cnt q) + card H = 200" using free_count(1) [OF q(2)] q(3) H card_mono [OF buffers_finite [of p] H(1)] by (simp add: card_Diff_subset)
    have full: "card H = 200 \<longleftrightarrow> H = pool_buffers q" using H q(3) card_subset_eq [OF buffers_finite [of p] H(1)] by auto
    obtain a r where a: "ln_mem_pool_alloc q = Some (a, r)" "if H = pool_buffers q then a = 0 \<and> r = q else a \<noteq> 0 \<and> a \<in> pool_buffers q - H \<and> chunks_ok r (insert a H)"
      using pool_alloc_ok [OF q(2)] by blast
    show ?thesis
    proof (cases "card H = 200")
      case True
      then show ?thesis using q(1) cnt H(1) a full bufs unfolding same by auto
    next
      case False
      then have a': "a \<in> pool_buffers p" "a \<notin> H" using a(2) full q(3) by auto
      then obtain i where i: "a = block + 32 * i + 2" "i < 200" unfolding bufs by auto
      have "{a..<a + 30} \<inter> {b..<b + 30} = {}" if b: "b \<in> H" for b
      proof -
        obtain j where j: "b = block + 32 * j + 2" using b H(1) unfolding bufs by blast
        then have "j \<noteq> i" using b a'(2) i(1) by blast
        then show ?thesis using i(1) j by (cases "i < j") auto
      qed
      then have "{a..<a + 30} \<inter> (\<Union>b \<in> H. {b..<b + 30}) = {}" by blast
      moreover have "{a..<a + 30} \<subseteq> {block..<block + 6400}" using i by auto
      ultimately show ?thesis using q(1) cnt H(1) a(1) False unfolding same bufs by simp
    qed
  qed
  then show ?thesis using p(1) by (simp add: wlib_sniffer_mem_pool_init_def)
qed

text \<open>An address is not checked to be one of a chunk: a user who wrote 0xAA into his buffer can give back the address behind it, and the buffers
  handed out next overlap his.\<close>

lemma pool_forged_free:
  "(do {
      p \<leftarrow> ln_mem_pool_init \<lparr>free_chunk_cnt = 0, total_chunk_cnt = 2, chunk_size = 8, mem_base = 100, pool_mem = replicate 16 0, free_chunk_ptr = [0, 0]\<rparr>;
      (a, p) \<leftarrow> ln_mem_pool_alloc p;
      p \<leftarrow> pool_write a 0 0xAA p;
      (ok, p) \<leftarrow> ln_mem_pool_free (a + 1) p;
      (b, p) \<leftarrow> ln_mem_pool_alloc p;
      Some (a, ok, b) }) = Some (110, True, 111)"
  by code_simp

end
