(* ===== verification/Ln_List.thy ===== *)
theory Ln_List
  imports Prelude
begin

text \<open>
  The doubly linked ring, \<^verbatim>\<open>components/utils/ln_list.h\<close>, over a heap of links.  Nodes are addresses; the entry that contains a node is named by it.
  Every operation on the ring is an operation on the list of its nodes.
\<close>

section \<open>Operations\<close>

record ln_list =
  l_next :: "nat \<Rightarrow> nat"
  l_prev :: "nat \<Rightarrow> nat"

definition set_next :: "nat \<Rightarrow> nat \<Rightarrow> ln_list \<Rightarrow> ln_list" where
  "set_next x y h = h\<lparr>l_next := (l_next h)(x := y)\<rparr>"

definition set_prev :: "nat \<Rightarrow> nat \<Rightarrow> ln_list \<Rightarrow> ln_list" where
  "set_prev x y h = h\<lparr>l_prev := (l_prev h)(x := y)\<rparr>"

definition ln_list_init :: "nat \<Rightarrow> ln_list \<Rightarrow> ln_list" where
  "ln_list_init list_head h = set_prev list_head list_head (set_next list_head list_head h)"

definition ln_is_list_empty :: "nat \<Rightarrow> ln_list \<Rightarrow> bool" where
  "ln_is_list_empty list h = (l_next h list = list)"

definition ln_list_insert :: "nat \<Rightarrow> nat \<Rightarrow> ln_list \<Rightarrow> ln_list" where
  "ln_list_insert head element h =
     (let h = set_prev element (l_prev h head) h;
          h = set_next element head h;
          h = set_next (l_prev h head) element h in
      set_prev head element h)"

definition ln_list_add :: "nat \<Rightarrow> nat \<Rightarrow> ln_list \<Rightarrow> ln_list" where
  "ln_list_add head element h =
     (let h = set_prev element head h;
          h = set_next element (l_next h head) h;
          h = set_prev (l_next h head) element h in
      set_next head element h)"

definition ln_list_rm :: "nat \<Rightarrow> ln_list \<Rightarrow> ln_list" where
  "ln_list_rm element h =
     (let h = set_next (l_prev h element) (l_next h element) h in
      set_prev (l_next h element) (l_prev h element) h)"

definition ln_list_rm_init :: "nat \<Rightarrow> ln_list \<Rightarrow> ln_list" where
  "ln_list_rm_init element h = set_next element element (set_prev element element (ln_list_rm element h))"

text \<open>The loops over the entries, with a body that changes the heap.  The result is the heap and the entries visited; it is \<open>None\<close> when there are
  more than \<open>n\<close> of them.\<close>

fun for_each_entry :: "nat \<Rightarrow> (nat \<Rightarrow> ln_list \<Rightarrow> ln_list) \<Rightarrow> nat \<Rightarrow> nat \<Rightarrow> ln_list \<Rightarrow> (nat list \<times> ln_list) option" where
  "for_each_entry n body list entry h =
     (if entry = list then Some ([], h)
      else case n of 0 \<Rightarrow> None
        | Suc m \<Rightarrow> let h = body entry h in map_option (\<lambda>(xs, h). (entry # xs, h)) (for_each_entry m body list (l_next h entry) h))"

definition LN_LIST_FOR_EACH_ENTRY :: "nat \<Rightarrow> (nat \<Rightarrow> ln_list \<Rightarrow> ln_list) \<Rightarrow> nat \<Rightarrow> ln_list \<Rightarrow> (nat list \<times> ln_list) option" where
  "LN_LIST_FOR_EACH_ENTRY n body list h = for_each_entry n body list (l_next h list) h"

fun for_each_entry_reverse :: "nat \<Rightarrow> (nat \<Rightarrow> ln_list \<Rightarrow> ln_list) \<Rightarrow> nat \<Rightarrow> nat \<Rightarrow> ln_list \<Rightarrow> (nat list \<times> ln_list) option" where
  "for_each_entry_reverse n body list entry h =
     (if entry = list then Some ([], h)
      else case n of 0 \<Rightarrow> None
        | Suc m \<Rightarrow> let h = body entry h in map_option (\<lambda>(xs, h). (entry # xs, h)) (for_each_entry_reverse m body list (l_prev h entry) h))"

definition LN_LIST_FOR_EACH_ENTRY_REVERSE :: "nat \<Rightarrow> (nat \<Rightarrow> ln_list \<Rightarrow> ln_list) \<Rightarrow> nat \<Rightarrow> ln_list \<Rightarrow> (nat list \<times> ln_list) option" where
  "LN_LIST_FOR_EACH_ENTRY_REVERSE n body list h = for_each_entry_reverse n body list (l_prev h list) h"

fun for_each_entry_safe :: "nat \<Rightarrow> (nat \<Rightarrow> ln_list \<Rightarrow> ln_list) \<Rightarrow> nat \<Rightarrow> nat \<Rightarrow> nat \<Rightarrow> ln_list \<Rightarrow> (nat list \<times> ln_list) option" where
  "for_each_entry_safe n body list entry tmp h =
     (if entry = list then Some ([], h)
      else case n of 0 \<Rightarrow> None
        | Suc m \<Rightarrow> let h = body entry h in map_option (\<lambda>(xs, h). (entry # xs, h)) (for_each_entry_safe m body list tmp (l_next h tmp) h))"

definition LN_LIST_FOR_EACH_ENTRY_SAFE :: "nat \<Rightarrow> (nat \<Rightarrow> ln_list \<Rightarrow> ln_list) \<Rightarrow> nat \<Rightarrow> ln_list \<Rightarrow> (nat list \<times> ln_list) option" where
  "LN_LIST_FOR_EACH_ENTRY_SAFE n body list h = for_each_entry_safe n body list (l_next h list) (l_next h (l_next h list)) h"

lemmas set_link_defs = set_next_def set_prev_def

section \<open>Rings\<close>

text \<open>The links of a ring are those of the list of its nodes, in both directions.\<close>

primrec seg :: "ln_list \<Rightarrow> nat \<Rightarrow> nat list \<Rightarrow> nat \<Rightarrow> bool" where
  "seg h a [] b \<longleftrightarrow> l_next h a = b \<and> l_prev h b = a"
| "seg h a (x # xs) b \<longleftrightarrow> l_next h a = x \<and> l_prev h x = a \<and> seg h x xs b"

definition ring :: "ln_list \<Rightarrow> nat \<Rightarrow> nat list \<Rightarrow> bool" where
  "ring h head xs \<longleftrightarrow> distinct (head # xs) \<and> seg h head xs head"

lemma seg_append [simp]: "seg h a (xs @ y # ys) b \<longleftrightarrow> seg h a xs y \<and> seg h y ys b"
  by (induction xs arbitrary: a) auto

text \<open>A segment depends on the forward links of its nodes but the last and on the backward links of its nodes but the first.\<close>

lemma seg_frame:
  assumes "\<And>x. x \<in> insert a (set xs) \<Longrightarrow> l_next h' x = l_next h x" "\<And>x. x \<in> insert b (set xs) \<Longrightarrow> l_prev h' x = l_prev h x"
  shows "seg h' a xs b = seg h a xs b"
  using assms
proof (induction xs arbitrary: a)
  case (Cons x xs)
  have "seg h' x xs b = seg h x xs b" by (intro Cons.IH) (auto simp: Cons.prems)
  then show ?case using Cons.prems by auto
qed simp

lemma ring_init: "ring (ln_list_init head h) head []"
  by (simp add: ring_def ln_list_init_def set_link_defs)

lemma ring_empty: "ring h head xs \<Longrightarrow> ln_is_list_empty head h = (xs = [])"
  by (cases xs) (auto simp: ring_def ln_is_list_empty_def)

lemma ring_insert:
  assumes "ring h head xs" "e \<notin> set (head # xs)"
  shows "ring (ln_list_insert head e h) head (xs @ [e])"
proof (cases xs rule: rev_cases)
  case Nil
  then show ?thesis using assms by (auto simp: ring_def ln_list_insert_def set_link_defs)
next
  case (snoc ys z)
  have z: "l_prev h head = z" "l_next h z = head" using assms(1) snoc by (simp_all add: ring_def)
  have "seg (ln_list_insert head e h) head ys z = seg h head ys z"
    by (rule seg_frame) (use assms snoc z in \<open>auto simp: ring_def ln_list_insert_def set_link_defs\<close>)
  moreover have "seg (ln_list_insert head e h) z [e] head" using assms snoc z by (auto simp: ring_def ln_list_insert_def set_link_defs)
  ultimately show ?thesis using assms snoc by (auto simp: ring_def)
qed

lemma ring_add:
  assumes "ring h head xs" "e \<notin> set (head # xs)"
  shows "ring (ln_list_add head e h) head (e # xs)"
proof (cases xs)
  case Nil
  then show ?thesis using assms by (auto simp: ring_def ln_list_add_def set_link_defs)
next
  case (Cons z ys)
  have "seg (ln_list_add head e h) z ys head = seg h z ys head"
    by (rule seg_frame) (use assms Cons in \<open>auto simp: ring_def ln_list_add_def set_link_defs\<close>)
  then show ?thesis using assms Cons by (auto simp: ring_def ln_list_add_def set_link_defs)
qed

text \<open>Taking out a node joins its neighbours, whichever of them is the head.\<close>

lemma ring_rm:
  assumes "ring h head (ys @ e # zs)"
  shows "ring (ln_list_rm e h) head (ys @ zs)"
proof -
  let ?h = "ln_list_rm e h"
  have d: "distinct (head # ys @ e # zs)" and s: "seg h head ys e" "seg h e zs head" using assms by (simp_all add: ring_def)
  have n: "l_next ?h x = (if x = l_prev h e then l_next h e else l_next h x)" "l_prev ?h x = (if x = l_next h e then l_prev h e else l_prev h x)"
    for x by (simp_all add: ln_list_rm_def set_link_defs Let_def)
  show ?thesis
  proof (cases ys rule: rev_cases; cases zs)
    assume c: "ys = []" "zs = []"
    then show ?thesis using d s n [of head] by (auto simp: ring_def)
  next
    fix b bs
    assume c: "ys = []" "zs = b # bs"
    have "seg ?h b bs head = seg h b bs head" by (rule seg_frame) (use d s c n in auto)
    then show ?thesis using d s c n [of head] n [of b] by (auto simp: ring_def)
  next
    fix as a
    assume c: "ys = as @ [a]" "zs = []"
    have "seg ?h head as a = seg h head as a" by (rule seg_frame) (use d s c n in auto)
    then show ?thesis using d s c n [of head] n [of a] by (auto simp: ring_def)
  next
    fix as a b bs
    assume c: "ys = as @ [a]" "zs = b # bs"
    have "seg ?h head as a = seg h head as a" "seg ?h b bs head = seg h b bs head" by (rule seg_frame; use d s c n in auto)+
    then show ?thesis using d s c n [of a] n [of b] by (auto simp: ring_def)
  qed
qed

section \<open>Loops\<close>

lemma for_each_seg:
  "seg h a xs head \<Longrightarrow> head \<notin> set xs \<Longrightarrow> length xs \<le> n \<Longrightarrow> for_each_entry n (\<lambda>_ h. h) head (l_next h a) h = Some (xs, h)"
proof (induction xs arbitrary: a n)
  case (Cons x xs)
  then obtain m where "n = Suc m" by (cases n) auto
  then show ?case using Cons by auto
qed simp

lemma for_each_ring:
  assumes "ring h head xs" "length xs \<le> n"
  shows "LN_LIST_FOR_EACH_ENTRY n (\<lambda>_ h. h) head h = Some (xs, h)"
  using assms for_each_seg [of h head xs head n] by (simp add: ring_def LN_LIST_FOR_EACH_ENTRY_def)

lemma for_each_seg_reverse:
  "seg h head xs b \<Longrightarrow> head \<notin> set xs \<Longrightarrow> length xs \<le> n \<Longrightarrow> for_each_entry_reverse n (\<lambda>_ h. h) head (l_prev h b) h = Some (rev xs, h)"
proof (induction xs arbitrary: b n rule: rev_induct)
  case (snoc x xs)
  then obtain m where "n = Suc m" by (cases n) auto
  then show ?case using snoc by auto
qed simp

lemma for_each_ring_reverse:
  assumes "ring h head xs" "length xs \<le> n"
  shows "LN_LIST_FOR_EACH_ENTRY_REVERSE n (\<lambda>_ h. h) head h = Some (rev xs, h)"
  using assms for_each_seg_reverse [of h head xs head n] by (simp add: ring_def LN_LIST_FOR_EACH_ENTRY_REVERSE_def)

text \<open>The safe loop lets its body take out the entry it visits: emptying a list.\<close>

lemma for_each_safe_rm:
  "ring h head xs \<Longrightarrow> length xs \<le> n \<Longrightarrow>
     \<exists>h'. LN_LIST_FOR_EACH_ENTRY_SAFE n ln_list_rm head h = Some (xs, h') \<and> ring h' head []"
proof (induction xs arbitrary: h n)
  case Nil
  then show ?case by (cases n) (auto simp: ring_def LN_LIST_FOR_EACH_ENTRY_SAFE_def)
next
  case (Cons x xs)
  then obtain m where m: "n = Suc m" "length xs \<le> m" by (cases n) auto
  let ?h = "ln_list_rm x h"
  have r: "ring ?h head xs" using ring_rm [of h head "[]" x xs] Cons.prems(1) by simp
  have l: "l_next h head = x" "x \<noteq> head" "l_next h x = hd (xs @ [head])" "l_next ?h head = hd (xs @ [head])"
    using Cons.prems(1) r by (cases xs; auto simp: ring_def)+
  obtain h' where h': "LN_LIST_FOR_EACH_ENTRY_SAFE m ln_list_rm head ?h = Some (xs, h')" "ring h' head []" using Cons.IH [OF r m(2)] by blast
  then show ?case using l m(1) by (auto simp: LN_LIST_FOR_EACH_ENTRY_SAFE_def)
qed

section \<open>The ring as a list\<close>

datatype list_op = List_Insert nat | List_Add nat | List_Rm nat | List_Rm_Init nat

primrec list_step :: "nat \<Rightarrow> list_op \<Rightarrow> ln_list \<Rightarrow> ln_list" where
  "list_step head (List_Insert e) = ln_list_insert head e"
| "list_step head (List_Add e) = ln_list_add head e"
| "list_step head (List_Rm e) = ln_list_rm e"
| "list_step head (List_Rm_Init e) = ln_list_rm_init e"

text \<open>What each means for the list; a node is put in when it is not in the list, and taken out when it is.\<close>

primrec list_spec :: "nat \<Rightarrow> list_op \<Rightarrow> nat list \<Rightarrow> nat list option" where
  "list_spec head (List_Insert e) xs = (if e \<in> set (head # xs) then None else Some (xs @ [e]))"
| "list_spec head (List_Add e) xs = (if e \<in> set (head # xs) then None else Some (e # xs))"
| "list_spec head (List_Rm e) xs = (if e \<in> set xs then Some (remove1 e xs) else None)"
| "list_spec head (List_Rm_Init e) xs = (if e \<in> set xs then Some (remove1 e xs) else None)"

lemma ring_rm_remove1:
  assumes "ring h head xs" "e \<in> set xs"
  shows "ring (ln_list_rm e h) head (remove1 e xs)" "ring (ln_list_rm_init e h) head (remove1 e xs)"
proof -
  obtain ys zs where xs: "xs = ys @ e # zs" "e \<notin> set ys" using split_list_first [OF assms(2)] by blast
  then have "remove1 e xs = ys @ zs" by (simp add: remove1_append)
  then show r: "ring (ln_list_rm e h) head (remove1 e xs)" using ring_rm [of h head ys e zs] assms(1) xs(1) by simp
  have "seg (ln_list_rm_init e h) head (ys @ zs) head = seg (ln_list_rm e h) head (ys @ zs) head"
    by (rule seg_frame) (use assms(1) xs in \<open>auto simp: ring_def ln_list_rm_init_def set_link_defs\<close>)
  then show "ring (ln_list_rm_init e h) head (remove1 e xs)" using r \<open>remove1 e xs = ys @ zs\<close> by (simp add: ring_def)
qed

lemma list_step_ring: "ring h head xs \<Longrightarrow> list_spec head x xs = Some ys \<Longrightarrow> ring (list_step head x h) head ys"
  using ring_insert ring_add ring_rm_remove1 by (cases x) (auto split: if_splits)

primrec list_specs :: "nat \<Rightarrow> list_op list \<Rightarrow> nat list \<Rightarrow> nat list option" where
  "list_specs head [] xs = Some xs"
| "list_specs head (x # ops) xs = Option.bind (list_spec head x xs) (list_specs head ops)"

lemma list_steps_ring: "ring h head xs \<Longrightarrow> list_specs head ops xs = Some ys \<Longrightarrow> ring (fold (list_step head) ops h) head ys"
  by (induction ops arbitrary: h xs) (auto split: bind_splits intro: list_step_ring)

text \<open>C27: The ring implements a list: after any sequence of insertions at either end and removals, the emptiness test, the loop forwards and the loop
  backwards tell exactly the nodes of the list, in order, and the safe loop can take all of them out.\<close>

theorem ln_list_refines:
  assumes "list_specs head ops [] = Some xs" "h' = fold (list_step head) ops (ln_list_init head h)"
  shows "ln_is_list_empty head h' = (xs = []) \<and> LN_LIST_FOR_EACH_ENTRY (length xs) (\<lambda>_ h. h) head h' = Some (xs, h')
    \<and> LN_LIST_FOR_EACH_ENTRY_REVERSE (length xs) (\<lambda>_ h. h) head h' = Some (rev xs, h')
    \<and> (\<exists>h''. LN_LIST_FOR_EACH_ENTRY_SAFE (length xs) ln_list_rm head h' = Some (xs, h'') \<and> ln_is_list_empty head h'')"
proof -
  have r: "ring h' head xs" unfolding assms(2) by (rule list_steps_ring [OF ring_init assms(1)])
  obtain h'' where "LN_LIST_FOR_EACH_ENTRY_SAFE (length xs) ln_list_rm head h' = Some (xs, h'')" "ring h'' head []"
    using for_each_safe_rm [OF r] by blast
  then show ?thesis using ring_empty [OF r] ring_empty [of h'' head "[]"] for_each_ring [OF r] for_each_ring_reverse [OF r] by simp
qed

theorem ln_list_refines_witness:
  "LN_LIST_FOR_EACH_ENTRY 2 (\<lambda>_ h. h) 1
     (fold (list_step 1) [List_Insert 5, List_Add 7, List_Insert 9, List_Rm 5] (ln_list_init 1 \<lparr>l_next = (\<lambda>_. 0), l_prev = (\<lambda>_. 0)\<rparr>))
   = Some ([7, 9], fold (list_step 1) [List_Insert 5, List_Add 7, List_Insert 9, List_Rm 5] (ln_list_init 1 \<lparr>l_next = (\<lambda>_. 0), l_prev = (\<lambda>_. 0)\<rparr>))"
  using ln_list_refines [of 1 "[List_Insert 5, List_Add 7, List_Insert 9, List_Rm 5]" "[7, 9]", OF _ refl] by (simp add: numeral_2_eq_2)

end
