(* ===== verification/Ethernetif.thy ===== *)
theory Ethernetif
  imports Dhcpd_Faults Sys_Param
begin

text \<open>
  The network interfaces, \<^verbatim>\<open>components/net/lwip-2.0.3/src/netif/ethernetif.c\<close>: station, access point and monitor.  Of an interface of lwIP the
  flags, the address, the hardware address, the status callback and the functions it is set up with are modelled; calls of the DHCP client
  are noted in a list, and what they answer is an argument.  Only the station has a status callback; it is called when the interface goes up or
  down, and has no effect when an address is set here, as that is zero or the one already noted.  Messages for the Wi-Fi manager are part of the
  results, as sending one may block.  \<open>None\<close> is an access through the null pointer.
\<close>

section \<open>Data\<close>

datatype dhcp_mode = WLAN_DHCP_DISABLE | WLAN_DHCP_CLIENT | WLAN_DHCP_SERVER

datatype nif_fun = Sta_Low_Level_Output | Ap_Low_Level_Output | Ethernetif_Null_Linkoutput | Tcpip_Input | Tcpip_Null_Input

record netif =
  nif_up :: bool
  nif_link_up :: bool
  nif_addr :: tcpip_ip_info
  nif_hwaddr :: "byte list"
  nif_name :: "byte list"
  nif_linkoutput :: nif_fun
  nif_input :: nif_fun
  nif_status_cb :: bool

record netdev =
  nd_nif :: netif
  nd_dhcp_mode :: dhcp_mode
  nd_ip_info :: tcpip_ip_info
  nd_link :: bool

datatype net_call = Dhcp_Release | Dhcp_Stop | Dhcp_Cleanup | Dhcp_Start

record ethernetif =
  eth_netdev :: "netdev list"
  eth_active :: nat
  eth_host_name :: "byte list"
  eth_calls :: "net_call list"
  eth_dhcpd :: dhcpd_ctrl

definition STATION_IF :: nat where "STATION_IF = 0"
definition SOFT_AP_IF :: nat where "SOFT_AP_IF = 1"
definition MONITOR_IF :: nat where "MONITOR_IF = 2"
definition WIFI_IF_NUM :: nat where "WIFI_IF_NUM = 3"

lemmas if_defs = STATION_IF_def SOFT_AP_IF_def MONITOR_IF_def WIFI_IF_NUM_def

datatype wifi_msg_id =
    WIFI_MSG_ID_WIFI_INVALID | WIFI_MSG_ID_STA_READY | WIFI_MSG_ID_STA_SCAN_DONE | WIFI_MSG_ID_STA_CONNECTED | WIFI_MSG_ID_STA_DISCONNECTED
  | WIFI_MSG_ID_STA_AUTHMODE_CHANGE | WIFI_MSG_ID_STA_DHCP_GETING_IP | WIFI_MSG_ID_STA_DHCP_GOT_IP | WIFI_MSG_ID_STA_DHCP_TIMEOUT
  | WIFI_MSG_ID_STA_USE_STATIC_IP | WIFI_MSG_ID_AP_READY | WIFI_MSG_ID_AP_STACONNECTED | WIFI_MSG_ID_AP_STADISCONNECTED
  | WIFI_MSG_ID_AP_PROBEREQRECVED | WIFI_MSG_ID_RECV_BEACON | WIFI_MSG_ID_Other nat

record wifi_msg =
  msg_id :: wifi_msg_id
  msg_body :: "byte list"

definition zero_ip_info :: tcpip_ip_info where
  "zero_ip_info = \<lparr>ii_ip = 0, ii_netmask = 0, ii_gw = 0\<rparr>"

section \<open>Devices\<close>

definition ethernetif_get_netdev :: "nat \<Rightarrow> ethernetif \<Rightarrow> netdev option" where
  "ethernetif_get_netdev nif_idx e = (if WIFI_IF_NUM \<le> nif_idx then None else Some (eth_netdev e ! nif_idx))"

definition set_netdev :: "nat \<Rightarrow> netdev \<Rightarrow> ethernetif \<Rightarrow> ethernetif" where
  "set_netdev nif_idx nd e = e\<lparr>eth_netdev := (eth_netdev e)[nif_idx := nd]\<rparr>"

definition ethernetif_get_netif :: "nat \<Rightarrow> ethernetif \<Rightarrow> netif option" where
  "ethernetif_get_netif nif_idx e = map_option nd_nif (ethernetif_get_netdev nif_idx e)"

section \<open>Frames\<close>

datatype err = ERR_OK | ERR_IF | ERR_ARG

text \<open>A packet is a chain of buffers; the result is the frame given to the Wi-Fi library.  The result of the allocation, \<open>mem\<close>, is not checked.\<close>

definition low_level_output :: "bool \<Rightarrow> netif \<Rightarrow> byte list list \<Rightarrow> (err \<times> byte list option) option" where
  "low_level_output mem nif pkt =
     (if \<not> nif_link_up nif then Some (ERR_IF, None)
      else if \<not> mem then None
      else Some (ERR_OK, Some (concat pkt)))"

definition sta_low_level_output :: "bool \<Rightarrow> netif \<Rightarrow> byte list list \<Rightarrow> (err \<times> byte list option) option" where
  "sta_low_level_output = low_level_output"

definition ap_low_level_output :: "bool \<Rightarrow> netif \<Rightarrow> byte list list \<Rightarrow> (err \<times> byte list option) option" where
  "ap_low_level_output = low_level_output"

definition ethernetif_null_linkoutput :: "netif \<Rightarrow> byte list list \<Rightarrow> err" where
  "ethernetif_null_linkoutput nif pkt = ERR_IF"

text \<open>The loop over the buffers of a packet, whose sizes are given.\<close>

primrec input_copy :: "nat list \<Rightarrow> byte list \<Rightarrow> byte list list" where
  "input_copy [] data = []"
| "input_copy (n # ns) data = take n data # input_copy ns (drop n data)"

text \<open>The sizes of the buffers come from \<open>pbuf_alloc\<close>, none when there is no memory.  The result is the packet given to the input function.\<close>

definition ethernetif_low_level_input :: "nat list option \<Rightarrow> nat \<Rightarrow> byte list \<Rightarrow> ethernetif \<Rightarrow> (nif_fun \<times> byte list list) option option" where
  "ethernetif_low_level_input pbuf nif_idx data e =
     (case pbuf of None \<Rightarrow> Some None
      | Some ns \<Rightarrow> do { nif \<leftarrow> ethernetif_get_netif nif_idx e; Some (Some (nif_input nif, input_copy ns data)) })"

section \<open>Setting up\<close>

definition ethernetif_init :: "nat \<Rightarrow> netif \<Rightarrow> err \<times> netif" where
  "ethernetif_init nif_idx nif =
     (if nif_idx = STATION_IF then (ERR_OK, nif\<lparr>nif_name := [0x53, 0x54], nif_linkoutput := Sta_Low_Level_Output\<rparr>)
      else if nif_idx = SOFT_AP_IF then (ERR_OK, nif\<lparr>nif_name := [0x41, 0x50], nif_linkoutput := Ap_Low_Level_Output\<rparr>)
      else if nif_idx = MONITOR_IF then (ERR_OK, nif\<lparr>nif_name := [0x4D, 0x4F], nif_linkoutput := Ethernetif_Null_Linkoutput\<rparr>)
      else (ERR_ARG, nif))"

text \<open>\<open>netif_add\<close> clears the flags and the callback, sets the address and the input function and calls the initialisation.\<close>

definition netif_add :: "nat \<Rightarrow> nif_fun \<Rightarrow> netdev \<Rightarrow> netdev" where
  "netif_add nif_idx inp nd =
     nd\<lparr>nd_nif := snd (ethernetif_init nif_idx
       ((nd_nif nd)\<lparr>nif_up := False, nif_link_up := False, nif_status_cb := False, nif_addr := nd_ip_info nd, nif_input := inp\<rparr>))\<rparr>"

definition tcpip_init_dev :: "nat \<Rightarrow> nif_fun \<Rightarrow> ethernetif \<Rightarrow> ethernetif" where
  "tcpip_init_dev nif_idx inp e = set_netdev nif_idx (netif_add nif_idx inp ((eth_netdev e ! nif_idx)\<lparr>nd_link := False\<rparr>)) e"

definition tcpip_init_done :: "ethernetif \<Rightarrow> ethernetif" where
  "tcpip_init_done e =
     tcpip_init_dev MONITOR_IF Tcpip_Null_Input (tcpip_init_dev SOFT_AP_IF Tcpip_Input (tcpip_init_dev STATION_IF Tcpip_Input e))"

definition ethernetif_set_dhcp_mode :: "nat \<Rightarrow> dhcp_mode \<Rightarrow> ethernetif \<Rightarrow> ethernetif option" where
  "ethernetif_set_dhcp_mode nif_idx dhcp_mode e = do {
     nd \<leftarrow> ethernetif_get_netdev nif_idx e;
     Some (set_netdev nif_idx (nd\<lparr>nd_dhcp_mode := dhcp_mode\<rparr>) (e\<lparr>eth_active := nif_idx\<rparr>)) }"

definition ethernetif_get_dhcp_mode :: "nat \<Rightarrow> ethernetif \<Rightarrow> dhcp_mode option" where
  "ethernetif_get_dhcp_mode nif_idx e = map_option nd_dhcp_mode (ethernetif_get_netdev nif_idx e)"

text \<open>The conversion \<^verbatim>\<open>%X\<close>: no leading zero.\<close>

definition hex_digit_upper :: "nat \<Rightarrow> byte" where
  "hex_digit_upper n = of_nat (if n < 10 then 48 + n else 55 + n)"

definition print_X :: "byte \<Rightarrow> byte list" where
  "print_X b = (if b < 16 then [hex_digit_upper (unat b)] else [hex_digit_upper (unat b div 16), hex_digit_upper (unat b mod 16)])"

definition host_name :: "nat \<Rightarrow> byte list \<Rightarrow> byte list" where
  "host_name nif_idx mac =
     (if nif_idx = STATION_IF then [0x4C, 0x4E, 0x5F, 0x53, 0x54, 0x41, 0x5F]
      else if nif_idx = SOFT_AP_IF then [0x4C, 0x4E, 0x5F, 0x41, 0x50, 0x5F]
      else [0x4C, 0x4E, 0x5F, 0x4D, 0x4F, 0x4E, 0x49, 0x54, 0x4F, 0x52, 0x5F]) @ print_X (mac ! 4) @ print_X (mac ! 5)"

definition ethernetif_set_mac_addr :: "nat \<Rightarrow> byte list option \<Rightarrow> ethernetif \<Rightarrow> bool \<times> ethernetif" where
  "ethernetif_set_mac_addr nif_idx mac_addr e =
     (case (ethernetif_get_netdev nif_idx e, mac_addr) of
        (Some nd, Some mac) \<Rightarrow>
          (True, (set_netdev nif_idx (nd\<lparr>nd_nif := (nd_nif nd)\<lparr>nif_hwaddr := take 6 mac\<rparr>\<rparr>) e)\<lparr>eth_host_name := host_name nif_idx mac\<rparr>)
      | _ \<Rightarrow> (False, e))"

definition ethernetif_get_mac_addr :: "nat \<Rightarrow> ethernetif \<Rightarrow> byte list option" where
  "ethernetif_get_mac_addr nif_idx e = map_option nif_hwaddr (ethernetif_get_netif nif_idx e)"

definition ethernetif_set_ip_info :: "nat \<Rightarrow> tcpip_ip_info option \<Rightarrow> ethernetif \<Rightarrow> bool \<times> ethernetif" where
  "ethernetif_set_ip_info nif_idx ip_info e =
     (case (ethernetif_get_netdev nif_idx e, ip_info) of
        (Some nd, Some ip) \<Rightarrow> (True, set_netdev nif_idx (nd\<lparr>nd_ip_info := ip, nd_nif := (nd_nif nd)\<lparr>nif_addr := ip\<rparr>\<rparr>) e)
      | _ \<Rightarrow> (False, e))"

definition ethernetif_get_ip_info :: "nat \<Rightarrow> ethernetif \<Rightarrow> tcpip_ip_info option" where
  "ethernetif_get_ip_info nif_idx e = map_option nd_ip_info (ethernetif_get_netdev nif_idx e)"

section \<open>Going up and down\<close>

text \<open>What lwIP's DHCP client answers: whether a lease was released, which takes the address from the interface, and whether the client could be started.\<close>

record dhcp_client =
  dc_released :: bool
  dc_started :: bool

definition set_flags :: "bool \<Rightarrow> netdev \<Rightarrow> netdev" where
  "set_flags up nd = nd\<lparr>nd_nif := (nd_nif nd)\<lparr>nif_up := up, nif_link_up := up\<rparr>\<rparr>"

definition set_status_cb :: "bool \<Rightarrow> netdev \<Rightarrow> netdev" where
  "set_status_cb on nd = nd\<lparr>nd_nif := (nd_nif nd)\<lparr>nif_status_cb := on\<rparr>\<rparr>"

definition set_nif_addr :: "tcpip_ip_info \<Rightarrow> netdev \<Rightarrow> netdev" where
  "set_nif_addr ip nd = nd\<lparr>nd_nif := (nd_nif nd)\<lparr>nif_addr := ip\<rparr>\<rparr>"

definition dhcp_release :: "dhcp_client \<Rightarrow> netdev \<Rightarrow> netdev" where
  "dhcp_release dc nd = (if dc_released dc then set_nif_addr zero_ip_info nd else nd)"

text \<open>The status callback of the station: the address may have changed.\<close>

definition tcpip_dhcpc_cb :: "netdev \<Rightarrow> wifi_msg list \<times> netdev" where
  "tcpip_dhcpc_cb nd =
     (let ip = nif_addr (nd_nif nd) in
      if ii_ip ip \<noteq> 0 \<and> ip \<noteq> nd_ip_info nd
      then ([\<lparr>msg_id = WIFI_MSG_ID_STA_DHCP_GOT_IP, msg_body = []\<rparr>], nd\<lparr>nd_ip_info := ip, nd_link := True\<rparr>)
      else ([], nd))"

definition nif_set_state :: "bool \<Rightarrow> netdev \<Rightarrow> wifi_msg list \<times> netdev" where
  "nif_set_state up nd =
     (if nif_up (nd_nif nd) \<noteq> up \<and> nif_status_cb (nd_nif nd) then tcpip_dhcpc_cb (set_flags up nd) else ([], set_flags up nd))"

definition tcpip_dhcpc_start :: "dhcp_client \<Rightarrow> netdev \<Rightarrow> netdev" where
  "tcpip_dhcpc_start dc nd = (let nd = dhcp_release dc nd in if dc_started dc then set_status_cb True nd else nd)"

definition sta_set_state :: "dhcp_client \<Rightarrow> bool \<Rightarrow> ethernetif \<Rightarrow> wifi_msg list \<times> ethernetif" where
  "sta_set_state dc up e =
     (case nif_set_state up (eth_netdev e ! STATION_IF) of (ms, nd) \<Rightarrow>
        if up then
          if nd_dhcp_mode nd = WLAN_DHCP_CLIENT
          then (ms, set_netdev STATION_IF (tcpip_dhcpc_start dc (nd\<lparr>nd_ip_info := zero_ip_info\<rparr>))
                      (e\<lparr>eth_calls := eth_calls e @ [Dhcp_Release, Dhcp_Stop, Dhcp_Cleanup, Dhcp_Start]\<rparr>))
          else (ms @ [\<lparr>msg_id = WIFI_MSG_ID_STA_USE_STATIC_IP, msg_body = []\<rparr>],
                set_netdev STATION_IF ((set_nif_addr (nd_ip_info nd) nd)\<lparr>nd_link := True\<rparr>) e)
        else
          (ms, set_netdev STATION_IF ((dhcp_release dc (set_status_cb False nd))\<lparr>nd_link := False\<rparr>)
                 (e\<lparr>eth_calls := eth_calls e @ [Dhcp_Release, Dhcp_Stop, Dhcp_Cleanup]\<rparr>)))"

text \<open>\<open>stored\<close> and \<open>thr\<close> are the arguments of the start of the DHCP server; its result is ignored.\<close>

definition ap_set_state :: "server_config option \<Rightarrow> bool \<Rightarrow> bool \<Rightarrow> ethernetif \<Rightarrow> ethernetif" where
  "ap_set_state stored thr up e =
     (let nd = eth_netdev e ! SOFT_AP_IF in
      if up \<and> \<not> nd_link nd then
        (set_netdev SOFT_AP_IF ((set_flags True nd)\<lparr>nd_link := True\<rparr>) e)
          \<lparr>eth_dhcpd := snd (dhcpd_start stored thr (snd (dhcpd_stop (eth_dhcpd e))))\<rparr>
      else if \<not> up \<and> nd_link nd then
        (set_netdev SOFT_AP_IF ((set_flags False (set_status_cb False nd))\<lparr>nd_link := False\<rparr>) e)\<lparr>eth_dhcpd := snd (dhcpd_stop (eth_dhcpd e))\<rparr>
      else e)"

definition monitor_set_state :: "bool \<Rightarrow> ethernetif \<Rightarrow> ethernetif" where
  "monitor_set_state up e =
     (let nd = eth_netdev e ! MONITOR_IF in
      set_netdev MONITOR_IF (if up then set_flags True nd else (set_flags False (set_status_cb False nd))\<lparr>nd_link := False\<rparr>) e)"

definition ethernetif_set_state ::
  "dhcp_client \<Rightarrow> server_config option \<Rightarrow> bool \<Rightarrow> nat \<Rightarrow> bool \<Rightarrow> ethernetif \<Rightarrow> bool \<times> wifi_msg list \<times> ethernetif" where
  "ethernetif_set_state dc stored thr nif_idx up e =
     (if WIFI_IF_NUM \<le> nif_idx then (False, [], e)
      else if nif_idx = STATION_IF then (True, sta_set_state dc up e)
      else if nif_idx = SOFT_AP_IF then (True, [], ap_set_state stored thr up e)
      else (True, [], monitor_set_state up e))"

definition ethernetif_get_active :: "ethernetif \<Rightarrow> nat" where
  "ethernetif_get_active e = eth_active e"

definition ethernetif_get_link_state :: "ethernetif \<Rightarrow> bool option" where
  "ethernetif_get_link_state e = map_option nd_link (ethernetif_get_netdev (ethernetif_get_active e) e)"

section \<open>Properties\<close>

text \<open>A frame is cut into the buffers of a packet without loss, and a packet is sent as one frame.\<close>

lemma input_copy_concat: "length data \<le> sum_list ns \<Longrightarrow> concat (input_copy ns data) = data"
  by (induction ns arbitrary: data) auto

lemma frame_kept:
  assumes "sum_list ns = length data" "ethernetif_low_level_input (Some ns) nif_idx data e = Some (Some (inp, pkt))" "nif_link_up nif"
  shows "low_level_output True nif pkt = Some (ERR_OK, Some data)"
  using assms input_copy_concat [of data ns] by (auto simp: ethernetif_low_level_input_def low_level_output_def split: bind_splits)

text \<open>The last two bytes of the address are printed without leading zeros: different devices get the same host name.\<close>

lemma host_names_collide:
  "host_name STATION_IF [2, 0, 0, 0, 0x12, 0x03] = host_name STATION_IF [2, 0, 0, 0, 0x01, 0x23]"
  by code_simp

text \<open>A call of \<open>ethernetif_set_state\<close>: what the DHCP client answers, the stored configuration, whether a task can be created, the interface and the state.\<close>

type_synonym state_call = "dhcp_client \<times> server_config option \<times> bool \<times> nat \<times> bool"

definition set_state_call :: "state_call \<Rightarrow> ethernetif \<Rightarrow> ethernetif" where
  "set_state_call x e = (case x of (dc, stored, thr, nif_idx, up) \<Rightarrow> snd (snd (ethernetif_set_state dc stored thr nif_idx up e)))"

definition ap_served :: "ethernetif \<Rightarrow> bool" where
  "ap_served e \<longleftrightarrow> length (eth_netdev e) = 3 \<and> nif_up (nd_nif (eth_netdev e ! 1)) = nd_link (eth_netdev e ! 1)
     \<and> nif_link_up (nd_nif (eth_netdev e ! 1)) = nd_link (eth_netdev e ! 1) \<and> dhcpd_is_running (eth_dhcpd e) = nd_link (eth_netdev e ! 1)"

lemmas netdev_defs = set_netdev_def set_flags_def set_status_cb_def set_nif_addr_def

lemma dhcpd_restarted: "dhcpd_is_running (snd (dhcpd_start stored thr (snd (dhcpd_stop d))))" "\<not> dhcpd_is_running (snd (dhcpd_stop d))"
  by (simp_all add: dhcpd_is_running_def dhcpd_start_def dhcpd_stop_def Let_def split: option.split)

lemma ap_served_step:
  assumes "ap_served e"
  shows "ap_served (set_state_call x e)"
proof -
  obtain dc stored thr nif_idx up where x: "x = (dc, stored, thr, nif_idx, up)" by (metis prod_cases5)
  have ap: "ap_served (ap_set_state stored thr up e)"
    using assms dhcpd_restarted by (auto simp: ap_served_def ap_set_state_def netdev_defs if_defs Let_def)
  have "ap_served (snd (sta_set_state dc up e))"
    using assms by (auto simp: ap_served_def sta_set_state_def netdev_defs if_defs split: prod.split)
  moreover have "ap_served (monitor_set_state up e)" using assms by (simp add: ap_served_def monitor_set_state_def netdev_defs if_defs Let_def)
  ultimately show ?thesis using assms ap by (simp add: x set_state_call_def ethernetif_set_state_def)
qed


definition demo_eth :: "dhcp_mode \<Rightarrow> ethernetif" where
  "demo_eth mode =
     (let nif = \<lparr>nif_up = False, nif_link_up = False, nif_addr = zero_ip_info, nif_hwaddr = replicate 6 0, nif_name = [], nif_linkoutput = Sta_Low_Level_Output,
            nif_input = Tcpip_Input, nif_status_cb = False\<rparr>;
          nd = \<lparr>nd_nif = nif, nd_dhcp_mode = mode, nd_ip_info = zero_ip_info, nd_link = False\<rparr> in
      \<lparr>eth_netdev = [nd, nd, nd], eth_active = 0, eth_host_name = [], eth_calls = [], eth_dhcpd = demo_dhcpd\<rparr>)"


end
