(* ===== verification/Wifi_Manager.thy ===== *)
theory Wifi_Manager
  imports Ethernetif Arrays
begin

text \<open>
  The task that handles the messages of the Wi-Fi library, \<^verbatim>\<open>components/wifi/wifi_manager/wifi_manager.c\<close>.  It takes them from a queue of five, sets the
  interfaces up and down and calls the callbacks that were registered.  The manager itself sends messages, through the interfaces, into the
  queue that only it empties: its steps are separated where it may wait.
\<close>

section \<open>The manager\<close>

definition WIFI_MSG_QUEUE_DEPTH :: nat where
  "WIFI_MSG_QUEUE_DEPTH = 5"

definition WIFI_MSG_ID_MAX :: nat where
  "WIFI_MSG_ID_MAX = 15"

fun msg_number :: "wifi_msg_id \<Rightarrow> nat" where
  "msg_number WIFI_MSG_ID_WIFI_INVALID = 0" | "msg_number WIFI_MSG_ID_STA_READY = 1" | "msg_number WIFI_MSG_ID_STA_SCAN_DONE = 2"
| "msg_number WIFI_MSG_ID_STA_CONNECTED = 3" | "msg_number WIFI_MSG_ID_STA_DISCONNECTED = 4" | "msg_number WIFI_MSG_ID_STA_AUTHMODE_CHANGE = 5"
| "msg_number WIFI_MSG_ID_STA_DHCP_GETING_IP = 6" | "msg_number WIFI_MSG_ID_STA_DHCP_GOT_IP = 7" | "msg_number WIFI_MSG_ID_STA_DHCP_TIMEOUT = 8"
| "msg_number WIFI_MSG_ID_STA_USE_STATIC_IP = 9" | "msg_number WIFI_MSG_ID_AP_READY = 10" | "msg_number WIFI_MSG_ID_AP_STACONNECTED = 11"
| "msg_number WIFI_MSG_ID_AP_STADISCONNECTED = 12" | "msg_number WIFI_MSG_ID_AP_PROBEREQRECVED = 13" | "msg_number WIFI_MSG_ID_RECV_BEACON = 14"
| "msg_number (WIFI_MSG_ID_Other n) = 15 + n"

text \<open>Where the task stands: waiting for a message, handling one, sending the messages that the handling gave, or behind the switch.\<close>

datatype manager_pc = Waiting | Handling wifi_msg | Sending "wifi_msg list" wifi_msg | Finishing wifi_msg

text \<open>Callbacks are numbers; their calls are noted with the message.  The last field is the status given to the Wi-Fi library.\<close>

record wifi_manager_ctrl =
  wm_msgq :: "wifi_msg list"
  wm_table :: "nat option list"
  wm_pc :: manager_pc
  wm_eth :: ethernetif
  wm_called :: "(nat \<times> wifi_msg) list"
  wm_dhcp_status :: bool
  wm_queue :: bool
  wm_thread :: bool

text \<open>The table has fifteen entries; the test admits sixteen indices.\<close>

definition reg_wifi_msg_callbcak :: "byte \<Rightarrow> nat option \<Rightarrow> wifi_manager_ctrl \<Rightarrow> (bool \<times> wifi_manager_ctrl) option" where
  "reg_wifi_msg_callbcak i callback_fun w =
     (if of_nat WIFI_MSG_ID_MAX < i then Some (False, w)
      else do { t \<leftarrow> put_pos (unat i) callback_fun (wm_table w); Some (True, w\<lparr>wm_table := t\<rparr>) })"

text \<open>Sending waits as long as the queue is full: there is no result then.\<close>

definition notify_wifi_manager_task :: "wifi_msg \<Rightarrow> wifi_manager_ctrl \<Rightarrow> wifi_manager_ctrl option" where
  "notify_wifi_manager_task m w = (if length (wm_msgq w) < WIFI_MSG_QUEUE_DEPTH then Some (w\<lparr>wm_msgq := wm_msgq w @ [m]\<rparr>) else None)"

text \<open>The part of a case of the switch before the DHCP status is set: the messages to be sent and the interfaces.  \<open>None\<close> is the fault of a station that
  leaves and has no address.\<close>

definition manager_action :: "dhcp_client \<Rightarrow> server_config option \<Rightarrow> bool \<Rightarrow> wifi_msg \<Rightarrow> ethernetif \<Rightarrow> (wifi_msg list \<times> ethernetif) option" where
  "manager_action dc stored thr m e =
     (case msg_id m of
        WIFI_MSG_ID_STA_CONNECTED \<Rightarrow> Some (snd (ethernetif_set_state dc stored thr STATION_IF True e))
      | WIFI_MSG_ID_STA_DISCONNECTED \<Rightarrow> Some (snd (ethernetif_set_state dc stored thr STATION_IF False e))
      | WIFI_MSG_ID_AP_READY \<Rightarrow>
          do { b \<leftarrow> at_pos (msg_body m) 0; Some (if b = 1 then snd (ethernetif_set_state dc stored thr SOFT_AP_IF True e) else ([], e)) }
      | WIFI_MSG_ID_AP_STADISCONNECTED \<Rightarrow>
          do { d \<leftarrow> ethernetif_remove_station (take 6 (msg_body m)) (eth_dhcpd e); Some ([], e\<lparr>eth_dhcpd := d\<rparr>) }
      | _ \<Rightarrow> Some ([], e))"

definition manager_dhcp_status :: "wifi_msg \<Rightarrow> bool \<Rightarrow> bool" where
  "manager_dhcp_status m st =
     (case msg_id m of
        WIFI_MSG_ID_STA_CONNECTED \<Rightarrow> False
      | WIFI_MSG_ID_STA_DISCONNECTED \<Rightarrow> False
      | WIFI_MSG_ID_STA_DHCP_GOT_IP \<Rightarrow> True
      | WIFI_MSG_ID_AP_READY \<Rightarrow> True
      | _ \<Rightarrow> st)"

text \<open>Behind the switch.  An unknown message goes back to the loop at once.\<close>

definition manager_finish :: "wifi_msg \<Rightarrow> wifi_manager_ctrl \<Rightarrow> wifi_manager_ctrl option" where
  "manager_finish m w =
     (case msg_id m of
        WIFI_MSG_ID_Other n \<Rightarrow> Some (w\<lparr>wm_pc := Waiting\<rparr>)
      | _ \<Rightarrow> do {
          cb \<leftarrow> at_pos (wm_table w) (msg_number (msg_id m));
          Some (w\<lparr>wm_pc := Waiting, wm_dhcp_status := manager_dhcp_status m (wm_dhcp_status w),
                  wm_called := (case cb of None \<Rightarrow> wm_called w | Some f \<Rightarrow> wm_called w @ [(f, m)])\<rparr>) })"

text \<open>One step of the task; no result when it waits.  The inner option is \<open>None\<close> for a fault.\<close>

definition wifi_manager_task_entry ::
  "dhcp_client \<Rightarrow> server_config option \<Rightarrow> bool \<Rightarrow> wifi_manager_ctrl \<Rightarrow> wifi_manager_ctrl option option" where
  "wifi_manager_task_entry dc stored thr w =
     (case wm_pc w of
        Waiting \<Rightarrow> (case wm_msgq w of [] \<Rightarrow> None | m # ms \<Rightarrow> Some (Some (w\<lparr>wm_msgq := ms, wm_pc := Handling m\<rparr>)))
      | Handling m \<Rightarrow> Some (map_option (\<lambda>(ms, e). w\<lparr>wm_eth := e, wm_pc := Sending ms m\<rparr>) (manager_action dc stored thr m (wm_eth w)))
      | Sending [] m \<Rightarrow> Some (Some (w\<lparr>wm_pc := Finishing m\<rparr>))
      | Sending (x # xs) m \<Rightarrow> map_option (\<lambda>w. Some (w\<lparr>wm_pc := Sending xs m\<rparr>)) (notify_wifi_manager_task x w)
      | Finishing m \<Rightarrow> Some (manager_finish m w))"

definition wifi_manager_init :: "bool \<Rightarrow> bool \<Rightarrow> wifi_manager_ctrl \<Rightarrow> bool \<times> wifi_manager_ctrl" where
  "wifi_manager_init queue_ok thread_ok w =
     (if \<not> queue_ok then (False, w)
      else let w = w\<lparr>wm_queue := True, wm_msgq := []\<rparr> in
        if \<not> thread_ok then (False, w) else (True, w\<lparr>wm_thread := True, wm_pc := Waiting\<rparr>))"

definition wifi_manager_deinit :: "bool \<Rightarrow> bool \<Rightarrow> wifi_manager_ctrl \<Rightarrow> bool \<times> wifi_manager_ctrl" where
  "wifi_manager_deinit thread_ok queue_ok w =
     (if \<not> thread_ok then (False, w)
      else let w = w\<lparr>wm_thread := False\<rparr> in if \<not> queue_ok then (False, w) else (True, w\<lparr>wm_queue := False, wm_msgq := []\<rparr>))"

section \<open>Registration\<close>

text \<open>Registering a callback for a message the manager knows stores it and changes no other entry; a number above the end mark is refused; the end
  mark itself is written behind the table.\<close>

lemma reg_callback_bounds:
  assumes "length (wm_table w) = WIFI_MSG_ID_MAX"
  shows "(if unat i < 15 then \<exists>w'. reg_wifi_msg_callbcak i f w = Some (True, w') \<and> wm_table w' ! unat i = f
            \<and> (\<forall>j. j \<noteq> unat i \<longrightarrow> wm_table w' ! j = wm_table w ! j)
          else if i = 15 then reg_wifi_msg_callbcak i f w = None
          else reg_wifi_msg_callbcak i f w = Some (False, w))"
proof -
  have "of_nat WIFI_MSG_ID_MAX < i \<longleftrightarrow> 15 < unat i" by (simp add: WIFI_MSG_ID_MAX_def word_less_nat_alt)
  moreover have "i = 15 \<longleftrightarrow> unat i = 15" by (simp add: word_unat_eq_iff)
  ultimately show ?thesis using assms
    by (auto simp: reg_wifi_msg_callbcak_def put_pos_def WIFI_MSG_ID_MAX_def)
qed

definition demo_manager :: "dhcp_mode \<Rightarrow> wifi_manager_ctrl" where
  "demo_manager mode = \<lparr>wm_msgq = [], wm_table = replicate 15 None, wm_pc = Waiting, wm_eth = demo_eth mode, wm_called = [], wm_dhcp_status = False,
     wm_queue = True, wm_thread = True\<rparr>"

lemma reg_callback_bounds_witness: "reg_wifi_msg_callbcak 15 (Some 1) (demo_manager WLAN_DHCP_CLIENT) = None"
  using reg_callback_bounds [of "demo_manager WLAN_DHCP_CLIENT" 15 "Some 1"] by (simp add: demo_manager_def WIFI_MSG_ID_MAX_def)

section \<open>Order of the messages\<close>

text \<open>What one step of the task sends, and the message it is done with.\<close>

definition step_sends :: "wifi_manager_ctrl \<Rightarrow> wifi_msg list" where
  "step_sends w = (case wm_pc w of Sending (x # xs) m \<Rightarrow> [x] | _ \<Rightarrow> [])"

definition step_done :: "wifi_manager_ctrl \<Rightarrow> wifi_msg list" where
  "step_done w = (case wm_pc w of Finishing m \<Rightarrow> [m] | _ \<Rightarrow> [])"

definition in_hand :: "wifi_manager_ctrl \<Rightarrow> wifi_msg list" where
  "in_hand w = (case wm_pc w of Waiting \<Rightarrow> [] | Handling m \<Rightarrow> [m] | Sending xs m \<Rightarrow> [m] | Finishing m \<Rightarrow> [m])"

text \<open>The calls that a message is due.\<close>

definition due :: "nat option list \<Rightarrow> wifi_msg \<Rightarrow> (nat \<times> wifi_msg) list" where
  "due table m = (case msg_id m of WIFI_MSG_ID_Other n \<Rightarrow> [] | i \<Rightarrow> (case table ! msg_number i of None \<Rightarrow> [] | Some f \<Rightarrow> [(f, m)]))"

text \<open>Reachable states, with the messages sent so far and those done with: any task may send, the address of the station may change, and the manager
  takes its steps, whatever the DHCP client and the start of the DHCP server answer.\<close>

inductive wm_reach :: "wifi_manager_ctrl \<Rightarrow> wifi_manager_ctrl \<Rightarrow> wifi_msg list \<Rightarrow> wifi_msg list \<Rightarrow> bool" for w0 :: wifi_manager_ctrl where
  start: "wm_reach w0 w0 [] []"
| post: "wm_reach w0 w sent fin \<Longrightarrow> notify_wifi_manager_task m w = Some w' \<Longrightarrow> wm_reach w0 w' (sent @ [m]) fin"
| bound: "wm_reach w0 w sent fin \<Longrightarrow> wm_reach w0 (w\<lparr>wm_eth := e\<rparr>) sent fin"
| task: "wm_reach w0 w sent fin \<Longrightarrow> wifi_manager_task_entry dc stored thr w = Some (Some w') \<Longrightarrow>
    wm_reach w0 w' (sent @ step_sends w) (fin @ step_done w)"

lemma finish_due:
  assumes "manager_finish m w = Some w'"
  shows "wm_called w' = wm_called w @ due (wm_table w) m" "wm_table w' = wm_table w" "wm_msgq w' = wm_msgq w" "wm_pc w' = Waiting"
  using assms by (auto simp: manager_finish_def due_def at_pos_def split: wifi_msg_id.splits bind_splits option.splits if_splits)

lemma task_keeps:
  assumes "wifi_manager_task_entry dc stored thr w = Some (Some w')"
  shows "step_done w @ in_hand w' @ wm_msgq w' = in_hand w @ wm_msgq w @ step_sends w"
    "wm_called w' = wm_called w @ concat (map (due (wm_table w)) (step_done w))" "wm_table w' = wm_table w"
    "length (wm_msgq w) \<le> WIFI_MSG_QUEUE_DEPTH \<Longrightarrow> length (wm_msgq w') \<le> WIFI_MSG_QUEUE_DEPTH"
  using assms finish_due
  by (auto simp: wifi_manager_task_entry_def step_done_def step_sends_def in_hand_def notify_wifi_manager_task_def
      split: manager_pc.splits list.splits if_splits)

text \<open>C20: However the tasks that send messages and the manager take turns, every message is handled exactly once and in the order in which the messages
  were sent, its callback is called exactly when it is done with, and the queue never exceeds its depth: what was sent is what is done,
  then what is in hand, then what waits.\<close>

theorem wifi_msgs_in_order:
  assumes "wm_reach w0 w sent fin" "wm_msgq w0 = []" "wm_pc w0 = Waiting" "wm_called w0 = []"
  shows "sent = fin @ in_hand w @ wm_msgq w \<and> wm_called w = concat (map (due (wm_table w0)) fin) \<and> length (wm_msgq w) \<le> WIFI_MSG_QUEUE_DEPTH"
proof -
  have "sent = fin @ in_hand w @ wm_msgq w \<and> wm_called w = concat (map (due (wm_table w0)) fin) \<and> length (wm_msgq w) \<le> WIFI_MSG_QUEUE_DEPTH
      \<and> wm_table w = wm_table w0"
    using assms
  proof (induction rule: wm_reach.induct)
    case start
    then show ?case by (simp add: in_hand_def)
  next
    case (post w sent fin m w')
    then show ?case by (auto simp: notify_wifi_manager_task_def in_hand_def split: if_splits)
  next
    case (bound w sent fin e)
    then show ?case by (simp add: in_hand_def)
  next
    case (task w sent fin dc stored thr w')
    then show ?case using task_keeps [OF task(2)] by auto
  qed
  then show ?thesis by blast
qed

section \<open>Waiting for itself\<close>

definition stuck_manager :: "wifi_manager_ctrl \<Rightarrow> bool" where
  "stuck_manager w \<longleftrightarrow> (\<forall>dc stored thr. wifi_manager_task_entry dc stored thr w = None) \<and> (\<forall>m. notify_wifi_manager_task m w = None)"

lemma stuck_iff: "stuck_manager w \<longleftrightarrow> (\<exists>x xs m. wm_pc w = Sending (x # xs) m) \<and> WIFI_MSG_QUEUE_DEPTH \<le> length (wm_msgq w)"
  by (cases "wm_pc w") (auto simp: stuck_manager_def wifi_manager_task_entry_def notify_wifi_manager_task_def WIFI_MSG_QUEUE_DEPTH_def
      split: list.splits)

definition demo_msg_id :: "wifi_msg_id \<Rightarrow> wifi_msg" where
  "demo_msg_id i = \<lparr>msg_id = i, msg_body = []\<rparr>"

text \<open>C40: The manager can wait for itself for ever.  It alone empties the queue, and nothing moves any more exactly when it is sending and the queue is full.
  With a fixed address this happens: the station connects, and before the manager has sent that it uses the address, five other messages arrive.\<close>

theorem wifi_manager_deadlock:
  "(\<forall>w. stuck_manager w \<longleftrightarrow> (\<exists>x xs m. wm_pc w = Sending (x # xs) m) \<and> 5 \<le> length (wm_msgq w))
   \<and> (\<exists>w sent fin. wm_reach (demo_manager WLAN_DHCP_DISABLE) w sent fin \<and> stuck_manager w)"
proof (intro conjI allI)
  show "stuck_manager w \<longleftrightarrow> (\<exists>x xs m. wm_pc w = Sending (x # xs) m) \<and> 5 \<le> length (wm_msgq w)" for w
    by (simp add: stuck_iff WIFI_MSG_QUEUE_DEPTH_def)
  let ?con = "demo_msg_id WIFI_MSG_ID_STA_CONNECTED" and ?b = "demo_msg_id WIFI_MSG_ID_RECV_BEACON" and ?w0 = "demo_manager WLAN_DHCP_DISABLE"
  let ?static = "\<lparr>msg_id = WIFI_MSG_ID_STA_USE_STATIC_IP, msg_body = []\<rparr>"
  have r1: "wm_reach ?w0 (?w0\<lparr>wm_msgq := [?con]\<rparr>) [?con] []"
    using wm_reach.post [OF wm_reach.start, of ?con ?w0] by (simp add: notify_wifi_manager_task_def demo_manager_def WIFI_MSG_QUEUE_DEPTH_def)
  let ?w2 = "?w0\<lparr>wm_pc := Handling ?con\<rparr>"
  have r2: "wm_reach ?w0 ?w2 [?con] []"
    using wm_reach.task [OF r1, of undefined None False ?w2] by (simp add: wifi_manager_task_entry_def demo_manager_def step_sends_def step_done_def)
  obtain e where e: "manager_action \<lparr>dc_released = False, dc_started = False\<rparr> None False ?con (wm_eth ?w0) = Some ([?static], e)"
    by (simp add: manager_action_def demo_msg_id_def ethernetif_set_state_def if_defs sta_set_state_def nif_set_state_def demo_manager_def demo_eth_def
        set_flags_def Let_def)
  let ?w3 = "?w0\<lparr>wm_eth := e, wm_pc := Sending [?static] ?con\<rparr>"
  have r3: "wm_reach ?w0 ?w3 [?con] []"
    using wm_reach.task [OF r2, of "\<lparr>dc_released = False, dc_started = False\<rparr>" None False ?w3] e
    by (simp add: wifi_manager_task_entry_def step_sends_def step_done_def)
  have post: "wm_reach ?w0 (?w3\<lparr>wm_msgq := replicate n ?b\<rparr>) (?con # replicate n ?b) []" if "n \<le> 5" for n
    using that
  proof (induction n)
    case 0
    have "?w3\<lparr>wm_msgq := []\<rparr> = ?w3" by (simp add: demo_manager_def)
    then show ?case using r3 by simp
  next
    case (Suc n)
    then have "notify_wifi_manager_task ?b (?w3\<lparr>wm_msgq := replicate n ?b\<rparr>) = Some (?w3\<lparr>wm_msgq := replicate (Suc n) ?b\<rparr>)"
      by (simp add: notify_wifi_manager_task_def WIFI_MSG_QUEUE_DEPTH_def replicate_append_same)
    from wm_reach.post [OF Suc.IH this] Suc.prems show ?case by (simp add: replicate_append_same)
  qed
  have "stuck_manager (?w3\<lparr>wm_msgq := replicate 5 ?b\<rparr>)" by (simp add: stuck_iff WIFI_MSG_QUEUE_DEPTH_def)
  then show "\<exists>w sent fin. wm_reach ?w0 w sent fin \<and> stuck_manager w" using post [of 5] by blast
qed

theorem wifi_msgs_in_order_witness:
  "\<exists>w. wm_reach (demo_manager WLAN_DHCP_CLIENT) w [demo_msg_id WIFI_MSG_ID_STA_READY] [] \<and> wm_msgq w = [demo_msg_id WIFI_MSG_ID_STA_READY]
     \<and> [demo_msg_id WIFI_MSG_ID_STA_READY] = [] @ in_hand w @ wm_msgq w"
proof -
  let ?w0 = "demo_manager WLAN_DHCP_CLIENT" and ?m = "demo_msg_id WIFI_MSG_ID_STA_READY"
  have "wm_reach ?w0 (?w0\<lparr>wm_msgq := [?m]\<rparr>) [?m] []"
    using wm_reach.post [OF wm_reach.start, of ?m ?w0] by (simp add: notify_wifi_manager_task_def demo_manager_def WIFI_MSG_QUEUE_DEPTH_def)
  moreover from wifi_msgs_in_order [OF this] have "[?m] = [] @ in_hand (?w0\<lparr>wm_msgq := [?m]\<rparr>) @ wm_msgq (?w0\<lparr>wm_msgq := [?m]\<rparr>)"
    by (simp add: demo_manager_def)
  ultimately show ?thesis by (intro exI [of _ "?w0\<lparr>wm_msgq := [?m]\<rparr>"]) simp
qed

end
