(* ===== verification/At_Cmd.thy ===== *)
theory At_Cmd
  imports Prelude
begin

text \<open>
  The AT command interpreter: \<^verbatim>\<open>components/atcmd/at_string.c\<close>, \<^verbatim>\<open>at_parser.c\<close> and the table of commands
  of \<^verbatim>\<open>at_list.c\<close>.  A string is the list of its bytes without the terminating zero; the lengths are
  below the 65536 at which the 16-bit counters wrap.  Handlers are named by the C functions the table
  holds; what one does to the rest of the system, and whether it returns \<open>AT_OK\<close>, is the argument
  \<open>call\<close>.  A write outside the array \<open>temp\<close> and a call of the null pointer are \<open>None\<close>.  What is printed
  is not modelled.  \<open>char\<close> is unsigned on the target.
\<close>

section \<open>Strings\<close>

definition at_str_equal :: "byte list \<Rightarrow> nat \<Rightarrow> byte list \<Rightarrow> nat \<Rightarrow> bool" where
  "at_str_equal string1 len1 string2 len2 = (\<forall>i \<in> set [0..<len2]. string1 ! (len1 - len2 + i) = string2 ! i)"

text \<open>The loop stops one position short of the last at which the needle could stand.\<close>

definition at_str_find :: "byte list \<Rightarrow> byte list \<Rightarrow> int" where
  "at_str_find haystack needle =
     (let needle_len = length needle; haystack_len = length haystack
      in if needle_len > haystack_len then - 1
         else (case find (\<lambda>i. at_str_equal (drop i haystack) needle_len needle needle_len) [0..<haystack_len - needle_len] of
             None \<Rightarrow> - 1 | Some i \<Rightarrow> int i))"

datatype AT_CMD_TYPE = AT_SHORT_CMD | AT_PLUS_CMD | AT_CMD_INVALID

definition at_check_cmdtype :: "byte list \<Rightarrow> AT_CMD_TYPE" where
  "at_check_cmdtype line =
     (let len = length line mod 256
      in if len \<ge> 2
         then (if len \<ge> 3 \<and> take 3 line = str_bytes ''AT+'' then AT_PLUS_CMD
               else if take 2 line = str_bytes ''AT'' then AT_SHORT_CMD else AT_CMD_INVALID)
         else AT_CMD_INVALID)"

text \<open>The characters from \<open>start\<close> to \<open>stop\<close>, and two zeros after them, into an array of \<open>cap\<close> bytes.\<close>

definition at_array_slice_to_string :: "nat \<Rightarrow> byte list \<Rightarrow> nat \<Rightarrow> nat \<Rightarrow> byte list option" where
  "at_array_slice_to_string cap array start stop =
     (let ret = map (\<lambda>i. array ! i) [start..<stop + 1] in if length ret + 2 \<le> cap then Some ret else None)"

definition str_remove_cr_lf :: "byte list \<Rightarrow> byte list" where
  "str_remove_cr_lf str = takeWhile (\<lambda>c. c \<noteq> 0x0D \<and> c \<noteq> 0x0A) str"

section \<open>The table of commands\<close>

record AT_COMMAND =
  at_hash_of :: u32
  getter :: "string option"
  setter :: "string option"
  test :: "string option"
  execute :: "string option"

definition AT_PLUS_CMD_NUM :: nat where "AT_PLUS_CMD_NUM = 80"
definition AT_SHORT_CMD_NUM :: nat where "AT_SHORT_CMD_NUM = 3"
definition AT_MAX_TEMP_STRING :: nat where "AT_MAX_TEMP_STRING = 50"
definition AT_COMMAND_MARKER :: "byte list" where "AT_COMMAND_MARKER = str_bytes ''AT+''"

definition at_hash :: "byte list \<Rightarrow> u32" where
  "at_hash str = foldl (\<lambda>hash c. (push_bit 5 hash + hash) + ucast c) 5381 str"

definition at_command_unused :: AT_COMMAND where
  "at_command_unused = \<lparr>at_hash_of = 0, getter = None, setter = None, test = None, execute = None\<rparr>"

text \<open>The first unused entry is filled; a full table drops the command.\<close>

fun at_table_put :: "AT_COMMAND \<Rightarrow> AT_COMMAND list \<Rightarrow> AT_COMMAND list" where
  "at_table_put cmd [] = []"
| "at_table_put cmd (e # es) = (if at_hash_of e = 0 then cmd # es else e # at_table_put cmd es)"

record at_tables =
  at_registered_commands :: "AT_COMMAND list"
  at_registered_short_commands :: "AT_COMMAND list"

definition at_register_command :: "string \<Rightarrow> string option \<Rightarrow> string option \<Rightarrow> string option \<Rightarrow> string option \<Rightarrow> at_tables \<Rightarrow> at_tables" where
  "at_register_command command get wr tst exec t = t\<lparr>at_registered_commands :=
     at_table_put \<lparr>at_hash_of = at_hash (str_bytes command), getter = get, setter = wr, test = tst, execute = exec\<rparr>
       (at_registered_commands t)\<rparr>"

definition at_register_short_command :: "string \<Rightarrow> string option \<Rightarrow> string option \<Rightarrow> string option \<Rightarrow> string option \<Rightarrow> at_tables \<Rightarrow> at_tables" where
  "at_register_short_command command get wr tst exec t = t\<lparr>at_registered_short_commands :=
     at_table_put \<lparr>at_hash_of = at_hash (str_bytes command), getter = get, setter = wr, test = tst, execute = exec\<rparr>
       (at_registered_short_commands t)\<rparr>"

section \<open>Executing a command\<close>

datatype at_state = AT_PARSER_STATE_COMMAND | AT_PARSER_STATE_TEST | AT_PARSER_STATE_READ | AT_PARSER_STATE_WRITE

text \<open>What a handler does: given its name and the value, or the null pointer, whether it returned \<open>AT_OK\<close>, and the new
  state of the system.\<close>

type_synonym 'w at_call = "string \<Rightarrow> byte list option \<Rightarrow> 'w \<Rightarrow> bool \<times> 'w"

definition at_handler :: "at_state \<Rightarrow> AT_COMMAND \<Rightarrow> string option" where
  "at_handler st e = (case st of AT_PARSER_STATE_WRITE \<Rightarrow> setter e | AT_PARSER_STATE_READ \<Rightarrow> getter e
     | AT_PARSER_STATE_TEST \<Rightarrow> test e | AT_PARSER_STATE_COMMAND \<Rightarrow> execute e)"

definition at_execute_command :: "'w at_call \<Rightarrow> AT_COMMAND list \<Rightarrow> byte list \<Rightarrow> byte list option \<Rightarrow> at_state \<Rightarrow> 'w \<Rightarrow> bool \<times> 'w" where
  "at_execute_command call cmds command value st w =
     (case find (\<lambda>e. at_hash_of e = at_hash command) cmds of None \<Rightarrow> (False, w)
      | Some e \<Rightarrow> (case at_handler st e of None \<Rightarrow> (False, w) | Some h \<Rightarrow> call h value w))"

text \<open>Where the scan of the line ended: the state, the last position of the name and the start of the value.\<close>

datatype at_scan = ScanError | Scanned at_state nat "nat option"

fun at_scan_loop :: "nat \<Rightarrow> nat \<Rightarrow> byte list \<Rightarrow> at_scan" where
  "at_scan_loop line_len i [] = Scanned AT_PARSER_STATE_COMMAND (line_len - 1) None"
| "at_scan_loop line_len i (c # cs) =
     (if c = 0x3F then Scanned AT_PARSER_STATE_READ (i - 1) None
      else if c = 0x3D
      then (if i < line_len - 1
            then (if hd cs = 0x3F then Scanned AT_PARSER_STATE_TEST (i - 1) None
                  else Scanned AT_PARSER_STATE_WRITE (i - 1) (Some (i + 1)))
            else ScanError)
      else at_scan_loop line_len (i + 1) cs)"

definition at_parse_plus_cmd :: "'w at_call \<Rightarrow> AT_COMMAND list \<Rightarrow> byte list \<Rightarrow> 'w \<Rightarrow> (bool \<times> 'w) option" where
  "at_parse_plus_cmd call cmds line w =
     (if at_str_find line AT_COMMAND_MARKER \<ge> 0
      then (let start = nat (at_str_find line AT_COMMAND_MARKER) + length AT_COMMAND_MARKER
            in case at_scan_loop (length line) start (drop start line) of
                 ScanError \<Rightarrow> Some (False, w)
               | Scanned st stop wstart \<Rightarrow>
                   (case at_array_slice_to_string AT_MAX_TEMP_STRING line start stop of None \<Rightarrow> None
                    | Some temp \<Rightarrow> Some (at_execute_command call cmds temp (map_option (\<lambda>i. drop i line) wstart) st w)))
      else Some (False, w))"

definition at_parse_short_cmd :: "'w at_call \<Rightarrow> AT_COMMAND list \<Rightarrow> byte list \<Rightarrow> 'w \<Rightarrow> (bool \<times> 'w) option" where
  "at_parse_short_cmd call cmds line w =
     (case find (\<lambda>e. at_hash_of e = at_hash line) cmds of None \<Rightarrow> Some (False, w)
      | Some e \<Rightarrow> (case execute e of None \<Rightarrow> None | Some h \<Rightarrow> Some (call h (Some line) w)))"

text \<open>One message of the AT task: the type is taken before the line end is removed.\<close>

definition at_task_msg :: "'w at_call \<Rightarrow> at_tables \<Rightarrow> byte list \<Rightarrow> 'w \<Rightarrow> 'w option" where
  "at_task_msg call t buffer w =
     (let line = str_remove_cr_lf buffer
      in case at_check_cmdtype buffer of
           AT_SHORT_CMD \<Rightarrow> map_option snd (at_parse_short_cmd call (at_registered_short_commands t) line w)
         | AT_PLUS_CMD \<Rightarrow> map_option snd (at_parse_plus_cmd call (at_registered_commands t) line w)
         | AT_CMD_INVALID \<Rightarrow> Some w)"

end
