(* ===== verification/At_List.thy ===== *)
theory At_List
  imports At_Cmd
begin

text \<open>
  The commands \<^verbatim>\<open>at_cmd_init\<close> of \<^verbatim>\<open>components/atcmd/at_list.c\<close> registers.  Commands are told apart by their hash
  alone: the table is right because the hashes of the names differ and the table has room.
\<close>

section \<open>The model\<close>

text \<open>The commands of \<open>at_cmd_init\<close>, in order, for a project without the optional parts: a name with its
  getter, setter, test and execute handlers.\<close>

type_synonym at_reg = "string \<times> string option \<times> string option \<times> string option \<times> string option"

definition at_short_cmds :: "at_reg list" where
  "at_short_cmds = [
     (''AT'', None, None, None, Some ''at_at_excute''),
     (''ATE0'', None, None, None, Some ''at_ate0_excute''),
     (''ATE1'', None, None, None, Some ''at_ate1_excute'')]"

definition at_plus_cmds :: "at_reg list" where
  "at_plus_cmds = [
     (''RST'', None, None, None, Some ''at_rst_excute''),
     (''GMR'', None, None, None, Some ''at_gmr_excute''),
     (''GSLP'', None, Some ''at_gslp_excute'', None, None),
     (''RESTORE'', None, None, None, Some ''at_restore_excute''),
     (''SLEEP'', Some ''at_sleep_get'', Some ''at_sleep_set'', None, None),
     (''CWMODE'', Some ''at_get_wifi_mode'', Some ''at_set_wifi_mode'', Some ''at_help_wifi_mode'', None),
     (''CWMODE_CUR'', Some ''at_get_wifi_mode_current'', Some ''at_set_wifi_mode_current'', Some ''at_help_wifi_mode_current'', None),
     (''CWMODE_DEF'', Some ''at_get_wifi_mode_def'', Some ''at_set_wifi_mode_def'', Some ''at_help_wifi_mode_def'', None),
     (''CWJAP'', Some ''at_station_get_connected_info'', Some ''at_station_connect'', None, None),
     (''CWJAP_CUR'', Some ''at_station_get_connected_info_current'', Some ''at_station_connect_current'', None, None),
     (''CWJAP_DEF'', Some ''at_station_get_connected_info_def'', Some ''at_station_connect'', None, None),
     (''CWSAP'', Some ''at_softap_get_config'', Some ''at_softap_set_config'', None, None),
     (''CWSAP_CUR'', Some ''at_softap_get_config_current'', Some ''at_softap_set_config_current'', None, None),
     (''CWSAP_DEF'', Some ''at_softap_get_config_def'', Some ''at_softap_set_config_def'', None, None),
     (''CIPSTAMAC'', Some ''at_station_getmac'', Some ''at_station_setmac'', None, None),
     (''CIPSTAMAC_CUR'', Some ''at_station_getmac_current'', Some ''at_station_setmac_current'', None, None),
     (''CIPSTAMAC_DEF'', Some ''at_station_getmac_def'', Some ''at_station_setmac_def'', None, None),
     (''CIPAPMAC'', Some ''at_softap_getmac'', Some ''at_softap_setmac'', None, None),
     (''CIPAPMAC_CUR'', Some ''at_softap_getmac_current'', Some ''at_softap_setmac_current'', None, None),
     (''CIPAPMAC_DEF'', Some ''at_softap_getmac_def'', Some ''at_softap_setmac_def'', None, None),
     (''CIPSTA'', Some ''at_get_sta_ip'', Some ''at_set_sta_ip_cur'', None, None),
     (''CIPSTA_CUR'', Some ''at_get_sta_ip_cur'', Some ''at_set_sta_ip_cur'', None, None),
     (''CIPSTA_DEF'', Some ''at_get_sta_ip_def'', Some ''at_set_sta_ip_def'', None, None),
     (''CIPAP'', Some ''at_get_ap_ip'', Some ''at_set_ap_ip_def'', None, None),
     (''CIPAP_CUR'', Some ''at_get_ap_ip_cur'', Some ''at_set_ap_ip_cur'', None, None),
     (''CIPAP_DEF'', Some ''at_get_ap_ip_def'', Some ''at_set_ap_ip_def'', None, None),
     (''CWLAP'', None, Some ''at_station_scan'', None, Some ''at_station_scan_no_filter''),
     (''CWQAP'', None, None, None, Some ''at_station_disconnect''),
     (''CWLAPOPT'', None, Some ''at_station_set_scan_list_display_option'', None, None),
     (''CWLIF'', None, None, None, Some ''at_softap_get_station_list''),
     (''CWAUTOCONN'', Some ''at_get_station_auto_connect'', Some ''at_set_station_auto_connect'', None, None),
     (''CWHOSTNAME'', Some ''at_get_sta_host_name'', Some ''at_set_sta_host_name'', None, None),
     (''CWDHCP'', Some ''at_get_dhcp_def'', Some ''at_set_dhcp_def'', None, None),
     (''CWDHCP_CUR'', Some ''at_get_dhcp_cur'', Some ''at_set_dhcp_cur'', None, None),
     (''CWDHCP_DEF'', Some ''at_get_dhcp_def'', Some ''at_set_dhcp_def'', None, None),
     (''CWDHCPS_CUR'', Some ''at_get_dhcps_cur'', Some ''at_set_dhcps_cur'', None, None),
     (''CWDHCPS_DEF'', Some ''at_get_dhcps_def'', Some ''at_set_dhcps_def'', None, None),
     (''PING'', None, Some ''at_ping'', None, None),
     (''PVTCMD'', None, Some ''at_pvtcmd_set'', None, None),
     (''CPUUSG'', Some ''at_get_cpu_usage'', None, None, Some ''at_get_cpu_usage''),
     (''GETHEAPSIZE'', None, None, None, Some ''at_get_heap_size''),
     (''RF_TEST_DESTORY'', None, Some ''at_rf_test_destory'', None, None),
     (''TXPOWER_COMP'', Some ''at_get_tx_power_comp'', Some ''at_set_tx_power_comp'', None, None),
     (''XTAL_COMP'', Some ''at_get_xtal_cap_comp'', Some ''at_set_xtal_cap_comp'', None, None),
     (''IPERF'', None, Some ''at_iperf'', None, None),
     (''CSN'', Some ''at_get_chip_sn'', Some ''at_set_chip_sn'', None, None),
     (''CEFUSE'', Some ''at_get_efuse'', Some ''at_set_efuse'', None, None),
     (''SW_VERSION'', None, None, None, Some ''at_software_version'')]"

definition at_cmd_init :: "at_tables \<Rightarrow> at_tables" where
  "at_cmd_init t = fold (\<lambda>(name, g, s, tst, e). at_register_command name g s tst e) at_plus_cmds
     (fold (\<lambda>(name, g, s, tst, e). at_register_short_command name g s tst e) at_short_cmds t)"

text \<open>The arrays before, all zero.\<close>

definition at_tables_zero :: at_tables where
  "at_tables_zero = \<lparr>at_registered_commands = replicate AT_PLUS_CMD_NUM at_command_unused,
     at_registered_short_commands = replicate AT_SHORT_CMD_NUM at_command_unused\<rparr>"

section \<open>The table after start-up\<close>

lemma plus_hashes: "map (\<lambda>c. at_hash (str_bytes (fst c))) at_plus_cmds =
  [193469118, 193456939, 2089118107, 1390961449, 235392382, 2860158212, 1333178189, 1333178738, 216818266,
   2531213219, 2531213768, 216828067, 1269523052, 1269523601, 2740451770, 503809795, 503810344, 61566339,
   2668738380, 2668738929, 2843668009, 241244914, 241245463, 216321682, 2032338907, 2032339456, 216820444,
   216825889, 805709839, 216820698, 808876006, 3593534430, 2859827134, 3837816583, 3837817132, 2080651418,
   2080651967, 2089430707, 3367971187, 2852151292, 121257342, 3722163781, 1174789100, 3324766508, 223677339,
   193452777, 2838567104, 1255296468]"
  by code_simp

lemma short_hashes: "map (\<lambda>c. at_hash (str_bytes (fst c))) at_short_cmds = [5862138, 2088903311, 2088903312]"
  by code_simp

fun at_entry :: "at_reg \<Rightarrow> AT_COMMAND" where
  "at_entry (name, g, s, tst, e) = \<lparr>at_hash_of = at_hash (str_bytes name), getter = g, setter = s, test = tst, execute = e\<rparr>"

lemma at_entry_hash [simp]: "at_hash_of (at_entry c) = at_hash (str_bytes (fst c))"
  by (cases c) simp

lemma table_put_free: "0 \<notin> at_hash_of ` set es \<Longrightarrow> at_table_put c (es @ at_command_unused # rest) = es @ c # rest"
  by (induction es) (auto simp: at_command_unused_def)

lemma fold_register:
  assumes "0 \<notin> set (map (\<lambda>c. at_hash (str_bytes (fst c))) cs)" "0 \<notin> at_hash_of ` set es" "length cs \<le> n"
  shows "fold (\<lambda>c. at_table_put (at_entry c)) cs (es @ replicate n at_command_unused)
    = es @ map at_entry cs @ replicate (n - length cs) at_command_unused"
  using assms
proof (induction cs arbitrary: es n)
  case (Cons c cs)
  obtain k where n: "n = Suc k" using Cons.prems(3) by (cases n) auto
  have "fold (\<lambda>c. at_table_put (at_entry c)) cs ((es @ [at_entry c]) @ replicate k at_command_unused)
      = (es @ [at_entry c]) @ map at_entry cs @ replicate (k - length cs) at_command_unused"
    using Cons.prems by (intro Cons.IH) (auto simp: n)
  then show ?case using Cons.prems(2) by (simp add: n table_put_free)
qed simp

lemma at_cmd_init_eq:
  "at_cmd_init at_tables_zero = \<lparr>at_registered_commands = map at_entry at_plus_cmds @ replicate 32 at_command_unused,
     at_registered_short_commands = map at_entry at_short_cmds\<rparr>"
proof -
  have len: "length at_plus_cmds = 48" "length at_short_cmds = 3" by (simp_all add: at_plus_cmds_def at_short_cmds_def)
  have short: "fold (\<lambda>(name, g, s, tst, e). at_register_short_command name g s tst e) cs t
      = t\<lparr>at_registered_short_commands := fold (\<lambda>c. at_table_put (at_entry c)) cs (at_registered_short_commands t)\<rparr>" for cs t
    by (induction cs arbitrary: t) (auto simp: at_register_short_command_def)
  have plus: "fold (\<lambda>(name, g, s, tst, e). at_register_command name g s tst e) cs t
      = t\<lparr>at_registered_commands := fold (\<lambda>c. at_table_put (at_entry c)) cs (at_registered_commands t)\<rparr>" for cs t
    by (induction cs arbitrary: t) (auto simp: at_register_command_def)
  have "fold (\<lambda>c. at_table_put (at_entry c)) at_plus_cmds (replicate 80 at_command_unused)
      = map at_entry at_plus_cmds @ replicate 32 at_command_unused"
    using fold_register [of at_plus_cmds "[]" 80] len by (simp add: plus_hashes)
  moreover have "fold (\<lambda>c. at_table_put (at_entry c)) at_short_cmds (replicate 3 at_command_unused) = map at_entry at_short_cmds"
    using fold_register [of at_short_cmds "[]" 3] len by (simp add: short_hashes)
  ultimately show ?thesis
    by (simp add: at_cmd_init_def short plus at_tables_zero_def AT_PLUS_CMD_NUM_def AT_SHORT_CMD_NUM_def)
qed

lemma find_distinct: "x \<in> set xs \<Longrightarrow> distinct (map h xs) \<Longrightarrow> (\<And>y. P (f y) \<longleftrightarrow> h y = h x) \<Longrightarrow> find P (map f xs @ ys) = Some (f x)"
  by (induction xs) (auto simp: rev_image_eqI)

lemma at_plus_find:
  assumes "c \<in> set at_plus_cmds"
  shows "find (\<lambda>e. at_hash_of e = at_hash (str_bytes (fst c))) (at_registered_commands (at_cmd_init at_tables_zero)) = Some (at_entry c)"
proof -
  have "distinct (map (\<lambda>c. at_hash (str_bytes (fst c))) at_plus_cmds)" by (simp add: plus_hashes)
  then show ?thesis using assms by (simp add: at_cmd_init_eq find_distinct [where h = "\<lambda>c. at_hash (str_bytes (fst c))"])
qed

end
