(* ===== verification/Console.thy ===== *)
theory Console
  imports At_List
begin

text \<open>
  The console, \<^verbatim>\<open>components/atcmd/console.c\<close>, in front of the AT task: bytes read from the serial port are
  echoed and collected until the buffer holds a carriage return and a line feed; the line is then handed
  to the AT task, and the console waits until it is done with it.  What the AT task does with the line is
  the argument \<open>exe\<close>.  A write outside a buffer is \<open>None\<close>.
\<close>

section \<open>The model\<close>

definition CMD_CBSIZE :: nat where "CMD_CBSIZE = 256"
definition CMD_PBSIZE :: nat where "CMD_PBSIZE = 256"

record console =
  console_cmd_buffer :: "byte list"
  cmd_line :: "byte list"
  cindex :: nat
  cecho :: bool

text \<open>Whether the string holds the line end.\<close>

fun has_crlf :: "byte list \<Rightarrow> bool" where
  "has_crlf (a # b # bs) = (a = 0x0D \<and> b = 0x0A \<or> has_crlf (b # bs))"
| "has_crlf _ = False"

definition console_clear :: "console \<Rightarrow> console" where
  "console_clear c = c\<lparr>console_cmd_buffer := replicate CMD_CBSIZE 0, cindex := 0\<rparr>"

definition lookup_cmd_line :: "(byte list \<Rightarrow> 'w \<Rightarrow> 'w option) \<Rightarrow> byte \<Rightarrow> console \<times> byte list \<times> 'w \<Rightarrow> (console \<times> byte list \<times> 'w) option" where
  "lookup_cmd_line exe ch = (\<lambda>(c, out, w).
     if length (console_cmd_buffer c) \<le> cindex c then None
     else
       let out = (if cecho c then out @ [ch] else out);
           c = c\<lparr>console_cmd_buffer := (console_cmd_buffer c)[cindex c := ch], cindex := cindex c + 1\<rparr>
       in if cindex c \<ge> CMD_CBSIZE then Some (console_clear c, out, w)
          else if ch \<noteq> 0x0A \<and> ch \<noteq> 0x0D then Some (c, out, w)
          else if has_crlf (c_str (console_cmd_buffer c))
          then (let c = c\<lparr>cmd_line := take (cindex c) (console_cmd_buffer c) @ replicate (CMD_PBSIZE - cindex c) 0\<rparr>
                in case exe (c_str (cmd_line c)) w of None \<Rightarrow> None | Some w \<Rightarrow> Some (console_clear c, out, w))
          else Some (c, out, w))"

definition console_init :: "console \<Rightarrow> console" where
  "console_init c = console_clear (c\<lparr>cecho := True\<rparr>)"

definition console_echo_enable :: "bool \<Rightarrow> console \<Rightarrow> console" where
  "console_echo_enable en c = c\<lparr>cecho := en\<rparr>"

text \<open>The loop of the console task over the bytes it reads.\<close>

fun console_feed :: "(byte list \<Rightarrow> 'w \<Rightarrow> 'w option) \<Rightarrow> byte list \<Rightarrow> console \<times> byte list \<times> 'w \<Rightarrow> (console \<times> byte list \<times> 'w) option" where
  "console_feed exe [] st = Some st"
| "console_feed exe (b # bs) st = (case lookup_cmd_line exe b st of None \<Rightarrow> None | Some st' \<Rightarrow> console_feed exe bs st')"

section \<open>The buffer\<close>

definition console_ok :: "console \<Rightarrow> bool" where
  "console_ok c \<longleftrightarrow> length (console_cmd_buffer c) = CMD_CBSIZE \<and> cindex c < CMD_CBSIZE"

lemma console_step_ok:
  assumes "console_ok c" "\<And>l w. exe l w \<noteq> None"
  shows "\<exists>c' out' w'. lookup_cmd_line exe ch (c, out, w) = Some (c', out', w') \<and> console_ok c'
    \<and> out' = (if cecho c then out @ [ch] else out) \<and> cecho c' = cecho c"
proof -
  define f where "f = (\<lambda>l w. the (exe l w))"
  have "exe l w = Some (f l w)" for l w using assms(2) [of l w] by (auto simp: f_def)
  then show ?thesis using assms(1) by (auto simp: lookup_cmd_line_def console_ok_def console_clear_def Let_def CMD_CBSIZE_def)
qed


definition demo_console :: console where
  "demo_console = console_init \<lparr>console_cmd_buffer = [], cmd_line = [], cindex = 7, cecho = False\<rparr>"

lemma demo_console_ok: "console_ok demo_console" "cecho demo_console" "cindex demo_console = 0"
    "console_cmd_buffer demo_console = replicate CMD_CBSIZE 0"
  by (simp_all add: demo_console_def console_init_def console_clear_def console_ok_def CMD_CBSIZE_def)


section \<open>Collecting a line\<close>

definition plain :: "byte list \<Rightarrow> bool" where
  "plain bs \<longleftrightarrow> 0 \<notin> set bs \<and> 0x0D \<notin> set bs \<and> 0x0A \<notin> set bs"

definition collected :: "byte list \<Rightarrow> console \<Rightarrow> bool" where
  "collected bs c \<longleftrightarrow> console_cmd_buffer c = bs @ replicate (CMD_CBSIZE - length bs) 0 \<and> cindex c = length bs"

lemma has_crlf_no_lf: "0x0A \<notin> set bs \<Longrightarrow> \<not> has_crlf bs"
  by (induction bs rule: has_crlf.induct) auto

lemma has_crlf_end: "has_crlf (bs @ [0x0D, 0x0A])"
proof (induction bs)
  case (Cons a bs)
  then show ?case by (cases bs) auto
qed simp

lemma c_str_zeros: "0 \<notin> set bs \<Longrightarrow> c_str (bs @ replicate n 0) = bs"
  by (cases n) (auto simp: c_str_def takeWhile_append)

lemma collect_step:
  assumes "collected bs c" "length bs + 1 < CMD_CBSIZE" "plain bs" "ch \<noteq> 0x0A" "ch \<noteq> 0"
  shows "\<exists>c'. lookup_cmd_line exe ch (c, out, w) = Some (c', if cecho c then out @ [ch] else out, w) \<and> collected (bs @ [ch]) c' \<and> cecho c' = cecho c"
proof -
  let ?c = "c\<lparr>console_cmd_buffer := (console_cmd_buffer c)[cindex c := ch], cindex := cindex c + 1\<rparr>"
  obtain k where k: "CMD_CBSIZE - length bs = Suc k" using assms(2) by (metis Suc_diff_Suc add_lessD1)
  have buf: "console_cmd_buffer ?c = (bs @ [ch]) @ replicate k 0" using assms(1) k by (simp add: collected_def list_update_append)
  have c: "collected (bs @ [ch]) ?c" unfolding collected_def
    using buf assms(1) k by (simp add: collected_def)
  have "c_str (console_cmd_buffer ?c) = bs @ [ch]" unfolding buf using assms(3,5) by (intro c_str_zeros) (auto simp: plain_def)
  then have "\<not> has_crlf (c_str (console_cmd_buffer ?c))" using has_crlf_no_lf [of "bs @ [ch]"] assms(3,4) by (auto simp: plain_def)
  then show ?thesis using assms(1,2,4) c by (auto simp: lookup_cmd_line_def collected_def Let_def)
qed

lemma collect_line:
  assumes "collected pre c" "plain pre" "plain bs" "length pre + length bs < CMD_CBSIZE" "cecho c"
  shows "\<exists>c'. console_feed exe bs (c, out, w) = Some (c', out @ bs, w) \<and> collected (pre @ bs) c' \<and> cecho c'"
  using assms
proof (induction bs arbitrary: pre c out)
  case (Cons b bs)
  have b: "plain (pre @ [b])" "b \<noteq> 0x0A" "b \<noteq> 0" "plain bs" using Cons.prems(2,3) by (auto simp: plain_def)
  obtain c1 where c1: "lookup_cmd_line exe b (c, out, w) = Some (c1, out @ [b], w)" "collected (pre @ [b]) c1" "cecho c1"
    using collect_step [OF Cons.prems(1) _ Cons.prems(2) b(2,3), of exe out w] Cons.prems(4,5) by auto
  have "length (pre @ [b]) + length bs < CMD_CBSIZE" using Cons.prems(4) by simp
  from Cons.IH [OF c1(2) b(1,4) this c1(3), of "out @ [b]"] show ?case using c1(1) by simp
qed simp

lemma console_feed_append: "console_feed exe (xs @ ys) st = (case console_feed exe xs st of None \<Rightarrow> None | Some st' \<Rightarrow> console_feed exe ys st')"
  by (induction exe xs st rule: console_feed.induct) (auto split: option.splits)

text \<open>A whole line is handed over once, and the console is ready for the next.\<close>

lemma feed_line:
  assumes "collected [] c" "plain line" "length line + 2 < CMD_CBSIZE" "cecho c"
  shows "\<exists>c'. console_feed exe (line @ [0x0D, 0x0A]) (c, out, w)
      = (case exe (line @ [0x0D, 0x0A]) w of None \<Rightarrow> None | Some w' \<Rightarrow> Some (c', out @ line @ [0x0D, 0x0A], w'))
    \<and> collected [] c' \<and> cecho c'"
proof -
  let ?l = "line @ [0x0D, 0x0A]"
  obtain c1 where c1: "console_feed exe line (c, out, w) = Some (c1, out @ line, w)" "collected line c1" "cecho c1"
    using collect_line [OF assms(1) _ assms(2) _ assms(4), of exe out w] assms(3) by (auto simp: plain_def)
  obtain c2 where c2: "lookup_cmd_line exe 0x0D (c1, out @ line, w) = Some (c2, out @ line @ [0x0D], w)" "collected (line @ [0x0D]) c2" "cecho c2"
    using collect_step [OF c1(2) _ assms(2), of "0x0D" exe "out @ line" w] assms(3) c1(3) by auto
  obtain k where k: "CMD_CBSIZE - length (line @ [0x0D :: byte]) = Suc k" using assms(3)
    by (cases "CMD_CBSIZE - length (line @ [0x0D :: byte])") auto
  have n: "CMD_CBSIZE - length ?l = k" "CMD_PBSIZE = CMD_CBSIZE" using k by (simp_all add: CMD_PBSIZE_def CMD_CBSIZE_def)
  let ?c = "c2\<lparr>console_cmd_buffer := (console_cmd_buffer c2)[cindex c2 := 0x0A], cindex := cindex c2 + 1\<rparr>"
  have buf: "console_cmd_buffer ?c = ?l @ replicate k 0"
    using c2(2) k by (simp add: collected_def list_update_append)
  have idx: "cindex ?c = length ?l" using c2(2) by (simp add: collected_def)
  have z: "0 \<notin> set ?l" using assms(2) by (auto simp: plain_def)
  have str: "c_str (console_cmd_buffer ?c) = ?l" "c_str (take (cindex ?c) (console_cmd_buffer ?c) @ replicate (CMD_PBSIZE - cindex ?c) 0) = ?l"
    unfolding buf idx using c_str_zeros [OF z] by simp_all
  let ?c' = "console_clear (?c\<lparr>cmd_line := take (cindex ?c) (console_cmd_buffer ?c) @ replicate (CMD_PBSIZE - cindex ?c) 0\<rparr>)"
  have in_buf: "\<not> length (console_cmd_buffer c2) \<le> cindex c2" "\<not> CMD_CBSIZE \<le> cindex ?c"
    using c2(2) assms(3) unfolding collected_def by simp_all
  have "lookup_cmd_line exe 0x0A (c2, out @ line @ [0x0D], w) = (case exe ?l w of None \<Rightarrow> None | Some w' \<Rightarrow> Some (?c', out @ ?l, w'))"
    using in_buf str has_crlf_end [of line] c2(3) unfolding lookup_cmd_line_def Let_def by (simp del: list_update.simps split: option.splits)
  moreover have "collected [] ?c' \<and> cecho ?c'" using c2(3) by (simp add: collected_def console_clear_def)
  moreover have "console_feed exe ?l (c, out, w) = lookup_cmd_line exe 0x0A (c2, out @ line @ [0x0D], w)"
    using c1(1) c2(1) by (simp add: console_feed_append split: option.splits)
  ultimately show ?thesis by metis
qed

section \<open>From the serial line to the handler\<close>

text \<open>A line that asks for a command: its name, and what follows it.\<close>

fun at_suffix :: "at_state \<Rightarrow> byte list \<Rightarrow> byte list" where
  "at_suffix AT_PARSER_STATE_COMMAND v = []"
| "at_suffix AT_PARSER_STATE_READ v = [0x3F]"
| "at_suffix AT_PARSER_STATE_TEST v = [0x3D, 0x3F]"
| "at_suffix AT_PARSER_STATE_WRITE v = 0x3D # v"

definition at_line :: "at_state \<Rightarrow> byte list \<Rightarrow> byte list \<Rightarrow> byte list" where
  "at_line st name v = str_bytes ''AT+'' @ name @ at_suffix st v"

definition at_name :: "byte list \<Rightarrow> bool" where
  "at_name name \<longleftrightarrow> name \<noteq> [] \<and> plain name \<and> 0x3F \<notin> set name \<and> 0x3D \<notin> set name"

definition at_value :: "at_state \<Rightarrow> byte list \<Rightarrow> bool" where
  "at_value st v \<longleftrightarrow> st = AT_PARSER_STATE_WRITE \<longrightarrow> v \<noteq> [] \<and> hd v \<noteq> 0x3F \<and> plain v"

lemma scan_name:
  assumes "0x3F \<notin> set name" "0x3D \<notin> set name"
  shows "at_scan_loop n i (name @ rest) = at_scan_loop n (i + length name) rest"
  using assms by (induction name arbitrary: i) auto

lemma scan_line:
  assumes "at_name name" "at_value st v"
  shows "at_scan_loop (length (at_line st name v)) 3 (name @ at_suffix st v)
    = Scanned st (2 + length name) (if st = AT_PARSER_STATE_WRITE then Some (4 + length name) else None)"
proof -
  have "at_scan_loop (length (at_line st name v)) 3 (name @ at_suffix st v)
      = at_scan_loop (length (at_line st name v)) (3 + length name) (at_suffix st v)"
    using assms(1) by (intro scan_name) (simp_all add: at_name_def)
  then show ?thesis using assms by (cases st; cases v) (auto simp: at_name_def at_value_def at_line_def str_bytes_def)
qed

lemma find_marker:
  assumes "name \<noteq> []"
  shows "at_str_find (at_line st name v) AT_COMMAND_MARKER = 0"
proof -
  obtain k where k: "length (at_line st name v) - 3 = Suc k" using assms by (cases name) (auto simp: at_line_def str_bytes_def)
  have "at_str_equal (at_line st name v) 3 AT_COMMAND_MARKER 3"
    by (simp add: at_str_equal_def AT_COMMAND_MARKER_def at_line_def str_bytes_def upt_rec)
  moreover have "length AT_COMMAND_MARKER = 3" "3 < length (at_line st name v)" using k by (simp_all add: AT_COMMAND_MARKER_def str_bytes_def)
  ultimately show ?thesis using k by (simp add: at_str_find_def Let_def upt_rec [of 0 "Suc k"] del: upt_Suc)
qed

lemma parse_line:
  assumes "at_name name" "at_value st v"
  shows "at_parse_plus_cmd call cmds (at_line st name v) w
    = (if length name \<le> 48 then Some (at_execute_command call cmds name (if st = AT_PARSER_STATE_WRITE then Some v else None) st w) else None)"
proof -
  have m: "length AT_COMMAND_MARKER = 3" by (simp add: AT_COMMAND_MARKER_def str_bytes_def)
  have d: "drop 3 (at_line st name v) = name @ at_suffix st v" by (simp add: at_line_def str_bytes_def)
  have slice: "map (\<lambda>i. at_line st name v ! i) [3..<2 + length name + 1] = name"
  proof -
    have "map (\<lambda>i. at_line st name v ! i) [3..<3 + length name] = take (length name) (drop 3 (at_line st name v))"
      by (rule nth_equalityI) (auto simp: at_line_def str_bytes_def nth_append)
    moreover have "2 + length name + 1 = 3 + length name" by simp
    ultimately show ?thesis using d by (metis append_eq_conv_conj)
  qed
  have val: "drop (4 + length name) (at_line AT_PARSER_STATE_WRITE name v) = v"
  proof -
    have "at_line AT_PARSER_STATE_WRITE name v = (str_bytes ''AT+'' @ name @ [0x3D]) @ v" by (simp add: at_line_def)
    moreover have "length (str_bytes ''AT+'' @ name @ [0x3D]) = 4 + length name" by (simp add: str_bytes_def)
    ultimately show ?thesis by (metis append_eq_conv_conj)
  qed
  show ?thesis
    using assms find_marker [of name st v] scan_line [OF assms] slice val
    by (auto simp: at_parse_plus_cmd_def m d at_array_slice_to_string_def AT_MAX_TEMP_STRING_def Let_def at_name_def)
qed

lemma task_line:
  assumes "at_name name" "at_value st v" "length (at_line st name v) + 2 < CMD_CBSIZE"
  shows "at_task_msg call t (at_line st name v @ [0x0D, 0x0A]) w = (if length name \<le> 48
    then Some (snd (at_execute_command call (at_registered_commands t) name (if st = AT_PARSER_STATE_WRITE then Some v else None) st w)) else None)"
proof -
  have "plain (at_line st name v)" using assms(1,2) by (cases st) (auto simp: plain_def at_line_def at_name_def at_value_def str_bytes_def)
  then have "str_remove_cr_lf (at_line st name v @ [0x0D, 0x0A]) = at_line st name v"
    by (auto simp: str_remove_cr_lf_def plain_def takeWhile_append)
  moreover have "at_check_cmdtype (at_line st name v @ [0x0D, 0x0A]) = AT_PLUS_CMD"
    using assms(1,3) by (simp add: at_check_cmdtype_def Let_def at_line_def str_bytes_def CMD_CBSIZE_def)
  ultimately have "at_task_msg call t (at_line st name v @ [0x0D, 0x0A]) w
      = map_option snd (at_parse_plus_cmd call (at_registered_commands t) (at_line st name v) w)" by (simp add: at_task_msg_def Let_def)
  then show ?thesis unfolding parse_line [OF assms(1,2)] by simp
qed

text \<open>What running a registered command does: its handler for the kind of line, if it has one, with the value.\<close>

definition at_run :: "'w at_call \<Rightarrow> at_reg \<Rightarrow> at_state \<Rightarrow> byte list \<Rightarrow> 'w \<Rightarrow> 'w" where
  "at_run call c st v w = (case at_handler st (at_entry c) of None \<Rightarrow> w
     | Some h \<Rightarrow> snd (call h (if st = AT_PARSER_STATE_WRITE then Some v else None) w))"

lemma plus_names: "c \<in> set at_plus_cmds \<Longrightarrow> at_name (str_bytes (fst c)) \<and> length (fst c) \<le> 48"
proof -
  have "list_all (\<lambda>c. at_name (str_bytes (fst c)) \<and> length (fst c) \<le> 48) at_plus_cmds"
    unfolding at_plus_cmds_def at_name_def plain_def str_bytes_def by simp
  then show "c \<in> set at_plus_cmds \<Longrightarrow> at_name (str_bytes (fst c)) \<and> length (fst c) \<le> 48" by (auto simp: list_all_iff)
qed

lemma registered_line_runs:
  assumes "c \<in> set at_plus_cmds" "at_value st v" "length (at_line st (str_bytes (fst c)) v) + 2 < CMD_CBSIZE"
    and "collected [] con" "cecho con"
  shows "\<exists>con'. console_feed (at_task_msg call (at_cmd_init at_tables_zero)) (at_line st (str_bytes (fst c)) v @ [0x0D, 0x0A]) (con, out, w)
      = Some (con', out @ at_line st (str_bytes (fst c)) v @ [0x0D, 0x0A], at_run call c st v w)
    \<and> collected [] con' \<and> cecho con'"
proof -
  let ?t = "at_cmd_init at_tables_zero" and ?name = "str_bytes (fst c)"
  have name: "at_name ?name" "length ?name \<le> 48" using plus_names [OF assms(1)] by (simp_all add: str_bytes_def)
  have "plain (at_line st ?name v)" using name(1) assms(2)
    by (cases st) (auto simp: plain_def at_line_def at_name_def at_value_def str_bytes_def)
  then obtain con' where con': "console_feed (at_task_msg call ?t) (at_line st ?name v @ [0x0D, 0x0A]) (con, out, w)
      = (case at_task_msg call ?t (at_line st ?name v @ [0x0D, 0x0A]) w of None \<Rightarrow> None
         | Some w' \<Rightarrow> Some (con', out @ at_line st ?name v @ [0x0D, 0x0A], w'))" "collected [] con'" "cecho con'"
    using feed_line [OF assms(4) _ assms(3,5), of "at_task_msg call ?t" out w] by blast
  have "at_task_msg call ?t (at_line st ?name v @ [0x0D, 0x0A]) w = Some (at_run call c st v w)"
    using task_line [OF name(1) assms(2,3), of call ?t w] name(2) at_plus_find [OF assms(1)]
    by (simp add: at_execute_command_def at_run_def split: option.splits)
  then show ?thesis using con' by auto
qed

text \<open>C30: A command typed on the console reaches its handler: for every registered command and each of the four kinds
  of line, feeding the characters of the line and its end to the console one by one echoes them, runs
  the handler the command was registered with for that kind, once and with the value given, and leaves
  the console ready for the next line.\<close>

theorem at_line_reaches_handler:
  assumes "c \<in> set at_plus_cmds" "at_value st v" "length (at_line st (str_bytes (fst c)) v) + 2 < CMD_CBSIZE"
    and "collected [] con" "cecho con"
  shows "\<exists>con'. console_feed (at_task_msg call (at_cmd_init at_tables_zero)) (at_line st (str_bytes (fst c)) v @ [0x0D, 0x0A]) (con, out, w)
      = Some (con', out @ at_line st (str_bytes (fst c)) v @ [0x0D, 0x0A], at_run call c st v w)
    \<and> collected [] con' \<and> cecho con'"
  by (rule registered_line_runs [OF assms])

theorem at_line_reaches_handler_witness:
  "\<exists>con'. console_feed (at_task_msg (\<lambda>h v w. (True, w @ [(h, v)])) (at_cmd_init at_tables_zero))
      (str_bytes ''AT+CWMODE=1'' @ [0x0D, 0x0A]) (demo_console, [], [])
    = Some (con', str_bytes ''AT+CWMODE=1'' @ [0x0D, 0x0A], [(''at_set_wifi_mode'', Some (str_bytes ''1''))])"
proof -
  let ?c = "(''CWMODE'', Some ''at_get_wifi_mode'', Some ''at_set_wifi_mode'', Some ''at_help_wifi_mode'', None)"
  have "?c \<in> set at_plus_cmds" by (simp add: at_plus_cmds_def)
  moreover have "collected [] demo_console" by (simp add: collected_def demo_console_ok)
  ultimately show ?thesis
    using at_line_reaches_handler [of ?c AT_PARSER_STATE_WRITE "str_bytes ''1''" demo_console "\<lambda>h v w. (True, w @ [(h, v)])" "[]" "[]"]
      demo_console_ok(2)
    by (auto simp: at_value_def plain_def at_line_def str_bytes_def CMD_CBSIZE_def at_run_def at_handler_def)
qed

text \<open>A name of more than 48 characters, which the console takes, overruns the array of 50 bytes on the stack of the
  AT task, whatever the table holds.\<close>

lemma at_long_name_overruns:
  assumes "at_name name" "48 < length name" "length name + 5 < CMD_CBSIZE" "collected [] con" "cecho con"
  shows "console_feed (at_task_msg call t) (str_bytes ''AT+'' @ name @ [0x0D, 0x0A]) (con, out, w) = None"
proof -
  let ?l = "at_line AT_PARSER_STATE_COMMAND name []"
  have v: "at_value AT_PARSER_STATE_COMMAND []" by (simp add: at_value_def)
  have len: "length ?l + 2 < CMD_CBSIZE" using assms(3) by (simp add: at_line_def str_bytes_def)
  have "plain ?l" using assms(1) by (auto simp: plain_def at_line_def at_name_def str_bytes_def)
  then show ?thesis
    using feed_line [OF assms(4) _ len assms(5), of "at_task_msg call t" out w] task_line [OF assms(1) v len, of call t w] assms(2)
    by (auto simp: at_line_def)
qed

lemma at_long_name_overruns_witness:
  "console_feed (at_task_msg (\<lambda>h v w. (True, w)) at_tables_zero) (str_bytes ''AT+'' @ replicate 49 0x41 @ [0x0D, 0x0A])
     (demo_console, [], ()) = None"
  using at_long_name_overruns [of "replicate 49 0x41" demo_console] demo_console_ok
  by (simp add: at_name_def plain_def CMD_CBSIZE_def collected_def)

end
