(* ===== verification/At_Wifi.thy ===== *)
theory At_Wifi
  imports Console Sys_Param Arrays
begin

text \<open>
  Handlers of the AT commands that join a network, search for networks, choose the mode, set the addresses of the
  interfaces and the range of the DHCP server, \<^verbatim>\<open>components/atcmd/at_cmd_wifi.c\<close>.  They cut the fields out of their argument and call the Wi-Fi
  library, which is an argument of the model: the calls are noted, and the library answers them.  An argument is the array it stands in, with its null.
  \<open>None\<close> is an access outside an array or through the null pointer, or an assertion that does not hold, which stops the device.
\<close>

section \<open>The world of the handlers\<close>

datatype wlan_if = Station | Soft_Ap

record wifi_sta_config =
  st_ssid :: "byte list"
  st_password :: "byte list"
  st_bssid :: "byte list"

definition sta_config_zero :: wifi_sta_config where
  "sta_config_zero = \<lparr>st_ssid = replicate 33 0, st_password = replicate 64 0, st_bssid = replicate 6 0\<rparr>"

record wifi_scan_config =
  scan_ssid :: "byte list"
  scan_bssid :: "byte list"
  scan_channel :: u8
  scan_type :: int
  scan_active :: u16
  scan_passive :: u16

record wifi_ap_config =
  apc_ssid :: "byte list"
  apc_password :: "byte list"
  apc_ssid_len :: u8
  apc_channel :: u8
  apc_authmode :: int
  apc_ssid_hidden :: u8
  apc_max_connection :: u8

definition ap_config_zero :: wifi_ap_config where
  "ap_config_zero = \<lparr>apc_ssid = replicate 33 0, apc_password = replicate 64 0, apc_ssid_len = 0, apc_channel = 0, apc_authmode = 0,
     apc_ssid_hidden = 0, apc_max_connection = 0\<rparr>"

datatype wlan_config = Sta_Config wifi_sta_config | Ap_Config wifi_ap_config

text \<open>Modes, power saving and DHCP modes are the numbers of their enumerations; a start has these three.\<close>

definition WIFI_MODE_STATION :: int where "WIFI_MODE_STATION = 0"
definition WIFI_MODE_AP :: int where "WIFI_MODE_AP = 1"
definition WIFI_MODE_AP_STATION :: int where "WIFI_MODE_AP_STATION = 3"
definition WIFI_MODE_MAX :: int where "WIFI_MODE_MAX = 4"
definition WIFI_NO_POWERSAVE :: int where "WIFI_NO_POWERSAVE = 0"
definition WIFI_MAX_POWERSAVE :: int where "WIFI_MAX_POWERSAVE = 2"
definition DHCP_CLIENT_MODE :: int where "DHCP_CLIENT_MODE = 1"
definition DHCP_SERVER_MODE :: int where "DHCP_SERVER_MODE = 2"

datatype wlan_call =
  Set_Config wlan_if wlan_config | Set_Config_Current wlan_if wlan_config
| Station_Connect wifi_sta_config | Station_Disconnect | Station_Scan wifi_scan_config
| Set_Macaddr wlan_if "byte list" | Set_Macaddr_Current wlan_if "byte list"
| Wifi_Stop | Wifi_Set_Mode int | Wifi_Set_Mode_Current int | Wifi_Start int int int

record at_world =
  aw_out :: "byte list"
  aw_calls :: "wlan_call list"
  aw_timer :: "u32 option"
  aw_dhcpd :: dhcpd_ctrl

text \<open>What the outside answers: the library to a call, whether the link is up, whether a timer can be made, the address a text stands for, and what the
  variables that are not set hold.\<close>

record at_env =
  lib_ok :: "wlan_call \<Rightarrow> bool"
  link_up :: bool
  timer_ok :: bool
  inet_addr :: "byte list \<Rightarrow> u32"
  unset :: "nat \<Rightarrow> u32"

definition RET_OK_STR :: "byte list" where "RET_OK_STR = [13, 10] @ str_bytes ''OK'' @ [13, 10]"
definition RET_ERR_STR :: "byte list" where "RET_ERR_STR = [13, 10] @ str_bytes ''ERROR'' @ [13, 10]"
definition RET_FAIL_STR :: "byte list" where "RET_FAIL_STR = [13, 10] @ str_bytes ''FAIL'' @ [13, 10]"

definition at_printf :: "byte list \<Rightarrow> at_world \<Rightarrow> at_world" where
  "at_printf t w = w\<lparr>aw_out := aw_out w @ t\<rparr>"

definition wlan :: "wlan_call \<Rightarrow> at_world \<Rightarrow> at_world" where
  "wlan c w = w\<lparr>aw_calls := aw_calls w @ [c]\<rparr>"

definition at_ok :: "at_world \<Rightarrow> bool \<times> at_world" where
  "at_ok w = (True, at_printf RET_OK_STR w)"

definition at_fail :: "at_world \<Rightarrow> bool \<times> at_world" where
  "at_fail w = (False, at_printf RET_FAIL_STR w)"

definition at_err :: "at_world \<Rightarrow> bool \<times> at_world" where
  "at_err w = (False, at_printf RET_ERR_STR w)"

section \<open>Numbers\<close>

text \<open>\<^verbatim>\<open>atoi\<close>: white space, a sign, digits; a number that does not fit becomes the nearest one.\<close>

fun atoi_digits :: "int \<Rightarrow> byte list \<Rightarrow> int" where
  "atoi_digits n [] = n"
| "atoi_digits n (c # cs) = (if 48 \<le> c \<and> c \<le> 57 then atoi_digits (10 * n + (uint c - 48)) cs else n)"

definition atoi :: "byte list \<Rightarrow> int" where
  "atoi s =
     (let t = dropWhile (\<lambda>c. c = 32 \<or> 9 \<le> c \<and> c \<le> 13) s;
          v = (case t of [] \<Rightarrow> 0 | c # cs \<Rightarrow> if c = 45 then - atoi_digits 0 cs else if c = 43 then atoi_digits 0 cs else atoi_digits 0 t) in
      max (- (2 ^ 31)) (min (2 ^ 31 - 1) v))"

section \<open>Fields\<close>

text \<open>The field that begins at \<open>b\<close>: to the next comma or to the end of the argument.  The inner \<open>None\<close> is the jump to the error
  exit; otherwise the place where the field ends and the text cut out of it.\<close>

definition at_domain :: "byte list \<Rightarrow> nat \<Rightarrow> byte option \<Rightarrow> nat \<Rightarrow> byte list \<Rightarrow> (nat \<times> byte list) option option" where
  "at_domain str limit flag b temp_str = do {
     found \<leftarrow> c_strchr (drop b str) 44;
     let e = (case found of None \<Rightarrow> limit | Some k \<Rightarrow> b + k);
     if limit < e then Some None
     else do {
       (ok, t) \<leftarrow> art_string_extract_domain_content str (Some b) (Some e) 44 flag (Some temp_str);
       Some (if ok then Some (e, the t) else None) } }"

text \<open>A field that is not empty is given to \<open>upd\<close>, which stores it.\<close>

definition at_store :: "(byte list \<Rightarrow> 'c \<Rightarrow> 'c option) \<Rightarrow> byte list \<Rightarrow> 'c \<Rightarrow> 'c option" where
  "at_store upd t c = do { n \<leftarrow> c_strlen t; if 0 < n then upd (take (n + 1) t) c else Some c }"

text \<open>The fields after the first, in the order of the code, which repeats these lines for each: behind the end of the argument the rest is left as it
  is, or an error if the field must be there; the first \<open>k\<close> bytes of the temporary text are cleared before each field.\<close>

fun at_domains :: "byte list \<Rightarrow> nat \<Rightarrow> nat \<Rightarrow> (bool \<times> byte option \<times> (byte list \<Rightarrow> 'c \<Rightarrow> 'c option)) list \<Rightarrow> nat \<Rightarrow> byte list \<Rightarrow> 'c
    \<Rightarrow> 'c option option" where
  "at_domains str limit k [] sep t c = Some (Some c)"
| "at_domains str limit k ((required, flag, upd) # fs) sep t c =
     (if limit < sep + 1 then Some (if required then None else Some c)
      else do {
        r \<leftarrow> at_domain str limit flag (sep + 1) (replicate k 0 @ drop k t);
        case r of None \<Rightarrow> Some None
        | Some (e, t) \<Rightarrow> do { c \<leftarrow> at_store upd t c; at_domains str limit k fs e t c } })"

definition at_all_domains :: "byte list \<Rightarrow> nat \<Rightarrow> nat \<Rightarrow> byte option \<times> (byte list \<Rightarrow> 'c \<Rightarrow> 'c option)
    \<Rightarrow> (bool \<times> byte option \<times> (byte list \<Rightarrow> 'c \<Rightarrow> 'c option)) list \<Rightarrow> 'c \<Rightarrow> 'c option option" where
  "at_all_domains str n k first fs c = do {
     limit \<leftarrow> c_strlen str;
     r \<leftarrow> at_domain str limit (fst first) 0 (replicate n 0);
     case r of None \<Rightarrow> Some None
     | Some (e, t) \<Rightarrow> do { c \<leftarrow> at_store (snd first) t c; at_domains str limit k fs e t c } }"

section \<open>Joining a network\<close>

text \<open>The texts come with their null.  A \<open>memcpy\<close> of a text without it.\<close>

definition set_ssid :: "byte list \<Rightarrow> wifi_sta_config \<times> u32 \<Rightarrow> (wifi_sta_config \<times> u32) option" where
  "set_ssid t c = do { a \<leftarrow> put_run 0 (butlast t) (st_ssid (fst c)); Some ((fst c)\<lparr>st_ssid := a\<rparr>, snd c) }"

definition set_password :: "byte list \<Rightarrow> wifi_sta_config \<times> u32 \<Rightarrow> (wifi_sta_config \<times> u32) option" where
  "set_password t c = do { a \<leftarrow> put_run 0 (butlast t) (st_password (fst c)); Some ((fst c)\<lparr>st_password := a\<rparr>, snd c) }"

definition set_timeout :: "byte list \<Rightarrow> wifi_sta_config \<times> u32 \<Rightarrow> (wifi_sta_config \<times> u32) option" where
  "set_timeout t c = Some (fst c, word_of_int (atoi (butlast t)))"

definition set_bssid :: "byte list \<Rightarrow> wifi_sta_config \<times> u32 \<Rightarrow> (wifi_sta_config \<times> u32) option" where
  "set_bssid t c =
     (if ln_is_valid_mac_str (Some t) then do { (_, a) \<leftarrow> ln_mac_str2hex (Some t) (st_bssid (fst c)); Some ((fst c)\<lparr>st_bssid := a\<rparr>, snd c) }
      else Some c)"

definition at_connect_timeout :: "at_env \<Rightarrow> u32 \<Rightarrow> at_world \<Rightarrow> at_world" where
  "at_connect_timeout env timeout_ms w = w\<lparr>aw_timer := (if timer_ok env then Some timeout_ms else None)\<rparr>"

definition connect_timeout_alarm_fn :: "at_env \<Rightarrow> at_world \<Rightarrow> at_world" where
  "connect_timeout_alarm_fn env w =
     (if \<not> link_up env
      then wlan Station_Disconnect (wlan (Set_Config Station (Sta_Config sta_config_zero)) (at_printf ([13, 10] @ str_bytes ''CONNECT FAILED'' @ [13, 10]) w))
      else w)"

text \<open>\<^verbatim>\<open>sizeof(SSID_MAX_LEN)\<close> is the size of an \<^verbatim>\<open>int\<close>.\<close>

definition at_station_connect_general :: "at_env \<Rightarrow> byte list \<Rightarrow> bool \<Rightarrow> at_world \<Rightarrow> (bool \<times> at_world) option" where
  "at_station_connect_general env str save_to_flash w = do {
     r \<leftarrow> at_all_domains str 33 4 (Some 34, set_ssid) [(False, Some 34, set_password), (False, Some 34, set_timeout), (False, Some 34, set_bssid)]
       (sta_config_zero, 0);
     case r of None \<Rightarrow> Some (False, w)
     | Some (wifi_config, timeout_ms) \<Rightarrow>
         (let save = (if save_to_flash then Set_Config Station (Sta_Config wifi_config) else Set_Config_Current Station (Sta_Config wifi_config)); w = wlan save w in
          if \<not> lib_ok env save then Some (False, w)
          else
            let w = wlan (Station_Connect wifi_config) w in
            Some (True, if timeout_ms \<noteq> 0 then at_connect_timeout env timeout_ms w else w)) }"

definition at_station_connect_report :: "at_env \<Rightarrow> bool \<times> at_world \<Rightarrow> bool \<times> at_world" where
  "at_station_connect_report env r =
     (if fst r then at_ok (if link_up env then at_printf (str_bytes ''disconnect'' @ [13, 10]) (snd r) else snd r) else at_fail (snd r))"

definition at_station_connect :: "at_env \<Rightarrow> byte list \<Rightarrow> at_world \<Rightarrow> (bool \<times> at_world) option" where
  "at_station_connect env str w = map_option (at_station_connect_report env) (at_station_connect_general env str True w)"

definition at_station_connect_current :: "at_env \<Rightarrow> byte list \<Rightarrow> at_world \<Rightarrow> (bool \<times> at_world) option" where
  "at_station_connect_current env str w = map_option (at_station_connect_report env) (at_station_connect_general env str False w)"

section \<open>Searching for networks\<close>

definition set_scan_ssid :: "byte list \<Rightarrow> wifi_scan_config \<Rightarrow> wifi_scan_config option" where
  "set_scan_ssid t c = do { a \<leftarrow> put_run 0 (butlast t) (scan_ssid c); Some (c\<lparr>scan_ssid := a\<rparr>) }"

definition set_scan_bssid :: "byte list \<Rightarrow> wifi_scan_config \<Rightarrow> wifi_scan_config option" where
  "set_scan_bssid t c =
     (if ln_is_valid_mac_str (Some t) then do { (_, a) \<leftarrow> ln_mac_str2hex (Some t) (scan_bssid c); Some (c\<lparr>scan_bssid := a\<rparr>) } else Some c)"

definition at_station_parse_scan_string :: "byte list \<Rightarrow> wifi_scan_config \<Rightarrow> wifi_scan_config option option" where
  "at_station_parse_scan_string scan_str scan_cfg =
     at_all_domains scan_str 33 4 (Some 34, set_scan_ssid)
       [(False, Some 34, set_scan_bssid),
        (False, None, \<lambda>t c. Some (c\<lparr>scan_channel := word_of_int (atoi (butlast t))\<rparr>)),
        (False, None, \<lambda>t c. Some (c\<lparr>scan_type := atoi (butlast t)\<rparr>)),
        (False, None, \<lambda>t c. Some (c\<lparr>scan_active := word_of_int (atoi (butlast t))\<rparr>))]
       scan_cfg"

definition at_station_scan :: "byte list \<Rightarrow> at_world \<Rightarrow> (bool \<times> at_world) option" where
  "at_station_scan str w = do {
     r \<leftarrow> at_station_parse_scan_string str
       \<lparr>scan_ssid = replicate 33 0, scan_bssid = replicate 6 0, scan_channel = 0, scan_type = 0, scan_active = 30, scan_passive = 120\<rparr>;
     Some (case r of Some cfg \<Rightarrow> at_ok (wlan (Station_Scan cfg) w) | None \<Rightarrow> at_fail w) }"

section \<open>Modes\<close>

text \<open>The assertion admits an argument of one character only.\<close>

definition at_mode_arg :: "byte list \<Rightarrow> int option" where
  "at_mode_arg str = do {
     n \<leftarrow> c_strlen str;
     if n \<noteq> 1 then None
     else let mode = atoi (c_str str) in
       Some (if mode = 1 then WIFI_MODE_STATION else if mode = 2 then WIFI_MODE_AP else if mode = 3 then WIFI_MODE_AP_STATION else mode) }"

definition at_wifi_start :: "at_env \<Rightarrow> int \<Rightarrow> int \<Rightarrow> int \<Rightarrow> at_world \<Rightarrow> bool \<times> at_world" where
  "at_wifi_start env mode ps dhcp w = (lib_ok env (Wifi_Start mode ps dhcp), wlan (Wifi_Start mode ps dhcp) w)"

definition at_start_station :: "at_env \<Rightarrow> at_world \<Rightarrow> bool \<times> at_world" where
  "at_start_station env w =
     (case at_wifi_start env WIFI_MODE_STATION WIFI_MAX_POWERSAVE DHCP_CLIENT_MODE w of (ok, w) \<Rightarrow> if ok then at_ok w else at_fail w)"

definition at_set_wifi_mode :: "at_env \<Rightarrow> byte list \<Rightarrow> at_world \<Rightarrow> (bool \<times> at_world) option" where
  "at_set_wifi_mode env str w = do {
     mode \<leftarrow> at_mode_arg str;
     Some (if WIFI_MODE_MAX \<le> mode then at_fail w
           else
             let w = wlan (Wifi_Set_Mode mode) (wlan Wifi_Stop w) in
             if \<not> lib_ok env (Wifi_Set_Mode mode) then at_fail w
             else if mode = WIFI_MODE_STATION then at_start_station env w else at_ok w) }"

definition at_set_wifi_mode_current :: "at_env \<Rightarrow> byte list \<Rightarrow> at_world \<Rightarrow> (bool \<times> at_world) option" where
  "at_set_wifi_mode_current env str w = do {
     mode \<leftarrow> at_mode_arg str;
     let w = wlan (Wifi_Set_Mode_Current mode) (wlan Wifi_Stop w);
     Some (if \<not> lib_ok env (Wifi_Set_Mode_Current mode) then at_fail w else at_start_station env w) }"

definition at_set_wifi_mode_def :: "at_env \<Rightarrow> byte list \<Rightarrow> at_world \<Rightarrow> (bool \<times> at_world) option" where
  "at_set_wifi_mode_def env str w = do {
     mode \<leftarrow> at_mode_arg str;
     let w = wlan (Wifi_Set_Mode mode) (wlan Wifi_Stop w);
     Some (if \<not> lib_ok env (Wifi_Set_Mode mode) then at_fail w else at_start_station env w) }"

section \<open>Quoted arguments\<close>

text \<open>The text between the next two quotation marks from \<open>p\<close> on, copied to \<open>dst\<close>.  Without the first mark the null pointer is followed; without the
  second the distance is negative, as memory lies below \<^verbatim>\<open>0x80000000\<close>, and nothing is cut.  The result has the start and the end of the text.\<close>

definition at_quoted :: "byte list \<Rightarrow> nat \<Rightarrow> byte list \<Rightarrow> (nat \<times> nat \<times> byte list) option option" where
  "at_quoted str p dst = do {
     r \<leftarrow> c_strchr (drop p str) 34;
     k \<leftarrow> r;
     let start = p + k + 1;
     r \<leftarrow> c_strchr (drop start str) 34;
     case r of None \<Rightarrow> Some None
     | Some j \<Rightarrow> do {
         (ok, d) \<leftarrow> substing (Some str) (Some dst) (int start) (int (start + j));
         Some (if ok then Some (start, start + j, the d) else None) } }"

text \<open>The handlers that set an address differ in the call that stores it.  What the conversion says is not looked at.\<close>

definition at_setmac :: "at_env \<Rightarrow> (byte list \<Rightarrow> wlan_call) \<Rightarrow> byte list \<Rightarrow> at_world \<Rightarrow> (bool \<times> at_world) option" where
  "at_setmac env set_call str w = do {
     n \<leftarrow> c_strlen str;
     r \<leftarrow> (if 0 < n then map_option (map_option (\<lambda>(s, e, d). d)) (at_quoted str 0 (replicate 18 0)) else Some (Some (replicate 18 0)));
     case r of None \<Rightarrow> Some (at_fail w)
     | Some mac_str \<Rightarrow> do {
         (_, addr) \<leftarrow> ln_mac_str2hex (Some mac_str) (replicate 6 0);
         let w = wlan (set_call addr) w;
         Some (if lib_ok env (set_call addr) then at_ok w else at_fail w) } }"

definition at_station_setmac :: "at_env \<Rightarrow> byte list \<Rightarrow> at_world \<Rightarrow> (bool \<times> at_world) option" where
  "at_station_setmac env = at_setmac env (Set_Macaddr Station)"

definition at_station_setmac_current :: "at_env \<Rightarrow> byte list \<Rightarrow> at_world \<Rightarrow> (bool \<times> at_world) option" where
  "at_station_setmac_current env = at_setmac env (Set_Macaddr_Current Station)"

definition at_station_setmac_def :: "at_env \<Rightarrow> byte list \<Rightarrow> at_world \<Rightarrow> (bool \<times> at_world) option" where
  "at_station_setmac_def env = at_setmac env (Set_Macaddr Station)"

definition at_softap_setmac :: "at_env \<Rightarrow> byte list \<Rightarrow> at_world \<Rightarrow> (bool \<times> at_world) option" where
  "at_softap_setmac env = at_setmac env (Set_Macaddr Soft_Ap)"

definition at_softap_setmac_current :: "at_env \<Rightarrow> byte list \<Rightarrow> at_world \<Rightarrow> (bool \<times> at_world) option" where
  "at_softap_setmac_current env = at_setmac env (Set_Macaddr_Current Soft_Ap)"

definition at_softap_setmac_def :: "at_env \<Rightarrow> byte list \<Rightarrow> at_world \<Rightarrow> (bool \<times> at_world) option" where
  "at_softap_setmac_def env = at_setmac env (Set_Macaddr Soft_Ap)"

section \<open>The access point\<close>

text \<open>A number from \<open>p\<close> on, to the next comma or the end: its value and its end, or \<open>Some None\<close> if the argument ends before.\<close>

definition at_number :: "byte list \<Rightarrow> nat \<Rightarrow> nat \<Rightarrow> byte list \<Rightarrow> ((int \<times> nat) option \<times> bool \<times> byte list) option" where
  "at_number str slen p temp_str =
     (if slen \<le> p then Some (None, True, temp_str)
      else do {
        r \<leftarrow> c_strchr (drop p str) 44;
        let e = (case r of None \<Rightarrow> slen | Some k \<Rightarrow> p + k);
        (ok, d) \<leftarrow> substing (Some str) (Some temp_str) (int p) (int e);
        if \<not> ok then Some (None, False, temp_str)
        else do { n \<leftarrow> c_strlen (the d); Some (Some (atoi (take n (the d)), e), True, the d) } })"

text \<open>The four numbers behind name and password, each stored with its own function; the temporary text is cleared before each but the first.\<close>

fun at_numbers :: "byte list \<Rightarrow> nat \<Rightarrow> (nat \<times> (int \<Rightarrow> wifi_ap_config \<Rightarrow> wifi_ap_config)) list \<Rightarrow> nat \<Rightarrow> wifi_ap_config \<Rightarrow> wifi_ap_config option option" where
  "at_numbers str slen [] e ap = Some (Some ap)"
| "at_numbers str slen ((skip, upd) # us) e ap = do {
     (r, ok, t) \<leftarrow> at_number str slen (e + skip) (replicate 18 0);
     if \<not> ok then Some None
     else case r of None \<Rightarrow> at_numbers str slen us e ap | Some (v, e) \<Rightarrow> at_numbers str slen us e (upd v ap) }"

definition at_softap_config_string_parse :: "byte list \<Rightarrow> wifi_ap_config \<Rightarrow> wifi_ap_config option option" where
  "at_softap_config_string_parse str ap = do {
     slen \<leftarrow> c_strlen str;
     r \<leftarrow> (if 0 < slen then at_quoted str 0 (apc_ssid ap) else Some (Some (0, 0, apc_ssid ap)));
     case r of None \<Rightarrow> Some None
     | Some (s, e, d) \<Rightarrow> do {
         let ap = ap\<lparr>apc_ssid := d, apc_ssid_len := (if 0 < slen then of_nat (if e - s < slen - s then e - s else slen - s) else apc_ssid_len ap)\<rparr>;
         r \<leftarrow> (if e + 1 < slen then at_quoted str (e + 1) (apc_password ap) else Some (Some (s, e, apc_password ap)));
         case r of None \<Rightarrow> Some None
         | Some (s, e, d) \<Rightarrow>
             at_numbers str slen
               [(2, \<lambda>v ap. ap\<lparr>apc_channel := word_of_int v\<rparr>), (1, \<lambda>v ap. ap\<lparr>apc_authmode := v\<rparr>),
                (1, \<lambda>v ap. ap\<lparr>apc_max_connection := word_of_int v\<rparr>), (1, \<lambda>v ap. ap\<lparr>apc_ssid_hidden := word_of_int v\<rparr>)]
               e (ap\<lparr>apc_password := d\<rparr>) } }"

definition at_softap_store :: "at_env \<Rightarrow> (wlan_config \<Rightarrow> wlan_call) \<Rightarrow> byte list \<Rightarrow> at_world \<Rightarrow> (bool \<times> at_world) option" where
  "at_softap_store env set_call str w = do {
     r \<leftarrow> at_softap_config_string_parse str ap_config_zero;
     case r of None \<Rightarrow> Some (at_fail w)
     | Some ap \<Rightarrow>
         (case at_wifi_start env WIFI_MODE_AP WIFI_NO_POWERSAVE DHCP_SERVER_MODE w of (ok, w) \<Rightarrow>
            Some (if \<not> ok then at_fail w
                  else let c = set_call (Ap_Config ap); w = wlan c w in if lib_ok env c then at_ok w else at_fail w)) }"

definition at_softap_set_config :: "at_env \<Rightarrow> byte list \<Rightarrow> at_world \<Rightarrow> (bool \<times> at_world) option" where
  "at_softap_set_config env = at_softap_store env (Set_Config Soft_Ap)"

definition at_softap_set_config_current :: "at_env \<Rightarrow> byte list \<Rightarrow> at_world \<Rightarrow> (bool \<times> at_world) option" where
  "at_softap_set_config_current env = at_softap_store env (Set_Config_Current Soft_Ap)"

definition at_softap_set_config_def :: "at_env \<Rightarrow> byte list \<Rightarrow> at_world \<Rightarrow> (bool \<times> at_world) option" where
  "at_softap_set_config_def env = at_softap_set_config env"

section \<open>The range of the DHCP server\<close>

record dhcps_args =
  da_enable :: int
  da_lease :: int
  da_ip_start :: u32
  da_ip_end :: u32

definition at_softap_parse_dhcps_string :: "at_env \<Rightarrow> byte list \<Rightarrow> dhcps_args \<Rightarrow> dhcps_args option option" where
  "at_softap_parse_dhcps_string env dhcps_str a =
     at_all_domains dhcps_str 16 16 (None, \<lambda>t a. Some (a\<lparr>da_enable := atoi (butlast t)\<rparr>))
       [(False, None, \<lambda>t a. Some (a\<lparr>da_lease := atoi (butlast t)\<rparr>)),
        (True, Some 34, \<lambda>t a. Some (a\<lparr>da_ip_start := inet_addr env (butlast t)\<rparr>)),
        (True, Some 34, \<lambda>t a. Some (a\<lparr>da_ip_end := inet_addr env (butlast t)\<rparr>))]
       a"

text \<open>The comparison of the two networks is read as \<^verbatim>\<open>ip_start & (0xFFFFFF != ip_end) & 0xFFFFFF\<close>.  What
  \<^verbatim>\<open>dhcpd_curr_config_set\<close> says is not looked at.\<close>

definition at_set_dhcps_cur :: "at_env \<Rightarrow> byte list \<Rightarrow> at_world \<Rightarrow> (bool \<times> at_world) option" where
  "at_set_dhcps_cur env str w = do {
     r \<leftarrow> at_softap_parse_dhcps_string env str
       \<lparr>da_enable = sint (unset env 0), da_lease = sint (unset env 1), da_ip_start = unset env 2, da_ip_end = unset env 3\<rparr>;
     case r of None \<Rightarrow> Some (at_err w)
     | Some a \<Rightarrow>
         Some (if da_enable a = 0 then at_ok (w\<lparr>aw_dhcpd := snd (dhcpd_curr_config_set default_server_config (aw_dhcpd w))\<rparr>)
               else if da_enable a = 1 then
                 (if da_ip_start a AND (if 0xFFFFFF \<noteq> da_ip_end a then 1 else 0) AND 0xFFFFFF \<noteq> 0 then at_err w
                  else
                    let cfg = dhcpd_curr_config_get (aw_dhcpd w);
                        span = drop_bit 24 (da_ip_end a) - drop_bit 24 (da_ip_start a) + 1;
                        client_max = min (ucast (sc_client_max cfg)) span in
                    at_ok (w\<lparr>aw_dhcpd := snd (dhcpd_curr_config_set
                      (cfg\<lparr>sc_lease := word_of_int (da_lease a), sc_client_max := ucast client_max, sc_ip_start := da_ip_start a,
                           sc_ip_end := da_ip_end a, sc_server := (da_ip_start a AND 0xFFFFFF) OR push_bit 24 1\<rparr>) (aw_dhcpd w))\<rparr>))
               else at_err w) }"

section \<open>The handlers as the interpreter calls them\<close>

text \<open>The world is lost when a handler faults.  The handlers that are not modelled are the argument \<open>other\<close>.\<close>

definition at_wifi_handlers :: "at_env \<Rightarrow> (string \<times> (byte list \<Rightarrow> at_world \<Rightarrow> (bool \<times> at_world) option)) list" where
  "at_wifi_handlers env =
     [(''at_station_connect'', at_station_connect env), (''at_station_connect_current'', at_station_connect_current env),
      (''at_station_scan'', at_station_scan), (''at_set_wifi_mode'', at_set_wifi_mode env),
      (''at_set_wifi_mode_current'', at_set_wifi_mode_current env), (''at_set_wifi_mode_def'', at_set_wifi_mode_def env),
      (''at_station_setmac'', at_station_setmac env), (''at_station_setmac_current'', at_station_setmac_current env),
      (''at_station_setmac_def'', at_station_setmac_def env), (''at_softap_setmac'', at_softap_setmac env),
      (''at_softap_setmac_current'', at_softap_setmac_current env), (''at_softap_setmac_def'', at_softap_setmac_def env),
      (''at_softap_set_config'', at_softap_set_config env), (''at_softap_set_config_current'', at_softap_set_config_current env),
      (''at_softap_set_config_def'', at_softap_set_config_def env), (''at_set_dhcps_cur'', at_set_dhcps_cur env)]"

definition at_wifi_call :: "at_env \<Rightarrow> at_world option at_call \<Rightarrow> at_world option at_call" where
  "at_wifi_call env other h v w =
     (case map_of (at_wifi_handlers env) h of
        None \<Rightarrow> other h v w
      | Some f \<Rightarrow>
          (case (w, v) of
             (Some w0, Some str) \<Rightarrow> (case f (str @ [0]) w0 of None \<Rightarrow> (False, None) | Some (r, w') \<Rightarrow> (r, Some w'))
           | _ \<Rightarrow> (False, None)))"

section \<open>Quoted fields\<close>

fun quoted_args :: "byte list list \<Rightarrow> byte list" where
  "quoted_args [] = []"
| "quoted_args (f # fs) = 34 # f @ 34 # (if fs = [] then [] else 44 # quoted_args fs)"

definition field_text :: "byte list \<Rightarrow> bool" where
  "field_text f \<longleftrightarrow> 0 \<notin> set f \<and> 34 \<notin> set f \<and> 44 \<notin> set f"

lemma at_domain_quoted:
  assumes "drop b str = 34 # f @ 34 # t # rest" "t = 44 \<or> t = 0 \<and> limit = b + length f + 2" "b + length f + 2 \<le> limit"
    "field_text f" "length f < length temp" "0 \<in> set (t # rest)" "length str < 2 ^ 31"
  shows "at_domain str limit (Some 34) b temp = Some (Some (b + length f + 2, f @ 0 # drop (length f + 1) temp))"
proof -
  have "c_strchr (34 # f @ 34 # t # rest) 44 = Some (if t = 44 then Some (length f + 2) else None)"
    using c_strchr_append [of "34 # f @ [34]" 44 "t # rest"] assms(2,4) by (auto simp: field_text_def)
  moreover have "art_string_extract_domain_content str (Some b) (Some (b + length f + 2)) 44 (Some 34) (Some temp)
      = Some (True, Some (f @ 0 # drop (length f + 1) temp))"
    using extract_quoted_field [OF assms(1), of 44 temp] assms(2,4-7) by (auto simp: field_text_def)
  ultimately show ?thesis using assms(1-3) by (auto simp: at_domain_def)
qed

definition store_one :: "(byte list \<Rightarrow> 'c \<Rightarrow> 'c option) \<Rightarrow> byte list \<Rightarrow> 'c \<Rightarrow> 'c option" where
  "store_one upd f c = (if f = [] then Some c else upd (f @ [0]) c)"

lemma at_store_text: "0 \<notin> set f \<Longrightarrow> at_store upd (f @ 0 # r) c = store_one upd f c"
proof -
  assume f: "0 \<notin> set f"
  then have "c_str (f @ 0 # r) = f" by (simp add: c_str_append) (simp add: c_str_def)
  then show ?thesis by (simp add: at_store_def c_strlen_def store_one_def)
qed

text \<open>Storing a list of texts.\<close>

fun store_all :: "(bool \<times> byte option \<times> (byte list \<Rightarrow> 'c \<Rightarrow> 'c option)) list \<Rightarrow> byte list list \<Rightarrow> 'c \<Rightarrow> 'c option" where
  "store_all (h # hs) (f # fs) c = do { c \<leftarrow> store_one (snd (snd h)) f c; store_all hs fs c }"
| "store_all _ _ c = Some c"

lemma at_domains_quoted:
  assumes "str = pre @ 44 # quoted_args fs @ [0]" "limit = length str - 1" "fs \<noteq> []" "length fs \<le> length hs"
    "\<forall>h\<in>set hs. \<not> fst h \<and> fst (snd h) = Some 34" "length t = n" "k \<le> n" "\<forall>f\<in>set fs. field_text f \<and> length f < n" "length str < 2 ^ 31"
  shows "at_domains str limit k hs (length pre) t c = map_option Some (store_all hs fs c)"
  using assms
proof (induction fs arbitrary: pre hs t c)
  case (Cons f fs)
  obtain upd hs' where hs: "hs = (False, Some 34, upd) # hs'" using Cons.prems(4,5) by (cases hs) auto
  have f: "field_text f" "length f < n" using Cons.prems(8) by simp_all
  let ?t = "f @ 0 # drop (length f + 1) (replicate k 0 @ drop k t)"
  obtain x rest where str: "str = (pre @ [44]) @ 34 # f @ 34 # x # rest" and x: "x = (if fs = [] then 0 else 44)" "0 \<in> set (x # rest)"
    "if fs = [] then rest = [] else rest = quoted_args fs @ [0]"
    using Cons.prems(1) by (cases "fs = []") auto
  have lim: "limit = length pre + 1 + length f + 2 + length rest" using str Cons.prems(2) by simp
  have dom: "at_domain str limit (Some 34) (length pre + 1) (replicate k 0 @ drop k t) = Some (Some (length pre + 1 + length f + 2, ?t))"
    by (rule at_domain_quoted) (use str x f lim Cons.prems(6,7,9) in \<open>auto split: if_splits\<close>)
  have t: "length ?t = n" using f Cons.prems(6,7) by simp
  have step: "at_domains str limit k hs (length pre) t c
      = store_one upd f c \<bind> at_domains str limit k hs' (length pre + 1 + length f + 2) ?t"
    using dom lim f by (simp add: hs at_store_text field_text_def)
  show ?case
  proof (cases "fs = []")
    case True
    have "at_domains str limit k hs' (length pre + 1 + length f + 2) u d = Some (Some d)" for u d
      using True x(3) lim Cons.prems(5) by (cases hs') (auto simp: hs)
    then show ?thesis using True step by (simp add: hs) (cases hs'; auto split: Option.bind_splits)
  next
    case False
    have "at_domains str limit k hs' (length (pre @ 44 # 34 # f @ [34])) ?t d = map_option Some (store_all hs' fs d)" for d
      by (rule Cons.IH) (use False str x Cons.prems hs t in auto)
    then show ?thesis using step by (simp add: hs) (auto split: Option.bind_splits)
  qed
qed simp

lemma quoted_args_no_null: "\<forall>f\<in>set fs. field_text f \<Longrightarrow> 0 \<notin> set (quoted_args fs)"
  by (induction fs) (auto simp: field_text_def)

lemma at_all_domains_first:
  assumes "\<forall>g\<in>set (f # fs). field_text g" "length f < n" "length (quoted_args (f # fs)) < 2 ^ 31 - 1" "str = quoted_args (f # fs) @ [0]"
  shows "at_all_domains str n k (Some 34, upd) hs c
    = store_one upd f c \<bind> at_domains str (length str - 1) k hs (length f + 2) (f @ 0 # drop (length f + 1) (replicate n 0))"
proof -
  have "0 \<notin> set (quoted_args (f # fs))" using quoted_args_no_null [of "f # fs"] assms(1) by blast
  then have "c_str str = quoted_args (f # fs) @ c_str [0]" unfolding assms(4) by (rule c_str_append)
  then have lim: "c_strlen str = Some (length str - 1)" by (simp add: c_str_def [of "[0]"] c_strlen_def assms(4) del: quoted_args.simps)
  obtain x rest where str: "str = 34 # f @ 34 # x # rest" and x: "x = (if fs = [] then 0 else 44)" "0 \<in> set (x # rest)"
    "if fs = [] then rest = [] else rest = quoted_args fs @ [0]"
    using assms(4) by (cases "fs = []") auto
  have "at_domain str (length str - 1) (Some 34) 0 (replicate n 0) = Some (Some (0 + length f + 2, f @ 0 # drop (length f + 1) (replicate n 0)))"
    by (rule at_domain_quoted [of _ _ _ x rest]) (use str x assms in \<open>auto split: if_splits\<close>)
  then show ?thesis using lim assms(1) by (simp add: at_all_domains_def at_store_text field_text_def)
qed

lemma at_all_domains_quoted:
  assumes "length fs \<le> length hs" "\<forall>h\<in>set hs. \<not> fst h \<and> fst (snd h) = Some 34" "k \<le> n"
    "\<forall>g\<in>set (f # fs). field_text g \<and> length g < n" "length (quoted_args (f # fs)) < 2 ^ 31 - 1"
  shows "at_all_domains (quoted_args (f # fs) @ [0]) n k (Some 34, upd) hs c = map_option Some (store_all ((False, Some 34, upd) # hs) (f # fs) c)"
proof -
  let ?str = "quoted_args (f # fs) @ [0]" and ?t = "f @ 0 # drop (length f + 1) (replicate n 0)"
  have t: "length ?t = n" using assms(4) by simp
  have step: "at_all_domains ?str n k (Some 34, upd) hs c = store_one upd f c \<bind> at_domains ?str (length ?str - 1) k hs (length f + 2) ?t"
    by (rule at_all_domains_first) (use assms in auto)
  show ?thesis
  proof (cases "fs = []")
    case True
    have "at_domains ?str (length ?str - 1) k hs (length f + 2) u d = Some (Some d)" for u d
      using True assms(2) by (cases hs) auto
    then show ?thesis using True step by (simp del: quoted_args.simps) (cases hs; auto split: Option.bind_splits)
  next
    case False
    have "at_domains ?str (length ?str - 1) k hs (length (34 # f @ [34])) ?t d = map_option Some (store_all hs fs d)" for d
      by (rule at_domains_quoted) (use False assms t in auto)
    then show ?thesis using step by (simp del: quoted_args.simps) (auto split: Option.bind_splits)
  qed
qed

section \<open>Joining a network from the console\<close>

text \<open>The fields of a request to join: name and password, and possibly a time limit and the address of the access point.\<close>

definition join_fields :: "byte list \<Rightarrow> byte list \<Rightarrow> (byte list \<times> byte list) option \<Rightarrow> byte list list" where
  "join_fields ssid pwd opt = [ssid, pwd] @ (case opt of None \<Rightarrow> [] | Some (tm, mac) \<Rightarrow> [tm, mac_text True 58 mac])"

definition join_config :: "byte list \<Rightarrow> byte list \<Rightarrow> (byte list \<times> byte list) option \<Rightarrow> wifi_sta_config" where
  "join_config ssid pwd opt =
     \<lparr>st_ssid = ssid @ replicate (33 - length ssid) 0, st_password = pwd @ replicate (64 - length pwd) 0,
      st_bssid = (case opt of None \<Rightarrow> replicate 6 0 | Some (tm, mac) \<Rightarrow> mac)\<rparr>"

definition join_timeout :: "(byte list \<times> byte list) option \<Rightarrow> u32" where
  "join_timeout opt = (case opt of None \<Rightarrow> 0 | Some (tm, mac) \<Rightarrow> word_of_int (atoi tm))"

definition join_args_ok :: "byte list \<Rightarrow> byte list \<Rightarrow> (byte list \<times> byte list) option \<Rightarrow> bool" where
  "join_args_ok ssid pwd opt \<longleftrightarrow> field_text ssid \<and> plain ssid \<and> length ssid \<le> 32 \<and> field_text pwd \<and> plain pwd \<and> length pwd \<le> 32
     \<and> (case opt of None \<Rightarrow> True | Some (tm, mac) \<Rightarrow> field_text tm \<and> plain tm \<and> length tm \<le> 32 \<and> length mac = 6)"

text \<open>The world after a request: the configuration is stored and used, the time limit is set, and the answer is printed.\<close>

definition join_world :: "at_env \<Rightarrow> (wlan_config \<Rightarrow> wlan_call) \<Rightarrow> byte list \<Rightarrow> byte list \<Rightarrow> (byte list \<times> byte list) option \<Rightarrow> at_world \<Rightarrow> at_world" where
  "join_world env set_call ssid pwd opt w =
     w\<lparr>aw_calls := aw_calls w @ [set_call (Sta_Config (join_config ssid pwd opt)), Station_Connect (join_config ssid pwd opt)],
       aw_timer := (if join_timeout opt = 0 then aw_timer w else if timer_ok env then Some (join_timeout opt) else None),
       aw_out := aw_out w @ (if link_up env then str_bytes ''disconnect'' @ [13, 10] else []) @ RET_OK_STR\<rparr>"

lemma hexdig_texts: "n < 16 \<Longrightarrow> hexdig True n \<noteq> 0 \<and> hexdig True n \<noteq> 34 \<and> hexdig True n \<noteq> 44 \<and> hexdig True n \<noteq> 13 \<and> hexdig True n \<noteq> 10"
proof -
  assume "n < 16"
  then have "uint n < 16" by (simp add: word_less_def)
  then show ?thesis
    by (auto simp: hexdig_def word_less_def uint_word_ariths word_uint_eq_iff, insert uint_ge_0 [of n], linarith+)
qed

lemma mac_text_field: "length mac = 6 \<Longrightarrow> field_text (mac_text True 58 mac) \<and> plain (mac_text True 58 mac) \<and> length (mac_text True 58 mac) = 17"
  using list_six [of mac]
  by (auto simp: field_text_def plain_def mac_text_six hex2_def hexdig_texts nibble_less)

lemma join_fields_ok:
  assumes "join_args_ok ssid pwd opt"
  shows "\<forall>g\<in>set (join_fields ssid pwd opt). field_text g \<and> plain g \<and> length g < 33" "length (quoted_args (join_fields ssid pwd opt)) \<le> 124"
  using assms mac_text_field by (auto simp: join_args_ok_def join_fields_def split: option.splits)

lemma put_text: "length v \<le> n \<Longrightarrow> put_run 0 v (replicate n x) = Some (v @ replicate (n - length v) x)"
  by (simp add: put_run_in)

lemma store_join:
  assumes "join_args_ok ssid pwd opt"
  shows "store_all [(False, Some 34, set_ssid), (False, Some 34, set_password), (False, Some 34, set_timeout), (False, Some 34, set_bssid)]
      (join_fields ssid pwd opt) (sta_config_zero, 0) = Some (join_config ssid pwd opt, join_timeout opt)"
proof -
  have two: "store_one set_ssid ssid (sta_config_zero, 0)
      = Some (sta_config_zero\<lparr>st_ssid := ssid @ replicate (33 - length ssid) 0\<rparr>, 0)"
    using assms by (auto simp: store_one_def set_ssid_def sta_config_zero_def put_text join_args_ok_def)
  have pw: "store_one set_password pwd (c, x) = Some (c\<lparr>st_password := pwd @ replicate (64 - length pwd) 0\<rparr>, x)"
    if "st_password c = replicate 64 0" for c x
    using assms that by (auto simp: store_one_def set_password_def put_text join_args_ok_def)
  show ?thesis
  proof (cases opt)
    case None
    then show ?thesis using two pw by (simp add: join_fields_def join_config_def join_timeout_def) (simp add: sta_config_zero_def)
  next
    case (Some tm_mac)
    then obtain tm mac where o: "opt = Some (tm, mac)" "length mac = 6" using assms by (cases tm_mac) (auto simp: join_args_ok_def)
    have "atoi [] = 0" by (simp add: atoi_def)
    then have tm: "store_one set_timeout tm (c, 0) = Some (c, word_of_int (atoi tm))" for c
      by (simp add: store_one_def set_timeout_def)
    have m: "ln_mac_str2hex (Some (mac_text True 58 mac @ [0])) (replicate 6 0) = Some (True, mac)"
      using mac_text_roundtrip [OF o(2), of 58 "replicate 6 0" True] by simp
    then have "ln_is_valid_mac_str (Some (mac_text True 58 mac @ [0]))" by (auto simp: ln_mac_str2hex_def split: if_splits)
    moreover have "mac_text True 58 mac \<noteq> []" using mac_text_field [OF o(2)] by auto
    ultimately have "store_one set_bssid (mac_text True 58 mac) (c, x) = Some (c\<lparr>st_bssid := mac\<rparr>, x)" if "st_bssid c = replicate 6 0" for c x
      using m that by (simp add: store_one_def set_bssid_def)
    then show ?thesis using two pw tm o by (simp add: join_fields_def join_config_def join_timeout_def sta_config_zero_def)
  qed
qed

lemma connect_general_joins:
  assumes "join_args_ok ssid pwd opt"
  shows "at_station_connect_general env (quoted_args (join_fields ssid pwd opt) @ [0]) save w =
    (let call = (if save then Set_Config else Set_Config_Current) Station (Sta_Config (join_config ssid pwd opt)) in
     Some (if lib_ok env call
       then (True, let w = wlan (Station_Connect (join_config ssid pwd opt)) (wlan call w) in
         if join_timeout opt \<noteq> 0 then at_connect_timeout env (join_timeout opt) w else w)
       else (False, wlan call w)))"
proof -
  obtain fs where fs: "join_fields ssid pwd opt = ssid # fs" "length fs \<le> 3" by (auto simp: join_fields_def split: option.splits)
  have "at_all_domains (quoted_args (ssid # fs) @ [0]) 33 4 (Some 34, set_ssid)
      [(False, Some 34, set_password), (False, Some 34, set_timeout), (False, Some 34, set_bssid)] (sta_config_zero, 0)
    = Some (Some (join_config ssid pwd opt, join_timeout opt))"
    using at_all_domains_quoted [of fs "[(False, Some 34, set_password), (False, Some 34, set_timeout), (False, Some 34, set_bssid)]" 4 33 ssid set_ssid
        "(sta_config_zero, 0)"] join_fields_ok [OF assms] store_join [OF assms] fs
    by (simp del: quoted_args.simps store_all.simps)
  then show ?thesis by (simp add: at_station_connect_general_def fs(1) Let_def del: quoted_args.simps)
qed

lemma join_command:
  assumes "cmd = ''CWJAP'' \<or> cmd = ''CWJAP_CUR'' \<or> cmd = ''CWJAP_DEF''"
  shows "\<exists>c\<in>set at_plus_cmds. fst c = cmd \<and> at_handler AT_PARSER_STATE_WRITE (at_entry c)
    = Some (if cmd = ''CWJAP_CUR'' then ''at_station_connect_current'' else ''at_station_connect'')"
proof -
  let ?j = "(''CWJAP'', Some ''at_station_get_connected_info'', Some ''at_station_connect'', None, None) :: at_reg"
  let ?k = "(''CWJAP_CUR'', Some ''at_station_get_connected_info_current'', Some ''at_station_connect_current'', None, None) :: at_reg"
  let ?l = "(''CWJAP_DEF'', Some ''at_station_get_connected_info_def'', Some ''at_station_connect'', None, None) :: at_reg"
  consider "cmd = ''CWJAP''" | "cmd = ''CWJAP_CUR''" | "cmd = ''CWJAP_DEF''" using assms by blast
  then show ?thesis
  proof cases
    case 1 then show ?thesis by (intro bexI [where x = ?j]) (simp_all add: at_handler_def at_plus_cmds_def)
  next
    case 2 then show ?thesis by (intro bexI [where x = ?k]) (simp_all add: at_handler_def at_plus_cmds_def)
  next
    case 3 then show ?thesis by (intro bexI [where x = ?l]) (simp_all add: at_handler_def at_plus_cmds_def)
  qed
qed

lemma quoted_args_plain: "\<forall>g\<in>set gs. plain g \<Longrightarrow> plain (quoted_args gs)"
  by (induction gs) (auto simp: plain_def)


section \<open>Long passwords\<close>

lemma at_domain_overruns:
  assumes "drop b str = 34 # f @ 34 # t # rest" "t = 44 \<or> t = 0 \<and> limit = b + length f + 2" "b + length f + 2 \<le> limit"
    "field_text f" "length temp \<le> length f" "0 \<in> set (t # rest)" "length str < 2 ^ 31"
  shows "at_domain str limit (Some 34) b temp = None"
proof -
  let ?src = "34 # f @ 34 # t # rest"
  have cs: "c_str ?src = 34 # f @ 34 # c_str (t # rest)" using assms(4) c_str_append [of "34 # f @ [34]" "t # rest"] by (simp add: field_text_def)
  have sep: "c_strchr ?src 44 = Some (if t = 44 then Some (length f + 2) else None)"
    using c_strchr_append [of "34 # f @ [34]" 44 "t # rest"] assms(2,4) by (auto simp: field_text_def)
  have q2: "drop (Suc b) str = f @ 34 # t # rest" using assms(1) by (metis drop_Suc drop_tl list.sel(3))
  have fl: "c_strchr (f @ 34 # t # rest) 34 = Some (Some (length f))" using c_strchr_append assms(4) by (simp add: field_text_def)
  have "length ?src \<le> length str" using assms(1) by (metis length_drop diff_le_self)
  then have "length ?src < 2 ^ 31" using assms(7) by linarith
  then have "substing (Some ?src) (Some temp) 1 (1 + int (length f)) = None"
    using substing_overruns [of ?src 1 "1 + length f" temp] assms(5,6) cs by auto
  then show ?thesis using assms(1-3) sep q2 fl by (cases "t = 44") (simp_all add: at_domain_def art_string_extract_domain_content_def)
qed

lemma connect_long_password:
  assumes "field_text ssid" "length ssid \<le> 32" "field_text pwd" "33 \<le> length pwd" "length pwd \<le> 63"
  shows "at_station_connect_general env (quoted_args [ssid, pwd] @ [0]) save w = None"
proof -
  let ?str = "quoted_args [ssid, pwd] @ [0]" and ?t = "ssid @ 0 # drop (length ssid + 1) (replicate 33 0)"
  have first: "at_all_domains ?str 33 4 (Some 34, set_ssid) hs c = store_one set_ssid ssid c \<bind> at_domains ?str (length ?str - 1) 4 hs (length ssid + 2) ?t" for hs c
    by (rule at_all_domains_first [of ssid "[pwd]"]) (use assms in auto)
  have "at_domain ?str (length ?str - 1) (Some 34) (length ssid + 2 + 1) (replicate 4 0 @ drop 4 ?t) = None"
    by (rule at_domain_overruns [where f = pwd and t = 0 and rest = "[]"]) (use assms in auto)
  then show ?thesis using first by (simp add: at_station_connect_general_def split: Option.bind_splits)
qed

text \<open>C38: The command to join a network overruns the stack when the password has more than 32 characters, although the library takes 63: the
  field is cut into an array as long as a name.  For every name and every password of 33 to 63 characters the line makes the handler write behind
  its array.\<close>

theorem at_long_password_overruns:
  assumes "field_text ssid" "plain ssid" "ssid \<noteq> []" "length ssid \<le> 32" "field_text pwd" "plain pwd" "33 \<le> length pwd" "length pwd \<le> 63"
    "cmd = ''CWJAP'' \<or> cmd = ''CWJAP_CUR'' \<or> cmd = ''CWJAP_DEF''" "collected [] con" "cecho con"
  shows "\<exists>con'. console_feed (at_task_msg (at_wifi_call env other) (at_cmd_init at_tables_zero))
      (str_bytes ''AT+'' @ str_bytes cmd @ 61 # quoted_args [ssid, pwd] @ [13, 10]) (con, out, Some w)
    = Some (con', out @ str_bytes ''AT+'' @ str_bytes cmd @ 61 # quoted_args [ssid, pwd] @ [13, 10], None)"
proof -
  let ?v = "quoted_args [ssid, pwd]" and ?st = AT_PARSER_STATE_WRITE
  obtain c where c: "c \<in> set at_plus_cmds" "fst c = cmd"
    "at_handler ?st (at_entry c) = Some (if cmd = ''CWJAP_CUR'' then ''at_station_connect_current'' else ''at_station_connect'')"
    using join_command [OF assms(9)] by blast
  have "plain ?v" using quoted_args_plain [of "[ssid, pwd]"] assms(2,6) by simp
  then have v: "at_value ?st ?v" by (simp add: at_value_def)
  have len: "length (at_line ?st (str_bytes (fst c)) ?v) + 2 < CMD_CBSIZE"
    using assms(4,8,9) by (auto simp: at_line_def c(2) str_bytes_def CMD_CBSIZE_def)
  have "at_run (at_wifi_call env other) c ?st ?v (Some w) = None"
    using connect_long_password [OF assms(1,4,5,7,8), of env]
    by (simp add: at_run_def c(3) at_wifi_call_def at_wifi_handlers_def at_station_connect_def at_station_connect_current_def del: quoted_args.simps)
  then show ?thesis using registered_line_runs [OF c(1) v len assms(10,11), of "at_wifi_call env other" out "Some w"]
    by (auto simp: at_line_def c(2))
qed

definition demo_env :: at_env where
  "demo_env = \<lparr>lib_ok = (\<lambda>c. True), link_up = False, timer_ok = True, inet_addr = (\<lambda>t. 0), unset = (\<lambda>i. 0)\<rparr>"

definition demo_world :: at_world where
  "demo_world = \<lparr>aw_out = [], aw_calls = [], aw_timer = None,
     aw_dhcpd = \<lparr>dh_flag = False, dh_config = default_server_config, dh_pool = replicate DHCPD_IP_POOL_SIZE \<lparr>allocted = False, item_mac = replicate 6 0, item_ip = 0\<rparr>\<rparr>\<rparr>"

lemma demo_texts: "field_text (str_bytes ''LN8826'')" "plain (str_bytes ''LN8826'')" "field_text (replicate n 65)" "plain (replicate n 65)"
  "field_text (str_bytes ''5000'')" "plain (str_bytes ''5000'')"
  by (auto simp: field_text_def plain_def str_bytes_def)


theorem at_long_password_overruns_witness:
  "\<exists>con' out'. console_feed (at_task_msg (at_wifi_call demo_env (\<lambda>h v w. (False, w))) (at_cmd_init at_tables_zero))
      (str_bytes ''AT+'' @ str_bytes ''CWJAP'' @ 61 # quoted_args [str_bytes ''LN8826'', replicate 33 65] @ [13, 10])
      (demo_console, [], Some demo_world) = Some (con', out', None)"
proof -
  have "str_bytes ''LN8826'' \<noteq> []" "length (str_bytes ''LN8826'') \<le> 32" by (simp_all add: str_bytes_def)
  moreover have "collected [] demo_console" by (simp add: collected_def demo_console_ok)
  ultimately show ?thesis
    using at_long_password_overruns [of "str_bytes ''LN8826''" "replicate 33 65" "''CWJAP''" demo_console demo_env "\<lambda>h v w. (False, w)" "[]" demo_world]
      demo_console_ok(2) demo_texts by (auto simp del: quoted_args.simps)
qed

section \<open>Faults of the other handlers\<close>

lemma dhcps_running_unchanged:
  assumes "dh_flag (aw_dhcpd w)" "at_set_dhcps_cur env str w = Some (r, w')"
  shows "aw_dhcpd w' = aw_dhcpd w"
  using assms by (auto simp: at_set_dhcps_cur_def at_ok_def at_err_def at_printf_def dhcpd_curr_config_set_def Let_def
      split: Option.bind_splits option.splits if_splits)


end
