(* ===== verification/Exflash.thy ===== *)
theory Exflash
  imports Hal_Flash
begin

unbundle bit_operations_syntax

text \<open>
  The driver of an external flash on the SPI master, \<^verbatim>\<open>mcu/driver_ln882x/src/hal/exflash.c\<close>.  The chip is a parameter, as for the internal flash: what it does
  with the bytes of a transaction, and what it answers; a command has completed when it returns.  The queue of the SPI
  master may stay full: \<open>stall\<close> is the byte at which the driver gives up waiting.  The queue takes sixteen bytes before the
  transaction starts.
\<close>

section \<open>The SPI master\<close>

definition EX_TX_FIFO_DEPTH :: nat where "EX_TX_FIFO_DEPTH = 16"

definition EXFLASH_PAGE_PROGRAM :: byte where "EXFLASH_PAGE_PROGRAM = 0x02"
definition EXFLASH_READ_DATA_BYTES :: byte where "EXFLASH_READ_DATA_BYTES = 0x03"
definition EXFLASH_WRITE_DISABLE :: byte where "EXFLASH_WRITE_DISABLE = 0x04"
definition EXFLASH_READ_STATUS_REG_LOW :: byte where "EXFLASH_READ_STATUS_REG_LOW = 0x05"
definition EXFLASH_WRITE_ENABLE :: byte where "EXFLASH_WRITE_ENABLE = 0x06"
definition EXFLASH_FAST_READ :: byte where "EXFLASH_FAST_READ = 0x0B"
definition EXFLASH_SECTOR_ERASE :: byte where "EXFLASH_SECTOR_ERASE = 0x20"
definition EXFLASH_READ_STATUS_REG_HIGH :: byte where "EXFLASH_READ_STATUS_REG_HIGH = 0x35"
definition EXFLASH_BLOCK_ERASE_32KB :: byte where "EXFLASH_BLOCK_ERASE_32KB = 0x52"
definition EXFLASH_BLOCK_ERASE_64KB :: byte where "EXFLASH_BLOCK_ERASE_64KB = 0xD8"
definition EXFLASH_CHIP_ERASE :: byte where "EXFLASH_CHIP_ERASE = 0x60"
definition EXFLASH_READ_MANUFACTURER_ID :: byte where "EXFLASH_READ_MANUFACTURER_ID = 0x90"
definition EXFLASH_READ_IDENTIFICATION :: byte where "EXFLASH_READ_IDENTIFICATION = 0x9F"

definition EXFLASH_PAGE_SIZE :: nat where "EXFLASH_PAGE_SIZE = 256"
definition EXFALSH_SIZE_4K :: nat where "EXFALSH_SIZE_4K = 4 * 1024"
definition EXFALSH_SIZE_32K :: nat where "EXFALSH_SIZE_32K = 32 * 1024"
definition EXFALSH_SIZE_64K :: nat where "EXFALSH_SIZE_64K = 64 * 1024"
definition EXFALSH_SIZE_MAX :: nat where "EXFALSH_SIZE_MAX = 2 * 1024 * 1024"

lemmas ex_sizes = EXFLASH_PAGE_SIZE_def EXFALSH_SIZE_4K_def EXFALSH_SIZE_32K_def EXFALSH_SIZE_64K_def EXFALSH_SIZE_MAX_def

text \<open>The number of frames to be received is a register of sixteen bits, one less than their number.  Bytes that do not come are waited for
  in vain.\<close>

definition spim_frames :: "nat \<Rightarrow> nat" where
  "spim_frames rd_len = (rd_len + 2 ^ 32 - 1) mod 2 ^ 32 mod 2 ^ 16 + 1"

definition spim_read :: "'c spi_chip \<Rightarrow> nat \<Rightarrow> byte list \<Rightarrow> 'c \<Rightarrow> int \<times> byte list" where
  "spim_read chip rd_len wr c =
     (let frames = spim_frames rd_len; got = take rd_len (spi_read chip wr frames c) in
      (if length got < rd_len then - 1 else 0, got))"

definition spim_send_only :: "'c spi_chip \<Rightarrow> nat option \<Rightarrow> byte list \<Rightarrow> 'c \<Rightarrow> int \<times> 'c" where
  "spim_send_only chip stall wr c =
     (case stall of
        Some k \<Rightarrow> if EX_TX_FIFO_DEPTH \<le> k \<and> k < length wr then (- 1, spi_write chip (take k wr) c) else (0, spi_write chip wr c)
      | None \<Rightarrow> (0, spi_write chip wr c))"

section \<open>The driver\<close>

definition ExFlash_Read_ManufactureID :: "'c spi_chip \<Rightarrow> 'c \<Rightarrow> u16" where
  "ExFlash_Read_ManufactureID chip c =
     (let recv = snd (spim_read chip 2 [EXFLASH_READ_MANUFACTURER_ID, 0, 0, 0] c)
      in push_bit 8 (ucast (recv ! 0)) OR ucast (recv ! 1))"

definition ExFlash_Read_Status :: "'c spi_chip \<Rightarrow> 'c \<Rightarrow> u16" where
  "ExFlash_Read_Status chip c =
     (let low = snd (spim_read chip 1 [EXFLASH_READ_STATUS_REG_LOW] c) ! 0;
          high = snd (spim_read chip 1 [EXFLASH_READ_STATUS_REG_HIGH] c) ! 0
      in (ucast low AND 0xFF) OR push_bit 8 (ucast high AND 0xFF))"

definition ExFlash_Read_Identification :: "'c spi_chip \<Rightarrow> 'c \<Rightarrow> u32" where
  "ExFlash_Read_Identification chip c =
     (let recv = snd (spim_read chip 3 [EXFLASH_READ_IDENTIFICATION] c)
      in push_bit 16 (ucast (recv ! 0)) OR push_bit 8 (ucast (recv ! 1)) OR (ucast (recv ! 2) AND 0xFF))"

definition ExFlash_Write_Enable :: "'c spi_chip \<Rightarrow> 'c \<Rightarrow> 'c" where
  "ExFlash_Write_Enable chip c = snd (spim_send_only chip None [EXFLASH_WRITE_ENABLE] c)"

definition ExFlash_Write_Disable :: "'c spi_chip \<Rightarrow> 'c \<Rightarrow> 'c" where
  "ExFlash_Write_Disable chip c = snd (spim_send_only chip None [EXFLASH_WRITE_DISABLE] c)"

definition ExFlash_Read_Data_Bytes :: "'c spi_chip \<Rightarrow> nat \<Rightarrow> nat \<Rightarrow> 'c \<Rightarrow> int \<times> byte list" where
  "ExFlash_Read_Data_Bytes chip addr len c = spim_read chip len (EXFLASH_READ_DATA_BYTES # addr24 addr) c"

definition ExFlash_Fast_Read :: "'c spi_chip \<Rightarrow> nat \<Rightarrow> nat \<Rightarrow> 'c \<Rightarrow> int \<times> byte list" where
  "ExFlash_Fast_Read chip addr len c =
     (let addr = addr mod EXFALSH_SIZE_MAX;
          len = (if EXFALSH_SIZE_MAX < (addr + len) mod 2 ^ 32 then EXFALSH_SIZE_MAX - addr else len)
      in spim_read chip len (EXFLASH_FAST_READ # addr24 addr @ [0]) c)"

definition ExFlash_Chip_Erase :: "'c spi_chip \<Rightarrow> 'c \<Rightarrow> 'c" where
  "ExFlash_Chip_Erase chip c = snd (spim_send_only chip None [EXFLASH_CHIP_ERASE] (ExFlash_Write_Enable chip c))"

text \<open>What the SPI master says is not looked at.\<close>

definition ExFlash_Page_Program :: "'c spi_chip \<Rightarrow> nat option \<Rightarrow> nat \<Rightarrow> byte list \<Rightarrow> 'c \<Rightarrow> 'c" where
  "ExFlash_Page_Program chip stall addr data c =
     snd (spim_send_only chip stall (EXFLASH_PAGE_PROGRAM # addr24 addr @ data) (ExFlash_Write_Enable chip c))"

primrec ex_program_pages :: "'c spi_chip \<Rightarrow> nat option \<Rightarrow> nat \<Rightarrow> nat \<Rightarrow> byte list \<Rightarrow> 'c \<Rightarrow> 'c" where
  "ex_program_pages chip stall 0 offset buffer c = c"
| "ex_program_pages chip stall (Suc n) offset buffer c =
     ex_program_pages chip stall n (offset + EXFLASH_PAGE_SIZE) (drop EXFLASH_PAGE_SIZE buffer)
       (ExFlash_Page_Program chip stall offset (take EXFLASH_PAGE_SIZE buffer) c)"

definition ExFlash_Program :: "'c spi_chip \<Rightarrow> nat option \<Rightarrow> nat \<Rightarrow> byte list \<Rightarrow> 'c \<Rightarrow> 'c" where
  "ExFlash_Program chip stall offset buffer c =
     (let page_base = offset - offset mod EXFLASH_PAGE_SIZE;
          prog_length = (if page_base \<noteq> offset then min (length buffer) (page_base + EXFLASH_PAGE_SIZE - offset) else 0);
          c1 = (if page_base \<noteq> offset then ExFlash_Page_Program chip stall offset (take prog_length buffer) c else c);
          buffer1 = drop prog_length buffer; offset1 = offset + prog_length;
          cycles = length buffer1 div EXFLASH_PAGE_SIZE mod 65536;
          c2 = ex_program_pages chip stall cycles offset1 buffer1 c1;
          remainder = length buffer1 mod EXFLASH_PAGE_SIZE;
          offset2 = offset1 + cycles * EXFLASH_PAGE_SIZE; buffer2 = drop (cycles * EXFLASH_PAGE_SIZE) buffer1
      in if remainder \<noteq> 0 then ExFlash_Page_Program chip stall offset2 (take remainder buffer2) c2 else c2)"

definition ExFlash_Erase_Sector :: "'c spi_chip \<Rightarrow> nat \<Rightarrow> 'c \<Rightarrow> 'c" where
  "ExFlash_Erase_Sector chip addr c =
     snd (spim_send_only chip None (EXFLASH_SECTOR_ERASE # addr24 (addr mod EXFALSH_SIZE_MAX)) (ExFlash_Write_Enable chip c))"

definition ExFlash_Erase_Block :: "'c spi_chip \<Rightarrow> nat \<Rightarrow> byte \<Rightarrow> 'c \<Rightarrow> 'c" where
  "ExFlash_Erase_Block chip addr type c =
     snd (spim_send_only chip None
       ((if type = EXFLASH_BLOCK_ERASE_32KB then EXFLASH_BLOCK_ERASE_32KB else EXFLASH_BLOCK_ERASE_64KB) # addr24 (addr mod EXFALSH_SIZE_MAX))
       (ExFlash_Write_Enable chip c))"

text \<open>The three loops of the erasure: \<open>n\<close> erasures of a size from \<open>offset\<close> on.\<close>

primrec ex_erase_loop :: "(nat \<Rightarrow> 'c \<Rightarrow> 'c) \<Rightarrow> nat \<Rightarrow> nat \<Rightarrow> nat \<Rightarrow> 'c \<Rightarrow> 'c" where
  "ex_erase_loop erase sz 0 offset c = c"
| "ex_erase_loop erase sz (Suc n) offset c = ex_erase_loop erase sz n ((offset + sz) mod 2 ^ 32) (erase offset c)"

definition ExFlash_Erase :: "'c spi_chip \<Rightarrow> nat \<Rightarrow> nat \<Rightarrow> 'c \<Rightarrow> 'c" where
  "ExFlash_Erase chip offset len c =
     (let num_64k = len div EXFALSH_SIZE_64K; len1 = len mod EXFALSH_SIZE_64K;
          num_32k = len1 div EXFALSH_SIZE_32K; len2 = len1 mod EXFALSH_SIZE_32K;
          num_4k = len2 div EXFALSH_SIZE_4K + (if len2 mod EXFALSH_SIZE_4K \<noteq> 0 then 1 else 0);
          c1 = ex_erase_loop (\<lambda>a. ExFlash_Erase_Block chip a EXFLASH_BLOCK_ERASE_64KB) EXFALSH_SIZE_64K num_64k offset c;
          off1 = (offset + num_64k * EXFALSH_SIZE_64K) mod 2 ^ 32;
          c2 = ex_erase_loop (\<lambda>a. ExFlash_Erase_Block chip a EXFLASH_BLOCK_ERASE_32KB) EXFALSH_SIZE_32K num_32k off1 c1;
          off2 = (off1 + num_32k * EXFALSH_SIZE_32K) mod 2 ^ 32
      in ex_erase_loop (ExFlash_Erase_Sector chip) EXFALSH_SIZE_4K num_4k off2 c2)"

section \<open>The datasheet\<close>

text \<open>What the driver relies on: a page program inside a page, erasures of the sector or block an address lies in, each behind the write enable
  command, and the two reads.\<close>

locale ex_nor =
  fixes chip :: "'c spi_chip" and cells :: "'c \<Rightarrow> mem"
  assumes ex_page_program: "a < EXFALSH_SIZE_MAX \<Longrightarrow> a mod EXFLASH_PAGE_SIZE + length bs \<le> EXFLASH_PAGE_SIZE \<Longrightarrow>
      cells (spi_write chip (EXFLASH_PAGE_PROGRAM # addr24 a @ bs) (spi_write chip [EXFLASH_WRITE_ENABLE] c)) = nor_prog (cells c) a bs"
    and ex_sector_erase: "a < EXFALSH_SIZE_MAX \<Longrightarrow>
      cells (spi_write chip (EXFLASH_SECTOR_ERASE # addr24 a) (spi_write chip [EXFLASH_WRITE_ENABLE] c))
        = nor_erase (cells c) (a - a mod EXFALSH_SIZE_4K) EXFALSH_SIZE_4K"
    and ex_erase_32k: "a < EXFALSH_SIZE_MAX \<Longrightarrow>
      cells (spi_write chip (EXFLASH_BLOCK_ERASE_32KB # addr24 a) (spi_write chip [EXFLASH_WRITE_ENABLE] c))
        = nor_erase (cells c) (a - a mod EXFALSH_SIZE_32K) EXFALSH_SIZE_32K"
    and ex_erase_64k: "a < EXFALSH_SIZE_MAX \<Longrightarrow>
      cells (spi_write chip (EXFLASH_BLOCK_ERASE_64KB # addr24 a) (spi_write chip [EXFLASH_WRITE_ENABLE] c))
        = nor_erase (cells c) (a - a mod EXFALSH_SIZE_64K) EXFALSH_SIZE_64K"
    and ex_read: "a < EXFALSH_SIZE_MAX \<Longrightarrow> n \<le> 65536 \<Longrightarrow>
      spi_read chip (EXFLASH_READ_DATA_BYTES # addr24 a) n c = map (\<lambda>i. cells c ((a + i) mod EXFALSH_SIZE_MAX)) [0..<n]"
    and ex_fast_read: "a < EXFALSH_SIZE_MAX \<Longrightarrow> n \<le> 65536 \<Longrightarrow>
      spi_read chip (EXFLASH_FAST_READ # addr24 a @ [0]) n c = map (\<lambda>i. cells c ((a + i) mod EXFALSH_SIZE_MAX)) [0..<n]"
begin

lemma ex_page_cells:
  "a < EXFALSH_SIZE_MAX \<Longrightarrow> a mod EXFLASH_PAGE_SIZE + length bs \<le> EXFLASH_PAGE_SIZE \<Longrightarrow>
     cells (ExFlash_Page_Program chip None a bs c) = nor_prog (cells c) a bs"
  by (simp add: ExFlash_Page_Program_def ExFlash_Write_Enable_def spim_send_only_def ex_page_program)

lemma ex_pages_cells:
  "a mod EXFLASH_PAGE_SIZE = 0 \<Longrightarrow> a + n * EXFLASH_PAGE_SIZE \<le> EXFALSH_SIZE_MAX \<Longrightarrow> n * EXFLASH_PAGE_SIZE \<le> length bs \<Longrightarrow>
     cells (ex_program_pages chip None n a bs c) = nor_prog (cells c) a (take (n * EXFLASH_PAGE_SIZE) bs)"
proof (induction n arbitrary: a bs c)
  case (Suc n)
  have one: "cells (ExFlash_Page_Program chip None a (take EXFLASH_PAGE_SIZE bs) c) = nor_prog (cells c) a (take EXFLASH_PAGE_SIZE bs)"
    using Suc.prems by (intro ex_page_cells) (auto simp: EXFLASH_PAGE_SIZE_def)
  have len: "length (take EXFLASH_PAGE_SIZE bs) = EXFLASH_PAGE_SIZE" using Suc.prems by (simp add: EXFLASH_PAGE_SIZE_def)
  show ?case using Suc.IH [of "a + EXFLASH_PAGE_SIZE" "drop EXFLASH_PAGE_SIZE bs"] Suc.prems
    by (simp add: one take_add nor_prog_append len)
qed simp

lemma ex_program_tail_cells:
  assumes "a mod EXFLASH_PAGE_SIZE = 0 \<or> bs = []" "a + length bs \<le> EXFALSH_SIZE_MAX" "k = length bs div EXFLASH_PAGE_SIZE"
    "c2 = ex_program_pages chip None k a bs c"
  shows "cells (if length bs mod EXFLASH_PAGE_SIZE \<noteq> 0 then ExFlash_Page_Program chip None (a + k * EXFLASH_PAGE_SIZE)
      (take (length bs mod EXFLASH_PAGE_SIZE) (drop (k * EXFLASH_PAGE_SIZE) bs)) c2 else c2) = nor_prog (cells c) a bs"
proof (cases "bs = []")
  case False
  then have a: "a mod EXFLASH_PAGE_SIZE = 0" using assms(1) by simp
  let ?r = "length bs mod EXFLASH_PAGE_SIZE" and ?k = "k * EXFLASH_PAGE_SIZE"
  have kr: "?k + ?r = length bs" by (simp add: assms(3))
  have pages: "cells c2 = nor_prog (cells c) a (take ?k bs)" unfolding assms(4) using a assms(2) kr by (intro ex_pages_cells) linarith+
  have rest: "drop ?k bs = take ?r (drop ?k bs)" using kr by simp
  have last: "cells (ExFlash_Page_Program chip None (a + ?k) (drop ?k bs) c2) = nor_prog (cells c2) (a + ?k) (drop ?k bs)" if "?r \<noteq> 0"
  proof (rule ex_page_cells)
    show "a + ?k < EXFALSH_SIZE_MAX" using that assms(2) kr by linarith
    have "?r \<le> EXFLASH_PAGE_SIZE" by (simp add: EXFLASH_PAGE_SIZE_def less_imp_le)
    then show "(a + ?k) mod EXFLASH_PAGE_SIZE + length (drop ?k bs) \<le> EXFLASH_PAGE_SIZE" using a kr by simp
  qed
  have "nor_prog (cells c) a bs = nor_prog (cells c2) (a + ?k) (drop ?k bs)"
    using nor_prog_append [of "cells c" a "take ?k bs" "drop ?k bs"] pages kr by simp
  then show ?thesis using last rest kr by (cases "?r = 0") auto
qed (simp add: assms(3,4))

lemma ExFlash_Program_cells:
  assumes "a + length bs \<le> EXFALSH_SIZE_MAX"
  shows "cells (ExFlash_Program chip None a bs c) = nor_prog (cells c) a bs"
proof -
  define p where "p = (if a mod EXFLASH_PAGE_SIZE \<noteq> 0 then min (length bs) (EXFLASH_PAGE_SIZE - a mod EXFLASH_PAGE_SIZE) else 0)"
  define c1 where "c1 = (if a mod EXFLASH_PAGE_SIZE \<noteq> 0 then ExFlash_Page_Program chip None a (take p bs) c else c)"
  have base: "(a - a mod EXFLASH_PAGE_SIZE \<noteq> a) = (a mod EXFLASH_PAGE_SIZE \<noteq> 0)"
    using mod_less_eq_dividend [of a EXFLASH_PAGE_SIZE] by linarith
  have gap: "a - a mod EXFLASH_PAGE_SIZE + EXFLASH_PAGE_SIZE - a = EXFLASH_PAGE_SIZE - a mod EXFLASH_PAGE_SIZE"
    using mod_less_eq_dividend [of a EXFLASH_PAGE_SIZE] by linarith
  have small: "length (drop p bs) div EXFLASH_PAGE_SIZE mod 65536 = length (drop p bs) div EXFLASH_PAGE_SIZE"
    using assms by (simp add: ex_sizes)
  have c1: "cells c1 = nor_prog (cells c) a (take p bs)"
  proof (cases "a mod EXFLASH_PAGE_SIZE = 0")
    case False
    then have "a \<noteq> EXFALSH_SIZE_MAX" by (auto simp: ex_sizes)
    moreover have "a mod EXFLASH_PAGE_SIZE < EXFLASH_PAGE_SIZE" by (simp add: EXFLASH_PAGE_SIZE_def)
    ultimately show ?thesis using assms False by (simp add: c1_def) (rule ex_page_cells, auto simp: p_def)
  qed (simp add: c1_def p_def)
  have al: "(a + p) mod EXFLASH_PAGE_SIZE = 0 \<or> drop p bs = []"
    using ideal.page_up [of a] by (auto simp: p_def min_def EXFLASH_PAGE_SIZE_def)
  have fit: "a + p + length (drop p bs) \<le> EXFALSH_SIZE_MAX" and len: "length (take p bs) = p" using assms by (auto simp: p_def)
  have "cells (ExFlash_Program chip None a bs c) = nor_prog (cells c1) (a + p) (drop p bs)"
    using ex_program_tail_cells [OF al fit refl refl, of c1]
    unfolding ExFlash_Program_def Let_def base gap p_def [symmetric] small c1_def [symmetric] .
  also have "\<dots> = nor_prog (cells c) a bs" using nor_prog_append [of "cells c" a "take p bs" "drop p bs"] c1 len by simp
  finally show ?thesis .
qed

lemma ex_erase_loop_cells:
  assumes "\<And>x c. x mod sz = 0 \<Longrightarrow> x < EXFALSH_SIZE_MAX \<Longrightarrow> cells (erase x c) = nor_erase (cells c) x sz" "0 < sz"
  shows "a mod sz = 0 \<Longrightarrow> a + n * sz \<le> EXFALSH_SIZE_MAX \<Longrightarrow> cells (ex_erase_loop erase sz n a c) = nor_erase (cells c) a (n * sz)"
proof (induction n arbitrary: a c)
  case (Suc n)
  have "cells (erase a c) = nor_erase (cells c) a sz" using Suc.prems assms by (intro assms(1)) auto
  moreover have "(a + sz) mod 2 ^ 32 = a + sz" using Suc.prems by (simp add: EXFALSH_SIZE_MAX_def)
  ultimately show ?case using Suc.IH [of "a + sz"] Suc.prems by (simp add: mem_fill_add ac_simps)
qed simp

lemma ex_erase_steps:
  assumes "x < EXFALSH_SIZE_MAX"
  shows "cells (ExFlash_Erase_Sector chip x c) = nor_erase (cells c) (x - x mod EXFALSH_SIZE_4K) EXFALSH_SIZE_4K"
    and "cells (ExFlash_Erase_Block chip x EXFLASH_BLOCK_ERASE_32KB c) = nor_erase (cells c) (x - x mod EXFALSH_SIZE_32K) EXFALSH_SIZE_32K"
    and "cells (ExFlash_Erase_Block chip x EXFLASH_BLOCK_ERASE_64KB c) = nor_erase (cells c) (x - x mod EXFALSH_SIZE_64K) EXFALSH_SIZE_64K"
  using assms by (simp_all add: ExFlash_Erase_Sector_def ExFlash_Erase_Block_def ExFlash_Write_Enable_def spim_send_only_def ex_sector_erase
      ex_erase_32k ex_erase_64k EXFLASH_BLOCK_ERASE_32KB_def EXFLASH_BLOCK_ERASE_64KB_def)
    (simp_all add: EXFLASH_BLOCK_ERASE_64KB_def [symmetric] EXFLASH_BLOCK_ERASE_32KB_def [symmetric] ex_erase_32k ex_erase_64k)

end

text \<open>A length rounded up to whole sectors.\<close>

definition ex_span :: "nat \<Rightarrow> nat" where
  "ex_span len = (len + 4095) div 4096 * 4096"

lemma ex_span_split:
  "ex_span len = len div 65536 * 65536 + len mod 65536 div 32768 * 32768
     + (len mod 65536 mod 32768 div 4096 + (if len mod 65536 mod 32768 mod 4096 \<noteq> 0 then 1 else 0)) * 4096"
proof -
  define u w z r where "u = len div 65536" and "w = len mod 65536 div 32768" and "z = len mod 65536 mod 32768 div 4096" and "r = len mod 65536 mod 32768 mod 4096"
  have "len = u * 65536 + len mod 65536" "len mod 65536 = w * 32768 + len mod 65536 mod 32768" "len mod 65536 mod 32768 = z * 4096 + r"
    by (simp_all only: u_def w_def z_def r_def div_mult_mod_eq)
  then obtain x y where "len = u * 65536 + x" "x = w * 32768 + y" "y = z * 4096 + r" by blast
  then have len: "len = (u * 16 + w * 8 + z) * 4096 + r" by (simp add: distrib_right)
  have r: "r < 4096" by (simp add: r_def)
  have "(len + 4095) div 4096 = u * 16 + w * 8 + z + (r + 4095) div 4096" unfolding len by simp
  moreover have "(r + 4095) div 4096 = (if r \<noteq> 0 then 1 else 0)"
  proof (cases "r = 0")
    case False
    then have "r + 4095 = (r - 1) + 1 * 4096" by simp
    then have "(r + 4095) div 4096 = (r - 1) div 4096 + 1" by (simp only: div_add_self2 mult_1)
    then show ?thesis using r False by simp
  qed simp
  ultimately show ?thesis unfolding ex_span_def u_def w_def z_def r_def by simp
qed

context ex_nor
begin

lemma ExFlash_Erase_cells:
  assumes "a mod EXFALSH_SIZE_64K = 0" "a + ex_span len \<le> EXFALSH_SIZE_MAX"
  shows "cells (ExFlash_Erase chip a len c) = nor_erase (cells c) a (ex_span len)"
proof -
  define n1 n2 n3 where "n1 = len div 65536" and "n2 = len mod 65536 div 32768"
    and "n3 = len mod 65536 mod 32768 div 4096 + (if len mod 65536 mod 32768 mod 4096 \<noteq> 0 then 1 else 0)"
  have sum: "ex_span len = n1 * 65536 + n2 * 32768 + n3 * 4096" unfolding n1_def n2_def n3_def by (rule ex_span_split)
  have fit: "a + n1 * 65536 + n2 * 32768 + n3 * 4096 \<le> 2097152" using assms(2) sum by (simp add: EXFALSH_SIZE_MAX_def)
  have al: "a mod 65536 = 0" using assms(1) by (simp add: EXFALSH_SIZE_64K_def)
  have als: "(a + n1 * 65536) mod 32768 = 0" "(a + n1 * 65536 + n2 * 32768) mod 4096 = 0" proof -
    obtain b where "a = 65536 * b" using al by (auto simp: mod_eq_0_iff_dvd)
    then have "a + n1 * 65536 = 32768 * (2 * b + 2 * n1)" "a + n1 * 65536 + n2 * 32768 = 4096 * (16 * b + 16 * n1 + 8 * n2)" by simp_all
    then show "(a + n1 * 65536) mod 32768 = 0" "(a + n1 * 65536 + n2 * 32768) mod 4096 = 0" by simp_all
  qed
  define c1 where "c1 = ex_erase_loop (\<lambda>x. ExFlash_Erase_Block chip x EXFLASH_BLOCK_ERASE_64KB) 65536 n1 a c"
  define c2 where "c2 = ex_erase_loop (\<lambda>x. ExFlash_Erase_Block chip x EXFLASH_BLOCK_ERASE_32KB) 32768 n2 (a + n1 * 65536) c1"
  define c3 where "c3 = ex_erase_loop (ExFlash_Erase_Sector chip) 4096 n3 (a + n1 * 65536 + n2 * 32768) c2"
  have "cells c1 = nor_erase (cells c) a (n1 * 65536)"
    unfolding c1_def by (rule ex_erase_loop_cells) (use al fit in \<open>auto simp: ex_erase_steps(3) ex_sizes\<close>)
  moreover have "cells c2 = nor_erase (cells c1) (a + n1 * 65536) (n2 * 32768)"
    unfolding c2_def by (rule ex_erase_loop_cells) (use als fit in \<open>auto simp: ex_erase_steps(2) ex_sizes\<close>)
  moreover have "cells c3 = nor_erase (cells c2) (a + n1 * 65536 + n2 * 32768) (n3 * 4096)"
    unfolding c3_def by (rule ex_erase_loop_cells) (use als fit in \<open>auto simp: ex_erase_steps(1) ex_sizes\<close>)
  moreover have "(a + n1 * 65536) mod 2 ^ 32 = a + n1 * 65536" "(a + n1 * 65536 + n2 * 32768) mod 2 ^ 32 = a + n1 * 65536 + n2 * 32768"
    using fit by simp_all
  then have "ExFlash_Erase chip a len c = c3"
    by (simp add: ExFlash_Erase_def Let_def ex_sizes c3_def c2_def c1_def n1_def n2_def n3_def del: power_numeral)
  ultimately show ?thesis unfolding sum by (simp add: mem_fill_add add.assoc)
qed

lemma ExFlash_Read_cells:
  assumes "a + n \<le> EXFALSH_SIZE_MAX" "a < EXFALSH_SIZE_MAX" "n \<le> 65536"
  shows "ExFlash_Read_Data_Bytes chip a n c = (0, mem_read (cells c) a n)" "ExFlash_Fast_Read chip a n c = (0, mem_read (cells c) a n)"
proof -
  have fr: "spim_frames n = n" if "n \<noteq> 0"
  proof -
    have "n + 2 ^ 32 - 1 = (n - 1) + 2 ^ 32" using that by simp
    moreover have "n - 1 < 2 ^ 32" "n - 1 < 2 ^ 16" using assms(3) by simp_all
    ultimately have "(n + 2 ^ 32 - 1) mod 2 ^ 32 mod 2 ^ 16 = n - 1" by (simp only: mod_add_self2 mod_less)
    then show ?thesis using that by (simp add: spim_frames_def)
  qed
  have cells: "map (\<lambda>i. cells c ((a + i) mod EXFALSH_SIZE_MAX)) [0..<n] = mem_read (cells c) a n"
    using assms(1) by (intro nth_equalityI) auto
  show "ExFlash_Read_Data_Bytes chip a n c = (0, mem_read (cells c) a n)"
    using assms ex_read fr cells by (cases "n = 0") (auto simp: ExFlash_Read_Data_Bytes_def spim_read_def Let_def)
  have "(a + n) mod 2 ^ 32 = a + n" using assms by (simp add: EXFALSH_SIZE_MAX_def)
  then show "ExFlash_Fast_Read chip a n c = (0, mem_read (cells c) a n)"
    using assms ex_fast_read fr cells by (cases "n = 0") (auto simp: ExFlash_Fast_Read_def spim_read_def Let_def)
qed

end

section \<open>A chip\<close>

fun ex_exec :: "byte list \<Rightarrow> mem \<Rightarrow> mem" where
  "ex_exec (cmd # a2 # a1 # a0 # bs) m =
     (let a = addr24_val a2 a1 a0 mod EXFALSH_SIZE_MAX in
      if cmd = EXFLASH_PAGE_PROGRAM then foldl (\<lambda>m (i, b). m(page_cell a i := m (page_cell a i) AND b)) m (zip [0..<length bs] bs)
      else if cmd = EXFLASH_SECTOR_ERASE then nor_erase m (a - a mod EXFALSH_SIZE_4K) EXFALSH_SIZE_4K
      else if cmd = EXFLASH_BLOCK_ERASE_32KB then nor_erase m (a - a mod EXFALSH_SIZE_32K) EXFALSH_SIZE_32K
      else if cmd = EXFLASH_BLOCK_ERASE_64KB then nor_erase m (a - a mod EXFALSH_SIZE_64K) EXFALSH_SIZE_64K
      else m)"
| "ex_exec _ m = m"

definition ex_write :: "byte list \<Rightarrow> ideal_state \<Rightarrow> ideal_state" where
  "ex_write cmd = (\<lambda>(m, wel). if cmd = [EXFLASH_WRITE_ENABLE] then (m, True) else if wel then (ex_exec cmd m, False) else (m, wel))"

fun ex_answer :: "byte list \<Rightarrow> nat \<Rightarrow> ideal_state \<Rightarrow> byte list" where
  "ex_answer (cmd # a2 # a1 # a0 # rest) n (m, wel) =
     (if cmd = EXFLASH_READ_DATA_BYTES \<or> cmd = EXFLASH_FAST_READ
      then map (\<lambda>i. m ((addr24_val a2 a1 a0 + i) mod EXFALSH_SIZE_MAX)) [0..<n] else replicate n 0)"
| "ex_answer _ n _ = replicate n 0"

definition ex_chip :: "ideal_state spi_chip" where
  "ex_chip = \<lparr>spi_write = ex_write, spi_read = ex_answer, xip_byte = (\<lambda>a (m, wel). m a)\<rparr>"

lemma ex_addr: "a < EXFALSH_SIZE_MAX \<Longrightarrow> addr24_val (of_nat (a div 65536)) (of_nat (a div 256)) (of_nat a) = a"
  by (rule addr24_roundtrip) (simp add: EXFALSH_SIZE_MAX_def FALSH_SIZE_MAX_def)

lemmas ex_cmds = EXFLASH_PAGE_PROGRAM_def EXFLASH_WRITE_ENABLE_def EXFLASH_SECTOR_ERASE_def EXFLASH_BLOCK_ERASE_32KB_def EXFLASH_BLOCK_ERASE_64KB_def
  EXFLASH_READ_DATA_BYTES_def EXFLASH_FAST_READ_def

interpretation ex_ideal: ex_nor ex_chip fst
proof
  fix a :: nat and bs :: "byte list" and c
  assume a: "a < EXFALSH_SIZE_MAX" "a mod EXFLASH_PAGE_SIZE + length bs \<le> EXFLASH_PAGE_SIZE"
  show "fst (spi_write ex_chip (EXFLASH_PAGE_PROGRAM # addr24 a @ bs) (spi_write ex_chip [EXFLASH_WRITE_ENABLE] c)) = nor_prog (fst c) a bs"
    using fold_prog_page [of a bs "fst c"] ex_addr [OF a(1)] a
    by (cases c) (simp add: ex_chip_def ex_write_def addr24_def Let_def EXFLASH_PAGE_SIZE_def FLASH_PAGE_SIZE_def)
qed (auto simp: ex_chip_def ex_write_def addr24_def Let_def ex_addr ex_cmds)

section \<open>Properties\<close>

text \<open>C17: What is written to the external flash is read back.  Over every chip that keeps its datasheet, erasing from the start of a block of 64 KB, writing up to
  64 KB there and reading them, with either read command, gives the bytes written, and no cell outside the erased sectors changes.\<close>

theorem exflash_roundtrip:
  assumes "ex_nor chip cells" "offset mod EXFALSH_SIZE_64K = 0" "offset < EXFALSH_SIZE_MAX" "length data \<le> EXFALSH_SIZE_64K"
    "c' = ExFlash_Program chip None offset data (ExFlash_Erase chip offset (length data) c)"
  shows "ExFlash_Read_Data_Bytes chip offset (length data) c' = (0, data) \<and> ExFlash_Fast_Read chip offset (length data) c' = (0, data)
    \<and> (\<forall>x. offset \<le> x \<and> x < offset + ex_span (length data) \<or> cells c' x = cells c x)"
proof -
  have span: "length data \<le> ex_span (length data)" "ex_span (length data) \<le> 65536"
  proof -
    have "length data + 4095 = (length data + 4095) div 4096 * 4096 + (length data + 4095) mod 4096" "(length data + 4095) mod 4096 < 4096" by simp_all
    then show "length data \<le> ex_span (length data)" unfolding ex_span_def by linarith
    have "(length data + 4095) div 4096 \<le> (65536 + 4095) div 4096" using assms(4) by (intro div_le_mono) (simp add: EXFALSH_SIZE_64K_def)
    then show "ex_span (length data) \<le> 65536" unfolding ex_span_def by simp
  qed
  have "offset + 65536 \<le> EXFALSH_SIZE_MAX"
  proof -
    obtain b where b: "offset = 65536 * b" using assms(2) by (auto simp: EXFALSH_SIZE_64K_def mod_eq_0_iff_dvd)
    then have "b < 32" using assms(3) by (simp add: EXFALSH_SIZE_MAX_def)
    then show ?thesis using b by (simp add: EXFALSH_SIZE_MAX_def)
  qed
  then have fit: "offset + ex_span (length data) \<le> EXFALSH_SIZE_MAX" "offset + length data \<le> EXFALSH_SIZE_MAX" using span by linarith+
  have cells: "cells c' = nor_prog (nor_erase (cells c) offset (ex_span (length data))) offset data"
    unfolding assms(5) ex_nor.ExFlash_Program_cells [OF assms(1) fit(2)] ex_nor.ExFlash_Erase_cells [OF assms(1,2) fit(1)] ..
  have "mem_read (cells c') offset (length data) = data"
    unfolding cells by (rule nor_prog_erased) (use span in \<open>simp add: mem_fill_inside\<close>)
  moreover have "length data \<le> 65536" using assms(4) by (simp add: EXFALSH_SIZE_64K_def)
  moreover have "offset \<le> x \<and> x < offset + ex_span (length data) \<or> cells c' x = cells c x" for x
    using span unfolding cells by (auto simp: nor_prog_def mem_fill_def)
  ultimately show ?thesis using ex_nor.ExFlash_Read_cells [OF assms(1) fit(2) assms(3)] by simp
qed

theorem exflash_roundtrip_witness:
  "ExFlash_Read_Data_Bytes ex_chip 0x10000 300 (ExFlash_Program ex_chip None 0x10000 (replicate 300 0x5A) (ExFlash_Erase ex_chip 0x10000 300 (\<lambda>_. 0, False)))
    = (0, replicate 300 0x5A)"
  using exflash_roundtrip [OF ex_ideal.ex_nor_axioms, of "0x10000" "replicate 300 0x5A" _ "(\<lambda>_. 0, False)"] by (simp add: ex_sizes)

text \<open>Two faults.  Erasing 64 KB from a sector that does not begin a block erases the whole block instead: the cells
  before the range are lost and its last cells stay as they are.  And a read of more than 65536 bytes fails, as the number of frames is cut to
  sixteen bits, after it has stored part of them.\<close>

lemma exflash_faults:
  assumes "ex_nor chip cells" "offset < EXFALSH_SIZE_MAX"
  shows "cells (ExFlash_Erase chip offset EXFALSH_SIZE_64K c) = nor_erase (cells c) (offset - offset mod EXFALSH_SIZE_64K) EXFALSH_SIZE_64K
    \<and> fst (ExFlash_Read_Data_Bytes chip offset 65537 c) = - 1 \<and> length (snd (ExFlash_Read_Data_Bytes chip offset 65537 c)) = 1"
proof -
  have "ExFlash_Erase chip offset EXFALSH_SIZE_64K c = ExFlash_Erase_Block chip offset EXFLASH_BLOCK_ERASE_64KB c"
    by (simp add: ExFlash_Erase_def Let_def ex_sizes)
  moreover have "spim_frames 65537 = 1" by (simp add: spim_frames_def)
  then have "spim_read chip 65537 (EXFLASH_READ_DATA_BYTES # addr24 offset) c = (- 1, [cells c (offset mod EXFALSH_SIZE_MAX)])"
    using ex_nor.ex_read [OF assms, of 1 c] by (simp add: spim_read_def Let_def)
  ultimately show ?thesis using ex_nor.ex_erase_steps(3) [OF assms] by (simp add: ExFlash_Read_Data_Bytes_def)
qed

lemma exflash_faults_witness:
  "fst (ExFlash_Erase ex_chip 0x1000 EXFALSH_SIZE_64K (\<lambda>_. 0, False)) 0 = - 1 \<and> fst (ExFlash_Erase ex_chip 0x1000 EXFALSH_SIZE_64K (\<lambda>_. 0, False)) 0x10000 = 0"
  using exflash_faults [OF ex_ideal.ex_nor_axioms, of "0x1000" "(\<lambda>_. 0, False)"] by (simp add: ex_sizes mem_fill_def)

end
