(* ===== verification/Runtime.thy ===== *)
theory Runtime
  imports Prelude "HOL-Library.Monad_Syntax"
begin

text \<open>
  Measuring time with the cycle counter of the processor, \<^verbatim>\<open>components/utils/runtime/runtime.c\<close>, and the cause of the last
  reset, \<^verbatim>\<open>components/utils/reboot_trace/reboot_trace.c\<close>.  The counter has 32 bits and runs with the clock: read at cycle \<open>t\<close> it shows \<open>t\<close>
  modulo the width.  A loop that waits reads it again and again; the cycles of its reads are an argument.
\<close>

section \<open>The cycle counter\<close>

definition SYSTEM_CLOCK :: nat where "SYSTEM_CLOCK = 160000000"

definition ln_runtime_get_delta_cycles :: "u32 \<Rightarrow> u32 \<Rightarrow> u32" where
  "ln_runtime_get_delta_cycles prior now_c = (if prior \<le> now_c then now_c - prior else (0xFFFFFFFF - prior) + now_c)"

definition ln_runtime_get_delta_ticks :: "u32 \<Rightarrow> u32 \<Rightarrow> u32" where
  "ln_runtime_get_delta_ticks prior now_c = of_nat (unat (ln_runtime_get_delta_cycles prior now_c) * 1000 div SYSTEM_CLOCK)"

text \<open>A loop that reads the counter while what it reads satisfies a condition: the cycle of the read that ended it and those after; \<open>None\<close> if the reads are
  used up.\<close>

fun wait_while :: "(u32 \<Rightarrow> bool) \<Rightarrow> nat list \<Rightarrow> (nat \<times> nat list) option" where
  "wait_while P [] = None"
| "wait_while P (t # ts) = (if P (of_nat t) then wait_while P ts else Some (t, ts))"

definition ln_block_delayus :: "u32 \<Rightarrow> nat list \<Rightarrow> (nat \<times> nat list) option" where
  "ln_block_delayus us reads =
     (case reads of
        [] \<Rightarrow> None
      | t0 # polls \<Rightarrow>
          (let delta = us * of_nat (SYSTEM_CLOCK div 1000000); start = of_nat t0; ende = start + delta in
           if start < ende then wait_while (\<lambda>x. x < ende) polls
           else do { (t, ts) \<leftarrow> wait_while (\<lambda>x. ende < x) polls; wait_while (\<lambda>x. x < ende) ts }))"

primrec delayms_loop :: "nat \<Rightarrow> nat \<Rightarrow> nat list \<Rightarrow> (nat \<times> nat list) option" where
  "delayms_loop 0 t reads = Some (t, reads)"
| "delayms_loop (Suc n) t reads = do { (t, reads) \<leftarrow> ln_block_delayus 1000 reads; delayms_loop n t reads }"

text \<open>The first argument is the cycle of the call.\<close>

definition ln_block_delayms :: "nat \<Rightarrow> u32 \<Rightarrow> nat list \<Rightarrow> (nat \<times> nat list) option" where
  "ln_block_delayms now ms reads =
     (if ms < of_nat (0xFFFFFFFF div SYSTEM_CLOCK) * 1000 then ln_block_delayus (1000 * ms) reads else delayms_loop (unat ms) now reads)"

section \<open>Ticks lost while interrupts are off\<close>

record tick_comp =
  os_tick_compensate_val :: u16
  remainder_cycles :: u32

definition COMP_MISSED_CYCLES :: u32 where "COMP_MISSED_CYCLES = 160 * 30"

definition ln_os_tick_comp_val_inc :: "u32 \<Rightarrow> u32 \<Rightarrow> tick_comp \<Rightarrow> tick_comp" where
  "ln_os_tick_comp_val_inc prior cyccnt s =
     (let delta = remainder_cycles s + ln_runtime_get_delta_cycles prior cyccnt + COMP_MISSED_CYCLES; per = of_nat (SYSTEM_CLOCK div 1000)
      in s\<lparr>remainder_cycles := delta mod per, os_tick_compensate_val := os_tick_compensate_val s + ucast (delta div per)\<rparr>)"

section \<open>The cause of a reset\<close>

datatype chip_reboot_cause = CHIP_REBOOT_POWER_ON | CHIP_REBOOT_SOFTWARE | CHIP_REBOOT_WATCHDOG

definition SOFTWARE_BOOT_MAGIC :: u64 where "SOFTWARE_BOOT_MAGIC = 0x5AA5DCBA1234A55A"
definition WATCHDOG_BOOT_MAGIC :: u64 where "WATCHDOG_BOOT_MAGIC = 0xA55A5678ABCD5AA5"

text \<open>The state is the number in the memory that is not cleared at a start.\<close>

definition ln_chip_set_reboot_cause :: "chip_reboot_cause \<Rightarrow> u64 \<Rightarrow> bool \<times> u64" where
  "ln_chip_set_reboot_cause cause reboot_magic =
     (case cause of
        CHIP_REBOOT_WATCHDOG \<Rightarrow> (True, WATCHDOG_BOOT_MAGIC)
      | CHIP_REBOOT_SOFTWARE \<Rightarrow> (True, SOFTWARE_BOOT_MAGIC)
      | _ \<Rightarrow> (False, reboot_magic))"

definition ln_chip_get_reboot_cause :: "u64 \<Rightarrow> chip_reboot_cause \<times> u64" where
  "ln_chip_get_reboot_cause reboot_magic =
     (let cause = (if reboot_magic = WATCHDOG_BOOT_MAGIC then CHIP_REBOOT_WATCHDOG
                   else if reboot_magic = SOFTWARE_BOOT_MAGIC then CHIP_REBOOT_SOFTWARE else CHIP_REBOOT_POWER_ON)
      in (cause, snd (ln_chip_set_reboot_cause CHIP_REBOOT_WATCHDOG reboot_magic)))"

definition ln_chip_reboot :: "u64 \<Rightarrow> u64" where
  "ln_chip_reboot reboot_magic = snd (ln_chip_set_reboot_cause CHIP_REBOOT_SOFTWARE reboot_magic)"

text \<open>The period of the watchdog, as the bound of its counter.\<close>

definition watchdog_period :: "nat \<Rightarrow> nat" where
  "watchdog_period level = (if level \<le> 15 then 2 ^ (8 + level) - 1 else 0x1FFFF)"

section \<open>Elapsed cycles\<close>

text \<open>Between two reads \<open>d\<close> cycles apart the difference is \<open>d\<close>, or one less if the counter ran over.\<close>

lemma delta_cycles_elapsed:
  "ln_runtime_get_delta_cycles prior (prior + d) = (if prior \<le> prior + d then d else d - 1)"
  by (simp add: ln_runtime_get_delta_cycles_def)

text \<open>No cycle is lost: the ticks added and the cycles kept account for those measured and the constant.\<close>

lemma tick_comp_conserves:
  fixes s prior cyccnt
  defines "m \<equiv> unat (ln_runtime_get_delta_cycles prior cyccnt) + 4800"
  assumes "unat (remainder_cycles s) < 160000" "m < 2 ^ 32 - 160000"
    "unat (os_tick_compensate_val s) + (unat (remainder_cycles s) + m) div 160000 < 2 ^ 16"
  shows "unat (os_tick_compensate_val (ln_os_tick_comp_val_inc prior cyccnt s)) * 160000 + unat (remainder_cycles (ln_os_tick_comp_val_inc prior cyccnt s))
      = unat (os_tick_compensate_val s) * 160000 + unat (remainder_cycles s) + m
    \<and> unat (remainder_cycles (ln_os_tick_comp_val_inc prior cyccnt s)) < 160000"
proof -
  let ?delta = "remainder_cycles s + ln_runtime_get_delta_cycles prior cyccnt + COMP_MISSED_CYCLES"
  have missed: "unat COMP_MISSED_CYCLES = 4800" by (simp add: COMP_MISSED_CYCLES_def)
  have per: "unat (of_nat (SYSTEM_CLOCK div 1000) :: u32) = 160000" by (simp add: SYSTEM_CLOCK_def)
  have "unat (remainder_cycles s + ln_runtime_get_delta_cycles prior cyccnt) = unat (remainder_cycles s) + unat (ln_runtime_get_delta_cycles prior cyccnt)"
    using assms(2,3) by (subst unat_add_lem [THEN iffD1]) (simp_all add: m_def)
  then have delta: "unat ?delta = unat (remainder_cycles s) + m"
    using assms(2,3) by (subst unat_add_lem [THEN iffD1]) (simp_all add: m_def missed)
  let ?q = "(unat (remainder_cycles s) + m) div 160000"
  have "unat (?delta div of_nat (SYSTEM_CLOCK div 1000)) = ?q" by (simp only: unat_div delta per)
  then have q: "unat (ucast (?delta div of_nat (SYSTEM_CLOCK div 1000)) :: u16) = ?q"
    using assms(4) by (simp add: unsigned_ucast_eq take_bit_nat_eq_self)
  have "unat (os_tick_compensate_val s + ucast (?delta div of_nat (SYSTEM_CLOCK div 1000))) = unat (os_tick_compensate_val s) + ?q"
    using assms(4) q by (subst unat_add_lem [THEN iffD1]) simp_all
  moreover have "unat (?delta mod of_nat (SYSTEM_CLOCK div 1000)) = (unat (remainder_cycles s) + m) mod 160000"
    by (simp only: unat_mod delta per)
  ultimately show ?thesis by (simp add: ln_os_tick_comp_val_inc_def Let_def distrib_right)
qed

section \<open>Waiting\<close>

text \<open>Reads that come in order, not more than \<open>g\<close> cycles apart.\<close>

fun paced :: "nat \<Rightarrow> nat list \<Rightarrow> bool" where
  "paced g (t # u # ts) = (t < u \<and> u \<le> t + g \<and> paced g (u # ts))"
| "paced g _ = True"

lemma wait_first:
  assumes "paced g (prev # polls)" "prev < D" "\<And>t. prev < t \<Longrightarrow> t < D \<Longrightarrow> P (of_nat t)" "\<And>t. D \<le> t \<Longrightarrow> t < D + g \<Longrightarrow> \<not> P (of_nat t)"
    "\<exists>t\<in>set polls. D \<le> t"
  shows "\<exists>t ts. wait_while P polls = Some (t, ts) \<and> D \<le> t \<and> t < D + g \<and> paced g (t # ts) \<and> (\<forall>u\<in>set polls. t < u \<longrightarrow> u \<in> set ts)"
  using assms
proof (induction polls arbitrary: prev)
  case (Cons u us)
  show ?case
  proof (cases "u < D")
    case True
    then have "P (of_nat u)" using Cons.prems(1,3) by simp
    moreover have "\<exists>t ts. wait_while P us = Some (t, ts) \<and> D \<le> t \<and> t < D + g \<and> paced g (t # ts) \<and> (\<forall>u\<in>set us. t < u \<longrightarrow> u \<in> set ts)"
      using True Cons.prems by (intro Cons.IH [of u]) auto
    ultimately show ?thesis using True by force
  next
    case False
    then have "\<not> P (of_nat u)" "u < D + g" using Cons.prems by auto
    then show ?thesis using False Cons.prems(1) by auto
  qed
qed simp

lemma unat_of_nat_epoch:
  assumes "b mod 2 ^ 32 = 0" "b \<le> t" "t < b + 2 ^ 32"
  shows "unat (of_nat t :: u32) = t - b"
proof -
  have "t mod 2 ^ 32 = (b + (t - b)) mod 2 ^ 32" using assms(2) by simp
  also have "\<dots> = (t - b) mod 2 ^ 32" using assms(1) by (metis add_0 mod_add_left_eq)
  finally show ?thesis using assms by (simp add: unat_of_nat)
qed

text \<open>The two shapes of the loop, for a delay of \<open>d\<close> cycles from cycle \<open>t0\<close> on, in the round of the counter that begins at \<open>b\<close>.\<close>

lemma delay_same_round:
  assumes "b mod 2 ^ 32 = 0" "b \<le> t0" "0 < d" "t0 + d + g \<le> b + 2 ^ 32" "paced g (t0 # polls)" "\<exists>t\<in>set polls. t0 + d \<le> t"
    "unat ende = t0 + d - b"
  shows "\<exists>t ts. wait_while (\<lambda>x. x < ende) polls = Some (t, ts) \<and> t0 + d \<le> t \<and> t < t0 + d + g"
proof -
  have "\<exists>t ts. wait_while (\<lambda>x. x < ende) polls = Some (t, ts) \<and> t0 + d \<le> t \<and> t < t0 + d + g \<and> paced g (t # ts) \<and> (\<forall>u\<in>set polls. t < u \<longrightarrow> u \<in> set ts)"
    by (rule wait_first [OF assms(5)]) (use assms unat_of_nat_epoch [OF assms(1)] in \<open>auto simp: word_less_nat_alt\<close>)
  then show ?thesis by blast
qed

lemma delay_next_round:
  assumes "b mod 2 ^ 32 = 0" "b \<le> t0" "t0 < b + 2 ^ 32" "b + 2 ^ 32 + g \<le> t0 + d" "d < 2 ^ 32" "t0 + d + g \<le> b + 2 ^ 32 + 2 ^ 32"
    "paced g (t0 # polls)" "\<exists>t\<in>set polls. t0 + d \<le> t" "unat ende = t0 + d - b - 2 ^ 32"
  shows "\<exists>u us t ts. wait_while (\<lambda>x. ende < x) polls = Some (u, us) \<and> wait_while (\<lambda>x. x < ende) us = Some (t, ts) \<and> t0 + d \<le> t \<and> t < t0 + d + g"
proof -
  have b2: "(b + 2 ^ 32) mod 2 ^ 32 = 0" using assms(1) by simp
  have D: "b + 2 ^ 32 \<le> t0 + d" using assms(4) by linarith
  obtain u us where u: "wait_while (\<lambda>x. ende < x) polls = Some (u, us)" "b + 2 ^ 32 \<le> u" "u < b + 2 ^ 32 + g" "paced g (u # us)"
    "\<forall>v\<in>set polls. u < v \<longrightarrow> v \<in> set us"
  proof -
    have "\<exists>u us. wait_while (\<lambda>x. ende < x) polls = Some (u, us) \<and> b + 2 ^ 32 \<le> u \<and> u < b + 2 ^ 32 + g \<and> paced g (u # us) \<and> (\<forall>v\<in>set polls. u < v \<longrightarrow> v \<in> set us)"
    proof (rule wait_first [OF assms(7)])
      fix t assume "t0 < t" "t < b + 2 ^ 32"
      then have "unat (of_nat t :: u32) = t - b" using unat_of_nat_epoch [OF assms(1)] assms(2) by simp
      then show "ende < of_nat t" using assms(5,9) \<open>t0 < t\<close> assms(2) D by (simp add: word_less_nat_alt)
    next
      fix t assume t: "b + 2 ^ 32 \<le> t" "t < b + 2 ^ 32 + g"
      then have "unat (of_nat t :: u32) = t - (b + 2 ^ 32)" using assms(4,5,6) assms(3) by (intro unat_of_nat_epoch [OF b2]) linarith+
      then show "\<not> ende < of_nat t" using assms(4,9) t by (simp add: word_less_nat_alt)
    next
      show "\<exists>t\<in>set polls. b + 2 ^ 32 \<le> t" using assms(8) D by (meson order_trans)
    qed (rule assms(3))
    then show thesis using that by blast
  qed
  have "\<exists>t ts. wait_while (\<lambda>x. x < ende) us = Some (t, ts) \<and> t0 + d \<le> t \<and> t < t0 + d + g \<and> paced g (t # ts) \<and> (\<forall>v\<in>set us. t < v \<longrightarrow> v \<in> set ts)"
  proof (rule wait_first [OF u(4)])
    fix t assume "u < t" "t < t0 + d"
    then have "unat (of_nat t :: u32) = t - (b + 2 ^ 32)" using u(2) assms(3,5,6) by (intro unat_of_nat_epoch [OF b2]) linarith+
    then show "of_nat t < ende" using assms(9) \<open>t < t0 + d\<close> \<open>u < t\<close> u(2) by (simp add: word_less_nat_alt)
  next
    fix t assume "t0 + d \<le> t" "t < t0 + d + g"
    then have "unat (of_nat t :: u32) = t - (b + 2 ^ 32)" using D assms(6) by (intro unat_of_nat_epoch [OF b2]) linarith+
    then show "\<not> of_nat t < ende" using assms(9) \<open>t0 + d \<le> t\<close> by (simp add: word_less_nat_alt)
  next
    show "u < t0 + d" using u(3) assms(4) by linarith
    then show "\<exists>t\<in>set us. t0 + d \<le> t" using assms(8) u(5) by force
  qed
  with u(1) show ?thesis by blast
qed

text \<open>C19: A delay takes the time asked for.  If the counter is read at least every \<open>g\<close> cycles, a delay of some microseconds, up to 26.8
  seconds, ends, not before its time is over and less than \<open>g\<close> cycles later, unless the counter runs over within \<open>g\<close> cycles of its end.\<close>

theorem block_delay_exact:
  assumes "0 < us" "us * 160 < 2 ^ 32" "paced g (t0 # polls)" "\<exists>t\<in>set polls. t0 + us * 160 \<le> t"
    "g \<le> (t0 + us * 160) mod 2 ^ 32" "(t0 + us * 160) mod 2 ^ 32 + g \<le> 2 ^ 32"
  shows "\<exists>t ts. ln_block_delayus (of_nat us) (t0 # polls) = Some (t, ts) \<and> t0 + us * 160 \<le> t \<and> t < t0 + us * 160 + g"
proof -
  define d b where "d = us * 160" and "b = t0 - t0 mod 2 ^ 32"
  let ?ende = "of_nat t0 + of_nat us * of_nat (SYSTEM_CLOCK div 1000000) :: u32"
  have e: "?ende = of_nat (t0 + d)" by (simp add: SYSTEM_CLOCK_def d_def)
  have ue: "unat ?ende = (t0 + d) mod 2 ^ 32" unfolding e unat_of_nat by simp
  have us: "unat (of_nat t0 :: u32) = t0 mod 2 ^ 32" by (simp add: unat_of_nat)
  have t0: "t0 = b + t0 mod 2 ^ 32" "t0 mod 2 ^ 32 < 2 ^ 32" by (simp_all add: b_def mod_less_eq_dividend)
  have b: "b mod 2 ^ 32 = 0" unfolding b_def by (metis minus_mod_eq_mult_div mod_mult_self1_is_0)
  have d: "0 < d" "d < 2 ^ 32" using assms(1,2) by (simp_all add: d_def)
  show ?thesis
  proof (cases "t0 mod 2 ^ 32 + d < 2 ^ 32")
    case True
    have "t0 + d = b + (t0 mod 2 ^ 32 + d)" using t0(1) by linarith
    then have "(t0 + d) mod 2 ^ 32 = (t0 mod 2 ^ 32 + d) mod 2 ^ 32" using b by (metis add_0 mod_add_left_eq)
    then have m: "(t0 + d) mod 2 ^ 32 = t0 mod 2 ^ 32 + d" using True by simp
    have "(of_nat t0 :: u32) < ?ende" unfolding word_less_nat_alt us ue m using d by simp
    moreover have "\<exists>t ts. wait_while (\<lambda>x. x < ?ende) polls = Some (t, ts) \<and> t0 + d \<le> t \<and> t < t0 + d + g"
      by (rule delay_same_round [OF b]) (use t0 d m ue assms(3,4,6) in \<open>auto simp: d_def [symmetric]\<close>)
    ultimately show ?thesis by (simp add: ln_block_delayus_def Let_def d_def)
  next
    case False
    have "t0 + d = b + 2 ^ 32 + (t0 mod 2 ^ 32 + d - 2 ^ 32)" using t0(1) False by linarith
    then have "(t0 + d) mod 2 ^ 32 = (t0 mod 2 ^ 32 + d - 2 ^ 32) mod 2 ^ 32" using b by (metis add_0 mod_add_left_eq mod_add_self2)
    then have m: "(t0 + d) mod 2 ^ 32 = t0 mod 2 ^ 32 + d - 2 ^ 32" using d t0(2) by simp
    have "\<not> (of_nat t0 :: u32) < ?ende" unfolding word_less_nat_alt us ue m using d by simp
    moreover have "\<exists>u us t ts. wait_while (\<lambda>x. ?ende < x) polls = Some (u, us) \<and> wait_while (\<lambda>x. x < ?ende) us = Some (t, ts) \<and> t0 + d \<le> t \<and> t < t0 + d + g"
    proof (rule delay_next_round [OF b])
      obtain r where r: "t0 mod 2 ^ 32 = r" by blast
      have "g \<le> r + d - 2 ^ 32" "r + d - 2 ^ 32 + g \<le> 2 ^ 32" "unat ?ende = r + d - 2 ^ 32" using m ue assms(5,6) by (simp_all only: d_def r)
      then show "b + 2 ^ 32 + g \<le> t0 + d" "t0 + d + g \<le> b + 2 ^ 32 + 2 ^ 32" "unat ?ende = t0 + d - b - 2 ^ 32"
        using t0(1) False unfolding r by linarith+
    qed (use t0 d assms(3,4) in \<open>simp_all add: d_def\<close>)
    ultimately show ?thesis by (auto simp: ln_block_delayus_def Let_def d_def)
  qed
qed

theorem block_delay_exact_witness:
  "\<exists>t ts. ln_block_delayus (of_nat 1) (0xFFFFFFF0 # [0xFFFFFFFA, 0x100000020, 0x100000050, 0x100000090, 0x1000000C0]) = Some (t, ts) \<and> 0x100000090 \<le> t"
  using block_delay_exact [of 1 70 "0xFFFFFFF0" "[0xFFFFFFFA, 0x100000020, 0x100000050, 0x100000090, 0x1000000C0]"] by auto

text \<open>A delay of nothing lasts until the counter has run over, up to 26.8 seconds.\<close>

lemma block_delay_zero:
  assumes "\<forall>t\<in>set polls. t0 < t \<and> t < t0 - t0 mod 2 ^ 32 + 2 ^ 32"
  shows "ln_block_delayus 0 (t0 # polls) = None"
proof -
  define b where "b = t0 - t0 mod 2 ^ 32"
  have b: "b mod 2 ^ 32 = 0" "b \<le> t0" "t0 < b + 2 ^ 32"
    using mod_less_eq_dividend [of t0 "2 ^ 32"] unfolding b_def by (metis minus_mod_eq_mult_div mod_mult_self1_is_0, simp_all)
  have "wait_while (\<lambda>x. of_nat t0 < x) polls = None" if "\<forall>t\<in>set polls. t0 < t \<and> t < b + 2 ^ 32"
    using that
  proof (induction polls)
    case (Cons t ts)
    then have "unat (of_nat t :: u32) = t - b" "unat (of_nat t0 :: u32) = t0 - b"
      using b by (auto intro!: unat_of_nat_epoch [OF b(1)])
    then show ?case using Cons b(2) by (auto simp: word_less_nat_alt)
  qed simp
  then show ?thesis using assms by (simp add: ln_block_delayus_def Let_def b_def)
qed

section \<open>Resets\<close>

text \<open>The ways the chip restarts: with power, which leaves some number in the memory, by the function of the software, or by the watchdog.\<close>

datatype reset = Power_On u64 | Software_Reset | Watchdog_Reset

fun reset_cause :: "reset \<Rightarrow> chip_reboot_cause" where
  "reset_cause (Power_On m) = CHIP_REBOOT_POWER_ON"
| "reset_cause Software_Reset = CHIP_REBOOT_SOFTWARE"
| "reset_cause Watchdog_Reset = CHIP_REBOOT_WATCHDOG"

text \<open>The causes that the starts report, each of which asks once.\<close>

fun boot_causes :: "u64 \<Rightarrow> reset list \<Rightarrow> chip_reboot_cause list" where
  "boot_causes m [] = []"
| "boot_causes m (r # rs) =
     (case ln_chip_get_reboot_cause (case r of Power_On x \<Rightarrow> x | Software_Reset \<Rightarrow> ln_chip_reboot m | Watchdog_Reset \<Rightarrow> m) of
        (cause, m') \<Rightarrow> cause # boot_causes m' rs)"

lemma boot_causes_running:
  assumes "\<forall>m. Power_On m \<in> set rs \<longrightarrow> m \<noteq> SOFTWARE_BOOT_MAGIC \<and> m \<noteq> WATCHDOG_BOOT_MAGIC"
  shows "boot_causes WATCHDOG_BOOT_MAGIC rs = map reset_cause rs"
  using assms
proof (induction rs)
  case (Cons r rs)
  then show ?case by (cases r) (auto simp: ln_chip_get_reboot_cause_def ln_chip_set_reboot_cause_def ln_chip_reboot_def SOFTWARE_BOOT_MAGIC_def WATCHDOG_BOOT_MAGIC_def)
qed simp

text \<open>The cause of every start is reported.  From the first start with power on, whatever resets follow, each start that asks for the cause is told how the chip was
  restarted, as long as memory does not come up with one of the two magic numbers by itself.\<close>

lemma reboot_cause_reported:
  assumes "\<forall>x. Power_On x \<in> set (Power_On m # rs) \<longrightarrow> x \<noteq> SOFTWARE_BOOT_MAGIC \<and> x \<noteq> WATCHDOG_BOOT_MAGIC"
  shows "boot_causes m0 (Power_On m # rs) = map reset_cause (Power_On m # rs)"
proof -
  have "ln_chip_get_reboot_cause m = (CHIP_REBOOT_POWER_ON, WATCHDOG_BOOT_MAGIC)"
    using assms by (simp add: ln_chip_get_reboot_cause_def ln_chip_set_reboot_cause_def)
  then show ?thesis using boot_causes_running [of rs] assms by simp
qed

lemma reboot_cause_reported_witness:
  "boot_causes 0 [Power_On 0, Software_Reset, Watchdog_Reset, Software_Reset, Power_On 1]
    = [CHIP_REBOOT_POWER_ON, CHIP_REBOOT_SOFTWARE, CHIP_REBOOT_WATCHDOG, CHIP_REBOOT_SOFTWARE, CHIP_REBOOT_POWER_ON]"
  using reboot_cause_reported [of 0 "[Software_Reset, Watchdog_Reset, Software_Reset, Power_On 1]" 0]
  by (simp add: SOFTWARE_BOOT_MAGIC_def WATCHDOG_BOOT_MAGIC_def)

end
