(* ===== verification/Simi2c.thy ===== *)
theory Simi2c
  imports Prelude
begin

unbundle bit_operations_syntax

text \<open>
  The I2C master on two pins, \<^verbatim>\<open>mcu/driver_ln882x/src/hal/simi2c.c\<close>.  The state is what the driver drives and the levels the two lines had after each of its
  writes to the pins; the delays between them have no counterpart.  The data line is driven both ways: if the driver drives it high while
  the other side pulls it low, its level is \<open>contend\<close>.  A reader of the lines sees starts, stops and bits; the lemmas show what it reads.
\<close>

section \<open>The lines\<close>

record i2c =
  i2c_scl :: bool
  i2c_sda :: bool
  i2c_output :: bool
  i2c_wave :: "(bool \<times> bool) list"
  ack_failed :: u32

text \<open>The other side during an operation: whether it pulls the data line low, and which level wins.\<close>

record i2c_peer =
  pull :: bool
  contend :: bool

definition sda_level :: "i2c_peer \<Rightarrow> i2c \<Rightarrow> bool" where
  "sda_level p s = (if i2c_output s then i2c_sda s \<and> (pull p \<longrightarrow> contend p) else \<not> pull p)"

definition i2c_note :: "i2c_peer \<Rightarrow> i2c \<Rightarrow> i2c" where
  "i2c_note p s = s\<lparr>i2c_wave := i2c_wave s @ [(i2c_scl s, sda_level p s)]\<rparr>"

definition I2C_SCL :: "i2c_peer \<Rightarrow> bool \<Rightarrow> i2c \<Rightarrow> i2c" where
  "I2C_SCL p v s = i2c_note p (s\<lparr>i2c_scl := v\<rparr>)"

definition I2C_SDA :: "i2c_peer \<Rightarrow> bool \<Rightarrow> i2c \<Rightarrow> i2c" where
  "I2C_SDA p v s = i2c_note p (s\<lparr>i2c_sda := v\<rparr>)"

definition switch_sda_output :: "i2c_peer \<Rightarrow> i2c \<Rightarrow> i2c" where
  "switch_sda_output p s = i2c_note p (s\<lparr>i2c_output := True\<rparr>)"

definition switch_sda_input :: "i2c_peer \<Rightarrow> i2c \<Rightarrow> i2c" where
  "switch_sda_input p s = i2c_note p (s\<lparr>i2c_output := False\<rparr>)"

section \<open>The driver\<close>

definition I2C_NOACK :: u8 where "I2C_NOACK = 1"
definition I2C_ACK :: u8 where "I2C_ACK = 0"

definition I2C_Init :: "i2c_peer \<Rightarrow> i2c \<Rightarrow> i2c" where
  "I2C_Init p s = I2C_SDA p True (I2C_SDA p True (I2C_SCL p True (i2c_note p (s\<lparr>i2c_output := True\<rparr>))))"

definition I2C_Start :: "i2c_peer \<Rightarrow> i2c \<Rightarrow> i2c" where
  "I2C_Start p s = I2C_SCL p False (I2C_SDA p False (I2C_SCL p True (I2C_SDA p True s)))"

definition I2C_Stop :: "i2c_peer \<Rightarrow> i2c \<Rightarrow> i2c" where
  "I2C_Stop p s = I2C_SDA p True (I2C_SCL p True (I2C_SDA p False (I2C_SCL p False s)))"

definition I2C_GetAck :: "i2c_peer \<Rightarrow> i2c \<Rightarrow> u8 \<times> i2c" where
  "I2C_GetAck p s =
     (let s = I2C_SCL p True (switch_sda_input p (I2C_SDA p True s));
          ack = (if sda_level p s then I2C_NOACK else I2C_ACK);
          s = I2C_SCL p False (switch_sda_output p s)
      in (ack, if ack = I2C_NOACK then s\<lparr>ack_failed := ack_failed s + 1\<rparr> else s))"

definition I2C_PutAck :: "i2c_peer \<Rightarrow> u8 \<Rightarrow> i2c \<Rightarrow> i2c" where
  "I2C_PutAck p ack s = I2C_SCL p False (I2C_SCL p True (I2C_SDA p (ack \<noteq> I2C_ACK) (I2C_SCL p False s)))"

primrec write_bits :: "i2c_peer \<Rightarrow> nat \<Rightarrow> u8 \<Rightarrow> i2c \<Rightarrow> i2c" where
  "write_bits p 0 data s = s"
| "write_bits p (Suc n) data s = write_bits p n (push_bit 1 data) (I2C_SCL p True (I2C_SDA p (data AND 0x80 \<noteq> 0) (I2C_SCL p False s)))"

definition I2C_WriteByte :: "i2c_peer \<Rightarrow> u8 \<Rightarrow> i2c \<Rightarrow> i2c" where
  "I2C_WriteByte p data s = I2C_SCL p False (write_bits p 8 data s)"

text \<open>The other side may change what it pulls with every bit it sends.\<close>

fun read_bits :: "i2c_peer list \<Rightarrow> u8 \<Rightarrow> i2c \<Rightarrow> u8 \<times> i2c" where
  "read_bits [] data s = (data, s)"
| "read_bits (p # ps) data s =
     (let s = I2C_SCL p True s; data = push_bit 1 data; data = (if sda_level p s then data OR 1 else data)
      in read_bits ps data (I2C_SCL p False s))"

text \<open>The argument \<^verbatim>\<open>ack\<close> is not used.\<close>

definition I2C_ReadByte :: "i2c_peer list \<Rightarrow> u8 \<Rightarrow> i2c \<Rightarrow> u8 \<times> i2c" where
  "I2C_ReadByte ps ack s = read_bits ps 0 (I2C_SDA (hd ps) True (I2C_SCL (hd ps) False s))"

section \<open>Reading the lines\<close>

datatype i2c_event = Start_Seen | Stop_Seen | Bit_Seen bool

fun edge :: "bool \<times> bool \<Rightarrow> bool \<times> bool \<Rightarrow> i2c_event list" where
  "edge (c, d) (c', d') =
     (if c \<and> c' \<and> d \<and> \<not> d' then [Start_Seen] else if c \<and> c' \<and> \<not> d \<and> d' then [Stop_Seen] else if \<not> c \<and> c' then [Bit_Seen d'] else [])"

fun decode :: "(bool \<times> bool) list \<Rightarrow> i2c_event list" where
  "decode (x # y # w) = edge x y @ decode (y # w)"
| "decode _ = []"

lemma decode_snoc: "w \<noteq> [] \<Longrightarrow> decode (w @ [x]) = decode w @ edge (last w) x"
  by (induction w rule: decode.induct) auto

definition seen :: "i2c \<Rightarrow> i2c_event list" where
  "seen s = decode (i2c_wave s)"

text \<open>A step of the driver: the last level of the lines, and what it adds.\<close>

lemma seen_note:
  "i2c_wave s \<noteq> [] \<Longrightarrow> seen (i2c_note p s) = seen s @ edge (last (i2c_wave s)) (i2c_scl s, sda_level p s)"
  by (simp add: seen_def i2c_note_def decode_snoc)

lemma note_simps [simp]:
  "i2c_wave (i2c_note p s) \<noteq> []" "last (i2c_wave (i2c_note p s)) = (i2c_scl s, sda_level p s)"
  "i2c_scl (i2c_note p s) = i2c_scl s" "i2c_sda (i2c_note p s) = i2c_sda s" "i2c_output (i2c_note p s) = i2c_output s"
  "sda_level q (i2c_note p s) = sda_level q s"
  by (simp_all add: i2c_note_def sda_level_def)

lemma seen_upd [simp]: "seen (s\<lparr>i2c_scl := a\<rparr>) = seen s" "seen (s\<lparr>i2c_sda := a\<rparr>) = seen s" "seen (s\<lparr>i2c_output := a\<rparr>) = seen s"
  "seen (s\<lparr>ack_failed := n\<rparr>) = seen s"
  by (simp_all add: seen_def)

lemmas i2c_steps = I2C_SCL_def I2C_SDA_def switch_sda_output_def switch_sda_input_def seen_note

text \<open>A peer that listens, and one that acknowledges and whose low level wins.\<close>

definition listens :: i2c_peer where "listens = \<lparr>pull = False, contend = False\<rparr>"

definition answers :: "bool \<Rightarrow> i2c_peer" where "answers a = \<lparr>pull = a, contend = False\<rparr>"

text \<open>The driver between two operations: the clock is low, and the data line is driven.\<close>

definition i2c_held :: "i2c \<Rightarrow> bool" where
  "i2c_held s \<longleftrightarrow> i2c_wave s \<noteq> [] \<and> \<not> fst (last (i2c_wave s)) \<and> \<not> i2c_scl s \<and> i2c_output s"

definition i2c_idle :: "i2c \<Rightarrow> bool" where
  "i2c_idle s \<longleftrightarrow> i2c_wave s \<noteq> [] \<and> last (i2c_wave s) = (True, True) \<and> i2c_scl s \<and> i2c_sda s \<and> i2c_output s"

lemma start_seen: "i2c_idle s \<Longrightarrow> i2c_held (I2C_Start listens s) \<and> seen (I2C_Start listens s) = seen s @ [Start_Seen]"
  by (auto simp: i2c_idle_def i2c_held_def I2C_Start_def i2c_steps sda_level_def listens_def)

lemma stop_seen: "i2c_held s \<Longrightarrow> i2c_idle (I2C_Stop listens s) \<and> seen (I2C_Stop listens s) = seen s @ [Bit_Seen False, Stop_Seen]"
  by (cases "last (i2c_wave s)") (auto simp: i2c_idle_def i2c_held_def I2C_Stop_def i2c_steps sda_level_def listens_def)

lemma ack_seen: "i2c_held s \<Longrightarrow> i2c_held (snd (I2C_GetAck (answers a) s)) \<and> seen (snd (I2C_GetAck (answers a) s)) = seen s @ [Bit_Seen (\<not> a)]
    \<and> fst (I2C_GetAck (answers a) s) = (if a then I2C_ACK else I2C_NOACK)"
  by (cases "last (i2c_wave s)") (auto simp: i2c_held_def I2C_GetAck_def Let_def i2c_steps sda_level_def answers_def I2C_ACK_def I2C_NOACK_def)

lemma and_0x80: "(w AND 0x80 \<noteq> 0) = bit (w :: u8) 7"
proof -
  have "(0x80 :: u8) = push_bit 7 1" by (simp add: push_bit_eq_mult)
  then show ?thesis by (metis bit_iff_and_push_bit_not_eq_0)
qed

lemma bit_double: "j < 8 \<Longrightarrow> bit (d * 2 :: u8) j = (0 < j \<and> bit d (j - 1))"
  using bit_push_bit_iff [of 1 d j] by (auto simp: push_bit_eq_mult Suc_le_eq)

lemma write_bits_seen:
  assumes "n \<le> 8" "i2c_wave s \<noteq> []" "i2c_output s"
  shows "seen (write_bits listens n data s) = seen s @ map (\<lambda>i. Bit_Seen (bit data (7 - i))) [0..<n]
    \<and> i2c_wave (write_bits listens n data s) \<noteq> [] \<and> i2c_output (write_bits listens n data s)"
  using assms
proof (induction n arbitrary: data s)
  case (Suc n)
  let ?s = "I2C_SCL listens True (I2C_SDA listens (bit data 7) (I2C_SCL listens False s))"
  have s: "seen ?s = seen s @ [Bit_Seen (bit data 7)]" "i2c_wave ?s \<noteq> []" "i2c_output ?s"
    using Suc.prems by (cases "last (i2c_wave s)"; simp add: i2c_steps sda_level_def listens_def)+
  have shift: "map (\<lambda>i. Bit_Seen (bit (push_bit 1 data) (7 - i))) [0..<n] = map (\<lambda>i. Bit_Seen (bit data (7 - Suc i))) [0..<n]"
    using Suc.prems(1) by (auto simp: bit_double)
  have "map (\<lambda>i. Bit_Seen (bit data (7 - i))) [0..<Suc n] = Bit_Seen (bit data 7) # map (\<lambda>i. Bit_Seen (bit data (7 - Suc i))) [0..<n]"
    by (simp add: upt_conv_Cons map_Suc_upt [symmetric] comp_def del: upt_Suc)
  then show ?case using Suc.IH [OF _ s(2,3), of "push_bit 1 data"] Suc.prems(1) s(1) shift by (simp add: and_0x80 del: upt_Suc)
qed simp

definition byte_events :: "u8 \<Rightarrow> i2c_event list" where
  "byte_events b = map (\<lambda>i. Bit_Seen (bit b (7 - i))) [0..<8]"

lemma write_byte_seen:
  assumes "i2c_held s"
  shows "i2c_held (I2C_WriteByte listens b s) \<and> seen (I2C_WriteByte listens b s) = seen s @ byte_events b"
proof -
  let ?w = "write_bits listens 8 b s"
  have "i2c_wave s \<noteq> []" "i2c_output s" using assms by (simp_all add: i2c_held_def)
  then have "seen ?w = seen s @ byte_events b" "i2c_wave ?w \<noteq> []" "i2c_output ?w"
    using write_bits_seen [of 8 s b] by (simp_all add: byte_events_def)
  then show ?thesis by (cases "last (i2c_wave ?w)") (simp add: I2C_WriteByte_def i2c_held_def i2c_steps)
qed

section \<open>A transfer\<close>

text \<open>Bytes sent one after the other, each with the answer of the other side.\<close>

fun send_bytes :: "(u8 \<times> bool) list \<Rightarrow> i2c \<Rightarrow> u8 list \<times> i2c" where
  "send_bytes [] s = ([], s)"
| "send_bytes ((b, a) # bs) s =
     (case I2C_GetAck (answers a) (I2C_WriteByte listens b s) of (ack, s) \<Rightarrow> (case send_bytes bs s of (acks, s) \<Rightarrow> (ack # acks, s)))"

definition transfer :: "(u8 \<times> bool) list \<Rightarrow> i2c \<Rightarrow> u8 list \<times> i2c" where
  "transfer bs s = (case send_bytes bs (I2C_Start listens s) of (acks, s) \<Rightarrow> (acks, I2C_Stop listens s))"

lemma send_bytes_seen:
  assumes "i2c_held s"
  shows "i2c_held (snd (send_bytes bs s)) \<and> fst (send_bytes bs s) = map (\<lambda>(b, a). if a then I2C_ACK else I2C_NOACK) bs
    \<and> seen (snd (send_bytes bs s)) = seen s @ concat (map (\<lambda>(b, a). byte_events b @ [Bit_Seen (\<not> a)]) bs)"
  using assms
proof (induction bs s rule: send_bytes.induct)
  case (2 b a bs s)
  obtain ack s' where s': "I2C_GetAck (answers a) (I2C_WriteByte listens b s) = (ack, s')" by (cases "I2C_GetAck (answers a) (I2C_WriteByte listens b s)")
  then have "i2c_held s'" "seen s' = seen s @ byte_events b @ [Bit_Seen (\<not> a)]" "ack = (if a then I2C_ACK else I2C_NOACK)"
    using ack_seen [of "I2C_WriteByte listens b s" a] write_byte_seen [OF 2(2), of b] by auto
  then show ?case using 2(1) [OF s' [symmetric]] s' by (simp split: prod.splits) auto
qed simp


definition i2c_zero :: i2c where
  "i2c_zero = \<lparr>i2c_scl = True, i2c_sda = True, i2c_output = True, i2c_wave = [(True, True)], ack_failed = 0\<rparr>"


section \<open>Reading\<close>

lemma read_bits_fold:
  assumes "i2c_output s" "i2c_sda s"
  shows "fst (read_bits (map (\<lambda>x. answers (\<not> x)) xs) d s) = foldl (\<lambda>d x. push_bit 1 d OR (if x then 1 else 0)) d xs"
  using assms
proof (induction xs arbitrary: d s)
  case (Cons x xs)
  let ?p = "answers (\<not> x)"
  have "sda_level ?p (I2C_SCL ?p True s) = x" using Cons.prems by (simp add: I2C_SCL_def sda_level_def answers_def)
  moreover have "i2c_output (I2C_SCL ?p False (I2C_SCL ?p True s))" "i2c_sda (I2C_SCL ?p False (I2C_SCL ?p True s))"
    using Cons.prems by (simp_all add: I2C_SCL_def)
  ultimately show ?case using Cons.IH by (simp add: Let_def)
qed simp

lemma bit_fold:
  "j < 8 \<Longrightarrow> bit (foldl (\<lambda>d x. push_bit 1 d OR (if x then 1 else 0)) (0 :: u8) xs) j = (j < length xs \<and> xs ! (length xs - 1 - j))"
proof (induction xs arbitrary: j rule: rev_induct)
  case (snoc x xs)
  then show ?case by (cases j) (auto simp: bit_double bit_or_iff bit_1_iff nth_append)
qed simp

text \<open>A byte that the other side sends is read, if its low level wins; it is never acknowledged, whatever the argument says.\<close>

lemma read_byte_value:
  assumes "i2c_output s"
  shows "fst (I2C_ReadByte (map (\<lambda>i. answers (\<not> bit b (7 - i))) [0..<8]) ack s) = b"
    and "I2C_ReadByte ps ack s = I2C_ReadByte ps ack' s"
proof -
  let ?xs = "map (\<lambda>i. bit b (7 - i)) [0..<8]"
  have ps: "map (\<lambda>i. answers (\<not> bit b (7 - i))) [0..<8] = map (\<lambda>x. answers (\<not> x)) ?xs" by simp
  have "fst (I2C_ReadByte (map (\<lambda>i. answers (\<not> bit b (7 - i))) [0..<8]) ack s) = foldl (\<lambda>d x. push_bit 1 d OR (if x then 1 else 0)) 0 ?xs"
    unfolding ps I2C_ReadByte_def by (rule read_bits_fold) (use assms in \<open>simp_all add: I2C_SDA_def I2C_SCL_def\<close>)
  also have "\<dots> = b"
  proof (rule bit_word_eqI)
    fix j assume "j < LENGTH(8)"
    then have "j < 8" by simp
    then show "bit (foldl (\<lambda>d x. push_bit 1 d OR (if x then 1 else 0)) (0 :: u8) ?xs) j = bit b j" unfolding bit_fold [OF \<open>j < 8\<close>] using \<open>j < 8\<close> by (simp del: upt.simps upt_rec_numeral)
  qed
  finally show "fst (I2C_ReadByte (map (\<lambda>i. answers (\<not> bit b (7 - i))) [0..<8]) ack s) = b" .
  show "I2C_ReadByte ps ack s = I2C_ReadByte ps ack' s" by (simp add: I2C_ReadByte_def)
qed

text \<open>If the driver's high level wins instead, an acknowledgement ends the transfer: the data line is driven again, high, before the clock falls, and
  its rise is a stop.\<close>

lemma i2c_ack_glitch:
  assumes "i2c_held s"
  shows "seen (snd (I2C_GetAck \<lparr>pull = True, contend = True\<rparr> s)) = seen s @ [Bit_Seen False, Stop_Seen]"
  using assms by (cases "last (i2c_wave s)") (auto simp: i2c_held_def I2C_GetAck_def Let_def i2c_steps sda_level_def I2C_ACK_def I2C_NOACK_def)

lemma i2c_ack_glitch_witness:
  "seen (snd (I2C_GetAck \<lparr>pull = True, contend = True\<rparr> (I2C_Start listens i2c_zero))) = [Start_Seen, Bit_Seen False, Stop_Seen]"
  using i2c_ack_glitch [of "I2C_Start listens i2c_zero"] start_seen [of i2c_zero] by (simp add: i2c_idle_def i2c_zero_def seen_def)

end
